(* ===== verification/Prelude.thy ===== *)
theory Prelude
  imports Main "HOL-Library.Multiset"
begin

text \<open>
  Shared vocabulary of the development: Python text as code points, Python exceptions as
  values, the result monad in which every raise of the source is a branch, and the generic
  facts on lists and association lists the components rely on.
\<close>

section \<open>Text\<close>

text \<open>
  A Python \<open>str\<close> is a sequence of Unicode code points; \<open>len\<close> counts code points, so a
  string is a list of naturals and not a list of bytes.  \<open>u\<close> embeds an ASCII literal.
\<close>

type_synonym pystr = "nat list"

definition u :: "string \<Rightarrow> pystr" where
  "u s = map of_char s"

lemma inj_of_char_nat: "inj (of_char :: char \<Rightarrow> nat)"
  by (auto intro!: injI)

lemma u_eq_iff [simp]: "u s = u t \<longleftrightarrow> s = t"
  unfolding u_def by (rule inj_map_eq_map [OF inj_of_char_nat])

lemma u_Nil [simp]: "u [] = []"
  by (simp add: u_def)

lemma u_eq_Nil_iff [simp]: "u s = [] \<longleftrightarrow> s = []" "[] = u s \<longleftrightarrow> s = []"
  by (auto simp: u_def)

section \<open>Exceptions\<close>

text \<open>
  The exception classes the modelled modules raise or catch.  An exception value carries its
  class and the constant part of its message.  \<open>mro\<close> lists the class and its ancestors, so
  \<open>catches\<close> is what an \<open>except\<close> clause tests.
\<close>

datatype exc_class =
    Base_Exception
  | TypeError | ValueError | KeyError | IndexError | RuntimeError | OSError | TimeoutError
  | FileNotFoundError | RecursionError | UnicodeError
  | ValidationError | InvalidGoldAnswerError | InsufficientSamplesError | DuplicateSampleIdError
  | SelectedSampleSetError | DatasetFormatError | ModelInputError
  | EvaluationPreflightError | RunnerInvariantError | JobDeadlineExceeded
  | ProviderContractError | ProviderTimeoutError | ProviderTransportError
  | TokenLimitExceeded | IdempotencyConflictError | SubmissionQuotaError | GlobalQueueFullError
  | IntegrityError | ChallengePausedError | StopIteration
  | ExecutorBusy | RecoveryRequired | AuthConflictError | AdminError
  | SampleClaimLost | RedisQueueMessageError | ApiError | DataError

datatype py_exc = Exc (exc_cls: exc_class) (exc_msg: string)

text \<open>
  \<open>OSError\<close> is the parent of \<open>TimeoutError\<close> and of \<open>FileNotFoundError\<close>; the provider errors
  are runtime errors; \<open>JobDeadlineExceeded\<close> is a \<open>TimeoutError\<close>.
\<close>

fun mro :: "exc_class \<Rightarrow> exc_class list" where
  "mro KeyError = [KeyError]"
| "mro IndexError = [IndexError]"
| "mro TimeoutError = [TimeoutError, OSError]"
| "mro FileNotFoundError = [FileNotFoundError, OSError]"
| "mro RecursionError = [RecursionError, RuntimeError]"
| "mro UnicodeError = [UnicodeError, ValueError]"
| "mro ValidationError = [ValidationError, ValueError]"
| "mro InvalidGoldAnswerError = [InvalidGoldAnswerError, ValueError]"
| "mro InsufficientSamplesError = [InsufficientSamplesError, ValueError]"
| "mro DuplicateSampleIdError = [DuplicateSampleIdError, ValueError]"
| "mro SelectedSampleSetError = [SelectedSampleSetError, ValueError]"
| "mro DatasetFormatError = [DatasetFormatError, ValueError]"
| "mro ModelInputError = [ModelInputError, ValueError]"
| "mro EvaluationPreflightError = [EvaluationPreflightError, ValueError]"
| "mro RunnerInvariantError = [RunnerInvariantError, RuntimeError]"
| "mro JobDeadlineExceeded = [JobDeadlineExceeded, TimeoutError, OSError]"
| "mro ProviderContractError = [ProviderContractError, RuntimeError]"
| "mro ProviderTimeoutError = [ProviderTimeoutError, TimeoutError, OSError]"
| "mro ProviderTransportError = [ProviderTransportError, RuntimeError]"
| "mro TokenLimitExceeded = [TokenLimitExceeded, ValueError]"
| "mro IdempotencyConflictError = [IdempotencyConflictError, ValueError]"
| "mro SubmissionQuotaError = [SubmissionQuotaError, ValueError]"
| "mro GlobalQueueFullError = [GlobalQueueFullError, ValueError]"
| "mro ExecutorBusy = [ExecutorBusy, RuntimeError]"
| "mro RecoveryRequired = [RecoveryRequired, RuntimeError]"
| "mro ChallengePausedError = [ChallengePausedError, ValueError]"
| "mro AuthConflictError = [AuthConflictError, ValueError]"
| "mro SampleClaimLost = [SampleClaimLost, RuntimeError]"
| "mro RedisQueueMessageError = [RedisQueueMessageError, RuntimeError]"
| "mro c = [c]"

definition catches :: "exc_class \<Rightarrow> py_exc \<Rightarrow> bool" where
  "catches c e \<longleftrightarrow> c \<in> set (mro (exc_cls e))"

section \<open>Results\<close>

type_synonym 'a result = "py_exc + 'a"

definition rbind :: "'e + 'a \<Rightarrow> ('a \<Rightarrow> 'e + 'b) \<Rightarrow> 'e + 'b" where
  "rbind m f = (case m of Inl e \<Rightarrow> Inl e | Inr x \<Rightarrow> f x)"

definition ensure :: "bool \<Rightarrow> 'e \<Rightarrow> 'e + unit" where
  "ensure c e = (if c then Inr () else Inl e)"

abbreviation raise :: "exc_class \<Rightarrow> string \<Rightarrow> 'a result" where
  "raise c m \<equiv> Inl (Exc c m)"

lemma rbind_simps [simp]:
  "rbind (Inl e) f = Inl e" "rbind (Inr x) f = f x"
  by (simp_all add: rbind_def)

lemma rbind_Inr_iff: "rbind m f = Inr y \<longleftrightarrow> (\<exists>x. m = Inr x \<and> f x = Inr y)"
  by (cases m) auto

lemma rbind_Inl_iff: "rbind m f = Inl e \<longleftrightarrow> m = Inl e \<or> (\<exists>x. m = Inr x \<and> f x = Inl e)"
  by (cases m) auto

lemma rbind_assoc: "rbind (rbind m f) g = rbind m (\<lambda>x. rbind (f x) g)"
  by (cases m) auto

lemma rbind_cong [fundef_cong]:
  "m = m' \<Longrightarrow> (\<And>x. m' = Inr x \<Longrightarrow> f x = f' x) \<Longrightarrow> rbind m f = rbind m' f'"
  by (cases m') auto

lemma ensure_Inr_iff [simp]: "ensure c e = Inr r \<longleftrightarrow> c"
  by (simp add: ensure_def)

lemma ensure_Inl_iff [simp]: "ensure c e = Inl e' \<longleftrightarrow> \<not> c \<and> e' = e"
  by (auto simp: ensure_def)

lemma ensure_True [simp]: "c \<Longrightarrow> ensure c e = Inr ()"
  by (simp add: ensure_def)

lemma ensure_False [simp]: "\<not> c \<Longrightarrow> ensure c e = Inl e"
  by (simp add: ensure_def)

text \<open>A loop that stops at the first error, collecting results (\<open>rmapM\<close>) or only checking.\<close>

fun rmapM :: "('a \<Rightarrow> 'e + 'b) \<Rightarrow> 'a list \<Rightarrow> 'e + 'b list" where
  "rmapM f [] = Inr []"
| "rmapM f (x # xs) = rbind (f x) (\<lambda>y. rbind (rmapM f xs) (\<lambda>ys. Inr (y # ys)))"

lemma rmapM_Inr_iff:
  "rmapM f xs = Inr ys \<longleftrightarrow> list_all2 (\<lambda>x y. f x = Inr y) xs ys"
proof (induction xs arbitrary: ys)
  case Nil
  then show ?case by auto
next
  case (Cons x xs)
  then show ?case by (cases ys) (auto simp: rbind_Inr_iff)
qed

lemma rmapM_length: "rmapM f xs = Inr ys \<Longrightarrow> length ys = length xs"
  by (auto simp: rmapM_Inr_iff dest: list_all2_lengthD)

lemma rmapM_all_Inr: "(\<And>x. x \<in> set xs \<Longrightarrow> f x = Inr (g x)) \<Longrightarrow> rmapM f xs = Inr (map g xs)"
  by (induction xs) auto

lemma rmapM_ex_Inr:
  "(\<And>x. x \<in> set xs \<Longrightarrow> \<exists>y. f x = Inr y) \<Longrightarrow> \<exists>ys. rmapM f xs = Inr ys"
proof (induction xs)
  case (Cons x xs)
  then obtain y ys where "f x = Inr y" "rmapM f xs = Inr ys" by (meson list.set_intros)
  then show ?case by simp
qed simp

text \<open>A value that an \<open>isinstance\<close> guard inspects: an instance of the expected class, or not.\<close>

datatype 'a dyn = Instance 'a | NotInstance

section \<open>Lists and association lists\<close>

text \<open>Python's \<open>dict\<close> update: replace in place, or append a new key at the end.\<close>

fun dict_set :: "'k \<Rightarrow> 'v \<Rightarrow> ('k \<times> 'v) list \<Rightarrow> ('k \<times> 'v) list" where
  "dict_set k v [] = [(k, v)]"
| "dict_set k v ((k', v') # m) = (if k = k' then (k, v) # m else (k', v') # dict_set k v m)"

lemma map_of_dict_set [simp]: "map_of (dict_set k v m) = (map_of m)(k \<mapsto> v)"
  by (induction k v m rule: dict_set.induct) auto

lemma set_fst_dict_set [simp]: "fst ` set (dict_set k v m) = insert k (fst ` set m)"
  by (induction k v m rule: dict_set.induct) auto

lemma distinct_dict_set: "distinct (map fst m) \<Longrightarrow> distinct (map fst (dict_set k v m))"
proof (induction k v m rule: dict_set.induct)
  case (2 k v k' v' m)
  then show ?case
    using set_fst_dict_set [of k v m] by (auto simp: image_iff)
qed simp

lemma dict_set_fresh: "k \<notin> fst ` set m \<Longrightarrow> dict_set k v m = m @ [(k, v)]"
  by (induction k v m rule: dict_set.induct) auto

definition dict_del :: "'k \<Rightarrow> ('k \<times> 'v) list \<Rightarrow> ('k \<times> 'v) list" where
  "dict_del k m = filter (\<lambda>(k', _). k' \<noteq> k) m"

lemma map_of_dict_del [simp]: "map_of (dict_del k m) = (map_of m)(k := None)"
  by (induction m) (auto simp: dict_del_def)

lemma distinct_dict_del: "distinct (map fst m) \<Longrightarrow> distinct (map fst (dict_del k m))"
  by (auto simp: dict_del_def distinct_map_filter)

lemma distinct_map_fst_inj:
  "distinct (map fst m) \<Longrightarrow> (k, v) \<in> set m \<Longrightarrow> (k, w) \<in> set m \<Longrightarrow> v = w"
  by (metis map_of_is_SomeI option.inject)

lemma mset_dict_del:
  assumes "distinct (map fst m)" "map_of m k = Some v"
  shows "mset (map snd m) = add_mset v (mset (map snd (dict_del k m)))"
  using assms
proof (induction m)
  case (Cons x m)
  obtain k' v' where x: "x = (k', v')" by (cases x)
  show ?case
  proof (cases "k' = k")
    case True
    then have "k \<notin> fst ` set m" using Cons.prems x by auto
    then have "dict_del k m = m" by (auto simp: dict_del_def filter_id_conv rev_image_eqI)
    then show ?thesis using Cons.prems x True by (simp add: dict_del_def)
  next
    case False
    then show ?thesis using Cons x by (simp add: dict_del_def)
  qed
qed simp

lemma sum_list_mset: "sum_list xs = sum_mset (mset xs)" for xs :: "'a::comm_monoid_add list"
  by (induction xs) auto

lemma sum_list_map_le:
  "(\<And>x. x \<in> set xs \<Longrightarrow> f x \<le> g x) \<Longrightarrow> (\<Sum>x\<leftarrow>xs. f x) \<le> (\<Sum>x\<leftarrow>xs. (g x :: 'a::ordered_comm_monoid_add))"
  by (induction xs) (auto intro: add_mono)

lemma list_all2_map_eq: "list_all2 (\<lambda>x y. f y = g x) xs ys \<Longrightarrow> map f ys = map g xs"
  by (induction rule: list_all2_induct) auto

end
