(* ===== verification/Py_Float.thy ===== *)
theory Py_Float
  imports Complex_Main "HOL-Library.Log_Nat" Prelude
begin

text \<open>
  Python floats are IEEE 754 binary64 numbers.  A finite float is represented by its exact
  rational value and every arithmetic operation rounds the exact result to the nearest
  representable number, ties to even (\<open>fl\<close>), with gradual underflow at \<open>2 ^ (-1074)\<close>.
  The exponent is not bounded above: every float the modelled code computes is a ratio of
  counts or a mean of such ratios and stays far below \<open>2 ^ 1024\<close>.

  The locale \<open>float_rounding\<close> states what the scoring code relies on; \<open>ieee\<close> discharges it
  for \<open>fl\<close>.
\<close>

section \<open>What scoring relies on\<close>

locale float_rounding =
  fixes rnd :: "rat \<Rightarrow> rat"
  assumes rnd_mono: "0 \<le> x \<Longrightarrow> x \<le> y \<Longrightarrow> rnd x \<le> rnd y"
    and rnd_zero: "rnd 0 = 0"
    and rnd_one: "rnd 1 = 1"
    and rnd_double: "0 \<le> x \<Longrightarrow> rnd (2 * rnd x) = 2 * rnd x"
    and rnd_pos: "2 powi (-1074) \<le> x \<Longrightarrow> 0 < rnd x"
begin

lemma rnd_nonneg: "0 \<le> x \<Longrightarrow> 0 \<le> rnd x"
  using rnd_mono [of 0 x] by (simp add: rnd_zero)

lemma rnd_le_one: "0 \<le> x \<Longrightarrow> x \<le> 1 \<Longrightarrow> rnd x \<le> 1"
  using rnd_mono [of x 1] by (simp add: rnd_one)

lemma quotient_bounds:
  assumes "0 \<le> a" "a \<le> b"
  shows "0 \<le> rnd (a / b)" "rnd (a / b) \<le> 1"
proof -
  have "0 \<le> a / b" "a / b \<le> 1"
    using assms by (auto simp: divide_le_eq)
  then show "0 \<le> rnd (a / b)" "rnd (a / b) \<le> 1"
    by (auto intro: rnd_nonneg rnd_le_one)
qed

lemma count_ratio_bounds:
  assumes "0 \<le> c" "c \<le> n"
  shows "0 \<le> rnd (of_int c / of_int n)" "rnd (of_int c / of_int n) \<le> 1"
  using assms quotient_bounds [of "of_int c" "of_int n"] by simp_all

text \<open>
  The harmonic mean as the code computes it: three roundings in the numerator and the sum,
  one in the quotient.  It stays in the unit interval because doubling is exact.
\<close>

lemma harmonic_numerator_le:
  assumes p: "p = rnd x" "0 \<le> x" "p \<le> 1" and r: "r = rnd y" "0 \<le> y" "r \<le> 1"
  shows "rnd (rnd (2 * p) * r) \<le> rnd (p + r)" "0 \<le> rnd (rnd (2 * p) * r)"
proof -
  have nn: "0 \<le> p" "0 \<le> r" using p r by (auto intro: rnd_nonneg)
  have dbl: "rnd (2 * p) = 2 * p" using p rnd_double by simp
  have "p * r \<le> p" "p * r \<le> r"
    using nn p(3) r(3) by (simp_all add: mult_left_le mult_left_le_one_le)
  then have "2 * p * r \<le> p + r" by linarith
  then show "rnd (rnd (2 * p) * r) \<le> rnd (p + r)"
    using nn dbl by (intro rnd_mono) auto
  show "0 \<le> rnd (rnd (2 * p) * r)"
    using nn dbl by (auto intro: rnd_nonneg)
qed

lemma harmonic_bounds:
  assumes p: "p = rnd x" "0 \<le> x" "p \<le> 1" and r: "r = rnd y" "0 \<le> y" "r \<le> 1"
  shows "0 \<le> rnd (rnd (rnd (2 * p) * r) / rnd (p + r))"
    "rnd (rnd (rnd (2 * p) * r) / rnd (p + r)) \<le> 1"
  using harmonic_numerator_le [OF p r] by (auto intro: quotient_bounds)

end

section \<open>The exponent of a positive rational\<close>

definition fexp :: "rat \<Rightarrow> int" where
  "fexp x = (if 1 \<le> x then int (floorlog 2 (nat \<lfloor>x\<rfloor>)) - 1
             else - int (floorlog 2 (nat (\<lceil>1 / x\<rceil> - 1))))"

lemma two_powi_pos [simp]: "0 < (2::rat) powi k"
  by (simp add: zero_less_power_int)

lemma two_powi_nz [simp]: "(2::rat) powi k \<noteq> 0"
  by simp

lemma two_powi_less: "a < b \<Longrightarrow> (2::rat) powi a < 2 powi b"
  by (rule power_int_strict_increasing) auto

lemma two_powi_le: "a \<le> b \<Longrightarrow> (2::rat) powi a \<le> 2 powi b"
  by (rule power_int_increasing) auto

lemma two_powi_less_iff: "(2::rat) powi a < 2 powi b \<longleftrightarrow> a < b"
  by (meson linorder_not_le two_powi_le two_powi_less)

lemma two_powi_add: "(2::rat) powi (a + b) = 2 powi a * 2 powi b"
  by (simp add: power_int_add)

lemma two_powi_nat: "0 \<le> k \<Longrightarrow> (2::rat) powi k = of_int (2 ^ nat k)"
  by (simp add: power_int_def)

lemma two_powi_shift:
  assumes "j \<le> k"
  shows "(2::rat) powi k = of_int (2 ^ nat (k - j)) * 2 powi j"
proof -
  have "(2::rat) powi k = 2 powi (k - j) * 2 powi j"
    using two_powi_add [of "k - j" j] by simp
  then show ?thesis using two_powi_nat [of "k - j"] assms by simp
qed

lemma floorlog2_bounds:
  assumes "0 < n"
  shows "2 ^ (floorlog 2 n - 1) \<le> n" "n < 2 ^ floorlog 2 n" "0 < floorlog 2 n"
proof -
  show "2 ^ (floorlog 2 n - 1) \<le> n" and less: "n < 2 ^ floorlog 2 n"
    using floorlog_bounds [of n 2] assms by auto
  show "0 < floorlog 2 n"
    using less assms by (cases "floorlog 2 n") auto
qed

lemma fexp_bounds_ge1:
  assumes "1 \<le> x"
  shows "2 powi (fexp x) \<le> x" "x < 2 powi (fexp x + 1)"
proof -
  define n where "n = nat \<lfloor>x\<rfloor>"
  have n: "0 < n" "of_nat n \<le> x" "x < of_nat n + 1"
    using assms by (auto simp: n_def le_floor_iff) linarith+
  note fb = floorlog2_bounds [OF n(1)]
  have e: "fexp x = int (floorlog 2 n - 1)" using assms fb(3) by (simp add: fexp_def n_def)
  have "(of_nat (2 ^ (floorlog 2 n - 1)) :: rat) \<le> of_nat n" using fb(1) of_nat_mono by blast
  then show "2 powi (fexp x) \<le> x" using n e by (simp add: order_trans [OF _ n(2)])
  have "n + 1 \<le> 2 ^ floorlog 2 n" using fb(2) by simp
  then have "(of_nat (n + 1) :: rat) \<le> of_nat (2 ^ floorlog 2 n)" using of_nat_mono by blast
  moreover have "fexp x + 1 = int (floorlog 2 n)" using e fb(3) by simp
  ultimately show "x < 2 powi (fexp x + 1)" using n(3) by simp
qed

lemma fexp_bounds_lt1:
  assumes "0 < x" "x < 1"
  shows "2 powi (fexp x) \<le> x" "x < 2 powi (fexp x + 1)"
proof -
  define m where "m = nat (\<lceil>1 / x\<rceil> - 1)"
  have "1 < 1 / x" using assms by simp
  then have c: "2 \<le> \<lceil>1 / x\<rceil>" by (simp add: le_ceiling_iff)
  have m: "0 < m" using c by (simp add: m_def)
  have m1: "of_nat m < 1 / x"
  proof -
    have "of_int (\<lceil>1 / x\<rceil>) - 1 < 1 / x" by linarith
    then show ?thesis using c by (simp add: m_def)
  qed
  have m2: "1 / x \<le> of_nat m + 1"
  proof -
    have "1 / x \<le> of_int (\<lceil>1 / x\<rceil>)" by (rule le_of_int_ceiling)
    moreover have "(of_nat m :: rat) + 1 = of_int (\<lceil>1 / x\<rceil>)"
      using c of_nat_nat [of "\<lceil>1 / x\<rceil> - 1", where 'a = rat] assms
      by (simp add: m_def del: of_nat_nat)
    ultimately show ?thesis by simp
  qed
  note fb = floorlog2_bounds [OF m]
  have e: "fexp x = - int (floorlog 2 m)" using assms by (simp add: fexp_def m_def)
  have "m + 1 \<le> 2 ^ floorlog 2 m" using fb(2) by simp
  then have "(of_nat (m + 1) :: rat) \<le> of_nat (2 ^ floorlog 2 m)" using of_nat_mono by blast
  then have "1 / x \<le> 2 ^ floorlog 2 m" using m2 by simp
  then have "1 \<le> 2 ^ floorlog 2 m * x" using assms by (simp add: divide_le_eq)
  then show "2 powi (fexp x) \<le> x"
    using e by (simp add: power_int_minus field_simps)
  have "(of_nat (2 ^ (floorlog 2 m - 1)) :: rat) \<le> of_nat m" using fb(1) of_nat_mono by blast
  from le_less_trans [OF this m1] have "2 ^ (floorlog 2 m - 1) < 1 / x" by simp
  then have "x * 2 ^ (floorlog 2 m - 1) < 1" using assms by (simp add: less_divide_eq mult.commute)
  moreover have "fexp x + 1 = - int (floorlog 2 m - 1)" using e fb(3) by simp
  ultimately show "x < 2 powi (fexp x + 1)"
    by (simp add: power_int_minus field_simps)
qed

lemma fexp_bounds:
  assumes "0 < x"
  shows "2 powi (fexp x) \<le> x" "x < 2 powi (fexp x + 1)"
  using fexp_bounds_ge1 [of x] fexp_bounds_lt1 [of x] assms by (cases "1 \<le> x"; force)+

lemma fexp_unique:
  assumes "0 < x" "2 powi e \<le> x" "x < 2 powi (e + 1)"
  shows "fexp x = e"
proof -
  have "(2::rat) powi e < 2 powi (fexp x + 1)" "(2::rat) powi (fexp x) < 2 powi (e + 1)"
    using fexp_bounds [OF assms(1)] assms by linarith+
  then show ?thesis by (simp add: two_powi_less_iff)
qed

lemma fexp_mono:
  assumes "0 < x" "x \<le> y" shows "fexp x \<le> fexp y"
proof -
  have "(2::rat) powi (fexp x) < 2 powi (fexp y + 1)"
    using fexp_bounds [OF assms(1)] fexp_bounds [of y] assms by linarith
  then show ?thesis by (simp add: two_powi_less_iff)
qed

text \<open>Floors of closed fractions, so that \<open>simp\<close> evaluates roundings.\<close>

lemma floor_rat_numerals [simp]:
  "\<lfloor>(numeral a :: rat) / numeral b\<rfloor> = numeral a div numeral b"
  "\<lfloor>(1 :: rat) / numeral b\<rfloor> = 1 div numeral b"
  using floor_divide_of_int_eq [of "numeral a" "numeral b", where ?'a = rat]
    floor_divide_of_int_eq [of "1" "numeral b", where ?'a = rat] by simp_all

section \<open>Rounding\<close>

definition round_half_even :: "rat \<Rightarrow> int" where
  "round_half_even q =
     (let f = \<lfloor>q\<rfloor>; d = q - of_int f in
      if d < 1 / 2 then f else if 1 / 2 < d then f + 1 else if even f then f else f + 1)"

definition ulp_exp :: "rat \<Rightarrow> int" where
  "ulp_exp x = max (fexp x - 52) (- 1074)"

definition fl_pos :: "rat \<Rightarrow> rat" where
  "fl_pos x = of_int (round_half_even (x / 2 powi (ulp_exp x))) * 2 powi (ulp_exp x)"

definition fl :: "rat \<Rightarrow> rat" where
  "fl x = (if x = 0 then 0 else if 0 < x then fl_pos x else - fl_pos (- x))"

lemma round_half_even_int [simp]: "round_half_even (of_int k) = k"
  by (simp add: round_half_even_def)

lemma round_half_even_bounds:
  "of_int (round_half_even q) \<le> q + 1 / 2" "q - 1 / 2 \<le> of_int (round_half_even q)"
proof -
  have "of_int \<lfloor>q\<rfloor> \<le> q" by (rule of_int_floor_le)
  moreover have "q < of_int \<lfloor>q\<rfloor> + 1" by linarith
  ultimately show "of_int (round_half_even q) \<le> q + 1 / 2" "q - 1 / 2 \<le> of_int (round_half_even q)"
    by (auto simp: round_half_even_def Let_def) linarith+
qed

lemma round_half_even_mono:
  assumes "p \<le> q" shows "round_half_even p \<le> round_half_even q"
proof (cases "\<lfloor>p\<rfloor> = \<lfloor>q\<rfloor>")
  case True
  then show ?thesis using assms by (auto simp: round_half_even_def Let_def)
next
  case False
  then have "\<lfloor>p\<rfloor> + 1 \<le> \<lfloor>q\<rfloor>" using floor_mono [OF assms] by simp
  then show ?thesis by (auto simp: round_half_even_def Let_def)
qed

lemma fl_pos_grid:
  assumes "k \<ge> ulp_exp x" "x \<le> of_int n * 2 powi k"
  shows "fl_pos x \<le> of_int n * 2 powi k"
proof -
  define c where "c = (2::int) ^ nat (k - ulp_exp x)"
  have kc: "(2::rat) powi k = of_int c * 2 powi (ulp_exp x)"
    unfolding c_def by (rule two_powi_shift [OF assms(1)])
  have "x / 2 powi (ulp_exp x) \<le> of_int (n * c)"
    using assms(2) kc by (simp add: divide_le_eq mult_ac)
  then have "round_half_even (x / 2 powi (ulp_exp x)) \<le> n * c"
    using round_half_even_mono round_half_even_int by metis
  then have "(of_int (round_half_even (x / 2 powi (ulp_exp x))) :: rat) \<le> of_int (n * c)"
    by (simp only: of_int_le_iff)
  then show ?thesis
    unfolding fl_pos_def kc by (simp add: mult_ac)
qed

lemma fl_pos_grid_ge:
  assumes "k \<ge> ulp_exp x" "of_int n * 2 powi k \<le> x"
  shows "of_int n * 2 powi k \<le> fl_pos x"
proof -
  define c where "c = (2::int) ^ nat (k - ulp_exp x)"
  have kc: "(2::rat) powi k = of_int c * 2 powi (ulp_exp x)"
    unfolding c_def by (rule two_powi_shift [OF assms(1)])
  have "of_int (n * c) \<le> x / 2 powi (ulp_exp x)"
    using assms(2) kc by (simp add: le_divide_eq mult_ac)
  then have "n * c \<le> round_half_even (x / 2 powi (ulp_exp x))"
    using round_half_even_mono round_half_even_int by metis
  then have "(of_int (n * c) :: rat) \<le> of_int (round_half_even (x / 2 powi (ulp_exp x)))"
    by (simp only: of_int_le_iff)
  then show ?thesis
    unfolding fl_pos_def kc by (simp add: mult_ac)
qed

lemma fl_pos_nonneg: "0 < x \<Longrightarrow> 0 \<le> fl_pos x"
  using fl_pos_grid_ge [of x "ulp_exp x" 0] by simp

lemma fl_pos_mono:
  assumes "0 < x" "x \<le> y" shows "fl_pos x \<le> fl_pos y"
proof (cases "ulp_exp x = ulp_exp y")
  case True
  have "x / 2 powi (ulp_exp y) \<le> y / 2 powi (ulp_exp y)"
    using assms by (simp add: divide_right_mono)
  from round_half_even_mono [OF this] show ?thesis
    by (simp add: fl_pos_def True mult_right_mono)
next
  case False
  then have lt: "ulp_exp x < ulp_exp y" "ulp_exp y = fexp y - 52" "fexp x < fexp y"
    using fexp_mono [OF assms] by (auto simp: ulp_exp_def)
  have "x < 2 powi (fexp y)"
    using fexp_bounds [OF assms(1)] two_powi_le [of "fexp x + 1" "fexp y"] lt(3) by linarith
  then have "fl_pos x \<le> of_int 1 * 2 powi (fexp y)"
    using lt by (intro fl_pos_grid) auto
  also have "\<dots> \<le> fl_pos y"
    using fexp_bounds [of y] assms lt by (intro fl_pos_grid_ge) auto
  finally show ?thesis .
qed

text \<open>A number with a significand of at most 53 bits is its own rounding.\<close>

lemma fl_exact:
  assumes "0 \<le> m" "m \<le> 2 ^ 53" "- 1074 \<le> k"
  shows "fl (of_int m * 2 powi k) = of_int m * 2 powi k"
proof (cases "m = 0")
  case True
  then show ?thesis by (simp add: fl_def)
next
  case False
  define v where "v = (of_int m :: rat) * 2 powi k"
  have v: "0 < v" using False assms by (simp add: v_def)
  have fe: "2 powi (fexp v) \<le> v" by (rule fexp_bounds [OF v])
  have grid: "\<exists>n. v = of_int n * 2 powi (ulp_exp v)"
  proof (cases "ulp_exp v \<le> k")
    case True
    then have "v = of_int (m * 2 ^ nat (k - ulp_exp v)) * 2 powi (ulp_exp v)"
      using two_powi_shift [of "ulp_exp v" k] by (simp add: v_def)
    then show ?thesis by blast
  next
    case False
    then have lt: "k < fexp v - 52" and ue: "ulp_exp v = fexp v - 52"
      using assms by (auto simp: ulp_exp_def)
    have "v \<le> of_int (2 ^ 53) * 2 powi k"
      unfolding v_def using assms(2) by (intro mult_right_mono) (auto simp: of_int_le_iff simp del: of_int_power)
    also have "\<dots> = 2 powi (53 + k)" by (simp add: two_powi_add power_int_numeral)
    also have "\<dots> \<le> 2 powi (fexp v)" using lt by (intro two_powi_le) simp
    finally have "v = 2 powi (fexp v)" using fe by simp
    also have "\<dots> = of_int (2 ^ 52) * 2 powi (ulp_exp v)"
      using two_powi_shift [of "ulp_exp v" "fexp v"] by (simp add: ue)
    finally show ?thesis by blast
  qed
  then obtain n where n: "v = of_int n * 2 powi (ulp_exp v)" ..
  then have "v / 2 powi (ulp_exp v) = of_int n" by (simp add: field_simps)
  then have "fl_pos v = v" using n by (simp add: fl_pos_def)
  then show ?thesis using v by (simp add: fl_def v_def)
qed

lemma fl_pos_significand:
  assumes "0 < x"
  shows "\<exists>m. 0 \<le> m \<and> m \<le> 2 ^ 53 \<and> fl_pos x = of_int m * 2 powi (ulp_exp x)"
proof -
  define m where "m = round_half_even (x / 2 powi (ulp_exp x))"
  have "x < 2 powi (fexp x + 1)" by (rule fexp_bounds [OF assms])
  also have "\<dots> \<le> 2 powi (53 + ulp_exp x)" by (intro two_powi_le) (simp add: ulp_exp_def)
  also have "\<dots> = of_int (2 ^ 53) * 2 powi (ulp_exp x)"
    by (simp add: two_powi_add power_int_numeral)
  finally have "x / 2 powi (ulp_exp x) \<le> of_int (2 ^ 53)" by (simp add: divide_le_eq)
  then have "m \<le> 2 ^ 53"
    unfolding m_def using round_half_even_mono round_half_even_int by metis
  moreover have "0 \<le> m"
    unfolding m_def
    using round_half_even_mono [of "of_int 0" "x / 2 powi (ulp_exp x)"] round_half_even_int [of 0] assms
    by simp
  ultimately show ?thesis by (auto simp: fl_pos_def m_def)
qed

lemma fl_double:
  assumes "0 \<le> x" shows "fl (2 * fl x) = 2 * fl x"
proof (cases "x = 0")
  case False
  then have x: "0 < x" using assms by simp
  obtain m where m: "0 \<le> m" "m \<le> 2 ^ 53" "fl_pos x = of_int m * 2 powi (ulp_exp x)"
    using fl_pos_significand [OF x] by blast
  have "2 * fl x = of_int m * 2 powi (ulp_exp x + 1)"
    using x m(3) by (simp add: fl_def power_int_add)
  then show ?thesis
    using fl_exact [OF m(1,2), of "ulp_exp x + 1"] by (simp add: ulp_exp_def)
qed (simp add: fl_def)

lemma fl_idem: "0 \<le> x \<Longrightarrow> fl (fl x) = fl x"
proof (cases "x = 0")
  case False
  assume "0 \<le> x"
  with False have x: "0 < x" by simp
  obtain m where m: "0 \<le> m" "m \<le> 2 ^ 53" "fl_pos x = of_int m * 2 powi (ulp_exp x)"
    using fl_pos_significand [OF x] by blast
  then show ?thesis
    using fl_exact [OF m(1,2), of "ulp_exp x"] x by (simp add: fl_def ulp_exp_def)
qed (simp add: fl_def)

lemma fl_int: "0 \<le> n \<Longrightarrow> n \<le> 2 ^ 53 \<Longrightarrow> fl (of_int n) = of_int n"
  using fl_exact [of n 0] by simp

lemma fl_zero [simp]: "fl 0 = 0"
  by (simp add: fl_def)

lemma fl_one [simp]: "fl 1 = 1"
  using fl_int [of 1] by simp

lemma fl_mono: "0 \<le> x \<Longrightarrow> x \<le> y \<Longrightarrow> fl x \<le> fl y"
  by (auto simp: fl_def intro: fl_pos_mono fl_pos_nonneg)

lemma fl_positive:
  assumes "2 powi (- 1074) \<le> x" shows "0 < fl x"
proof -
  have "fl (of_int 1 * 2 powi (- 1074)) \<le> fl x" using assms by (intro fl_mono) auto
  moreover have "fl (of_int 1 * 2 powi (- 1074)) = of_int 1 * 2 powi (- 1074)"
    by (rule fl_exact) auto
  ultimately show ?thesis by (simp add: less_le_trans [OF two_powi_pos])
qed

text \<open>A ratio of counts below \<open>2 ^ 53\<close> rounds to one only when it is one.\<close>

lemma fl_below_one:
  assumes "0 \<le> x" "x \<le> 1 - 2 powi (- 53)" shows "fl x < 1"
proof -
  have "fl x \<le> fl (of_int (2 ^ 53 - 1) * 2 powi (- 53))"
    using assms by (intro fl_mono) (auto simp: power_int_minus field_simps)
  also have "\<dots> = of_int (2 ^ 53 - 1) * 2 powi (- 53)" by (rule fl_exact) auto
  also have "\<dots> < 1" by (simp add: power_int_minus field_simps)
  finally show ?thesis .
qed

lemma fl_ratio_one_iff:
  assumes "0 \<le> c" "c \<le> n" "0 < n" "n \<le> 2 ^ 53"
  shows "fl (of_int c / of_int n) = 1 \<longleftrightarrow> c = n"
proof
  assume one: "fl (of_int c / of_int n) = 1"
  show "c = n"
  proof (rule ccontr)
    assume "c \<noteq> n"
    then have "c \<le> n - 1" using assms by simp
    then have cn: "(of_int c :: rat) \<le> of_int n - 1" by (metis of_int_1 of_int_diff of_int_le_iff)
    have n0: "0 < (of_int n :: rat)" using assms(3) by simp
    have "of_int n \<le> (of_int (2 ^ 53) :: rat)" using assms(4) by (simp only: of_int_le_iff)
    then have nb: "(1::rat) / of_int (2 ^ 53) \<le> 1 / of_int n"
      by (intro divide_left_mono mult_pos_pos n0) (use n0 in simp_all)
    have "(of_int c :: rat) / of_int n \<le> (of_int n - 1) / of_int n"
      using cn n0 by (intro divide_right_mono) simp_all
    also have "\<dots> = 1 - 1 / of_int n" using n0 by (simp add: diff_divide_distrib)
    also have "\<dots> \<le> 1 - 1 / of_int (2 ^ 53)" using nb by simp
    also have "1 / of_int (2 ^ 53) = (2 powi (- 53) :: rat)" by (simp add: power_int_minus field_simps)
    finally have "fl (of_int c / of_int n) < 1"
      using assms by (intro fl_below_one) simp_all
    with one show False by simp
  qed
qed (use assms in simp)

interpretation ieee: float_rounding fl
  by unfold_locales (auto intro: fl_mono fl_double fl_positive)

section \<open>Float values\<close>

text \<open>
  The value of a float field: finite, or one of the values \<open>math.isfinite\<close> rejects.
\<close>

datatype pyfloat = Fin rat | PosInf | NegInf | NaN

text \<open>\<open>math.isclose\<close> with the tolerances the code passes, on finite arguments.\<close>

definition isclose :: "rat \<Rightarrow> rat \<Rightarrow> rat \<Rightarrow> rat \<Rightarrow> bool" where
  "isclose rel_tol abs_tol a b \<longleftrightarrow>
     a = b \<or>
     (let diff = \<bar>fl (b - a)\<bar> in
      diff \<le> \<bar>fl (rel_tol * b)\<bar> \<or> diff \<le> \<bar>fl (rel_tol * a)\<bar> \<or> diff \<le> abs_tol)"

lemma isclose_refl [simp]: "isclose rtol atol a a"
  by (simp add: isclose_def)

end
