(* ===== verification/Json.thy ===== *)
theory Json
  imports Py_Float
begin

text \<open>
  The JSON text the platform reads: \<open>json.loads\<close> of the Python standard library as an
  executable scanner over code points.  It keeps the three ways the call can fail apart,
  because the callers catch them apart: malformed text (\<open>JSONDecodeError\<close>), an integer
  literal beyond the interpreter's digit limit (a plain \<open>ValueError\<close>) and nesting beyond the
  interpreter's recursion limit (\<open>RecursionError\<close>).  Duplicate keys keep the last value.
\<close>

section \<open>Values\<close>

datatype json =
    JNull
  | JBool bool
  | JInt int
  | JFloat pyfloat
  | JStr pystr
  | JArr "json list"
  | JObj "(pystr \<times> json) list"

fun is_str :: "json \<Rightarrow> bool" where
  "is_str (JStr _) = True"
| "is_str _ = False"

fun str_of :: "json \<Rightarrow> pystr" where
  "str_of (JStr s) = s"
| "str_of _ = []"

datatype loads_error = JSONDecodeError | IntDigitLimit | RecursionLimit

section \<open>Lexical scanners\<close>

definition is_ws :: "nat \<Rightarrow> bool" where
  "is_ws c \<longleftrightarrow> c = 32 \<or> c = 9 \<or> c = 10 \<or> c = 13"

definition skip_ws :: "pystr \<Rightarrow> pystr" where
  "skip_ws s = dropWhile is_ws s"

definition is_digit :: "nat \<Rightarrow> bool" where
  "is_digit c \<longleftrightarrow> 48 \<le> c \<and> c \<le> 57"

definition hex_value :: "nat \<Rightarrow> nat option" where
  "hex_value c =
     (if is_digit c then Some (c - 48)
      else if 97 \<le> c \<and> c \<le> 102 then Some (c - 87)
      else if 65 \<le> c \<and> c \<le> 70 then Some (c - 55)
      else None)"

definition hex4 :: "nat \<Rightarrow> nat \<Rightarrow> nat \<Rightarrow> nat \<Rightarrow> nat option" where
  "hex4 a b c d =
     (case (hex_value a, hex_value b, hex_value c, hex_value d) of
        (Some w, Some x, Some y, Some z) \<Rightarrow> Some (((w * 16 + x) * 16 + y) * 16 + z)
      | _ \<Rightarrow> None)"

definition simple_escape :: "nat \<Rightarrow> nat option" where
  "simple_escape e =
     (if e = 34 \<or> e = 92 \<or> e = 47 then Some e
      else if e = 98 then Some 8
      else if e = 102 then Some 12
      else if e = 110 then Some 10
      else if e = 114 then Some 13
      else if e = 116 then Some 9
      else None)"

definition high_surrogate :: "nat \<Rightarrow> bool" where
  "high_surrogate c \<longleftrightarrow> 55296 \<le> c \<and> c \<le> 56319"

definition low_surrogate :: "nat \<Rightarrow> bool" where
  "low_surrogate c \<longleftrightarrow> 56320 \<le> c \<and> c \<le> 57343"

definition join_surrogates :: "nat \<Rightarrow> nat \<Rightarrow> nat" where
  "join_surrogates h l = 65536 + (h - 55296) * 1024 + (l - 56320)"

definition emit :: "nat \<Rightarrow> (pystr \<times> pystr) option \<Rightarrow> (pystr \<times> pystr) option" where
  "emit c r = map_option (\<lambda>(t, rest). (c # t, rest)) r"

text \<open>
  A \<open>\uXXXX\<close> escape after its \<open>u\<close>, joined with a following low surrogate when there is one.
\<close>

definition scan_unicode :: "pystr \<Rightarrow> (nat \<times> pystr) option" where
  "scan_unicode s =
     (case s of
        w # x # y # z # t \<Rightarrow>
          (case hex4 w x y z of
             None \<Rightarrow> None
           | Some h \<Rightarrow>
               if high_surrogate h \<and> 6 \<le> length t \<and> take 2 t = [92, 117] then
                 (case hex4 (t ! 2) (t ! 3) (t ! 4) (t ! 5) of
                    None \<Rightarrow> None
                  | Some l \<Rightarrow> if low_surrogate l then Some (join_surrogates h l, drop 6 t)
                              else Some (h, t))
               else Some (h, t))
      | _ \<Rightarrow> None)"

lemma scan_unicode_consumes [termination_simp]:
  "scan_unicode s = Some (h, t) \<Longrightarrow> length t < length s"
  by (auto simp: scan_unicode_def split: list.splits option.splits if_splits)

text \<open>One escape after its backslash.\<close>

definition scan_escape :: "pystr \<Rightarrow> (nat \<times> pystr) option" where
  "scan_escape s =
     (case s of
        [] \<Rightarrow> None
      | e # t \<Rightarrow> if e = 117 then scan_unicode t else map_option (\<lambda>c. (c, t)) (simple_escape e))"

lemma scan_escape_consumes [termination_simp]:
  "scan_escape s = Some (h, t) \<Longrightarrow> length t < length s"
  by (auto simp: scan_escape_def split: list.splits if_splits dest: scan_unicode_consumes)

text \<open>The body of a string literal, after its opening quote: the text and the rest.\<close>

fun scan_string :: "pystr \<Rightarrow> (pystr \<times> pystr) option" where
  "scan_string [] = None"
| "scan_string (c # s) =
     (if c = 34 then Some ([], s)
      else if c = 92 then
        (case scan_escape s of None \<Rightarrow> None | Some (h, t) \<Rightarrow> emit h (scan_string t))
      else if c \<le> 31 then None
      else emit c (scan_string s))"

definition digits_value :: "pystr \<Rightarrow> int" where
  "digits_value ds = fold (\<lambda>d acc. acc * 10 + int (d - 48)) ds 0"

text \<open>The integer part: a lone zero, or a digit 1--9 and all digits after it.\<close>

definition scan_int_part :: "pystr \<Rightarrow> (pystr \<times> pystr) option" where
  "scan_int_part s =
     (case s of
        [] \<Rightarrow> None
      | c # t \<Rightarrow>
          if c = 48 then Some ([48], t)
          else if is_digit c then Some (takeWhile is_digit s, dropWhile is_digit s)
          else None)"

definition scan_fraction :: "pystr \<Rightarrow> pystr \<times> pystr" where
  "scan_fraction s =
     (case s of
        c # t \<Rightarrow> if c = 46 \<and> takeWhile is_digit t \<noteq> []
                 then (takeWhile is_digit t, dropWhile is_digit t) else ([], s)
      | [] \<Rightarrow> ([], s))"

definition scan_exponent :: "pystr \<Rightarrow> int option \<times> pystr" where
  "scan_exponent s =
     (case s of
        c # t \<Rightarrow>
          if c = 101 \<or> c = 69 then
            (let (neg, t') = (case t of d # t1 \<Rightarrow> if d = 45 then (True, t1)
                                                 else if d = 43 then (False, t1) else (False, t)
                                | [] \<Rightarrow> (False, t));
                 ds = takeWhile is_digit t'
             in if ds = [] then (None, s)
                else (Some (if neg then - digits_value ds else digits_value ds),
                      dropWhile is_digit t'))
          else (None, s)
      | [] \<Rightarrow> (None, s))"

text \<open>A decimal literal as a float: the nearest binary64 number, or an infinity.\<close>

definition decimal_float :: "bool \<Rightarrow> int \<Rightarrow> int \<Rightarrow> pyfloat" where
  "decimal_float neg m e =
     (let f = fl (of_int m * 10 powi e) in
      if 2 ^ 1024 \<le> f then (if neg then NegInf else PosInf)
      else Fin (if neg then - f else f))"

definition max_int_digits :: nat where
  "max_int_digits = 4300"

definition scan_number :: "pystr \<Rightarrow> loads_error + (json \<times> pystr)" where
  "scan_number s =
     (let (neg, s1) = (case s of c # t \<Rightarrow> if c = 45 then (True, t) else (False, s)
                         | [] \<Rightarrow> (False, s))
      in case scan_int_part s1 of
           None \<Rightarrow> Inl JSONDecodeError
         | Some (ds, s2) \<Rightarrow>
             (let (fs, s3) = scan_fraction s2; (ex, s4) = scan_exponent s3 in
              if fs = [] \<and> ex = None then
                (if max_int_digits < length ds then Inl IntDigitLimit
                 else Inr (JInt (if neg then - digits_value ds else digits_value ds), s4))
              else Inr (JFloat (decimal_float neg (digits_value (ds @ fs))
                          ((case ex of None \<Rightarrow> 0 | Some e \<Rightarrow> e) - int (length fs))), s4)))"

text \<open>The keyword values, \<open>NaN\<close> and the infinities the decoder accepts by default.\<close>

definition json_keywords :: "(pystr \<times> json) list" where
  "json_keywords =
     [(u ''null'', JNull), (u ''true'', JBool True), (u ''false'', JBool False),
      (u ''NaN'', JFloat NaN), (u ''Infinity'', JFloat PosInf), (u ''-Infinity'', JFloat NegInf)]"

fun scan_keyword :: "(pystr \<times> json) list \<Rightarrow> pystr \<Rightarrow> (json \<times> pystr) option" where
  "scan_keyword [] s = None"
| "scan_keyword ((k, v) # ks) s =
     (if take (length k) s = k then Some (v, drop (length k) s) else scan_keyword ks s)"

section \<open>Arrays, objects and values\<close>

text \<open>
  Arrays and objects share their loop: an item, then a comma or the closing bracket
  (\<open>scan_seq\<close>, which takes the scanner of one item).  Its fuel is the length of the text,
  which is enough because every round consumes a character (\<open>scan_seq_fuel\<close>).  The depth of
  \<open>scan_value\<close> is the recursion the interpreter has left.
\<close>

definition next_char :: "pystr \<Rightarrow> loads_error + (nat \<times> pystr)" where
  "next_char s = (case skip_ws s of [] \<Rightarrow> Inl JSONDecodeError | c # t \<Rightarrow> Inr (c, t))"

fun scan_seq :: "(pystr \<Rightarrow> loads_error + ('a \<times> pystr)) \<Rightarrow> nat \<Rightarrow> nat \<Rightarrow> pystr
    \<Rightarrow> loads_error + ('a list \<times> pystr)" where
  "scan_seq p close 0 s = Inl JSONDecodeError"
| "scan_seq p close (Suc n) s =
     rbind (p s) (\<lambda>(v, r). rbind (next_char r) (\<lambda>(c, t).
       if c = close then Inr ([v], t)
       else if c = 44 then
         rbind (scan_seq p close n (skip_ws t)) (\<lambda>(vs, r'). Inr (v # vs, r'))
       else Inl JSONDecodeError))"

text \<open>One object member: a string key, a colon, a value.\<close>

definition scan_key :: "pystr \<Rightarrow> loads_error + (pystr \<times> pystr)" where
  "scan_key s =
     (case s of
        [] \<Rightarrow> Inl JSONDecodeError
      | q # t \<Rightarrow>
          if q \<noteq> 34 then Inl JSONDecodeError
          else (case scan_string t of None \<Rightarrow> Inl JSONDecodeError | Some kr \<Rightarrow> Inr kr))"

definition scan_member :: "(pystr \<Rightarrow> loads_error + (json \<times> pystr)) \<Rightarrow> pystr
    \<Rightarrow> loads_error + ((pystr \<times> json) \<times> pystr)" where
  "scan_member p s =
     rbind (scan_key s) (\<lambda>(k, r). rbind (next_char r) (\<lambda>(c, t).
       if c = 58 then rbind (p (skip_ws t)) (\<lambda>(v, r'). Inr ((k, v), r'))
       else Inl JSONDecodeError))"

definition build_dict :: "(pystr \<times> json) list \<Rightarrow> (pystr \<times> json) list" where
  "build_dict kvs = fold (\<lambda>(k, v). dict_set k v) kvs []"

fun scan_value :: "nat \<Rightarrow> pystr \<Rightarrow> loads_error + (json \<times> pystr)" where
  "scan_value d s =
     (case s of
        [] \<Rightarrow> Inl JSONDecodeError
      | c # t \<Rightarrow>
          if c = 34 then rbind (scan_key s) (\<lambda>(x, r). Inr (JStr x, r))
          else if c = 123 then
            (case d of
               0 \<Rightarrow> Inl RecursionLimit
             | Suc d' \<Rightarrow>
                 rbind (next_char t) (\<lambda>(b, t').
                   if b = 125 then Inr (JObj [], t')
                   else rbind (scan_seq (scan_member (\<lambda>x. scan_value d' x)) 125
                                (Suc (length t)) (skip_ws t))
                          (\<lambda>(m, r). Inr (JObj (build_dict m), r))))
          else if c = 91 then
            (case d of
               0 \<Rightarrow> Inl RecursionLimit
             | Suc d' \<Rightarrow>
                 rbind (next_char t) (\<lambda>(b, t').
                   if b = 93 then Inr (JArr [], t')
                   else rbind (scan_seq (\<lambda>x. scan_value d' x) 93 (Suc (length t)) (skip_ws t))
                          (\<lambda>(vs, r). Inr (JArr vs, r))))
          else (case scan_keyword json_keywords s of Some vr \<Rightarrow> Inr vr | None \<Rightarrow> scan_number s))"

declare scan_value.simps [simp del]

definition loads :: "nat \<Rightarrow> pystr \<Rightarrow> loads_error + json" where
  "loads depth s =
     (if take 1 s = [65279] then Inl JSONDecodeError
      else rbind (scan_value depth (skip_ws s)) (\<lambda>(v, r).
             if skip_ws r = [] then Inr v else Inl JSONDecodeError))"

text \<open>What \<open>simp\<close> needs to run the scanner on a closed text.\<close>

lemmas json_eval =
  loads_def skip_ws_def is_ws_def scan_value.simps next_char_def scan_key_def scan_member_def
  json_keywords_def build_dict_def scan_number_def scan_int_part_def is_digit_def
  scan_fraction_def scan_exponent_def digits_value_def max_int_digits_def u_def emit_def

section \<open>Every scanner consumes text, so the fuel suffices\<close>

lemma length_skip_ws: "length (skip_ws s) \<le> length s"
  by (simp add: skip_ws_def length_dropWhile_le)

lemma skip_ws_Cons_length: "skip_ws s = c # t \<Longrightarrow> length t < length s"
  using length_skip_ws [of s] by simp

lemma scan_string_consumes: "scan_string s = Some (x, r) \<Longrightarrow> length r < length s"
proof (induction s arbitrary: x r rule: scan_string.induct)
  case (2 c s)
  show ?case
  proof (cases "c = 92")
    case True
    with "2.prems" obtain h t y where "scan_escape s = Some (h, t)" "scan_string t = Some (y, r)"
      by (auto simp: emit_def split: option.splits)
    with "2.IH"(1) True scan_escape_consumes show ?thesis by fastforce
  next
    case False
    with 2 show ?thesis by (fastforce simp: emit_def split: if_splits)
  qed
qed simp

lemma scan_keyword_consumes:
  assumes "\<forall>(k, v) \<in> set ks. k \<noteq> []" "scan_keyword ks s = Some (v, r)"
  shows "length r < length s"
  using assms
proof (induction ks s rule: scan_keyword.induct)
  case (2 k v' ks s)
  then show ?case
    by (cases s) (auto split: if_splits)
qed simp

lemma scan_number_consumes:
  assumes "scan_number s = Inr (v, r)" shows "length r < length s"
proof -
  have frac: "length (snd (scan_fraction t)) \<le> length t" for t
    by (auto simp: scan_fraction_def split: list.splits intro: le_SucI length_dropWhile_le)
  have expo: "length (snd (scan_exponent t)) \<le> length t" for t
    by (auto simp: scan_exponent_def Let_def split: list.splits if_splits
        intro: le_SucI length_dropWhile_le)
  have int: "scan_int_part t = Some (ds, t') \<Longrightarrow> length t' < length t" for t ds t'
    by (auto simp: scan_int_part_def less_Suc_eq_le length_dropWhile_le
        split: list.splits if_splits)
  show ?thesis
    using assms int frac expo
    by (fastforce simp: scan_number_def Let_def split: list.splits if_splits option.splits prod.splits
        dest: le_less_trans)
qed

definition consumes :: "(pystr \<Rightarrow> 'e + ('a \<times> pystr)) \<Rightarrow> bool" where
  "consumes p \<longleftrightarrow> (\<forall>s v r. p s = Inr (v, r) \<longrightarrow> length r < length s)"

lemma consumesD: "consumes p \<Longrightarrow> p s = Inr (v, r) \<Longrightarrow> length r < length s"
  by (auto simp: consumes_def)

lemma consumesI: "(\<And>s v r. p s = Inr (v, r) \<Longrightarrow> length r < length s) \<Longrightarrow> consumes p"
  by (auto simp: consumes_def)

lemma next_char_consumes: "next_char s = Inr (c, t) \<Longrightarrow> length t < length s"
  by (auto simp: next_char_def split: list.splits dest: skip_ws_Cons_length)

lemma scan_key_consumes: "scan_key s = Inr (k, r) \<Longrightarrow> length r < length s"
  by (auto simp: scan_key_def split: list.splits if_splits option.splits dest: scan_string_consumes)

lemma scan_member_consumes:
  assumes "consumes p" shows "consumes (scan_member p)"
proof (rule consumesI)
  fix s kv r
  assume "scan_member p s = Inr (kv, r)"
  then obtain k r1 t v where
    "scan_key s = Inr (k, r1)" "next_char r1 = Inr (58, t)" "p (skip_ws t) = Inr (v, r)"
    by (auto simp: scan_member_def rbind_Inr_iff split: if_splits)
  then show "length r < length s"
    using scan_key_consumes next_char_consumes consumesD [OF assms] length_skip_ws [of t] by fastforce
qed

lemma scan_seq_consumes:
  assumes p: "consumes p"
  shows "scan_seq p close n s = Inr (vs, r) \<Longrightarrow> length r < length s"
proof (induction n arbitrary: s vs r)
  case (Suc n)
  from Suc.prems obtain v r1 c t where step: "p s = Inr (v, r1)" "next_char r1 = Inr (c, t)"
    and fin: "r = t \<or> (\<exists>vs'. scan_seq p close n (skip_ws t) = Inr (vs', r))"
    by (auto simp: rbind_Inr_iff split: if_splits)
  have "length t < length s"
    using consumesD [OF p step(1)] next_char_consumes [OF step(2)] by simp
  then show ?case
    using fin Suc.IH [of "skip_ws t"] length_skip_ws [of t] by fastforce
qed simp

lemma scan_seq_ws_consumes:
  "consumes p \<Longrightarrow> scan_seq p close n (skip_ws t) = Inr (vs, r) \<Longrightarrow> length r < length t"
  using length_skip_ws [of t] by (fastforce dest: scan_seq_consumes)

lemma scan_seq_fuel:
  assumes p: "consumes p"
  shows "length s < n \<Longrightarrow> length s < n' \<Longrightarrow> scan_seq p close n s = scan_seq p close n' s"
proof (induction n arbitrary: n' s)
  case (Suc n)
  then obtain m where m: "n' = Suc m" by (cases n') auto
  have "scan_seq p close n (skip_ws t) = scan_seq p close m (skip_ws t)"
    if "p s = Inr (v, r)" "next_char r = Inr (c, t)" for v r c t
  proof -
    have "length (skip_ws t) < length s"
      using consumesD [OF p that(1)] next_char_consumes [OF that(2)] length_skip_ws [of t] by linarith
    then show ?thesis using Suc m by (intro Suc.IH) auto
  qed
  then show ?case
    unfolding m scan_seq.simps by (intro rbind_cong refl) (auto intro!: rbind_cong)
qed simp

lemma scan_value_consumes: "consumes (scan_value d)"
proof (induction d)
  have kw: "scan_keyword json_keywords s = Some (v, r) \<Longrightarrow> length r < length s" for s v r
    by (rule scan_keyword_consumes [of json_keywords]) (auto simp: json_keywords_def)
  {
    case 0
    show ?case
      by (rule consumesI, subst (asm) scan_value.simps)
        (auto simp: rbind_Inr_iff split: list.splits if_splits option.splits
          dest: scan_key_consumes kw scan_number_consumes)
  next
    case (Suc d)
    have "consumes (\<lambda>x. scan_value d x)" using Suc by simp
    note seq = scan_seq_ws_consumes [OF scan_member_consumes [OF this]] scan_seq_ws_consumes [OF this]
    show ?case
      by (rule consumesI, subst (asm) scan_value.simps)
        (auto simp: rbind_Inr_iff simp del: scan_seq.simps split: list.splits if_splits option.splits
          dest!: scan_key_consumes kw scan_number_consumes seq next_char_consumes)
  }
qed

end
