(* ===== verification/Responses.thy ===== *)
theory Responses
  imports Json
begin

text \<open>
  The response contracts of \<open>src/linguistic_oj/responses.py\<close>: the task types, the response
  models, the error codes and the parser of one raw model response.

  Validation against the response models is done by the pydantic library.  It enters as the
  argument \<open>validate\<close>; the locale \<open>response_models\<close> states what pydantic documents for the
  strict, closed, constrained classes the source declares, and \<open>reference_validate\<close> is a
  concrete validator for these classes that meets it.
\<close>

section \<open>Task types and response models\<close>

datatype task_type = SEGMENTATION | UPOS | XPOS | DEPENDENCY | TRANSLITERATION

fun task_value :: "task_type \<Rightarrow> pystr" where
  "task_value SEGMENTATION = u ''segmentation''"
| "task_value UPOS = u ''upos''"
| "task_value XPOS = u ''xpos''"
| "task_value DEPENDENCY = u ''dependency''"
| "task_value TRANSLITERATION = u ''transliteration''"

definition all_tasks :: "task_type list" where
  "all_tasks = [SEGMENTATION, UPOS, XPOS, DEPENDENCY, TRANSLITERATION]"

text \<open>Calling the enumeration with a value: the member, or \<open>ValueError\<close>.\<close>

definition TaskType :: "pystr \<Rightarrow> task_type result" where
  "TaskType s = (case find (\<lambda>t. task_value t = s) all_tasks of
                   Some t \<Rightarrow> Inr t | None \<Rightarrow> raise ValueError ''not a valid TaskType'')"

definition UD_UPOS_TAGS :: "pystr list" where
  "UD_UPOS_TAGS = map u
     [''ADJ'', ''ADP'', ''ADV'', ''AUX'', ''CCONJ'', ''DET'', ''INTJ'', ''NOUN'', ''NUM'',
      ''PART'', ''PRON'', ''PROPN'', ''PUNCT'', ''SCONJ'', ''SYM'', ''VERB'', ''X'']"

record arc_response =
  token_id :: int
  head_id :: int
  deprel :: pystr

datatype model_response =
    SegmentationResponse (tokens: "pystr list")
  | TaggingResponse (tags: "pystr list")
  | DependencyResponse (arcs: "arc_response list")
  | TransliterationResponse (transliterations: "pystr list")

datatype parse_error_code =
    UNKNOWN_TASK | INVALID_JSON | TOP_LEVEL_NOT_OBJECT | MISSING_FIELD | EXTRA_FIELD
  | WRONG_TYPE | EMPTY_VALUE | INVALID_VALUE | INVALID_TAG | DUPLICATE_TOKEN_ID
  | LENGTH_MISMATCH | TOKEN_ID_MISMATCH | INVALID_HEAD_ID

record response_parse_error =
  code :: parse_error_code
  message :: string

record response_parse_result =
  parsed_task :: "task_type option"
  parsed_value :: "model_response option"
  parsed_error :: "response_parse_error option"

definition is_valid :: "response_parse_result \<Rightarrow> bool" where
  "is_valid r \<longleftrightarrow> parsed_value r \<noteq> None \<and> parsed_error r = None"

lemma TaskType_task_value [simp]: "TaskType (task_value t) = Inr t"
  by (cases t) (simp_all add: TaskType_def all_tasks_def)

lemma task_value_inj [simp]: "task_value s = task_value t \<longleftrightarrow> s = t"
  by (cases s; cases t) simp_all

declare task_value.simps [simp del]

lemma TaskType_Inr: "TaskType s = Inr t \<Longrightarrow> s = task_value t"
  by (auto simp: TaskType_def find_Some_iff split: option.splits)

section \<open>Validation by the declared models\<close>

record validation_error =
  err_type :: string
  err_loc :: "string list"
  err_msg :: string

type_synonym validator =
  "task_type \<Rightarrow> (pystr \<times> json) list \<Rightarrow> validation_error list + model_response"

text \<open>What the class declarations require of a payload, field by field.\<close>

text \<open>
  A non-empty string of Unicode scalar values: pydantic reports \<open>string_unicode\<close> for a string
  with a lone surrogate, which \<open>json.loads\<close> lets through.
\<close>

definition is_surrogate :: "nat \<Rightarrow> bool" where
  "is_surrogate c \<longleftrightarrow> 55296 \<le> c \<and> c \<le> 57343"

lemma literal_scalars [simp]: "list_all (\<lambda>c. \<not> is_surrogate c) (u s)"
proof -
  have "(of_char c :: nat) < 256" for c
    by (metis of_char_mod_256 mod_less_divisor zero_less_numeral)
  then have "\<not> is_surrogate (of_char c)" for c
    unfolding is_surrogate_def using less_le_trans [of "of_char c" 256 55296] by fastforce
  then show ?thesis by (simp add: u_def list_all_iff)
qed

definition text_value :: "pystr \<Rightarrow> bool" where
  "text_value s \<longleftrightarrow> s \<noteq> [] \<and> list_all (\<lambda>c. \<not> is_surrogate c) s"

definition nonempty_strings :: "pystr list \<Rightarrow> bool" where
  "nonempty_strings xs \<longleftrightarrow> xs \<noteq> [] \<and> list_all text_value xs"

definition arc_object :: "json \<Rightarrow> arc_response \<Rightarrow> bool" where
  "arc_object j a \<longleftrightarrow>
     (\<exists>fs. j = JObj fs \<and> distinct (map fst fs) \<and>
        set fs = {(u ''token_id'', JInt (token_id a)), (u ''head_id'', JInt (head_id a)),
                  (u ''deprel'', JStr (deprel a))}) \<and>
     0 < token_id a \<and> 0 \<le> head_id a \<and> text_value (deprel a)"

definition string_field :: "string \<Rightarrow> (pystr \<times> json) list \<Rightarrow> pystr list \<Rightarrow> bool" where
  "string_field k p xs \<longleftrightarrow> p = [(u k, JArr (map JStr xs))] \<and> nonempty_strings xs"

fun conforms :: "task_type \<Rightarrow> (pystr \<times> json) list \<Rightarrow> model_response \<Rightarrow> bool" where
  "conforms SEGMENTATION p v \<longleftrightarrow> (\<exists>xs. v = SegmentationResponse xs \<and> string_field ''tokens'' p xs)"
| "conforms UPOS p v \<longleftrightarrow> (\<exists>xs. v = TaggingResponse xs \<and> string_field ''tags'' p xs)"
| "conforms XPOS p v \<longleftrightarrow> (\<exists>xs. v = TaggingResponse xs \<and> string_field ''tags'' p xs)"
| "conforms TRANSLITERATION p v \<longleftrightarrow>
     (\<exists>xs. v = TransliterationResponse xs \<and> string_field ''transliterations'' p xs)"
| "conforms DEPENDENCY p v \<longleftrightarrow>
     (\<exists>js as. v = DependencyResponse as \<and> as \<noteq> [] \<and> p = [(u ''arcs'', JArr js)] \<and>
        list_all2 arc_object js as)"

text \<open>
  Pydantic's contract: a payload is accepted with a value exactly when it conforms to the
  model, and a rejection carries at least one error.
\<close>

locale response_models =
  fixes validate :: validator
  assumes accepts: "validate t p = Inr v \<longleftrightarrow> conforms t p v"
    and rejects: "validate t p \<noteq> Inl []"
begin

lemma rejects_hd: "validate t p = Inl es \<Longrightarrow> es = hd es # tl es"
  using rejects by (cases es) auto

end

subsection \<open>A validator for the declared classes\<close>

definition verr :: "string \<Rightarrow> string \<Rightarrow> validation_error" where
  "verr ty loc = \<lparr>err_type = ty, err_loc = [loc], err_msg = ty\<rparr>"

fun check_string :: "string \<Rightarrow> json \<Rightarrow> validation_error list + pystr" where
  "check_string loc (JStr s) =
     (if \<not> list_all (\<lambda>c. \<not> is_surrogate c) s then Inl [verr ''string_unicode'' loc]
      else if s = [] then Inl [verr ''string_too_short'' loc] else Inr s)"
| "check_string loc _ = Inl [verr ''string_type'' loc]"

fun check_string_list :: "string \<Rightarrow> json \<Rightarrow> validation_error list + pystr list" where
  "check_string_list loc (JArr js) =
     (if js = [] then Inl [verr ''too_short'' loc] else rmapM (check_string loc) js)"
| "check_string_list loc _ = Inl [verr ''list_type'' loc]"

fun check_int :: "string \<Rightarrow> int \<Rightarrow> json \<Rightarrow> validation_error list + int" where
  "check_int loc lo (JInt i) = (if lo \<le> i then Inr i else Inl [verr ''greater_than_equal'' loc])"
| "check_int loc lo _ = Inl [verr ''int_type'' loc]"

definition check_field :: "string \<Rightarrow> (pystr \<times> json) list \<Rightarrow> (json \<Rightarrow> validation_error list + 'a)
    \<Rightarrow> validation_error list + 'a" where
  "check_field k p f =
     (case map_of p (u k) of None \<Rightarrow> Inl [verr ''missing'' k] | Some j \<Rightarrow> f j)"

definition check_extra :: "string list \<Rightarrow> (pystr \<times> json) list \<Rightarrow> validation_error list + unit" where
  "check_extra ks p = ensure (fst ` set p \<subseteq> u ` set ks \<and> distinct (map fst p))
     [verr ''extra_forbidden'' ''payload'']"

fun check_arc :: "json \<Rightarrow> validation_error list + arc_response" where
  "check_arc (JObj p) =
     rbind (check_field ''token_id'' p (check_int ''token_id'' 1)) (\<lambda>t.
     rbind (check_field ''head_id'' p (check_int ''head_id'' 0)) (\<lambda>h.
     rbind (check_field ''deprel'' p (check_string ''deprel'')) (\<lambda>d.
     rbind (check_extra [''token_id'', ''head_id'', ''deprel''] p) (\<lambda>_.
     Inr \<lparr>token_id = t, head_id = h, deprel = d\<rparr>))))"
| "check_arc _ = Inl [verr ''model_type'' ''arcs'']"

fun check_arcs :: "json \<Rightarrow> validation_error list + arc_response list" where
  "check_arcs (JArr js) =
     (if js = [] then Inl [verr ''too_short'' ''arcs''] else rmapM check_arc js)"
| "check_arcs _ = Inl [verr ''list_type'' ''arcs'']"

definition check_model :: "string \<Rightarrow> (pystr \<times> json) list \<Rightarrow> (json \<Rightarrow> validation_error list + 'a)
    \<Rightarrow> ('a \<Rightarrow> model_response) \<Rightarrow> validation_error list + model_response" where
  "check_model k p f mk =
     rbind (check_field k p f) (\<lambda>x. rbind (check_extra [k] p) (\<lambda>_. Inr (mk x)))"

fun reference_validate :: validator where
  "reference_validate SEGMENTATION p =
     check_model ''tokens'' p (check_string_list ''tokens'') SegmentationResponse"
| "reference_validate UPOS p =
     check_model ''tags'' p (check_string_list ''tags'') TaggingResponse"
| "reference_validate XPOS p =
     check_model ''tags'' p (check_string_list ''tags'') TaggingResponse"
| "reference_validate DEPENDENCY p = check_model ''arcs'' p check_arcs DependencyResponse"
| "reference_validate TRANSLITERATION p =
     check_model ''transliterations'' p (check_string_list ''transliterations'')
       TransliterationResponse"

lemma single_field:
  "map_of p k = Some j \<and> fst ` set p \<subseteq> {k} \<and> distinct (map fst p) \<longleftrightarrow> p = [(k, j)]"
proof
  assume h: "map_of p k = Some j \<and> fst ` set p \<subseteq> {k} \<and> distinct (map fst p)"
  then obtain x q where p: "p = x # q" by (cases p) auto
  then have "q = []" using h by (cases q) auto
  then show "p = [(k, j)]" using h p by (cases x) auto
qed auto

lemma check_string_Inr: "check_string loc j = Inr s \<longleftrightarrow> j = JStr s \<and> text_value s"
  by (cases j) (auto simp: text_value_def)

lemma check_int_Inr: "check_int loc lo j = Inr i \<longleftrightarrow> j = JInt i \<and> lo \<le> i"
  by (cases j) auto

lemma rmapM_check_string:
  "rmapM (check_string loc) js = Inr xs \<longleftrightarrow> js = map JStr xs \<and> list_all text_value xs"
proof (induction js arbitrary: xs)
  case (Cons j js)
  then show ?case by (cases xs) (auto simp: rbind_Inr_iff check_string_Inr)
qed auto

lemma check_string_list_Inr:
  "check_string_list loc j = Inr xs \<longleftrightarrow> j = JArr (map JStr xs) \<and> nonempty_strings xs"
proof (cases j)
  case (JArr js)
  have "rmapM (check_string loc) js = Inr xs \<longleftrightarrow> js = map JStr xs \<and> list_all text_value xs"
    by (rule rmapM_check_string)
  then show ?thesis using JArr by (cases js) (auto simp: nonempty_strings_def simp del: rmapM.simps)
qed auto

lemma check_model_Inr:
  "check_model k p f mk = Inr v \<longleftrightarrow> (\<exists>j x. p = [(u k, j)] \<and> f j = Inr x \<and> v = mk x)"
  using single_field [of p "u k"]
  by (auto simp: check_model_def check_field_def check_extra_def rbind_Inr_iff split: option.splits)

lemma check_field_Inr: "check_field k p f = Inr x \<longleftrightarrow> (\<exists>j. map_of p (u k) = Some j \<and> f j = Inr x)"
  by (auto simp: check_field_def split: option.splits)

lemma three_fields:
  fixes p :: "('k \<times> 'v) list"
  assumes "distinct (map fst p)" "distinct [k1, k2, k3]"
  shows "map_of p k1 = Some x1 \<and> map_of p k2 = Some x2 \<and> map_of p k3 = Some x3 \<and>
      fst ` set p \<subseteq> {k1, k2, k3} \<longleftrightarrow> set p = {(k1, x1), (k2, x2), (k3, x3)}"
    (is "?L \<longleftrightarrow> ?R")
proof
  assume L: ?L
  show ?R
  proof (intro set_eqI iffI)
    fix y assume y: "y \<in> set p"
    obtain k x where kx: "y = (k, x)" by (cases y)
    then have "map_of p k = Some x" using assms(1) y by simp
    moreover have "k \<in> {k1, k2, k3}" using L y kx by force
    ultimately show "y \<in> {(k1, x1), (k2, x2), (k3, x3)}" using L kx by auto
  qed (use L in \<open>auto dest: map_of_SomeD\<close>)
next
  assume ?R
  then show ?L using assms by (auto simp: image_iff)
qed

lemma check_arc_Inr: "check_arc j = Inr a \<longleftrightarrow> arc_object j a"
proof (cases j)
  case (JObj p)
  note three = three_fields [of p "u ''token_id''" "u ''head_id''" "u ''deprel''" "JInt (token_id a)"
      "JInt (head_id a)" "JStr (deprel a)"]
  have "check_arc j = Inr a \<longleftrightarrow>
      distinct (map fst p) \<and>
      (map_of p (u ''token_id'') = Some (JInt (token_id a)) \<and>
       map_of p (u ''head_id'') = Some (JInt (head_id a)) \<and>
       map_of p (u ''deprel'') = Some (JStr (deprel a)) \<and>
       fst ` set p \<subseteq> {u ''token_id'', u ''head_id'', u ''deprel''}) \<and>
      1 \<le> token_id a \<and> 0 \<le> head_id a \<and> text_value (deprel a)"
    unfolding JObj by (cases a)
      (auto simp: rbind_Inr_iff check_field_Inr check_int_Inr check_string_Inr check_extra_def)
  also have "\<dots> \<longleftrightarrow> arc_object j a"
  proof (cases "distinct (map fst p)")
    case True
    from three [OF True] show ?thesis
      by (simp only: arc_object_def JObj True json.inject int_one_le_iff_zero_less)
        (simp add: conj_ac True)
  qed (simp add: arc_object_def JObj)
  finally show ?thesis .
qed (auto simp: arc_object_def)

lemma check_arcs_Inr:
  "check_arcs j = Inr as \<longleftrightarrow> (\<exists>js. j = JArr js \<and> list_all2 arc_object js as \<and> as \<noteq> [])"
proof (cases j)
  case (JArr js)
  have "rmapM check_arc js = Inr as \<longleftrightarrow> list_all2 arc_object js as"
    by (simp add: rmapM_Inr_iff check_arc_Inr)
  then show ?thesis using JArr by (cases js; cases as) (auto simp del: rmapM.simps)
qed auto

lemma check_string_nonempty: "check_string loc j \<noteq> Inl []"
  by (cases j) auto

lemma rmapM_nonempty: "(\<And>x. f x \<noteq> Inl []) \<Longrightarrow> rmapM f xs \<noteq> Inl []"
  by (induction xs) (auto simp: rbind_Inl_iff)

lemma check_string_list_nonempty: "check_string_list loc j \<noteq> Inl []"
  by (cases j) (auto simp: rmapM_nonempty check_string_nonempty)

lemma check_arcs_nonempty: "check_arcs j \<noteq> Inl []"
proof -
  have "check_int loc lo x \<noteq> Inl []" for loc lo x
    by (cases x) auto
  then have "check_arc x \<noteq> Inl []" for x
    by (cases x) (auto simp: rbind_Inl_iff check_field_def check_extra_def check_string_nonempty
        split: option.splits)
  then show ?thesis by (cases j) (auto simp: rmapM_nonempty)
qed

lemma check_model_nonempty: "(\<And>j. f j \<noteq> Inl []) \<Longrightarrow> check_model k p f mk \<noteq> Inl []"
  by (auto simp: check_model_def check_field_def check_extra_def rbind_Inl_iff split: option.splits)

interpretation reference: response_models reference_validate
proof
  fix t p v
  show "reference_validate t p = Inr v \<longleftrightarrow> conforms t p v"
    by (cases t) (auto simp: check_model_Inr check_string_list_Inr check_arcs_Inr string_field_def)
  show "reference_validate t p \<noteq> Inl []"
    by (cases t) (simp_all add: check_model_nonempty check_string_list_nonempty check_arcs_nonempty)
qed

section \<open>Parsing one raw response\<close>

definition failure :: "parse_error_code \<Rightarrow> string \<Rightarrow> task_type option \<Rightarrow> response_parse_result" where
  "failure c m t =
     \<lparr>parsed_task = t, parsed_value = None, parsed_error = Some \<lparr>code = c, message = m\<rparr>\<rparr>"

definition join_loc :: "string list \<Rightarrow> string" where
  "join_loc ls = concat (map (\<lambda>(i, l). if i = 0 then l else ''.'' @ l) (enumerate 0 ls))"

definition validation_code :: "string \<Rightarrow> parse_error_code" where
  "validation_code ty =
     (if ty = ''missing'' then MISSING_FIELD
      else if ty = ''extra_forbidden'' then EXTRA_FIELD
      else if ty \<in> set [''list_type'', ''string_type'', ''int_type''] then WRONG_TYPE
      else if ty \<in> set [''string_too_short'', ''too_short''] then EMPTY_VALUE
      else INVALID_VALUE)"

text \<open>\<open>error.errors()[0]\<close> raises \<open>IndexError\<close> on an empty list, which pydantic never reports.\<close>

definition validation_failure ::
    "validation_error list \<Rightarrow> task_type \<Rightarrow> response_parse_result result" where
  "validation_failure es t =
     (case es of
        [] \<Rightarrow> raise IndexError ''list index out of range''
      | e # _ \<Rightarrow>
          (let location = join_loc (err_loc e);
               detail = (if location \<noteq> [] then location @ '': '' @ err_msg e else err_msg e)
           in Inr (failure (validation_code (err_type e)) detail (Some t))))"

fun sequence_length :: "model_response \<Rightarrow> nat" where
  "sequence_length (SegmentationResponse xs) = length xs"
| "sequence_length (TaggingResponse xs) = length xs"
| "sequence_length (DependencyResponse as) = length as"
| "sequence_length (TransliterationResponse xs) = length xs"

text \<open>The checks after validation, in the order of the source; \<open>None\<close> means none failed.\<close>

definition tag_failure :: "task_type \<Rightarrow> model_response \<Rightarrow> response_parse_result option" where
  "tag_failure t v =
     (case v of
        TaggingResponse ts \<Rightarrow>
          (if t = UPOS \<and> set ts - set UD_UPOS_TAGS \<noteq> {}
           then Some (failure INVALID_TAG ''Unknown UPOS tags'' (Some t)) else None)
      | _ \<Rightarrow> None)"

definition arc_failure ::
    "task_type \<Rightarrow> int list option \<Rightarrow> model_response \<Rightarrow> response_parse_result option" where
  "arc_failure t expected_token_ids v =
     (case v of
        DependencyResponse as \<Rightarrow>
          (let token_ids = map token_id as in
           if length token_ids \<noteq> card (set token_ids) then
             Some (failure DUPLICATE_TOKEN_ID
               ''Dependency response contains duplicate token_id values'' (Some t))
           else
             (case expected_token_ids of
                None \<Rightarrow> None
              | Some ids \<Rightarrow>
                  if set token_ids \<noteq> set ids then
                    Some (failure TOKEN_ID_MISMATCH
                      ''Dependency token IDs do not match the provided input tokens'' (Some t))
                  else if filter (\<lambda>a. head_id a \<notin> set ids \<union> {0}) as \<noteq> [] then
                    Some (failure INVALID_HEAD_ID ''Unknown dependency head IDs'' (Some t))
                  else None))
      | _ \<Rightarrow> None)"

definition length_failure ::
    "task_type \<Rightarrow> int option \<Rightarrow> model_response \<Rightarrow> response_parse_result option" where
  "length_failure t expected_count v =
     (case expected_count of
        None \<Rightarrow> None
      | Some n \<Rightarrow>
          if t \<noteq> SEGMENTATION \<and> int (sequence_length v) \<noteq> n
          then Some (failure LENGTH_MISMATCH ''Unexpected number of items'' (Some t)) else None)"

definition check_response :: "task_type \<Rightarrow> int option \<Rightarrow> int list option \<Rightarrow> model_response
    \<Rightarrow> response_parse_result" where
  "check_response t expected_count expected_token_ids v =
     (case tag_failure t v of Some r \<Rightarrow> r | None \<Rightarrow>
      (case arc_failure t expected_token_ids v of Some r \<Rightarrow> r | None \<Rightarrow>
       (case length_failure t expected_count v of Some r \<Rightarrow> r | None \<Rightarrow>
          \<lparr>parsed_task = Some t, parsed_value = Some v, parsed_error = None\<rparr>)))"

text \<open>
  The parser.  \<open>depth\<close> is the interpreter's remaining recursion.  Only \<open>JSONDecodeError\<close> is
  caught around \<open>json.loads\<close>: its other two failures propagate.
\<close>

definition parse_model_response :: "validator \<Rightarrow> nat \<Rightarrow> pystr \<Rightarrow> pystr dyn \<Rightarrow> int option
    \<Rightarrow> int list option \<Rightarrow> response_parse_result result" where
  "parse_model_response validate depth task raw_response expected_count expected_token_ids =
     (case TaskType task of
        Inl _ \<Rightarrow> Inr (failure UNKNOWN_TASK ''Unsupported task'' None)
      | Inr task_type \<Rightarrow>
          (case raw_response of
             NotInstance \<Rightarrow>
               Inr (failure WRONG_TYPE ''Raw model response must be a string'' (Some task_type))
           | Instance raw \<Rightarrow>
               rbind (ensure (\<not> (case expected_count of None \<Rightarrow> False | Some n \<Rightarrow> n < 0))
                       (Exc ValueError ''expected_count must be non-negative'')) (\<lambda>_.
               case loads depth raw of
                 Inl JSONDecodeError \<Rightarrow> Inr (failure INVALID_JSON ''Invalid JSON'' (Some task_type))
               | Inl IntDigitLimit \<Rightarrow> raise ValueError ''Exceeds the limit for integer string conversion''
               | Inl RecursionLimit \<Rightarrow> raise RecursionError ''maximum recursion depth exceeded''
               | Inr (JObj payload) \<Rightarrow>
                   (case validate task_type payload of
                      Inl es \<Rightarrow> validation_failure es task_type
                    | Inr v \<Rightarrow> Inr (check_response task_type expected_count expected_token_ids v))
               | Inr _ \<Rightarrow> Inr (failure TOP_LEVEL_NOT_OBJECT
                   ''Top-level JSON value must be an object'' (Some task_type)))))"

section \<open>What an accepted response satisfies\<close>

text \<open>
  The contract of an accepted response for a task, an expected count and expected token ids,
  stated on the value alone.
\<close>

fun response_shape :: "task_type \<Rightarrow> model_response \<Rightarrow> bool" where
  "response_shape SEGMENTATION (SegmentationResponse xs) \<longleftrightarrow> nonempty_strings xs"
| "response_shape UPOS (TaggingResponse xs) \<longleftrightarrow>
     nonempty_strings xs \<and> set xs \<subseteq> set UD_UPOS_TAGS"
| "response_shape XPOS (TaggingResponse xs) \<longleftrightarrow> nonempty_strings xs"
| "response_shape DEPENDENCY (DependencyResponse as) \<longleftrightarrow>
     as \<noteq> [] \<and> distinct (map token_id as) \<and>
     (\<forall>a \<in> set as. 0 < token_id a \<and> 0 \<le> head_id a \<and> text_value (deprel a))"
| "response_shape TRANSLITERATION (TransliterationResponse xs) \<longleftrightarrow> nonempty_strings xs"
| "response_shape _ _ \<longleftrightarrow> False"

definition meets_expectations ::
    "task_type \<Rightarrow> int option \<Rightarrow> int list option \<Rightarrow> model_response \<Rightarrow> bool" where
  "meets_expectations t cnt ids v \<longleftrightarrow>
     (t \<noteq> SEGMENTATION \<longrightarrow> (\<forall>n. cnt = Some n \<longrightarrow> int (sequence_length v) = n)) \<and>
     (t = DEPENDENCY \<longrightarrow> (\<forall>is. ids = Some is \<longrightarrow>
        token_id ` set (arcs v) = set is \<and> head_id ` set (arcs v) \<subseteq> insert 0 (set is)))"

lemma failure_not_valid [simp]: "\<not> is_valid (failure c m t)" "parsed_value (failure c m t) = None"
  "parsed_task (failure c m t) = t" "parsed_error (failure c m t) = Some \<lparr>code = c, message = m\<rparr>"
  by (simp_all add: failure_def is_valid_def)

lemma arc_object_range: "arc_object j a \<Longrightarrow> 0 < token_id a \<and> 0 \<le> head_id a \<and> text_value (deprel a)"
  by (simp add: arc_object_def)

lemma conforms_arcs_range:
  "list_all2 arc_object js as \<Longrightarrow> \<forall>a \<in> set as. 0 < token_id a \<and> 0 \<le> head_id a \<and> text_value (deprel a)"
  by (induction rule: list_all2_induct) (auto dest: arc_object_range)

lemma tag_failure_None:
  "tag_failure t v = None \<longleftrightarrow>
    (\<forall>ts. v = TaggingResponse ts \<longrightarrow> t = UPOS \<longrightarrow> set ts \<subseteq> set UD_UPOS_TAGS)"
  by (auto simp: tag_failure_def split: model_response.splits simp del: Diff_eq_empty_iff)

lemma card_distinct_iff: "length xs = card (set xs) \<longleftrightarrow> distinct xs"
  using card_distinct distinct_card by metis

lemma filter_head_ids: "filter (\<lambda>a. f a \<notin> S) xs = [] \<longleftrightarrow> f ` set xs \<subseteq> S"
  by (auto simp: filter_empty_conv)

lemma arc_failure_None:
  "arc_failure t ids v = None \<longleftrightarrow>
    (\<forall>as. v = DependencyResponse as \<longrightarrow> distinct (map token_id as) \<and>
       (\<forall>is. ids = Some is \<longrightarrow> token_id ` set as = set is \<and> head_id ` set as \<subseteq> insert 0 (set is)))"
proof (cases v)
  case (DependencyResponse as)
  show ?thesis
    unfolding DependencyResponse arc_failure_def Let_def
    by (cases ids) (simp_all only: card_distinct_iff filter_head_ids, auto)
qed (auto simp: arc_failure_def)

lemma length_failure_None:
  "length_failure t cnt v = None \<longleftrightarrow>
    (t \<noteq> SEGMENTATION \<longrightarrow> (\<forall>n. cnt = Some n \<longrightarrow> int (sequence_length v) = n))"
  by (auto simp: length_failure_def split: option.splits)

lemma failures_no_value:
  "tag_failure t v = Some r \<Longrightarrow> parsed_value r = None"
  "arc_failure t ids v = Some r \<Longrightarrow> parsed_value r = None"
  "length_failure t cnt v = Some r \<Longrightarrow> parsed_value r = None"
  by (auto simp: tag_failure_def arc_failure_def length_failure_def Let_def
      split: option.splits model_response.splits if_splits)

lemma check_response_Some:
  "parsed_value (check_response t cnt ids v) = Some v \<longleftrightarrow>
    tag_failure t v = None \<and> arc_failure t ids v = None \<and> length_failure t cnt v = None"
  by (auto simp: check_response_def split: option.splits dest: failures_no_value)

lemma check_response_valid:
  assumes "conforms t p v"
  shows "parsed_value (check_response t cnt ids v) = Some v \<longleftrightarrow>
      response_shape t v \<and> meets_expectations t cnt ids v"
  unfolding check_response_Some tag_failure_None arc_failure_None length_failure_None
    meets_expectations_def
proof (cases t)
  case DEPENDENCY
  with assms obtain js as where as: "v = DependencyResponse as" "as \<noteq> []" "list_all2 arc_object js as"
    by auto
  have "\<forall>a \<in> set as. 0 < token_id a \<and> 0 \<le> head_id a \<and> text_value (deprel a)"
    by (rule conforms_arcs_range [OF as(3)])
  then show "(\<forall>ts. v = TaggingResponse ts \<longrightarrow> t = UPOS \<longrightarrow> set ts \<subseteq> set UD_UPOS_TAGS) \<and>
    (\<forall>as. v = DependencyResponse as \<longrightarrow> distinct (map token_id as) \<and>
       (\<forall>is. ids = Some is \<longrightarrow> token_id ` set as = set is \<and> head_id ` set as \<subseteq> insert 0 (set is))) \<and>
    (t \<noteq> SEGMENTATION \<longrightarrow> (\<forall>n. cnt = Some n \<longrightarrow> int (sequence_length v) = n)) \<longleftrightarrow>
    response_shape t v \<and>
    (t \<noteq> SEGMENTATION \<longrightarrow> (\<forall>n. cnt = Some n \<longrightarrow> int (sequence_length v) = n)) \<and>
    (t = DEPENDENCY \<longrightarrow> (\<forall>is. ids = Some is \<longrightarrow>
       token_id ` set (arcs v) = set is \<and> head_id ` set (arcs v) \<subseteq> insert 0 (set is)))"
    using DEPENDENCY as by (simp, blast)
qed (use assms in \<open>auto simp: string_field_def\<close>)

lemma check_response_cases:
  "parsed_value (check_response t cnt ids v) = Some v \<and>
      parsed_error (check_response t cnt ids v) = None \<or>
   (\<exists>c m. c \<noteq> UNKNOWN_TASK \<and> check_response t cnt ids v = failure c m (Some t))"
  by (auto simp: check_response_def tag_failure_def arc_failure_def length_failure_def Let_def
      split: option.splits model_response.splits if_splits)

lemma check_response_task [simp]: "parsed_task (check_response t cnt ids v) = Some t"
  by (auto simp: check_response_def tag_failure_def arc_failure_def length_failure_def Let_def
      split: option.splits model_response.splits if_splits)

context response_models
begin

text \<open>A valid result arises from an object that conforms, and only from such an object.\<close>

lemma parse_valid_iff:
  assumes "parse_model_response validate depth (task_value t) (Instance raw) cnt ids = Inr r"
  shows "parsed_value r = Some v \<longleftrightarrow>
    (\<exists>p. loads depth raw = Inr (JObj p) \<and> conforms t p v) \<and>
    response_shape t v \<and> meets_expectations t cnt ids v"
proof (cases "loads depth raw")
  case (Inl e)
  then show ?thesis using assms
    by (cases e) (auto simp: parse_model_response_def rbind_Inr_iff)
next
  case (Inr j)
  show ?thesis
  proof (cases j)
    case (JObj p)
    show ?thesis
    proof (cases "validate t p")
      case (Inl es)
      then have "parsed_value r = None"
        using assms Inr JObj
        by (auto simp: parse_model_response_def rbind_Inr_iff validation_failure_def Let_def
            split: list.splits)
      moreover have "\<not> conforms t p v" using Inl accepts [of t p v] by simp
      ultimately show ?thesis using Inr JObj by simp
    next
      case (Inr w)
      then have w: "conforms t p w" using accepts by simp
      have r: "r = check_response t cnt ids w"
        using assms \<open>loads depth raw = Inr j\<close> JObj Inr
        by (auto simp: parse_model_response_def rbind_Inr_iff)
      have "conforms t p v \<longleftrightarrow> v = w" using accepts Inr by (metis sum.inject(2))
      then show ?thesis
        using check_response_valid [OF w, of cnt ids] check_response_cases [of t cnt ids w]
          r \<open>loads depth raw = Inr j\<close> JObj by auto
    qed
  qed (use assms Inr in \<open>auto simp: parse_model_response_def rbind_Inr_iff\<close>)
qed

text \<open>Every result of a known task carries exactly one of a value and an error.\<close>

lemma parse_result_cases:
  assumes "parse_model_response validate depth (task_value t) raw cnt ids = Inr r"
  shows "parsed_task r = Some t \<and>
    ((parsed_error r = None \<and> parsed_value r \<noteq> None) \<or>
     (parsed_value r = None \<and> (\<exists>e. parsed_error r = Some e \<and> code e \<noteq> UNKNOWN_TASK)))"
proof -
  have vf: "validation_failure es t = Inr r \<Longrightarrow> \<exists>c m. c \<noteq> UNKNOWN_TASK \<and> r = failure c m (Some t)" for es
    by (auto simp: validation_failure_def validation_code_def Let_def split: list.splits if_splits)
  from assms consider c m where "c \<noteq> UNKNOWN_TASK" "r = failure c m (Some t)"
    | v where "r = check_response t cnt ids v"
    by (auto simp: parse_model_response_def rbind_Inr_iff
        split: dyn.splits sum.splits loads_error.splits json.splits dest!: vf)
  then show ?thesis
  proof cases
    case 2
    then show ?thesis using check_response_cases [of t cnt ids v] by auto
  qed auto
qed

text \<open>The calls that raise: a negative count, and the two failures of \<open>json.loads\<close> not caught.\<close>

lemma parse_raises_iff:
  "parse_model_response validate depth (task_value t) (Instance raw) cnt ids = Inl e \<longleftrightarrow>
    (if (\<exists>n. cnt = Some n \<and> n < 0) then e = Exc ValueError ''expected_count must be non-negative''
     else (loads depth raw = Inl IntDigitLimit \<and>
            e = Exc ValueError ''Exceeds the limit for integer string conversion'') \<or>
          (loads depth raw = Inl RecursionLimit \<and>
            e = Exc RecursionError ''maximum recursion depth exceeded''))"
  using rejects
  by (auto simp: parse_model_response_def rbind_Inl_iff validation_failure_def Let_def
      split: option.splits sum.splits loads_error.splits json.splits list.splits)

end

section \<open>Properties\<close>

text \<open>What \<open>simp\<close> needs to run the parser with the reference validator.\<close>

lemmas parse_eval =
  parse_model_response_def check_model_def check_field_def check_extra_def check_response_def
  tag_failure_def arc_failure_def length_failure_def UD_UPOS_TAGS_def

text \<open>C2. The parser accepts a response exactly when its text is a JSON object that conforms to the
  task's model and the value meets the task's contract: UD tags only for UPOS, the expected
  number of items outside segmentation, and for dependency arcs distinct token ids that are
  exactly the expected ones with heads among them or zero.  Nothing is repaired or coerced.\<close>

theorem parse_accepts_exactly:
  assumes "response_models validate"
    and "parse_model_response validate depth (task_value t) (Instance raw) cnt ids = Inr r"
  shows "is_valid r \<and> parsed_value r = Some v \<longleftrightarrow>
    (\<exists>p. loads depth raw = Inr (JObj p) \<and> conforms t p v) \<and>
    response_shape t v \<and> meets_expectations t cnt ids v"
  using response_models.parse_valid_iff [OF assms] response_models.parse_result_cases [OF assms]
  by (auto simp: is_valid_def)

theorem parse_accepts_exactly_witness:
  "is_valid \<lparr>parsed_task = Some UPOS, parsed_value = Some (TaggingResponse [u ''NOUN'']), parsed_error = None\<rparr>
   \<and> (\<exists>p. loads 9 (u ''{\"tags\": [\"NOUN\"]}'') = Inr (JObj p) \<and> conforms UPOS p (TaggingResponse [u ''NOUN'']))"
proof -
  have l: "loads 9 (u ''{\"tags\": [\"NOUN\"]}'') = Inr (JObj [(u ''tags'', JArr [JStr (u ''NOUN'')])])"
    by (simp add: json_eval)
  have run: "parse_model_response reference_validate 9 (task_value UPOS)
      (Instance (u ''{\"tags\": [\"NOUN\"]}'')) (Some 1) None =
    Inr \<lparr>parsed_task = Some UPOS, parsed_value = Some (TaggingResponse [u ''NOUN'']), parsed_error = None\<rparr>"
    by (simp add: parse_eval l)
  show ?thesis
    using parse_accepts_exactly [OF reference.response_models_axioms run, of "TaggingResponse [u ''NOUN'']"]
    by (simp add: is_valid_def)
qed

text \<open>For a known task the parser's result names that task and carries exactly one of a value
  and an error, and the error is never \<open>UNKNOWN_TASK\<close>.\<close>

theorem parse_result_is_exclusive:
  assumes "response_models validate"
    and "parse_model_response validate depth (task_value t) raw cnt ids = Inr r"
  shows "parsed_task r = Some t \<and>
    ((parsed_error r = None \<and> parsed_value r \<noteq> None) \<or>
     (parsed_value r = None \<and> (\<exists>e. parsed_error r = Some e \<and> code e \<noteq> UNKNOWN_TASK)))"
  by (rule response_models.parse_result_cases [OF assms])

theorem parse_result_is_exclusive_witness:
  "parsed_task (failure TOP_LEVEL_NOT_OBJECT ''Top-level JSON value must be an object'' (Some XPOS)) = Some XPOS"
proof -
  have l: "loads 9 (u ''[]'') = Inr (JArr [])" by (simp add: json_eval)
  have run: "parse_model_response reference_validate 9 (task_value XPOS) (Instance (u ''[]'')) None None =
    Inr (failure TOP_LEVEL_NOT_OBJECT ''Top-level JSON value must be an object'' (Some XPOS))"
    by (simp add: parse_eval l)
  show ?thesis
    using parse_result_is_exclusive [OF reference.response_models_axioms run] by simp
qed

text \<open>The only ways parsing raises: a negative expected count, an integer literal beyond the
  interpreter's digit limit (\<open>ValueError\<close>) and nesting beyond its recursion limit
  (\<open>RecursionError\<close>).  The last two are model output that is not reported as a malformed
  response.\<close>

theorem parse_raises_exactly:
  assumes "response_models validate"
  shows "parse_model_response validate depth (task_value t) (Instance raw) cnt ids = Inl e \<longleftrightarrow>
    (if (\<exists>n. cnt = Some n \<and> n < 0) then e = Exc ValueError ''expected_count must be non-negative''
     else (loads depth raw = Inl IntDigitLimit \<and>
            e = Exc ValueError ''Exceeds the limit for integer string conversion'') \<or>
          (loads depth raw = Inl RecursionLimit \<and>
            e = Exc RecursionError ''maximum recursion depth exceeded''))"
  by (rule response_models.parse_raises_iff [OF assms])

theorem parse_raises_exactly_witness:
  "parse_model_response reference_validate (Suc 0) (task_value UPOS) (Instance (u ''[[]]'')) (Some 1) None =
     Inl (Exc RecursionError ''maximum recursion depth exceeded'')"
proof -
  have "loads (Suc 0) (u ''[[]]'') = Inl RecursionLimit" by (simp add: json_eval)
  then show ?thesis
    using parse_raises_exactly [OF reference.response_models_axioms, of "Suc 0" UPOS] by auto
qed

end
