(* ===== verification/Dataset.thy ===== *)
theory Dataset
  imports Responses
begin

text \<open>
  Streaming access to the JSONL dataset, \<open>src/linguistic_oj/dataset.py\<close>.  A generator is modelled
  by what it yields and how it ends: the list of its items and the exception that stops it, if
  any.  A file is what opening and decoding it gives: its lines, a decoding error after them, and
  the digest of its bytes.  Validation of a line by the pydantic class is the argument \<open>accept\<close>.
\<close>

section \<open>Samples and generators\<close>

record dataset_sample =
  sid :: pystr
  language :: pystr
  treebank :: pystr
  sample_text :: pystr
  answers :: "(pystr \<times> json) list"
  tasks_available :: "pystr list"

type_synonym sample_validator = "json \<Rightarrow> validation_error list + dataset_sample"

type_synonym 'a gen = "'a list \<times> py_exc option"

definition gen_cons :: "'a \<Rightarrow> 'a gen \<Rightarrow> 'a gen" where
  "gen_cons x g = (x # fst g, snd g)"

definition gen_then :: "'a gen \<Rightarrow> py_exc option \<Rightarrow> 'a gen" where
  "gen_then g e = (fst g, if snd g = None then e else snd g)"

definition gen_filter :: "('a \<Rightarrow> bool) \<Rightarrow> 'a gen \<Rightarrow> 'a gen" where
  "gen_filter P g = (filter P (fst g), snd g)"

record file_content =
  fc_lines :: "pystr list"
  fc_error :: "py_exc option"
  fc_sha256 :: pystr

section \<open>Whitespace\<close>

text \<open>The code points \<open>str.strip\<close> removes.\<close>

definition py_space :: "nat \<Rightarrow> bool" where
  "py_space c \<longleftrightarrow> 9 \<le> c \<and> c \<le> 13 \<or> 28 \<le> c \<and> c \<le> 32 \<or> 8192 \<le> c \<and> c \<le> 8202 \<or>
     c \<in> {133, 160, 5760, 8232, 8233, 8239, 8287, 12288}"

definition py_strip :: "pystr \<Rightarrow> pystr" where
  "py_strip s = rev (dropWhile py_space (rev (dropWhile py_space s)))"

section \<open>Reading\<close>

fun validated_lines :: "sample_validator \<Rightarrow> nat \<Rightarrow> pystr list \<Rightarrow> dataset_sample gen" where
  "validated_lines accept depth [] = ([], None)"
| "validated_lines accept depth (line # rest) =
     (if py_strip line = [] then validated_lines accept depth rest
      else
        (case loads depth line of
           Inl JSONDecodeError \<Rightarrow> ([], Some (Exc DatasetFormatError ''Invalid dataset sample''))
         | Inl IntDigitLimit \<Rightarrow> ([], Some (Exc ValueError ''Exceeds the limit for integer string conversion''))
         | Inl RecursionLimit \<Rightarrow> ([], Some (Exc RecursionError ''maximum recursion depth exceeded''))
         | Inr payload \<Rightarrow>
             (case accept payload of
                Inl _ \<Rightarrow> ([], Some (Exc DatasetFormatError ''Invalid dataset sample''))
              | Inr sample \<Rightarrow> gen_cons sample (validated_lines accept depth rest))))"

definition iter_dataset_samples :: "sample_validator \<Rightarrow> nat \<Rightarrow> file_content option \<Rightarrow> dataset_sample gen" where
  "iter_dataset_samples accept depth path =
     (case path of
        None \<Rightarrow> ([], Some (Exc FileNotFoundError ''Dataset file not found''))
      | Some f \<Rightarrow> gen_then (validated_lines accept depth (fc_lines f)) (fc_error f))"

text \<open>The digest covers the bytes the decoder consumed, so it is compared after the last line.\<close>

definition verified_dataset_samples :: "sample_validator \<Rightarrow> nat \<Rightarrow> file_content option \<Rightarrow> pystr
    \<Rightarrow> dataset_sample gen" where
  "verified_dataset_samples accept depth path expected_sha256 =
     (case path of
        None \<Rightarrow> ([], Some (Exc FileNotFoundError ''No such file or directory''))
      | Some f \<Rightarrow>
          gen_then (gen_then (validated_lines accept depth (fc_lines f)) (fc_error f))
            (if fc_sha256 f \<noteq> expected_sha256
             then Some (Exc SelectedSampleSetError ''dataset bytes changed during selected-sample loading'')
             else None))"

definition iter_matching_samples :: "sample_validator \<Rightarrow> nat \<Rightarrow> file_content option \<Rightarrow> pystr \<Rightarrow> pystr
    \<Rightarrow> pystr \<Rightarrow> dataset_sample gen" where
  "iter_matching_samples accept depth path lang bank task =
     gen_filter (\<lambda>s. language s = lang \<and> treebank s = bank \<and> task \<in> set (tasks_available s))
       (iter_dataset_samples accept depth path)"

section \<open>Loading by id\<close>

fun collect_selected :: "pystr list \<Rightarrow> (pystr \<times> dataset_sample) list \<Rightarrow> dataset_sample list
    \<Rightarrow> (pystr \<times> dataset_sample) list result" where
  "collect_selected expected selected [] = Inr selected"
| "collect_selected expected selected (s # ss) =
     (if sid s \<notin> set expected then collect_selected expected selected ss
      else if sid s \<in> fst ` set selected
      then raise SelectedSampleSetError ''Dataset contains duplicate selected sample ID''
      else collect_selected expected (selected @ [(sid s, s)]) ss)"

definition samples_of :: "sample_validator \<Rightarrow> nat \<Rightarrow> file_content option \<Rightarrow> pystr option \<Rightarrow> dataset_sample gen" where
  "samples_of accept depth path expected_sha256 =
     (case expected_sha256 of
        None \<Rightarrow> iter_dataset_samples accept depth path
      | Some sha \<Rightarrow> verified_dataset_samples accept depth path sha)"

definition load_dataset_samples_by_id :: "sample_validator \<Rightarrow> nat \<Rightarrow> file_content option \<Rightarrow> pystr list
    \<Rightarrow> pystr option \<Rightarrow> dataset_sample list result" where
  "load_dataset_samples_by_id accept depth path sample_ids expected_sha256 =
     rbind (ensure (sample_ids \<noteq> []) (Exc SelectedSampleSetError ''sample_ids must be a non-empty sequence'')) (\<lambda>_.
     rbind (ensure ([] \<notin> set sample_ids) (Exc SelectedSampleSetError ''sample_ids must contain non-empty strings'')) (\<lambda>_.
     rbind (ensure (distinct sample_ids) (Exc SelectedSampleSetError ''sample_ids contains duplicate values'')) (\<lambda>_.
       (case samples_of accept depth path expected_sha256 of
          (samples, ending) \<Rightarrow>
            rbind (collect_selected sample_ids [] samples) (\<lambda>selected.
              case ending of
                Some e \<Rightarrow> Inl e
              | None \<Rightarrow>
                  if filter (\<lambda>i. i \<notin> fst ` set selected) sample_ids \<noteq> []
                  then raise SelectedSampleSetError ''Dataset is missing selected sample IDs''
                  else Inr (map (\<lambda>i. the (map_of selected i)) sample_ids))))))"

section \<open>Properties\<close>

lemma collect_selected_Inr:
  "collect_selected expected selected ss = Inr result \<longleftrightarrow>
     result = selected @ map (\<lambda>s. (sid s, s)) (filter (\<lambda>s. sid s \<in> set expected) ss) \<and>
     distinct (map sid (filter (\<lambda>s. sid s \<in> set expected) ss)) \<and>
     fst ` set selected \<inter> sid ` set (filter (\<lambda>s. sid s \<in> set expected) ss) = {}"
  by (induction expected selected ss rule: collect_selected.induct) auto

lemma filter_unique:
  assumes "distinct (map f (filter (\<lambda>x. f x \<in> S) xs))" "x \<in> set xs" "f x \<in> S"
  shows "filter (\<lambda>y. f y = f x) xs = [x]"
  using assms
proof (induction xs)
  case (Cons y ys)
  show ?case
  proof (cases "f y = f x")
    case True
    have "x = y" using Cons.prems True by (auto simp: image_iff)
    moreover have "filter (\<lambda>z. f z = f x) ys = []"
      using Cons.prems True by (auto simp: filter_empty_conv image_iff) metis
    ultimately show ?thesis by simp
  qed (use Cons in \<open>auto split: if_splits\<close>)
qed simp

lemma distinct_if_unique:
  assumes "\<And>i. i \<in> S \<Longrightarrow> length (filter (\<lambda>x. f x = i) xs) \<le> 1"
  shows "distinct (map f (filter (\<lambda>x. f x \<in> S) xs))"
  using assms
proof (induction xs)
  case (Cons y ys)
  have IH: "distinct (map f (filter (\<lambda>x. f x \<in> S) ys))"
    using Cons.prems by (intro Cons.IH) (fastforce split: if_splits dest: Suc_leD)
  have "f y \<in> S \<Longrightarrow> f y \<notin> f ` set ys"
    using Cons.prems [of "f y"] by (auto simp: filter_empty_conv)
  with IH show ?case by auto
qed simp

lemma map_of_keyed: "map_of (map (\<lambda>s. (f s, s)) xs) i = find (\<lambda>s. f s = i) xs"
  by (induction xs) auto

lemma find_filter: "find P xs = (case filter P xs of [] \<Rightarrow> None | x # _ \<Rightarrow> Some x)"
  by (induction xs) auto

lemma load_by_id_iff:
  "load_dataset_samples_by_id accept depth path ids sha = Inr samples \<longleftrightarrow>
     ids \<noteq> [] \<and> [] \<notin> set ids \<and> distinct ids \<and> snd (samples_of accept depth path sha) = None \<and>
     list_all2 (\<lambda>i s. filter (\<lambda>x. sid x = i) (fst (samples_of accept depth path sha)) = [s]) ids samples"
proof -
  obtain ss ending where stream: "samples_of accept depth path sha = (ss, ending)" by fastforce
  let ?sel = "filter (\<lambda>s. sid s \<in> set ids) ss"
  let ?kv = "map (\<lambda>s. (sid s, s)) ?sel"
  have pick: "map (\<lambda>i. the (map_of ?kv i)) ids = samples \<longleftrightarrow>
      list_all2 (\<lambda>i s. filter (\<lambda>x. sid x = i) ss = [s]) ids samples"
    if d: "distinct (map sid ?sel)" and all: "set ids \<subseteq> sid ` set ?sel"
  proof -
    have one: "filter (\<lambda>x. sid x = i) ss = [the (map_of ?kv i)]" if i: "i \<in> set ids" for i
    proof -
      obtain s where s: "s \<in> set ?sel" "sid s = i" using all i by auto
      have "filter (\<lambda>x. sid x = i) ss = [s]"
        using filter_unique [OF d, of s] s by auto
      moreover have "map_of ?kv i = Some s" using map_of_is_SomeI [of ?kv i s] d s by (auto simp: o_def)
      ultimately show ?thesis by simp
    qed
    have "list_all2 (\<lambda>i s. filter (\<lambda>x. sid x = i) ss = [s]) is zs \<longleftrightarrow>
        map (\<lambda>i. the (map_of ?kv i)) is = zs" if "set is \<subseteq> set ids" for "is" zs
      using that
    proof (induction "is" arbitrary: zs)
      case (Cons i "is")
      then show ?case using one [of i] by (cases zs) auto
    qed auto
    then show ?thesis by auto
  qed
  have uniq: "distinct (map sid ?sel) \<and> set ids \<subseteq> sid ` set ?sel"
    if l: "list_all2 (\<lambda>i s. filter (\<lambda>x. sid x = i) ss = [s]) ids samples"
  proof -
    have ex: "\<exists>s. filter (\<lambda>x. sid x = i) ss = [s]" if "i \<in> set ids" for i
      using l that by (auto simp: list_all2_conv_all_nth in_set_conv_nth)
    have "distinct (map sid ?sel)" by (rule distinct_if_unique) (use ex in fastforce)
    moreover have "i \<in> sid ` set ?sel" if i: "i \<in> set ids" for i
    proof -
      obtain s where "filter (\<lambda>x. sid x = i) ss = [s]" using ex i by blast
      then have "s \<in> set ss \<and> sid s = i" by (auto simp: filter_eq_Cons_iff)
      then show ?thesis using i by auto
    qed
    ultimately show ?thesis by auto
  qed
  have missing: "filter (\<lambda>i. i \<notin> fst ` set ?kv) ids = [] \<longleftrightarrow> set ids \<subseteq> sid ` set ?sel"
    by (simp add: filter_empty_conv image_image) blast
  show ?thesis
    using pick uniq missing
    by (auto simp: load_dataset_samples_by_id_def rbind_Inr_iff collect_selected_Inr stream
        split: option.splits if_splits)
qed

text \<open>Loading by id succeeds exactly when the ids are distinct and non-empty, the stream ends
  without an error (a digest mismatch is one) and each requested id occurs exactly once in the
  dataset; the result is then the samples in the order of the request.\<close>

theorem load_by_id_exactly:
  "load_dataset_samples_by_id accept depth path ids sha = Inr samples \<longleftrightarrow>
     ids \<noteq> [] \<and> [] \<notin> set ids \<and> distinct ids \<and> snd (samples_of accept depth path sha) = None \<and>
     list_all2 (\<lambda>i s. filter (\<lambda>x. sid x = i) (fst (samples_of accept depth path sha)) = [s]) ids samples"
  by (rule load_by_id_iff)

end
