(* ===== verification/Evaluation.thy ===== *)
theory Evaluation
  imports Responses
begin

text \<open>
  The deterministic scoring functions of \<open>src/linguistic_oj/evaluation.py\<close>.  Gold answers come
  from JSON, so the functions check that every token is a non-empty string before they use it;
  the checks are branches of the result.  Float fields hold binary64 values.  Unicode NFC
  normalisation (\<open>unicodedata.normalize\<close>, a table of the Unicode database) is the argument
  \<open>nfc\<close>.
\<close>

section \<open>Score records\<close>

record segmentation_score =
  precision :: pyfloat
  recall :: pyfloat
  f1 :: pyfloat
  correct_tokens :: int
  predicted_tokens :: int
  gold_tokens :: int
  exact_match :: bool
  valid_surface :: bool

record tagging_score =
  accuracy :: pyfloat
  correct_tags :: int
  total_tags :: int
  tg_valid_length :: bool

record dependency_arc =
  arc_token :: int
  arc_head :: int
  arc_rel :: pystr

record dependency_score =
  uas :: pyfloat
  las :: pyfloat
  correct_heads :: int
  correct_labeled_arcs :: int
  total_arcs :: int
  valid_structure :: bool

record exact_match_score =
  em_score :: pyfloat
  em_exact_match :: bool

record transliteration_score =
  token_accuracy :: pyfloat
  tr_correct_tokens :: int
  total_tokens :: int
  sentence_exact_match :: bool
  tr_valid_length :: bool

section \<open>Shared helpers\<close>

fun checked_token :: "json \<Rightarrow> pystr result" where
  "checked_token (JStr s) = (if s = [] then raise ValueError ''must not be empty'' else Inr s)"
| "checked_token _ = raise TypeError ''must be a string''"

definition validate_tokens :: "json list \<Rightarrow> pystr list result" where
  "validate_tokens ts = rmapM checked_token ts"

fun spans_from :: "nat \<Rightarrow> 'c list list \<Rightarrow> (nat \<times> nat) list" where
  "spans_from cursor [] = []"
| "spans_from cursor (t # ts) =
     (cursor, cursor + length t) # spans_from (cursor + length t) ts"

definition token_spans :: "'c list list \<Rightarrow> 'c list \<times> (nat \<times> nat) set" where
  "token_spans ts = (concat ts, set (spans_from 0 ts))"

definition safe_ratio :: "int \<Rightarrow> int \<Rightarrow> rat" where
  "safe_ratio num den = (if den \<noteq> 0 then fl (of_int num / of_int den) else 0)"

text \<open>\<open>2 * precision * recall / (precision + recall)\<close>, guarded, each operation rounded.\<close>

definition harmonic :: "rat \<Rightarrow> rat \<Rightarrow> rat" where
  "harmonic p r = (if fl (p + r) \<noteq> 0 then fl (fl (fl (2 * p) * r) / fl (p + r)) else 0)"

section \<open>Segmentation\<close>

definition score_segmentation :: "json list \<Rightarrow> json list \<Rightarrow> segmentation_score result" where
  "score_segmentation gold predicted =
     rbind (validate_tokens gold) (\<lambda>g. rbind (validate_tokens predicted) (\<lambda>p.
       (let (gold_surface, gold_spans) = token_spans g;
            (predicted_surface, predicted_spans) = token_spans p;
            valid = (gold_surface = predicted_surface);
            correct = (if valid then int (card (gold_spans \<inter> predicted_spans)) else 0);
            pr = safe_ratio correct (int (length p));
            re = safe_ratio correct (int (length g));
            f = harmonic pr re;
            exact = (valid \<and> g = p);
            empty = (g = [] \<and> p = [])
        in Inr \<lparr>precision = Fin (if empty then 1 else pr), recall = Fin (if empty then 1 else re),
                f1 = Fin (if empty then 1 else f), correct_tokens = correct,
                predicted_tokens = int (length p), gold_tokens = int (length g),
                exact_match = (empty \<or> exact), valid_surface = valid\<rparr>)))"

section \<open>Tags\<close>

definition score_tags :: "json list \<Rightarrow> json list \<Rightarrow> tagging_score result" where
  "score_tags gold predicted =
     rbind (validate_tokens gold) (\<lambda>g. rbind (validate_tokens predicted) (\<lambda>p.
       if length g \<noteq> length p then
         Inr \<lparr>accuracy = Fin 0, correct_tags = 0, total_tags = int (length g), tg_valid_length = False\<rparr>
       else
         (let correct = int (length (filter (\<lambda>(x, y). x = y) (zip g p)));
              acc = (if g = [] then 1 else safe_ratio correct (int (length g)))
          in Inr \<lparr>accuracy = Fin acc, correct_tags = correct, total_tags = int (length g),
                  tg_valid_length = True\<rparr>)))"

section \<open>Dependencies\<close>

text \<open>The arcs by token id, in input order; entries are arcs by their type.\<close>

fun index_arcs_into :: "(int \<times> dependency_arc) list \<Rightarrow> dependency_arc list
    \<Rightarrow> (int \<times> dependency_arc) list result" where
  "index_arcs_into indexed [] = Inr indexed"
| "index_arcs_into indexed (a # as) =
     (if arc_token a \<le> 0 then raise ValueError ''token_id must be positive''
      else if arc_head a < 0 then raise ValueError ''head_id must be non-negative''
      else if arc_rel a = [] then raise ValueError ''deprel must not be empty''
      else if arc_token a \<in> fst ` set indexed then raise ValueError ''contains duplicate token_id''
      else index_arcs_into (indexed @ [(arc_token a, a)]) as)"

definition index_arcs :: "dependency_arc list \<Rightarrow> (int \<times> dependency_arc) list result" where
  "index_arcs as = index_arcs_into [] as"

text \<open>The lookup of the predicted arc cannot fail: the key sets are equal when it runs.\<close>

definition head_matches :: "(int \<times> dependency_arc) list \<Rightarrow> int \<times> dependency_arc \<Rightarrow> bool" where
  "head_matches predicted g = (map_option arc_head (map_of predicted (fst g)) = Some (arc_head (snd g)))"

definition rel_matches :: "(int \<times> dependency_arc) list \<Rightarrow> int \<times> dependency_arc \<Rightarrow> bool" where
  "rel_matches predicted g = (map_option arc_rel (map_of predicted (fst g)) = Some (arc_rel (snd g)))"

definition score_dependencies ::
    "dependency_arc list \<Rightarrow> dependency_arc list \<Rightarrow> dependency_score result" where
  "score_dependencies gold_arcs predicted_arcs =
     rbind (index_arcs gold_arcs) (\<lambda>gold. rbind (index_arcs predicted_arcs) (\<lambda>predicted.
       (let total = int (length gold) in
        if fst ` set gold \<noteq> fst ` set predicted then
          Inr \<lparr>uas = Fin 0, las = Fin 0, correct_heads = 0, correct_labeled_arcs = 0,
               total_arcs = total, valid_structure = False\<rparr>
        else
          (let heads = int (length (filter (head_matches predicted) gold));
               labeled = int (length (filter (\<lambda>g. head_matches predicted g \<and> rel_matches predicted g) gold))
           in Inr \<lparr>uas = Fin (if total = 0 then 1 else safe_ratio heads total),
                   las = Fin (if total = 0 then 1 else safe_ratio labeled total),
                   correct_heads = heads, correct_labeled_arcs = labeled,
                   total_arcs = total, valid_structure = True\<rparr>))))"

section \<open>Exact match and transliteration\<close>

definition score_exact_match :: "(pystr \<Rightarrow> pystr) \<Rightarrow> json \<Rightarrow> json \<Rightarrow> exact_match_score result" where
  "score_exact_match nfc gold predicted =
     (case (gold, predicted) of
        (JStr g, JStr p) \<Rightarrow>
          Inr \<lparr>em_score = Fin (if nfc g = nfc p then 1 else 0), em_exact_match = (nfc g = nfc p)\<rparr>
      | _ \<Rightarrow> raise TypeError ''gold and predicted values must be strings'')"

definition score_transliteration :: "(pystr \<Rightarrow> pystr) \<Rightarrow> json list \<Rightarrow> json list
    \<Rightarrow> transliteration_score result" where
  "score_transliteration nfc gold predicted =
     rbind (validate_tokens gold) (\<lambda>g. rbind (validate_tokens predicted) (\<lambda>p.
       if length g \<noteq> length p then
         Inr \<lparr>token_accuracy = Fin 0, tr_correct_tokens = 0, total_tokens = int (length g),
              sentence_exact_match = False, tr_valid_length = False\<rparr>
       else
         (let matches = map (\<lambda>(x, y). nfc x = nfc y) (zip g p);
              correct = int (length (filter id matches));
              acc = (if g = [] then 1 else safe_ratio correct (int (length g)))
          in Inr \<lparr>token_accuracy = Fin acc, tr_correct_tokens = correct, total_tokens = int (length g),
                  sentence_exact_match = list_all id matches, tr_valid_length = True\<rparr>)))"

section \<open>Token lists and spans\<close>

lemma checked_token_Inr: "checked_token j = Inr s \<longleftrightarrow> j = JStr s \<and> s \<noteq> []"
  by (cases j) auto

lemma validate_tokens_Inr: "validate_tokens js = Inr ts \<longleftrightarrow> js = map JStr ts \<and> [] \<notin> set ts"
proof (induction js arbitrary: ts)
  case (Cons j js)
  then show ?case
    by (cases ts) (auto simp: validate_tokens_def rbind_Inr_iff checked_token_Inr)
qed (auto simp: validate_tokens_def)

lemma validate_tokens_strings [simp]: "[] \<notin> set ts \<Longrightarrow> validate_tokens (map JStr ts) = Inr ts"
  by (simp add: validate_tokens_Inr)

lemma validate_tokens_Nil [simp]: "validate_tokens [] = Inr []"
  by (simp add: validate_tokens_def)

lemma length_spans [simp]: "length (spans_from c ts) = length ts"
  by (induction ts arbitrary: c) auto

lemma spans_ge: "(s, e) \<in> set (spans_from c ts) \<Longrightarrow> c \<le> s"
  by (induction ts arbitrary: c) force+

lemma spans_sorted: "[] \<notin> set ts \<Longrightarrow> sorted_wrt (\<lambda>x y. fst x < fst y) (spans_from c ts)"
proof (induction ts arbitrary: c)
  case (Cons t ts)
  then have "0 < length t" "[] \<notin> set ts" by auto
  then show ?case using Cons.IH [of "c + length t"] by (auto dest!: spans_ge simp: neq_Nil_conv)
qed simp

lemma spans_distinct: "[] \<notin> set ts \<Longrightarrow> distinct (spans_from c ts)"
proof (induction ts arbitrary: c)
  case (Cons t ts)
  have "(c, c + length t) \<notin> set (spans_from (c + length t) ts)"
    using Cons.prems by (auto dest!: spans_ge)
  then show ?case using Cons by auto
qed simp

lemma sorted_wrt_fst_unique:
  fixes xs ys :: "(nat \<times> nat) list"
  shows "sorted_wrt (\<lambda>x y. fst x < fst y) xs \<Longrightarrow> sorted_wrt (\<lambda>x y. fst x < fst y) ys \<Longrightarrow>
    set xs = set ys \<Longrightarrow> xs = ys"
proof (induction xs arbitrary: ys)
  case (Cons x xs)
  from Cons.prems obtain y ys' where ys: "ys = y # ys'" by (cases ys) auto
  have "x = y"
  proof (rule ccontr)
    assume "x \<noteq> y"
    then have "x \<in> set ys'" "y \<in> set xs" using Cons.prems(3) ys by auto
    then show False using Cons.prems ys by (fastforce dest: less_asym)
  qed
  moreover have "x \<notin> set xs" "y \<notin> set ys'" using Cons.prems ys by auto
  ultimately have "set xs = set ys'" using Cons.prems(3) ys by auto
  then show ?case using Cons ys \<open>x = y\<close> by auto
qed simp

lemma spans_lengths: "spans_from c xs = spans_from c ys \<Longrightarrow> map length xs = map length ys"
proof (induction xs arbitrary: c ys)
  case Nil
  then show ?case by (cases ys) auto
next
  case (Cons x xs)
  then show ?case by (cases ys) auto
qed

lemma concat_lengths_unique:
  "concat xs = concat ys \<Longrightarrow> map length xs = map length ys \<Longrightarrow> xs = ys"
proof (induction xs arbitrary: ys)
  case (Cons x xs)
  then obtain y ys' where "ys = y # ys'" by (cases ys) auto
  then show ?case using Cons by auto
qed auto

text \<open>Two segmentations of one surface with the same spans are the same segmentation.\<close>

lemma spans_determine:
  assumes "[] \<notin> set xs" "[] \<notin> set ys" "concat xs = concat ys"
    and "set (spans_from 0 xs) = set (spans_from 0 ys)"
  shows "xs = ys"
  using sorted_wrt_fst_unique [OF spans_sorted [OF assms(1)] spans_sorted [OF assms(2)] assms(4)]
  by (auto intro: concat_lengths_unique [OF assms(3)] dest: spans_lengths)

lemma common_spans_le:
  "card (set (spans_from c xs) \<inter> set (spans_from d ys)) \<le> length xs"
  "card (set (spans_from c xs) \<inter> set (spans_from d ys)) \<le> length ys"
  using card_mono [of "set (spans_from c xs)" "set (spans_from c xs) \<inter> set (spans_from d ys)"]
    card_mono [of "set (spans_from d ys)" "set (spans_from c xs) \<inter> set (spans_from d ys)"]
    card_length [of "spans_from c xs"] card_length [of "spans_from d ys"]
  by auto

lemma common_spans_all:
  assumes "[] \<notin> set xs" "[] \<notin> set ys" "concat xs = concat ys"
  shows "card (set (spans_from 0 xs) \<inter> set (spans_from 0 ys)) = length xs \<and>
      card (set (spans_from 0 xs) \<inter> set (spans_from 0 ys)) = length ys \<longleftrightarrow> xs = ys"
proof
  let ?I = "set (spans_from 0 xs) \<inter> set (spans_from 0 ys)"
  assume c: "card ?I = length xs \<and> card ?I = length ys"
  have "card (set (spans_from 0 xs)) = length xs" "card (set (spans_from 0 ys)) = length ys"
    using distinct_card [OF spans_distinct [OF assms(1)]] distinct_card [OF spans_distinct [OF assms(2)]]
    by simp_all
  then have "?I = set (spans_from 0 xs)"
    using c by (intro card_subset_eq) simp_all
  moreover have "?I = set (spans_from 0 ys)"
    using c \<open>card (set (spans_from 0 ys)) = length ys\<close> by (intro card_subset_eq) simp_all
  ultimately have "set (spans_from 0 xs) = set (spans_from 0 ys)" by simp
  then show "xs = ys" using spans_determine [OF assms] by simp
next
  assume "xs = ys"
  then show "card (set (spans_from 0 xs) \<inter> set (spans_from 0 ys)) = length xs \<and>
      card (set (spans_from 0 xs) \<inter> set (spans_from 0 ys)) = length ys"
    using distinct_card [OF spans_distinct [OF assms(1)]] by simp
qed

section \<open>Ratios\<close>

definition unit_float :: "pyfloat \<Rightarrow> bool" where
  "unit_float x \<longleftrightarrow> (\<exists>q. x = Fin q \<and> 0 \<le> q \<and> q \<le> 1)"

lemma unit_float_Fin [simp]: "unit_float (Fin q) \<longleftrightarrow> 0 \<le> q \<and> q \<le> 1"
  by (simp add: unit_float_def)

lemma safe_ratio_unit:
  "0 \<le> c \<Longrightarrow> c \<le> n \<Longrightarrow> 0 \<le> safe_ratio c n" "0 \<le> c \<Longrightarrow> c \<le> n \<Longrightarrow> safe_ratio c n \<le> 1"
  using ieee.count_ratio_bounds [of c n] by (auto simp: safe_ratio_def)

lemma safe_ratio_mono:
  "0 \<le> c \<Longrightarrow> c \<le> d \<Longrightarrow> 0 \<le> n \<Longrightarrow> safe_ratio c n \<le> safe_ratio d n"
  by (auto simp: safe_ratio_def intro!: fl_mono divide_right_mono)

lemma safe_ratio_zero [simp]: "safe_ratio 0 n = 0"
  by (simp add: safe_ratio_def)

lemma safe_ratio_self [simp]: "n \<noteq> 0 \<Longrightarrow> safe_ratio n n = 1"
  by (simp add: safe_ratio_def)

lemma safe_ratio_one_iff:
  "0 \<le> c \<Longrightarrow> c \<le> n \<Longrightarrow> 0 < n \<Longrightarrow> n \<le> 2 ^ 53 \<Longrightarrow> safe_ratio c n = 1 \<longleftrightarrow> c = n"
  using fl_ratio_one_iff [of c n] by (simp add: safe_ratio_def)

lemma safe_ratio_rounded: "0 \<le> c \<Longrightarrow> 0 \<le> n \<Longrightarrow> \<exists>x. 0 \<le> x \<and> safe_ratio c n = fl x"
  by (auto simp: safe_ratio_def intro: exI [of _ 0] exI [of _ "of_int c / of_int n"])

lemma harmonic_zero [simp]: "harmonic 0 0 = 0"
  by (simp add: harmonic_def)

lemma harmonic_one [simp]: "harmonic 1 1 = 1"
  using fl_int [of 2] by (simp add: harmonic_def)

lemma harmonic_ratio_unit:
  assumes "0 \<le> c" "c \<le> m" "c \<le> n"
  shows "0 \<le> harmonic (safe_ratio c m) (safe_ratio c n)" "harmonic (safe_ratio c m) (safe_ratio c n) \<le> 1"
proof -
  obtain x y where xy: "0 \<le> x" "safe_ratio c m = fl x" "0 \<le> y" "safe_ratio c n = fl y"
    using assms safe_ratio_rounded [of c m] safe_ratio_rounded [of c n] by auto
  show "0 \<le> harmonic (safe_ratio c m) (safe_ratio c n)" "harmonic (safe_ratio c m) (safe_ratio c n) \<le> 1"
    using ieee.harmonic_bounds [OF xy(2,1) _ xy(4,3)] safe_ratio_unit [OF assms(1,2)]
      safe_ratio_unit [OF assms(1,3)]
    by (auto simp: harmonic_def)
qed

section \<open>Segmentation properties\<close>

lemma map_JStr_eq [simp]: "map JStr xs = map JStr ys \<longleftrightarrow> xs = ys"
  by (rule inj_map_eq_map) (simp add: inj_def)

lemma score_segmentation_Inr:
  "score_segmentation gold predicted = Inr s \<longleftrightarrow>
     (\<exists>g p. gold = map JStr g \<and> predicted = map JStr p \<and> [] \<notin> set g \<and> [] \<notin> set p \<and>
        score_segmentation (map JStr g) (map JStr p) = Inr s)"
  by (auto simp: score_segmentation_def rbind_Inr_iff validate_tokens_Inr)

lemma concat_Nil_iff: "[] \<notin> set xs \<Longrightarrow> concat xs = [] \<longleftrightarrow> xs = []"
  by (cases xs) auto

lemma common_spans_nonempty:
  "card (set (spans_from 0 g) \<inter> set (spans_from 0 p)) \<le> length g \<and>
   card (set (spans_from 0 g) \<inter> set (spans_from 0 p)) \<le> length p"
  using common_spans_le by blast

text \<open>Every segmentation score is sound: precision, recall and F1 are floats between 0 and 1,
  no more tokens count as correct than either side has, and an answer whose text differs from
  the source text scores zero on every metric, whatever its spans.\<close>

theorem segmentation_score_sound:
  assumes "score_segmentation gold predicted = Inr s"
  shows "unit_float (precision s) \<and> unit_float (recall s) \<and> unit_float (f1 s) \<and>
    0 \<le> correct_tokens s \<and> correct_tokens s \<le> gold_tokens s \<and>
    correct_tokens s \<le> predicted_tokens s \<and>
    (\<not> valid_surface s \<longrightarrow> precision s = Fin 0 \<and> recall s = Fin 0 \<and> f1 s = Fin 0 \<and> \<not> exact_match s)"
proof -
  from assms obtain g p where gp: "[] \<notin> set g" "[] \<notin> set p"
      "score_segmentation (map JStr g) (map JStr p) = Inr s"
    unfolding score_segmentation_Inr [of gold] by blast
  let ?c = "int (card (set (spans_from 0 g) \<inter> set (spans_from 0 p)))"
  have c: "0 \<le> ?c" "?c \<le> int (length g)" "?c \<le> int (length p)"
    using common_spans_nonempty [of g p] by simp_all
  show ?thesis
    using gp safe_ratio_unit [OF c(1,2)] safe_ratio_unit [OF c(1,3)] harmonic_ratio_unit [OF c(1,3,2)] c
    by (auto simp: score_segmentation_def token_spans_def Let_def split: if_splits)
qed

theorem segmentation_score_sound_witness:
  "\<exists>s. score_segmentation [JStr (u ''ab''), JStr (u ''c'')] [JStr (u ''a''), JStr (u ''b''), JStr (u ''c'')]
       = Inr s \<and> unit_float (f1 s) \<and> correct_tokens s \<le> 2"
proof -
  define s where "s = projr (score_segmentation [JStr (u ''ab''), JStr (u ''c'')]
    [JStr (u ''a''), JStr (u ''b''), JStr (u ''c'')])"
  have run: "score_segmentation [JStr (u ''ab''), JStr (u ''c'')]
      [JStr (u ''a''), JStr (u ''b''), JStr (u ''c'')] = Inr s" and "gold_tokens s = 2"
    by (simp_all add: s_def score_segmentation_def validate_tokens_def token_spans_def u_def Let_def)
  with segmentation_score_sound [OF run] show ?thesis by auto
qed

text \<open>A segmentation is reported exact, and gets full precision and recall, if and only if it
  is the gold segmentation; it then has F1 one.  Below \<open>2 ^ 53\<close> tokens the rounding of the
  ratios never lifts an imperfect score to one.\<close>

theorem segmentation_perfect_iff:
  assumes "score_segmentation gold predicted = Inr s"
    and "length gold \<le> 2 ^ 53" "length predicted \<le> 2 ^ 53"
  shows "(exact_match s \<longleftrightarrow> gold = predicted) \<and>
    (precision s = Fin 1 \<and> recall s = Fin 1 \<longleftrightarrow> gold = predicted) \<and>
    (gold = predicted \<longrightarrow> f1 s = Fin 1 \<and> correct_tokens s = int (length gold))"
proof -
  from assms obtain g p where gp: "[] \<notin> set g" "[] \<notin> set p" "gold = map JStr g" "predicted = map JStr p"
      "score_segmentation (map JStr g) (map JStr p) = Inr s"
    unfolding score_segmentation_Inr [of gold] by blast
  let ?c = "int (card (set (spans_from 0 g) \<inter> set (spans_from 0 p)))"
  have c: "0 \<le> ?c" "?c \<le> int (length g)" "?c \<le> int (length p)"
    using common_spans_nonempty [of g p] by simp_all
  have b: "int (length g) \<le> 2 ^ 53" "int (length p) \<le> 2 ^ 53"
    using assms(2,3) gp(3,4) by simp_all
  have same: "concat g = concat p \<Longrightarrow> ?c = int (length g) \<and> ?c = int (length p) \<longleftrightarrow> g = p"
    using common_spans_all [OF gp(1,2)] by simp
  have ratios: "g \<noteq> [] \<Longrightarrow> p \<noteq> [] \<Longrightarrow>
      safe_ratio ?c (int (length p)) = 1 \<and> safe_ratio ?c (int (length g)) = 1 \<longleftrightarrow>
      ?c = int (length g) \<and> ?c = int (length p)"
    using safe_ratio_one_iff [OF c(1,2) _ b(1)] safe_ratio_one_iff [OF c(1,3) _ b(2)] by auto
  have full: "g = p \<Longrightarrow> ?c = int (length p)" using same by auto
  have surface: "g = [] \<Longrightarrow> concat g = concat p \<Longrightarrow> p = []" "p = [] \<Longrightarrow> concat g = concat p \<Longrightarrow> g = []"
    using gp(1,2) by (metis concat.simps(1) concat_Nil_iff)+
  show ?thesis
  proof (cases "concat g = concat p")
    case False
    then have "g \<noteq> p" by auto
    then show ?thesis
      using gp(5,1,2) False unfolding gp(3,4)
      by (auto simp: score_segmentation_def token_spans_def Let_def split: if_splits)
  next
    case surface_eq: True
    show ?thesis
    proof (cases "g = []")
      case True
      then show ?thesis
        using gp(5) surface(1) [OF True surface_eq] unfolding gp(3,4)
        by (auto simp: score_segmentation_def token_spans_def Let_def)
    next
      case False
      then have ne: "p \<noteq> []" using surface(2) surface_eq by auto
      have s: "exact_match s \<longleftrightarrow> g = p" "precision s = Fin (safe_ratio ?c (int (length p)))"
        "recall s = Fin (safe_ratio ?c (int (length g)))" "correct_tokens s = ?c"
        "f1 s = Fin (harmonic (safe_ratio ?c (int (length p))) (safe_ratio ?c (int (length g))))"
        using gp(5,1,2) False ne surface_eq
        by (auto simp: score_segmentation_def token_spans_def Let_def)
      have "g = p \<Longrightarrow> f1 s = Fin 1 \<and> correct_tokens s = int (length g)"
        using s(4,5) full ne False by simp
      then show ?thesis
        using s(1-3) ratios [OF False ne] same [OF surface_eq] unfolding gp(3,4) by simp
    qed
  qed
qed

theorem segmentation_perfect_iff_witness:
  "\<exists>s. score_segmentation [JStr (u ''ab''), JStr (u ''c'')] [JStr (u ''a''), JStr (u ''bc'')] = Inr s \<and>
     \<not> exact_match s \<and> valid_surface s"
proof -
  define s where "s = projr (score_segmentation [JStr (u ''ab''), JStr (u ''c'')]
    [JStr (u ''a''), JStr (u ''bc'')])"
  have run: "score_segmentation [JStr (u ''ab''), JStr (u ''c'')]
      [JStr (u ''a''), JStr (u ''bc'')] = Inr s" and "valid_surface s"
    by (simp_all add: s_def score_segmentation_def validate_tokens_def token_spans_def u_def Let_def)
  with segmentation_perfect_iff [OF run] show ?thesis by auto
qed

section \<open>Tag and transliteration properties\<close>

lemma filter_zip_le: "length (filter P (zip xs ys)) \<le> length xs"
  using length_filter_le [of P "zip xs ys"] by simp

lemma all_zip_eq_iff:
  "length xs = length ys \<Longrightarrow> length (filter (\<lambda>(x, y). h x = h y) (zip xs ys)) = length xs \<longleftrightarrow> map h xs = map h ys"
proof (induction xs ys rule: list_induct2)
  case (Cons x xs y ys)
  then show ?case using filter_zip_le [of "\<lambda>(x, y). h x = h y" xs ys] by auto
qed simp

text \<open>Tag scoring is strict about alignment: an answer with a missing or extra tag scores zero,
  otherwise the accuracy is a float between 0 and 1, and it is one exactly for the gold tags.\<close>

theorem tag_score_sound:
  assumes "score_tags gold predicted = Inr s" "length gold \<le> 2 ^ 53"
  shows "unit_float (accuracy s) \<and> 0 \<le> correct_tags s \<and> correct_tags s \<le> total_tags s \<and>
    (tg_valid_length s \<longleftrightarrow> length gold = length predicted) \<and>
    (accuracy s = Fin 1 \<longleftrightarrow> gold = predicted) \<and> (\<not> tg_valid_length s \<longrightarrow> accuracy s = Fin 0)"
proof -
  obtain g p where gp: "gold = map JStr g" "predicted = map JStr p" "[] \<notin> set g" "[] \<notin> set p"
    using assms by (auto simp: score_tags_def rbind_Inr_iff validate_tokens_Inr)
  let ?c = "int (length (filter (\<lambda>(x, y). x = y) (zip g p)))"
  have c: "0 \<le> ?c" "?c \<le> int (length g)" "int (length g) \<le> 2 ^ 53"
    using filter_zip_le [of "\<lambda>(x, y). x = y" g p] assms(2) gp(1) by simp_all
  have eq: "length g = length p \<Longrightarrow> ?c = int (length g) \<longleftrightarrow> g = p"
    using all_zip_eq_iff [of g p id] by simp
  show ?thesis
    using assms(1) gp eq c safe_ratio_unit [OF c(1,2)] safe_ratio_one_iff [OF c(1,2) _ c(3)]
    by (cases "g = []") (auto simp: score_tags_def Let_def split: if_splits)
qed

theorem tag_score_sound_witness:
  "\<exists>s. score_tags [JStr (u ''NOUN''), JStr (u ''VERB'')] [JStr (u ''NOUN''), JStr (u ''ADJ'')] = Inr s \<and>
     unit_float (accuracy s) \<and> accuracy s \<noteq> Fin 1"
proof -
  define s where "s = projr (score_tags [JStr (u ''NOUN''), JStr (u ''VERB'')] [JStr (u ''NOUN''), JStr (u ''ADJ'')])"
  have run: "score_tags [JStr (u ''NOUN''), JStr (u ''VERB'')] [JStr (u ''NOUN''), JStr (u ''ADJ'')] = Inr s"
    by (simp add: s_def score_tags_def validate_tokens_def)
  from tag_score_sound [OF run] run show ?thesis by auto
qed

text \<open>Transliteration scoring compares token by token after Unicode normalisation: the accuracy
  is a float between 0 and 1, the sentence counts as exact if and only if every token agrees after
  normalisation, and this is when the accuracy is one.\<close>

theorem transliteration_score_sound:
  assumes "score_transliteration nfc (map JStr g) (map JStr p) = Inr s" "length g \<le> 2 ^ 53"
  shows "unit_float (token_accuracy s) \<and> 0 \<le> tr_correct_tokens s \<and> tr_correct_tokens s \<le> total_tokens s \<and>
    (sentence_exact_match s \<longleftrightarrow> map nfc g = map nfc p) \<and>
    (token_accuracy s = Fin 1 \<longleftrightarrow> map nfc g = map nfc p)"
proof -
  have ne: "[] \<notin> set g" "[] \<notin> set p"
    using assms by (auto simp: score_transliteration_def rbind_Inr_iff validate_tokens_Inr)
  let ?m = "map (\<lambda>(x, y). nfc x = nfc y) (zip g p)"
  let ?c = "int (length (filter id ?m))"
  have "filter id ?m = map (\<lambda>(x, y). nfc x = nfc y) (filter (\<lambda>(x, y). nfc x = nfc y) (zip g p))"
    by (simp add: filter_map o_def case_prod_beta')
  then have m: "length (filter id ?m) = length (filter (\<lambda>(x, y). nfc x = nfc y) (zip g p))" by simp
  have c: "0 \<le> ?c" "?c \<le> int (length g)" "int (length g) \<le> 2 ^ 53"
    using filter_zip_le [of "\<lambda>(x, y). nfc x = nfc y" g p] assms(2) m by simp_all
  have eq: "length g = length p \<Longrightarrow> ?c = int (length g) \<longleftrightarrow> map nfc g = map nfc p"
    using all_zip_eq_iff [of g p nfc] m by simp
  have "length g = length p \<Longrightarrow> list_all id ?m \<longleftrightarrow> map nfc g = map nfc p"
    by (induction g p rule: list_induct2) auto
  then show ?thesis
    using assms(1) ne eq c safe_ratio_unit [OF c(1,2)] safe_ratio_one_iff [OF c(1,2) _ c(3)]
    by (cases "g = []") (auto simp: score_transliteration_def Let_def dest: map_eq_imp_length_eq split: if_splits)
qed

theorem transliteration_score_sound_witness:
  "\<exists>s. score_transliteration (\<lambda>x. x) (map JStr [u ''ni'', u ''hao'']) (map JStr [u ''ni'', u ''ha'']) = Inr s \<and>
     \<not> sentence_exact_match s"
proof -
  define s where "s = projr (score_transliteration (\<lambda>x. x) (map JStr [u ''ni'', u ''hao'']) (map JStr [u ''ni'', u ''ha'']))"
  have run: "score_transliteration (\<lambda>x. x) (map JStr [u ''ni'', u ''hao'']) (map JStr [u ''ni'', u ''ha'']) = Inr s"
    unfolding s_def score_transliteration_def by (simp del: list.map)
  from transliteration_score_sound [OF run] show ?thesis by (auto intro!: exI [of _ s] simp: run [simplified])
qed

section \<open>Dependency properties\<close>

definition arc_ok :: "dependency_arc \<Rightarrow> bool" where
  "arc_ok a \<longleftrightarrow> 0 < arc_token a \<and> 0 \<le> arc_head a \<and> arc_rel a \<noteq> []"

lemma index_arcs_into_Inr:
  "index_arcs_into m as = Inr m' \<longleftrightarrow>
     m' = m @ map (\<lambda>a. (arc_token a, a)) as \<and> list_all arc_ok as \<and> distinct (map arc_token as) \<and>
     arc_token ` set as \<inter> fst ` set m = {}"
  by (induction m as rule: index_arcs_into.induct) (auto simp: arc_ok_def not_le not_less)

lemma index_arcs_Inr:
  "index_arcs as = Inr m \<longleftrightarrow>
     m = map (\<lambda>a. (arc_token a, a)) as \<and> list_all arc_ok as \<and> distinct (map arc_token as)"
  by (auto simp: index_arcs_def index_arcs_into_Inr)

lemma map_of_arcs:
  "distinct (map arc_token as) \<Longrightarrow> a \<in> set as \<Longrightarrow> map_of (map (\<lambda>a. (arc_token a, a)) as) (arc_token a) = Some a"
  by (induction as) (auto simp: image_iff)

lemma map_of_arcs_Some:
  "map_of (map (\<lambda>a. (arc_token a, a)) as) k = Some a \<Longrightarrow> a \<in> set as \<and> arc_token a = k"
  by (auto dest!: map_of_SomeD)

lemma map_of_arcs_mset:
  assumes "mset as = mset bs" "distinct (map arc_token as)"
  shows "map_of (map (\<lambda>a. (arc_token a, a)) as) = map_of (map (\<lambda>a. (arc_token a, a)) bs)"
proof -
  have "mset (map arc_token as) = mset (map arc_token bs)" using assms(1) by simp
  then have "distinct (map arc_token bs)" using assms(2) mset_eq_imp_distinct_iff by blast
  then show ?thesis
    using assms by (intro map_of_inject_set [THEN iffD2]) (auto simp: o_def dest: mset_eq_setD)
qed

lemma length_filter_mset: "mset xs = mset ys \<Longrightarrow> length (filter P xs) = length (filter P ys)"
  by (metis mset_filter size_mset)

lemma dependency_counts:
  "length (filter (\<lambda>g. head_matches p g \<and> rel_matches p g) gs) \<le> length (filter (head_matches p) gs)"
  "length (filter (head_matches p) gs) \<le> length gs"
proof -
  show "length (filter (\<lambda>g. head_matches p g \<and> rel_matches p g) gs) \<le> length (filter (head_matches p) gs)"
    using length_filter_le [of "rel_matches p" "filter (head_matches p) gs"] by simp
qed simp

text \<open>A dependency score is sound: UAS and LAS are floats between 0 and 1, a labelled match is
  always an attachment match so LAS never exceeds UAS, and a prediction for other token ids than
  the gold ones scores zero on both.\<close>

theorem dependency_score_sound:
  assumes "score_dependencies gold predicted = Inr s"
  shows "unit_float (uas s) \<and> unit_float (las s) \<and>
    0 \<le> correct_labeled_arcs s \<and> correct_labeled_arcs s \<le> correct_heads s \<and> correct_heads s \<le> total_arcs s \<and>
    (\<exists>x y. las s = Fin x \<and> uas s = Fin y \<and> x \<le> y) \<and>
    (valid_structure s \<longleftrightarrow> arc_token ` set gold = arc_token ` set predicted) \<and>
    (\<not> valid_structure s \<longrightarrow> uas s = Fin 0 \<and> las s = Fin 0)"
proof -
  let ?g = "map (\<lambda>a. (arc_token a, a)) gold" and ?p = "map (\<lambda>a. (arc_token a, a)) predicted"
  let ?h = "int (length (filter (head_matches ?p) ?g))"
    and ?l = "int (length (filter (\<lambda>g. head_matches ?p g \<and> rel_matches ?p g) ?g))"
  have h: "0 \<le> ?h" "?h \<le> int (length ?g)" and l: "0 \<le> ?l" "?l \<le> ?h"
    using dependency_counts [of ?p ?g] by simp_all
  have l': "?l \<le> int (length ?g)" using h l by linarith
  have run: "index_arcs gold = Inr ?g" "index_arcs predicted = Inr ?p"
    using assms by (auto simp: score_dependencies_def rbind_Inr_iff index_arcs_Inr)
  have ids: "fst ` set ?g = arc_token ` set gold" "fst ` set ?p = arc_token ` set predicted" by (force+)
  show ?thesis
    using assms safe_ratio_unit [OF h] safe_ratio_unit [OF l(1) l'] h l ids
      safe_ratio_mono [OF l, of "int (length ?g)"]
    unfolding score_dependencies_def run rbind_simps Let_def ids
    by (simp split: if_splits) (auto simp: unit_float_def)
qed

theorem dependency_score_sound_witness:
  "\<exists>s. score_dependencies [\<lparr>arc_token = 1, arc_head = 2, arc_rel = u ''det''\<rparr>, \<lparr>arc_token = 2, arc_head = 0, arc_rel = u ''root''\<rparr>]
      [\<lparr>arc_token = 2, arc_head = 0, arc_rel = u ''dep''\<rparr>, \<lparr>arc_token = 1, arc_head = 2, arc_rel = u ''det''\<rparr>] = Inr s \<and>
     valid_structure s \<and> correct_labeled_arcs s \<le> correct_heads s"
proof -
  let ?g = "[\<lparr>arc_token = 1, arc_head = 2, arc_rel = u ''det''\<rparr>, \<lparr>arc_token = 2, arc_head = 0, arc_rel = u ''root''\<rparr>]"
  let ?p = "[\<lparr>arc_token = 2, arc_head = 0, arc_rel = u ''dep''\<rparr>, \<lparr>arc_token = 1, arc_head = 2, arc_rel = u ''det''\<rparr>]"
  define s where "s = projr (score_dependencies ?g ?p)"
  have run: "score_dependencies ?g ?p = Inr s"
    by (simp add: s_def score_dependencies_def index_arcs_def insert_commute Let_def)
  from dependency_score_sound [OF run] run show ?thesis by auto
qed

text \<open>The order in which arcs are listed does not matter to the score.\<close>

theorem dependency_order_free:
  assumes "mset gold = mset gold'" "mset predicted = mset predicted'"
    and "score_dependencies gold predicted = Inr s"
  shows "score_dependencies gold' predicted' = Inr s"
proof -
  let ?m = "map (\<lambda>a. (arc_token a, a))"
  have ok: "list_all arc_ok gold" "distinct (map arc_token gold)" "list_all arc_ok predicted"
      "distinct (map arc_token predicted)"
    using assms(3) by (auto simp: score_dependencies_def rbind_Inr_iff index_arcs_Inr)
  have sets: "set gold' = set gold" "set predicted' = set predicted"
    using assms(1,2) by (metis set_mset_mset)+
  have "mset (map arc_token gold') = mset (map arc_token gold)"
      "mset (map arc_token predicted') = mset (map arc_token predicted)" using assms(1,2) by simp_all
  then have d: "distinct (map arc_token gold')" "distinct (map arc_token predicted')"
    using ok mset_eq_imp_distinct_iff by blast+
  then have run: "index_arcs gold' = Inr (?m gold')" "index_arcs predicted' = Inr (?m predicted')"
      "index_arcs gold = Inr (?m gold)" "index_arcs predicted = Inr (?m predicted)"
    using ok sets by (simp_all add: index_arcs_Inr list_all_iff)
  have lookup: "map_of (?m predicted') = map_of (?m predicted)"
    using map_of_arcs_mset [OF assms(2) ok(4)] by simp
  have "mset (?m gold') = mset (?m gold)" using assms(1) by simp
  then have counts: "length (filter P (?m gold')) = length (filter P (?m gold))" for P
    by (rule length_filter_mset)
  have len: "length gold' = length gold" using assms(1) by (metis size_mset)
  have matches: "head_matches (?m predicted') = head_matches (?m predicted)"
      "rel_matches (?m predicted') = rel_matches (?m predicted)"
    by (simp_all add: head_matches_def rel_matches_def lookup fun_eq_iff)
  have ids: "fst ` set (?m gold') = fst ` set (?m gold)" "fst ` set (?m predicted') = fst ` set (?m predicted)"
    using sets by simp_all
  show ?thesis
    using assms(3) unfolding score_dependencies_def run rbind_simps ids counts matches length_map len .
qed

theorem dependency_order_free_witness:
  "\<exists>s. score_dependencies [\<lparr>arc_token = 2, arc_head = 0, arc_rel = u ''root''\<rparr>, \<lparr>arc_token = 1, arc_head = 2, arc_rel = u ''det''\<rparr>]
      [\<lparr>arc_token = 1, arc_head = 2, arc_rel = u ''det''\<rparr>, \<lparr>arc_token = 2, arc_head = 0, arc_rel = u ''dep''\<rparr>] = Inr s \<and>
     correct_heads s = 2"
proof -
  let ?g = "[\<lparr>arc_token = 1, arc_head = 2, arc_rel = u ''det''\<rparr>, \<lparr>arc_token = 2, arc_head = 0, arc_rel = u ''root''\<rparr>]"
  let ?p = "[\<lparr>arc_token = 2, arc_head = 0, arc_rel = u ''dep''\<rparr>, \<lparr>arc_token = 1, arc_head = 2, arc_rel = u ''det''\<rparr>]"
  define s where "s = projr (score_dependencies ?g ?p)"
  have run: "score_dependencies ?g ?p = Inr s" and two: "correct_heads s = 2"
    by (simp_all add: s_def score_dependencies_def index_arcs_def insert_commute Let_def head_matches_def)
  from dependency_order_free [OF _ _ run, of "rev ?g" "rev ?p"] two show ?thesis by (auto simp: add_mset_commute)
qed

end
