(* ===== verification/Model_Inputs.thy ===== *)
theory Model_Inputs
  imports Dataset Evaluation
begin

text \<open>
  The inputs that may cross the boundary to a model provider,
  \<open>src/linguistic_oj/model_inputs.py\<close>.  The pydantic classes are datatypes; their declared
  constraints and validators run when one is constructed, so each class has a constructor
  function that may raise \<open>ValidationError\<close>.
\<close>

section \<open>Input classes\<close>

record dependency_token =
  dt_token_id :: int
  dt_form :: pystr

datatype safe_model_input =
    SegmentationInput pystr
  | TaggingInput "pystr list"
  | DependencyInput "dependency_token list"
  | TransliterationInput pystr "pystr list"

abbreviation invalid :: "'a result" where
  "invalid \<equiv> raise ValidationError ''validation error''"

definition SegmentationModelInput :: "pystr \<Rightarrow> safe_model_input result" where
  "SegmentationModelInput txt = (if text_value txt then Inr (SegmentationInput txt) else invalid)"

definition TaggingModelInput :: "pystr list \<Rightarrow> safe_model_input result" where
  "TaggingModelInput ts = (if nonempty_strings ts then Inr (TaggingInput ts) else invalid)"

definition DependencyTokenInput :: "int \<Rightarrow> pystr \<Rightarrow> dependency_token result" where
  "DependencyTokenInput i form =
     (if 0 < i \<and> text_value form then Inr \<lparr>dt_token_id = i, dt_form = form\<rparr> else invalid)"

definition token_range :: "nat \<Rightarrow> int list" where
  "token_range n = map (\<lambda>i. int i + 1) [0..<n]"

definition DependencyModelInput :: "dependency_token list \<Rightarrow> safe_model_input result" where
  "DependencyModelInput ts =
     (if ts \<noteq> [] \<and> map dt_token_id ts = token_range (length ts)
      then Inr (DependencyInput ts) else invalid)"

definition TransliterationModelInput :: "pystr \<Rightarrow> pystr list \<Rightarrow> safe_model_input result" where
  "TransliterationModelInput txt ts =
     (if text_value txt \<and> nonempty_strings ts then Inr (TransliterationInput txt ts) else invalid)"

section \<open>Building an input\<close>

definition bad_token :: "json \<Rightarrow> bool" where
  "bad_token j \<longleftrightarrow> \<not> is_str j \<or> str_of j = [] \<or> str_of j = u ''_''"

definition fixed_tokens :: "dataset_sample \<Rightarrow> pystr list result" where
  "fixed_tokens sample =
     (case map_of (answers sample) (task_value SEGMENTATION) of
        Some (JArr ts) \<Rightarrow>
          if ts = [] \<or> list_ex bad_token ts
          then raise ModelInputError ''must have a non-empty segmentation token list''
          else Inr (map str_of ts)
      | _ \<Rightarrow> raise ModelInputError ''must have a non-empty segmentation token list'')"

definition model_input_matches_task :: "task_type \<Rightarrow> safe_model_input \<Rightarrow> bool" where
  "model_input_matches_task t m =
     (case t of
        SEGMENTATION \<Rightarrow> (case m of SegmentationInput _ \<Rightarrow> True | _ \<Rightarrow> False)
      | UPOS \<Rightarrow> (case m of TaggingInput _ \<Rightarrow> True | _ \<Rightarrow> False)
      | XPOS \<Rightarrow> (case m of TaggingInput _ \<Rightarrow> True | _ \<Rightarrow> False)
      | DEPENDENCY \<Rightarrow> (case m of DependencyInput _ \<Rightarrow> True | _ \<Rightarrow> False)
      | TRANSLITERATION \<Rightarrow> (case m of TransliterationInput _ _ \<Rightarrow> True | _ \<Rightarrow> False))"

definition canonicalize_model_input :: "pystr \<Rightarrow> safe_model_input \<Rightarrow> safe_model_input result" where
  "canonicalize_model_input task m =
     rbind (TaskType task) (\<lambda>t.
     rbind (ensure (model_input_matches_task t m) (Exc TypeError ''received the wrong model input type'')) (\<lambda>_.
       (case m of
          SegmentationInput txt \<Rightarrow> SegmentationModelInput txt
        | TaggingInput ts \<Rightarrow> TaggingModelInput ts
        | DependencyInput ts \<Rightarrow>
            rbind (rmapM (\<lambda>d. DependencyTokenInput (dt_token_id d) (dt_form d)) ts) DependencyModelInput
        | TransliterationInput txt ts \<Rightarrow> TransliterationModelInput txt ts)))"

definition build_model_input :: "dataset_sample \<Rightarrow> pystr \<Rightarrow> safe_model_input result" where
  "build_model_input sample task =
     rbind (TaskType task) (\<lambda>t.
       if t = SEGMENTATION
       then rbind (fixed_tokens sample) (\<lambda>ts. SegmentationModelInput (concat ts))
       else
         rbind (fixed_tokens sample) (\<lambda>ts.
           if t \<in> {UPOS, XPOS} then TaggingModelInput ts
           else if t = DEPENDENCY then
             rbind (rmapM (\<lambda>(i, form). DependencyTokenInput i form) (zip (token_range (length ts)) ts))
               DependencyModelInput
           else TransliterationModelInput (sample_text sample) ts))"

definition response_expectations :: "pystr \<Rightarrow> safe_model_input \<Rightarrow> (int option \<times> int list option) result" where
  "response_expectations task m =
     rbind (TaskType task) (\<lambda>t.
     rbind (canonicalize_model_input (task_value t) m) (\<lambda>m'.
       (case m' of
          SegmentationInput _ \<Rightarrow> Inr (None, None)
        | DependencyInput ts \<Rightarrow> Inr (Some (int (length ts)), Some (map dt_token_id ts))
        | TaggingInput ts \<Rightarrow> Inr (Some (int (length ts)), None)
        | TransliterationInput _ ts \<Rightarrow> Inr (Some (int (length ts)), None))))"

section \<open>Properties\<close>

text \<open>What every constructed input satisfies.\<close>

fun well_formed_input :: "safe_model_input \<Rightarrow> bool" where
  "well_formed_input (SegmentationInput txt) \<longleftrightarrow> text_value txt"
| "well_formed_input (TaggingInput ts) \<longleftrightarrow> nonempty_strings ts"
| "well_formed_input (DependencyInput ts) \<longleftrightarrow>
     ts \<noteq> [] \<and> map dt_token_id ts = token_range (length ts) \<and> list_all (\<lambda>d. text_value (dt_form d)) ts"
| "well_formed_input (TransliterationInput txt ts) \<longleftrightarrow> text_value txt \<and> nonempty_strings ts"

lemma length_token_range [simp]: "length (token_range n) = n"
  by (simp add: token_range_def)

lemma token_range_pos: "i \<in> set (token_range n) \<Longrightarrow> 0 < i"
  by (auto simp: token_range_def)

lemma set_token_range: "set (token_range n) = {1..int n}"
proof -
  have "i \<in> (\<lambda>i. int i + 1) ` {0..<n}" if "1 \<le> i" "i \<le> int n" for i
    using that by (intro image_eqI [of _ _ "nat (i - 1)"]) auto
  then show ?thesis by (auto simp: token_range_def)
qed

lemma distinct_token_range: "distinct (token_range n)"
  by (simp add: token_range_def distinct_map inj_on_def)

lemma dependency_tokens_Inr:
  "length is = length ts \<Longrightarrow>
   rmapM (\<lambda>(i, form). DependencyTokenInput i form) (zip is ts) = Inr ds \<longleftrightarrow>
     map dt_token_id ds = is \<and> map dt_form ds = ts \<and>
     list_all (\<lambda>d. 0 < dt_token_id d \<and> text_value (dt_form d)) ds"
proof (induction "is" ts arbitrary: ds rule: list_induct2)
  case (Cons i "is" t ts)
  have "DependencyTokenInput i t = Inr d \<longleftrightarrow>
      dt_token_id d = i \<and> dt_form d = t \<and> 0 < i \<and> text_value t" for d
    by (cases d) (auto simp: DependencyTokenInput_def)
  then show ?case using Cons by (cases ds) (auto simp: rbind_Inr_iff)
qed auto

lemma rebuild_tokens:
  "list_all (\<lambda>d. 0 < dt_token_id d \<and> text_value (dt_form d)) ds \<Longrightarrow>
   rmapM (\<lambda>d. DependencyTokenInput (dt_token_id d) (dt_form d)) ds = Inr ds"
  by (induction ds) (auto simp: DependencyTokenInput_def)

lemma well_formed_token_ids:
  "well_formed_input (DependencyInput ds) \<Longrightarrow>
   list_all (\<lambda>d. 0 < dt_token_id d \<and> text_value (dt_form d)) ds"
  using token_range_pos [of _ "length ds"] by (auto simp: list_all_iff) (metis imageI list.set_map)

lemma canonicalize_well_formed:
  assumes "well_formed_input m" "model_input_matches_task t m"
  shows "canonicalize_model_input (task_value t) m = Inr m"
  using assms well_formed_token_ids
  by (cases m) (auto simp: canonicalize_model_input_def SegmentationModelInput_def TaggingModelInput_def
      DependencyModelInput_def TransliterationModelInput_def rebuild_tokens simp del: rmapM.simps)

lemma build_well_formed:
  assumes "build_model_input sample (task_value t) = Inr m"
  shows "well_formed_input m \<and> model_input_matches_task t m"
proof (cases t)
  case DEPENDENCY
  then obtain ts ds where r: "rmapM (\<lambda>(i, form). DependencyTokenInput i form)
        (zip (token_range (length ts)) ts) = Inr ds" "DependencyModelInput ds = Inr m"
    using assms by (auto simp: build_model_input_def rbind_Inr_iff)
  then have "list_all (\<lambda>d. 0 < dt_token_id d \<and> text_value (dt_form d)) ds"
    by (simp add: dependency_tokens_Inr)
  then show ?thesis
    using r(2) DEPENDENCY
    by (auto simp: DependencyModelInput_def model_input_matches_task_def list_all_iff split: if_splits)
qed (use assms in \<open>auto simp: build_model_input_def rbind_Inr_iff SegmentationModelInput_def
      TaggingModelInput_def TransliterationModelInput_def model_input_matches_task_def split: if_splits\<close>)

text \<open>The tokens of a sample, the only part of the gold answers an input is built from.\<close>

lemma fixed_tokens_Inr:
  "fixed_tokens sample = Inr ts \<longleftrightarrow>
     map_of (answers sample) (task_value SEGMENTATION) = Some (JArr (map JStr ts)) \<and>
     ts \<noteq> [] \<and> [] \<notin> set ts \<and> u ''_'' \<notin> set ts"
proof -
  have js: "js = map JStr ts \<and> [] \<notin> set ts \<and> u ''_'' \<notin> set ts \<longleftrightarrow> \<not> list_ex bad_token js \<and> ts = map str_of js" for js
  proof (induction js arbitrary: ts)
    case (Cons j js)
    have "is_str j \<longleftrightarrow> (\<exists>s. j = JStr s)" by (cases j) auto
    then show ?case using Cons by (cases ts; cases j) (auto simp: bad_token_def)
  qed auto
  show ?thesis
  proof (cases "map_of (answers sample) (task_value SEGMENTATION)")
    case (Some j)
    show ?thesis
    proof (cases j)
      case (JArr js)
      have "fixed_tokens sample = Inr ts \<longleftrightarrow> js \<noteq> [] \<and> \<not> list_ex bad_token js \<and> ts = map str_of js"
        by (auto simp: fixed_tokens_def Some JArr)
      also have "\<dots> \<longleftrightarrow> js \<noteq> [] \<and> js = map JStr ts \<and> [] \<notin> set ts \<and> u ''_'' \<notin> set ts"
        unfolding js by blast
      finally show ?thesis using Some JArr by auto
    qed (simp_all add: fixed_tokens_def Some)
  qed (simp add: fixed_tokens_def)
qed

text \<open>Gold answers stay behind the provider boundary: the input built for a task is the same for
  any two samples that agree on the text and on the given tokens, and for segmentation it is the
  same for any two gold segmentations of one text.\<close>

theorem input_hides_gold:
  assumes "fixed_tokens s1 = Inr ts1" "fixed_tokens s2 = Inr ts2"
    and "if t = SEGMENTATION then concat ts1 = concat ts2
         else ts1 = ts2 \<and> sample_text s1 = sample_text s2"
  shows "build_model_input s1 (task_value t) = build_model_input s2 (task_value t)"
  using assms by (cases t) (simp_all add: build_model_input_def)

theorem input_hides_gold_witness:
  "build_model_input \<lparr>sid = u ''a'', language = [], treebank = [], sample_text = [],
       answers = [(u ''segmentation'', JArr [JStr (u ''ab''), JStr (u ''c'')])], tasks_available = []\<rparr> (task_value SEGMENTATION)
   = build_model_input \<lparr>sid = u ''b'', language = [], treebank = [], sample_text = [],
       answers = [(u ''upos'', JNull), (u ''segmentation'', JArr [JStr (u ''a''), JStr (u ''bc'')])], tasks_available = []\<rparr>
       (task_value SEGMENTATION)"
  by (rule input_hides_gold [of _ "[u ''ab'', u ''c'']" _ "[u ''a'', u ''bc'']"])
    (simp_all add: fixed_tokens_def bad_token_def task_value.simps, simp add: u_def)

lemma built_expectations:
  assumes "build_model_input sample (task_value t) = Inr m" "fixed_tokens sample = Inr ts"
  shows "canonicalize_model_input (task_value t) m = Inr m \<and>
    response_expectations (task_value t) m =
      Inr (if t = SEGMENTATION then None else Some (int (length ts)),
           if t = DEPENDENCY then Some (token_range (length ts)) else None)"
proof -
  have wf: "well_formed_input m" "model_input_matches_task t m"
    using build_well_formed [OF assms(1)] by simp_all
  note canon = canonicalize_well_formed [OF wf]
  show ?thesis
  proof (cases t)
    case DEPENDENCY
    then have "rbind (rmapM (\<lambda>(i, form). DependencyTokenInput i form) (zip (token_range (length ts)) ts))
        DependencyModelInput = Inr m"
      using assms by (simp add: build_model_input_def)
    then obtain ds where r: "rmapM (\<lambda>(i, form). DependencyTokenInput i form)
          (zip (token_range (length ts)) ts) = Inr ds" "DependencyModelInput ds = Inr m"
      unfolding rbind_Inr_iff by blast
    then have ds: "m = DependencyInput ds" "map dt_token_id ds = token_range (length ts)"
      by (simp_all add: dependency_tokens_Inr DependencyModelInput_def split: if_splits)
    then have "length ds = length ts" by (metis length_map length_token_range)
    then show ?thesis using canon ds DEPENDENCY by (simp add: response_expectations_def)
  next
    case SEGMENTATION
    then have "m = SegmentationInput (concat ts)"
      using assms by (simp add: build_model_input_def SegmentationModelInput_def split: if_splits)
    then show ?thesis using canon SEGMENTATION by (simp add: response_expectations_def)
  next
    case UPOS
    then have "m = TaggingInput ts"
      using assms by (simp add: build_model_input_def TaggingModelInput_def split: if_splits)
    then show ?thesis using canon UPOS by (simp add: response_expectations_def)
  next
    case XPOS
    then have "m = TaggingInput ts"
      using assms by (simp add: build_model_input_def TaggingModelInput_def split: if_splits)
    then show ?thesis using canon XPOS by (simp add: response_expectations_def)
  next
    case TRANSLITERATION
    then have "m = TransliterationInput (sample_text sample) ts"
      using assms by (simp add: build_model_input_def TransliterationModelInput_def split: if_splits)
    then show ?thesis using canon TRANSLITERATION by (simp add: response_expectations_def)
  qed
qed

text \<open>The parser's expectations come from the input alone: no count for segmentation, the number
  of given tokens otherwise, and for dependencies the ids 1 to n; rebuilding an input of the right
  kind gives the same input.\<close>

theorem built_input_expectations:
  assumes "build_model_input sample (task_value t) = Inr m" "fixed_tokens sample = Inr ts"
  shows "canonicalize_model_input (task_value t) m = Inr m \<and>
    response_expectations (task_value t) m =
      Inr (if t = SEGMENTATION then None else Some (int (length ts)),
           if t = DEPENDENCY then Some (token_range (length ts)) else None)"
  using assms by (rule built_expectations)

theorem built_input_expectations_witness:
  "response_expectations (task_value DEPENDENCY) (DependencyInput
     [\<lparr>dt_token_id = 1, dt_form = u ''a''\<rparr>, \<lparr>dt_token_id = 2, dt_form = u ''b''\<rparr>]) =
     Inr (Some 2, Some [1, 2])"
proof -
  let ?s = "\<lparr>sid = u ''x'', language = [], treebank = [], sample_text = [],
       answers = [(u ''segmentation'', JArr [JStr (u ''a''), JStr (u ''b'')])], tasks_available = []\<rparr>"
  have ts: "fixed_tokens ?s = Inr [u ''a'', u ''b'']"
    by (simp add: fixed_tokens_def bad_token_def task_value.simps)
  have "build_model_input ?s (task_value DEPENDENCY) = Inr (DependencyInput
     [\<lparr>dt_token_id = 1, dt_form = u ''a''\<rparr>, \<lparr>dt_token_id = 2, dt_form = u ''b''\<rparr>])"
    using ts TaskType_task_value [of DEPENDENCY]
    by (simp add: build_model_input_def token_range_def DependencyTokenInput_def DependencyModelInput_def
        text_value_def)
  from built_input_expectations [OF this ts] show ?thesis by (simp add: token_range_def)
qed

end
