(* ===== verification/Json_Text.thy ===== *)
theory Json_Text
  imports Json
begin

text \<open>
  \<open>json.dumps\<close> with the arguments the code passes where it hashes or stores a payload:
  \<open>ensure_ascii=False\<close> and the separators \<open>(",", ":")\<close>.  Object members are written in the order of
  the model's list, which the callers sort.  The text of a float is the argument \<open>float_repr\<close>.
\<close>

section \<open>Numbers and strings\<close>

text \<open>The decimal digits of a natural number, most significant first.\<close>

function (sequential) nat_text :: "nat \<Rightarrow> pystr" where
  "nat_text n = (if n < 10 then [48 + n] else nat_text (n div 10) @ [48 + n mod 10])"
  by auto
termination by (relation "measure id") auto

declare nat_text.simps [simp del]

definition int_text :: "int \<Rightarrow> pystr" where
  "int_text i = (if i < 0 then 45 # nat_text (nat (- i)) else nat_text (nat i))"

definition hex_digit :: "nat \<Rightarrow> nat" where
  "hex_digit d = (if d < 10 then 48 + d else 87 + d)"

text \<open>Quotes, backslashes and control characters are escaped, everything else is written as it is.\<close>

definition escape_char :: "nat \<Rightarrow> pystr" where
  "escape_char c =
     (if c = 34 then [92, 34] else if c = 92 then [92, 92]
      else if c = 10 then [92, 110] else if c = 13 then [92, 114] else if c = 9 then [92, 116]
      else if c = 8 then [92, 98] else if c = 12 then [92, 102]
      else if c < 32 then [92, 117, 48, 48, hex_digit (c div 16), hex_digit (c mod 16)]
      else [c])"

definition dump_string :: "pystr \<Rightarrow> pystr" where
  "dump_string s = 34 # concat (map escape_char s) @ [34]"

fun join_with :: "nat \<Rightarrow> pystr list \<Rightarrow> pystr" where
  "join_with c [] = []"
| "join_with c [s] = s"
| "join_with c (s # ss) = s @ c # join_with c ss"

section \<open>Values\<close>

fun dumps :: "(pyfloat \<Rightarrow> pystr) \<Rightarrow> json \<Rightarrow> pystr" where
  "dumps float_repr JNull = u ''null''"
| "dumps float_repr (JBool b) = (if b then u ''true'' else u ''false'')"
| "dumps float_repr (JInt i) = int_text i"
| "dumps float_repr (JFloat x) = float_repr x"
| "dumps float_repr (JStr s) = dump_string s"
| "dumps float_repr (JArr js) = 91 # join_with 44 (map (dumps float_repr) js) @ [93]"
| "dumps float_repr (JObj ms) =
     123 # join_with 44 (map (\<lambda>(k, j). dump_string k @ 58 # dumps float_repr j) ms) @ [125]"

end
