(* ===== verification/Challenge.thy ===== *)
theory Challenge
  imports Model_Inputs Json_Text "HOL-Library.List_Lexorder"
begin

text \<open>
  Challenge manifests: \<open>src/linguistic_oj/challenge.py\<close> and the versioned task contracts of
  \<open>src/linguistic_oj/contracts.py\<close>.  The hash of a text, case folding and the random generator are
  arguments; the generator is a state with its \<open>randrange\<close> step.
\<close>

section \<open>Task contracts\<close>

definition SCORER_VERSION :: pystr where
  "SCORER_VERSION = u ''1.0''"

definition AGGREGATION_VERSION :: pystr where
  "AGGREGATION_VERSION = u ''1.0''"

fun TASK_METRICS :: "task_type \<Rightarrow> pystr \<times> pystr list" where
  "TASK_METRICS SEGMENTATION = (u ''micro_f1'', [u ''micro_precision'', u ''micro_recall''])"
| "TASK_METRICS UPOS = (u ''micro_accuracy'', [])"
| "TASK_METRICS XPOS = (u ''micro_accuracy'', [])"
| "TASK_METRICS DEPENDENCY = (u ''las'', [u ''uas''])"
| "TASK_METRICS TRANSLITERATION = (u ''token_accuracy'', [u ''sentence_exact_match_rate''])"

definition RESPONSE_SCHEMA_VERSIONS :: "task_type \<Rightarrow> pystr" where
  "RESPONSE_SCHEMA_VERSIONS t = task_value t @ u ''-v1''"

section \<open>Manifest records\<close>

record source_file_fingerprint =
  sf_path :: pystr
  sf_sha256 :: pystr

record public_challenge =
  pc_challenge_id :: pystr
  pc_title :: pystr
  pc_version :: pystr
  pc_language :: pystr
  pc_treebank :: pystr
  pc_task :: pystr
  pc_sample_count :: int
  pc_primary_metric :: pystr
  pc_secondary_metrics :: "pystr list"
  pc_response_schema_version :: pystr
  pc_scorer_version :: "pystr option"
  pc_aggregation_version :: "pystr option"
  pc_dataset_sha256 :: pystr
  pc_selection_sha256 :: pystr
  pc_security_level :: pystr
  pc_status :: pystr
  pc_annotation_license :: pystr
  pc_attribution_requirements :: pystr
  pc_source_release :: pystr
  pc_source_commit :: pystr
  pc_source_file_sha256s :: "source_file_fingerprint list"
  pc_share_alike_requirements :: pystr
  pc_underlying_text_rights :: pystr
  pc_benchmark_limitations :: pystr

record manifest_sample =
  ms_sample_id :: pystr
  ms_gold_items :: int

record private_manifest =
  pm_challenge_id :: pystr
  pm_version :: pystr
  pm_task :: pystr
  pm_scorer_version :: pystr
  pm_aggregation_version :: pystr
  pm_dataset_sha256 :: pystr
  pm_selection_sha256 :: pystr
  pm_selection_seed :: int
  pm_samples :: "manifest_sample list"

definition pm_sample_ids :: "private_manifest \<Rightarrow> pystr list" where
  "pm_sample_ids m = map ms_sample_id (pm_samples m)"

record challenge_artifacts =
  ca_public :: public_challenge
  ca_private :: private_manifest
  ca_dataset :: "file_content option"

section \<open>Identifiers and fingerprints\<close>

definition LANGUAGE_CODES :: "(pystr \<times> pystr) list" where
  "LANGUAGE_CODES = map (\<lambda>(n, c). (u n, u c))
     [(''Arabic'', ''ar''), (''Chinese'', ''zh''), (''Danish'', ''da''), (''Dutch'', ''nl''),
      (''English'', ''en''), (''French'', ''fr''), (''German'', ''de''), (''Hebrew'', ''he''),
      (''Hindi'', ''hi''), (''Hungarian'', ''hu''), (''Italian'', ''it''), (''Japanese'', ''ja''),
      (''Korean'', ''ko''), (''Portuguese'', ''pt''), (''Russian'', ''ru''), (''Spanish'', ''es''),
      (''Swedish'', ''sv''), (''Thai'', ''th'')]"

definition slug_char :: "nat \<Rightarrow> bool" where
  "slug_char c \<longleftrightarrow> 97 \<le> c \<and> c \<le> 122 \<or> 48 \<le> c \<and> c \<le> 57"

text \<open>\<open>re.sub(r"[^a-z0-9]+", "-", s)\<close>: one dash for each maximal run of other characters.\<close>

fun dash_runs :: "bool \<Rightarrow> pystr \<Rightarrow> pystr" where
  "dash_runs in_run [] = []"
| "dash_runs in_run (c # cs) =
     (if slug_char c then c # dash_runs False cs
      else if in_run then dash_runs True cs
      else 45 # dash_runs True cs)"

definition strip_dashes :: "pystr \<Rightarrow> pystr" where
  "strip_dashes s = rev (dropWhile ((=) 45) (rev (dropWhile ((=) 45) s)))"

definition slugify :: "(pystr \<Rightarrow> pystr) \<Rightarrow> pystr \<Rightarrow> pystr result" where
  "slugify casefold v =
     (let slug = strip_dashes (dash_runs False (casefold v)) in
      if slug = [] then raise ValueError ''Cannot create slug from value'' else Inr slug)"

fun join_dashes :: "pystr list \<Rightarrow> pystr" where
  "join_dashes [] = []"
| "join_dashes [s] = s"
| "join_dashes (s # ss) = s @ 45 # join_dashes ss"

text \<open>The default of \<open>dict.get\<close> is evaluated first, so an unusable language name raises even
  when it has a code.\<close>

definition make_challenge_id :: "(pystr \<Rightarrow> pystr) \<Rightarrow> pystr \<Rightarrow> pystr \<Rightarrow> task_type \<Rightarrow> pystr \<Rightarrow> pystr result" where
  "make_challenge_id casefold lang bank t ver =
     rbind (slugify casefold lang) (\<lambda>default.
     rbind (slugify casefold bank) (\<lambda>b.
     rbind (slugify casefold (task_value t)) (\<lambda>tk.
     rbind (slugify casefold ver) (\<lambda>v.
       Inr (join_dashes [case map_of LANGUAGE_CODES lang of Some c \<Rightarrow> c | None \<Rightarrow> default, b, tk, v])))))"

text \<open>The payload holds no float, so the text of floats plays no part.\<close>

definition selection_payload :: "manifest_sample list \<Rightarrow> pystr" where
  "selection_payload samples =
     dumps (\<lambda>_. []) (JArr (map (\<lambda>s. JObj [(u ''gold_items'', JInt (ms_gold_items s)),
                                 (u ''sample_id'', JStr (ms_sample_id s))]) samples))"

definition selection_sha256 :: "(pystr \<Rightarrow> pystr) \<Rightarrow> manifest_sample list \<Rightarrow> pystr" where
  "selection_sha256 sha samples = sha (selection_payload samples)"

definition is_sha256 :: "pystr \<Rightarrow> bool" where
  "is_sha256 v \<longleftrightarrow> length v = 64 \<and> list_all (\<lambda>c. c \<in> set (u ''0123456789abcdef'')) v"

section \<open>Gold answers\<close>

fun gold_arc :: "json list \<Rightarrow> nat \<Rightarrow> int set \<Rightarrow> json \<Rightarrow> int result" where
  "gold_arc ts n seen (JArr [jtid, jform, jhid, jhform, jrel]) =
     (case jtid of
        JInt tid \<Rightarrow>
          if \<not> (0 < tid \<and> tid \<le> int n) \<or> tid \<in> seen
          then raise InvalidGoldAnswerError ''has an invalid token ID''
          else
            (case jhid of
               JInt hid \<Rightarrow>
                 if \<not> (0 \<le> hid \<and> hid \<le> int n)
                 then raise InvalidGoldAnswerError ''has an invalid head ID''
                 else if list_ex (\<lambda>v. \<not> is_str v \<or> str_of v = []) [jform, jhform, jrel]
                 then raise InvalidGoldAnswerError ''has an invalid text field''
                 else if jform \<noteq> ts ! nat (tid - 1)
                 then raise InvalidGoldAnswerError ''token form is misaligned''
                 else if jhform \<noteq> (if hid = 0 then JStr (u ''ROOT'') else ts ! nat (hid - 1))
                 then raise InvalidGoldAnswerError ''head form is misaligned''
                 else Inr tid
             | _ \<Rightarrow> raise InvalidGoldAnswerError ''has an invalid head ID'')
      | _ \<Rightarrow> raise InvalidGoldAnswerError ''has an invalid token ID'')"
| "gold_arc ts n seen _ = raise InvalidGoldAnswerError ''must contain five fields''"

fun gold_arcs :: "json list \<Rightarrow> nat \<Rightarrow> int set \<Rightarrow> json list \<Rightarrow> int set result" where
  "gold_arcs ts n seen [] = Inr seen"
| "gold_arcs ts n seen (a # as) =
     rbind (gold_arc ts n seen a) (\<lambda>tid. gold_arcs ts n (insert tid seen) as)"

definition check_gold_items :: "task_type \<Rightarrow> json list \<Rightarrow> json list \<Rightarrow> unit result" where
  "check_gold_items t ts answer =
     (if t = DEPENDENCY then
        rbind (gold_arcs ts (length answer) {} answer) (\<lambda>token_ids.
          ensure (token_ids = set (token_range (length answer)))
            (Exc InvalidGoldAnswerError ''dependency token IDs must be contiguous''))
      else if list_ex bad_token answer then raise InvalidGoldAnswerError ''has invalid gold items''
      else ensure (\<not> (t = UPOS \<and> list_ex (\<lambda>tag. str_of tag \<notin> set UD_UPOS_TAGS) answer))
             (Exc InvalidGoldAnswerError ''has an invalid UPOS gold tag''))"

definition validated_gold_item_count :: "dataset_sample \<Rightarrow> task_type \<Rightarrow> nat result" where
  "validated_gold_item_count sample t =
     (case map_of (answers sample) (task_value SEGMENTATION) of
        Some (JArr ts) \<Rightarrow>
          if ts = [] \<or> list_ex bad_token ts
          then raise InvalidGoldAnswerError ''must have a non-empty segmentation gold list''
          else if t = SEGMENTATION then Inr (length ts)
          else
            (case map_of (answers sample) (task_value t) of
               Some (JArr answer) \<Rightarrow>
                 if answer = [] then raise InvalidGoldAnswerError ''must have a non-empty gold list''
                 else if length answer \<noteq> length ts
                 then raise InvalidGoldAnswerError ''gold count must match segmentation''
                 else rbind (check_gold_items t ts answer) (\<lambda>_. Inr (length answer))
             | _ \<Rightarrow> raise InvalidGoldAnswerError ''must have a non-empty gold list'')
      | _ \<Rightarrow> raise InvalidGoldAnswerError ''must have a non-empty segmentation gold list'')"

section \<open>Validation of manifests\<close>

fun split_on :: "nat \<Rightarrow> pystr \<Rightarrow> pystr list" where
  "split_on sep [] = [[]]"
| "split_on sep (c # cs) =
     (if c = sep then [] # split_on sep cs
      else (case split_on sep cs of [] \<Rightarrow> [[c]] | w # ws \<Rightarrow> (c # w) # ws))"

text \<open>The parts of a relative \<open>PurePosixPath\<close>: its components without empty ones and dots.\<close>

definition path_parts :: "pystr \<Rightarrow> pystr list" where
  "path_parts p = filter (\<lambda>w. w \<noteq> [] \<and> w \<noteq> u ''.'') (split_on 47 p)"

definition bad_source :: "pystr set \<Rightarrow> source_file_fingerprint \<Rightarrow> bool" where
  "bad_source seen s \<longleftrightarrow>
     sf_path s = [] \<or> py_strip (sf_path s) \<noteq> sf_path s \<or> 92 \<in> set (sf_path s) \<or>
     hd (sf_path s) = 47 \<or> path_parts (sf_path s) = [] \<or> u ''..'' \<in> set (path_parts (sf_path s)) \<or>
     list_ex (\<lambda>part. 58 \<in> set part) (path_parts (sf_path s)) \<or>
     sf_path s \<in> seen \<or> \<not> is_sha256 (sf_sha256 s)"

fun check_sources :: "pystr set \<Rightarrow> source_file_fingerprint list \<Rightarrow> unit result" where
  "check_sources seen [] = Inr ()"
| "check_sources seen (s # ss) =
     (if bad_source seen s then raise ValueError ''public source-file fingerprints are invalid''
      else check_sources (insert (sf_path s) seen) ss)"

definition validate_public_challenge :: "(pystr \<Rightarrow> pystr) \<Rightarrow> public_challenge \<Rightarrow> unit result" where
  "validate_public_challenge casefold p =
     rbind (TaskType (pc_task p)) (\<lambda>t.
     rbind (ensure ((pc_primary_metric p, pc_secondary_metrics p) = TASK_METRICS t)
       (Exc ValueError ''public metrics do not match the task contract'')) (\<lambda>_.
     rbind (ensure (pc_response_schema_version p = RESPONSE_SCHEMA_VERSIONS t)
       (Exc ValueError ''response schema version does not match the task contract'')) (\<lambda>_.
     rbind (ensure ((pc_scorer_version p, pc_aggregation_version p) \<in>
         {(None, None), (Some SCORER_VERSION, Some AGGREGATION_VERSION)})
       (Exc ValueError ''public scorer and aggregation versions do not match the runtime'')) (\<lambda>_.
     rbind (ensure (pc_security_level p = u ''public_reproducible'')
       (Exc ValueError ''unsupported challenge security level'')) (\<lambda>_.
     rbind (ensure (pc_status p \<in> {u ''draft'', u ''active''})
       (Exc ValueError ''unsupported challenge status'')) (\<lambda>_.
     rbind (ensure (list_all (\<lambda>v. v \<noteq> [] \<and> py_strip v = v)
         [pc_annotation_license p, pc_attribution_requirements p, pc_source_release p,
          pc_source_commit p, pc_share_alike_requirements p, pc_underlying_text_rights p,
          pc_benchmark_limitations p])
       (Exc ValueError ''public provenance fields must be non-empty and trimmed'')) (\<lambda>_.
     rbind (check_sources {} (pc_source_file_sha256s p)) (\<lambda>_.
     rbind (ensure (0 < pc_sample_count p)
       (Exc ValueError ''public sample count must be positive'')) (\<lambda>_.
     rbind (make_challenge_id casefold (pc_language p) (pc_treebank p) t (pc_version p)) (\<lambda>cid.
     rbind (ensure (pc_challenge_id p = cid)
       (Exc ValueError ''challenge_id does not match challenge metadata'')) (\<lambda>_.
     ensure (is_sha256 (pc_dataset_sha256 p) \<and> is_sha256 (pc_selection_sha256 p))
       (Exc ValueError ''challenge fingerprints must be lowercase SHA-256 values''))))))))))))"

definition manifests_match :: "public_challenge \<Rightarrow> private_manifest \<Rightarrow> bool" where
  "manifests_match p m \<longleftrightarrow>
     pc_challenge_id p = pm_challenge_id m \<and> pc_version p = pm_version m \<and> pc_task p = pm_task m \<and>
     pc_scorer_version p = Some (pm_scorer_version m) \<and>
     pc_aggregation_version p = Some (pm_aggregation_version m) \<and>
     pc_dataset_sha256 p = pm_dataset_sha256 m \<and> pc_selection_sha256 p = pm_selection_sha256 m"

definition sha256_file :: "file_content option \<Rightarrow> pystr result" where
  "sha256_file path =
     (case path of None \<Rightarrow> raise FileNotFoundError ''No such file or directory''
      | Some f \<Rightarrow> Inr (fc_sha256 f))"

definition validate_challenge_artifacts :: "(pystr \<Rightarrow> pystr) \<Rightarrow> (pystr \<Rightarrow> pystr) \<Rightarrow> challenge_artifacts
    \<Rightarrow> unit result" where
  "validate_challenge_artifacts casefold sha a =
     (let p = ca_public a; m = ca_private a in
      rbind (validate_public_challenge casefold p) (\<lambda>_.
      rbind (ensure (pc_scorer_version p = Some SCORER_VERSION \<and> pm_scorer_version m = SCORER_VERSION)
        (Exc ValueError ''challenge scorer version does not match the runtime'')) (\<lambda>_.
      rbind (ensure (pc_aggregation_version p = Some AGGREGATION_VERSION \<and>
          pm_aggregation_version m = AGGREGATION_VERSION)
        (Exc ValueError ''challenge aggregation version does not match the runtime'')) (\<lambda>_.
      rbind (ensure (manifests_match p m)
        (Exc ValueError ''public challenge and private manifest do not match'')) (\<lambda>_.
      rbind (ensure (pm_sample_ids m \<noteq> [] \<and> [] \<notin> set (pm_sample_ids m) \<and> distinct (pm_sample_ids m))
        (Exc ValueError ''private manifest must contain unique samples'')) (\<lambda>_.
      rbind (ensure (pm_sample_ids m = sort (pm_sample_ids m))
        (Exc ValueError ''private manifest samples must be sorted by sample_id'')) (\<lambda>_.
      rbind (ensure (pc_sample_count p = int (length (pm_samples m)))
        (Exc ValueError ''public sample_count does not match the private manifest'')) (\<lambda>_.
      rbind (ensure (selection_sha256 sha (pm_samples m) = pm_selection_sha256 m)
        (Exc ValueError ''private manifest does not match selection_sha256'')) (\<lambda>_.
      rbind (sha256_file (ca_dataset a)) (\<lambda>d.
      ensure (d = pc_dataset_sha256 p)
        (Exc ValueError ''configured dataset does not match dataset_sha256'')))))))))))"

definition ChallengeArtifacts :: "(pystr \<Rightarrow> pystr) \<Rightarrow> (pystr \<Rightarrow> pystr) \<Rightarrow> public_challenge \<Rightarrow> private_manifest
    \<Rightarrow> file_content option \<Rightarrow> challenge_artifacts result" where
  "ChallengeArtifacts casefold sha p m d =
     (let a = \<lparr>ca_public = p, ca_private = m, ca_dataset = d\<rparr> in
      rbind (validate_challenge_artifacts casefold sha a) (\<lambda>_. Inr a))"

section \<open>Selection\<close>

fun reservoir_loop :: "('r \<Rightarrow> nat \<Rightarrow> nat \<times> 'r) \<Rightarrow> nat \<Rightarrow> 'r \<Rightarrow> dataset_sample list \<Rightarrow> pystr set
    \<Rightarrow> nat \<Rightarrow> dataset_sample list \<Rightarrow> (dataset_sample list \<times> nat) result" where
  "reservoir_loop randrange k st reservoir seen_ids matching_count [] = Inr (reservoir, matching_count)"
| "reservoir_loop randrange k st reservoir seen_ids matching_count (s # ss) =
     (if sid s \<in> seen_ids then raise DuplicateSampleIdError ''Duplicate sample ID''
      else if length reservoir < k then
        reservoir_loop randrange k st (reservoir @ [s]) (insert (sid s) seen_ids) (Suc matching_count) ss
      else
        (case randrange st (Suc matching_count) of
           (i, st') \<Rightarrow>
             reservoir_loop randrange k st' (if i < k then reservoir[i := s] else reservoir)
               (insert (sid s) seen_ids) (Suc matching_count) ss))"

definition select_samples :: "('r \<Rightarrow> nat \<Rightarrow> nat \<times> 'r) \<Rightarrow> 'r \<Rightarrow> int \<Rightarrow> dataset_sample gen
    \<Rightarrow> dataset_sample list result" where
  "select_samples randrange seed k matching =
     rbind (ensure (0 < k) (Exc ValueError ''count must be positive'')) (\<lambda>_.
     rbind (reservoir_loop randrange (nat k) seed [] {} 0 (fst matching)) (\<lambda>(reservoir, matching_count).
       case snd matching of
         Some e \<Rightarrow> Inl e
       | None \<Rightarrow>
           if int matching_count < k then raise InsufficientSamplesError ''Requested more samples than match''
           else Inr (sort_key sid reservoir)))"

definition build_challenge :: "(pystr \<Rightarrow> pystr) \<Rightarrow> (pystr \<Rightarrow> pystr) \<Rightarrow> ('r \<Rightarrow> nat \<Rightarrow> nat \<times> 'r) \<Rightarrow> (int \<Rightarrow> 'r)
    \<Rightarrow> sample_validator \<Rightarrow> nat \<Rightarrow> file_content option \<Rightarrow> pystr \<Rightarrow> pystr \<Rightarrow> pystr \<Rightarrow> int \<Rightarrow> int \<Rightarrow> pystr
    \<Rightarrow> challenge_artifacts result" where
  "build_challenge casefold sha randrange Random accept depth path lang bank task k seed ver =
     rbind (TaskType task) (\<lambda>t.
     rbind (select_samples randrange (Random seed) k
              (iter_matching_samples accept depth path lang bank (task_value t))) (\<lambda>selected.
     rbind (rmapM (\<lambda>s. rbind (validated_gold_item_count s t)
              (\<lambda>n. Inr \<lparr>ms_sample_id = sid s, ms_gold_items = int n\<rparr>)) selected) (\<lambda>samples.
     rbind (make_challenge_id casefold lang bank t ver) (\<lambda>cid.
     rbind (sha256_file path) (\<lambda>dataset_hash.
       (let hash = selection_sha256 sha samples;
            p = \<lparr>pc_challenge_id = cid,
                 pc_title = lang @ [32] @ bank @ [32] @ task_value t @ u '' challenge'',
                 pc_version = ver, pc_language = lang, pc_treebank = bank, pc_task = task_value t,
                 pc_sample_count = k, pc_primary_metric = fst (TASK_METRICS t),
                 pc_secondary_metrics = snd (TASK_METRICS t),
                 pc_response_schema_version = RESPONSE_SCHEMA_VERSIONS t,
                 pc_scorer_version = Some SCORER_VERSION,
                 pc_aggregation_version = Some AGGREGATION_VERSION,
                 pc_dataset_sha256 = dataset_hash, pc_selection_sha256 = hash,
                 pc_security_level = u ''public_reproducible'', pc_status = u ''draft'',
                 pc_annotation_license = u ''unrecorded'',
                 pc_attribution_requirements = u ''unrecorded'',
                 pc_source_release = u ''unrecorded'', pc_source_commit = u ''unrecorded'',
                 pc_source_file_sha256s = [],
                 pc_share_alike_requirements = u ''review_required'',
                 pc_underlying_text_rights = u ''review_required'',
                 pc_benchmark_limitations =
                   u ''Public UD-derived teaching benchmark; source data and answers are not secret.''\<rparr>;
            m = \<lparr>pm_challenge_id = cid, pm_version = ver, pm_task = task_value t,
                 pm_scorer_version = SCORER_VERSION, pm_aggregation_version = AGGREGATION_VERSION,
                 pm_dataset_sha256 = dataset_hash, pm_selection_sha256 = hash,
                 pm_selection_seed = seed, pm_samples = samples\<rparr>
        in ChallengeArtifacts casefold sha p m path))))))"

section \<open>Selection properties\<close>

lemma distinct_replace:
  assumes "distinct (map f xs)" "f x \<notin> f ` set xs"
  shows "distinct (map f (xs[i := x]))"
  using assms by (simp add: map_update distinct_list_update)

lemma reservoir_loop_Inr:
  assumes "reservoir_loop randrange k st r seen n ss = Inr (r', n')"
    and "length r = min k n" "distinct (map sid r)" "sid ` set r \<subseteq> seen"
  shows "n' = n + length ss \<and> length r' = min k n' \<and> distinct (map sid r') \<and> set r' \<subseteq> set r \<union> set ss"
  using assms
proof (induction randrange k st r seen n ss rule: reservoir_loop.induct)
  case (2 randrange k st r seen n s ss)
  from "2.prems"(1) have fresh: "sid s \<notin> seen" by (auto split: if_splits)
  then have new: "sid s \<notin> sid ` set r" using "2.prems"(4) by blast
  show ?case
  proof (cases "length r < k")
    case True
    have step: "reservoir_loop randrange k st (r @ [s]) (insert (sid s) seen) (Suc n) ss = Inr (r', n')"
      using "2.prems"(1) fresh True by simp
    have "n' = Suc n + length ss \<and> length r' = min k n' \<and> distinct (map sid r') \<and>
        set r' \<subseteq> set (r @ [s]) \<union> set ss"
      by (rule "2.IH"(1) [OF fresh True step]) (use "2.prems" True new in auto)
    then show ?thesis by auto
  next
    case False
    obtain i st' where i: "randrange st (Suc n) = (i, st')" by fastforce
    let ?r = "if i < k then r[i := s] else r"
    have r: "length ?r = min k (Suc n)" "distinct (map sid ?r)" "sid ` set ?r \<subseteq> insert (sid s) seen"
      "set ?r \<subseteq> set r \<union> {s}"
      using "2.prems" False new set_update_subset_insert [of r i s] by (auto simp: distinct_replace)
    have step: "reservoir_loop randrange k st' ?r (insert (sid s) seen) (Suc n) ss = Inr (r', n')"
      using "2.prems"(1) fresh False i by simp
    have "n' = Suc n + length ss \<and> length r' = min k n' \<and> distinct (map sid r') \<and>
        set r' \<subseteq> set ?r \<union> set ss"
      by (rule "2.IH"(2) [OF fresh False i [symmetric] step]) (use r in auto)
    then show ?thesis using r(4) by auto
  qed
qed auto

lemma reservoir_loop_ok:
  "(\<exists>res. reservoir_loop randrange k st r seen n ss = Inr res) \<longleftrightarrow>
     distinct (map sid ss) \<and> seen \<inter> sid ` set ss = {}"
  by (induction randrange k st r seen n ss rule: reservoir_loop.induct) (auto split: prod.splits)

lemma sort_key_ids: "map sid (sort_key sid ss) = sort (map sid ss)"
  by (rule properties_for_sort [symmetric]) (simp_all add: sorted_sort_key)

lemma select_samples_Inr_iff:
  "(\<exists>ss. select_samples randrange seed k matching = Inr ss) \<longleftrightarrow>
     0 < k \<and> snd matching = None \<and> distinct (map sid (fst matching)) \<and> k \<le> int (length (fst matching))"
proof -
  have n: "reservoir_loop randrange (nat k) seed [] {} 0 (fst matching) = Inr (r, n) \<Longrightarrow> n = length (fst matching)" for r n
    using reservoir_loop_Inr [of randrange "nat k" seed "[]" "{}" 0] by simp
  show ?thesis
  proof (cases "\<exists>res. reservoir_loop randrange (nat k) seed [] {} 0 (fst matching) = Inr res")
    case True
    then obtain r m where r: "reservoir_loop randrange (nat k) seed [] {} 0 (fst matching) = Inr (r, m)" by auto
    then have "distinct (map sid (fst matching))"
      using reservoir_loop_ok [of randrange "nat k" seed "[]" "{}" 0 "fst matching"] by auto
    then show ?thesis
      using n [OF r] by (cases "snd matching") (auto simp: select_samples_def rbind_Inr_iff r)
  next
    case False
    then show ?thesis
      using reservoir_loop_ok [of randrange "nat k" seed "[]" "{}" 0 "fst matching"]
      by (auto simp: select_samples_def rbind_Inr_iff)
  qed
qed

text \<open>Selection succeeds exactly when the requested count is positive, the dataset reads to the
  end without an error, no matching sample repeats an id and enough samples match, whatever the
  random generator returns.\<close>

theorem select_samples_succeeds:
  "(\<exists>ss. select_samples randrange seed k matching = Inr ss) \<longleftrightarrow>
     0 < k \<and> snd matching = None \<and> distinct (map sid (fst matching)) \<and> k \<le> int (length (fst matching))"
  by (rule select_samples_Inr_iff)

lemma select_samples_Inr:
  assumes "select_samples randrange seed k matching = Inr ss"
  shows "set ss \<subseteq> set (fst matching) \<and> int (length ss) = k \<and> distinct (map sid ss) \<and> sorted (map sid ss)"
proof -
  from assms obtain r n where r: "reservoir_loop randrange (nat k) seed [] {} 0 (fst matching) = Inr (r, n)"
      and ss: "ss = sort_key sid r" "0 < k" "k \<le> int n"
    by (auto simp: select_samples_def rbind_Inr_iff split: option.splits if_splits)
  from reservoir_loop_Inr [OF r] have "n = length (fst matching)" "length r = min (nat k) n"
      "distinct (map sid r)" "set r \<subseteq> set (fst matching)" by simp_all
  then show ?thesis using ss by (auto simp: sort_key_ids)
qed

text \<open>The selected samples are matching samples of the dataset, exactly as many as requested,
  with distinct ids and in increasing order of id, whatever the random generator returns.\<close>

theorem select_samples_sound:
  assumes "select_samples randrange seed k matching = Inr ss"
  shows "set ss \<subseteq> set (fst matching) \<and> int (length ss) = k \<and> distinct (map sid ss) \<and> sorted (map sid ss)"
  using assms by (rule select_samples_Inr)

theorem select_samples_sound_witness:
  "\<exists>ss. select_samples (\<lambda>st n. (st mod n, st)) (7::nat) 1
      (map (\<lambda>i. \<lparr>sid = i, language = [], treebank = [], sample_text = [], answers = [], tasks_available = []\<rparr>)
        [u ''b'', u ''a''], None) = Inr ss \<and> length ss = 1"
proof -
  let ?m = "(map (\<lambda>i. \<lparr>sid = i, language = [], treebank = [], sample_text = [], answers = [], tasks_available = []\<rparr>)
        [u ''b'', u ''a''], None)"
  obtain ss where "select_samples (\<lambda>st n. (st mod n, st)) (7::nat) 1 ?m = Inr ss"
    using select_samples_Inr_iff [of "\<lambda>st n. (st mod n, st)" "7::nat" 1 ?m] by auto
  with select_samples_sound [OF this] show ?thesis by auto
qed

section \<open>Identifiers\<close>

definition id_char :: "nat \<Rightarrow> bool" where
  "id_char c \<longleftrightarrow> slug_char c \<or> c = 45"

lemma dash_runs_chars: "list_all id_char (dash_runs b s)"
  by (induction b s rule: dash_runs.induct) (auto simp: id_char_def)

lemma strip_dashes_subset: "set (strip_dashes s) \<subseteq> set s"
  unfolding strip_dashes_def by (metis set_dropWhileD set_rev subsetI)

lemma slugify_Inr: "slugify casefold v = Inr s \<Longrightarrow> s \<noteq> [] \<and> list_all id_char s"
  using dash_runs_chars [of False "casefold v"] strip_dashes_subset [of "dash_runs False (casefold v)"]
  by (auto simp: slugify_def Let_def list_all_iff split: if_splits)

lemma language_code_chars: "map_of LANGUAGE_CODES l = Some c \<Longrightarrow> c \<noteq> [] \<and> list_all id_char c"
proof -
  have "list_all (\<lambda>(_, c). c \<noteq> [] \<and> list_all id_char c) LANGUAGE_CODES"
    by (simp add: LANGUAGE_CODES_def u_def id_char_def slug_char_def)
  then show "map_of LANGUAGE_CODES l = Some c \<Longrightarrow> ?thesis"
    by (auto dest!: map_of_SomeD simp: list_all_iff)
qed

text \<open>A challenge id is a safe file name: it is not empty and consists of lower-case ASCII letters,
  digits and dashes, so it holds no path separator and no dot.\<close>

theorem challenge_id_is_safe:
  assumes "make_challenge_id casefold lang bank t ver = Inr cid"
  shows "cid \<noteq> [] \<and> list_all (\<lambda>c. 97 \<le> c \<and> c \<le> 122 \<or> 48 \<le> c \<and> c \<le> 57 \<or> c = 45) cid"
proof -
  from assms obtain d b k v where p: "slugify casefold lang = Inr d" "slugify casefold bank = Inr b"
      "slugify casefold (task_value t) = Inr k" "slugify casefold ver = Inr v"
    and cid: "cid = join_dashes [case map_of LANGUAGE_CODES lang of Some c \<Rightarrow> c | None \<Rightarrow> d, b, k, v]"
    unfolding make_challenge_id_def by (auto simp: rbind_Inr_iff simp del: join_dashes.simps)
  have "list_all id_char (case map_of LANGUAGE_CODES lang of Some c \<Rightarrow> c | None \<Rightarrow> d)"
    using slugify_Inr [OF p(1)] language_code_chars [of lang] by (auto split: option.splits)
  then have "list_all id_char cid \<and> cid \<noteq> []"
    using p(2-4) [THEN slugify_Inr] cid by (simp add: id_char_def)
  then show ?thesis unfolding id_char_def slug_char_def list_all_iff by blast
qed

theorem challenge_id_is_safe_witness:
  "make_challenge_id (\<lambda>s. s) (u ''Thai'') (u ''pud'') UPOS (u ''v1'') = Inr (u ''th-pud-upos-v1'') \<and>
   46 \<notin> set (u ''th-pud-upos-v1'')"
proof -
  have e: "map_of LANGUAGE_CODES (u ''Thai'') = Some (u ''th'')"
    by (simp add: LANGUAGE_CODES_def)
  have run: "make_challenge_id (\<lambda>s. s) (u ''Thai'') (u ''pud'') UPOS (u ''v1'') = Inr (u ''th-pud-upos-v1'')"
    unfolding make_challenge_id_def e
    by (simp add: slugify_def task_value.simps) (simp add: u_def slug_char_def strip_dashes_def Let_def)
  from challenge_id_is_safe [OF this] run show ?thesis by (auto simp: list_all_iff)
qed

section \<open>Gold answer properties\<close>

text \<open>What an accepted gold answer is: the parts of the sample the scorers rely on.\<close>

definition gold_arc_ok :: "json list \<Rightarrow> nat \<Rightarrow> json \<Rightarrow> bool" where
  "gold_arc_ok ts n j \<longleftrightarrow>
     (\<exists>tid form hid hform rel.
        j = JArr [JInt tid, JStr form, JInt hid, JStr hform, JStr rel] \<and>
        0 < tid \<and> tid \<le> int n \<and> 0 \<le> hid \<and> hid \<le> int n \<and> form \<noteq> [] \<and> hform \<noteq> [] \<and> rel \<noteq> [] \<and>
        JStr form = ts ! nat (tid - 1) \<and>
        JStr hform = (if hid = 0 then JStr (u ''ROOT'') else ts ! nat (hid - 1)))"

fun arc_id :: "json \<Rightarrow> int" where
  "arc_id (JArr (JInt i # _)) = i"
| "arc_id _ = 0"

lemma is_str_iff: "is_str j \<longleftrightarrow> (\<exists>s. j = JStr s)"
  by (cases j) auto

lemma gold_arc_Inr:
  assumes "gold_arc ts n seen j = Inr tid"
  shows "gold_arc_ok ts n j \<and> arc_id j = tid \<and> tid \<notin> seen"
proof -
  from assms obtain a b c d e where j: "j = JArr [a, b, c, d, e]"
    by (cases "(ts, n, seen, j)" rule: gold_arc.cases) auto
  from assms j obtain i h where ints: "a = JInt i" "c = JInt h"
    by (cases a; cases c) (auto split: if_splits)
  show ?thesis
    using assms unfolding j ints
    by (auto simp: gold_arc_ok_def is_str_iff split: if_splits)
qed

lemma gold_arcs_Inr:
  "gold_arcs ts n seen as = Inr ids \<Longrightarrow>
     list_all (gold_arc_ok ts n) as \<and> distinct (map arc_id as) \<and> arc_id ` set as \<inter> seen = {} \<and>
     ids = seen \<union> arc_id ` set as"
proof (induction as arbitrary: seen ids)
  case (Cons a as)
  then obtain tid where a: "gold_arc ts n seen a = Inr tid" "gold_arcs ts n (insert tid seen) as = Inr ids"
    by (auto simp: rbind_Inr_iff)
  show ?case using gold_arc_Inr [OF a(1)] Cons.IH [OF a(2)] by auto
qed simp

definition text_items :: "json list \<Rightarrow> bool" where
  "text_items js \<longleftrightarrow> js \<noteq> [] \<and> list_all (\<lambda>j. \<exists>s. j = JStr s \<and> s \<noteq> [] \<and> s \<noteq> u ''_'') js"

lemma text_items_iff: "js \<noteq> [] \<Longrightarrow> \<not> list_ex bad_token js \<longleftrightarrow> text_items js"
  by (auto simp: text_items_def bad_token_def is_str_iff list_all_iff list_ex_iff)

lemma gold_answer_parts:
  assumes "validated_gold_item_count sample t = Inr n"
  shows "0 < n \<and>
    (\<exists>ts. map_of (answers sample) (task_value SEGMENTATION) = Some (JArr ts) \<and> text_items ts \<and> length ts = n \<and>
      (t \<noteq> SEGMENTATION \<longrightarrow>
        (\<exists>gold. map_of (answers sample) (task_value t) = Some (JArr gold) \<and> length gold = n \<and>
          (if t = DEPENDENCY
           then list_all (gold_arc_ok ts n) gold \<and> distinct (map arc_id gold) \<and>
             arc_id ` set gold = set (token_range n)
           else text_items gold \<and>
             (t = UPOS \<longrightarrow> list_all (\<lambda>j. str_of j \<in> set UD_UPOS_TAGS) gold)))))"
proof -
  from assms obtain ts where ts: "map_of (answers sample) (task_value SEGMENTATION) = Some (JArr ts)"
      "ts \<noteq> []" "\<not> list_ex bad_token ts"
    by (auto simp: validated_gold_item_count_def split: option.splits json.splits if_splits)
  have items: "text_items ts" using text_items_iff [OF ts(2)] ts(3) by blast
  show ?thesis
  proof (cases "t = SEGMENTATION")
    case True
    then show ?thesis using assms ts items by (auto simp: validated_gold_item_count_def)
  next
    case False
    then obtain gold where gold: "map_of (answers sample) (task_value t) = Some (JArr gold)" "gold \<noteq> []"
        "length gold = length ts" "check_gold_items t ts gold = Inr ()" "n = length gold"
      using assms ts
      by (auto simp: validated_gold_item_count_def rbind_Inr_iff split: option.splits json.splits if_splits)
    have "if t = DEPENDENCY
        then list_all (gold_arc_ok ts n) gold \<and> distinct (map arc_id gold) \<and> arc_id ` set gold = set (token_range n)
        else text_items gold \<and> (t = UPOS \<longrightarrow> list_all (\<lambda>j. str_of j \<in> set UD_UPOS_TAGS) gold)"
    proof (cases "t = DEPENDENCY")
      case True
      then show ?thesis
        using gold(4,5) by (auto simp: check_gold_items_def rbind_Inr_iff dest!: gold_arcs_Inr)
    next
      case False
      then show ?thesis
        using gold(4) text_items_iff [OF gold(2)]
        by (auto simp: check_gold_items_def list_ex_iff list_all_iff split: if_splits)
    qed
    then show ?thesis using ts items gold False by auto
  qed
qed

text \<open>A gold answer is accepted with the number of given tokens, which is positive; there is then
  one gold item for each given token, and the items are what the task's scorer needs: non-empty
  tags, from the UD tag set for UPOS, or arcs whose token ids are exactly 1 to n, whose heads are
  tokens or the root, and whose word forms are the given ones.\<close>

theorem gold_answer_sound:
  assumes "validated_gold_item_count sample t = Inr n"
  shows "0 < n \<and>
    (\<exists>ts. map_of (answers sample) (task_value SEGMENTATION) = Some (JArr ts) \<and> text_items ts \<and> length ts = n \<and>
      (t \<noteq> SEGMENTATION \<longrightarrow>
        (\<exists>gold. map_of (answers sample) (task_value t) = Some (JArr gold) \<and> length gold = n \<and>
          (if t = DEPENDENCY
           then list_all (gold_arc_ok ts n) gold \<and> distinct (map arc_id gold) \<and>
             arc_id ` set gold = set (token_range n)
           else text_items gold \<and>
             (t = UPOS \<longrightarrow> list_all (\<lambda>j. str_of j \<in> set UD_UPOS_TAGS) gold)))))"
  using assms by (rule gold_answer_parts)

theorem gold_answer_sound_witness:
  "validated_gold_item_count \<lparr>sid = u ''a'', language = [], treebank = [], sample_text = [],
     answers = [(u ''segmentation'', JArr [JStr (u ''it'')]),
       (u ''dependency'', JArr [JArr [JInt 1, JStr (u ''it''), JInt 0, JStr (u ''ROOT''), JStr (u ''root'')]])],
     tasks_available = []\<rparr> DEPENDENCY = Inr 1 \<and> (0::nat) < 1"
proof -
  have run: "validated_gold_item_count \<lparr>sid = u ''a'', language = [], treebank = [], sample_text = [],
     answers = [(u ''segmentation'', JArr [JStr (u ''it'')]),
       (u ''dependency'', JArr [JArr [JInt 1, JStr (u ''it''), JInt 0, JStr (u ''ROOT''), JStr (u ''root'')]])],
     tasks_available = []\<rparr> DEPENDENCY = Inr 1"
    by (simp add: validated_gold_item_count_def task_value.simps bad_token_def check_gold_items_def token_range_def)
  from gold_answer_sound [OF this] run show ?thesis by simp
qed

section \<open>Built challenges\<close>

lemma ChallengeArtifacts_Inr:
  "ChallengeArtifacts casefold sha p m d = Inr a \<longleftrightarrow>
     a = \<lparr>ca_public = p, ca_private = m, ca_dataset = d\<rparr> \<and> validate_challenge_artifacts casefold sha a = Inr ()"
  by (auto simp: ChallengeArtifacts_def Let_def rbind_Inr_iff)

text \<open>What validated artifacts guarantee to the evaluation that uses them.\<close>

definition artifacts_ok :: "challenge_artifacts \<Rightarrow> bool" where
  "artifacts_ok a \<longleftrightarrow>
     pm_sample_ids (ca_private a) \<noteq> [] \<and> [] \<notin> set (pm_sample_ids (ca_private a)) \<and>
     distinct (pm_sample_ids (ca_private a)) \<and> sorted (pm_sample_ids (ca_private a)) \<and>
     pc_sample_count (ca_public a) = int (length (pm_samples (ca_private a))) \<and>
     manifests_match (ca_public a) (ca_private a) \<and>
     (\<exists>t. pc_task (ca_public a) = task_value t \<and>
        (pc_primary_metric (ca_public a), pc_secondary_metrics (ca_public a)) = TASK_METRICS t) \<and>
     (\<exists>f. ca_dataset a = Some f \<and> fc_sha256 f = pc_dataset_sha256 (ca_public a))"

lemma validated_artifacts_ok:
  assumes "validate_challenge_artifacts casefold sha a = Inr ()"
  shows "artifacts_ok a"
proof -
  let ?ids = "pm_sample_ids (ca_private a)"
  have v: "validate_public_challenge casefold (ca_public a) = Inr ()" "manifests_match (ca_public a) (ca_private a)"
    "?ids \<noteq> []" "[] \<notin> set ?ids" "distinct ?ids" "?ids = sort ?ids"
    "pc_sample_count (ca_public a) = int (length (pm_samples (ca_private a)))"
    "sha256_file (ca_dataset a) = Inr (pc_dataset_sha256 (ca_public a))"
    using assms by (simp_all add: validate_challenge_artifacts_def Let_def rbind_Inr_iff)
  have "sorted ?ids" using v(6) sorted_sort [of ?ids] by metis
  moreover have "\<exists>f. ca_dataset a = Some f \<and> fc_sha256 f = pc_dataset_sha256 (ca_public a)"
    using v(8) by (auto simp: sha256_file_def split: option.splits)
  moreover have "\<exists>t. pc_task (ca_public a) = task_value t \<and>
      (pc_primary_metric (ca_public a), pc_secondary_metrics (ca_public a)) = TASK_METRICS t"
    using v(1) unfolding validate_public_challenge_def rbind_Inr_iff ensure_Inr_iff
    by (blast dest: TaskType_Inr)
  ultimately show ?thesis using v unfolding artifacts_ok_def by blast
qed

lemma iter_matching_subset:
  "set (fst (iter_matching_samples accept depth path lang bank task)) \<subseteq> set (fst (iter_dataset_samples accept depth path))"
  "snd (iter_matching_samples accept depth path lang bank task) = snd (iter_dataset_samples accept depth path)"
  by (auto simp: iter_matching_samples_def gen_filter_def)

text \<open>A challenge that is built is complete and loadable: it passes the validation of artifacts,
  its gold counts are those of validated gold answers, and loading its samples by id under its
  dataset digest returns samples with exactly these ids, provided no id is repeated in the whole
  dataset.\<close>

theorem built_challenge_loads:
  assumes "build_challenge casefold sha randrange Random accept depth path lang bank task k seed ver = Inr a"
    and "distinct (map sid (fst (iter_dataset_samples accept depth path)))"
  shows "artifacts_ok a \<and> int (length (pm_samples (ca_private a))) = k \<and>
    (\<exists>t ss. task = task_value t \<and>
      load_dataset_samples_by_id accept depth path (pm_sample_ids (ca_private a))
        (Some (pc_dataset_sha256 (ca_public a))) = Inr ss \<and>
      list_all2 (\<lambda>s m. sid s = ms_sample_id m \<and>
        (\<exists>n. validated_gold_item_count s t = Inr n \<and> ms_gold_items m = int n)) ss (pm_samples (ca_private a)))"
proof -
  let ?all = "iter_dataset_samples accept depth path"
  from assms(1) obtain t selected samples p m where t: "TaskType task = Inr t"
    and sel: "select_samples randrange (Random seed) k
        (iter_matching_samples accept depth path lang bank (task_value t)) = Inr selected"
    and samples: "rmapM (\<lambda>s. rbind (validated_gold_item_count s t)
        (\<lambda>n. Inr \<lparr>ms_sample_id = sid s, ms_gold_items = int n\<rparr>)) selected = Inr samples"
    and a: "ChallengeArtifacts casefold sha p m path = Inr a" "pm_samples m = samples"
    unfolding build_challenge_def rbind_Inr_iff Let_def
    by (elim exE conjE, simp only: private_manifest.simps)
  from a have ok: "artifacts_ok a" and parts: "pm_samples (ca_private a) = samples" "ca_dataset a = path"
    by (auto simp: ChallengeArtifacts_Inr intro: validated_artifacts_ok)
  have gold: "list_all2 (\<lambda>s m. sid s = ms_sample_id m \<and>
      (\<exists>n. validated_gold_item_count s t = Inr n \<and> ms_gold_items m = int n)) selected samples"
    using samples unfolding rmapM_Inr_iff by (rule list_all2_mono) (auto simp: rbind_Inr_iff)
  have sel': "set selected \<subseteq> set (fst ?all)" "int (length selected) = k" "snd ?all = None"
    using select_samples_Inr [OF sel] iter_matching_subset [of accept depth path lang bank "task_value t"]
      select_samples_Inr_iff [of randrange "Random seed" k
        "iter_matching_samples accept depth path lang bank (task_value t)"] sel by auto
  have ids: "map ms_sample_id samples = map sid selected"
    using gold by (induction rule: list_all2_induct) auto
  obtain f where f: "path = Some f" "fc_sha256 f = pc_dataset_sha256 (ca_public a)"
    using ok parts(2) by (auto simp: artifacts_ok_def)
  have stream: "samples_of accept depth path (Some (pc_dataset_sha256 (ca_public a))) = ?all"
    using f sel'(3)
    by (simp add: samples_of_def verified_dataset_samples_def iter_dataset_samples_def gen_then_def
        split: if_splits)
  have "filter (\<lambda>x. sid x = sid s) (fst ?all) = [s]" if "s \<in> set selected" for s
    using filter_unique [of sid UNIV "fst ?all" s] assms(2) sel'(1) that by auto
  then have "list_all2 (\<lambda>i s. filter (\<lambda>x. sid x = i) (fst ?all) = [s]) (map sid selected) selected"
    by (simp add: list_all2_map1 list_all2_same)
  then have "load_dataset_samples_by_id accept depth path (map sid selected)
      (Some (pc_dataset_sha256 (ca_public a))) = Inr selected"
    using ok sel'(3) ids parts(1)
    unfolding load_by_id_iff stream by (auto simp: artifacts_ok_def pm_sample_ids_def)
  then show ?thesis
    using ok gold sel'(2) ids parts(1) TaskType_Inr [OF t] list_all2_lengthD [OF gold]
    by (auto simp: pm_sample_ids_def)
qed

theorem built_challenge_loads_witness:
  "\<exists>ss. load_dataset_samples_by_id
      (\<lambda>_. Inr \<lparr>sid = u ''s1'', language = u ''Thai'', treebank = u ''pud'', sample_text = u ''a'',
         answers = [(u ''segmentation'', JArr [JStr (u ''a'')]), (u ''xpos'', JArr [JStr (u ''N'')])],
         tasks_available = [u ''xpos'']\<rparr>) 9
      (Some \<lparr>fc_lines = [u ''0''], fc_error = None, fc_sha256 = replicate 64 97\<rparr>) [u ''s1'']
      (Some (replicate 64 97)) = Inr ss \<and> length ss = 1"
proof -
  let ?accept = "\<lambda>_ :: json. Inr \<lparr>sid = u ''s1'', language = u ''Thai'', treebank = u ''pud'', sample_text = u ''a'',
         answers = [(u ''segmentation'', JArr [JStr (u ''a'')]), (u ''xpos'', JArr [JStr (u ''N'')])],
         tasks_available = [u ''xpos'']\<rparr> :: validation_error list + dataset_sample"
  let ?path = "Some \<lparr>fc_lines = [u ''0''], fc_error = None, fc_sha256 = replicate 64 97\<rparr>"
  let ?sha = "\<lambda>_ :: pystr. replicate 64 97 :: pystr"
  let ?build = "build_challenge (\<lambda>s. s) ?sha (\<lambda>st n. (0, st)) (\<lambda>_. ()) ?accept 9 ?path
      (u ''Thai'') (u ''pud'') (u ''xpos'') 1 2026 (u ''v1'')"
  have line: "loads 9 (u ''0'') = Inr (JInt 0)" "py_strip (u ''0'') \<noteq> []"
    by (simp_all add: json_eval py_strip_def py_space_def u_def)
  have task: "TaskType (u ''xpos'') = Inr XPOS" using TaskType_task_value [of XPOS] by (simp add: task_value.simps)
  have slug: "slugify (\<lambda>s. s) (u s) = Inr (u s)" if "s \<in> {''pud'', ''xpos'', ''v1''}" for s
    using that by (auto simp: slugify_def u_def slug_char_def strip_dashes_def Let_def)
  have thai: "slugify (\<lambda>s. s) (u ''Thai'') = Inr (u ''hai'')" "map_of LANGUAGE_CODES (u ''Thai'') = Some (u ''th'')"
    by (simp add: slugify_def u_def slug_char_def strip_dashes_def Let_def) (simp add: LANGUAGE_CODES_def)
  have "is_sha256 (replicate 64 97)" by (simp add: is_sha256_def u_def list_all_iff)
  moreover have "py_strip (u s) = u s" if "s \<in> {''unrecorded'', ''review_required'',
      ''Public UD-derived teaching benchmark; source data and answers are not secret.''}" for s
    using that by (auto simp: py_strip_def py_space_def u_def)
  ultimately obtain a where a: "?build = Inr a" "pm_sample_ids (ca_private a) = [u ''s1'']"
      "pc_dataset_sha256 (ca_public a) = replicate 64 97" "length (pm_samples (ca_private a)) = 1"
    by (simp add: build_challenge_def task select_samples_def iter_matching_samples_def gen_filter_def
        iter_dataset_samples_def gen_then_def gen_cons_def line validated_gold_item_count_def
        task_value.simps bad_token_def check_gold_items_def make_challenge_id_def slug thai sha256_file_def
        Let_def ChallengeArtifacts_def validate_challenge_artifacts_def validate_public_challenge_def
        RESPONSE_SCHEMA_VERSIONS_def manifests_match_def pm_sample_ids_def selection_sha256_def)
  have "distinct (map sid (fst (iter_dataset_samples ?accept 9 ?path)))"
    by (simp add: iter_dataset_samples_def gen_then_def gen_cons_def line)
  from built_challenge_loads [OF a(1) this] show ?thesis
    using a(2-4) by (auto dest: list_all2_lengthD)
qed

end
