(* ===== verification/Demo_Challenge.thy ===== *)
theory Demo_Challenge
  imports Challenge
begin

text \<open>
  One concrete XPOS challenge of two samples, with its dataset file and the instances of the
  parameters (line validation, text hash, case folding) at which the witnesses of the
  evaluation theories evaluate.
\<close>

definition demo_sample :: "string \<Rightarrow> string list \<Rightarrow> string list \<Rightarrow> dataset_sample" where
  "demo_sample i ts xs =
     \<lparr>sid = u i, language = u ''Thai'', treebank = u ''pud'', sample_text = u ''text'',
      answers = [(u ''segmentation'', JArr (map (\<lambda>t. JStr (u t)) ts)),
                 (u ''xpos'', JArr (map (\<lambda>t. JStr (u t)) xs))],
      tasks_available = [task_value SEGMENTATION, task_value XPOS]\<rparr>"

definition demo_1 :: dataset_sample where
  "demo_1 = demo_sample ''s1'' [''ma''] [''V'']"

definition demo_2 :: dataset_sample where
  "demo_2 = demo_sample ''s2'' [''pai'', ''nai''] [''V'', ''Q'']"

definition demo_accept :: sample_validator where
  "demo_accept j = (if j = JInt 1 then Inr demo_1 else Inr demo_2)"

definition demo_hash :: pystr where
  "demo_hash = replicate 64 97"

definition demo_sha :: "pystr \<Rightarrow> pystr" where
  "demo_sha t = demo_hash"

definition demo_file :: "file_content option" where
  "demo_file = Some \<lparr>fc_lines = [u ''1'', u ''2''], fc_error = None, fc_sha256 = demo_hash\<rparr>"

definition demo_build :: "challenge_artifacts result" where
  "demo_build = build_challenge (\<lambda>s. s) demo_sha (\<lambda>st n. (0, st)) (\<lambda>_. ()) demo_accept 9 demo_file
     (u ''Thai'') (u ''pud'') (u ''xpos'') 2 2026 (u ''v1'')"

definition demo_artifacts :: challenge_artifacts where
  "demo_artifacts = projr demo_build"

lemma demo_stream: "iter_dataset_samples demo_accept 9 demo_file = ([demo_1, demo_2], None)"
proof -
  have "loads 9 (u ''1'') = Inr (JInt 1)" "py_strip (u ''1'') \<noteq> []"
    "loads 9 (u ''2'') = Inr (JInt 2)" "py_strip (u ''2'') \<noteq> []"
    by (simp_all add: json_eval py_strip_def py_space_def u_def)
  then show ?thesis
    by (simp add: iter_dataset_samples_def demo_file_def gen_then_def gen_cons_def demo_accept_def)
qed

lemma demo_ids [simp]: "sid demo_1 = u ''s1''" "sid demo_2 = u ''s2''"
  "language demo_1 = u ''Thai''" "language demo_2 = u ''Thai''"
  "treebank demo_1 = u ''pud''" "treebank demo_2 = u ''pud''"
  "tasks_available demo_1 = [task_value SEGMENTATION, task_value XPOS]"
  "tasks_available demo_2 = [task_value SEGMENTATION, task_value XPOS]"
  by (simp_all add: demo_1_def demo_2_def demo_sample_def)

lemma demo_gold [simp]:
  "validated_gold_item_count demo_1 XPOS = Inr 1" "validated_gold_item_count demo_2 XPOS = Inr 2"
  by (simp_all add: demo_1_def demo_2_def demo_sample_def validated_gold_item_count_def task_value.simps
      bad_token_def check_gold_items_def)

lemma demo_id:
  "make_challenge_id (\<lambda>s. s) (u ''Thai'') (u ''pud'') XPOS (u ''v1'') = Inr (u ''th-pud-xpos-v1'')"
proof -
  have slug: "slugify (\<lambda>s. s) (u s) = Inr (u s)" if "s \<in> {''pud'', ''xpos'', ''v1''}" for s
    using that by (auto simp: slugify_def u_def slug_char_def strip_dashes_def Let_def)
  have "slugify (\<lambda>s. s) (u ''Thai'') = Inr (u ''hai'')" "map_of LANGUAGE_CODES (u ''Thai'') = Some (u ''th'')"
    by (simp add: slugify_def u_def slug_char_def strip_dashes_def Let_def) (simp add: LANGUAGE_CODES_def)
  then show ?thesis
    by (simp add: make_challenge_id_def slug task_value.simps) (simp add: u_def)
qed

lemma demo_artifacts:
  "demo_build = Inr demo_artifacts"
  "pm_samples (ca_private demo_artifacts) =
     [\<lparr>ms_sample_id = u ''s1'', ms_gold_items = 1\<rparr>, \<lparr>ms_sample_id = u ''s2'', ms_gold_items = 2\<rparr>]"
  "pc_task (ca_public demo_artifacts) = task_value XPOS"
  "pc_language (ca_public demo_artifacts) = u ''Thai''"
  "pc_treebank (ca_public demo_artifacts) = u ''pud''"
  "pc_dataset_sha256 (ca_public demo_artifacts) = demo_hash"
  "ca_dataset demo_artifacts = demo_file"
  "validate_challenge_artifacts (\<lambda>s. s) demo_sha demo_artifacts = Inr ()"
proof -
  have task: "TaskType (u ''xpos'') = Inr XPOS" using TaskType_task_value [of XPOS] by (simp add: task_value.simps)
  have hash: "is_sha256 demo_hash" by (simp add: is_sha256_def demo_hash_def u_def list_all_iff)
  have strip: "py_strip (u s) = u s" if "s \<in> {''unrecorded'', ''review_required'',
      ''Public UD-derived teaching benchmark; source data and answers are not secret.''}" for s
    using that by (auto simp: py_strip_def py_space_def u_def)
  have sel: "select_samples (\<lambda>st n. (0, st)) () 2
      (iter_matching_samples demo_accept 9 demo_file (u ''Thai'') (u ''pud'') (task_value XPOS)) = Inr [demo_1, demo_2]"
    by (simp add: select_samples_def iter_matching_samples_def demo_stream gen_filter_def task_value.simps)
      (simp add: u_def)
  have fsha: "sha256_file demo_file = Inr demo_hash" by (simp add: demo_file_def sha256_file_def)
  have "\<exists>a. demo_build = Inr a \<and>
      pm_samples (ca_private a) =
        [\<lparr>ms_sample_id = u ''s1'', ms_gold_items = 1\<rparr>, \<lparr>ms_sample_id = u ''s2'', ms_gold_items = 2\<rparr>] \<and>
      pc_task (ca_public a) = task_value XPOS \<and> pc_language (ca_public a) = u ''Thai'' \<and>
      pc_treebank (ca_public a) = u ''pud'' \<and> pc_dataset_sha256 (ca_public a) = demo_hash \<and>
      ca_dataset a = demo_file \<and> validate_challenge_artifacts (\<lambda>s. s) demo_sha a = Inr ()"
  proof -
    have order: "u ''s1'' \<le> u ''s2''" by (simp add: u_def)
    show ?thesis
      unfolding demo_build_def build_challenge_def task rbind_simps sel
      by (simp add: demo_id fsha hash strip order ChallengeArtifacts_def Let_def validate_challenge_artifacts_def
          validate_public_challenge_def RESPONSE_SCHEMA_VERSIONS_def manifests_match_def pm_sample_ids_def
          selection_sha256_def demo_sha_def)
  qed
  then obtain a where a: "demo_build = Inr a"
      "pm_samples (ca_private a) =
        [\<lparr>ms_sample_id = u ''s1'', ms_gold_items = 1\<rparr>, \<lparr>ms_sample_id = u ''s2'', ms_gold_items = 2\<rparr>]"
      "pc_task (ca_public a) = task_value XPOS" "pc_language (ca_public a) = u ''Thai''"
      "pc_treebank (ca_public a) = u ''pud''" "pc_dataset_sha256 (ca_public a) = demo_hash"
      "ca_dataset a = demo_file" "validate_challenge_artifacts (\<lambda>s. s) demo_sha a = Inr ()" by blast
  have "demo_artifacts = a" by (simp only: demo_artifacts_def a(1) sum.sel)
  with a show "demo_build = Inr demo_artifacts"
    "pm_samples (ca_private demo_artifacts) =
       [\<lparr>ms_sample_id = u ''s1'', ms_gold_items = 1\<rparr>, \<lparr>ms_sample_id = u ''s2'', ms_gold_items = 2\<rparr>]"
    "pc_task (ca_public demo_artifacts) = task_value XPOS"
    "pc_language (ca_public demo_artifacts) = u ''Thai''"
    "pc_treebank (ca_public demo_artifacts) = u ''pud''"
    "pc_dataset_sha256 (ca_public demo_artifacts) = demo_hash"
    "ca_dataset demo_artifacts = demo_file"
    "validate_challenge_artifacts (\<lambda>s. s) demo_sha demo_artifacts = Inr ()"
    by simp_all
qed

end
