(* ===== verification/Aggregation.thy ===== *)
theory Aggregation
  imports Demo_Challenge
begin

text \<open>
  Challenge-level aggregation, \<open>src/linguistic_oj/aggregation.py\<close>.  The dataclasses validate
  themselves when they are constructed; the functions \<open>SampleEvaluationOutcome\<close> and
  \<open>ChallengeAggregateResult\<close> are these checks.  Type tests that the model's types make
  true are left out, tests on values are branches.
\<close>

section \<open>Score results\<close>

datatype score_result =
    SegmentationScore segmentation_score
  | TaggingScore tagging_score
  | DependencyScore dependency_score
  | TransliterationScore transliteration_score

fun has_expected_type :: "task_type \<Rightarrow> score_result \<Rightarrow> bool" where
  "has_expected_type SEGMENTATION (SegmentationScore _) = True"
| "has_expected_type UPOS (TaggingScore _) = True"
| "has_expected_type XPOS (TaggingScore _) = True"
| "has_expected_type DEPENDENCY (DependencyScore _) = True"
| "has_expected_type TRANSLITERATION (TransliterationScore _) = True"
| "has_expected_type _ _ = False"

fun gold_items_of :: "score_result \<Rightarrow> int" where
  "gold_items_of (SegmentationScore s) = gold_tokens s"
| "gold_items_of (TaggingScore s) = total_tags s"
| "gold_items_of (DependencyScore s) = total_arcs s"
| "gold_items_of (TransliterationScore s) = total_tokens s"

fun validate_structural_score :: "score_result \<Rightarrow> unit result" where
  "validate_structural_score (SegmentationScore s) =
     ensure (\<not> (\<not> valid_surface s \<and> (correct_tokens s \<noteq> 0 \<or> exact_match s)))
       (Exc ValueError ''invalid segmentation surface cannot contain correct tokens'')"
| "validate_structural_score (TaggingScore s) =
     ensure (tg_valid_length s) (Exc ValueError ''Invalid tagging structure must be represented as malformed'')"
| "validate_structural_score (DependencyScore s) =
     ensure (valid_structure s) (Exc ValueError ''Invalid dependency structure must be represented as malformed'')"
| "validate_structural_score (TransliterationScore s) =
     ensure (tr_valid_length s) (Exc ValueError ''Invalid transliteration structure must be represented as malformed'')"

definition require_nonnegative_int :: "int \<Rightarrow> unit result" where
  "require_nonnegative_int v = ensure (0 \<le> v) (Exc ValueError ''must be a non-negative integer'')"

definition require_metric :: "pyfloat \<Rightarrow> rat \<Rightarrow> unit result" where
  "require_metric v expected =
     (case v of
        Fin q \<Rightarrow>
          if \<not> (0 \<le> q \<and> q \<le> 1) then raise ValueError ''must be between 0 and 1''
          else if \<not> isclose (fl (1 / 10 ^ 12)) (fl (1 / 10 ^ 12)) q expected
          then raise ValueError ''does not match its score counts''
          else Inr ()
      | _ \<Rightarrow> raise ValueError ''must be a finite number'')"

fun validate_score_counts :: "score_result \<Rightarrow> unit result" where
  "validate_score_counts (SegmentationScore s) =
     rbind (require_nonnegative_int (correct_tokens s)) (\<lambda>_.
     rbind (require_nonnegative_int (predicted_tokens s)) (\<lambda>_.
     rbind (require_nonnegative_int (gold_tokens s)) (\<lambda>_.
     rbind (ensure (correct_tokens s \<le> min (predicted_tokens s) (gold_tokens s))
       (Exc ValueError ''correct_tokens exceeds a segmentation denominator'')) (\<lambda>_.
     (let pr = safe_ratio (correct_tokens s) (predicted_tokens s);
          re = safe_ratio (correct_tokens s) (gold_tokens s)
      in rbind (require_metric (precision s) pr) (\<lambda>_.
         rbind (require_metric (recall s) re) (\<lambda>_.
         require_metric (f1 s) (harmonic pr re))))))))"
| "validate_score_counts (TaggingScore s) =
     rbind (require_nonnegative_int (correct_tags s)) (\<lambda>_.
     rbind (require_nonnegative_int (total_tags s)) (\<lambda>_.
     rbind (ensure (correct_tags s \<le> total_tags s) (Exc ValueError ''correct_tags exceeds total_tags'')) (\<lambda>_.
     require_metric (accuracy s) (safe_ratio (correct_tags s) (total_tags s)))))"
| "validate_score_counts (DependencyScore s) =
     rbind (require_nonnegative_int (correct_heads s)) (\<lambda>_.
     rbind (require_nonnegative_int (correct_labeled_arcs s)) (\<lambda>_.
     rbind (require_nonnegative_int (total_arcs s)) (\<lambda>_.
     rbind (ensure (0 \<le> correct_labeled_arcs s \<and> correct_labeled_arcs s \<le> correct_heads s \<and>
         correct_heads s \<le> total_arcs s)
       (Exc ValueError ''dependency counts must satisfy LAS <= UAS <= total_arcs'')) (\<lambda>_.
     rbind (require_metric (uas s) (safe_ratio (correct_heads s) (total_arcs s))) (\<lambda>_.
     require_metric (las s) (safe_ratio (correct_labeled_arcs s) (total_arcs s)))))))"
| "validate_score_counts (TransliterationScore s) =
     rbind (require_nonnegative_int (tr_correct_tokens s)) (\<lambda>_.
     rbind (require_nonnegative_int (total_tokens s)) (\<lambda>_.
     rbind (ensure (tr_correct_tokens s \<le> total_tokens s) (Exc ValueError ''correct_tokens exceeds total_tokens'')) (\<lambda>_.
     rbind (require_metric (token_accuracy s) (safe_ratio (tr_correct_tokens s) (total_tokens s))) (\<lambda>_.
     ensure (sentence_exact_match s = (tr_correct_tokens s = total_tokens s))
       (Exc ValueError ''sentence_exact_match does not match transliteration counts'')))))"

section \<open>Outcomes\<close>

record sample_outcome =
  so_sample_id :: pystr
  so_task :: task_type
  so_gold_items :: int
  so_score :: "score_result option"
  so_error_code :: "parse_error_code option"

definition SampleEvaluationOutcome :: "sample_outcome \<Rightarrow> sample_outcome result" where
  "SampleEvaluationOutcome o1 =
     rbind (ensure (so_sample_id o1 \<noteq> []) (Exc ValueError ''sample_id must not be empty'')) (\<lambda>_.
     rbind (ensure (0 < so_gold_items o1) (Exc ValueError ''gold_items must be positive'')) (\<lambda>_.
     rbind (ensure (so_error_code o1 \<noteq> Some UNKNOWN_TASK)
       (Exc ValueError ''UNKNOWN_TASK is a platform configuration error, not model output'')) (\<lambda>_.
     rbind (ensure ((so_score o1 = None) \<noteq> (so_error_code o1 = None))
       (Exc ValueError ''Outcome must contain exactly one score or error_code'')) (\<lambda>_.
     (case so_score o1 of
        None \<Rightarrow> Inr o1
      | Some s \<Rightarrow>
          rbind (ensure (has_expected_type (so_task o1) s) (Exc TypeError ''wrong score type'')) (\<lambda>_.
          rbind (ensure (gold_items_of s = so_gold_items o1)
            (Exc ValueError ''gold_items does not match the score denominator'')) (\<lambda>_.
          rbind (validate_structural_score s) (\<lambda>_.
          rbind (validate_score_counts s) (\<lambda>_. Inr o1)))))))))"

definition scored :: "pystr \<Rightarrow> task_type \<Rightarrow> score_result \<Rightarrow> sample_outcome result" where
  "scored sample t s =
     SampleEvaluationOutcome \<lparr>so_sample_id = sample, so_task = t, so_gold_items = gold_items_of s,
       so_score = Some s, so_error_code = None\<rparr>"

definition malformed :: "pystr \<Rightarrow> task_type \<Rightarrow> int \<Rightarrow> parse_error_code \<Rightarrow> sample_outcome result" where
  "malformed sample t gold_items c =
     SampleEvaluationOutcome \<lparr>so_sample_id = sample, so_task = t, so_gold_items = gold_items,
       so_score = None, so_error_code = Some c\<rparr>"

section \<open>Micro averages\<close>

fun seg_part :: "sample_outcome \<Rightarrow> (segmentation_score \<Rightarrow> int) \<Rightarrow> int" where
  "seg_part o1 f = (case so_score o1 of Some (SegmentationScore s) \<Rightarrow> f s | _ \<Rightarrow> 0)"

fun tag_part :: "sample_outcome \<Rightarrow> int" where
  "tag_part o1 = (case so_score o1 of Some (TaggingScore s) \<Rightarrow> correct_tags s | _ \<Rightarrow> 0)"

fun dep_part :: "sample_outcome \<Rightarrow> (dependency_score \<Rightarrow> int) \<Rightarrow> int" where
  "dep_part o1 f = (case so_score o1 of Some (DependencyScore s) \<Rightarrow> f s | _ \<Rightarrow> 0)"

fun tr_part :: "sample_outcome \<Rightarrow> (transliteration_score \<Rightarrow> int) \<Rightarrow> int" where
  "tr_part o1 f = (case so_score o1 of Some (TransliterationScore s) \<Rightarrow> f s | _ \<Rightarrow> 0)"

definition gold_total :: "sample_outcome list \<Rightarrow> int" where
  "gold_total os = (\<Sum>o1\<leftarrow>os. so_gold_items o1)"

definition aggregate_segmentation :: "sample_outcome list \<Rightarrow> (pystr \<times> rat) list" where
  "aggregate_segmentation os =
     (let correct = (\<Sum>o1\<leftarrow>os. seg_part o1 correct_tokens);
          predicted = (\<Sum>o1\<leftarrow>os. seg_part o1 predicted_tokens);
          pr = safe_ratio correct predicted;
          re = safe_ratio correct (gold_total os)
      in [(u ''micro_precision'', pr), (u ''micro_recall'', re), (u ''micro_f1'', harmonic pr re)])"

definition aggregate_tagging :: "sample_outcome list \<Rightarrow> (pystr \<times> rat) list" where
  "aggregate_tagging os =
     [(u ''micro_accuracy'', safe_ratio (\<Sum>o1\<leftarrow>os. tag_part o1) (gold_total os))]"

definition aggregate_dependency :: "sample_outcome list \<Rightarrow> (pystr \<times> rat) list" where
  "aggregate_dependency os =
     [(u ''uas'', safe_ratio (\<Sum>o1\<leftarrow>os. dep_part o1 correct_heads) (gold_total os)),
      (u ''las'', safe_ratio (\<Sum>o1\<leftarrow>os. dep_part o1 correct_labeled_arcs) (gold_total os))]"

definition aggregate_transliteration :: "sample_outcome list \<Rightarrow> (pystr \<times> rat) list" where
  "aggregate_transliteration os =
     [(u ''token_accuracy'', safe_ratio (\<Sum>o1\<leftarrow>os. tr_part o1 tr_correct_tokens) (gold_total os)),
      (u ''sentence_exact_match_rate'',
       safe_ratio (\<Sum>o1\<leftarrow>os. tr_part o1 (\<lambda>s. of_bool (sentence_exact_match s))) (int (length os)))]"

fun aggregate_metrics :: "task_type \<Rightarrow> sample_outcome list \<Rightarrow> (pystr \<times> rat) list" where
  "aggregate_metrics SEGMENTATION os = aggregate_segmentation os"
| "aggregate_metrics UPOS os = aggregate_tagging os"
| "aggregate_metrics XPOS os = aggregate_tagging os"
| "aggregate_metrics DEPENDENCY os = aggregate_dependency os"
| "aggregate_metrics TRANSLITERATION os = aggregate_transliteration os"

fun error_value :: "parse_error_code \<Rightarrow> pystr" where
  "error_value UNKNOWN_TASK = u ''UNKNOWN_TASK''"
| "error_value INVALID_JSON = u ''INVALID_JSON''"
| "error_value TOP_LEVEL_NOT_OBJECT = u ''TOP_LEVEL_NOT_OBJECT''"
| "error_value MISSING_FIELD = u ''MISSING_FIELD''"
| "error_value EXTRA_FIELD = u ''EXTRA_FIELD''"
| "error_value WRONG_TYPE = u ''WRONG_TYPE''"
| "error_value EMPTY_VALUE = u ''EMPTY_VALUE''"
| "error_value INVALID_VALUE = u ''INVALID_VALUE''"
| "error_value INVALID_TAG = u ''INVALID_TAG''"
| "error_value DUPLICATE_TOKEN_ID = u ''DUPLICATE_TOKEN_ID''"
| "error_value LENGTH_MISMATCH = u ''LENGTH_MISMATCH''"
| "error_value TOKEN_ID_MISMATCH = u ''TOKEN_ID_MISMATCH''"
| "error_value INVALID_HEAD_ID = u ''INVALID_HEAD_ID''"

text \<open>\<open>Counter\<close> over the values in order, and the error codes of the outcomes that have one.\<close>

fun counter_add :: "(pystr \<times> int) list \<Rightarrow> pystr list \<Rightarrow> (pystr \<times> int) list" where
  "counter_add m [] = m"
| "counter_add m (k # ks) =
     counter_add (dict_set k ((case map_of m k of None \<Rightarrow> 0 | Some n \<Rightarrow> n) + 1) m) ks"

definition error_counts :: "sample_outcome list \<Rightarrow> (pystr \<times> int) list" where
  "error_counts os = sort_key fst (counter_add []
     (concat (map (\<lambda>o1. case so_error_code o1 of None \<Rightarrow> [] | Some c \<Rightarrow> [error_value c]) os)))"

section \<open>Aggregate results\<close>

record aggregate_result =
  ar_challenge_id :: pystr
  ar_task :: task_type
  ar_scorer_version :: pystr
  ar_aggregation_version :: pystr
  ar_dataset_sha256 :: pystr
  ar_selection_sha256 :: pystr
  ar_samples_total :: int
  ar_samples_valid :: int
  ar_samples_invalid :: int
  ar_primary_metric :: pystr
  ar_score :: rat
  ar_metrics :: "(pystr \<times> rat) list"
  ar_errors :: "(pystr \<times> int) list"

definition declared_metrics :: "task_type \<Rightarrow> pystr set" where
  "declared_metrics t = insert (fst (TASK_METRICS t)) (set (snd (TASK_METRICS t)))"

definition ChallengeAggregateResult :: "aggregate_result \<Rightarrow> aggregate_result result" where
  "ChallengeAggregateResult r =
     rbind (ensure (ar_challenge_id r \<noteq> []) (Exc ValueError ''challenge_id must not be empty'')) (\<lambda>_.
     rbind (ensure (ar_scorer_version r = SCORER_VERSION)
       (Exc ValueError ''scorer_version does not match the runtime'')) (\<lambda>_.
     rbind (ensure (ar_aggregation_version r = AGGREGATION_VERSION)
       (Exc ValueError ''aggregation_version does not match the runtime'')) (\<lambda>_.
     rbind (ensure (is_sha256 (ar_dataset_sha256 r))
       (Exc ValueError ''dataset_sha256 must be a lowercase SHA-256 value'')) (\<lambda>_.
     rbind (ensure (is_sha256 (ar_selection_sha256 r))
       (Exc ValueError ''selection_sha256 must be a lowercase SHA-256 value'')) (\<lambda>_.
     rbind (require_nonnegative_int (ar_samples_total r)) (\<lambda>_.
     rbind (require_nonnegative_int (ar_samples_valid r)) (\<lambda>_.
     rbind (require_nonnegative_int (ar_samples_invalid r)) (\<lambda>_.
     rbind (ensure (ar_samples_total r = ar_samples_valid r + ar_samples_invalid r)
       (Exc ValueError ''sample counts do not add up'')) (\<lambda>_.
     rbind (ensure (ar_samples_total r \<noteq> 0) (Exc ValueError ''samples_total must be positive'')) (\<lambda>_.
     rbind (ensure (fst ` set (ar_metrics r) = declared_metrics (ar_task r) \<and>
         ar_primary_metric r = fst (TASK_METRICS (ar_task r)))
       (Exc ValueError ''result metrics do not match the task metric declaration'')) (\<lambda>_.
     rbind (rmapM (\<lambda>(_, v). require_metric (Fin v) v) (ar_metrics r)) (\<lambda>_.
     rbind (require_metric (Fin (ar_score r)) (the (map_of (ar_metrics r) (ar_primary_metric r)))) (\<lambda>_.
     rbind (rmapM (\<lambda>(c, n).
         rbind (ensure (c \<noteq> []) (Exc ValueError ''error codes must be non-empty strings'')) (\<lambda>_.
         ensure (0 < n) (Exc ValueError ''error counts must be positive integers''))) (ar_errors r)) (\<lambda>_.
     rbind (ensure ((\<Sum>(_, n)\<leftarrow>ar_errors r. n) = ar_samples_invalid r)
       (Exc ValueError ''error counts must equal samples_invalid'')) (\<lambda>_. Inr r)))))))))))))))"

definition expected_gold_items :: "private_manifest \<Rightarrow> pystr \<Rightarrow> int option" where
  "expected_gold_items m = map_of (rev (map (\<lambda>s. (ms_sample_id s, ms_gold_items s)) (pm_samples m)))"

definition aggregate_challenge :: "(pystr \<Rightarrow> pystr) \<Rightarrow> (pystr \<Rightarrow> pystr) \<Rightarrow> challenge_artifacts
    \<Rightarrow> sample_outcome list \<Rightarrow> aggregate_result result" where
  "aggregate_challenge casefold sha a os =
     rbind (validate_challenge_artifacts casefold sha a) (\<lambda>_.
     rbind (ensure (os \<noteq> []) (Exc ValueError ''outcomes must not be empty'')) (\<lambda>_.
     rbind (TaskType (pc_task (ca_public a))) (\<lambda>t.
     rbind (ensure (distinct (map so_sample_id os))
       (Exc ValueError ''outcomes contain duplicate sample_id values'')) (\<lambda>_.
     rbind (ensure (list_all (\<lambda>o1. so_task o1 = t) os)
       (Exc ValueError ''all outcomes must match the challenge task'')) (\<lambda>_.
     rbind (ensure (so_sample_id ` set os = set (pm_sample_ids (ca_private a)))
       (Exc ValueError ''outcomes do not cover the challenge manifest'')) (\<lambda>_.
     rbind (ensure (list_all (\<lambda>o1. expected_gold_items (ca_private a) (so_sample_id o1) = Some (so_gold_items o1)) os)
       (Exc ValueError ''gold_items does not match the private manifest'')) (\<lambda>_.
     (let metrics = aggregate_metrics t os;
          primary = fst (TASK_METRICS t);
          samples_valid = int (length (filter (\<lambda>o1. so_score o1 \<noteq> None) os))
      in rbind (ensure (fst ` set metrics = declared_metrics t)
           (Exc RuntimeError ''aggregated metrics do not match the task metric declaration'')) (\<lambda>_.
         ChallengeAggregateResult
           \<lparr>ar_challenge_id = pc_challenge_id (ca_public a), ar_task = t,
            ar_scorer_version = SCORER_VERSION, ar_aggregation_version = AGGREGATION_VERSION,
            ar_dataset_sha256 = pc_dataset_sha256 (ca_public a),
            ar_selection_sha256 = pc_selection_sha256 (ca_public a),
            ar_samples_total = int (length os), ar_samples_valid = samples_valid,
            ar_samples_invalid = int (length os) - samples_valid,
            ar_primary_metric = primary, ar_score = the (map_of metrics primary),
            ar_metrics = metrics, ar_errors = error_counts os\<rparr>)))))))))"

section \<open>Facts about outcomes and counts\<close>

definition valid_outcome :: "sample_outcome \<Rightarrow> bool" where
  "valid_outcome o1 \<longleftrightarrow> SampleEvaluationOutcome o1 = Inr o1"

lemma SampleEvaluationOutcome_valid: "SampleEvaluationOutcome o1 = Inr o2 \<Longrightarrow> o2 = o1 \<and> valid_outcome o1"
  by (auto simp: SampleEvaluationOutcome_def valid_outcome_def rbind_Inr_iff split: option.splits)

lemma require_metric_exact: "0 \<le> q \<Longrightarrow> q \<le> 1 \<Longrightarrow> require_metric (Fin q) q = Inr ()"
  by (simp add: require_metric_def)

lemma valid_outcome_parts:
  assumes "valid_outcome o1"
  shows "so_sample_id o1 \<noteq> []" "0 < so_gold_items o1"
    "0 \<le> seg_part o1 correct_tokens" "seg_part o1 correct_tokens \<le> seg_part o1 predicted_tokens"
    "seg_part o1 correct_tokens \<le> so_gold_items o1"
    "0 \<le> tag_part o1" "tag_part o1 \<le> so_gold_items o1"
    "0 \<le> dep_part o1 correct_labeled_arcs" "dep_part o1 correct_labeled_arcs \<le> dep_part o1 correct_heads"
    "dep_part o1 correct_heads \<le> so_gold_items o1"
    "0 \<le> tr_part o1 tr_correct_tokens" "tr_part o1 tr_correct_tokens \<le> so_gold_items o1"
    "(so_score o1 = None) \<noteq> (so_error_code o1 = None)"
proof -
  have "SampleEvaluationOutcome o1 = Inr o1" using assms by (simp add: valid_outcome_def)
  note d = this [unfolded SampleEvaluationOutcome_def rbind_Inr_iff ensure_Inr_iff]
  show "so_sample_id o1 \<noteq> []" "0 < so_gold_items o1" "(so_score o1 = None) \<noteq> (so_error_code o1 = None)"
    using d by auto
  then have g: "0 < so_gold_items o1" by simp
  have "0 \<le> seg_part o1 correct_tokens \<and> seg_part o1 correct_tokens \<le> seg_part o1 predicted_tokens \<and>
    seg_part o1 correct_tokens \<le> so_gold_items o1 \<and> 0 \<le> tag_part o1 \<and> tag_part o1 \<le> so_gold_items o1 \<and>
    0 \<le> dep_part o1 correct_labeled_arcs \<and> dep_part o1 correct_labeled_arcs \<le> dep_part o1 correct_heads \<and>
    dep_part o1 correct_heads \<le> so_gold_items o1 \<and>
    0 \<le> tr_part o1 tr_correct_tokens \<and> tr_part o1 tr_correct_tokens \<le> so_gold_items o1"
  proof (cases "so_score o1")
    case (Some s)
    then have v: "gold_items_of s = so_gold_items o1" "validate_score_counts s = Inr ()"
      using d by (auto simp: rbind_Inr_iff)
    show ?thesis using v g Some
      by (cases s) (auto simp: rbind_Inr_iff require_nonnegative_int_def Let_def)
  qed (use g in simp)
  then show "0 \<le> seg_part o1 correct_tokens" "seg_part o1 correct_tokens \<le> seg_part o1 predicted_tokens"
    "seg_part o1 correct_tokens \<le> so_gold_items o1"
    "0 \<le> tag_part o1" "tag_part o1 \<le> so_gold_items o1"
    "0 \<le> dep_part o1 correct_labeled_arcs" "dep_part o1 correct_labeled_arcs \<le> dep_part o1 correct_heads"
    "dep_part o1 correct_heads \<le> so_gold_items o1"
    "0 \<le> tr_part o1 tr_correct_tokens" "tr_part o1 tr_correct_tokens \<le> so_gold_items o1" by blast+
qed

lemma sum_list_map_nonneg: "(\<And>x. x \<in> set xs \<Longrightarrow> 0 \<le> f x) \<Longrightarrow> 0 \<le> (\<Sum>x\<leftarrow>xs. f x :: int)"
  by (induction xs) auto

lemma valid_sum_nonneg:
  "\<forall>o1 \<in> set os. valid_outcome o1 \<Longrightarrow> (\<And>o1. valid_outcome o1 \<Longrightarrow> 0 \<le> f o1) \<Longrightarrow> 0 \<le> (\<Sum>o1\<leftarrow>os. f o1 :: int)"
  by (rule sum_list_map_nonneg) simp

lemma valid_sum_le:
  "\<forall>o1 \<in> set os. valid_outcome o1 \<Longrightarrow> (\<And>o1. valid_outcome o1 \<Longrightarrow> f o1 \<le> g o1) \<Longrightarrow>
    (\<Sum>o1\<leftarrow>os. f o1 :: int) \<le> (\<Sum>o1\<leftarrow>os. g o1)"
  by (rule sum_list_map_le) simp

text \<open>The sums behind the metrics, for outcomes that validated themselves.\<close>

lemma part_sums:
  assumes "\<forall>o1 \<in> set os. valid_outcome o1"
  shows "0 \<le> (\<Sum>o1\<leftarrow>os. seg_part o1 correct_tokens)"
    "(\<Sum>o1\<leftarrow>os. seg_part o1 correct_tokens) \<le> (\<Sum>o1\<leftarrow>os. seg_part o1 predicted_tokens)"
    "(\<Sum>o1\<leftarrow>os. seg_part o1 correct_tokens) \<le> gold_total os"
    "0 \<le> (\<Sum>o1\<leftarrow>os. tag_part o1)" "(\<Sum>o1\<leftarrow>os. tag_part o1) \<le> gold_total os"
    "0 \<le> (\<Sum>o1\<leftarrow>os. dep_part o1 correct_labeled_arcs)"
    "(\<Sum>o1\<leftarrow>os. dep_part o1 correct_labeled_arcs) \<le> (\<Sum>o1\<leftarrow>os. dep_part o1 correct_heads)"
    "(\<Sum>o1\<leftarrow>os. dep_part o1 correct_heads) \<le> gold_total os"
    "0 \<le> (\<Sum>o1\<leftarrow>os. tr_part o1 tr_correct_tokens)"
    "(\<Sum>o1\<leftarrow>os. tr_part o1 tr_correct_tokens) \<le> gold_total os"
    "0 \<le> (\<Sum>o1\<leftarrow>os. tr_part o1 (\<lambda>s. of_bool (sentence_exact_match s)))"
    "(\<Sum>o1\<leftarrow>os. tr_part o1 (\<lambda>s. of_bool (sentence_exact_match s))) \<le> int (length os)"
proof -
  note v = valid_outcome_parts and n = valid_sum_nonneg [OF assms] and l = valid_sum_le [OF assms]
  show "0 \<le> (\<Sum>o1\<leftarrow>os. seg_part o1 correct_tokens)" by (rule n [OF v(3)])
  show "(\<Sum>o1\<leftarrow>os. seg_part o1 correct_tokens) \<le> (\<Sum>o1\<leftarrow>os. seg_part o1 predicted_tokens)"
    by (rule l [OF v(4)])
  show "(\<Sum>o1\<leftarrow>os. seg_part o1 correct_tokens) \<le> gold_total os" unfolding gold_total_def by (rule l [OF v(5)])
  show "0 \<le> (\<Sum>o1\<leftarrow>os. tag_part o1)" by (rule n [OF v(6)])
  show "(\<Sum>o1\<leftarrow>os. tag_part o1) \<le> gold_total os" unfolding gold_total_def by (rule l [OF v(7)])
  show "0 \<le> (\<Sum>o1\<leftarrow>os. dep_part o1 correct_labeled_arcs)" by (rule n [OF v(8)])
  show "(\<Sum>o1\<leftarrow>os. dep_part o1 correct_labeled_arcs) \<le> (\<Sum>o1\<leftarrow>os. dep_part o1 correct_heads)"
    by (rule l [OF v(9)])
  show "(\<Sum>o1\<leftarrow>os. dep_part o1 correct_heads) \<le> gold_total os" unfolding gold_total_def by (rule l [OF v(10)])
  show "0 \<le> (\<Sum>o1\<leftarrow>os. tr_part o1 tr_correct_tokens)" by (rule n [OF v(11)])
  show "(\<Sum>o1\<leftarrow>os. tr_part o1 tr_correct_tokens) \<le> gold_total os" unfolding gold_total_def by (rule l [OF v(12)])
  show "0 \<le> (\<Sum>o1\<leftarrow>os. tr_part o1 (\<lambda>s. of_bool (sentence_exact_match s)))"
    by (rule sum_list_map_nonneg) (auto split: option.splits score_result.splits)
  have "(\<Sum>o1\<leftarrow>os. tr_part o1 (\<lambda>s. of_bool (sentence_exact_match s))) \<le> (\<Sum>o1\<leftarrow>os. 1 :: int)"
    by (rule sum_list_map_le) (auto split: option.splits score_result.splits)
  then show "(\<Sum>o1\<leftarrow>os. tr_part o1 (\<lambda>s. of_bool (sentence_exact_match s))) \<le> int (length os)"
    by (simp add: sum_list_triv)
qed

lemma unit_metrics:
  assumes "\<forall>o1 \<in> set os. valid_outcome o1"
  shows "\<forall>(k, v) \<in> set (aggregate_metrics t os). 0 \<le> v \<and> v \<le> 1"
proof -
  note s = part_sums [OF assms]
  have h: "(\<Sum>o1\<leftarrow>os. dep_part o1 correct_labeled_arcs) \<le> gold_total os"
    "0 \<le> (\<Sum>o1\<leftarrow>os. dep_part o1 correct_heads)" using s(6-8) by linarith+
  show ?thesis
    using safe_ratio_unit [OF s(1,2)] safe_ratio_unit [OF s(1,3)] harmonic_ratio_unit [OF s(1-3)]
      safe_ratio_unit [OF s(4,5)] safe_ratio_unit [OF s(6) h(1)] safe_ratio_unit [OF h(2) s(8)]
      safe_ratio_unit [OF s(9,10)] safe_ratio_unit [OF s(11,12)]
    by (cases t) (simp_all add: aggregate_segmentation_def aggregate_tagging_def aggregate_dependency_def
        aggregate_transliteration_def Let_def)
qed

lemma metric_names: "fst ` set (aggregate_metrics t os) = declared_metrics t"
  by (cases t) (auto simp: aggregate_segmentation_def aggregate_tagging_def aggregate_dependency_def
      aggregate_transliteration_def Let_def declared_metrics_def)

section \<open>Error counts\<close>

definition counter_get :: "(pystr \<times> int) list \<Rightarrow> pystr \<Rightarrow> int" where
  "counter_get m k = (case map_of m k of None \<Rightarrow> 0 | Some n \<Rightarrow> n)"

lemma counter_add_lookup:
  "map_of (counter_add m ks) k =
     (if k \<in> set ks then Some (counter_get m k + int (count_list ks k)) else map_of m k)"
  by (induction m ks rule: counter_add.induct) (auto simp: counter_get_def count_list_0_iff split: option.splits)

lemma counter_add_distinct: "distinct (map fst m) \<Longrightarrow> distinct (map fst (counter_add m ks))"
  by (induction m ks rule: counter_add.induct) (simp_all add: distinct_dict_set)

lemma counter_add_keys: "fst ` set (counter_add m ks) = fst ` set m \<union> set ks"
  by (induction m ks rule: counter_add.induct) auto

lemma sum_dict_set:
  "distinct (map fst m) \<Longrightarrow> (\<Sum>(_, n)\<leftarrow>dict_set k (counter_get m k + 1) m. n) = (\<Sum>(_, n)\<leftarrow>m. n) + (1 :: int)"
proof (induction m)
  case (Cons x m)
  obtain k' v' where x: "x = (k', v')" by (cases x)
  show ?case
  proof (cases "k = k'")
    case True
    then show ?thesis by (simp add: x counter_get_def)
  next
    case False
    then have "counter_get (x # m) k = counter_get m k" by (simp add: x counter_get_def)
    then show ?thesis using Cons False by (simp add: x)
  qed
qed (simp add: counter_get_def)

lemma counter_add_sum:
  "distinct (map fst m) \<Longrightarrow> (\<Sum>(_, n)\<leftarrow>counter_add m ks. n) = (\<Sum>(_, n)\<leftarrow>m. n) + int (length ks)"
proof (induction m ks rule: counter_add.induct)
  case (2 m k ks)
  then show ?case
    using sum_dict_set [OF "2.prems", of k] by (simp add: distinct_dict_set counter_get_def)
qed simp

lemma sum_list_sort_key: "(\<Sum>x\<leftarrow>sort_key f xs. g x) = (\<Sum>x\<leftarrow>xs. g x :: int)"
  by (metis mset_map mset_sort sum_mset_sum_list)

definition error_list :: "sample_outcome list \<Rightarrow> pystr list" where
  "error_list os = concat (map (\<lambda>o1. case so_error_code o1 of None \<Rightarrow> [] | Some c \<Rightarrow> [error_value c]) os)"

lemma error_counts_eq: "error_counts os = sort_key fst (counter_add [] (error_list os))"
  by (simp add: error_counts_def error_list_def)

lemma error_list_values: "k \<in> set (error_list os) \<Longrightarrow> k \<noteq> []"
proof -
  have "error_value c \<noteq> []" for c by (cases c) simp_all
  then show "k \<in> set (error_list os) \<Longrightarrow> k \<noteq> []" by (auto simp: error_list_def split: option.splits)
qed

lemma length_error_list:
  "length (error_list os) = length (filter (\<lambda>o1. so_error_code o1 \<noteq> None) os)"
  by (induction os) (auto simp: error_list_def split: option.splits)

lemma error_counts_sound:
  "(\<Sum>(_, n)\<leftarrow>error_counts os. n) = int (length (filter (\<lambda>o1. so_error_code o1 \<noteq> None) os))"
  "(k, n) \<in> set (error_counts os) \<Longrightarrow> k \<noteq> [] \<and> 0 < n"
proof -
  show "(\<Sum>(_, n)\<leftarrow>error_counts os. n) = int (length (filter (\<lambda>o1. so_error_code o1 \<noteq> None) os))"
    by (simp add: error_counts_eq sum_list_sort_key counter_add_sum length_error_list)
  assume "(k, n) \<in> set (error_counts os)"
  then have kn: "(k, n) \<in> set (counter_add [] (error_list os))" by (simp add: error_counts_eq)
  then have "map_of (counter_add [] (error_list os)) k = Some n"
    by (simp add: counter_add_distinct)
  moreover have "k \<in> set (error_list os)"
    using kn counter_add_keys [of "[]" "error_list os"] by force
  ultimately show "k \<noteq> [] \<and> 0 < n"
    using error_list_values [of k os] count_list_0_iff [of "error_list os" k]
    by (auto simp: counter_add_lookup counter_get_def)
qed

lemma sort_key_fst_unique:
  fixes xs ys :: "(pystr \<times> 'v) list"
  assumes "set xs = set ys" "distinct (map fst xs)" "distinct (map fst ys)"
  shows "sort_key fst xs = sort_key fst ys"
proof -
  have d: "distinct (map fst (sort_key fst zs))" if "distinct (map fst zs)" for zs :: "(pystr \<times> 'v) list"
    using that by (metis mset_eq_imp_distinct_iff mset_map mset_sort)
  have i: "inj_on fst (set (sort_key fst xs) \<union> set (sort_key fst ys))"
    using assms(1,2) by (simp add: distinct_map)
  show ?thesis
    by (rule map_sorted_distinct_set_unique [OF i sorted_sort_key d [OF assms(2)] sorted_sort_key d [OF assms(3)]])
      (simp add: assms(1))
qed

lemma mset_concat_map:
  assumes "mset os = mset os'" shows "mset (concat (map f os)) = mset (concat (map f os'))"
proof -
  have "mset (concat (map f xs)) = (\<Sum>x\<in>#mset xs. mset (f x))" for xs
    by (induction xs) auto
  then show ?thesis using assms by simp
qed

lemma error_counts_mset:
  assumes "mset os = mset os'" shows "error_counts os = error_counts os'"
proof -
  have m: "mset (error_list os) = mset (error_list os')"
    unfolding error_list_def by (rule mset_concat_map [OF assms])
  have c: "count_list (error_list os) k = count_list (error_list os') k" for k
    using m by (metis count_mset)
  have "map_of (counter_add [] (error_list os)) = map_of (counter_add [] (error_list os'))"
    using c mset_eq_setD [OF m] by (simp add: counter_add_lookup fun_eq_iff)
  then have "set (counter_add [] (error_list os)) = set (counter_add [] (error_list os'))"
    by (simp add: map_of_inject_set [symmetric] counter_add_distinct)
  then show ?thesis
    unfolding error_counts_eq by (rule sort_key_fst_unique) (simp_all add: counter_add_distinct)
qed

section \<open>Properties\<close>

text \<open>The outcomes cover the manifest of the challenge.\<close>

definition covers :: "challenge_artifacts \<Rightarrow> sample_outcome list \<Rightarrow> bool" where
  "covers a os \<longleftrightarrow>
     os \<noteq> [] \<and> distinct (map so_sample_id os) \<and>
     list_all (\<lambda>o1. task_value (so_task o1) = pc_task (ca_public a)) os \<and>
     so_sample_id ` set os = set (pm_sample_ids (ca_private a)) \<and>
     list_all (\<lambda>o1. expected_gold_items (ca_private a) (so_sample_id o1) = Some (so_gold_items o1)) os"

lemma validated_public_fields:
  assumes "validate_challenge_artifacts casefold sha a = Inr ()"
  shows "pc_challenge_id (ca_public a) \<noteq> [] \<and> is_sha256 (pc_dataset_sha256 (ca_public a)) \<and>
    is_sha256 (pc_selection_sha256 (ca_public a))"
proof -
  have "validate_public_challenge casefold (ca_public a) = Inr ()"
    using assms by (simp add: validate_challenge_artifacts_def Let_def rbind_Inr_iff)
  then obtain t cid where "make_challenge_id casefold (pc_language (ca_public a)) (pc_treebank (ca_public a)) t
        (pc_version (ca_public a)) = Inr cid" "pc_challenge_id (ca_public a) = cid"
      "is_sha256 (pc_dataset_sha256 (ca_public a))" "is_sha256 (pc_selection_sha256 (ca_public a))"
    unfolding validate_public_challenge_def rbind_Inr_iff ensure_Inr_iff by blast
  then show ?thesis
    by (auto simp: make_challenge_id_def rbind_Inr_iff)
qed

text \<open>The record the aggregation builds for outcomes of one task.\<close>

definition aggregate_record :: "challenge_artifacts \<Rightarrow> task_type \<Rightarrow> sample_outcome list \<Rightarrow> aggregate_result" where
  "aggregate_record a t os =
     (let valid = int (length (filter (\<lambda>o1. so_score o1 \<noteq> None) os)) in
      \<lparr>ar_challenge_id = pc_challenge_id (ca_public a), ar_task = t,
       ar_scorer_version = SCORER_VERSION, ar_aggregation_version = AGGREGATION_VERSION,
       ar_dataset_sha256 = pc_dataset_sha256 (ca_public a),
       ar_selection_sha256 = pc_selection_sha256 (ca_public a),
       ar_samples_total = int (length os), ar_samples_valid = valid,
       ar_samples_invalid = int (length os) - valid, ar_primary_metric = fst (TASK_METRICS t),
       ar_score = the (map_of (aggregate_metrics t os) (fst (TASK_METRICS t))),
       ar_metrics = aggregate_metrics t os, ar_errors = error_counts os\<rparr>)"

lemma length_filter_not: "int (length xs) - int (length (filter P xs)) = int (length (filter (\<lambda>x. \<not> P x) xs))"
  by (induction xs) auto

lemma aggregate_record_accepted:
  assumes "validate_challenge_artifacts casefold sha a = Inr ()" "\<forall>o1 \<in> set os. valid_outcome o1" "os \<noteq> []"
  shows "ChallengeAggregateResult (aggregate_record a t os) = Inr (aggregate_record a t os)"
proof -
  have err: "so_score o1 = None \<longleftrightarrow> so_error_code o1 \<noteq> None" if "o1 \<in> set os" for o1
    using valid_outcome_parts(13) [OF assms(2) [rule_format, OF that]] by auto
  have "filter (\<lambda>o1. \<not> so_score o1 \<noteq> None) os = filter (\<lambda>o1. so_error_code o1 \<noteq> None) os"
    using err by (intro filter_cong) auto
  then have counts: "int (length os) - int (length (filter (\<lambda>o1. so_score o1 \<noteq> None) os)) =
      (\<Sum>(_, n)\<leftarrow>error_counts os. n)"
    unfolding length_filter_not error_counts_sound(1) by simp
  have "length (filter (\<lambda>o1. so_score o1 \<noteq> None) os) \<le> length os" by simp
  then have nn: "0 \<le> int (length os) - int (length (filter (\<lambda>o1. so_score o1 \<noteq> None) os))" by linarith
  have metrics: "rmapM (\<lambda>(_, v). require_metric (Fin v) v) (aggregate_metrics t os) = Inr (map (\<lambda>_. ()) (aggregate_metrics t os))"
    using unit_metrics [OF assms(2), of t] by (intro rmapM_all_Inr) (auto simp: require_metric_exact)
  have errors: "rmapM (\<lambda>(c, n). rbind (ensure (c \<noteq> []) (Exc ValueError ''error codes must be non-empty strings''))
      (\<lambda>_. ensure (0 < n) (Exc ValueError ''error counts must be positive integers''))) (error_counts os) =
      Inr (map (\<lambda>_. ()) (error_counts os))"
    by (intro rmapM_all_Inr) (auto dest: error_counts_sound(2))
  have "fst (TASK_METRICS t) \<in> fst ` set (aggregate_metrics t os)" by (simp add: metric_names declared_metrics_def)
  then obtain v where v: "map_of (aggregate_metrics t os) (fst (TASK_METRICS t)) = Some v"
    by (metis domD dom_map_of_conv_image_fst)
  then have "0 \<le> v \<and> v \<le> 1" using unit_metrics [OF assms(2), of t] map_of_SomeD [OF v] by blast
  then have score: "require_metric (Fin v) v = Inr ()" by (simp add: require_metric_exact)
  show ?thesis
    using validated_public_fields [OF assms(1)] assms(3)
    by (simp add: ChallengeAggregateResult_def aggregate_record_def Let_def counts [symmetric] nn
        metrics errors v score metric_names require_nonnegative_int_def)
qed

lemma aggregate_challenge_Inr:
  assumes "validate_challenge_artifacts casefold sha a = Inr ()" "\<forall>o1 \<in> set os. valid_outcome o1"
  shows "aggregate_challenge casefold sha a os = Inr r \<longleftrightarrow>
    covers a os \<and> r = aggregate_record a (so_task (hd os)) os"
proof -
  obtain t where t: "pc_task (ca_public a) = task_value t"
    using validated_artifacts_ok [OF assms(1)] by (auto simp: artifacts_ok_def)
  have hd: "os \<noteq> [] \<Longrightarrow> list_all (\<lambda>o1. so_task o1 = t) os \<Longrightarrow> so_task (hd os) = t"
    by (cases os) auto
  show ?thesis
    using aggregate_record_accepted [OF assms, of t] hd
    by (auto simp: aggregate_challenge_def assms(1) rbind_Inr_iff covers_def t metric_names Let_def
        aggregate_record_def)
qed

text \<open>Aggregation is total on complete evaluations and rejects every other one: for validated
  artifacts and outcomes that validated themselves, it returns a result exactly when the outcomes
  are for the challenge's task, cover the manifest's samples once each and use its trusted gold
  counts.\<close>

theorem aggregation_succeeds_exactly:
  assumes "validate_challenge_artifacts casefold sha a = Inr ()" "list_all valid_outcome os"
  shows "(\<exists>r. aggregate_challenge casefold sha a os = Inr r) \<longleftrightarrow> covers a os"
  using aggregate_challenge_Inr [OF assms(1)] assms(2) by (auto simp: list_all_iff)

definition demo_outcomes :: "sample_outcome list" where
  "demo_outcomes =
     [\<lparr>so_sample_id = u ''s1'', so_task = XPOS, so_gold_items = 1, so_score = None,
       so_error_code = Some INVALID_JSON\<rparr>,
      \<lparr>so_sample_id = u ''s2'', so_task = XPOS, so_gold_items = 2,
       so_score = Some (TaggingScore \<lparr>accuracy = Fin (1 / 2), correct_tags = 1, total_tags = 2, tg_valid_length = True\<rparr>),
       so_error_code = None\<rparr>]"

lemma half_exact: "safe_ratio 1 2 = 1 / 2"
proof -
  have "fl (of_int 1 * 2 powi (- 1)) = of_int 1 * 2 powi (- 1)" by (rule fl_exact) auto
  then show ?thesis by (simp add: safe_ratio_def power_int_minus)
qed

lemma demo_outcomes_ok: "list_all valid_outcome demo_outcomes" "covers demo_artifacts demo_outcomes"
proof -
  show "list_all valid_outcome demo_outcomes"
    by (simp add: demo_outcomes_def valid_outcome_def SampleEvaluationOutcome_def require_nonnegative_int_def
        half_exact require_metric_exact)
  show "covers demo_artifacts demo_outcomes"
    by (simp add: covers_def demo_outcomes_def demo_artifacts pm_sample_ids_def expected_gold_items_def insert_commute)
qed

theorem aggregation_succeeds_exactly_witness:
  "\<exists>r. aggregate_challenge (\<lambda>s. s) demo_sha demo_artifacts demo_outcomes = Inr r"
  using aggregation_succeeds_exactly [OF demo_artifacts(8) demo_outcomes_ok(1)] demo_outcomes_ok(2) by blast

text \<open>An aggregate result is sound: every sample of the manifest is counted once, the valid and the
  malformed ones add up, the error counts add up to the malformed ones, every metric is between 0
  and 1, the score is the task's primary metric, and LAS never exceeds UAS.\<close>

theorem aggregate_result_sound:
  assumes "aggregate_challenge casefold sha a os = Inr r" "list_all valid_outcome os"
  shows "ar_samples_total r = int (length (pm_samples (ca_private a))) \<and>
    ar_samples_total r = ar_samples_valid r + ar_samples_invalid r \<and>
    (\<Sum>(_, n)\<leftarrow>ar_errors r. n) = ar_samples_invalid r \<and>
    ar_samples_invalid r = int (length (filter (\<lambda>o1. so_error_code o1 \<noteq> None) os)) \<and>
    list_all (\<lambda>(_, v). 0 \<le> v \<and> v \<le> 1) (ar_metrics r) \<and>
    map_of (ar_metrics r) (fst (TASK_METRICS (ar_task r))) = Some (ar_score r) \<and>
    (\<forall>l h. map_of (ar_metrics r) (u ''las'') = Some l \<and> map_of (ar_metrics r) (u ''uas'') = Some h \<longrightarrow> l \<le> h)"
proof -
  have v: "validate_challenge_artifacts casefold sha a = Inr ()" and os: "\<forall>o1 \<in> set os. valid_outcome o1"
    using assms by (auto simp: aggregate_challenge_def rbind_Inr_iff list_all_iff)
  define t where "t = so_task (hd os)"
  from assms(1) aggregate_challenge_Inr [OF v os] have c: "covers a os" and r: "r = aggregate_record a t os"
    by (auto simp: t_def)
  have "length os = card (so_sample_id ` set os)"
    using c distinct_card [of "map so_sample_id os"] by (simp add: covers_def)
  also have "\<dots> = card (set (pm_sample_ids (ca_private a)))" using c by (simp add: covers_def)
  also have "\<dots> = length (pm_samples (ca_private a))"
    using validated_artifacts_ok [OF v] distinct_card [of "pm_sample_ids (ca_private a)"]
    by (simp add: artifacts_ok_def pm_sample_ids_def)
  finally have len: "length os = length (pm_samples (ca_private a))" .
  have acc: "ChallengeAggregateResult r = Inr r"
    using aggregate_record_accepted [OF v os, of t] c r by (simp add: covers_def)
  then have sums: "(\<Sum>(_, n)\<leftarrow>ar_errors r. n) = ar_samples_invalid r"
    by (simp add: ChallengeAggregateResult_def rbind_Inr_iff)
  have "fst (TASK_METRICS t) \<in> fst ` set (aggregate_metrics t os)" by (simp add: metric_names declared_metrics_def)
  then have primary: "map_of (ar_metrics r) (fst (TASK_METRICS (ar_task r))) = Some (ar_score r)"
    by (auto simp: r aggregate_record_def Let_def dest!: weak_map_of_SomeI split: prod.splits)
  have "safe_ratio (\<Sum>o1\<leftarrow>os. dep_part o1 correct_labeled_arcs) (gold_total os) \<le>
      safe_ratio (\<Sum>o1\<leftarrow>os. dep_part o1 correct_heads) (gold_total os)"
    using part_sums [OF os] by (intro safe_ratio_mono) auto
  then have las: "\<forall>l h. map_of (aggregate_metrics t os) (u ''las'') = Some l \<and>
      map_of (aggregate_metrics t os) (u ''uas'') = Some h \<longrightarrow> l \<le> h"
    by (cases t) (auto simp: aggregate_segmentation_def aggregate_tagging_def aggregate_dependency_def
        aggregate_transliteration_def Let_def)
  show ?thesis
    using len sums primary las unit_metrics [OF os, of t] error_counts_sound(1) [of os]
    by (auto simp: r aggregate_record_def Let_def list_all_iff)
qed

theorem aggregate_result_sound_witness:
  "\<exists>r. aggregate_challenge (\<lambda>s. s) demo_sha demo_artifacts demo_outcomes = Inr r \<and>
     ar_samples_total r = 2 \<and> ar_samples_invalid r = 1"
proof -
  from aggregate_challenge_Inr [OF demo_artifacts(8)] demo_outcomes_ok
  obtain r where r: "aggregate_challenge (\<lambda>s. s) demo_sha demo_artifacts demo_outcomes = Inr r"
    by (auto simp: list_all_iff)
  from aggregate_result_sound [OF r demo_outcomes_ok(1)] r show ?thesis
    by (auto simp: demo_artifacts demo_outcomes_def)
qed

text \<open>The order in which the samples were evaluated does not matter to the aggregate result, nor to
  whether there is one.\<close>

theorem aggregation_order_free:
  assumes "mset os = mset os'" "list_all valid_outcome os"
  shows "aggregate_challenge casefold sha a os = Inr r \<longleftrightarrow> aggregate_challenge casefold sha a os' = Inr r"
proof (cases "validate_challenge_artifacts casefold sha a = Inr ()")
  case True
  have set: "set os' = set os" and len: "length os' = length os"
    using assms(1) by (metis set_mset_mset, metis size_mset)
  have os: "\<forall>o1 \<in> set os. valid_outcome o1" and os': "\<forall>o1 \<in> set os'. valid_outcome o1"
    using assms(2) set by (auto simp: list_all_iff)
  have "mset (map so_sample_id os) = mset (map so_sample_id os')" using assms(1) by simp
  then have "distinct (map so_sample_id os) \<longleftrightarrow> distinct (map so_sample_id os')"
    by (rule mset_eq_imp_distinct_iff)
  then have cov: "covers a os \<longleftrightarrow> covers a os'"
    using set len by (auto simp: covers_def list_all_iff)
  have sums: "(\<Sum>o1\<leftarrow>os. f o1) = (\<Sum>o1\<leftarrow>os'. f o1)" for f :: "sample_outcome \<Rightarrow> int"
    using assms(1) by (metis mset_map sum_mset_sum_list)
  have metrics: "aggregate_metrics t os = aggregate_metrics t os'" for t
    using sums len by (cases t) (simp_all add: aggregate_segmentation_def aggregate_tagging_def
        aggregate_dependency_def aggregate_transliteration_def gold_total_def)
  have filters: "length (filter P os) = length (filter P os')" for P
    using assms(1) by (rule length_filter_mset)
  have rec: "aggregate_record a t os = aggregate_record a t os'" for t
    using metrics len filters error_counts_mset [OF assms(1)] by (simp add: aggregate_record_def)
  have hds: "covers a os \<Longrightarrow> so_task (hd os) = so_task (hd os')"
    using cov set by (cases os; cases os') (auto simp: covers_def list_all_iff, metis task_value_inj)
  show ?thesis
    using aggregate_challenge_Inr [OF True os] aggregate_challenge_Inr [OF True os'] cov rec hds by metis
qed (auto simp: aggregate_challenge_def rbind_Inr_iff)

theorem aggregation_order_free_witness:
  "\<exists>r. aggregate_challenge (\<lambda>s. s) demo_sha demo_artifacts (rev demo_outcomes) = Inr r"
proof -
  from aggregate_challenge_Inr [OF demo_artifacts(8)] demo_outcomes_ok
  obtain r where r: "aggregate_challenge (\<lambda>s. s) demo_sha demo_artifacts demo_outcomes = Inr r"
    by (auto simp: list_all_iff)
  from aggregation_order_free [of demo_outcomes "rev demo_outcomes"] r demo_outcomes_ok(1) show ?thesis by auto
qed

end
