(* ===== verification/Runner.thy ===== *)
theory Runner
  imports Aggregation "HOL-Library.Sublist"
begin

text \<open>
  The evaluation of a challenge, \<open>src/linguistic_oj/runner.py\<close>: scoring one raw response, preparing
  the samples, the job deadline, the run diagnostics and the loop over the provider.  The provider,
  the clocks and the request preflight act on a world \<open>'w\<close> and are arguments, in the record
  \<open>effects\<close>; the pure parameters of the components below are the record \<open>platform\<close>.
\<close>

record platform =
  pl_casefold :: "pystr \<Rightarrow> pystr"
  pl_sha :: "pystr \<Rightarrow> pystr"
  pl_accept :: sample_validator
  pl_depth :: nat
  pl_nfc :: "pystr \<Rightarrow> pystr"
  pl_validate :: validator

section \<open>Scoring one response\<close>

definition require_gold_list :: "dataset_sample \<Rightarrow> task_type \<Rightarrow> json list result" where
  "require_gold_list sample t =
     (case map_of (answers sample) (task_value t) of
        Some (JArr gold) \<Rightarrow> Inr gold
      | _ \<Rightarrow> raise RunnerInvariantError ''gold data is not a list'')"

text \<open>The arc of a validated gold entry; a malformed entry, which validation excludes, raises.\<close>

fun gold_dependency_arc :: "json \<Rightarrow> dependency_arc result" where
  "gold_dependency_arc (JArr (JInt tid # _ # JInt hid # _ # JStr rel # _)) =
     Inr \<lparr>arc_token = tid, arc_head = hid, arc_rel = rel\<rparr>"
| "gold_dependency_arc _ = raise TypeError ''malformed gold arc''"

definition predicted_arc :: "arc_response \<Rightarrow> dependency_arc" where
  "predicted_arc a = \<lparr>arc_token = token_id a, arc_head = head_id a, arc_rel = deprel a\<rparr>"

definition score_parsed_response :: "(pystr \<Rightarrow> pystr) \<Rightarrow> dataset_sample \<Rightarrow> task_type \<Rightarrow> model_response
    \<Rightarrow> score_result result" where
  "score_parsed_response nfc sample t v =
     rbind (require_gold_list sample t) (\<lambda>gold.
       if t = SEGMENTATION then
         (case v of
            SegmentationResponse ts \<Rightarrow> map_sum id SegmentationScore (score_segmentation gold (map JStr ts))
          | _ \<Rightarrow> raise RunnerInvariantError ''segmentation parser returned the wrong response type'')
       else if t \<in> {UPOS, XPOS} then
         (case v of
            TaggingResponse ts \<Rightarrow> map_sum id TaggingScore (score_tags gold (map JStr ts))
          | _ \<Rightarrow> raise RunnerInvariantError ''tagging parser returned the wrong response type'')
       else if t = DEPENDENCY then
         (case v of
            DependencyResponse as \<Rightarrow>
              rbind (rmapM gold_dependency_arc gold) (\<lambda>gold_arcs.
                map_sum id DependencyScore (score_dependencies gold_arcs (map predicted_arc as)))
          | _ \<Rightarrow> raise RunnerInvariantError ''dependency parser returned the wrong response type'')
       else
         (case v of
            TransliterationResponse ts \<Rightarrow>
              map_sum id TransliterationScore (score_transliteration nfc gold (map JStr ts))
          | _ \<Rightarrow> raise RunnerInvariantError ''transliteration parser returned the wrong response type''))"

text \<open>\<open>except (TypeError, ValueError)\<close> around the canonicalisation.\<close>

definition recast_input_error :: "'a result \<Rightarrow> 'a result" where
  "recast_input_error r =
     (case r of
        Inl e \<Rightarrow> if catches TypeError e \<or> catches ValueError e
                then raise EvaluationPreflightError ''model input does not match the challenge task''
                else Inl e
      | Inr x \<Rightarrow> Inr x)"

definition evaluate_raw_response :: "platform \<Rightarrow> dataset_sample \<Rightarrow> manifest_sample \<Rightarrow> task_type
    \<Rightarrow> safe_model_input \<Rightarrow> pystr dyn \<Rightarrow> sample_outcome result" where
  "evaluate_raw_response P sample manifest t model_input raw_response =
     rbind (ensure (raw_response \<noteq> NotInstance)
       (Exc ProviderContractError ''provider raw response must be a string'')) (\<lambda>_.
     rbind (ensure (sid sample = ms_sample_id manifest)
       (Exc EvaluationPreflightError ''dataset sample does not match the manifest sample'')) (\<lambda>_.
     rbind (recast_input_error (canonicalize_model_input (task_value t) model_input)) (\<lambda>canonical.
     rbind (validated_gold_item_count sample t) (\<lambda>gold_items.
     rbind (ensure (int gold_items = ms_gold_items manifest)
       (Exc EvaluationPreflightError ''gold denominator does not match the manifest'')) (\<lambda>_.
     rbind (response_expectations (task_value t) canonical) (\<lambda>(expected_count, expected_token_ids).
     rbind (parse_model_response (pl_validate P) (pl_depth P) (task_value t) raw_response
              expected_count expected_token_ids) (\<lambda>parsed.
       (case parsed_error parsed of
          Some err \<Rightarrow>
            if code err = UNKNOWN_TASK
            then raise RunnerInvariantError ''known task was rejected by the response parser''
            else malformed (sid sample) t (ms_gold_items manifest) (code err)
        | None \<Rightarrow>
            (case parsed_value parsed of
               None \<Rightarrow> raise RunnerInvariantError ''response parser returned an inconsistent success result''
             | Some v \<Rightarrow>
                 if parsed_task parsed \<noteq> Some t
                 then raise RunnerInvariantError ''response parser returned an inconsistent success result''
                 else rbind (score_parsed_response (pl_nfc P) sample t v) (scored (sid sample) t))))))))))"

section \<open>Preparing the samples\<close>

record prepared_sample =
  ps_manifest :: manifest_sample
  ps_sample :: dataset_sample
  ps_input :: safe_model_input

definition prepare_one :: "challenge_artifacts \<Rightarrow> task_type \<Rightarrow> manifest_sample \<Rightarrow> dataset_sample
    \<Rightarrow> prepared_sample result" where
  "prepare_one a t m s =
     rbind (ensure (sid s = ms_sample_id m)
       (Exc EvaluationPreflightError ''dataset sample order does not match the manifest'')) (\<lambda>_.
     rbind (ensure (language s = pc_language (ca_public a))
       (Exc EvaluationPreflightError ''language does not match the challenge'')) (\<lambda>_.
     rbind (ensure (treebank s = pc_treebank (ca_public a))
       (Exc EvaluationPreflightError ''treebank does not match the challenge'')) (\<lambda>_.
     rbind (ensure (task_value t \<in> set (tasks_available s))
       (Exc EvaluationPreflightError ''does not declare the task'')) (\<lambda>_.
     rbind (validated_gold_item_count s t) (\<lambda>gold_items.
     rbind (ensure (int gold_items = ms_gold_items m)
       (Exc EvaluationPreflightError ''gold denominator does not match the manifest'')) (\<lambda>_.
     rbind (build_model_input s (task_value t)) (\<lambda>i.
       Inr \<lparr>ps_manifest = m, ps_sample = s, ps_input = i\<rparr>)))))))"

text \<open>\<open>zip(..., strict=True)\<close>: the length mismatch is found after the common part.\<close>

fun prepare_zip :: "challenge_artifacts \<Rightarrow> task_type \<Rightarrow> manifest_sample list \<Rightarrow> dataset_sample list
    \<Rightarrow> prepared_sample list result" where
  "prepare_zip a t [] [] = Inr []"
| "prepare_zip a t (m # ms) (s # ss) =
     rbind (prepare_one a t m s) (\<lambda>p. rbind (prepare_zip a t ms ss) (\<lambda>ps. Inr (p # ps)))"
| "prepare_zip a t _ _ = raise ValueError ''zip() argument lengths differ''"

text \<open>\<open>cached\<close> is the loader of the selection cache, when there is one.\<close>

definition prepare_samples :: "platform \<Rightarrow> (challenge_artifacts \<Rightarrow> dataset_sample list result) option
    \<Rightarrow> challenge_artifacts \<Rightarrow> prepared_sample list result" where
  "prepare_samples P cached a =
     rbind (case cached of
              None \<Rightarrow> rbind (validate_challenge_artifacts (pl_casefold P) (pl_sha P) a) (\<lambda>_.
                load_dataset_samples_by_id (pl_accept P) (pl_depth P) (ca_dataset a)
                  (pm_sample_ids (ca_private a)) None)
            | Some load \<Rightarrow> load a) (\<lambda>samples.
     rbind (TaskType (pc_task (ca_public a))) (\<lambda>t.
       prepare_zip a t (pm_samples (ca_private a)) samples))"

section \<open>Generations and diagnostics\<close>

record model_generation =
  raw_text :: pystr
  generated_token_count :: "nat option"
  finish_reason :: "pystr option"

record run_diagnostics =
  rd_request_count :: nat
  rd_latency_total :: rat
  rd_latency_min :: "rat option"
  rd_latency_max :: "rat option"
  rd_tokens_observed :: nat
  rd_tokens_missing :: nat
  rd_tokens_total :: nat
  rd_tokens_max :: "nat option"
  rd_bytes_total :: nat
  rd_bytes_min :: "nat option"
  rd_bytes_max :: "nat option"
  rd_finish_reasons :: "(pystr \<times> int) list"
  rd_parse_errors :: "(pystr \<times> int) list"
  rd_execution_seconds :: "rat option"

definition ChallengeRunDiagnostics :: run_diagnostics where
  "ChallengeRunDiagnostics =
     \<lparr>rd_request_count = 0, rd_latency_total = 0, rd_latency_min = None, rd_latency_max = None,
      rd_tokens_observed = 0, rd_tokens_missing = 0, rd_tokens_total = 0, rd_tokens_max = None,
      rd_bytes_total = 0, rd_bytes_min = None, rd_bytes_max = None, rd_finish_reasons = [],
      rd_parse_errors = [], rd_execution_seconds = None\<rparr>"

fun utf8_length :: "pystr \<Rightarrow> nat result" where
  "utf8_length [] = Inr 0"
| "utf8_length (c # cs) =
     (if is_surrogate c then raise UnicodeError ''surrogates not allowed''
      else rbind (utf8_length cs) (\<lambda>n.
        Inr ((if c < 128 then 1 else if c < 2048 then 2 else if c < 65536 then 3 else 4) + n)))"

definition opt_min :: "'a::linorder option \<Rightarrow> 'a \<Rightarrow> 'a option" where
  "opt_min old x = Some (case old of None \<Rightarrow> x | Some y \<Rightarrow> min y x)"

definition opt_max :: "'a::linorder option \<Rightarrow> 'a \<Rightarrow> 'a option" where
  "opt_max old x = Some (case old of None \<Rightarrow> x | Some y \<Rightarrow> max y x)"

fun nonnegative_seconds :: "pyfloat \<Rightarrow> bool" where
  "nonnegative_seconds (Fin q) = (0 \<le> q)"
| "nonnegative_seconds _ = False"

definition seconds_of :: "pyfloat \<Rightarrow> rat" where
  "seconds_of x = (case x of Fin q \<Rightarrow> q | _ \<Rightarrow> 0)"

text \<open>
  \<open>record\<close> mutates the counters; nothing is written before the last check that can raise.  A
  latency sum beyond the largest float is not reached by runs of bounded length.
\<close>

definition diagnostics_record :: "run_diagnostics \<Rightarrow> model_generation \<Rightarrow> sample_outcome \<Rightarrow> pyfloat
    \<Rightarrow> run_diagnostics result" where
  "diagnostics_record d g o1 latency =
     rbind (ensure (rd_execution_seconds d = None)
       (Exc RuntimeError ''cannot record diagnostics after run completion'')) (\<lambda>_.
     rbind (ensure (nonnegative_seconds latency)
       (Exc ValueError ''request_latency_seconds must be finite and non-negative'')) (\<lambda>_.
     rbind (utf8_length (raw_text g)) (\<lambda>n.
       (let d1 = d\<lparr>rd_request_count := rd_request_count d + 1,
                   rd_latency_total := fl (rd_latency_total d + seconds_of latency),
                   rd_latency_min := opt_min (rd_latency_min d) (seconds_of latency),
                   rd_latency_max := opt_max (rd_latency_max d) (seconds_of latency),
                   rd_bytes_total := rd_bytes_total d + n,
                   rd_bytes_min := opt_min (rd_bytes_min d) n,
                   rd_bytes_max := opt_max (rd_bytes_max d) n\<rparr>;
            d2 = (case generated_token_count g of
                    None \<Rightarrow> d1\<lparr>rd_tokens_missing := rd_tokens_missing d1 + 1\<rparr>
                  | Some k \<Rightarrow> d1\<lparr>rd_tokens_observed := rd_tokens_observed d1 + 1,
                                rd_tokens_total := rd_tokens_total d1 + k,
                                rd_tokens_max := opt_max (rd_tokens_max d1) k\<rparr>);
            reason = (case finish_reason g of Some r \<Rightarrow> if r = [] then u ''missing'' else r | None \<Rightarrow> u ''missing'');
            d3 = d2\<lparr>rd_finish_reasons := counter_add (rd_finish_reasons d2) [reason]\<rparr>
        in Inr (case so_error_code o1 of
             None \<Rightarrow> d3
           | Some c \<Rightarrow> d3\<lparr>rd_parse_errors := counter_add (rd_parse_errors d3) [error_value c]\<rparr>)))))"

definition diagnostics_complete :: "run_diagnostics \<Rightarrow> pyfloat \<Rightarrow> run_diagnostics result" where
  "diagnostics_complete d seconds =
     rbind (ensure (rd_execution_seconds d = None)
       (Exc RuntimeError ''run diagnostics are already complete'')) (\<lambda>_.
     rbind (ensure (nonnegative_seconds seconds)
       (Exc ValueError ''execution_seconds must be finite and non-negative'')) (\<lambda>_.
       Inr (d\<lparr>rd_execution_seconds := Some (seconds_of seconds)\<rparr>)))"

section \<open>Deadlines\<close>

text \<open>Instants are microseconds; \<open>total_seconds\<close> is one rounded division.\<close>

definition remaining_seconds :: "int \<Rightarrow> int \<Rightarrow> rat" where
  "remaining_seconds expires_at now =
     (let d = expires_at - now in if 0 \<le> d then fl (of_int d / 10 ^ 6) else - fl (of_int (- d) / 10 ^ 6))"

definition require_remaining :: "int \<Rightarrow> int \<Rightarrow> rat result" where
  "require_remaining expires_at now =
     (let r = remaining_seconds expires_at now in
      if r \<le> 0 then raise JobDeadlineExceeded ''evaluation job deadline expired'' else Inr r)"

section \<open>The run\<close>

record model_request =
  mr_task :: task_type
  mr_language :: pystr
  mr_treebank :: pystr
  mr_student_prompt :: pystr
  mr_model_input :: safe_model_input

definition ModelRequest :: "task_type \<Rightarrow> pystr \<Rightarrow> pystr \<Rightarrow> pystr \<Rightarrow> safe_model_input \<Rightarrow> model_request result" where
  "ModelRequest t lang bank prompt i =
     rbind (ensure (list_all (\<lambda>v. py_strip v \<noteq> []) [lang, bank, prompt])
       (Exc ValueError ''must be a non-empty string'')) (\<lambda>_.
     rbind (ensure (model_input_matches_task t i)
       (Exc TypeError ''received the wrong model input type'')) (\<lambda>_.
     rbind (canonicalize_model_input (task_value t) i) (\<lambda>canonical.
       Inr \<lparr>mr_task = t, mr_language = lang, mr_treebank = bank, mr_student_prompt = prompt,
            mr_model_input = canonical\<rparr>)))"

record 'w effects =
  ef_generate :: "model_request \<Rightarrow> rat option \<Rightarrow> 'w \<Rightarrow> model_generation dyn result \<times> 'w"
  ef_utc_now :: "'w \<Rightarrow> int \<times> 'w"
  ef_monotonic :: "'w \<Rightarrow> pyfloat \<times> 'w"
  ef_preflight :: "(model_request list \<Rightarrow> 'w \<Rightarrow> unit result \<times> 'w) option"

text \<open>A computation on the world that may raise: its state when it raises is part of the result.\<close>

type_synonym ('w, 'a) run = "'w \<Rightarrow> 'a result \<times> 'w"

definition run_bind :: "('w, 'a) run \<Rightarrow> ('a \<Rightarrow> ('w, 'b) run) \<Rightarrow> ('w, 'b) run" where
  "run_bind m f w = (case m w of (Inl e, w') \<Rightarrow> (Inl e, w') | (Inr x, w') \<Rightarrow> f x w')"

definition run_pure :: "'a result \<Rightarrow> ('w, 'a) run" where
  "run_pure r w = (r, w)"

definition check_deadline :: "'w effects \<Rightarrow> int option \<Rightarrow> ('w, rat option) run" where
  "check_deadline E deadline w =
     (case deadline of
        None \<Rightarrow> (Inr None, w)
      | Some expires_at \<Rightarrow>
          (case ef_utc_now E w of (now, w') \<Rightarrow>
             (map_sum id Some (require_remaining expires_at now), w')))"

definition py_minus :: "pyfloat \<Rightarrow> pyfloat \<Rightarrow> pyfloat" where
  "py_minus x y =
     (case (x, y) of
        (Fin a, Fin b) \<Rightarrow> Fin (if b \<le> a then fl (a - b) else - fl (b - a))
      | (PosInf, Fin _) \<Rightarrow> PosInf | (PosInf, NegInf) \<Rightarrow> PosInf
      | (NegInf, Fin _) \<Rightarrow> NegInf | (NegInf, PosInf) \<Rightarrow> NegInf
      | (Fin _, PosInf) \<Rightarrow> NegInf | (Fin _, NegInf) \<Rightarrow> PosInf
      | _ \<Rightarrow> NaN)"

definition timer :: "'w effects \<Rightarrow> run_diagnostics option \<Rightarrow> ('w, pyfloat option) run" where
  "timer E diagnostics w =
     (case diagnostics of
        None \<Rightarrow> (Inr None, w)
      | Some _ \<Rightarrow> (case ef_monotonic E w of (t, w') \<Rightarrow> (Inr (Some t), w')))"

definition run_sample :: "platform \<Rightarrow> 'w effects \<Rightarrow> task_type \<Rightarrow> int option \<Rightarrow> run_diagnostics option
    \<Rightarrow> prepared_sample \<Rightarrow> model_request \<Rightarrow> ('w, sample_outcome \<times> run_diagnostics option) run" where
  "run_sample P E t deadline diagnostics p request =
     run_bind (check_deadline E deadline) (\<lambda>timeout_seconds.
     run_bind (timer E diagnostics) (\<lambda>started.
     run_bind (ef_generate E request timeout_seconds) (\<lambda>generated.
     run_bind (timer E diagnostics) (\<lambda>finished.
       (case generated of
          NotInstance \<Rightarrow> run_pure (raise ProviderContractError ''provider must return ModelGeneration'')
        | Instance g \<Rightarrow>
            run_bind (check_deadline E deadline) (\<lambda>_.
            run_bind (run_pure (evaluate_raw_response P (ps_sample p) (ps_manifest p) t (ps_input p)
                        (Instance (raw_text g)))) (\<lambda>outcome.
              (case diagnostics of
                 None \<Rightarrow> run_pure (Inr (outcome, None))
               | Some d \<Rightarrow>
                   (case (started, finished) of
                      (Some t0, Some t1) \<Rightarrow>
                        run_pure (map_sum id (\<lambda>d'. (outcome, Some d'))
                          (diagnostics_record d g outcome (py_minus t1 t0)))
                    | _ \<Rightarrow> run_pure (raise RunnerInvariantError ''diagnostic timer was not initialized''))))))))))"

fun run_loop :: "platform \<Rightarrow> 'w effects \<Rightarrow> task_type \<Rightarrow> int option \<Rightarrow> run_diagnostics option
    \<Rightarrow> (prepared_sample \<times> model_request) list \<Rightarrow> ('w, sample_outcome list \<times> run_diagnostics option) run" where
  "run_loop P E t deadline diagnostics [] = run_pure (Inr ([], diagnostics))"
| "run_loop P E t deadline diagnostics ((p, request) # rest) =
     run_bind (run_sample P E t deadline diagnostics p request) (\<lambda>(outcome, diagnostics').
     run_bind (run_loop P E t deadline diagnostics' rest) (\<lambda>(outcomes, diagnostics'').
       run_pure (Inr (outcome # outcomes, diagnostics''))))"

definition run_challenge :: "platform \<Rightarrow> 'w effects \<Rightarrow> (challenge_artifacts \<Rightarrow> dataset_sample list result) option
    \<Rightarrow> challenge_artifacts \<Rightarrow> pystr \<Rightarrow> int option \<Rightarrow> run_diagnostics option
    \<Rightarrow> ('w, aggregate_result \<times> run_diagnostics option) run" where
  "run_challenge P E cached a student_prompt deadline diagnostics =
     run_bind (run_pure (ensure (py_strip student_prompt \<noteq> [])
       (Exc ValueError ''student_prompt must be a non-empty string''))) (\<lambda>_.
     run_bind (timer E diagnostics) (\<lambda>execution_started.
     run_bind (run_pure (prepare_samples P cached a)) (\<lambda>prepared.
     run_bind (run_pure (TaskType (pc_task (ca_public a)))) (\<lambda>t.
     run_bind (run_pure (rmapM (\<lambda>p. ModelRequest t (pc_language (ca_public a)) (pc_treebank (ca_public a))
         student_prompt (ps_input p)) prepared)) (\<lambda>requests.
     run_bind (case ef_preflight E of None \<Rightarrow> run_pure (Inr ()) | Some check \<Rightarrow> check requests) (\<lambda>_.
     run_bind (check_deadline E deadline) (\<lambda>_.
     run_bind (run_loop P E t deadline diagnostics (zip prepared requests)) (\<lambda>(outcomes, diagnostics').
     run_bind (run_pure (aggregate_challenge (pl_casefold P) (pl_sha P) a outcomes)) (\<lambda>aggregate.
       (case (diagnostics', execution_started) of
          (None, _) \<Rightarrow> run_pure (Inr (aggregate, None))
        | (Some d, None) \<Rightarrow> run_pure (raise RunnerInvariantError ''execution timer was not initialized'')
        | (Some d, Some t0) \<Rightarrow>
            run_bind (timer E diagnostics') (\<lambda>finished.
              run_pure (map_sum id (\<lambda>d'. (aggregate, Some d'))
                (diagnostics_complete d (py_minus (the finished) t0))))))))))))))"

section \<open>Scorer results are accepted\<close>

lemma segmentation_accepted:
  assumes "g \<noteq> []" "[] \<notin> set g" "[] \<notin> set p"
  shows "\<exists>s. score_segmentation (map JStr g) (map JStr p) = Inr s \<and> gold_tokens s = int (length g) \<and>
    validate_structural_score (SegmentationScore s) = Inr () \<and> validate_score_counts (SegmentationScore s) = Inr ()"
proof -
  let ?c = "if concat g = concat p then int (card (set (spans_from 0 g) \<inter> set (spans_from 0 p))) else 0"
  have c: "0 \<le> ?c" "?c \<le> int (length g)" "?c \<le> int (length p)"
    using common_spans_nonempty [of g p] by auto
  let ?pr = "safe_ratio ?c (int (length p))" and ?re = "safe_ratio ?c (int (length g))"
  let ?s = "\<lparr>precision = Fin ?pr, recall = Fin ?re, f1 = Fin (harmonic ?pr ?re), correct_tokens = ?c,
     predicted_tokens = int (length p), gold_tokens = int (length g),
     exact_match = (concat g = concat p \<and> g = p), valid_surface = (concat g = concat p)\<rparr>"
  have "score_segmentation (map JStr g) (map JStr p) = Inr ?s"
    using assms by (simp add: score_segmentation_def token_spans_def Let_def)
  moreover have "validate_score_counts (SegmentationScore ?s) = Inr ()"
    using safe_ratio_unit [OF c(1,3)] safe_ratio_unit [OF c(1,2)] harmonic_ratio_unit [OF c(1,3,2)] c
    by (simp add: require_nonnegative_int_def require_metric_exact Let_def del: of_nat_le_iff split del: if_split)
  moreover have "validate_structural_score (SegmentationScore ?s) = Inr ()" by simp
  ultimately show ?thesis by (intro exI [of _ ?s]) simp
qed

lemma tags_accepted:
  assumes "g \<noteq> []" "[] \<notin> set g" "[] \<notin> set p" "length p = length g"
  shows "\<exists>s. score_tags (map JStr g) (map JStr p) = Inr s \<and> total_tags s = int (length g) \<and>
    validate_structural_score (TaggingScore s) = Inr () \<and> validate_score_counts (TaggingScore s) = Inr ()"
proof -
  let ?c = "int (length (filter (\<lambda>(x, y). x = y) (zip g p)))"
  have c: "0 \<le> ?c" "?c \<le> int (length g)" using filter_zip_le [of "\<lambda>(x, y). x = y" g p] by simp_all
  let ?s = "\<lparr>accuracy = Fin (safe_ratio ?c (int (length g))), correct_tags = ?c,
    total_tags = int (length g), tg_valid_length = True\<rparr>"
  have "score_tags (map JStr g) (map JStr p) = Inr ?s"
    using assms by (simp add: score_tags_def Let_def)
  moreover have "validate_score_counts (TaggingScore ?s) = Inr ()"
    using safe_ratio_unit [OF c] c(2) by (simp add: require_nonnegative_int_def require_metric_exact)
  ultimately show ?thesis by (intro exI [of _ ?s]) simp
qed

lemma transliteration_accepted:
  assumes "g \<noteq> []" "[] \<notin> set g" "[] \<notin> set p" "length p = length g"
  shows "\<exists>s. score_transliteration nfc (map JStr g) (map JStr p) = Inr s \<and> total_tokens s = int (length g) \<and>
    validate_structural_score (TransliterationScore s) = Inr () \<and>
    validate_score_counts (TransliterationScore s) = Inr ()"
proof -
  let ?m = "map (\<lambda>(x, y). nfc x = nfc y) (zip g p)"
  let ?c = "int (length (filter id ?m))"
  have c: "0 \<le> ?c" "?c \<le> int (length g)" using length_filter_le [of id ?m] assms(4) by simp_all
  have all: "list_all id bs \<longleftrightarrow> length (filter id bs) = length bs" for bs
    by (induction bs) (auto, metis Suc_n_not_le_n length_filter_le)
  let ?s = "\<lparr>token_accuracy = Fin (safe_ratio ?c (int (length g))), tr_correct_tokens = ?c,
    total_tokens = int (length g), sentence_exact_match = list_all id ?m, tr_valid_length = True\<rparr>"
  have "score_transliteration nfc (map JStr g) (map JStr p) = Inr ?s"
    using assms by (simp add: score_transliteration_def Let_def)
  moreover have "validate_score_counts (TransliterationScore ?s) = Inr ()"
    using safe_ratio_unit [OF c] c(2) all [of ?m] assms(4)
    by (simp add: require_nonnegative_int_def require_metric_exact)
  ultimately show ?thesis by (intro exI [of _ ?s]) simp
qed

lemma dependencies_accepted:
  assumes "g \<noteq> []" "list_all arc_ok g" "distinct (map arc_token g)" "list_all arc_ok p" "distinct (map arc_token p)"
    and "arc_token ` set p = arc_token ` set g"
  shows "\<exists>s. score_dependencies g p = Inr s \<and> total_arcs s = int (length g) \<and>
    validate_structural_score (DependencyScore s) = Inr () \<and> validate_score_counts (DependencyScore s) = Inr ()"
proof -
  let ?g = "map (\<lambda>a. (arc_token a, a)) g" and ?p = "map (\<lambda>a. (arc_token a, a)) p"
  let ?h = "int (length (filter (head_matches ?p) ?g))"
    and ?l = "int (length (filter (\<lambda>a. head_matches ?p a \<and> rel_matches ?p a) ?g))"
  have c: "0 \<le> ?l" "?l \<le> ?h" "?h \<le> int (length g)" "?l \<le> int (length g)" "0 \<le> ?h"
    using dependency_counts [of ?p ?g] by auto
  let ?s = "\<lparr>uas = Fin (safe_ratio ?h (int (length g))), las = Fin (safe_ratio ?l (int (length g))),
    correct_heads = ?h, correct_labeled_arcs = ?l, total_arcs = int (length g), valid_structure = True\<rparr>"
  have run: "index_arcs g = Inr ?g" "index_arcs p = Inr ?p" using assms by (simp_all add: index_arcs_Inr)
  have "fst ` set ?g = fst ` set ?p" using assms(6) by (simp add: image_image)
  then have "score_dependencies g p = Inr ?s"
    unfolding score_dependencies_def run rbind_simps Let_def using assms(1) by simp
  moreover have "validate_score_counts (DependencyScore ?s) = Inr ()"
    using safe_ratio_unit [OF c(1,4)] safe_ratio_unit [OF c(5,3)] c
    by (simp add: require_nonnegative_int_def require_metric_exact)
  ultimately show ?thesis by (intro exI [of _ ?s]) simp
qed

section \<open>Evaluating any response\<close>

lemma text_items_strings: "text_items js \<Longrightarrow> \<exists>xs. js = map JStr xs \<and> xs \<noteq> [] \<and> [] \<notin> set xs"
  unfolding text_items_def
proof (induction js)
  case (Cons j js)
  show ?case
  proof (cases "js = []")
    case False
    then obtain xs where "js = map JStr xs" "[] \<notin> set xs" using Cons by auto
    moreover obtain x where "j = JStr x" "x \<noteq> []" using Cons.prems by auto
    ultimately show ?thesis by (intro exI [of _ "x # xs"]) auto
  qed (use Cons.prems in \<open>auto intro: exI [of _ "[_]"]\<close>)
qed simp

lemma gold_arcs_parsed:
  assumes "list_all (gold_arc_ok ts n) gold" "distinct (map arc_id gold)"
  shows "\<exists>as. rmapM gold_dependency_arc gold = Inr as \<and> map arc_token as = map arc_id gold \<and> list_all arc_ok as"
  using assms
proof (induction gold)
  case (Cons j gold)
  then obtain as where as: "rmapM gold_dependency_arc gold = Inr as" "map arc_token as = map arc_id gold"
      "list_all arc_ok as" by auto
  from Cons.prems have "gold_arc_ok ts n j" by simp
  then obtain tid form hid hform rel where
    j: "j = JArr [JInt tid, JStr form, JInt hid, JStr hform, JStr rel]" "0 < tid" "0 \<le> hid" "rel \<noteq> []"
    unfolding gold_arc_ok_def by blast
  then show ?case using as by (simp add: arc_ok_def list_all_iff)
qed simp

lemma nonempty_strings_no_empty: "nonempty_strings xs \<Longrightarrow> xs \<noteq> [] \<and> [] \<notin> set xs"
  by (auto simp: nonempty_strings_def text_value_def list_all_iff)

text \<open>An accepted value of the right shape and length is always scored against a validated gold answer.\<close>

lemma parsed_response_scored:
  assumes gold: "validated_gold_item_count sample t = Inr n"
    and shape: "response_shape t v"
    and exp: "meets_expectations t (if t = SEGMENTATION then None else Some (int n))
      (if t = DEPENDENCY then Some (token_range n) else None) v"
  shows "\<exists>s. score_parsed_response nfc sample t v = Inr s \<and> gold_items_of s = int n \<and> has_expected_type t s \<and>
    validate_structural_score s = Inr () \<and> validate_score_counts s = Inr ()"
proof -
  from gold_answer_parts [OF gold] obtain ts where ts:
    "map_of (answers sample) (task_value SEGMENTATION) = Some (JArr ts)" "text_items ts" "length ts = n"
    and items: "t \<noteq> SEGMENTATION \<Longrightarrow>
      \<exists>gs. map_of (answers sample) (task_value t) = Some (JArr gs) \<and> length gs = n \<and>
        (if t = DEPENDENCY then list_all (gold_arc_ok ts n) gs \<and> distinct (map arc_id gs) \<and>
           arc_id ` set gs = set (token_range n) else text_items gs)" and n: "0 < n"
    by (auto split: if_splits)
  note tagging = tags_accepted and d = score_parsed_response_def require_gold_list_def
  have tags: ?thesis if t: "t = UPOS \<or> t = XPOS"
  proof -
    from t items obtain gs where gs: "map_of (answers sample) (task_value t) = Some (JArr gs)" "length gs = n" "text_items gs"
      by (auto split: if_splits)
    from text_items_strings [OF gs(3)] obtain g where g: "gs = map JStr g" "g \<noteq> []" "[] \<notin> set g" by blast
    from shape t obtain xs where xs: "v = TaggingResponse xs" "nonempty_strings xs" by (cases v) auto
    have len: "length xs = length g" using exp t xs(1) gs(2) g(1) by (auto simp: meets_expectations_def)
    from tags_accepted [OF g(2,3) _ len] nonempty_strings_no_empty [OF xs(2)] t gs g xs
    show ?thesis by (auto simp: d)
  qed
  show ?thesis
  proof (cases t)
    case SEGMENTATION
    from text_items_strings [OF ts(2)] obtain g where g: "ts = map JStr g" "g \<noteq> []" "[] \<notin> set g" by blast
    from shape SEGMENTATION obtain xs where xs: "v = SegmentationResponse xs" "nonempty_strings xs" by (cases v) auto
    from segmentation_accepted [OF g(2,3)] nonempty_strings_no_empty [OF xs(2)] g ts SEGMENTATION xs(1)
    show ?thesis by (fastforce simp: d simp del: validate_score_counts.simps validate_structural_score.simps)
  next
    case TRANSLITERATION
    with items obtain gs where gs: "map_of (answers sample) (task_value t) = Some (JArr gs)" "length gs = n" "text_items gs"
      by auto
    from text_items_strings [OF gs(3)] obtain g where g: "gs = map JStr g" "g \<noteq> []" "[] \<notin> set g" by blast
    from shape TRANSLITERATION obtain xs where xs: "v = TransliterationResponse xs" "nonempty_strings xs" by (cases v) auto
    have len: "length xs = length g" using exp TRANSLITERATION xs(1) gs(2) g(1) by (auto simp: meets_expectations_def)
    from transliteration_accepted [OF g(2,3) _ len, of nfc] nonempty_strings_no_empty [OF xs(2)] TRANSLITERATION gs g xs
    show ?thesis by (auto simp: d)
  next
    case DEPENDENCY
    with items obtain gs where gs: "map_of (answers sample) (task_value t) = Some (JArr gs)" "length gs = n"
        "list_all (gold_arc_ok ts n) gs" "distinct (map arc_id gs)" "arc_id ` set gs = set (token_range n)"
      by auto
    from gold_arcs_parsed [OF gs(3,4)] obtain as where as: "rmapM gold_dependency_arc gs = Inr as"
        "map arc_token as = map arc_id gs" "list_all arc_ok as" by blast
    from shape DEPENDENCY obtain ps where ps: "v = DependencyResponse ps" "distinct (map token_id ps)"
        "\<forall>a \<in> set ps. 0 < token_id a \<and> 0 \<le> head_id a \<and> text_value (deprel a)" by (cases v) auto
    have "as \<noteq> []" using rmapM_length [OF as(1)] gs(2) n by auto
    moreover have "distinct (map arc_token as)" using as(2) gs(4) by simp
    moreover have "list_all arc_ok (map predicted_arc ps)"
      using ps(3) by (auto simp: list_all_iff arc_ok_def predicted_arc_def text_value_def)
    moreover have "distinct (map arc_token (map predicted_arc ps))"
      using ps(2) by (simp add: predicted_arc_def o_def)
    moreover have "arc_token ` set (map predicted_arc ps) = arc_token ` set as"
    proof -
      have "arc_token ` set as = set (token_range n)" using as(2) gs(5) by (metis set_map)
      moreover have "token_id ` set ps = set (token_range n)"
        using exp DEPENDENCY ps(1) by (simp add: meets_expectations_def)
      ultimately show ?thesis by (simp add: predicted_arc_def image_image)
    qed
    ultimately obtain s where s: "score_dependencies as (map predicted_arc ps) = Inr s" "total_arcs s = int (length as)"
        "validate_structural_score (DependencyScore s) = Inr ()" "validate_score_counts (DependencyScore s) = Inr ()"
      using dependencies_accepted as(3) by blast
    then show ?thesis
      using DEPENDENCY gs(1,2) as(1) ps(1) rmapM_length [OF as(1)]
      by (simp add: d del: validate_score_counts.simps validate_structural_score.simps)
  qed (use tags in auto)
qed

lemma count_matches_tokens:
  assumes "validated_gold_item_count sample t = Inr n" "fixed_tokens sample = Inr ts"
  shows "length ts = n"
  using gold_answer_parts [OF assms(1)] assms(2) by (auto simp: fixed_tokens_Inr)

lemma built_fixed_tokens: "build_model_input sample (task_value t) = Inr m \<Longrightarrow> \<exists>ts. fixed_tokens sample = Inr ts"
  by (auto simp: build_model_input_def rbind_Inr_iff split: if_splits)

text \<open>The sample of a manifest is ready for evaluation: what \<open>prepare_samples\<close> establishes.\<close>

definition sample_ready :: "task_type \<Rightarrow> dataset_sample \<Rightarrow> manifest_sample \<Rightarrow> safe_model_input \<Rightarrow> bool" where
  "sample_ready t s m i \<longleftrightarrow>
     sid s \<noteq> [] \<and> sid s = ms_sample_id m \<and> build_model_input s (task_value t) = Inr i \<and>
     (\<exists>n. validated_gold_item_count s t = Inr n \<and> ms_gold_items m = int n)"

definition expected_parse :: "platform \<Rightarrow> task_type \<Rightarrow> int \<Rightarrow> pystr \<Rightarrow> response_parse_result result" where
  "expected_parse P t n raw =
     parse_model_response (pl_validate P) (pl_depth P) (task_value t) (Instance raw)
       (if t = SEGMENTATION then None else Some n)
       (if t = DEPENDENCY then Some (token_range (nat n)) else None)"

lemma evaluate_ready:
  assumes rm: "response_models (pl_validate P)" and ready: "sample_ready t s m i"
  shows "(case expected_parse P t (ms_gold_items m) raw of
          Inl e \<Rightarrow> evaluate_raw_response P s m t i (Instance raw) = Inl e
        | Inr r \<Rightarrow> (\<exists>o1. evaluate_raw_response P s m t i (Instance raw) = Inr o1 \<and> valid_outcome o1 \<and>
            so_sample_id o1 = ms_sample_id m \<and> so_task o1 = t \<and> so_gold_items o1 = ms_gold_items m \<and>
            so_error_code o1 = map_option code (parsed_error r)))"
proof -
  from ready obtain n where n: "validated_gold_item_count s t = Inr n" "ms_gold_items m = int n"
      "sid s \<noteq> []" "sid s = ms_sample_id m" "build_model_input s (task_value t) = Inr i"
    by (auto simp: sample_ready_def)
  obtain ts where ts: "fixed_tokens s = Inr ts" "length ts = n"
    using built_fixed_tokens [OF n(5)] count_matches_tokens [OF n(1)] by blast
  have pos: "0 < n" using gold_answer_parts [OF n(1)] by simp
  let ?cnt = "if t = SEGMENTATION then None else Some (int n)"
    and ?ids = "if t = DEPENDENCY then Some (token_range n) else None"
  let ?parse = "expected_parse P t (int n) raw"
  have parse: "?parse = parse_model_response (pl_validate P) (pl_depth P) (task_value t) (Instance raw) ?cnt ?ids"
    by (simp only: expected_parse_def nat_int)
  note input = built_expectations [OF n(5) ts(1)]
  have run: "evaluate_raw_response P s m t i (Instance raw) =
      rbind ?parse (\<lambda>parsed.
       (case parsed_error parsed of
          Some err \<Rightarrow>
            if code err = UNKNOWN_TASK
            then raise RunnerInvariantError ''known task was rejected by the response parser''
            else malformed (sid s) t (ms_gold_items m) (code err)
        | None \<Rightarrow>
            (case parsed_value parsed of
               None \<Rightarrow> raise RunnerInvariantError ''response parser returned an inconsistent success result''
             | Some v \<Rightarrow>
                 if parsed_task parsed \<noteq> Some t
                 then raise RunnerInvariantError ''response parser returned an inconsistent success result''
                 else rbind (score_parsed_response (pl_nfc P) s t v) (scored (sid s) t))))"
    using input n ts unfolding parse by (simp add: evaluate_raw_response_def recast_input_error_def)
  show ?thesis
  proof (cases ?parse)
    case (Inl e)
    then show ?thesis using n(2) by (simp add: run)
  next
    case (Inr r)
    note cases = response_models.parse_result_cases [OF rm Inr [unfolded parse]]
    show ?thesis
    proof (cases "parsed_error r")
      case (Some err)
      then have "code err \<noteq> UNKNOWN_TASK" using cases by auto
      then have "malformed (sid s) t (ms_gold_items m) (code err) = Inr \<lparr>so_sample_id = sid s, so_task = t,
          so_gold_items = int n, so_score = None, so_error_code = Some (code err)\<rparr>"
        using n pos by (simp add: malformed_def SampleEvaluationOutcome_def)
      then show ?thesis
        using SampleEvaluationOutcome_valid Inr Some n \<open>code err \<noteq> UNKNOWN_TASK\<close>
        by (simp add: run malformed_def)
    next
      case None
      then obtain v where v: "parsed_value r = Some v" "parsed_task r = Some t" using cases by auto
      have ok: "response_shape t v" "meets_expectations t ?cnt ?ids v"
        using response_models.parse_valid_iff [OF rm Inr [unfolded parse], of v] v by auto
      from parsed_response_scored [OF n(1) ok, of "pl_nfc P"] obtain sc where
        sc: "score_parsed_response (pl_nfc P) s t v = Inr sc" "gold_items_of sc = int n" "has_expected_type t sc"
          "validate_structural_score sc = Inr ()" "validate_score_counts sc = Inr ()" by blast
      let ?o = "\<lparr>so_sample_id = sid s, so_task = t, so_gold_items = int n, so_score = Some sc, so_error_code = None\<rparr>"
      have out: "SampleEvaluationOutcome ?o = Inr ?o"
        using sc n(3) pos by (simp add: SampleEvaluationOutcome_def)
      then have "scored (sid s) t sc = Inr ?o" by (simp add: scored_def sc(2))
      then show ?thesis
        using Inr None v sc(1) out n by (simp add: run valid_outcome_def)
    qed
  qed
qed

section \<open>Properties\<close>

text \<open>No model output aborts an evaluation, with two exceptions: for a prepared sample and any raw
  text, evaluation returns a valid outcome for that sample with the manifest's gold count, unless
  the text makes \<open>json.loads\<close> exceed the integer digit limit or the recursion limit.\<close>

theorem evaluation_total:
  assumes "response_models (pl_validate P)" "sample_ready t s m i"
  shows "(\<exists>o1. evaluate_raw_response P s m t i (Instance raw) = Inr o1 \<and> valid_outcome o1 \<and>
      so_sample_id o1 = ms_sample_id m \<and> so_task o1 = t \<and> so_gold_items o1 = ms_gold_items m) \<or>
    loads (pl_depth P) raw \<in> {Inl IntDigitLimit, Inl RecursionLimit}"
  using evaluate_ready [OF assms, of raw]
    response_models.parse_raises_iff [OF assms(1), where t = t and raw = raw and depth = "pl_depth P"
      and cnt = "if t = SEGMENTATION then None else Some (ms_gold_items m)"
      and ids = "if t = DEPENDENCY then Some (token_range (nat (ms_gold_items m))) else None"] assms(2)
  by (auto simp: sample_ready_def expected_parse_def split: sum.splits if_splits)

definition demo_platform :: platform where
  "demo_platform = \<lparr>pl_casefold = (\<lambda>s. s), pl_sha = demo_sha, pl_accept = demo_accept, pl_depth = 9,
     pl_nfc = (\<lambda>s. s), pl_validate = reference_validate\<rparr>"

definition demo_input_1 :: safe_model_input where
  "demo_input_1 = TaggingInput [u ''ma'']"

definition demo_input_2 :: safe_model_input where
  "demo_input_2 = TaggingInput [u ''pai'', u ''nai'']"

lemma demo_inputs:
  "build_model_input demo_1 (task_value XPOS) = Inr demo_input_1"
  "build_model_input demo_2 (task_value XPOS) = Inr demo_input_2"
  by (simp_all add: build_model_input_def demo_1_def demo_2_def demo_sample_def fixed_tokens_def task_value.simps(1)
      bad_token_def TaggingModelInput_def nonempty_strings_def text_value_def demo_input_1_def demo_input_2_def)

lemma demo_ready:
  "sample_ready XPOS demo_1 \<lparr>ms_sample_id = u ''s1'', ms_gold_items = 1\<rparr> demo_input_1"
  "sample_ready XPOS demo_2 \<lparr>ms_sample_id = u ''s2'', ms_gold_items = 2\<rparr> demo_input_2"
  by (simp_all add: sample_ready_def demo_inputs)

theorem evaluation_total_witness:
  "\<exists>o1. evaluate_raw_response demo_platform demo_1 \<lparr>ms_sample_id = u ''s1'', ms_gold_items = 1\<rparr> XPOS demo_input_1
     (Instance (u ''[]'')) = Inr o1 \<and> so_sample_id o1 = u ''s1''"
proof -
  have "response_models (pl_validate demo_platform)"
    by (simp add: demo_platform_def reference.response_models_axioms)
  moreover have "loads (pl_depth demo_platform) (u ''[]'') = Inr (JArr [])"
    by (simp add: demo_platform_def json_eval)
  ultimately show ?thesis using evaluation_total [OF _ demo_ready(1), of demo_platform "u ''[]''"] by auto
qed

section \<open>What a run calls and returns\<close>

lemma evaluate_valid:
  assumes "evaluate_raw_response P s m t i raw = Inr o1"
  shows "valid_outcome o1 \<and> so_sample_id o1 = ms_sample_id m"
proof -
  have "sid s = ms_sample_id m \<and> (\<exists>o2. SampleEvaluationOutcome o2 = Inr o1 \<and> so_sample_id o2 = sid s)"
    using assms
    by (auto simp: evaluate_raw_response_def rbind_Inr_iff malformed_def scored_def
        split: option.splits if_splits prod.splits)
  then show ?thesis using SampleEvaluationOutcome_valid by metis
qed

text \<open>The same effects with a log of the provider calls: the request and the timeout of each.\<close>

definition logged :: "'w effects \<Rightarrow> ('w \<times> (model_request \<times> rat option) list) effects" where
  "logged E =
     \<lparr>ef_generate = (\<lambda>r timeout (w, lg). case ef_generate E r timeout w of
        (x, w') \<Rightarrow> (x, (w', lg @ [(r, timeout)]))),
      ef_utc_now = (\<lambda>(w, lg). case ef_utc_now E w of (x, w') \<Rightarrow> (x, (w', lg))),
      ef_monotonic = (\<lambda>(w, lg). case ef_monotonic E w of (x, w') \<Rightarrow> (x, (w', lg))),
      ef_preflight = map_option (\<lambda>check rs (w, lg). case check rs w of (x, w') \<Rightarrow> (x, (w', lg)))
        (ef_preflight E)\<rparr>"

definition timeout_ok :: "int option \<Rightarrow> rat option \<Rightarrow> bool" where
  "timeout_ok deadline timeout \<longleftrightarrow>
     (case deadline of None \<Rightarrow> timeout = None | Some _ \<Rightarrow> \<exists>q > 0. timeout = Some q)"

lemma run_bind_eq:
  "run_bind m f w = (res, w') \<longleftrightarrow>
     (\<exists>e. m w = (Inl e, w') \<and> res = Inl e) \<or> (\<exists>x w1. m w = (Inr x, w1) \<and> f x w1 = (res, w'))"
  by (auto simp: run_bind_def split: prod.splits sum.splits)

lemma map_sum_Inr [simp]: "map_sum id f r = Inr y \<longleftrightarrow> (\<exists>x. r = Inr x \<and> y = f x)"
  by (cases r) auto

lemma run_bind_Inr:
  assumes "run_bind m f w = (Inr y, w')"
  obtains x w1 where "m w = (Inr x, w1)" "f x w1 = (Inr y, w')"
  using assms by (auto simp: run_bind_def split: prod.splits sum.splits)

lemma run_pure_eq [simp]: "run_pure r w = (res, w') \<longleftrightarrow> r = res \<and> w' = w"
  by (auto simp: run_pure_def)

text \<open>A computation that makes no provider call.\<close>

definition quiet :: "('w \<times> 'l, 'a) run \<Rightarrow> bool" where
  "quiet m \<longleftrightarrow> (\<forall>w. snd (snd (m w)) = snd w)"

lemma quiet_pure: "quiet (run_pure r)"
  by (simp add: quiet_def run_pure_def)

lemma quiet_bind: "quiet m \<Longrightarrow> (\<And>x. quiet (f x)) \<Longrightarrow> quiet (run_bind m f)"
  unfolding quiet_def run_bind_def
  by (intro allI, split prod.split, split sum.split) (metis snd_conv)

lemma quiet_timer: "quiet (timer (logged E) d)"
  by (auto simp: quiet_def timer_def logged_def split: option.splits prod.splits)

lemma quiet_check: "quiet (check_deadline (logged E) deadline)"
  by (auto simp: quiet_def check_deadline_def logged_def split: option.splits prod.splits)

lemmas quiet_intros = quiet_pure quiet_bind quiet_timer quiet_check

lemma quietD: "quiet m \<Longrightarrow> m (w, lg) = (res, (w', lg')) \<Longrightarrow> lg' = lg"
  unfolding quiet_def by (metis snd_conv)

lemma check_deadline_timeout:
  "check_deadline E deadline w = (Inr x, w') \<Longrightarrow> timeout_ok deadline x"
  by (auto simp: check_deadline_def timeout_ok_def require_remaining_def Let_def
      split: option.splits prod.splits if_splits)

lemma run_sample_log:
  assumes "run_sample P (logged E) t deadline d p r (w, lg) = (res, (w', lg'))"
  shows "(\<exists>e. res = Inl e \<and> lg' = lg) \<or> (\<exists>timeout. lg' = lg @ [(r, timeout)] \<and> timeout_ok deadline timeout)"
proof -
  define after where "after started generated =
     run_bind (timer (logged E) d) (\<lambda>finished.
       (case generated of
          NotInstance \<Rightarrow> run_pure (raise ProviderContractError ''provider must return ModelGeneration'')
        | Instance g \<Rightarrow>
            run_bind (check_deadline (logged E) deadline) (\<lambda>_.
            run_bind (run_pure (evaluate_raw_response P (ps_sample p) (ps_manifest p) t (ps_input p)
                        (Instance (raw_text g)))) (\<lambda>outcome.
              (case d of
                 None \<Rightarrow> run_pure (Inr (outcome, None))
               | Some d \<Rightarrow>
                   (case (started, finished) of
                      (Some t0, Some t1) \<Rightarrow>
                        run_pure (map_sum id (\<lambda>d'. (outcome, Some d'))
                          (diagnostics_record d g outcome (py_minus t1 t0)))
                    | _ \<Rightarrow> run_pure (raise RunnerInvariantError ''diagnostic timer was not initialized'')))))))"
    for started :: "pyfloat option" and generated
  have "quiet (after started generated)" for started generated
    unfolding after_def
    by (intro quiet_bind quiet_timer, cases generated)
      (auto intro!: quiet_intros split: option.split)
  then have tail: "after started generated (v, l) = (res', (v', l')) \<Longrightarrow> l' = l" for started generated v l res' v' l'
    by (rule quietD)
  have gen: "ef_generate (logged E) r timeout (v, l) = (x, (v', l')) \<Longrightarrow> l' = l @ [(r, timeout)]" for timeout v l x v' l'
    by (auto simp: logged_def split: prod.splits)
  have run: "run_sample P (logged E) t deadline d p r =
      run_bind (check_deadline (logged E) deadline) (\<lambda>timeout.
      run_bind (timer (logged E) d) (\<lambda>started.
      run_bind (ef_generate (logged E) r timeout) (\<lambda>generated. after started generated)))"
    unfolding run_sample_def after_def ..
  obtain c w1 l1 where c: "check_deadline (logged E) deadline (w, lg) = (c, (w1, l1))" by (metis prod.exhaust)
  then have l1: "l1 = lg" using quiet_check quietD by metis
  show ?thesis
  proof (cases c)
    case (Inl e)
    then show ?thesis using assms c l1 by (auto simp: run run_bind_def)
  next
    case (Inr timeout)
    obtain b w2 l2 where b: "timer (logged E) d (w1, l1) = (b, (w2, l2))" by (metis prod.exhaust)
    then have l2: "l2 = lg" using quiet_timer quietD l1 by metis
    have to: "timeout_ok deadline timeout" using c Inr check_deadline_timeout by metis
    show ?thesis
    proof (cases b)
      case (Inl e)
      then show ?thesis using assms c \<open>c = Inr timeout\<close> b l2 by (auto simp: run run_bind_def)
    next
      case (Inr started)
      obtain g w3 l3 where g: "ef_generate (logged E) r timeout (w2, l2) = (g, (w3, l3))" by (metis prod.exhaust)
      then have l3: "l3 = lg @ [(r, timeout)]" using gen l2 by blast
      have "lg' = l3"
        using assms c \<open>c = Inr timeout\<close> b Inr g tail
        by (cases g) (auto simp: run run_bind_def)
      then show ?thesis using l3 to by blast
    qed
  qed
qed

lemma run_loop_log:
  assumes "run_loop P (logged E) t deadline d xs (w, lg) = (res, (w', lg'))"
  shows "\<exists>calls. lg' = lg @ calls \<and> prefix (map fst calls) (map snd xs) \<and>
    list_all (\<lambda>(_, timeout). timeout_ok deadline timeout) calls \<and>
    (\<forall>x. res = Inr x \<longrightarrow> map fst calls = map snd xs)"
  using assms
proof (induction xs arbitrary: d w lg res w' lg')
  case (Cons x xs)
  obtain p r where x: "x = (p, r)" by fastforce
  obtain res1 w1 log1 where s: "run_sample P (logged E) t deadline d p r (w, lg) = (res1, (w1, log1))"
    by (metis prod.exhaust)
  note one = run_sample_log [OF s]
  show ?case
  proof (cases res1)
    case (Inl e)
    then have "lg' = log1 \<and> res = Inl e" using Cons.prems x s by (auto simp: run_bind_eq)
    with one consider "lg' = lg" | timeout where "lg' = lg @ [(r, timeout)]" "timeout_ok deadline timeout"
      by auto
    then show ?thesis
    proof cases
      case 1
      then show ?thesis using \<open>lg' = log1 \<and> res = Inl e\<close> by (intro exI [of _ "[]"]) simp
    next
      case (2 timeout)
      then show ?thesis
        using \<open>lg' = log1 \<and> res = Inl e\<close> x by (intro exI [of _ "[(r, timeout)]"]) simp
    qed
  next
    case (Inr y)
    then obtain o1 d1 where y: "y = (o1, d1)" by fastforce
    from one Inr obtain timeout where t: "log1 = lg @ [(r, timeout)]" "timeout_ok deadline timeout" by auto
    obtain res2 w2 log2 where l: "run_loop P (logged E) t deadline d1 xs (w1, log1) = (res2, (w2, log2))"
      by (metis prod.exhaust)
    from Cons.IH [OF l] obtain calls where calls: "log2 = log1 @ calls" "prefix (map fst calls) (map snd xs)"
        "list_all (\<lambda>(_, timeout). timeout_ok deadline timeout) calls" "\<forall>x. res2 = Inr x \<longrightarrow> map fst calls = map snd xs"
      by blast
    have "lg' = log2 \<and> (\<forall>x. res = Inr x \<longrightarrow> (\<exists>x. res2 = Inr x))"
      using Cons.prems x s Inr y l by (auto simp: run_bind_eq split: prod.splits)
    then show ?thesis
      using calls t by (intro exI [of _ "(r, timeout) # calls"]) (auto simp: x)
  qed
qed auto

lemma run_bind_quiet:
  assumes "quiet m" "run_bind m f (w, l) = (res, (w', l'))"
  obtains e where "res = Inl e" "l' = l"
  | x w1 where "m (w, l) = (Inr x, (w1, l))" "f x (w1, l) = (res, (w', l'))"
proof -
  obtain r w1 l1 where m: "m (w, l) = (r, (w1, l1))" by (metis prod.exhaust)
  then have "l1 = l" using quietD [OF assms(1)] by blast
  then show thesis using assms(2) m that by (cases r) (auto simp: run_bind_def)
qed

lemma quiet_preflight:
  "quiet (case ef_preflight (logged E) of None \<Rightarrow> run_pure (Inr ()) | Some check \<Rightarrow> check requests)"
  by (auto simp: quiet_def logged_def run_pure_def split: option.splits prod.splits)

definition run_requests :: "challenge_artifacts \<Rightarrow> task_type \<Rightarrow> pystr \<Rightarrow> prepared_sample list \<Rightarrow> model_request list result" where
  "run_requests a t prompt prepared =
     rmapM (\<lambda>p. ModelRequest t (pc_language (ca_public a)) (pc_treebank (ca_public a)) prompt (ps_input p)) prepared"

definition finish_run :: "platform \<Rightarrow> 'w effects \<Rightarrow> challenge_artifacts \<Rightarrow> pyfloat option
    \<Rightarrow> sample_outcome list \<times> run_diagnostics option \<Rightarrow> ('w, aggregate_result \<times> run_diagnostics option) run" where
  "finish_run P E a started = (\<lambda>(outcomes, diagnostics').
     run_bind (run_pure (aggregate_challenge (pl_casefold P) (pl_sha P) a outcomes)) (\<lambda>aggregate.
       (case (diagnostics', started) of
          (None, _) \<Rightarrow> run_pure (Inr (aggregate, None))
        | (Some d, None) \<Rightarrow> run_pure (raise RunnerInvariantError ''execution timer was not initialized'')
        | (Some d, Some t0) \<Rightarrow>
            run_bind (timer E diagnostics') (\<lambda>finished.
              run_pure (map_sum id (\<lambda>d'. (aggregate, Some d'))
                (diagnostics_complete d (py_minus (the finished) t0)))))))"

lemma quiet_finish: "quiet (finish_run P (logged E) a started x)"
  unfolding finish_run_def
  by (cases x; cases "snd x"; cases started) (auto intro!: quiet_intros split: option.split)

lemma run_challenge_loop:
  "run_challenge P E cached a prompt deadline d =
     run_bind (run_pure (ensure (py_strip prompt \<noteq> [])
       (Exc ValueError ''student_prompt must be a non-empty string''))) (\<lambda>_.
     run_bind (timer E d) (\<lambda>started.
     run_bind (run_pure (prepare_samples P cached a)) (\<lambda>prepared.
     run_bind (run_pure (TaskType (pc_task (ca_public a)))) (\<lambda>t.
     run_bind (run_pure (run_requests a t prompt prepared)) (\<lambda>requests.
     run_bind (case ef_preflight E of None \<Rightarrow> run_pure (Inr ()) | Some check \<Rightarrow> check requests) (\<lambda>_.
     run_bind (check_deadline E deadline) (\<lambda>_.
     run_bind (run_loop P E t deadline d (zip prepared requests)) (finish_run P E a started))))))))"
  unfolding run_challenge_def finish_run_def run_requests_def ..

text \<open>Where a run ends: before the loop, without a call, or in the loop over all prepared samples.\<close>

lemma run_challenge_reaches_loop:
  assumes "run_challenge P (logged E) cached a prompt deadline d (w, l) = (res, (w', l'))"
  obtains "\<exists>e. res = Inl e" "l' = l"
  | prepared t requests started w1 w2 o1 where "prepare_samples P cached a = Inr prepared"
    "TaskType (pc_task (ca_public a)) = Inr t" "run_requests a t prompt prepared = Inr requests"
    "check_deadline (logged E) deadline (w1, l) = (Inr o1, (w2, l))"
    "run_bind (run_loop P (logged E) t deadline d (zip prepared requests)) (finish_run P (logged E) a started)
       (w2, l) = (res, (w', l'))"
proof -
  note step = assms [unfolded run_challenge_loop]
  show thesis
    using step
    apply (rule run_bind_quiet [OF quiet_pure], use that(1) in blast)
    apply (erule run_bind_quiet [OF quiet_timer], use that(1) in blast)
    apply (erule run_bind_quiet [OF quiet_pure], use that(1) in blast)
    apply (erule run_bind_quiet [OF quiet_pure], use that(1) in blast)
    apply (erule run_bind_quiet [OF quiet_pure], use that(1) in blast)
    apply (erule run_bind_quiet [OF quiet_preflight], use that(1) in blast)
    apply (erule run_bind_quiet [OF quiet_check], use that(1) in blast)
    by (simp only: run_pure_eq, elim conjE, rule that(2)) (assumption | simp)+
qed

lemma prepare_zip_Inr:
  "prepare_zip a t ms ss = Inr ps \<Longrightarrow>
     map ps_manifest ps = ms \<and> map ps_sample ps = ss \<and> list_all (\<lambda>p. prepare_one a t (ps_manifest p) (ps_sample p) = Inr p) ps"
proof (induction a t ms ss arbitrary: ps rule: prepare_zip.induct)
  case (2 a t m ms s ss)
  then obtain p qs where "prepare_one a t m s = Inr p" "prepare_zip a t ms ss = Inr qs" "ps = p # qs"
    by (auto simp: rbind_Inr_iff)
  moreover from this(1) have "ps_manifest p = m" "ps_sample p = s"
    by (auto simp: prepare_one_def rbind_Inr_iff)
  ultimately show ?case using 2 by auto
qed auto

lemma prepare_samples_Inr:
  assumes "prepare_samples P cached a = Inr ps" "TaskType (pc_task (ca_public a)) = Inr t"
  shows "map ps_manifest ps = pm_samples (ca_private a)"
    and "list_all (\<lambda>p. build_model_input (ps_sample p) (task_value t) = Inr (ps_input p)) ps"
proof -
  from assms obtain ss where z: "prepare_zip a t (pm_samples (ca_private a)) ss = Inr ps"
    by (auto simp: prepare_samples_def rbind_Inr_iff)
  show "map ps_manifest ps = pm_samples (ca_private a)" using prepare_zip_Inr [OF z] by simp
  have "prepare_one a t m s = Inr p \<Longrightarrow> build_model_input s (task_value t) = Inr (ps_input p) \<and> ps_sample p = s" for m s p
    by (auto simp: prepare_one_def rbind_Inr_iff)
  then show "list_all (\<lambda>p. build_model_input (ps_sample p) (task_value t) = Inr (ps_input p)) ps"
    using prepare_zip_Inr [OF z] by (auto simp: list_all_iff)
qed

lemma run_sample_Inr:
  assumes "run_sample P E t deadline d p r w = (Inr (o1, d1), w1)"
  shows "\<exists>raw. evaluate_raw_response P (ps_sample p) (ps_manifest p) t (ps_input p) raw = Inr o1"
proof -
  from assms show ?thesis
    unfolding run_sample_def
  proof (elim run_bind_Inr)
    fix generated finished started w2
    assume "(case generated of
        NotInstance \<Rightarrow> run_pure (raise ProviderContractError ''provider must return ModelGeneration'')
      | Instance g \<Rightarrow>
          run_bind (check_deadline E deadline) (\<lambda>_.
          run_bind (run_pure (evaluate_raw_response P (ps_sample p) (ps_manifest p) t (ps_input p)
                      (Instance (raw_text g)))) (\<lambda>outcome.
            (case d of
               None \<Rightarrow> run_pure (Inr (outcome, None))
             | Some d \<Rightarrow>
                 (case (started, finished) of
                    (Some t0, Some t1) \<Rightarrow>
                      run_pure (map_sum id (\<lambda>d'. (outcome, Some d'))
                        (diagnostics_record d g outcome (py_minus t1 t0)))
                  | _ \<Rightarrow> run_pure (raise RunnerInvariantError ''diagnostic timer was not initialized'')))))) w2 =
       (Inr (o1, d1), w1)"
    then show ?thesis
      by (cases generated) (auto elim!: run_bind_Inr split: option.splits)
  qed
qed

lemma run_loop_outcomes:
  assumes "run_loop P E t deadline d xs w = (Inr (os, d'), w')"
  shows "list_all valid_outcome os \<and> map so_sample_id os = map (ms_sample_id \<circ> ps_manifest \<circ> fst) xs"
  using assms
proof (induction xs arbitrary: d w os d')
  case (Cons x xs)
  obtain p r where x: "x = (p, r)" by fastforce
  from Cons.prems obtain o1 d1 w1 os1 where s: "run_sample P E t deadline d p r w = (Inr (o1, d1), w1)"
    and l: "run_loop P E t deadline d1 xs w1 = (Inr (os1, d'), w')" and os: "os = o1 # os1"
    by (auto simp: x run_bind_eq split: prod.splits)
  from run_sample_Inr [OF s]
  show ?case using evaluate_valid Cons.IH [OF l] os x by auto
qed (auto simp: run_pure_def)

section \<open>A concrete run\<close>

definition demo_effects :: "unit effects" where
  "demo_effects = \<lparr>ef_generate = (\<lambda>_ _ w. (Inr (Instance \<lparr>raw_text = u ''[]'', generated_token_count = Some 1,
     finish_reason = None\<rparr>), w)), ef_utc_now = (\<lambda>w. (100, w)), ef_monotonic = (\<lambda>w. (Fin 0, w)), ef_preflight = None\<rparr>"

definition demo_prepared :: "prepared_sample list" where
  "demo_prepared =
     [\<lparr>ps_manifest = \<lparr>ms_sample_id = u ''s1'', ms_gold_items = 1\<rparr>, ps_sample = demo_1, ps_input = demo_input_1\<rparr>,
      \<lparr>ps_manifest = \<lparr>ms_sample_id = u ''s2'', ms_gold_items = 2\<rparr>, ps_sample = demo_2, ps_input = demo_input_2\<rparr>]"

lemma demo_prepare: "prepare_samples demo_platform None demo_artifacts = Inr demo_prepared"
proof -
  have "load_dataset_samples_by_id demo_accept 9 demo_file [u ''s1'', u ''s2''] None = Inr [demo_1, demo_2]"
    unfolding load_by_id_iff by (simp add: samples_of_def demo_stream)
  then show ?thesis
    by (simp add: prepare_samples_def demo_platform_def demo_artifacts pm_sample_ids_def prepare_one_def
        demo_inputs demo_prepared_def)
qed

lemma demo_requests:
  "\<exists>r1 r2. run_requests demo_artifacts XPOS (u ''tag'') demo_prepared = Inr [r1, r2]"
proof -
  have canon: "canonicalize_model_input (task_value XPOS) demo_input_1 = Inr demo_input_1"
    "canonicalize_model_input (task_value XPOS) demo_input_2 = Inr demo_input_2"
    using build_well_formed [OF demo_inputs(1)] build_well_formed [OF demo_inputs(2)] canonicalize_well_formed by blast+
  have "model_input_matches_task XPOS demo_input_1" "model_input_matches_task XPOS demo_input_2"
    by (simp_all add: demo_input_1_def demo_input_2_def model_input_matches_task_def)
  moreover have "py_strip (u ''Thai'') \<noteq> []" "py_strip (u ''pud'') \<noteq> []" "py_strip (u ''tag'') \<noteq> []"
    by (simp_all add: py_strip_def py_space_def u_def)
  ultimately show ?thesis
    by (simp add: run_requests_def demo_prepared_def ModelRequest_def demo_artifacts canon)
qed

definition demo_bad :: "string \<Rightarrow> int \<Rightarrow> sample_outcome" where
  "demo_bad i n = \<lparr>so_sample_id = u i, so_task = XPOS, so_gold_items = n, so_score = None,
     so_error_code = Some TOP_LEVEL_NOT_OBJECT\<rparr>"

lemma demo_evaluate:
  "evaluate_raw_response demo_platform demo_1 \<lparr>ms_sample_id = u ''s1'', ms_gold_items = 1\<rparr> XPOS demo_input_1
     (Instance (u ''[]'')) = Inr (demo_bad ''s1'' 1)"
  "evaluate_raw_response demo_platform demo_2 \<lparr>ms_sample_id = u ''s2'', ms_gold_items = 2\<rparr> XPOS demo_input_2
     (Instance (u ''[]'')) = Inr (demo_bad ''s2'' 2)"
proof -
  have l: "loads 9 (u ''[]'') = Inr (JArr [])" by (simp add: json_eval)
  have f: "fixed_tokens demo_1 = Inr [u ''ma'']" "fixed_tokens demo_2 = Inr [u ''pai'', u ''nai'']"
    by (simp_all add: demo_1_def demo_2_def demo_sample_def fixed_tokens_def task_value.simps(1) bad_token_def)
  note e = built_expectations [OF demo_inputs(1) f(1)] built_expectations [OF demo_inputs(2) f(2)]
  show "evaluate_raw_response demo_platform demo_1 \<lparr>ms_sample_id = u ''s1'', ms_gold_items = 1\<rparr> XPOS demo_input_1
     (Instance (u ''[]'')) = Inr (demo_bad ''s1'' 1)"
    "evaluate_raw_response demo_platform demo_2 \<lparr>ms_sample_id = u ''s2'', ms_gold_items = 2\<rparr> XPOS demo_input_2
     (Instance (u ''[]'')) = Inr (demo_bad ''s2'' 2)"
    using e by (simp_all add: evaluate_raw_response_def recast_input_error_def demo_platform_def parse_model_response_def l
        malformed_def SampleEvaluationOutcome_def demo_bad_def)
qed

lemma demo_run:
  "\<exists>agg calls. run_challenge demo_platform (logged demo_effects) None demo_artifacts (u ''tag'') None None ((), []) =
     (Inr (agg, None), ((), calls))"
proof -
  have task: "TaskType (pc_task (ca_public demo_artifacts)) = Inr XPOS" by (simp add: demo_artifacts)
  obtain r1 r2 where r: "run_requests demo_artifacts XPOS (u ''tag'') demo_prepared = Inr [r1, r2]"
    using demo_requests by blast
  have strip: "py_strip (u ''tag'') \<noteq> []" by (simp add: py_strip_def py_space_def u_def)
  let ?os = "[demo_bad ''s1'' 1, demo_bad ''s2'' 2]"
  have valid: "\<forall>o1 \<in> set ?os. valid_outcome o1"
    by (simp add: valid_outcome_def SampleEvaluationOutcome_def demo_bad_def)
  have "covers demo_artifacts ?os"
    by (simp add: covers_def demo_bad_def demo_artifacts pm_sample_ids_def expected_gold_items_def insert_commute)
  then obtain agg where agg: "aggregate_challenge (\<lambda>s. s) demo_sha demo_artifacts ?os = Inr agg"
    using aggregate_challenge_Inr [OF demo_artifacts(8) valid] by blast
  have pl: "pl_casefold demo_platform = (\<lambda>s. s)" "pl_sha demo_platform = demo_sha" by (simp_all add: demo_platform_def)
  show ?thesis
    unfolding run_challenge_loop
    by (simp add: run_bind_def run_pure_def strip timer_def demo_prepare task r logged_def demo_effects_def
        check_deadline_def) (simp add: demo_prepared_def run_sample_def run_bind_def check_deadline_def timer_def
        run_pure_def demo_evaluate finish_run_def agg pl)
qed

section \<open>What crosses to the provider\<close>

text \<open>
  Of the gold answers a request shows the given tokens and, for segmentation, only their concatenation: no tag, arc,
  transliteration or token boundary that the model is asked for.
\<close>

definition given_tokens :: "dataset_sample \<Rightarrow> pystr list" where
  "given_tokens s =
     (case map_of (answers s) (task_value SEGMENTATION) of Some (JArr js) \<Rightarrow> map str_of js | _ \<Rightarrow> [])"

fun shown_input :: "task_type \<Rightarrow> pystr \<Rightarrow> pystr list \<Rightarrow> safe_model_input" where
  "shown_input SEGMENTATION txt ts = SegmentationInput (concat ts)"
| "shown_input UPOS txt ts = TaggingInput ts"
| "shown_input XPOS txt ts = TaggingInput ts"
| "shown_input DEPENDENCY txt ts =
     DependencyInput (map (\<lambda>(i, form). \<lparr>dt_token_id = i, dt_form = form\<rparr>) (zip (token_range (length ts)) ts))"
| "shown_input TRANSLITERATION txt ts = TransliterationInput txt ts"

definition open_request :: "challenge_artifacts \<Rightarrow> task_type \<Rightarrow> pystr \<Rightarrow> dataset_sample \<Rightarrow> model_request" where
  "open_request a t prompt s = \<lparr>mr_task = t, mr_language = pc_language (ca_public a), mr_treebank = pc_treebank (ca_public a),
     mr_student_prompt = prompt, mr_model_input = shown_input t (sample_text s) (given_tokens s)\<rparr>"

lemma given_tokens_fixed: "fixed_tokens s = Inr ts \<Longrightarrow> given_tokens s = ts"
  by (simp add: given_tokens_def fixed_tokens_Inr comp_def)

lemma dependency_tokens_of: "map dt_token_id ds = is \<Longrightarrow> map dt_form ds = ts \<Longrightarrow> map (\<lambda>(i, form). \<lparr>dt_token_id = i, dt_form = form\<rparr>) (zip is ts) = ds"
  by (induction ds arbitrary: "is" ts) auto

lemma built_shown:
  assumes "build_model_input s (task_value t) = Inr m"
  shows "m = shown_input t (sample_text s) (given_tokens s)"
proof (cases t)
  case DEPENDENCY
  then obtain ts ds where r: "fixed_tokens s = Inr ts"
      "rmapM (\<lambda>(i, form). DependencyTokenInput i form) (zip (token_range (length ts)) ts) = Inr ds" "DependencyModelInput ds = Inr m"
    using assms by (auto simp: build_model_input_def rbind_Inr_iff)
  then have ds: "fixed_tokens s = Inr ts" "map dt_token_id ds = token_range (length ts)" "map dt_form ds = ts" "m = DependencyInput ds"
    by (simp_all add: dependency_tokens_Inr DependencyModelInput_def split: if_splits)
  then show ?thesis
    using DEPENDENCY given_tokens_fixed [OF ds(1)] dependency_tokens_of [OF ds(2,3)] by simp
qed (use assms in \<open>auto simp: build_model_input_def rbind_Inr_iff SegmentationModelInput_def TaggingModelInput_def
      TransliterationModelInput_def given_tokens_fixed split: if_splits\<close>)

lemma run_requests_open:
  assumes "run_requests a t prompt ps = Inr rs"
    and "list_all (\<lambda>p. build_model_input (ps_sample p) (task_value t) = Inr (ps_input p)) ps"
  shows "rs = map (open_request a t prompt \<circ> ps_sample) ps"
proof -
  have "list_all2 (\<lambda>p r. ModelRequest t (pc_language (ca_public a)) (pc_treebank (ca_public a)) prompt (ps_input p) = Inr r) ps rs"
    using assms(1) by (simp add: run_requests_def rmapM_Inr_iff)
  then show ?thesis
    using assms(2)
  proof (induction rule: list_all2_induct)
    case (Cons p ps r rs)
    then have b: "build_model_input (ps_sample p) (task_value t) = Inr (ps_input p)" by simp
    have "r = open_request a t prompt (ps_sample p)"
      using Cons.hyps(1) canonicalize_well_formed [OF conjunct1 [OF build_well_formed [OF b]] conjunct2 [OF build_well_formed [OF b]]]
      by (auto simp: ModelRequest_def rbind_Inr_iff open_request_def built_shown [OF b])
    then show ?case using Cons by simp
  qed simp
qed

section \<open>Properties of a run\<close>

text \<open>C4. The provider sees each prepared sample at most once, in manifest order, under a deadline with a positive timeout, and
  each request holds the task, the language, the treebank, the student's prompt and the input made of the text and the given
  tokens, and nothing else of the sample; a run that returns a result has called it exactly once for every sample of the
  manifest.\<close>

theorem run_calls_provider_once:
  assumes "run_challenge P (logged E) cached a prompt deadline d (w, []) = (res, (w', calls))"
  shows "list_all (\<lambda>(_, timeout). timeout_ok deadline timeout) calls \<and>
    (calls = [] \<and> (\<exists>e. res = Inl e) \<or>
     (\<exists>prepared t. prepare_samples P cached a = Inr prepared \<and> TaskType (pc_task (ca_public a)) = Inr t \<and>
        map ps_manifest prepared = pm_samples (ca_private a) \<and>
        prefix (map fst calls) (map (open_request a t prompt \<circ> ps_sample) prepared) \<and>
        (\<forall>x. res = Inr x \<longrightarrow> length calls = length (pm_samples (ca_private a)))))"
  using assms
proof (cases rule: run_challenge_reaches_loop)
  case (2 prepared t requests started w1 w2 o1)
  obtain r w3 calls' where loop: "run_loop P (logged E) t deadline d (zip prepared requests) (w2, []) = (r, (w3, calls'))"
    by (metis prod.exhaust)
  from run_loop_log [OF loop] have calls': "prefix (map fst calls') (map snd (zip prepared requests))"
      "list_all (\<lambda>(_, timeout). timeout_ok deadline timeout) calls'"
      "\<forall>y. r = Inr y \<longrightarrow> map fst calls' = map snd (zip prepared requests)" by auto
  have len: "length requests = length prepared"
    using 2(3) rmapM_length by (auto simp: run_requests_def)
  have same: "calls = calls' \<and> (\<forall>x. res = Inr x \<longrightarrow> (\<exists>y. r = Inr y))"
    using 2(5) loop quietD [OF quiet_finish] by (cases r) (auto simp: run_bind_def)
  have snd: "map snd (zip prepared requests) = requests" using len by simp
  note ps = prepare_samples_Inr [OF 2(1,2)]
  have pre: "prefix (map fst calls) (map (open_request a t prompt \<circ> ps_sample) prepared)"
    using calls'(1) same snd run_requests_open [OF 2(3) ps(2)] by simp
  have "length calls = length (pm_samples (ca_private a))" if "res = Inr x" for x
  proof -
    have "map fst calls = requests" using that same calls'(3) snd by auto
    then show ?thesis using len ps(1) by (metis length_map)
  qed
  then show ?thesis using 2(1,2) ps(1) pre calls'(2) same by blast
qed simp

theorem run_calls_provider_once_witness:
  "\<exists>agg calls. run_challenge demo_platform (logged demo_effects) None demo_artifacts (u ''tag'') None None ((), []) =
     (Inr (agg, None), ((), calls)) \<and> length calls = 2"
proof -
  obtain agg calls where run: "run_challenge demo_platform (logged demo_effects) None demo_artifacts (u ''tag'')
      None None ((), []) = (Inr (agg, None), ((), calls))" using demo_run by blast
  from run_calls_provider_once [OF run] run show ?thesis by (auto simp: demo_artifacts)
qed

text \<open>C3. A run returns a complete aggregate or none: a result is the aggregate of one valid outcome for
  each sample of the manifest, in manifest order, and every error ends the run without a result.\<close>

theorem run_result_is_complete:
  assumes "run_challenge P E cached a prompt deadline d w = (Inr (agg, d'), w')"
  shows "\<exists>os. aggregate_challenge (pl_casefold P) (pl_sha P) a os = Inr agg \<and> list_all valid_outcome os \<and>
    map so_sample_id os = pm_sample_ids (ca_private a)"
proof -
  from assms obtain prepared t requests started os d1 w1 w2 where
    r: "prepare_samples P cached a = Inr prepared" "TaskType (pc_task (ca_public a)) = Inr t"
      "run_requests a t prompt prepared = Inr requests"
      "run_loop P E t deadline d (zip prepared requests) w1 = (Inr (os, d1), w2)"
    and fin: "finish_run P E a started (os, d1) w2 = (Inr (agg, d'), w')"
    unfolding run_challenge_loop run_bind_eq by (auto simp: run_pure_def)
  have "length requests = length prepared" using r(3) rmapM_length by (auto simp: run_requests_def)
  then have "map (ms_sample_id \<circ> ps_manifest \<circ> fst) (zip prepared requests) = pm_sample_ids (ca_private a)"
    using prepare_samples_Inr(1) [OF r(1,2)]
    by (simp flip: map_map add: pm_sample_ids_def)
  moreover have "aggregate_challenge (pl_casefold P) (pl_sha P) a os = Inr agg"
    using fin by (auto simp: finish_run_def elim!: run_bind_Inr split: option.splits)
  ultimately show ?thesis using run_loop_outcomes [OF r(4)] by auto
qed

theorem run_result_is_complete_witness:
  "\<exists>agg os. aggregate_challenge (\<lambda>s. s) demo_sha demo_artifacts os = Inr agg \<and>
     map so_sample_id os = [u ''s1'', u ''s2'']"
proof -
  obtain agg calls where run: "run_challenge demo_platform (logged demo_effects) None demo_artifacts (u ''tag'')
      None None ((), []) = (Inr (agg, None), ((), calls))" using demo_run by blast
  from run_result_is_complete [OF run] obtain os where
    "aggregate_challenge (\<lambda>s. s) demo_sha demo_artifacts os = Inr agg" "map so_sample_id os = pm_sample_ids (ca_private demo_artifacts)"
    by (auto simp: demo_platform_def)
  then show ?thesis by (intro exI [of _ agg] exI [of _ os]) (simp add: demo_artifacts pm_sample_ids_def)
qed

text \<open>Once the deadline of the job has passed, the run fails and the provider is never called.\<close>

theorem expired_deadline_calls_nothing:
  assumes "run_challenge P (logged E) cached a prompt (Some expires_at) d (w, []) = (res, (w', calls))"
    and "\<forall>w. expires_at \<le> fst (ef_utc_now E w)"
  shows "calls = [] \<and> (\<exists>e. res = Inl e)"
  using assms(1)
proof (cases rule: run_challenge_reaches_loop)
  case (2 prepared t requests started w1 w2 o1)
  obtain now w3 where now: "ef_utc_now E w1 = (now, w3)" by fastforce
  then have "expires_at - now \<le> 0" using assms(2) [rule_format, of w1] by simp
  then have "remaining_seconds expires_at now \<le> 0"
    using fl_mono [of 0 "of_int (now - expires_at) / 10 ^ 6"] by (auto simp: remaining_seconds_def Let_def)
  then show ?thesis using 2(4) now by (simp add: check_deadline_def logged_def require_remaining_def)
qed simp

theorem expired_deadline_calls_nothing_witness:
  "snd (snd (run_challenge demo_platform (logged demo_effects) None demo_artifacts (u ''tag'') (Some 100) None ((), []))) = []"
proof -
  obtain res w calls where run: "run_challenge demo_platform (logged demo_effects) None demo_artifacts (u ''tag'')
      (Some 100) None ((), []) = (res, (w, calls))" by (metis prod.exhaust)
  have "\<forall>w. 100 \<le> fst (ef_utc_now demo_effects w)" by (simp add: demo_effects_def)
  from expired_deadline_calls_nothing [OF run this] run show ?thesis by simp
qed

end
