(* ===== verification/Json_Roundtrip.thy ===== *)
theory Json_Roundtrip
  imports Json_Text
begin

text \<open>
  \<open>json.loads\<close> reads back what \<open>json.dumps\<close> writes, for values without floats whose objects have
  distinct keys, whose integers are within the digit limit and whose nesting is within the
  interpreter's depth.
\<close>

section \<open>Strings\<close>

lemma hex_value_digit: "d < 16 \<Longrightarrow> hex_value (hex_digit d) = Some d"
  by (auto simp: hex_value_def hex_digit_def is_digit_def)

lemma hex4_small: "c < 32 \<Longrightarrow> hex4 48 48 (hex_digit (c div 16)) (hex_digit (c mod 16)) = Some c"
  using hex_value_digit [of "c div 16"] hex_value_digit [of "c mod 16"]
  by (simp add: hex4_def hex_value_def [of 48] is_digit_def)

lemma scan_small_escape:
  "c < 32 \<Longrightarrow> scan_escape (117 # 48 # 48 # hex_digit (c div 16) # hex_digit (c mod 16) # t) = Some (c, t)"
  by (simp add: scan_escape_def scan_unicode_def hex4_small high_surrogate_def)

lemma scan_escaped: "scan_string (escape_char c @ t) = emit c (scan_string t)"
proof -
  consider "c \<in> {34, 92, 10, 13, 9, 8, 12}" | "c < 32" "c \<notin> {34, 92, 10, 13, 9, 8, 12}"
    | "\<not> c < 32" "c \<notin> {34, 92}" by fastforce
  then show ?thesis
  proof cases
    case 1
    then show ?thesis by (auto simp: escape_char_def scan_escape_def simple_escape_def)
  next
    case 2
    then show ?thesis by (simp add: escape_char_def scan_small_escape)
  next
    case 3
    then show ?thesis by (auto simp: escape_char_def)
  qed
qed

lemma scan_dumped_string: "scan_string (concat (map escape_char s) @ 34 # r) = Some (s, r)"
  by (induction s) (simp_all add: scan_escaped emit_def)

lemma scan_key_dumped: "scan_key (dump_string k @ r) = Inr (k, r)"
  by (simp add: scan_key_def dump_string_def scan_dumped_string)

section \<open>Numbers\<close>

lemma nat_text_digits: "list_all is_digit (nat_text n)"
proof (induction n rule: less_induct)
  case (less n)
  show ?case
  proof (cases "n < 10")
    case True
    then show ?thesis by (subst nat_text.simps) (simp add: is_digit_def)
  next
    case False
    have "n mod 10 < 10" by simp
    then have "is_digit (48 + n mod 10)" unfolding is_digit_def by linarith
    then show ?thesis using False less [of "n div 10"] by (subst nat_text.simps) simp
  qed
qed

lemma nat_text_head: "\<exists>c t. nat_text n = c # t \<and> is_digit c \<and> (c = 48 \<longrightarrow> n = 0 \<and> t = [])"
proof (induction n rule: less_induct)
  case (less n)
  show ?case
  proof (cases "n < 10")
    case True
    then show ?thesis by (subst nat_text.simps) (simp add: is_digit_def)
  next
    case False
    from less [of "n div 10"] False obtain c t where
      "nat_text (n div 10) = c # t" "is_digit c" "c = 48 \<longrightarrow> n div 10 = 0 \<and> t = []" by auto
    with False show ?thesis by (subst nat_text.simps) auto
  qed
qed

lemma digits_value_append: "digits_value (xs @ [d]) = digits_value xs * 10 + int (d - 48)"
  by (simp add: digits_value_def)

lemma digits_value_nat_text: "digits_value (nat_text n) = int n"
proof (induction n rule: less_induct)
  case (less n)
  show ?case
  proof (cases "n < 10")
    case True
    then show ?thesis by (subst nat_text.simps) (simp add: digits_value_def)
  next
    case False
    then have "digits_value (nat_text n) = int (n div 10) * 10 + int (n mod 10)"
      using less [of "n div 10"] by (subst nat_text.simps) (simp add: digits_value_append)
    also have "\<dots> = int n" by (metis div_mult_mod_eq of_nat_add of_nat_mult of_nat_numeral)
    finally show ?thesis .
  qed
qed

text \<open>What may follow a number.\<close>

definition ends :: "pystr \<Rightarrow> bool" where
  "ends r \<longleftrightarrow> (case r of [] \<Rightarrow> True | c # _ \<Rightarrow> \<not> is_digit c \<and> c \<noteq> 46 \<and> c \<noteq> 101 \<and> c \<noteq> 69)"

lemma ends_takeWhile:
  assumes "ends r" "list_all is_digit ds"
  shows "takeWhile is_digit (ds @ r) = ds" "dropWhile is_digit (ds @ r) = r"
  using assms by (auto simp: ends_def list_all_iff takeWhile_append split: list.splits)

lemma scan_int_text:
  assumes "ends r"
  shows "scan_int_part (nat_text n @ r) = Some (nat_text n, r)"
proof -
  obtain c t where c: "nat_text n = c # t" "is_digit c" "c = 48 \<longrightarrow> n = 0 \<and> t = []" using nat_text_head by blast
  show ?thesis
  proof (cases "c = 48")
    case True
    then show ?thesis using c by (simp add: scan_int_part_def)
  next
    case False
    then show ?thesis using c ends_takeWhile [OF assms nat_text_digits [of n]] by (simp add: scan_int_part_def)
  qed
qed

lemma scan_ends: "ends r \<Longrightarrow> scan_fraction r = ([], r) \<and> scan_exponent r = (None, r)"
  by (auto simp: ends_def scan_fraction_def scan_exponent_def split: list.splits)

definition short_int :: "int \<Rightarrow> bool" where
  "short_int i \<longleftrightarrow> length (nat_text (nat \<bar>i\<bar>)) \<le> max_int_digits"

lemma scan_number_int:
  assumes "ends r" "short_int i"
  shows "scan_number (int_text i @ r) = Inr (JInt i, r)"
proof -
  obtain c t where c: "nat_text (nat i) = c # t" "is_digit c" using nat_text_head by blast
  then have "c \<noteq> 45" by (auto simp: is_digit_def)
  then have "(case nat_text (nat i) @ r of [] \<Rightarrow> (False, nat_text (nat i) @ r)
      | c # t \<Rightarrow> if c = 45 then (True, t) else (False, nat_text (nat i) @ r)) = (False, nat_text (nat i) @ r)"
    by (simp add: c)
  then show ?thesis
    using assms scan_int_text [OF assms(1), of "nat i"] scan_int_text [OF assms(1), of "nat (- i)"] scan_ends [OF assms(1)]
    by (cases "i < 0") (auto simp: scan_number_def int_text_def short_int_def digits_value_nat_text)
qed
section \<open>Values\<close>

text \<open>The values that are read back; \<open>d\<close> is the depth of nesting that is left.\<close>

fun plain :: "nat \<Rightarrow> json \<Rightarrow> bool" where
  "plain d (JFloat _) = False"
| "plain d (JInt i) = short_int i"
| "plain d (JArr js) = (0 < d \<and> list_all (plain (d - 1)) js)"
| "plain d (JObj ms) = (0 < d \<and> distinct (map fst ms) \<and> list_all (\<lambda>(_, j). plain (d - 1) j) ms)"
| "plain d _ = True"

lemma int_text_head: "\<exists>c t. int_text i = c # t \<and> (is_digit c \<or> c = 45 \<and> (\<exists>e t'. t = e # t' \<and> is_digit e))"
  using nat_text_head [of "nat i"] nat_text_head [of "nat (- i)"] by (auto simp: int_text_def)

lemma dumps_head:
  assumes "plain d j"
  shows "\<exists>c t. dumps fr j = c # t \<and> \<not> is_ws c \<and> c \<noteq> 93 \<and> c \<noteq> 125 \<and> c \<noteq> 65279"
proof (cases j)
  case (JInt i)
  then show ?thesis using int_text_head [of i] by (auto simp: is_digit_def is_ws_def)
qed (use assms in \<open>auto simp: is_ws_def u_def dump_string_def\<close>)

lemma dumps_nonempty: "plain d j \<Longrightarrow> dumps fr j \<noteq> []"
  using dumps_head [of d j fr] by auto

lemma scan_scalar:
  assumes "plain d j" "ends r" "\<And>js. j \<noteq> JArr js" "\<And>ms. j \<noteq> JObj ms"
  shows "scan_value d (dumps fr j @ r) = Inr (j, r)"
proof (cases j)
  case (JInt i)
  obtain c t where c: "int_text i = c # t" "is_digit c \<or> c = 45 \<and> (\<exists>e t'. t = e # t' \<and> is_digit e)"
    using int_text_head by metis
  have "c \<noteq> 34 \<and> c \<noteq> 123 \<and> c \<noteq> 91" using c(2) by (auto simp: is_digit_def)
  moreover have "scan_keyword json_keywords (c # t @ r) = None"
    using c(2) by (auto simp: json_keywords_def u_def is_digit_def)
  moreover have "scan_number (c # t @ r) = Inr (JInt i, r)"
    using scan_number_int [OF assms(2), of i] assms(1) JInt c(1) by simp
  ultimately have "scan_value d (c # t @ r) = Inr (JInt i, r)" by (subst scan_value.simps) simp
  then show ?thesis using JInt c(1) by simp
next
  case (JStr s)
  then show ?thesis using scan_key_dumped [of s r] by (subst scan_value.simps) (simp add: dump_string_def)
next
  case (JBool b)
  then show ?thesis by (subst scan_value.simps) (simp add: u_def json_keywords_def)
next
  case JNull
  then show ?thesis by (subst scan_value.simps) (simp add: u_def json_keywords_def)
qed (use assms in auto)

text \<open>A sequence of items, each written by \<open>txt\<close> and read by \<open>p\<close>.\<close>

lemma scan_seq_items:
  assumes item: "\<And>x r. x \<in> set xs \<Longrightarrow> ends r \<Longrightarrow> p (txt x @ r) = Inr (x, r)"
    and head: "\<And>x. x \<in> set xs \<Longrightarrow> \<exists>c t. txt x = c # t \<and> \<not> is_ws c"
    and "xs \<noteq> []" "length xs \<le> n" "close = 93 \<or> close = 125"
  shows "scan_seq p close n (join_with 44 (map txt xs) @ close # r) = Inr (xs, r)"
  using assms
proof (induction xs arbitrary: n)
  case (Cons x xs)
  then obtain m where n: "n = Suc m" by (cases n) auto
  have close: "ends (close # r)" "\<not> is_ws close" "close \<noteq> 44"
    using Cons.prems(5) by (auto simp: ends_def is_digit_def is_ws_def)
  show ?case
  proof (cases xs)
    case Nil
    then show ?thesis using Cons.prems(1) [of x "close # r"] close n by (simp add: next_char_def skip_ws_def)
  next
    case (Cons y ys)
    let ?rest = "join_with 44 (map txt xs) @ close # r"
    obtain c t where "txt y = c # t" "\<not> is_ws c" using Cons.prems(2) [of y] Cons by auto
    then have ws: "skip_ws ?rest = ?rest" using Cons by (cases ys) (simp_all add: skip_ws_def)
    have "ends (44 # ?rest)" by (simp add: ends_def is_digit_def)
    then have "p (txt x @ 44 # ?rest) = Inr (x, 44 # ?rest)" by (intro Cons.prems(1)) simp
    moreover have "scan_seq p close m ?rest = Inr (xs, r)"
      using Cons.prems n Cons by (intro Cons.IH) auto
    ultimately show ?thesis
      using Cons n ws close by (simp add: next_char_def skip_ws_def is_ws_def)
  qed
qed simp

lemma join_length: "(\<And>x. x \<in> set xs \<Longrightarrow> txt x \<noteq> []) \<Longrightarrow> length xs \<le> length (join_with c (map txt xs))"
proof (induction xs)
  case (Cons x xs)
  then have "txt x \<noteq> []" by simp
  then have "0 < length (txt x)" by simp
  with Cons show ?case by (cases xs) (auto simp: Suc_le_eq)
qed simp

lemma build_dict_distinct: "distinct (map fst ms) \<Longrightarrow> build_dict ms = ms"
proof -
  have "distinct (map fst (acc @ ms)) \<Longrightarrow> fold (\<lambda>(k, v). dict_set k v) ms acc = acc @ ms" for acc
  proof (induction ms arbitrary: acc)
    case (Cons m ms)
    then have "dict_set (fst m) (snd m) acc = acc @ [m]" by (subst dict_set_fresh) auto
    with Cons.IH [of "acc @ [m]"] Cons.prems show ?case by (simp add: case_prod_unfold)
  qed simp
  from this [of "[]"] show "distinct (map fst ms) \<Longrightarrow> ?thesis" by (simp add: build_dict_def)
qed

lemma scan_array:
  assumes "skip_ws t = c # t'" "c \<noteq> 93" "scan_seq (scan_value d) 93 (Suc (length t)) (c # t') = Inr (js, r)"
  shows "scan_value (Suc d) (91 # t) = Inr (JArr js, r)"
  using assms by (subst scan_value.simps) (simp add: next_char_def del: scan_seq.simps)

lemma scan_object:
  assumes "skip_ws t = c # t'" "c \<noteq> 125" "scan_seq (scan_member (scan_value d)) 125 (Suc (length t)) (c # t') = Inr (ms, r)"
  shows "scan_value (Suc d) (123 # t) = Inr (JObj (build_dict ms), r)"
  using assms by (subst scan_value.simps) (simp add: next_char_def del: scan_seq.simps)

lemma scan_value_dumped: "plain d j \<Longrightarrow> ends r \<Longrightarrow> scan_value d (dumps fr j @ r) = Inr (j, r)"
proof (induction d arbitrary: j r)
  case 0
  then show ?case by (intro scan_scalar) auto
next
  case (Suc d)
  show ?case
  proof (cases j)
    case (JArr js)
    have js: "list_all (plain d) js" using Suc.prems JArr by simp
    show ?thesis
    proof (cases js)
      case Nil
      then show ?thesis using JArr by (subst scan_value.simps) (simp add: next_char_def skip_ws_def is_ws_def)
    next
      case (Cons x xs)
      let ?txt = "dumps fr" and ?t = "join_with 44 (map (dumps fr) js) @ 93 # r"
      obtain c t where c: "dumps fr x = c # t" "\<not> is_ws c" "c \<noteq> 93" using dumps_head [of d x fr] js Cons by auto
      then have ws: "skip_ws ?t = ?t" "\<exists>t'. ?t = c # t'" using Cons by (cases xs; simp add: skip_ws_def)+
      have "scan_seq (scan_value d) 93 (Suc (length ?t)) ?t = Inr (js, r)"
      proof (rule scan_seq_items)
        fix y q assume "y \<in> set js" "ends q"
        then show "scan_value d (dumps fr y @ q) = Inr (y, q)" using js by (intro Suc.IH) (auto simp: list_all_iff)
      next
        fix y assume "y \<in> set js"
        then show "\<exists>c t. dumps fr y = c # t \<and> \<not> is_ws c" using js dumps_head [of d y fr] by (auto simp: list_all_iff)
      next
        have "length js \<le> length (join_with 44 (map (dumps fr) js))"
          using js by (intro join_length dumps_nonempty [of d]) (simp add: list_all_iff)
        then show "length js \<le> Suc (length ?t)" by simp
      qed (use Cons in auto)
      then have "scan_value (Suc d) (91 # ?t) = Inr (JArr js, r)"
        using ws c(3) by (metis scan_array)
      then show ?thesis using JArr by simp
    qed
  next
    case (JObj ms)
    have ms: "distinct (map fst ms)" "\<forall>m \<in> set ms. plain d (snd m)"
      using Suc.prems JObj by (auto simp: list_all_iff)
    let ?txt = "\<lambda>(k, j). dump_string k @ 58 # dumps fr j"
    show ?thesis
    proof (cases ms)
      case Nil
      then show ?thesis using JObj by (subst scan_value.simps) (simp add: next_char_def skip_ws_def is_ws_def)
    next
      case (Cons x xs)
      let ?t = "join_with 44 (map ?txt ms) @ 125 # r"
      have head: "\<exists>t. ?txt m = 34 # t" for m by (cases m) (simp add: dump_string_def)
      then obtain t where c: "?txt x = 34 # t" by blast
      then have ws: "skip_ws ?t = ?t" "\<exists>t'. ?t = 34 # t'" using Cons by (cases xs; simp add: skip_ws_def is_ws_def)+
      have "scan_seq (scan_member (scan_value d)) 125 (Suc (length ?t)) ?t = Inr (ms, r)"
      proof (rule scan_seq_items)
        fix m q assume m: "m \<in> set ms" "ends q"
        obtain k j' where [simp]: "m = (k, j')" by force
        have p: "plain d j'" using ms(2) m(1) by force
        obtain e t' where "dumps fr j' = e # t'" "\<not> is_ws e" using dumps_head [OF p, of fr] by blast
        then have "skip_ws (dumps fr j' @ q) = dumps fr j' @ q" by (simp add: skip_ws_def)
        then show "scan_member (scan_value d) (?txt m @ q) = Inr (m, q)"
          using scan_key_dumped [of k "58 # dumps fr j' @ q"] Suc.IH [OF p m(2)]
          by (simp add: scan_member_def next_char_def skip_ws_def is_ws_def)
      next
        fix m assume "m \<in> set ms"
        then show "\<exists>c t. ?txt m = c # t \<and> \<not> is_ws c" using head [of m] by (auto simp: is_ws_def)
      next
        have "length ms \<le> length (join_with 44 (map ?txt ms))" using head by (intro join_length) force
        then show "length ms \<le> Suc (length ?t)" by simp
      qed (use Cons in auto)
      moreover have "(34::nat) \<noteq> 125" by simp
      ultimately have "scan_value (Suc d) (123 # ?t) = Inr (JObj (build_dict ms), r)"
        using ws by (metis scan_object)
      then show ?thesis using JObj build_dict_distinct [OF ms(1)] by simp
    qed
  qed (use scan_scalar [OF Suc.prems] in simp_all)
qed

lemma loads_dumps:
  assumes "plain depth j"
  shows "loads depth (dumps fr j) = Inr j"
proof -
  obtain c t where "dumps fr j = c # t" "\<not> is_ws c" "c \<noteq> 65279" using dumps_head [OF assms, of fr] by blast
  then show ?thesis
    using scan_value_dumped [OF assms, of "[]" fr] by (simp add: loads_def skip_ws_def ends_def)
qed


end
