(* ===== verification/Evaluation_Contract.thy ===== *)
theory Evaluation_Contract
  imports Aggregation Json_Roundtrip
begin

text \<open>
  Frozen evaluation contracts, \<open>src/linguistic_oj/mvp_contract.py\<close>: canonical JSON, the
  validation of a contract, its projection of an aggregate for the owner and the check that it may
  be activated for external users.  SHA-256, regular expressions, pydantic schemas, \<open>float.__repr__\<close>, \<open>str\<close> of a
  value that is not a string and \<open>int\<close> of a string are fields of \<open>runtime\<close>.
\<close>

section \<open>Text and values\<close>

text \<open>UTF-8, one code point at a time; a surrogate has no encoding.\<close>

definition utf8_char :: "nat \<Rightarrow> nat list" where
  "utf8_char c =
     (if c < 128 then [c]
      else if c < 2048 then [192 + c div 64, 128 + c mod 64]
      else if c < 65536 then [224 + c div 4096, 128 + (c div 64) mod 64, 128 + c mod 64]
      else [240 + c div 262144, 128 + (c div 4096) mod 64, 128 + (c div 64) mod 64, 128 + c mod 64])"

definition utf8 :: "pystr \<Rightarrow> nat list result" where
  "utf8 s = (if list_ex is_surrogate s then raise UnicodeError ''surrogates not allowed''
             else Inr (concat (map utf8_char s)))"

record runtime =
  rt_depth :: nat
  rt_float_repr :: "pyfloat \<Rightarrow> pystr"
  rt_sha :: "nat list \<Rightarrow> pystr"
  rt_str :: "json \<Rightarrow> pystr"
  rt_int :: "pystr \<Rightarrow> int result"
  rt_re_compile :: "pystr \<Rightarrow> unit result"
  rt_fullmatch :: "pystr \<Rightarrow> pystr \<Rightarrow> bool"
  rt_schema :: "task_type \<Rightarrow> json"

fun sort_keys :: "json \<Rightarrow> json" where
  "sort_keys (JArr js) = JArr (map sort_keys js)"
| "sort_keys (JObj ms) = JObj (sort_key fst (map (\<lambda>(k, j). (k, sort_keys j)) ms))"
| "sort_keys j = j"

fun finite_json :: "json \<Rightarrow> bool" where
  "finite_json (JFloat x) = (case x of Fin _ \<Rightarrow> True | _ \<Rightarrow> False)"
| "finite_json (JArr js) = list_all finite_json js"
| "finite_json (JObj ms) = list_all (\<lambda>(_, j). finite_json j) ms"
| "finite_json _ = True"

definition canonical_json :: "runtime \<Rightarrow> json \<Rightarrow> pystr result" where
  "canonical_json R j =
     (if finite_json j then Inr (dumps (rt_float_repr R) (sort_keys j))
      else raise ValueError ''Out of range float values are not JSON compliant'')"

definition canonical_sha256 :: "runtime \<Rightarrow> json \<Rightarrow> pystr result" where
  "canonical_sha256 R j = rbind (canonical_json R j) (\<lambda>s. rbind (utf8 s) (\<lambda>b. Inr (rt_sha R b)))"

definition py_loads :: "runtime \<Rightarrow> pystr \<Rightarrow> json result" where
  "py_loads R s =
     (case loads (rt_depth R) s of
        Inr j \<Rightarrow> Inr j
      | Inl JSONDecodeError \<Rightarrow> raise ValueError ''Expecting value''
      | Inl IntDigitLimit \<Rightarrow> raise ValueError ''Exceeds the limit for integer string conversion''
      | Inl RecursionLimit \<Rightarrow> raise RecursionError ''maximum recursion depth exceeded'')"

text \<open>\<open>d.get(k)\<close> and \<open>d[k]\<close> on a parsed object.\<close>

definition json_get :: "(pystr \<times> json) list \<Rightarrow> string \<Rightarrow> json" where
  "json_get d k = (case map_of d (u k) of None \<Rightarrow> JNull | Some j \<Rightarrow> j)"

definition json_item :: "(pystr \<times> json) list \<Rightarrow> string \<Rightarrow> json result" where
  "json_item d k = (case map_of d (u k) of None \<Rightarrow> raise KeyError k | Some j \<Rightarrow> Inr j)"

definition as_mapping :: "json \<Rightarrow> (pystr \<times> json) list result" where
  "as_mapping j = (case j of JObj ms \<Rightarrow> Inr ms | _ \<Rightarrow> raise ValueError ''must be a JSON object'')"

definition mapping_field :: "(pystr \<times> json) list \<Rightarrow> string \<Rightarrow> (pystr \<times> json) list result" where
  "mapping_field d k = as_mapping (json_get d k)"

definition check :: "bool \<Rightarrow> string \<Rightarrow> unit result" where
  "check b m = ensure b (Exc ValueError m)"

lemma check_Inr [simp]: "check b m = Inr r \<longleftrightarrow> b"
  by (simp add: check_def)

lemma check_True [simp]: "check True m = Inr ()"
  by (simp add: check_def ensure_def)

fun nonempty_text :: "json \<Rightarrow> bool" where
  "nonempty_text (JStr s) = (s \<noteq> [])"
| "nonempty_text _ = False"

fun positive_int :: "json \<Rightarrow> bool" where
  "positive_int (JInt i) = (0 < i)"
| "positive_int _ = False"

fun int_value :: "json \<Rightarrow> int" where
  "int_value (JInt i) = i"
| "int_value _ = 0"

fun hashable :: "json \<Rightarrow> bool" where
  "hashable (JArr _) = False"
| "hashable (JObj _) = False"
| "hashable _ = True"

text \<open>Iterating a value: a list's items, a string's characters, a dictionary's keys.\<close>

fun py_iter :: "json \<Rightarrow> json list result" where
  "py_iter (JArr js) = Inr js"
| "py_iter (JStr s) = Inr (map (\<lambda>c. JStr [c]) s)"
| "py_iter (JObj ms) = Inr (map (JStr \<circ> fst) ms)"
| "py_iter _ = raise TypeError ''object is not iterable''"

text \<open>\<open>int\<close> truncates a float towards zero.\<close>

fun py_int :: "runtime \<Rightarrow> json \<Rightarrow> int result" where
  "py_int R (JInt i) = Inr i"
| "py_int R (JBool b) = Inr (if b then 1 else 0)"
| "py_int R (JFloat (Fin q)) = Inr (if 0 \<le> q then \<lfloor>q\<rfloor> else - \<lfloor>- q\<rfloor>)"
| "py_int R (JFloat _) = raise ValueError ''cannot convert float to integer''"
| "py_int R (JStr s) = rt_int R s"
| "py_int R _ = raise TypeError ''int() argument must be a string or a number''"

section \<open>The contract\<close>

text \<open>
  The limits that are compared with a count are natural numbers: a negative one admits nothing,
  as zero does.
\<close>

record evaluation_contract =
  ec_snapshot_json :: pystr
  ec_contract_version :: pystr
  ec_challenge_id :: pystr
  ec_catalog_status :: pystr
  ec_identity_sha256 :: pystr
  ec_snapshot_sha256 :: pystr
  ec_owner_result_fields :: "json list"
  ec_owner_failure_fields :: "json list"
  ec_leaderboard_fields :: "json list"
  ec_key_pattern :: pystr
  ec_prompt_bytes :: int
  ec_prompt_tokens :: int
  ec_body_bytes :: int
  ec_max_rendered :: int
  ec_context_tokens :: int
  ec_submissions_per_day :: nat
  ec_max_outstanding :: nat
  ec_max_running :: nat
  ec_global_queue_depth :: nat
  ec_max_attempts :: nat
  ec_job_deadline_seconds :: int
  ec_request_timeout_seconds :: int
  ec_response_bytes :: int
  ec_model_concurrency :: int
  ec_retry_requires_termination :: bool
  ec_failure_version :: pystr
  ec_retryable_codes :: "pystr list"

definition canonicalization_parameters :: "(pystr \<times> json) list" where
  "canonicalization_parameters =
     [(u ''allow_nan'', JBool False), (u ''ensure_ascii'', JBool False),
      (u ''separators'', JArr [JStr (u '',''), JStr (u '':'')]), (u ''sort_keys'', JBool True)]"

text \<open>
  The comparison with \<open>_CANONICALIZATION_PARAMETERS\<close>: keys in any order, and 0 and 1 in place of
  the truth values compare equal, as floats do.
\<close>

fun py_truth :: "bool \<Rightarrow> json \<Rightarrow> bool" where
  "py_truth b (JBool c) = (b = c)"
| "py_truth b (JInt i) = (i = (if b then 1 else 0))"
| "py_truth b (JFloat (Fin q)) = (q = (if b then 1 else 0))"
| "py_truth b _ = False"

definition parameters_match :: "json \<Rightarrow> bool" where
  "parameters_match j =
     (case j of
        JObj ms \<Rightarrow> length ms = 4 \<and> py_truth False (json_get ms ''allow_nan'') \<and>
          py_truth False (json_get ms ''ensure_ascii'') \<and>
          json_get ms ''separators'' = JArr [JStr (u '',''), JStr (u '':'')] \<and>
          py_truth True (json_get ms ''sort_keys'')
      | _ \<Rightarrow> False)"

text \<open>The set of retryable codes and the codes the failure contract declares retryable.\<close>

definition code_set :: "(pystr \<times> json) list \<Rightarrow> json list result" where
  "code_set job_policy =
     rbind (case map_of job_policy (u ''retryable_failure_codes'') of None \<Rightarrow> Inr [] | Some j \<Rightarrow> py_iter j) (\<lambda>js.
       if list_all hashable js then Inr js else raise TypeError ''unhashable type'')"

definition declared_retryable :: "(pystr \<times> json) list \<Rightarrow> pystr list" where
  "declared_retryable codes = map fst (filter (\<lambda>(_, policy).
     case policy of JObj ms \<Rightarrow> json_get ms ''retryable'' = JBool True | _ \<Rightarrow> False) codes)"

definition same_codes :: "json list \<Rightarrow> pystr list \<Rightarrow> bool" where
  "same_codes js declared \<longleftrightarrow> set js = JStr ` set declared"

definition contract_limits :: "runtime \<Rightarrow> (pystr \<times> json) list \<Rightarrow> string \<Rightarrow> int result" where
  "contract_limits R limits k = rbind (json_item limits k) (py_int R)"

definition item_tuple :: "(pystr \<times> json) list \<Rightarrow> string \<Rightarrow> json list result" where
  "item_tuple d k = rbind (json_item d k) py_iter"

definition py_str_value :: "runtime \<Rightarrow> json \<Rightarrow> pystr" where
  "py_str_value R j = (case j of JStr s \<Rightarrow> s | _ \<Rightarrow> rt_str R j)"
section \<open>Validation\<close>

text \<open>The checks on the leaderboard partition; the result is the digest of the identity.\<close>

definition check_partition :: "runtime \<Rightarrow> (pystr \<times> json) list \<Rightarrow> (pystr \<times> json) list \<Rightarrow> pystr result" where
  "check_partition R identity part =
     rbind (check (json_get part ''algorithm'' = JStr (u ''sha256'')) ''unsupported leaderboard hash algorithm'') (\<lambda>_.
     rbind (check (json_get part ''canonicalization'' = JStr (u ''python-json-v1''))
       ''unsupported leaderboard canonicalization'') (\<lambda>_.
     rbind (check (parameters_match (json_get part ''canonicalization_parameters''))
       ''leaderboard canonicalization parameters do not match'') (\<lambda>_.
     rbind (check (json_get part ''canonical_json_source'' = JStr (u ''evaluation_identity''))
       ''leaderboard source must be evaluation_identity'') (\<lambda>_.
     rbind (canonical_sha256 R (JObj identity)) (\<lambda>digest.
     rbind (check (json_get part ''expected_sha256'' = JStr digest)
       ''evaluation identity SHA-256 does not match the contract'') (\<lambda>_. Inr digest))))))"

definition check_names :: "(pystr \<times> json) list \<Rightarrow> (pystr \<times> json) list \<Rightarrow> (pystr \<times> json) list \<Rightarrow> unit result" where
  "check_names config identity catalog =
     (let version = json_get config ''contract_version''; challenge = json_get catalog ''challenge_id'';
          status = json_get catalog ''status''
      in rbind (check (list_all nonempty_text [version, challenge, status])
           ''contract, challenge, and catalog status must be non-empty'') (\<lambda>_.
         rbind (check (status \<in> {JStr (u ''draft''), JStr (u ''active'')}) ''unsupported catalog status'') (\<lambda>_.
         rbind (check (json_get identity ''contract_version'' = version) ''identity contract version does not match'') (\<lambda>_.
           check (json_get identity ''challenge_id'' = challenge) ''identity challenge does not match''))))"

definition check_key_pattern :: "runtime \<Rightarrow> (pystr \<times> json) list \<Rightarrow> unit result" where
  "check_key_pattern R idempotency =
     rbind (check (is_str (json_get idempotency ''key_ascii_pattern'') \<and>
         json_get idempotency ''key_match_semantics'' = JStr (u ''ascii_fullmatch''))
       ''unsupported idempotency-key contract'') (\<lambda>_.
       rt_re_compile R (str_of (json_get idempotency ''key_ascii_pattern'')))"

definition check_limits :: "(pystr \<times> json) list \<Rightarrow> (pystr \<times> json) list \<Rightarrow> (pystr \<times> json) list \<Rightarrow> unit result" where
  "check_limits limits job_policy identity =
     rbind (check (list_all positive_int [json_get limits ''provider_response_body_bytes'',
         json_get limits ''worker_model_concurrency'', json_get job_policy ''provider_request_timeout_seconds''])
       ''provider and worker limits must be positive integers'') (\<lambda>_.
     rbind (check (json_get job_policy ''retry_requires_prior_request_terminated'' \<in> {JBool True, JBool False})
       ''retry termination policy must be boolean'') (\<lambda>_.
     rbind (mapping_field identity ''generation_settings'') (\<lambda>settings.
       (let max_tokens = json_get settings ''max_tokens''; rendered = json_get limits ''max_rendered_input_tokens'';
            context_tokens = json_get limits ''model_context_tokens''
        in rbind (check (list_all positive_int [max_tokens, rendered, context_tokens])
             ''model token limits must be positive integers'') (\<lambda>_.
           check (int_value rendered + int_value max_tokens \<le> int_value context_tokens)
             ''input and generation token limits exceed the model context'')))))"

definition from_mapping :: "runtime \<Rightarrow> (pystr \<times> json) list \<Rightarrow> evaluation_contract result" where
  "from_mapping R value =
     rbind (canonical_json R (JObj value)) (\<lambda>snapshot.
     rbind (py_loads R snapshot) (\<lambda>j. rbind (as_mapping j) (\<lambda>config.
     rbind (mapping_field config ''evaluation_identity'') (\<lambda>identity.
     rbind (mapping_field config ''leaderboard_partition'') (\<lambda>part.
     rbind (check_partition R identity part) (\<lambda>identity_sha256.
     rbind (mapping_field config ''catalog'') (\<lambda>catalog.
     rbind (mapping_field config ''feedback'') (\<lambda>feedback.
     rbind (mapping_field config ''idempotency'') (\<lambda>idempotency.
     rbind (mapping_field config ''limits'') (\<lambda>limits.
     rbind (mapping_field config ''job_policy'') (\<lambda>job_policy.
     rbind (mapping_field config ''failure_contract'') (\<lambda>failure_contract.
     rbind (mapping_field failure_contract ''codes'') (\<lambda>failure_codes.
     rbind (check_names config identity catalog) (\<lambda>_.
     rbind (check_key_pattern R idempotency) (\<lambda>_.
     rbind (code_set job_policy) (\<lambda>retryable.
     rbind (check (same_codes retryable (declared_retryable failure_codes))
       ''retryable failure-code declarations do not match'') (\<lambda>_.
     rbind (check_limits limits job_policy identity) (\<lambda>_.
     rbind (utf8 snapshot) (\<lambda>snapshot_bytes.
     rbind (item_tuple feedback ''owner_result_fields'') (\<lambda>result_fields.
     rbind (item_tuple feedback ''owner_failure_fields'') (\<lambda>failure_fields.
     rbind (item_tuple feedback ''public_leaderboard_fields'') (\<lambda>leaderboard_fields.
     rbind (contract_limits R limits ''student_prompt_utf8_bytes'') (\<lambda>prompt_bytes.
     rbind (contract_limits R limits ''student_prompt_tokens'') (\<lambda>prompt_tokens.
     rbind (contract_limits R limits ''api_request_body_bytes'') (\<lambda>body_bytes.
     rbind (contract_limits R limits ''max_rendered_input_tokens'') (\<lambda>rendered.
     rbind (contract_limits R limits ''model_context_tokens'') (\<lambda>context_tokens.
     rbind (contract_limits R limits ''submissions_per_user_per_challenge_per_24h'') (\<lambda>per_day.
     rbind (contract_limits R limits ''max_outstanding_submissions_per_user'') (\<lambda>max_outstanding.
     rbind (contract_limits R limits ''max_running_submissions_per_user'') (\<lambda>max_running.
     rbind (contract_limits R limits ''global_queue_depth'') (\<lambda>queue_depth.
     rbind (contract_limits R job_policy ''max_attempts'') (\<lambda>max_attempts.
     rbind (contract_limits R job_policy ''job_deadline_seconds'') (\<lambda>job_deadline.
     rbind (json_item failure_contract ''version'') (\<lambda>version.
       Inr \<lparr>ec_snapshot_json = snapshot,
            ec_contract_version = str_of (json_get config ''contract_version''),
            ec_challenge_id = str_of (json_get catalog ''challenge_id''),
            ec_catalog_status = str_of (json_get catalog ''status''),
            ec_identity_sha256 = identity_sha256,
            ec_snapshot_sha256 = rt_sha R snapshot_bytes,
            ec_owner_result_fields = result_fields, ec_owner_failure_fields = failure_fields,
            ec_leaderboard_fields = leaderboard_fields,
            ec_key_pattern = str_of (json_get idempotency ''key_ascii_pattern''),
            ec_prompt_bytes = prompt_bytes, ec_prompt_tokens = prompt_tokens, ec_body_bytes = body_bytes,
            ec_max_rendered = rendered, ec_context_tokens = context_tokens,
            ec_submissions_per_day = nat per_day, ec_max_outstanding = nat max_outstanding,
            ec_max_running = nat max_running, ec_global_queue_depth = nat queue_depth,
            ec_max_attempts = nat max_attempts, ec_job_deadline_seconds = job_deadline,
            ec_request_timeout_seconds = int_value (json_get job_policy ''provider_request_timeout_seconds''),
            ec_response_bytes = int_value (json_get limits ''provider_response_body_bytes''),
            ec_model_concurrency = int_value (json_get limits ''worker_model_concurrency''),
            ec_retry_requires_termination =
              (json_get job_policy ''retry_requires_prior_request_terminated'' = JBool True),
            ec_failure_version = py_str_value R version,
            ec_retryable_codes = declared_retryable failure_codes\<rparr>))))))))))))))))))))))))))))))))))"

text \<open>The properties of a contract parse its snapshot again.\<close>

definition contract_section :: "runtime \<Rightarrow> evaluation_contract \<Rightarrow> string \<Rightarrow> (pystr \<times> json) list result" where
  "contract_section R c k =
     rbind (py_loads R (ec_snapshot_json c)) (\<lambda>j. rbind (as_mapping j) (\<lambda>config.
       rbind (json_item config k) as_mapping))"

definition evaluation_identity :: "runtime \<Rightarrow> evaluation_contract \<Rightarrow> (pystr \<times> json) list result" where
  "evaluation_identity R c = contract_section R c ''evaluation_identity''"

definition contract_catalog :: "runtime \<Rightarrow> evaluation_contract \<Rightarrow> (pystr \<times> json) list result" where
  "contract_catalog R c = contract_section R c ''catalog''"

definition uses_mock_runtime :: "runtime \<Rightarrow> evaluation_contract \<Rightarrow> bool result" where
  "uses_mock_runtime R c =
     rbind (evaluation_identity R c) (\<lambda>identity. rbind (mapping_field identity ''model_identity'') (\<lambda>m.
       Inr (json_get m ''runtime'' = JStr (u ''mock''))))"

definition idempotency_key_is_valid :: "runtime \<Rightarrow> evaluation_contract \<Rightarrow> pystr \<Rightarrow> bool" where
  "idempotency_key_is_valid R c key = rt_fullmatch R (ec_key_pattern c) key"

section \<open>External activation\<close>

definition activation_requirements :: json where
  "activation_requirements = JArr (map (JStr \<circ> u)
     [''recorded_source_release_or_commit'', ''recorded_source_file_sha256s'', ''recorded_attribution_requirements'',
      ''reviewed_share_alike_requirements'', ''reviewed_underlying_text_rights''])"

definition resolved_text :: "json \<Rightarrow> bool" where
  "resolved_text j = (case j of
     JStr s \<Rightarrow> py_strip s \<notin> {[], u ''unrecorded'', u ''review_required''} | _ \<Rightarrow> False)"

text \<open>The parts of a POSIX path: empty parts and single dots vanish, a leading slash is a part.\<close>

definition safe_path :: "pystr \<Rightarrow> bool" where
  "safe_path path \<longleftrightarrow> path \<noteq> [] \<and> py_strip path = path \<and> 92 \<notin> set path \<and>
     hd path \<noteq> 47 \<and> path_parts path \<noteq> [] \<and> u ''..'' \<notin> set (path_parts path) \<and>
     list_all (\<lambda>p. 58 \<notin> set p) (path_parts path)"

fun source_hashes_ok :: "pystr list \<Rightarrow> json list \<Rightarrow> bool" where
  "source_hashes_ok paths [] = True"
| "source_hashes_ok paths (JObj ms # rest) =
     (length ms = 2 \<and>
      (case (json_get ms ''path'', json_get ms ''sha256'') of
         (JStr path, JStr digest) \<Rightarrow>
           safe_path path \<and> path \<notin> set paths \<and> is_sha256 digest \<and> source_hashes_ok (path # paths) rest
       | _ \<Rightarrow> False))"
| "source_hashes_ok paths (_ # rest) = False"

definition external_activation_ready :: "runtime \<Rightarrow> evaluation_contract \<Rightarrow> bool result" where
  "external_activation_ready R c =
     rbind (py_loads R (ec_snapshot_json c)) (\<lambda>j. rbind (as_mapping j) (\<lambda>config.
     rbind (mapping_field config ''catalog'') (\<lambda>catalog.
     rbind (mapping_field config ''access_policy'') (\<lambda>access_policy.
       Inr (json_get access_policy ''external_activation_requirements'' = activation_requirements \<and>
         json_get catalog ''status'' = JStr (u ''active'') \<and>
         (resolved_text (json_get catalog ''source_release'') \<or> resolved_text (json_get catalog ''source_commit'')) \<and>
         (case json_get catalog ''source_file_sha256s'' of
            JArr hashes \<Rightarrow> hashes \<noteq> [] \<and> source_hashes_ok [] hashes | _ \<Rightarrow> False) \<and>
         resolved_text (json_get catalog ''attribution_requirements'') \<and>
         resolved_text (json_get catalog ''share_alike_requirements'') \<and>
         resolved_text (json_get catalog ''underlying_text_rights''))))))"

section \<open>Owner results\<close>

text \<open>\<open>ChallengeAggregateResult.to_dict\<close>, and the projection the contract makes of it.\<close>

definition aggregate_to_dict :: "aggregate_result \<Rightarrow> (pystr \<times> json) list" where
  "aggregate_to_dict r =
     [(u ''challenge_id'', JStr (ar_challenge_id r)), (u ''task'', JStr (task_value (ar_task r))),
      (u ''scorer_version'', JStr (ar_scorer_version r)),
      (u ''aggregation_version'', JStr (ar_aggregation_version r)),
      (u ''dataset_sha256'', JStr (ar_dataset_sha256 r)),
      (u ''selection_sha256'', JStr (ar_selection_sha256 r)),
      (u ''samples_total'', JInt (ar_samples_total r)), (u ''samples_valid'', JInt (ar_samples_valid r)),
      (u ''samples_invalid'', JInt (ar_samples_invalid r)),
      (u ''primary_metric'', JStr (ar_primary_metric r)), (u ''score'', JFloat (Fin (ar_score r))),
      (u ''metrics'', JObj (map (\<lambda>(k, v). (k, JFloat (Fin v))) (ar_metrics r))),
      (u ''errors'', JObj (map (\<lambda>(k, n). (k, JInt n)) (ar_errors r)))]"

text \<open>A field of the contract that is not a string is no key of the report.\<close>

definition report_key :: "(pystr \<times> json) list \<Rightarrow> json \<Rightarrow> bool" where
  "report_key report f = (case f of JStr k \<Rightarrow> k \<in> fst ` set report | _ \<Rightarrow> False)"

definition contract_owner_result :: "runtime \<Rightarrow> evaluation_contract \<Rightarrow> aggregate_result \<Rightarrow> pystr
    \<Rightarrow> (pystr \<times> json) list result" where
  "contract_owner_result R c aggregate prompt_sha256 =
     rbind (evaluation_identity R c) (\<lambda>identity.
     rbind (json_item identity ''generation_settings'') (\<lambda>settings.
     rbind (json_item identity ''model_identity'') (\<lambda>model.
     rbind (json_item identity ''prompt_envelope_version'') (\<lambda>envelope.
       (let report = aggregate_to_dict aggregate @
              [(u ''generation_settings'', settings), (u ''model_identity'', model),
               (u ''prompt_envelope_version'', envelope), (u ''student_prompt_sha256'', JStr prompt_sha256)];
            fields = ec_owner_result_fields c
        in if \<not> list_all hashable fields then raise TypeError ''unhashable type''
           else if \<not> list_all (report_key report) fields
           then raise RuntimeError ''owner result is missing contract fields''
           else Inr (build_dict (map (\<lambda>f. (str_of f, the (map_of report (str_of f)))) fields)))))))"
section \<open>Canonical JSON\<close>

lemma plain_finite: "plain d j \<Longrightarrow> finite_json j"
  by (induction d j rule: plain.induct) (auto simp: list_all_iff)

lemma sort_keys_pairs: "map fst (map (\<lambda>(k, j). (k, sort_keys j)) ms) = map fst ms"
  by (induction ms) auto

lemma distinct_map_sort: "distinct (map f (sort_key g xs)) \<longleftrightarrow> distinct (map f xs)"
  by (rule mset_eq_imp_distinct_iff) simp

lemma sort_keys_plain: "plain d j \<Longrightarrow> plain d (sort_keys j)"
proof (induction d j rule: plain.induct)
  case (4 d ms)
  have "distinct (map fst (sort_key fst (map (\<lambda>(k, j). (k, sort_keys j)) ms)))"
    using "4.prems" unfolding distinct_map_sort sort_keys_pairs by simp
  then show ?case using 4 by (auto simp: list_all_iff)
qed (auto simp: list_all_iff)

lemma sort_keys_idem: "sort_keys (sort_keys j) = sort_keys j"
proof (induction j)
  case (JObj ms)
  let ?g = "\<lambda>(k, j). (k, sort_keys j)"
  have "?g p = p" if "p \<in> set (sort_key fst (map ?g ms))" for p
    using that JObj by force
  then have "map ?g (sort_key fst (map ?g ms)) = sort_key fst (map ?g ms)" by (intro map_idI) blast
  then show ?case by (simp add: sort_key_id_if_sorted)
qed simp_all

text \<open>Canonical JSON is canonical: for every value without floats, with distinct keys in each
  object, integers within the digit limit and nesting within the interpreter's depth, the text parses
  back to the value with its keys sorted, and writing that value again gives the same text.\<close>
theorem canonical_json_roundtrip:
  assumes "plain (rt_depth R) j"
  shows "\<exists>s. canonical_json R j = Inr s \<and> py_loads R s = Inr (sort_keys j) \<and> canonical_json R (sort_keys j) = Inr s"
  using plain_finite [OF assms] plain_finite [OF sort_keys_plain [OF assms]] loads_dumps [OF sort_keys_plain [OF assms]]
  by (simp add: canonical_json_def py_loads_def sort_keys_idem)

lemma canonical_parses:
  assumes "plain (rt_depth R) j" "canonical_json R j = Inr s"
  shows "py_loads R s = Inr (sort_keys j)" "canonical_json R (sort_keys j) = Inr s"
  using plain_finite [OF assms(1)] plain_finite [OF sort_keys_plain [OF assms(1)]]
    loads_dumps [OF sort_keys_plain [OF assms(1)], of "rt_float_repr R"] assms(2)
  by (simp_all add: canonical_json_def py_loads_def sort_keys_idem)

definition demo_runtime :: runtime where
  "demo_runtime = \<lparr>rt_depth = 9, rt_float_repr = (\<lambda>_. []), rt_sha = (\<lambda>_. u ''00''), rt_str = (\<lambda>_. []),
     rt_int = (\<lambda>_. raise ValueError ''invalid literal''), rt_re_compile = (\<lambda>_. Inr ()), rt_fullmatch = (=),
     rt_schema = (\<lambda>_. JObj [])\<rparr>"

lemma canonical_json_roundtrip_witness:
  "\<exists>s. canonical_json demo_runtime (JObj [(u ''b'', JNull), (u ''a'', JArr [JBool True])]) = Inr s \<and>
     py_loads demo_runtime s = Inr (JObj [(u ''a'', JArr [JBool True]), (u ''b'', JNull)])"
  using canonical_json_roundtrip [of demo_runtime "JObj [(u ''b'', JNull), (u ''a'', JArr [JBool True])]"]
  by (auto simp: demo_runtime_def u_def)

section \<open>Contracts\<close>

lemma rbind_cong_left: "m = m' \<Longrightarrow> rbind m f = rbind m' f"
  by simp

lemma from_mapping_snapshot:
  "from_mapping R v = Inr c \<Longrightarrow> canonical_json R (JObj v) = Inr (ec_snapshot_json c)"
  by (auto simp: from_mapping_def rbind_Inr_iff)

lemma from_mapping_same:
  "canonical_json R (JObj v) = canonical_json R (JObj w) \<Longrightarrow> from_mapping R v = from_mapping R w"
  by (simp add: from_mapping_def)

definition sorted_mapping :: "(pystr \<times> json) list \<Rightarrow> (pystr \<times> json) list" where
  "sorted_mapping v = sort_key fst (map (\<lambda>(k, j). (k, sort_keys j)) v)"

text \<open>A stored contract snapshot reloads as the same contract: the snapshot of an accepted contract
  parses to an object, loading that object as a contract gives back every field, and the evaluation
  identity read from the snapshot has the digest, the challenge and the version of the contract.\<close>
theorem contract_snapshot_reloads:
  assumes "plain (rt_depth R) (JObj v)" "from_mapping R v = Inr c"
  shows "py_loads R (ec_snapshot_json c) = Inr (JObj (sorted_mapping v)) \<and>
    from_mapping R (sorted_mapping v) = Inr c \<and>
    (\<exists>identity. evaluation_identity R c = Inr identity \<and>
       canonical_sha256 R (JObj identity) = Inr (ec_identity_sha256 c) \<and>
       json_get identity ''challenge_id'' = JStr (ec_challenge_id c) \<and> ec_challenge_id c \<noteq> [] \<and>
       json_get identity ''contract_version'' = JStr (ec_contract_version c) \<and> ec_contract_version c \<noteq> [])"
proof (intro conjI)
  note s = from_mapping_snapshot [OF assms(2)]
  have v: "sort_keys (JObj v) = JObj (sorted_mapping v)" by (simp add: sorted_mapping_def)
  show loaded: "py_loads R (ec_snapshot_json c) = Inr (JObj (sorted_mapping v))"
    using canonical_parses(1) [OF assms(1) s] v by simp
  show "from_mapping R (sorted_mapping v) = Inr c"
    using from_mapping_same [of R "sorted_mapping v" v] canonical_parses(2) [OF assms(1) s] s v assms(2) by simp
  let ?config = "sorted_mapping v"
  obtain snapshot j config identity part catalog where parsed: "canonical_json R (JObj v) = Inr snapshot"
      "py_loads R snapshot = Inr j" "as_mapping j = Inr config"
    and id: "mapping_field config ''evaluation_identity'' = Inr identity"
    and part: "check_partition R identity part = Inr (ec_identity_sha256 c)"
    and names: "check_names config identity catalog = Inr ()"
    and c: "ec_challenge_id c = str_of (json_get catalog ''challenge_id'')"
      "ec_contract_version c = str_of (json_get config ''contract_version'')"
    using assms(2) by (auto simp: from_mapping_def rbind_Inr_iff)
  then have config: "config = ?config" using s loaded by (simp add: as_mapping_def)
  have "evaluation_identity R c = Inr identity"
    using id loaded config by (auto simp: evaluation_identity_def contract_section_def as_mapping_def mapping_field_def
        json_get_def json_item_def split: option.splits)
  moreover have "canonical_sha256 R (JObj identity) = Inr (ec_identity_sha256 c)"
    using part by (auto simp: check_partition_def rbind_Inr_iff)
  moreover have str: "nonempty_text j \<Longrightarrow> j = JStr (str_of j) \<and> str_of j \<noteq> []" for j by (cases j) auto
  have "json_get identity ''challenge_id'' = JStr (ec_challenge_id c) \<and> ec_challenge_id c \<noteq> [] \<and>
       json_get identity ''contract_version'' = JStr (ec_contract_version c) \<and> ec_contract_version c \<noteq> []"
    using names c str by (auto simp: check_names_def rbind_Inr_iff Let_def)
  ultimately show "\<exists>identity. evaluation_identity R c = Inr identity \<and>
       canonical_sha256 R (JObj identity) = Inr (ec_identity_sha256 c) \<and>
       json_get identity ''challenge_id'' = JStr (ec_challenge_id c) \<and> ec_challenge_id c \<noteq> [] \<and>
       json_get identity ''contract_version'' = JStr (ec_contract_version c) \<and> ec_contract_version c \<noteq> []" by blast
qed
section \<open>A small contract\<close>

definition demo_identity :: "(pystr \<times> json) list" where
  "demo_identity = [(u ''challenge_id'', JStr (u ''upos'')), (u ''contract_version'', JStr (u ''v1'')),
     (u ''generation_settings'', JObj [(u ''max_tokens'', JInt 5)])]"

definition demo_catalog :: "(pystr \<times> json) list" where
  "demo_catalog = [(u ''challenge_id'', JStr (u ''upos'')), (u ''status'', JStr (u ''active''))]"

definition demo_failures :: "(pystr \<times> json) list" where
  "demo_failures = [(u ''codes'', JObj [(u ''A'', JObj [(u ''retryable'', JBool True)])]), (u ''version'', JStr (u ''f1''))]"

definition demo_feedback :: "(pystr \<times> json) list" where
  "demo_feedback = [(u ''owner_failure_fields'', JArr []), (u ''owner_result_fields'', JArr [JStr (u ''score'')]),
     (u ''public_leaderboard_fields'', JArr [])]"

definition demo_idempotency :: "(pystr \<times> json) list" where
  "demo_idempotency = [(u ''key_ascii_pattern'', JStr (u ''k'')), (u ''key_match_semantics'', JStr (u ''ascii_fullmatch''))]"

definition demo_policy :: "(pystr \<times> json) list" where
  "demo_policy = [(u ''job_deadline_seconds'', JInt 9), (u ''max_attempts'', JInt 2),
     (u ''provider_request_timeout_seconds'', JInt 3), (u ''retry_requires_prior_request_terminated'', JBool True),
     (u ''retryable_failure_codes'', JArr [JStr (u ''A'')])]"

definition demo_partition :: "(pystr \<times> json) list" where
  "demo_partition = [(u ''algorithm'', JStr (u ''sha256'')),
     (u ''canonical_json_source'', JStr (u ''evaluation_identity'')), (u ''canonicalization'', JStr (u ''python-json-v1'')),
     (u ''canonicalization_parameters'', JObj canonicalization_parameters), (u ''expected_sha256'', JStr (u ''00''))]"

definition demo_limits :: "(pystr \<times> json) list" where
  "demo_limits = [(u ''api_request_body_bytes'', JInt 9), (u ''global_queue_depth'', JInt 9),
     (u ''max_outstanding_submissions_per_user'', JInt 2), (u ''max_rendered_input_tokens'', JInt 4),
     (u ''max_running_submissions_per_user'', JInt 1), (u ''model_context_tokens'', JInt 9),
     (u ''provider_response_body_bytes'', JInt 9), (u ''student_prompt_tokens'', JInt 9),
     (u ''student_prompt_utf8_bytes'', JInt 9), (u ''submissions_per_user_per_challenge_per_24h'', JInt 5),
     (u ''worker_model_concurrency'', JInt 1)]"

definition demo_mapping :: "(pystr \<times> json) list" where
  "demo_mapping =
     [(u ''catalog'', JObj demo_catalog), (u ''contract_version'', JStr (u ''v1'')),
      (u ''evaluation_identity'', JObj demo_identity), (u ''failure_contract'', JObj demo_failures),
      (u ''feedback'', JObj demo_feedback), (u ''idempotency'', JObj demo_idempotency),
      (u ''job_policy'', JObj demo_policy), (u ''leaderboard_partition'', JObj demo_partition),
      (u ''limits'', JObj demo_limits)]"

lemmas demo_sections = demo_catalog_def demo_identity_def demo_failures_def demo_feedback_def demo_idempotency_def
  demo_policy_def demo_partition_def demo_limits_def canonicalization_parameters_def

lemma demo_short: "0 \<le> i \<Longrightarrow> i < 10 \<Longrightarrow> short_int i"
proof -
  assume "0 \<le> i" "i < 10"
  then have "nat \<bar>i\<bar> < 10" by linarith
  then have "nat_text (nat \<bar>i\<bar>) = [48 + nat \<bar>i\<bar>]" by (subst nat_text.simps) simp
  then show ?thesis by (simp add: short_int_def max_int_digits_def)
qed

lemma demo_mapping_plain: "plain 9 (JObj demo_mapping)"
  by (simp add: demo_mapping_def demo_sections demo_short u_def)

lemma demo_mapping_sorted: "sort_keys (JObj demo_mapping) = JObj demo_mapping"
  by code_simp

text \<open>A text below the surrogates is written as one.\<close>

definition below_surrogates :: "pystr \<Rightarrow> bool" where
  "below_surrogates s \<longleftrightarrow> (\<forall>c \<in> set s. c < 55296)"

fun strings_below :: "json \<Rightarrow> bool" where
  "strings_below (JStr s) = below_surrogates s"
| "strings_below (JArr js) = list_all strings_below js"
| "strings_below (JObj ms) = list_all (\<lambda>(k, j). below_surrogates k \<and> strings_below j) ms"
| "strings_below _ = True"

lemma below_join: "\<forall>s \<in> set ss. below_surrogates s \<Longrightarrow> c < 55296 \<Longrightarrow> below_surrogates (join_with c ss)"
  by (induction c ss rule: join_with.induct) (auto simp: below_surrogates_def)

lemma below_dump_string: "below_surrogates s \<Longrightarrow> below_surrogates (dump_string s)"
proof -
  have hex: "hex_digit d < 55296" if "d < 16" for d using that by (simp add: hex_digit_def)
  have "below_surrogates (escape_char c)" if "c < 55296" for c
    using that hex [of "c div 16"] hex [of "c mod 16"] by (simp add: escape_char_def below_surrogates_def)
  then show "below_surrogates s \<Longrightarrow> ?thesis" by (auto simp: below_surrogates_def dump_string_def)
qed

lemma below_int_text: "below_surrogates (int_text i)"
  using nat_text_digits [of "nat i"] nat_text_digits [of "nat (- i)"]
  by (auto simp: below_surrogates_def int_text_def list_all_iff is_digit_def)

lemma below_dumps: "plain d j \<Longrightarrow> strings_below j \<Longrightarrow> below_surrogates (dumps fr j)"
proof (induction d j rule: plain.induct)
  case (3 d js)
  then have "\<forall>s \<in> set (map (dumps fr) js). below_surrogates s" by (auto simp: list_all_iff)
  then have "below_surrogates (join_with 44 (map (dumps fr) js))" by (rule below_join) simp
  then show ?case by (simp add: below_surrogates_def)
next
  case (4 d ms)
  have "below_surrogates (dump_string k @ 58 # dumps fr j)" if "(k, j) \<in> set ms" for k j
    using that 4 below_dump_string [of k] by (fastforce simp: list_all_iff below_surrogates_def)
  then have "\<forall>s \<in> set (map (\<lambda>(k, j). dump_string k @ 58 # dumps fr j) ms). below_surrogates s" by auto
  then have "below_surrogates (join_with 44 (map (\<lambda>(k, j). dump_string k @ 58 # dumps fr j) ms))" by (rule below_join) simp
  then show ?case by (simp add: below_surrogates_def)
qed (simp_all add: below_int_text below_dump_string, simp_all add: below_surrogates_def u_def)

lemma utf8_below: "below_surrogates s \<Longrightarrow> utf8 s = Inr (concat (map utf8_char s))"
  by (auto simp: utf8_def below_surrogates_def is_surrogate_def list_ex_iff)

lemma demo_mapping_below: "strings_below (JObj demo_mapping)"
  by (simp add: demo_mapping_def demo_sections below_surrogates_def u_def)

definition demo_text :: pystr where
  "demo_text = dumps (\<lambda>_. []) (JObj demo_mapping)"

lemma demo_canonical: "canonical_json demo_runtime (JObj demo_mapping) = Inr demo_text"
  using plain_finite [OF demo_mapping_plain] demo_mapping_sorted
  by (simp add: canonical_json_def demo_runtime_def demo_text_def del: sort_keys.simps finite_json.simps dumps.simps)

lemma demo_parsed: "py_loads demo_runtime demo_text = Inr (JObj demo_mapping)"
  using loads_dumps [OF demo_mapping_plain, of "\<lambda>_. []"] by (simp add: py_loads_def demo_runtime_def demo_text_def)

lemma demo_utf8: "utf8 demo_text = Inr (concat (map utf8_char demo_text))"
  unfolding demo_text_def by (rule utf8_below [OF below_dumps [OF demo_mapping_plain demo_mapping_below]])

lemma demo_identity_digest: "canonical_sha256 demo_runtime (JObj demo_identity) = Inr (u ''00'')"
proof -
  have "plain 9 (JObj demo_identity)" "strings_below (JObj demo_identity)" "sort_keys (JObj demo_identity) = JObj demo_identity"
    by (simp_all add: demo_identity_def demo_short u_def below_surrogates_def)
  then show ?thesis
    using plain_finite [of 9 "JObj demo_identity"] utf8_below [OF below_dumps [of 9 "JObj demo_identity" "\<lambda>_. []"]]
    by (simp add: canonical_sha256_def canonical_json_def demo_runtime_def
        del: sort_keys.simps finite_json.simps dumps.simps plain.simps strings_below.simps)
qed

lemma demo_fields:
  "mapping_field demo_mapping ''catalog'' = Inr demo_catalog"
  "mapping_field demo_mapping ''evaluation_identity'' = Inr demo_identity"
  "mapping_field demo_mapping ''failure_contract'' = Inr demo_failures"
  "mapping_field demo_mapping ''feedback'' = Inr demo_feedback"
  "mapping_field demo_mapping ''idempotency'' = Inr demo_idempotency"
  "mapping_field demo_mapping ''job_policy'' = Inr demo_policy"
  "mapping_field demo_mapping ''leaderboard_partition'' = Inr demo_partition"
  "mapping_field demo_mapping ''limits'' = Inr demo_limits"
  "mapping_field demo_failures ''codes'' = Inr [(u ''A'', JObj [(u ''retryable'', JBool True)])]"
  "json_get demo_mapping ''contract_version'' = JStr (u ''v1'')"
  by (simp_all add: demo_mapping_def demo_failures_def mapping_field_def as_mapping_def json_get_def u_def)

lemma demo_checks:
  "check_partition demo_runtime demo_identity demo_partition = Inr (u ''00'')"
  "check_names demo_mapping demo_identity demo_catalog = Inr ()"
  "check_key_pattern demo_runtime demo_idempotency = Inr ()"
  "code_set demo_policy = Inr [JStr (u ''A'')]"
  "declared_retryable [(u ''A'', JObj [(u ''retryable'', JBool True)])] = [u ''A'']"
  "check_limits demo_limits demo_policy demo_identity = Inr ()"
proof -
  show "check_partition demo_runtime demo_identity demo_partition = Inr (u ''00'')"
    by (simp add: check_partition_def demo_identity_digest)
      (simp add: demo_partition_def json_get_def check_def ensure_def parameters_match_def canonicalization_parameters_def u_def)
  have "json_get demo_catalog ''challenge_id'' = JStr (u ''upos'')" "json_get demo_catalog ''status'' = JStr (u ''active'')"
    "json_get demo_identity ''challenge_id'' = JStr (u ''upos'')" "json_get demo_identity ''contract_version'' = JStr (u ''v1'')"
    by (simp_all add: json_get_def demo_catalog_def demo_identity_def u_def)
  then show "check_names demo_mapping demo_identity demo_catalog = Inr ()"
    by (simp add: check_names_def demo_fields Let_def)
qed (simp_all add: json_get_def check_def ensure_def demo_identity_def demo_catalog_def u_def
    check_key_pattern_def demo_idempotency_def demo_runtime_def code_set_def demo_policy_def declared_retryable_def
    check_limits_def demo_limits_def mapping_field_def as_mapping_def)

lemma demo_items:
  "item_tuple demo_feedback ''owner_result_fields'' = Inr [JStr (u ''score'')]"
  "item_tuple demo_feedback ''owner_failure_fields'' = Inr []"
  "item_tuple demo_feedback ''public_leaderboard_fields'' = Inr []"
  "json_item demo_failures ''version'' = Inr (JStr (u ''f1''))"
  by (simp_all add: item_tuple_def json_item_def demo_feedback_def demo_failures_def u_def)

lemma demo_limit_items:
  "contract_limits R demo_limits ''student_prompt_utf8_bytes'' = Inr 9"
  "contract_limits R demo_limits ''student_prompt_tokens'' = Inr 9"
  "contract_limits R demo_limits ''api_request_body_bytes'' = Inr 9"
  "contract_limits R demo_limits ''max_rendered_input_tokens'' = Inr 4"
  "contract_limits R demo_limits ''model_context_tokens'' = Inr 9"
  "contract_limits R demo_limits ''submissions_per_user_per_challenge_per_24h'' = Inr 5"
  "contract_limits R demo_limits ''max_outstanding_submissions_per_user'' = Inr 2"
  "contract_limits R demo_limits ''max_running_submissions_per_user'' = Inr 1"
  "contract_limits R demo_limits ''global_queue_depth'' = Inr 9"
  "contract_limits R demo_policy ''max_attempts'' = Inr 2"
  "contract_limits R demo_policy ''job_deadline_seconds'' = Inr 9"
  by (simp_all add: contract_limits_def json_item_def demo_limits_def demo_policy_def u_def)

lemma demo_mapping_accepted: "\<exists>c. from_mapping demo_runtime demo_mapping = Inr c"
  by (simp add: from_mapping_def demo_canonical demo_parsed demo_utf8 as_mapping_def demo_fields demo_checks demo_items
      demo_limit_items same_codes_def)

lemma contract_snapshot_reloads_witness:
  "\<exists>c. from_mapping demo_runtime demo_mapping = Inr c \<and> from_mapping demo_runtime (sorted_mapping demo_mapping) = Inr c \<and>
     ec_challenge_id c \<noteq> []"
proof -
  obtain c where c: "from_mapping demo_runtime demo_mapping = Inr c" using demo_mapping_accepted by blast
  have "plain (rt_depth demo_runtime) (JObj demo_mapping)" using demo_mapping_plain by (simp add: demo_runtime_def)
  from contract_snapshot_reloads [OF this c] c show ?thesis by blast
qed

end
