(* ===== verification/Submission_Store.thy ===== *)
theory Submission_Store
  imports Runner Evaluation_Contract "HOL-Library.Product_Lexorder"
begin

text \<open>
  The submission database of \<open>src/linguistic_oj/submission_store.py\<close>.  Each table is a list of
  records in insertion order and each method is a function of the database, of the clock readings
  it makes and of the identifier it draws; a transaction that is rolled back leaves the database
  as it was.  Timestamps are microseconds: the code's fixed-width UTC text compares in the same
  order.  A NULL column is \<open>None\<close>, and a comparison with NULL does not hold.
\<close>

section \<open>Tables\<close>

datatype submission_status = QUEUED | RUNNING | REJECTED | SUCCEEDED | FAILED

record user_record =
  us_id :: pystr
  us_subject :: pystr
  us_handle :: pystr
  us_admin :: bool

record submission_row =
  sr_id :: pystr
  sr_user :: pystr
  sr_key :: pystr
  sr_request_sha256 :: pystr
  sr_challenge :: pystr
  sr_contract_version :: pystr
  sr_identity :: pystr
  sr_snapshot_sha256 :: pystr
  sr_snapshot_json :: pystr
  sr_prompt :: pystr
  sr_prompt_sha256 :: pystr
  sr_status :: submission_status
  sr_attempt :: nat
  sr_lease_token :: "pystr option"
  sr_created :: int
  sr_deadline :: int
  sr_started :: "int option"
  sr_lease_expires :: "int option"
  sr_completed :: "int option"
  sr_failure_version :: "pystr option"
  sr_failure_code :: "string option"
  sr_failure_retryable :: "bool option"

record outbox_row =
  ob_submission :: pystr
  ob_created :: int
  ob_published :: "int option"

record result_row =
  rr_submission :: pystr
  rr_identity :: pystr
  rr_result :: "(pystr \<times> json) list"
  rr_score :: rat
  rr_samples_total :: int
  rr_samples_valid :: int
  rr_samples_invalid :: int
  rr_succeeded :: int

text \<open>The columns of \<open>challenge_admin_state\<close> that admission reads.\<close>

record admission_row =
  ad_challenge :: pystr
  ad_fingerprint :: pystr
  ad_closed :: bool

record database =
  db_users :: "user_record list"
  db_submissions :: "submission_row list"
  db_outbox :: "outbox_row list"
  db_results :: "result_row list"
  db_admin :: "admission_row list"

record claimed_submission =
  cl_id :: pystr
  cl_user :: pystr
  cl_prompt :: pystr
  cl_prompt_sha256 :: pystr
  cl_snapshot_json :: pystr
  cl_snapshot_sha256 :: pystr
  cl_identity :: pystr
  cl_attempt :: nat
  cl_lease_token :: pystr
  cl_deadline :: int

record claim_attempt =
  ca_claim :: "claimed_submission option"
  ca_retry_later :: bool

section \<open>Request identity\<close>

definition big_endian_8 :: "nat \<Rightarrow> nat list" where
  "big_endian_8 n = map (\<lambda>i. n div 256 ^ (7 - i) mod 256) [0..<8]"

definition framed :: "nat list \<Rightarrow> nat list" where
  "framed v = big_endian_8 (length v) @ v"

definition request_payload :: "nat list \<Rightarrow> nat list \<Rightarrow> nat list \<Rightarrow> nat list" where
  "request_payload challenge version prompt =
     u ''submission-request-v1'' @ [0] @ framed challenge @ framed version @ framed prompt"

text \<open>\<open>sha\<close> is SHA-256 of a byte string as lower-case hexadecimal text.\<close>

definition request_sha256 :: "(nat list \<Rightarrow> pystr) \<Rightarrow> pystr \<Rightarrow> pystr \<Rightarrow> nat list \<Rightarrow> pystr result" where
  "request_sha256 sha challenge version prompt_utf8 =
     rbind (utf8 challenge) (\<lambda>c. rbind (utf8 version) (\<lambda>v.
       Inr (sha (request_payload c v prompt_utf8))))"

section \<open>Users and admission\<close>

definition register_user :: "database \<Rightarrow> pystr \<Rightarrow> pystr \<Rightarrow> pystr \<Rightarrow> bool \<Rightarrow> (user_record \<times> database) result" where
  "register_user db fresh subject handle admin =
     rbind (ensure (subject \<noteq> [] \<and> handle \<noteq> [] \<and> 64 \<notin> set handle)
       (Exc ValueError ''user subject and non-email public handle are required'')) (\<lambda>_.
     rbind (ensure (fresh \<notin> us_id ` set (db_users db) \<and> subject \<notin> us_subject ` set (db_users db) \<and>
         handle \<notin> us_handle ` set (db_users db))
       (Exc IntegrityError ''UNIQUE constraint failed'')) (\<lambda>_.
       (let row = \<lparr>us_id = fresh, us_subject = subject, us_handle = handle, us_admin = admin\<rparr>
        in Inr (row, db\<lparr>db_users := db_users db @ [row]\<rparr>))))"

definition user_by_subject :: "database \<Rightarrow> pystr \<Rightarrow> user_record option" where
  "user_by_subject db subject = find (\<lambda>r. us_subject r = subject) (db_users db)"

text \<open>\<open>assert_admissions_open\<close> (\<open>admin_store.py\<close>): an absent policy row admits.\<close>

definition assert_admissions_open :: "database \<Rightarrow> pystr \<Rightarrow> pystr option \<Rightarrow> unit result" where
  "assert_admissions_open db challenge fingerprint =
     (case find (\<lambda>r. ad_challenge r = challenge) (db_admin db) of
        None \<Rightarrow> Inr ()
      | Some r \<Rightarrow> ensure (\<not> (ad_closed r \<or> Some (ad_fingerprint r) \<noteq> fingerprint))
                   (Exc ChallengePausedError ''challenge admissions are paused''))"

section \<open>Creating a submission\<close>

definition outstanding :: "submission_row \<Rightarrow> bool" where
  "outstanding r \<longleftrightarrow> sr_status r \<in> {QUEUED, RUNNING}"

definition accepted_since :: "database \<Rightarrow> pystr \<Rightarrow> pystr \<Rightarrow> int \<Rightarrow> submission_row list" where
  "accepted_since db user challenge cutoff =
     filter (\<lambda>r. sr_user r = user \<and> sr_challenge r = challenge \<and> cutoff \<le> sr_created r) (db_submissions db)"

definition outstanding_of :: "database \<Rightarrow> pystr \<Rightarrow> submission_row list" where
  "outstanding_of db user = filter (\<lambda>r. sr_user r = user \<and> outstanding r) (db_submissions db)"

definition seconds :: "int \<Rightarrow> int" where
  "seconds n = n * 1000000"

definition day :: int where
  "day = seconds 86400"

definition new_row :: "evaluation_contract \<Rightarrow> pystr \<Rightarrow> pystr \<Rightarrow> pystr \<Rightarrow> pystr \<Rightarrow> pystr \<Rightarrow> pystr \<Rightarrow> int \<Rightarrow> submission_row" where
  "new_row c fresh user key request_hash prompt prompt_hash now =
     \<lparr>sr_id = fresh, sr_user = user, sr_key = key, sr_request_sha256 = request_hash,
      sr_challenge = ec_challenge_id c, sr_contract_version = ec_contract_version c,
      sr_identity = ec_identity_sha256 c, sr_snapshot_sha256 = ec_snapshot_sha256 c,
      sr_snapshot_json = ec_snapshot_json c, sr_prompt = prompt, sr_prompt_sha256 = prompt_hash,
      sr_status = QUEUED, sr_attempt = 0, sr_lease_token = None, sr_created = now,
      sr_deadline = now + seconds (ec_job_deadline_seconds c), sr_started = None,
      sr_lease_expires = None, sr_completed = None, sr_failure_version = Some (ec_failure_version c),
      sr_failure_code = None, sr_failure_retryable = None\<rparr>"

text \<open>
  The result is the submission row and whether it was replayed.  The insert fails on a repeated
  identifier or an unknown user; the pair of user and key is new when it is reached.
\<close>

definition create_submission :: "(nat list \<Rightarrow> pystr) \<Rightarrow> database \<Rightarrow> int \<Rightarrow> pystr \<Rightarrow> user_record \<Rightarrow> pystr \<Rightarrow> pystr
    \<Rightarrow> evaluation_contract \<Rightarrow> pystr option \<Rightarrow> ((submission_row \<times> bool) \<times> database) result" where
  "create_submission sha db now fresh user key prompt c fingerprint =
     rbind (utf8 prompt) (\<lambda>prompt_utf8.
     rbind (request_sha256 sha (ec_challenge_id c) (ec_contract_version c) prompt_utf8) (\<lambda>request_hash.
       (case find (\<lambda>r. sr_user r = us_id user \<and> sr_key r = key) (db_submissions db) of
          Some existing \<Rightarrow>
            if sr_request_sha256 existing \<noteq> request_hash
            then raise IdempotencyConflictError ''idempotency key was already used for different content''
            else Inr ((existing, True), db)
        | None \<Rightarrow>
            rbind (assert_admissions_open db (ec_challenge_id c) fingerprint) (\<lambda>_.
            rbind (ensure (length (accepted_since db (us_id user) (ec_challenge_id c) (now - day)) < ec_submissions_per_day c)
              (Exc SubmissionQuotaError ''SUBMISSION_RATE_LIMIT'')) (\<lambda>_.
            rbind (ensure (length (outstanding_of db (us_id user)) < ec_max_outstanding c)
              (Exc SubmissionQuotaError ''OUTSTANDING_SUBMISSION_LIMIT'')) (\<lambda>_.
            rbind (ensure (length (filter outstanding (db_submissions db)) < ec_global_queue_depth c)
              (Exc GlobalQueueFullError ''GLOBAL_QUEUE_FULL'')) (\<lambda>_.
            rbind (ensure (fresh \<notin> sr_id ` set (db_submissions db) \<and> us_id user \<in> us_id ` set (db_users db))
              (Exc IntegrityError ''constraint failed'')) (\<lambda>_.
              (let row = new_row c fresh (us_id user) key request_hash prompt (sha prompt_utf8) now
               in Inr ((row, False),
                    db\<lparr>db_submissions := db_submissions db @ [row],
                       db_outbox := db_outbox db @ [\<lparr>ob_submission = fresh, ob_created = now, ob_published = None\<rparr>]\<rparr>))))))))))"

text \<open>The wait a rate-limited client is told: whole seconds, at least one.\<close>

definition retry_after_seconds :: "database \<Rightarrow> pystr \<Rightarrow> pystr \<Rightarrow> int \<Rightarrow> int" where
  "retry_after_seconds db user challenge now =
     (let oldest = Min (sr_created ` set (accepted_since db user challenge (now - day)))
      in max 1 (- ((- (oldest + day - now)) div 1000000)))"

section \<open>Outbox\<close>

definition row_of :: "database \<Rightarrow> pystr \<Rightarrow> submission_row option" where
  "row_of db i = find (\<lambda>r. sr_id r = i) (db_submissions db)"

definition outbox_ids :: "(outbox_row \<Rightarrow> bool) \<Rightarrow> database \<Rightarrow> pystr \<Rightarrow> pystr \<Rightarrow> pystr list" where
  "outbox_ids P db identity snapshot =
     map ob_submission (filter (\<lambda>o1. P o1 \<and>
       (case row_of db (ob_submission o1) of
          None \<Rightarrow> False
        | Some r \<Rightarrow> sr_identity r = identity \<and> sr_snapshot_sha256 r = snapshot \<and> sr_status r = QUEUED))
       (db_outbox db))"

definition unpublished_submission_ids :: "database \<Rightarrow> pystr \<Rightarrow> pystr \<Rightarrow> pystr list" where
  "unpublished_submission_ids = outbox_ids (\<lambda>o1. ob_published o1 = None)"

definition published_queued_submission_ids :: "database \<Rightarrow> pystr \<Rightarrow> pystr \<Rightarrow> pystr list" where
  "published_queued_submission_ids = outbox_ids (\<lambda>o1. ob_published o1 \<noteq> None)"

definition mark_outbox_published :: "database \<Rightarrow> int \<Rightarrow> pystr \<Rightarrow> database" where
  "mark_outbox_published db now i =
     db\<lparr>db_outbox := map (\<lambda>o1. if ob_submission o1 = i \<and> ob_published o1 = None
                              then o1\<lparr>ob_published := Some now\<rparr> else o1) (db_outbox db)\<rparr>"

section \<open>Claims\<close>

definition update_rows :: "(submission_row \<Rightarrow> bool) \<Rightarrow> (submission_row \<Rightarrow> submission_row) \<Rightarrow> database \<Rightarrow> database" where
  "update_rows P f db = db\<lparr>db_submissions := map (\<lambda>r. if P r then f r else r) (db_submissions db)\<rparr>"

definition rowcount :: "(submission_row \<Rightarrow> bool) \<Rightarrow> database \<Rightarrow> nat" where
  "rowcount P db = length (filter P (db_submissions db))"

definition no_claim :: "bool \<Rightarrow> claim_attempt" where
  "no_claim later = \<lparr>ca_claim = None, ca_retry_later = later\<rparr>"

definition job_deadline_failure :: "int \<Rightarrow> submission_row \<Rightarrow> submission_row" where
  "job_deadline_failure now r =
     r\<lparr>sr_status := FAILED, sr_completed := Some now, sr_failure_code := Some ''JOB_DEADLINE'',
       sr_failure_retryable := Some False\<rparr>"

text \<open>The method reads the clock twice: \<open>now\<close> for the start, \<open>now'\<close> for the lease.\<close>

definition claim_submission :: "database \<Rightarrow> int \<Rightarrow> int \<Rightarrow> pystr \<Rightarrow> pystr \<Rightarrow> pystr \<Rightarrow> pystr \<Rightarrow> int \<Rightarrow> nat \<Rightarrow> nat
    \<Rightarrow> claim_attempt \<times> database" where
  "claim_submission db now now' fresh i identity snapshot lease_seconds max_attempts max_running =
     (case row_of db i of
        None \<Rightarrow> (no_claim False, db)
      | Some r \<Rightarrow>
          if sr_identity r \<noteq> identity \<or> sr_snapshot_sha256 r \<noteq> snapshot then (no_claim False, db)
          else if sr_status r = RUNNING then (no_claim True, db)
          else if sr_status r \<noteq> QUEUED then (no_claim False, db)
          else if max_attempts \<le> sr_attempt r then (no_claim False, db)
          else if sr_deadline r \<le> now then
            (no_claim False, update_rows (\<lambda>x. sr_id x = i \<and> sr_status x = QUEUED) (job_deadline_failure now) db)
          else if max_running \<le> rowcount (\<lambda>x. sr_user x = sr_user r \<and> sr_status x = RUNNING) db
          then (no_claim True, db)
          else
            (let P = (\<lambda>x. sr_id x = i \<and> sr_status x = QUEUED \<and> sr_attempt x = sr_attempt r);
                 expires = min (now' + seconds lease_seconds) (sr_deadline r)
             in if rowcount P db \<noteq> 1 then (no_claim True, db)
                else
                  (\<lparr>ca_claim = Some \<lparr>cl_id = i, cl_user = sr_user r, cl_prompt = sr_prompt r,
                      cl_prompt_sha256 = sr_prompt_sha256 r, cl_snapshot_json = sr_snapshot_json r,
                      cl_snapshot_sha256 = sr_snapshot_sha256 r, cl_identity = sr_identity r,
                      cl_attempt = sr_attempt r + 1, cl_lease_token = fresh, cl_deadline = sr_deadline r\<rparr>,
                    ca_retry_later = False\<rparr>,
                   update_rows P (\<lambda>x. x\<lparr>sr_status := RUNNING, sr_attempt := sr_attempt r + 1,
                     sr_lease_token := Some fresh, sr_started := Some now,
                     sr_lease_expires := Some expires\<rparr>) db)))"

definition claim_deadline_expired :: "int \<Rightarrow> claimed_submission \<Rightarrow> bool" where
  "claim_deadline_expired now c \<longleftrightarrow> cl_deadline c \<le> now"

definition after :: "int option \<Rightarrow> int \<Rightarrow> bool" where
  "after t now \<longleftrightarrow> (case t of None \<Rightarrow> False | Some x \<Rightarrow> now < x)"

definition due :: "int option \<Rightarrow> int \<Rightarrow> bool" where
  "due t now \<longleftrightarrow> (case t of None \<Rightarrow> False | Some x \<Rightarrow> x \<le> now)"

definition held_by :: "claimed_submission \<Rightarrow> submission_row \<Rightarrow> bool" where
  "held_by c r \<longleftrightarrow> sr_id r = cl_id c \<and> sr_status r = RUNNING \<and> sr_attempt r = cl_attempt c \<and>
     sr_lease_token r = Some (cl_lease_token c)"

definition claim_is_current :: "database \<Rightarrow> int \<Rightarrow> claimed_submission \<Rightarrow> bool" where
  "claim_is_current db now c \<longleftrightarrow>
     list_ex (\<lambda>r. held_by c r \<and> sr_user r = cl_user c \<and> after (sr_lease_expires r) now \<and>
       now < sr_deadline r \<and> sr_identity r = cl_identity c \<and> sr_snapshot_sha256 r = cl_snapshot_sha256 c)
       (db_submissions db)"

definition outstanding_contract_hashes :: "database \<Rightarrow> pystr set" where
  "outstanding_contract_hashes db = sr_snapshot_sha256 ` set (filter outstanding (db_submissions db))"

definition for_identity :: "pystr option \<Rightarrow> submission_row \<Rightarrow> bool" where
  "for_identity identity r \<longleftrightarrow> (case identity of None \<Rightarrow> True | Some i \<Rightarrow> sr_identity r = i)"

definition expire_leases :: "database \<Rightarrow> int \<Rightarrow> pystr option \<Rightarrow> nat \<times> database" where
  "expire_leases db now identity =
     (let P = (\<lambda>r. sr_status r = RUNNING \<and> due (sr_lease_expires r) now \<and> for_identity identity r)
      in (rowcount P db,
          update_rows P (\<lambda>r. r\<lparr>sr_status := FAILED, sr_completed := Some now, sr_lease_token := None,
            sr_lease_expires := None,
            sr_failure_code := Some (if sr_deadline r \<le> now then ''JOB_DEADLINE'' else ''WORKER_CRASH''),
            sr_failure_retryable := Some False\<rparr>) db))"

definition expire_queued_deadlines :: "database \<Rightarrow> int \<Rightarrow> pystr option \<Rightarrow> nat \<times> database" where
  "expire_queued_deadlines db now identity =
     (let P = (\<lambda>r. sr_status r = QUEUED \<and> sr_deadline r \<le> now \<and> for_identity identity r)
      in (rowcount P db, update_rows P (job_deadline_failure now) db))"

section \<open>Completion\<close>

definition release :: "submission_row \<Rightarrow> submission_row" where
  "release r = r\<lparr>sr_lease_token := None, sr_lease_expires := None\<rparr>"

text \<open>
  The owner result is a dictionary; the row keeps it as a value, where the code keeps its JSON
  text.  The contract of SQLite's columns is met by the numbers it holds.  A second result for
  one submission violates the primary key of \<open>results\<close>.
\<close>

definition result_field :: "(pystr \<times> json) list \<Rightarrow> string \<Rightarrow> json result" where
  "result_field d k = (case map_of d (u k) of None \<Rightarrow> raise KeyError k | Some j \<Rightarrow> Inr j)"

definition result_int :: "(pystr \<times> json) list \<Rightarrow> string \<Rightarrow> int result" where
  "result_int d k = rbind (result_field d k)
     (\<lambda>j. case j of JInt i \<Rightarrow> Inr i | _ \<Rightarrow> raise IntegrityError ''datatype mismatch'')"

definition result_number :: "(pystr \<times> json) list \<Rightarrow> string \<Rightarrow> rat result" where
  "result_number d k = rbind (result_field d k)
     (\<lambda>j. case j of JInt i \<Rightarrow> Inr (of_int i) | JFloat (Fin q) \<Rightarrow> Inr q
           | _ \<Rightarrow> raise ValueError ''Out of range float values are not JSON compliant'')"

definition complete_success :: "database \<Rightarrow> int \<Rightarrow> claimed_submission \<Rightarrow> (pystr \<times> json) list
    \<Rightarrow> (bool \<times> database) result" where
  "complete_success db now c owner_result =
     (if \<not> list_ex (\<lambda>r. held_by c r \<and> after (sr_lease_expires r) now \<and> now < sr_deadline r) (db_submissions db)
      then Inr (False, db)
      else
        rbind (result_number owner_result ''score'') (\<lambda>score.
        rbind (result_int owner_result ''samples_total'') (\<lambda>total.
        rbind (result_int owner_result ''samples_valid'') (\<lambda>valid.
        rbind (result_int owner_result ''samples_invalid'') (\<lambda>bad.
        rbind (ensure (cl_id c \<notin> rr_submission ` set (db_results db))
          (Exc IntegrityError ''UNIQUE constraint failed'')) (\<lambda>_.
          (let row = \<lparr>rr_submission = cl_id c, rr_identity = cl_identity c, rr_result = owner_result,
                 rr_score = score, rr_samples_total = total, rr_samples_valid = valid,
                 rr_samples_invalid = bad, rr_succeeded = now\<rparr>
           in if rowcount (held_by c) db \<noteq> 1 then Inr (False, db)
              else Inr (True, update_rows (held_by c)
                 (\<lambda>r. release (r\<lparr>sr_status := SUCCEEDED, sr_completed := Some now\<rparr>))
                 (db\<lparr>db_results := db_results db @ [row]\<rparr>)))))))))"

definition retry_submission :: "database \<Rightarrow> int \<Rightarrow> claimed_submission \<Rightarrow> nat \<Rightarrow> bool \<times> database" where
  "retry_submission db now c max_attempts =
     (case find (held_by c) (db_submissions db) of
        None \<Rightarrow> (False, db)
      | Some r \<Rightarrow>
          if max_attempts \<le> sr_attempt r \<or> sr_deadline r \<le> now \<or> due (sr_lease_expires r) now
          then (False, db)
          else if rowcount (held_by c) db \<noteq> 1 then (False, db)
          else (True, update_rows (held_by c) (\<lambda>x. release (x\<lparr>sr_status := QUEUED, sr_started := None\<rparr>)) db))"

definition complete_failure :: "database \<Rightarrow> int \<Rightarrow> claimed_submission \<Rightarrow> pystr \<Rightarrow> string \<Rightarrow> bool \<Rightarrow> bool \<times> database" where
  "complete_failure db now c version fcode retryable =
     (case find (held_by c) (db_submissions db) of
        None \<Rightarrow> (False, db)
      | Some r \<Rightarrow>
          if sr_failure_version r \<noteq> Some version then (False, db)
          else if due (sr_lease_expires r) now \<and> now < sr_deadline r then (False, db)
          else
            (let late = (sr_deadline r \<le> now);
                 final_code = (if late then ''JOB_DEADLINE'' else fcode);
                 final_retryable = (if late then False else retryable)
             in if rowcount (held_by c) db \<noteq> 1 then (False, db)
                else (True, update_rows (held_by c) (\<lambda>x. release (x\<lparr>sr_status := FAILED,
                  sr_completed := Some now, sr_failure_version := Some version,
                  sr_failure_code := Some final_code, sr_failure_retryable := Some final_retryable\<rparr>)) db)))"

definition complete_rejected :: "database \<Rightarrow> int \<Rightarrow> claimed_submission \<Rightarrow> bool \<times> database" where
  "complete_rejected db now c =
     (case find (held_by c) (db_submissions db) of
        None \<Rightarrow> (False, db)
      | Some r \<Rightarrow>
          if due (sr_lease_expires r) now \<and> now < sr_deadline r then (False, db)
          else if rowcount (held_by c) db \<noteq> 1 then (False, db)
          else if sr_deadline r \<le> now then
            (True, update_rows (held_by c) (\<lambda>x. release (job_deadline_failure now x)) db)
          else
            (True, update_rows (held_by c) (\<lambda>x. release (x\<lparr>sr_status := REJECTED,
              sr_completed := Some now, sr_failure_code := Some ''TOKEN_LIMIT_EXCEEDED'',
              sr_failure_retryable := Some False\<rparr>)) db))"

section \<open>Owner views\<close>

definition submission_for_owner :: "database \<Rightarrow> pystr \<Rightarrow> pystr \<Rightarrow> submission_row option" where
  "submission_for_owner db i user = find (\<lambda>r. sr_id r = i \<and> sr_user r = user) (db_submissions db)"

definition newest_first :: "submission_row list \<Rightarrow> submission_row list" where
  "newest_first rs = rev (sort_key (\<lambda>r. (sr_created r, sr_id r)) rs)"

definition submissions_for_owner :: "database \<Rightarrow> pystr \<Rightarrow> int \<Rightarrow> int option \<Rightarrow> pystr option
    \<Rightarrow> submission_row list result" where
  "submissions_for_owner db user limit before_created before_id =
     rbind (ensure (0 < limit) (Exc ValueError ''limit must be positive'')) (\<lambda>_.
     rbind (ensure ((before_created = None) = (before_id = None))
       (Exc ValueError ''history cursor fields must be provided together'')) (\<lambda>_.
       Inr (take (nat limit) (newest_first (filter (\<lambda>r. sr_user r = user \<and>
         (case (before_created, before_id) of
            (Some t, Some i) \<Rightarrow> sr_created r < t \<or> sr_created r = t \<and> sr_id r < i
          | _ \<Rightarrow> True)) (db_submissions db))))))"

definition owner_prompt :: "database \<Rightarrow> pystr \<Rightarrow> pystr \<Rightarrow> pystr option" where
  "owner_prompt db i user = map_option sr_prompt (submission_for_owner db i user)"

text \<open>The status, the result when there is one, and the failure when its code is set.\<close>

definition owner_result :: "database \<Rightarrow> pystr \<Rightarrow> pystr
    \<Rightarrow> (submission_status \<times> (pystr \<times> json) list option \<times> (pystr option \<times> string \<times> bool) option) option" where
  "owner_result db i user =
     (case submission_for_owner db i user of
        None \<Rightarrow> None
      | Some r \<Rightarrow>
          Some (sr_status r,
            map_option rr_result (find (\<lambda>x. rr_submission x = i) (db_results db)),
            map_option (\<lambda>fc. (sr_failure_version r, fc, sr_failure_retryable r = Some True)) (sr_failure_code r)))"

section \<open>Leaderboard\<close>

record candidate =
  cd_user :: pystr
  cd_handle :: pystr
  cd_submission :: pystr
  cd_result :: result_row
  cd_snapshot_json :: pystr

definition candidates :: "database \<Rightarrow> pystr \<Rightarrow> int \<Rightarrow> candidate list" where
  "candidates db identity as_of =
     concat (map (\<lambda>rr.
       (case row_of db (rr_submission rr) of
          Some r \<Rightarrow>
            (case find (\<lambda>x. us_id x = sr_user r) (db_users db) of
               Some x \<Rightarrow>
                 if rr_identity rr = identity \<and> sr_status r = SUCCEEDED \<and> rr_succeeded rr \<le> as_of
                 then [\<lparr>cd_user = sr_user r, cd_handle = us_handle x, cd_submission = sr_id r,
                        cd_result = rr, cd_snapshot_json = sr_snapshot_json r\<rparr>]
                 else []
             | None \<Rightarrow> [])
        | None \<Rightarrow> [])) (db_results db))"

definition choice_key :: "candidate \<Rightarrow> rat \<times> int \<times> pystr" where
  "choice_key c = (- rr_score (cd_result c), rr_succeeded (cd_result c), cd_submission c)"

text \<open>\<open>user_choice = 1\<close>: the first candidate of each user in the order of the window.\<close>

definition best_of_user :: "candidate list \<Rightarrow> candidate \<Rightarrow> bool" where
  "best_of_user cs c \<longleftrightarrow> list_all (\<lambda>d. cd_user d = cd_user c \<longrightarrow> choice_key c \<le> choice_key d) cs"

definition rank_key :: "candidate \<Rightarrow> rat \<times> int \<times> pystr" where
  "rank_key c = (- rr_score (cd_result c), rr_succeeded (cd_result c), cd_handle c)"

definition ranked :: "database \<Rightarrow> pystr \<Rightarrow> int \<Rightarrow> (nat \<times> candidate) list" where
  "ranked db identity as_of =
     (let cs = candidates db identity as_of
      in enumerate 1 (sort_key rank_key (filter (best_of_user cs) cs)))"

definition leaderboard :: "database \<Rightarrow> pystr \<Rightarrow> int \<Rightarrow> int \<Rightarrow> int \<Rightarrow> (nat \<times> candidate) list result" where
  "leaderboard db identity limit as_of after_rank =
     rbind (ensure (0 < limit \<and> 0 \<le> after_rank)
       (Exc ValueError ''leaderboard pagination values are invalid'')) (\<lambda>_.
       Inr (take (nat limit) (filter (\<lambda>(rank, _). after_rank < int rank) (ranked db identity as_of))))"

end
