(* ===== verification/Store_Lifecycle.thy ===== *)
theory Store_Lifecycle
  imports Submission_Store
begin

text \<open>
  The life of a submission.  \<open>transition\<close> is the state machine of one row; \<open>store_step\<close> is one
  call of a store method with any arguments.  Every step changes each row by at most one
  transition, which is the simulation the invariants rest on.
\<close>

section \<open>The state machine of a row\<close>

inductive transition :: "nat \<Rightarrow> submission_row \<Rightarrow> submission_row \<Rightarrow> bool" for max_attempts where
  claim: "sr_status r = QUEUED \<Longrightarrow> sr_attempt r < max_attempts \<Longrightarrow> expires \<le> sr_deadline r \<Longrightarrow>
    transition max_attempts r (r\<lparr>sr_status := RUNNING, sr_attempt := sr_attempt r + 1,
      sr_lease_token := Some token, sr_started := Some now, sr_lease_expires := Some expires\<rparr>)"
| retry: "sr_status r = RUNNING \<Longrightarrow> sr_attempt r < max_attempts \<Longrightarrow> now < sr_deadline r \<Longrightarrow>
    transition max_attempts r (release (r\<lparr>sr_status := QUEUED, sr_started := None\<rparr>))"
| miss: "sr_status r = QUEUED \<Longrightarrow> sr_deadline r \<le> now \<Longrightarrow>
    transition max_attempts r (job_deadline_failure now r)"
| fail: "sr_status r = RUNNING \<Longrightarrow>
    transition max_attempts r (release (r\<lparr>sr_status := FAILED, sr_completed := Some now,
      sr_failure_version := version, sr_failure_code := Some fcode, sr_failure_retryable := Some retryable\<rparr>))"
| reject: "sr_status r = RUNNING \<Longrightarrow> now < sr_deadline r \<Longrightarrow>
    transition max_attempts r (release (r\<lparr>sr_status := REJECTED, sr_completed := Some now,
      sr_failure_code := Some ''TOKEN_LIMIT_EXCEEDED'', sr_failure_retryable := Some False\<rparr>))"
| succeed: "sr_status r = RUNNING \<Longrightarrow> now < sr_deadline r \<Longrightarrow>
    transition max_attempts r (release (r\<lparr>sr_status := SUCCEEDED, sr_completed := Some now\<rparr>))"

definition terminal :: "submission_row \<Rightarrow> bool" where
  "terminal r \<longleftrightarrow> sr_status r \<in> {REJECTED, SUCCEEDED, FAILED}"

definition row_ok :: "submission_row \<Rightarrow> bool" where
  "row_ok r \<longleftrightarrow>
     (sr_lease_token r \<noteq> None \<longleftrightarrow> sr_status r = RUNNING) \<and>
     (sr_lease_expires r \<noteq> None \<longleftrightarrow> sr_status r = RUNNING) \<and>
     (\<forall>t. sr_lease_expires r = Some t \<longrightarrow> t \<le> sr_deadline r) \<and>
     (sr_completed r \<noteq> None \<longleftrightarrow> terminal r) \<and>
     (sr_failure_code r \<noteq> None \<longleftrightarrow> sr_status r \<in> {REJECTED, FAILED}) \<and>
     (sr_failure_retryable r \<noteq> None \<longleftrightarrow> sr_status r \<in> {REJECTED, FAILED}) \<and>
     (sr_status r \<in> {RUNNING, SUCCEEDED, REJECTED} \<longrightarrow> 0 < sr_attempt r)"

text \<open>The part of a row that never changes.\<close>

definition request_of :: "submission_row \<Rightarrow> pystr \<times> pystr \<times> pystr \<times> pystr \<times> pystr \<times> pystr \<times> pystr \<times> pystr \<times> int \<times> int" where
  "request_of r = (sr_id r, sr_user r, sr_key r, sr_request_sha256 r, sr_challenge r, sr_identity r,
     sr_snapshot_sha256 r, sr_prompt r, sr_created r, sr_deadline r)"

lemmas row_defs = release_def job_deadline_failure_def

lemma transition_row_ok: "transition m r r' \<Longrightarrow> row_ok r \<Longrightarrow> row_ok r'"
  by (induction rule: transition.induct) (auto simp: row_ok_def terminal_def row_defs)

lemma transition_request: "transition m r r' \<Longrightarrow> request_of r' = request_of r"
  by (induction rule: transition.induct) (simp_all add: request_of_def row_defs)

lemma transition_not_terminal: "transition m r r' \<Longrightarrow> \<not> terminal r"
  by (induction rule: transition.induct) (simp_all add: terminal_def)

lemma transition_attempt:
  "transition m r r' \<Longrightarrow> sr_attempt r' = sr_attempt r + (if sr_status r' = RUNNING then 1 else 0) \<and>
     (sr_status r' = RUNNING \<longrightarrow> sr_status r = QUEUED \<and> sr_attempt r < m)"
  by (induction rule: transition.induct) (simp_all add: row_defs)

lemma transition_outstanding: "transition m r r' \<Longrightarrow> outstanding r"
  by (induction rule: transition.induct) (simp_all add: outstanding_def)

lemma request_of_fields:
  "request_of r' = request_of r \<Longrightarrow> sr_id r' = sr_id r \<and> sr_user r' = sr_user r \<and> sr_key r' = sr_key r \<and>
     sr_deadline r' = sr_deadline r"
  by (simp add: request_of_def)

section \<open>Steps of the store\<close>

definition same_limits :: "evaluation_contract \<Rightarrow> evaluation_contract \<Rightarrow> bool" where
  "same_limits K c \<longleftrightarrow> ec_max_outstanding c = ec_max_outstanding K \<and>
     ec_global_queue_depth c = ec_global_queue_depth K"

inductive store_step :: "evaluation_contract \<Rightarrow> database \<Rightarrow> database \<Rightarrow> bool" for K where
  register: "register_user db fresh subject handle admin = Inr (x, db') \<Longrightarrow> store_step K db db'"
| create: "create_submission sha db now fresh user key prompt c fp = Inr ((row, replayed), db') \<Longrightarrow>
    same_limits K c \<Longrightarrow> store_step K db db'"
| admin: "store_step K db (db\<lparr>db_admin := rows\<rparr>)"
| publish: "store_step K db (mark_outbox_published db now i)"
| claim: "claim_submission db now now' fresh i identity snapshot lease (ec_max_attempts K) (ec_max_running K) = (a, db') \<Longrightarrow>
    store_step K db db'"
| leases: "expire_leases db now identity = (n, db') \<Longrightarrow> store_step K db db'"
| deadlines: "expire_queued_deadlines db now identity = (n, db') \<Longrightarrow> store_step K db db'"
| success: "complete_success db now c res = Inr (b, db') \<Longrightarrow> store_step K db db'"
| retry: "retry_submission db now c (ec_max_attempts K) = (b, db') \<Longrightarrow> store_step K db db'"
| failure: "complete_failure db now c version fcode retryable = (b, db') \<Longrightarrow> store_step K db db'"
| rejected: "complete_rejected db now c = (b, db') \<Longrightarrow> store_step K db db'"

definition empty_db :: database where
  "empty_db = \<lparr>db_users = [], db_submissions = [], db_outbox = [], db_results = [], db_admin = []\<rparr>"

inductive reachable :: "evaluation_contract \<Rightarrow> database \<Rightarrow> bool" for K where
  start: "reachable K empty_db"
| step: "reachable K db \<Longrightarrow> store_step K db db' \<Longrightarrow> reachable K db'"

inductive_cases reachableE: "reachable K db"

text \<open>
  What a step does to the rows.  It moves the rows that satisfy \<open>P\<close> by one transition each; rows
  become RUNNING only in a claim, which moves one row of a user who was below the limit; a row
  becomes SUCCEEDED only together with its result, before its deadline.
\<close>

definition running_of :: "database \<Rightarrow> pystr \<Rightarrow> submission_row list" where
  "running_of db user = filter (\<lambda>r. sr_user r = user \<and> sr_status r = RUNNING) (db_submissions db)"

definition succeed_at :: "int \<Rightarrow> submission_row \<Rightarrow> submission_row" where
  "succeed_at now r = release (r\<lparr>sr_status := SUCCEEDED, sr_completed := Some now\<rparr>)"

definition only_row :: "database \<Rightarrow> (submission_row \<Rightarrow> bool) \<Rightarrow> submission_row \<Rightarrow> bool" where
  "only_row db P r \<longleftrightarrow> r \<in> set (db_submissions db) \<and> (\<forall>x \<in> set (db_submissions db). P x \<longleftrightarrow> x = r)"

definition results_step :: "database \<Rightarrow> database \<Rightarrow> (submission_row \<Rightarrow> bool) \<Rightarrow> (submission_row \<Rightarrow> submission_row) \<Rightarrow> bool" where
  "results_step db db' P f \<longleftrightarrow>
     db_results db' = db_results db \<and> (\<forall>r \<in> set (db_submissions db). P r \<longrightarrow> sr_status (f r) \<noteq> SUCCEEDED) \<or>
     (\<exists>r row. only_row db P r \<and> db_results db' = db_results db @ [row] \<and> rr_submission row = sr_id r \<and>
        rr_submission row \<notin> rr_submission ` set (db_results db) \<and>
        f r = succeed_at (rr_succeeded row) r \<and> rr_succeeded row < sr_deadline r)"

definition running_step :: "evaluation_contract \<Rightarrow> database \<Rightarrow> (submission_row \<Rightarrow> bool) \<Rightarrow> (submission_row \<Rightarrow> submission_row) \<Rightarrow> bool" where
  "running_step K db P f \<longleftrightarrow>
     (\<forall>r \<in> set (db_submissions db). P r \<longrightarrow> sr_status (f r) \<noteq> RUNNING) \<or>
     (\<exists>r. only_row db P r \<and> length (running_of db (sr_user r)) < ec_max_running K)"

definition rows_step :: "evaluation_contract \<Rightarrow> database \<Rightarrow> database \<Rightarrow> (submission_row \<Rightarrow> bool) \<Rightarrow> (submission_row \<Rightarrow> submission_row) \<Rightarrow> bool" where
  "rows_step K db db' P f \<longleftrightarrow>
     db_submissions db' = map (\<lambda>r. if P r then f r else r) (db_submissions db) \<and>
     (\<forall>r \<in> set (db_submissions db). P r \<longrightarrow> transition (ec_max_attempts K) r (f r)) \<and>
     running_step K db P f \<and> results_step db db' P f \<and>
     db_outbox db' = db_outbox db \<and> db_users db' = db_users db"

lemma unchanged: "rows_step K db db (\<lambda>_. False) id"
  by (simp add: rows_step_def running_step_def results_step_def)

text \<open>The steps that neither claim nor complete successfully.\<close>

lemma quiet_rows:
  "(\<And>r. r \<in> set (db_submissions db) \<Longrightarrow> P r \<Longrightarrow>
      transition (ec_max_attempts K) r (f r) \<and> sr_status (f r) \<noteq> RUNNING \<and> sr_status (f r) \<noteq> SUCCEEDED) \<Longrightarrow>
   rows_step K db (update_rows P f db) P f"
  by (simp add: rows_step_def update_rows_def running_step_def results_step_def)

lemma find_held: "find P xs = Some r \<Longrightarrow> r \<in> set xs \<and> P r"
  by (metis find_Some_iff nth_mem)

definition distinct_ids :: "database \<Rightarrow> bool" where
  "distinct_ids db \<longleftrightarrow> distinct (map sr_id (db_submissions db))"

lemma same_id:
  "distinct_ids db \<Longrightarrow> x \<in> set (db_submissions db) \<Longrightarrow> r \<in> set (db_submissions db) \<Longrightarrow> sr_id x = sr_id r \<Longrightarrow> x = r"
  by (simp add: distinct_ids_def distinct_map inj_on_def)

lemma row_of_Some: "row_of db i = Some r \<Longrightarrow> r \<in> set (db_submissions db) \<and> sr_id r = i"
  unfolding row_of_def by (drule find_held) simp

lemma same_row: "distinct_ids db \<Longrightarrow> row_of db i = Some r \<Longrightarrow> x \<in> set (db_submissions db) \<Longrightarrow> sr_id x = i \<Longrightarrow> x = r"
  using same_id [of db x r] row_of_Some [of db i r] by simp

lemma same_held:
  "distinct_ids db \<Longrightarrow> find (held_by c) (db_submissions db) = Some r \<Longrightarrow> x \<in> set (db_submissions db) \<Longrightarrow> held_by c x \<Longrightarrow> x = r"
  using same_id [of db x r] find_held [of "held_by c" "db_submissions db" r] by (simp add: held_by_def)

section \<open>Every operation is a step of rows\<close>

lemma claim_rows:
  assumes "claim_submission db now now' fresh i identity snapshot lease (ec_max_attempts K) (ec_max_running K) = (a, db')"
    "distinct_ids db"
  shows "\<exists>P f. rows_step K db db' P f"
proof (cases "row_of db i")
  case None
  then show ?thesis using assms unchanged by (auto simp: claim_submission_def)
next
  case (Some r)
  let ?P = "\<lambda>x. sr_id x = i \<and> sr_status x = QUEUED"
  let ?Q = "\<lambda>x. sr_id x = i \<and> sr_status x = QUEUED \<and> sr_attempt x = sr_attempt r"
  let ?f = "\<lambda>x. x\<lparr>sr_status := RUNNING, sr_attempt := sr_attempt r + 1,
        sr_lease_token := Some fresh, sr_started := Some now,
        sr_lease_expires := Some (min (now' + seconds lease) (sr_deadline r))\<rparr>"
  have miss: "sr_deadline r \<le> now \<Longrightarrow> rows_step K db (update_rows ?P (job_deadline_failure now) db) ?P (job_deadline_failure now)"
    using same_row [OF assms(2) Some]
    by (intro quiet_rows conjI transition.miss) (auto simp: job_deadline_failure_def)
  have claim: "rows_step K db (update_rows ?Q ?f db) ?Q ?f"
    if "sr_attempt r < ec_max_attempts K" "sr_status r = QUEUED" "rowcount (\<lambda>x. sr_user x = sr_user r \<and> sr_status x = RUNNING) db < ec_max_running K"
  proof -
    have r: "only_row db ?Q r"
      unfolding only_row_def using same_row [OF assms(2) Some] row_of_Some [OF Some] that(2) by blast
    have "transition (ec_max_attempts K) x (?f x)" if x: "x \<in> set (db_submissions db)" "?Q x" for x
    proof -
      have "x = r" using x r by (simp add: only_row_def)
      moreover have "transition (ec_max_attempts K) r (r\<lparr>sr_status := RUNNING, sr_attempt := sr_attempt r + 1,
          sr_lease_token := Some fresh, sr_started := Some now,
          sr_lease_expires := Some (min (now' + seconds lease) (sr_deadline r))\<rparr>)"
        using \<open>sr_attempt r < ec_max_attempts K\<close> \<open>sr_status r = QUEUED\<close> by (intro transition.claim) auto
      ultimately show ?thesis by simp
    qed
    moreover have "running_step K db ?Q ?f"
      using r that(3) by (auto simp: running_step_def running_of_def rowcount_def)
    ultimately show ?thesis by (simp add: rows_step_def update_rows_def results_step_def)
  qed
  have "db' = db \<or> sr_deadline r \<le> now \<and> db' = update_rows ?P (job_deadline_failure now) db \<or>
      (sr_attempt r < ec_max_attempts K \<and> sr_status r = QUEUED \<and>
       rowcount (\<lambda>x. sr_user x = sr_user r \<and> sr_status x = RUNNING) db < ec_max_running K) \<and> db' = update_rows ?Q ?f db"
    using assms(1) Some by (simp add: claim_submission_def Let_def not_le split: if_splits)
  then show ?thesis
  proof (elim disjE conjE)
    assume "db' = db"
    then show ?thesis using unchanged [of K db] by blast
  next
    assume "sr_deadline r \<le> now" "db' = update_rows ?P (job_deadline_failure now) db"
    then show ?thesis using miss by blast
  next
    assume "sr_attempt r < ec_max_attempts K" "sr_status r = QUEUED"
      "rowcount (\<lambda>x. sr_user x = sr_user r \<and> sr_status x = RUNNING) db < ec_max_running K" "db' = update_rows ?Q ?f db"
    then show ?thesis using claim by blast
  qed
qed

lemma update_held_rows:
  assumes "distinct_ids db" "find (held_by c) (db_submissions db) = Some r"
    "transition (ec_max_attempts K) r (f r)" "sr_status (f r) \<noteq> RUNNING" "sr_status (f r) \<noteq> SUCCEEDED"
  shows "rows_step K db (update_rows (held_by c) f db) (held_by c) f"
  using same_held [OF assms(1,2)] assms(3-5) by (intro quiet_rows) auto

lemma fail_transition:
  "sr_status r = RUNNING \<Longrightarrow>
   transition m r (release (job_deadline_failure now r))"
  using transition.fail [where r = r and max_attempts = m and now = now and version = "sr_failure_version r"
      and fcode = "''JOB_DEADLINE''" and retryable = False]
  by (simp add: row_defs)

lemma held_status: "find (held_by c) xs = Some r \<Longrightarrow> sr_status r = RUNNING"
  by (drule find_held) (simp add: held_by_def)

lemma retry_rows:
  assumes "retry_submission db now c (ec_max_attempts K) = (b, db')" "distinct_ids db"
  shows "\<exists>P f. rows_step K db db' P f"
proof (cases "find (held_by c) (db_submissions db)")
  case None
  then show ?thesis using assms unchanged by (auto simp: retry_submission_def)
next
  case (Some r)
  have "sr_attempt r < ec_max_attempts K \<Longrightarrow> now < sr_deadline r \<Longrightarrow>
      rows_step K db (update_rows (held_by c) (\<lambda>x. release (x\<lparr>sr_status := QUEUED, sr_started := None\<rparr>)) db)
        (held_by c) (\<lambda>x. release (x\<lparr>sr_status := QUEUED, sr_started := None\<rparr>))"
    by (rule update_held_rows [OF assms(2) Some]) (simp_all add: row_defs transition.retry [simplified row_defs] held_status [OF Some])
  then show ?thesis
    using assms(1) Some unchanged [of K db] by (auto simp: retry_submission_def not_le split: if_splits)
qed

lemma failure_rows:
  assumes "complete_failure db now c version fcode retryable = (b, db')" "distinct_ids db"
  shows "\<exists>P f. rows_step K db db' P f"
proof (cases "find (held_by c) (db_submissions db)")
  case None
  then show ?thesis using assms unchanged by (auto simp: complete_failure_def)
next
  case (Some r)
  have "rows_step K db (update_rows (held_by c) (\<lambda>x. release (x\<lparr>sr_status := FAILED, sr_completed := Some now,
        sr_failure_version := Some version, sr_failure_code := Some fc, sr_failure_retryable := Some rt\<rparr>)) db)
      (held_by c) (\<lambda>x. release (x\<lparr>sr_status := FAILED, sr_completed := Some now,
        sr_failure_version := Some version, sr_failure_code := Some fc, sr_failure_retryable := Some rt\<rparr>))" for fc rt
    using transition.fail [OF held_status [OF Some]] by (intro update_held_rows [OF assms(2) Some]) (simp_all add: row_defs)
  then show ?thesis
    using assms(1) Some unchanged [of K db] by (auto simp: complete_failure_def Let_def split: if_splits)
qed

lemma rejected_rows:
  assumes "complete_rejected db now c = (b, db')" "distinct_ids db"
  shows "\<exists>P f. rows_step K db db' P f"
proof (cases "find (held_by c) (db_submissions db)")
  case None
  then show ?thesis using assms unchanged by (auto simp: complete_rejected_def)
next
  case (Some r)
  note running = held_status [OF Some]
  have "rows_step K db (update_rows (held_by c) (\<lambda>x. release (job_deadline_failure now x)) db)
      (held_by c) (\<lambda>x. release (job_deadline_failure now x))"
    using fail_transition [OF running] by (intro update_held_rows [OF assms(2) Some]) (simp_all add: row_defs)
  moreover have "now < sr_deadline r \<Longrightarrow>
      rows_step K db (update_rows (held_by c) (\<lambda>x. release (x\<lparr>sr_status := REJECTED,
              sr_completed := Some now, sr_failure_code := Some ''TOKEN_LIMIT_EXCEEDED'',
              sr_failure_retryable := Some False\<rparr>)) db) (held_by c) (\<lambda>x. release (x\<lparr>sr_status := REJECTED,
              sr_completed := Some now, sr_failure_code := Some ''TOKEN_LIMIT_EXCEEDED'',
              sr_failure_retryable := Some False\<rparr>))"
    using transition.reject [OF running] by (intro update_held_rows [OF assms(2) Some]) (simp_all add: row_defs)
  ultimately show ?thesis
    using assms(1) Some unchanged [of K db] by (auto simp: complete_rejected_def not_le split: if_splits)
qed

lemma leases_rows:
  assumes "expire_leases db now identity = (n, db')"
  shows "\<exists>P f. rows_step K db db' P f"
proof -
  let ?P = "\<lambda>r. sr_status r = RUNNING \<and> due (sr_lease_expires r) now \<and> for_identity identity r"
  let ?f = "\<lambda>r. r\<lparr>sr_status := FAILED, sr_completed := Some now, sr_lease_token := None, sr_lease_expires := None,
      sr_failure_code := Some (if sr_deadline r \<le> now then ''JOB_DEADLINE'' else ''WORKER_CRASH''),
      sr_failure_retryable := Some False\<rparr>"
  have swap: "?f r = release (r\<lparr>sr_status := FAILED, sr_completed := Some now, sr_failure_version := sr_failure_version r,
      sr_failure_code := Some (if sr_deadline r \<le> now then ''JOB_DEADLINE'' else ''WORKER_CRASH''),
      sr_failure_retryable := Some False\<rparr>)" for r :: submission_row
    by (cases r) (simp add: release_def)
  have "transition (ec_max_attempts K) r (?f r)" if "sr_status r = RUNNING" for r
    unfolding swap by (rule transition.fail [OF that])
  then have "rows_step K db (update_rows ?P ?f db) ?P ?f"
    by (intro quiet_rows) simp_all
  moreover have "db' = update_rows ?P ?f db" using assms by (simp add: expire_leases_def Let_def)
  ultimately show ?thesis by blast
qed

lemma deadlines_rows:
  assumes "expire_queued_deadlines db now identity = (n, db')"
  shows "\<exists>P f. rows_step K db db' P f"
proof -
  let ?P = "\<lambda>r. sr_status r = QUEUED \<and> sr_deadline r \<le> now \<and> for_identity identity r"
  have "rows_step K db (update_rows ?P (job_deadline_failure now) db) ?P (job_deadline_failure now)"
    by (intro quiet_rows conjI transition.miss) (simp_all add: job_deadline_failure_def)
  moreover have "db' = update_rows ?P (job_deadline_failure now) db"
    using assms by (simp add: expire_queued_deadlines_def Let_def)
  ultimately show ?thesis by blast
qed

lemma succeed_at_fun: "succeed_at now = (\<lambda>r. release (r\<lparr>sr_status := SUCCEEDED, sr_completed := Some now\<rparr>))"
  by (simp add: fun_eq_iff succeed_at_def)

lemma success_rows:
  assumes "complete_success db now c res = Inr (b, db')" "distinct_ids db"
  shows "\<exists>P f. rows_step K db db' P f"
proof (cases "b")
  case False
  then have "db' = db" using assms by (auto simp: complete_success_def rbind_Inr_iff Let_def split: if_splits)
  then show ?thesis using unchanged by auto
next
  case True
  from True assms obtain row
    where db': "db' = update_rows (held_by c) (succeed_at now) (db\<lparr>db_results := db_results db @ [row]\<rparr>)"
      and row_fields: "rr_submission row = cl_id c" "cl_id c \<notin> rr_submission ` set (db_results db)" "rr_succeeded row = now"
    by (auto simp: complete_success_def succeed_at_fun rbind_Inr_iff Let_def split: if_splits)
  from True assms obtain y where y: "y \<in> set (db_submissions db)" "held_by c y" "now < sr_deadline y"
    by (auto simp: complete_success_def rbind_Inr_iff Let_def list_ex_iff split: if_splits)
  have "x = y" if "x \<in> set (db_submissions db)" "held_by c x" for x
    using same_id [OF assms(2) that(1) y(1)] that(2) y(2) by (simp add: held_by_def)
  then have only: "only_row db (held_by c) y"
    unfolding only_row_def using y by blast
  have moved: "transition (ec_max_attempts K) y (succeed_at now y)"
    unfolding succeed_at_def using y by (intro transition.succeed) (auto simp: held_by_def)
  have row: "rr_submission row = sr_id y" "rr_submission row \<notin> rr_submission ` set (db_results db)" "rr_succeeded row = now"
    using row_fields y by (simp_all add: held_by_def)
  have "results_step db db' (held_by c) (succeed_at now)"
    unfolding results_step_def using only row y(3) by (intro disjI2 exI [of _ y] exI [of _ row]) (simp add: db' update_rows_def)
  moreover have "\<forall>r \<in> set (db_submissions db). held_by c r \<longrightarrow> transition (ec_max_attempts K) r (succeed_at now r)"
    using only moved by (simp add: only_row_def)
  ultimately have "rows_step K db db' (held_by c) (succeed_at now)"
    by (auto simp: rows_step_def running_step_def succeed_at_def release_def db' update_rows_def)
  then show ?thesis by blast
qed

end
