(* ===== verification/Store_Invariants.thy ===== *)
theory Store_Invariants
  imports Store_Lifecycle
begin

text \<open>
  What holds in every state a store can reach: keys are unique, every submission has one outbox
  row, the state of a row agrees with its columns, a result exists exactly for a succeeded
  submission, and the limits of the contract are never exceeded.
\<close>

section \<open>Steps by shape\<close>

definition users_step :: "database \<Rightarrow> database \<Rightarrow> bool" where
  "users_step db db' \<longleftrightarrow>
     db_submissions db' = db_submissions db \<and> map ob_submission (db_outbox db') = map ob_submission (db_outbox db) \<and>
     db_results db' = db_results db \<and>
     (db_users db' = db_users db \<or>
      (\<exists>row. db_users db' = db_users db @ [row] \<and> us_id row \<notin> us_id ` set (db_users db) \<and>
         us_subject row \<notin> us_subject ` set (db_users db) \<and> us_handle row \<notin> us_handle ` set (db_users db)))"

definition fresh_row :: "submission_row \<Rightarrow> bool" where
  "fresh_row r \<longleftrightarrow> sr_status r = QUEUED \<and> sr_attempt r = 0 \<and> sr_lease_token r = None \<and> sr_lease_expires r = None \<and>
     sr_completed r = None \<and> sr_failure_code r = None \<and> sr_failure_retryable r = None"

definition create_step :: "evaluation_contract \<Rightarrow> database \<Rightarrow> database \<Rightarrow> submission_row \<Rightarrow> bool" where
  "create_step K db db' row \<longleftrightarrow>
     db_submissions db' = db_submissions db @ [row] \<and> fresh_row row \<and>
     map ob_submission (db_outbox db') = map ob_submission (db_outbox db) @ [sr_id row] \<and>
     sr_id row \<notin> sr_id ` set (db_submissions db) \<and>
     (sr_user row, sr_key row) \<notin> (\<lambda>r. (sr_user r, sr_key r)) ` set (db_submissions db) \<and>
     sr_user row \<in> us_id ` set (db_users db) \<and>
     length (outstanding_of db (sr_user row)) < ec_max_outstanding K \<and>
     length (filter outstanding (db_submissions db)) < ec_global_queue_depth K \<and>
     db_users db' = db_users db \<and> db_results db' = db_results db"

lemma find_None_notin:
  "find (\<lambda>r. P r = a \<and> Q r = b) xs = None \<Longrightarrow> (a, b) \<notin> (\<lambda>r. (P r, Q r)) ` set xs"
  by (auto simp: find_None_iff)

lemma create_shape:
  assumes "create_submission sha db now fresh user key prompt c fp = Inr ((row, replayed), db')" "same_limits K c"
  shows "(replayed \<and> db' = db \<and> row \<in> set (db_submissions db) \<and> sr_user row = us_id user \<and> sr_key row = key) \<or>
    (\<not> replayed \<and> create_step K db db' row \<and> sr_user row = us_id user \<and> sr_key row = key \<and> sr_id row = fresh)"
proof (cases "find (\<lambda>r. sr_user r = us_id user \<and> sr_key r = key) (db_submissions db)")
  case None
  from find_None_notin [OF None]
  show ?thesis using assms None
    by (auto simp: create_submission_def rbind_Inr_iff Let_def create_step_def same_limits_def fresh_row_def new_row_def)
next
  case (Some r)
  with find_held [OF Some] show ?thesis using assms(1)
    by (auto simp: create_submission_def rbind_Inr_iff split: if_splits)
qed

text \<open>Every step has one of three shapes.\<close>

lemma store_step_shapes:
  assumes "store_step K db db'" "distinct_ids db"
  shows "users_step db db' \<or> (\<exists>row. create_step K db db' row) \<or> (\<exists>P f. rows_step K db db' P f)"
  using assms
proof (induction rule: store_step.induct)
  case (register db fresh subject handle admin x db')
  then have "users_step db db'"
    by (auto simp: register_user_def users_step_def rbind_Inr_iff Let_def)
  then show ?case by blast
next
  case (create sha db now fresh user key prompt c fp row replayed db')
  from create_shape [OF create(1,2)] unchanged [of K db] show ?case by blast
next
  case (admin db rows)
  then show ?case by (simp add: users_step_def)
next
  case (publish db now i)
  have "users_step db (mark_outbox_published db now i)"
    by (simp add: users_step_def mark_outbox_published_def o_def if_distrib cong: if_cong)
  then show ?case by blast
qed (blast dest: claim_rows leases_rows deadlines_rows success_rows retry_rows failure_rows rejected_rows)+

section \<open>The invariant\<close>

definition keys_ok :: "database \<Rightarrow> bool" where
  "keys_ok db \<longleftrightarrow> distinct_ids db \<and>
     distinct (map (\<lambda>r. (sr_user r, sr_key r)) (db_submissions db)) \<and>
     sr_user ` set (db_submissions db) \<subseteq> us_id ` set (db_users db) \<and>
     map ob_submission (db_outbox db) = map sr_id (db_submissions db)"

definition users_ok :: "database \<Rightarrow> bool" where
  "users_ok db \<longleftrightarrow> distinct (map us_id (db_users db)) \<and> distinct (map us_subject (db_users db)) \<and>
     distinct (map us_handle (db_users db))"

definition states_ok :: "evaluation_contract \<Rightarrow> database \<Rightarrow> bool" where
  "states_ok K db \<longleftrightarrow> (\<forall>r \<in> set (db_submissions db). row_ok r \<and> sr_attempt r \<le> ec_max_attempts K)"

definition limits_ok :: "evaluation_contract \<Rightarrow> database \<Rightarrow> bool" where
  "limits_ok K db \<longleftrightarrow>
     (\<forall>user. length (outstanding_of db user) \<le> ec_max_outstanding K \<and>
             length (running_of db user) \<le> ec_max_running K) \<and>
     length (filter outstanding (db_submissions db)) \<le> ec_global_queue_depth K"

definition result_of :: "result_row \<Rightarrow> submission_row \<Rightarrow> bool" where
  "result_of row r \<longleftrightarrow> sr_id r = rr_submission row \<and> sr_status r = SUCCEEDED \<and>
     sr_completed r = Some (rr_succeeded row) \<and> rr_succeeded row < sr_deadline r"

definition results_ok :: "database \<Rightarrow> bool" where
  "results_ok db \<longleftrightarrow> distinct (map rr_submission (db_results db)) \<and>
     (\<forall>row \<in> set (db_results db). \<exists>r \<in> set (db_submissions db). result_of row r) \<and>
     (\<forall>r \<in> set (db_submissions db). sr_status r = SUCCEEDED \<longrightarrow> sr_id r \<in> rr_submission ` set (db_results db))"

definition store_ok :: "evaluation_contract \<Rightarrow> database \<Rightarrow> bool" where
  "store_ok K db \<longleftrightarrow> keys_ok db \<and> users_ok db \<and> states_ok K db \<and> limits_ok K db \<and> results_ok db"

lemmas ok_defs = keys_ok_def users_ok_def states_ok_def limits_ok_def results_ok_def

text \<open>Only the users change.\<close>

lemma users_step_ok: "users_step db db' \<Longrightarrow> store_ok K db \<Longrightarrow> store_ok K db'"
  unfolding users_step_def store_ok_def ok_defs distinct_ids_def outstanding_of_def running_of_def
  by auto

text \<open>A new submission.\<close>

lemma fresh_row_ok: "fresh_row r \<Longrightarrow> row_ok r \<and> outstanding r \<and> sr_status r = QUEUED \<and> sr_attempt r = 0"
  by (simp add: fresh_row_def row_ok_def terminal_def outstanding_def)

lemma create_step_ok:
  assumes "create_step K db db' row" "store_ok K db"
  shows "store_ok K db'"
proof -
  note row = fresh_row_ok [of row]
  have "keys_ok db'" "users_ok db'" "states_ok K db'" "results_ok db'"
    using assms row by (auto simp: create_step_def store_ok_def ok_defs distinct_ids_def)
  moreover have "limits_ok K db'"
    using assms row by (auto simp: create_step_def store_ok_def limits_ok_def outstanding_of_def running_of_def Suc_le_eq)
  ultimately show ?thesis by (simp add: store_ok_def)
qed
text \<open>Transitions of rows.\<close>

lemma rows_step_same:
  assumes "rows_step K db db' P f" "\<And>r. r \<in> set (db_submissions db) \<Longrightarrow> P r \<Longrightarrow> g (f r) = g r"
  shows "map g (db_submissions db') = map g (db_submissions db)"
  using assms by (auto simp: rows_step_def)

lemma rows_step_transition:
  "rows_step K db db' P f \<Longrightarrow> r \<in> set (db_submissions db) \<Longrightarrow> P r \<Longrightarrow> transition (ec_max_attempts K) r (f r)"
  by (simp add: rows_step_def)

lemma rows_step_request:
  "rows_step K db db' P f \<Longrightarrow> r \<in> set (db_submissions db) \<Longrightarrow> P r \<Longrightarrow> request_of (f r) = request_of r"
  by (blast dest: rows_step_transition transition_request)

lemma rows_step_keys:
  assumes "rows_step K db db' P f"
  shows "map request_of (db_submissions db') = map request_of (db_submissions db)"
  using rows_step_request [OF assms] by (intro rows_step_same [OF assms]) simp

lemma map_via:
  assumes "map h xs = map h ys" "\<And>x y. h x = h y \<Longrightarrow> g x = g y"
  shows "map g xs = map g ys"
  using map_eq_imp_length_eq [OF assms(1)] assms(1)
proof (induction xs ys rule: list_induct2)
  case (Cons x xs y ys)
  then have "g x = g y" by (intro assms(2)) simp
  with Cons show ?case by simp
qed simp

lemma rows_step_fields:
  assumes "rows_step K db db' P f"
  shows "map sr_id (db_submissions db') = map sr_id (db_submissions db)"
    and "map sr_user (db_submissions db') = map sr_user (db_submissions db)"
    and "map (\<lambda>r. (sr_user r, sr_key r)) (db_submissions db') = map (\<lambda>r. (sr_user r, sr_key r)) (db_submissions db)"
  by (rule map_via [OF rows_step_keys [OF assms]], simp add: request_of_def)+

lemma rows_step_keys_ok:
  assumes "rows_step K db db' P f" "keys_ok db"
  shows "keys_ok db'"
proof -
  have "sr_user ` set (db_submissions db') = sr_user ` set (db_submissions db)"
    using arg_cong [OF rows_step_fields(2) [OF assms(1)], of set] by simp
  moreover have "db_outbox db' = db_outbox db" "db_users db' = db_users db"
    using assms(1) by (simp_all add: rows_step_def)
  ultimately show ?thesis
    using assms(2) rows_step_fields(1,3) [OF assms(1)] by (simp add: keys_ok_def distinct_ids_def)
qed

lemma rows_step_member:
  assumes "rows_step K db db' P f" "x \<in> set (db_submissions db')"
  obtains r where "r \<in> set (db_submissions db)" "x = (if P r then f r else r)"
  using assms by (auto simp: rows_step_def)

lemma rows_step_states_ok:
  assumes "rows_step K db db' P f" "states_ok K db"
  shows "states_ok K db'"
  unfolding states_ok_def
proof
  fix x assume "x \<in> set (db_submissions db')"
  then obtain r where r: "r \<in> set (db_submissions db)" "x = (if P r then f r else r)"
    by (rule rows_step_member [OF assms(1)])
  have "row_ok r \<and> sr_attempt r \<le> ec_max_attempts K" using assms(2) r by (simp add: states_ok_def)
  then show "row_ok x \<and> sr_attempt x \<le> ec_max_attempts K"
    using r rows_step_transition [OF assms(1) r(1)] transition_row_ok [of "ec_max_attempts K" r "f r"]
      transition_attempt [of "ec_max_attempts K" r "f r"] by auto
qed

lemma filter_map_le:
  "(\<And>x. x \<in> set xs \<Longrightarrow> Q (h x) \<Longrightarrow> Q x) \<Longrightarrow> length (filter Q (map h xs)) \<le> length (filter Q xs)"
  by (induction xs) auto

lemma filter_map_one:
  assumes "distinct xs" "\<And>x. x \<in> set xs \<Longrightarrow> x \<noteq> r \<Longrightarrow> h x = x"
  shows "length (filter Q (map h xs)) \<le> Suc (length (filter Q xs))"
proof (cases "r \<in> set xs")
  case True
  then obtain ys zs where xs: "xs = ys @ r # zs" by (auto dest: split_list)
  then have "map h ys = ys" "map h zs = zs"
    using assms by (auto intro!: map_idI)
  then show ?thesis by (simp add: xs)
next
  case False
  then have "map h xs = xs" using assms(2) by (intro map_idI) auto
  then show ?thesis by simp
qed

lemma outstanding_kept:
  assumes "rows_step K db db' P f" "r \<in> set (db_submissions db)" "P r"
  shows "outstanding r" "sr_user (f r) = sr_user r"
  using rows_step_transition [OF assms] transition_outstanding rows_step_request [OF assms]
  by (auto simp: request_of_def)

lemma rows_step_running:
  assumes step: "rows_step K db db' P f" and ok: "keys_ok db" "limits_ok K db"
  shows "length (running_of db' user) \<le> ec_max_running K"
proof -
  let ?h = "\<lambda>r. if P r then f r else r"
  let ?Q = "\<lambda>r. sr_user r = user \<and> sr_status r = RUNNING"
  have db': "running_of db' user = filter ?Q (map ?h (db_submissions db))"
    using step by (simp add: running_of_def rows_step_def)
  have old: "length (running_of db user) \<le> ec_max_running K" using ok by (simp add: limits_ok_def)
  have "running_step K db P f" using step by (simp add: rows_step_def)
  then show ?thesis unfolding running_step_def
  proof
    assume "\<forall>r \<in> set (db_submissions db). P r \<longrightarrow> sr_status (f r) \<noteq> RUNNING"
    then have "length (filter ?Q (map ?h (db_submissions db))) \<le> length (filter ?Q (db_submissions db))"
      by (intro filter_map_le) (auto split: if_splits)
    with old db' show ?thesis by (simp add: running_of_def)
  next
    assume "\<exists>r. only_row db P r \<and> length (running_of db (sr_user r)) < ec_max_running K"
    then obtain r where r: "only_row db P r" "length (running_of db (sr_user r)) < ec_max_running K" by blast
    show ?thesis
    proof (cases "sr_user r = user")
      case True
      have "distinct (db_submissions db)" using ok by (simp add: keys_ok_def distinct_ids_def distinct_map)
      then have "length (filter ?Q (map ?h (db_submissions db))) \<le> Suc (length (filter ?Q (db_submissions db)))"
        by (rule filter_map_one [of _ r]) (use r in \<open>auto simp: only_row_def\<close>)
      with r True db' show ?thesis by (simp add: running_of_def)
    next
      case False
      then have "length (filter ?Q (map ?h (db_submissions db))) \<le> length (filter ?Q (db_submissions db))"
        using r outstanding_kept(2) [OF step] by (intro filter_map_le) (auto simp: only_row_def split: if_splits)
      with old db' show ?thesis by (simp add: running_of_def)
    qed
  qed
qed

lemma rows_step_limits_ok:
  assumes step: "rows_step K db db' P f" and ok: "keys_ok db" "limits_ok K db"
  shows "limits_ok K db'"
proof -
  let ?h = "\<lambda>r. if P r then f r else r"
  have rows: "db_submissions db' = map ?h (db_submissions db)" using step by (simp add: rows_step_def)
  have "length (filter outstanding (map ?h (db_submissions db))) \<le> length (filter outstanding (db_submissions db))"
    using outstanding_kept(1) [OF step] by (intro filter_map_le) (auto split: if_splits)
  moreover have "length (filter (\<lambda>r. sr_user r = user \<and> outstanding r) (map ?h (db_submissions db))) \<le>
      length (filter (\<lambda>r. sr_user r = user \<and> outstanding r) (db_submissions db))" for user
    using outstanding_kept [OF step] by (intro filter_map_le) (auto split: if_splits)
  ultimately show ?thesis
    using ok(2) rows_step_running [OF step ok] unfolding limits_ok_def outstanding_of_def rows
    by (meson le_trans)
qed

lemma rows_step_results_ok:
  assumes step: "rows_step K db db' P f" and ok: "results_ok db"
  shows "results_ok db'"
proof -
  let ?h = "\<lambda>r. if P r then f r else r"
  have rows: "set (db_submissions db') = ?h ` set (db_submissions db)" using step by (simp add: rows_step_def)
  have kept: "?h r = r" if "r \<in> set (db_submissions db)" "sr_status r = SUCCEEDED" for r
    using that rows_step_transition [OF step that(1)] transition_not_terminal by (auto simp: terminal_def)
  have old: "\<exists>r \<in> set (db_submissions db'). result_of row r" if row: "row \<in> set (db_results db)" for row
  proof -
    obtain r where r: "r \<in> set (db_submissions db)" "result_of row r" using ok row by (auto simp: results_ok_def)
    then have "?h r = r" by (intro kept) (simp_all add: result_of_def)
    then have "r \<in> ?h ` set (db_submissions db)" using imageI [OF r(1), of ?h] by simp
    then show ?thesis using r(2) rows by blast
  qed
  have id: "sr_id (?h r) = sr_id r" if "r \<in> set (db_submissions db)" for r
    using rows_step_request [OF step that] by (simp add: request_of_def)
  have "results_step db db' P f" using step by (simp add: rows_step_def)
  then show ?thesis unfolding results_step_def
  proof (elim disjE conjE exE)
    assume same: "db_results db' = db_results db" "\<forall>r \<in> set (db_submissions db). P r \<longrightarrow> sr_status (f r) \<noteq> SUCCEEDED"
    then have "sr_id x \<in> rr_submission ` set (db_results db)" if "x \<in> set (db_submissions db')" "sr_status x = SUCCEEDED" for x
      using that ok unfolding rows results_ok_def by (auto split: if_splits)
    with same ok old show ?thesis by (simp add: results_ok_def)
  next
    fix r row
    assume r: "only_row db P r" and res: "db_results db' = db_results db @ [row]" "rr_submission row = sr_id r"
      "rr_submission row \<notin> rr_submission ` set (db_results db)" and f: "f r = succeed_at (rr_succeeded row) r"
      "rr_succeeded row < sr_deadline r"
    have "f r \<in> set (db_submissions db')" using r rows by (auto simp: only_row_def image_iff)
    moreover have "result_of row (f r)" using f res by (simp add: result_of_def succeed_at_def release_def)
    moreover have "sr_id x \<in> rr_submission ` set (db_results db')" if x: "x \<in> set (db_submissions db')" "sr_status x = SUCCEEDED" for x
    proof -
      obtain y where y: "y \<in> set (db_submissions db)" "x = ?h y" using x rows by blast
      show ?thesis
      proof (cases "P y")
        case True
        then have "y = r" using r y by (simp add: only_row_def)
        then show ?thesis using y True res id [OF y(1)] by simp
      next
        case False
        then show ?thesis using y x ok res by (simp add: results_ok_def)
      qed
    qed
    ultimately show ?thesis using ok old res unfolding results_ok_def by auto
  qed
qed

lemma rows_step_ok: "rows_step K db db' P f \<Longrightarrow> store_ok K db \<Longrightarrow> store_ok K db'"
  unfolding store_ok_def
  using rows_step_keys_ok rows_step_states_ok rows_step_limits_ok rows_step_results_ok
  by (metis rows_step_def users_ok_def)

lemma store_step_ok: "store_step K db db' \<Longrightarrow> store_ok K db \<Longrightarrow> store_ok K db'"
  by (metis store_step_shapes users_step_ok create_step_ok rows_step_ok store_ok_def keys_ok_def)

lemma empty_db_ok: "store_ok K empty_db"
  by (simp add: store_ok_def ok_defs empty_db_def distinct_ids_def outstanding_of_def running_of_def)

lemma reachable_ok: "reachable K db \<Longrightarrow> store_ok K db"
  by (induction rule: reachable.induct) (auto intro: empty_db_ok store_step_ok)


end
