(* ===== verification/Store_Properties.thy ===== *)
theory Store_Properties
  imports Store_Invariants
begin

text \<open>
  What the store promises its callers, in every reachable state: unique keys, limits, one result
  for each success, final terminal states, fenced completions, idempotent creation and bounded
  work; with a small history of a store for the witnesses.
\<close>

section \<open>A small store\<close>

definition demo_contract :: evaluation_contract where
  "demo_contract =
     \<lparr>ec_snapshot_json = u ''{}'', ec_contract_version = u ''v1'', ec_challenge_id = u ''upos'',
      ec_catalog_status = u ''active'', ec_identity_sha256 = u ''id'', ec_snapshot_sha256 = u ''snap'',
      ec_owner_result_fields = [JStr (u ''score'')], ec_owner_failure_fields = [], ec_leaderboard_fields = [],
      ec_key_pattern = [], ec_prompt_bytes = 100, ec_prompt_tokens = 100, ec_body_bytes = 1000,
      ec_max_rendered = 1000, ec_context_tokens = 2000, ec_submissions_per_day = 5,
      ec_max_outstanding = 2, ec_max_running = 1, ec_global_queue_depth = 10, ec_max_attempts = 2,
      ec_job_deadline_seconds = 100, ec_request_timeout_seconds = 10, ec_response_bytes = 1000,
      ec_model_concurrency = 1, ec_retry_requires_termination = False, ec_failure_version = u ''f1'',
      ec_retryable_codes = [u ''PROVIDER_TRANSPORT'']\<rparr>"

definition demo_user :: user_record where
  "demo_user = \<lparr>us_id = u ''u1'', us_subject = u ''s1'', us_handle = u ''ann'', us_admin = False\<rparr>"

definition demo_row :: submission_row where
  "demo_row = new_row demo_contract (u ''a'') (u ''u1'') (u ''k'')
     (request_payload (u ''upos'') (u ''v1'') (u ''p'')) (u ''p'') (u ''p'') 0"

definition demo_outbox :: outbox_row where
  "demo_outbox = \<lparr>ob_submission = u ''a'', ob_created = 0, ob_published = None\<rparr>"

definition demo_queued :: database where
  "demo_queued = \<lparr>db_users = [demo_user], db_submissions = [demo_row], db_outbox = [demo_outbox],
     db_results = [], db_admin = []\<rparr>"

definition demo_claim :: claimed_submission where
  "demo_claim = \<lparr>cl_id = u ''a'', cl_user = u ''u1'', cl_prompt = u ''p'', cl_prompt_sha256 = u ''p'',
     cl_snapshot_json = u ''{}'', cl_snapshot_sha256 = u ''snap'', cl_identity = u ''id'', cl_attempt = 1,
     cl_lease_token = u ''t'', cl_deadline = 100000000\<rparr>"

definition demo_running :: database where
  "demo_running = demo_queued\<lparr>db_submissions := [demo_row\<lparr>sr_status := RUNNING, sr_attempt := 1,
     sr_lease_token := Some (u ''t''), sr_started := Some 1, sr_lease_expires := Some 60000002\<rparr>]\<rparr>"

definition demo_report :: "(pystr \<times> json) list" where
  "demo_report = [(u ''score'', JInt 1), (u ''samples_total'', JInt 1), (u ''samples_valid'', JInt 1),
     (u ''samples_invalid'', JInt 0)]"

definition demo_result :: result_row where
  "demo_result = \<lparr>rr_submission = u ''a'', rr_identity = u ''id'', rr_result = demo_report, rr_score = 1,
     rr_samples_total = 1, rr_samples_valid = 1, rr_samples_invalid = 0, rr_succeeded = 5\<rparr>"

definition demo_done :: database where
  "demo_done = demo_queued\<lparr>db_submissions := [demo_row\<lparr>sr_status := SUCCEEDED, sr_attempt := 1,
     sr_started := Some 1, sr_completed := Some 5\<rparr>], db_results := [demo_result]\<rparr>"

lemmas demo_store_defs = demo_contract_def demo_user_def demo_row_def demo_outbox_def demo_queued_def demo_claim_def
  demo_running_def demo_report_def demo_result_def demo_done_def

lemma demo_register:
  "register_user empty_db (u ''u1'') (u ''s1'') (u ''ann'') False = Inr (demo_user, empty_db\<lparr>db_users := [demo_user]\<rparr>)"
  by (simp add: register_user_def empty_db_def demo_user_def u_def ensure_def Let_def)

lemma demo_create:
  "create_submission (\<lambda>b. b) (empty_db\<lparr>db_users := [demo_user]\<rparr>) 0 (u ''a'') demo_user (u ''k'') (u ''p'') demo_contract None =
     Inr ((demo_row, False), demo_queued)"
  by (simp add: create_submission_def request_sha256_def utf8_def utf8_char_def is_surrogate_def empty_db_def
      demo_store_defs u_def ensure_def assert_admissions_open_def accepted_since_def outstanding_of_def Let_def)

lemma demo_claimed:
  "claim_submission demo_queued 1 2 (u ''t'') (u ''a'') (u ''id'') (u ''snap'') 60 2 1 =
     (\<lparr>ca_claim = Some demo_claim, ca_retry_later = False\<rparr>, demo_running)"
  by (simp add: claim_submission_def row_of_def demo_store_defs u_def new_row_def Let_def rowcount_def update_rows_def
      seconds_def)

lemma demo_completed: "complete_success demo_running 5 demo_claim demo_report = Inr (True, demo_done)"
  by (simp add: complete_success_def demo_store_defs u_def new_row_def Let_def rowcount_def update_rows_def
      seconds_def held_by_def after_def result_number_def result_int_def result_field_def release_def ensure_def)

lemma demo_queued_reachable: "reachable demo_contract demo_queued"
  by (rule reachable.step [OF reachable.step [OF reachable.start store_step.register [OF demo_register]]
        store_step.create [OF demo_create]]) (simp add: same_limits_def)

lemma demo_running_reachable: "reachable demo_contract demo_running"
  using demo_claimed by (intro reachable.step [OF demo_queued_reachable store_step.claim]) (simp add: demo_contract_def)

lemma demo_done_reachable: "reachable demo_contract demo_done"
  by (rule reachable.step [OF demo_running_reachable store_step.success [OF demo_completed]])
section \<open>The invariant\<close>

text \<open>In every reachable state ids, user and key pairs, users, subjects and handles are unique,
  every submission belongs to a registered user and has exactly one outbox row, in creation order.\<close>
theorem store_keys_unique: "reachable K db \<Longrightarrow> keys_ok db \<and> users_ok db"
  using reachable_ok by (simp add: store_ok_def)

lemma store_keys_unique_witness: "keys_ok demo_done \<and> users_ok demo_done"
  by (rule store_keys_unique [OF demo_done_reachable])

text \<open>C7. The limits of the contract hold in every reachable state, whatever the order of requests,
  claims and sweeps: outstanding submissions of each user, outstanding submissions in total,
  running submissions of each user, and attempts of each submission.\<close>
theorem store_limits:
  "reachable K db \<Longrightarrow> limits_ok K db \<and> (\<forall>r \<in> set (db_submissions db). sr_attempt r \<le> ec_max_attempts K)"
  using reachable_ok by (simp add: store_ok_def states_ok_def)

lemma store_limits_witness:
  "limits_ok demo_contract demo_running \<and> sr_attempt (hd (db_submissions demo_running)) \<le> ec_max_attempts demo_contract"
  using store_limits [OF demo_running_reachable] by (simp add: demo_running_def)

text \<open>C10. In every reachable state a row agrees with its status (a lease exactly while RUNNING, ending
  no later than the deadline; a completion time exactly when terminal; a failure code exactly when
  failed or rejected), a submission has SUCCEEDED exactly when it has a result, it never has two,
  and the result was stored before the deadline, at the completion time of the row.\<close>
theorem result_iff_succeeded:
  assumes "reachable K db" "r \<in> set (db_submissions db)"
  shows "row_ok r \<and> (sr_status r = SUCCEEDED \<longleftrightarrow> (\<exists>!row. row \<in> set (db_results db) \<and> rr_submission row = sr_id r)) \<and>
    (\<forall>row \<in> set (db_results db). rr_submission row = sr_id r \<longrightarrow>
       sr_completed r = Some (rr_succeeded row) \<and> rr_succeeded row < sr_deadline r)"
proof (intro conjI ballI impI)
  have ok: "keys_ok db" "states_ok K db" "results_ok db" using reachable_ok [OF assms(1)] by (auto simp: store_ok_def)
  show "row_ok r" using ok(2) assms(2) by (simp add: states_ok_def)
  have of: "result_of row r" if row: "row \<in> set (db_results db)" "rr_submission row = sr_id r" for row
  proof -
    obtain x where "x \<in> set (db_submissions db)" "result_of row x" using ok(3) row by (auto simp: results_ok_def)
    moreover have "x = r" using same_id [of db x r] calculation row assms(2) ok(1) by (simp add: result_of_def keys_ok_def)
    ultimately show ?thesis by simp
  qed
  have unique: "x = y" if "x \<in> set (db_results db)" "y \<in> set (db_results db)" "rr_submission x = rr_submission y" for x y
    using that ok(3) by (simp add: results_ok_def distinct_map inj_on_def)
  show "sr_status r = SUCCEEDED \<longleftrightarrow> (\<exists>!row. row \<in> set (db_results db) \<and> rr_submission row = sr_id r)"
  proof
    assume "sr_status r = SUCCEEDED"
    then have "sr_id r \<in> rr_submission ` set (db_results db)" using ok(3) assms(2) by (simp add: results_ok_def)
    then obtain row where "row \<in> set (db_results db)" "rr_submission row = sr_id r" by force
    with unique show "\<exists>!row. row \<in> set (db_results db) \<and> rr_submission row = sr_id r" by (metis (no_types))
  next
    assume "\<exists>!row. row \<in> set (db_results db) \<and> rr_submission row = sr_id r"
    then obtain row where "row \<in> set (db_results db)" "rr_submission row = sr_id r" by blast
    from of [OF this] show "sr_status r = SUCCEEDED" by (simp add: result_of_def)
  qed
  show "sr_completed r = Some (rr_succeeded row)" "rr_succeeded row < sr_deadline r"
    if "row \<in> set (db_results db)" "rr_submission row = sr_id r" for row
    using of [OF that] by (simp_all add: result_of_def)
qed

lemma demo_done_row: "hd (db_submissions demo_done) \<in> set (db_submissions demo_done)"
  by (simp add: demo_store_defs)

lemma result_iff_succeeded_witness:
  "sr_completed (hd (db_submissions demo_done)) = Some 5 \<and> 5 < sr_deadline (hd (db_submissions demo_done))"
  using result_iff_succeeded [OF demo_done_reachable demo_done_row]
  by (simp add: demo_store_defs u_def new_row_def)

section \<open>Rows over time\<close>

text \<open>What later states keep: the abstract machine of each row.\<close>

definition rows_refine :: "evaluation_contract \<Rightarrow> database \<Rightarrow> database \<Rightarrow> bool" where
  "rows_refine K db db' \<longleftrightarrow>
     (\<exists>moved new. db_submissions db' = moved @ new \<and> length new \<le> 1 \<and> (\<forall>r \<in> set new. fresh_row r) \<and>
        list_all2 (\<lambda>r r'. r' = r \<or> transition (ec_max_attempts K) r r') (db_submissions db) moved)"

lemma step_refines:
  assumes "store_step K db db'" "distinct_ids db"
  shows "rows_refine K db db'"
  using store_step_shapes [OF assms]
proof (elim disjE exE)
  assume "users_step db db'"
  then show ?thesis
    unfolding rows_refine_def by (intro exI [of _ "db_submissions db"] exI [of _ "[]"])
      (simp add: users_step_def list.rel_refl)
next
  fix row assume "create_step K db db' row"
  then show ?thesis
    unfolding rows_refine_def by (intro exI [of _ "db_submissions db"] exI [of _ "[row]"])
      (simp add: create_step_def list.rel_refl)
next
  fix P f assume "rows_step K db db' P f"
  then show ?thesis
    unfolding rows_refine_def by (intro exI [of _ "db_submissions db'"] exI [of _ "[]"])
      (auto simp: rows_step_def list_all2_map2 list_all2_same intro!: list.rel_refl_strong)
qed

lemma refine_keeps:
  assumes "rows_refine K db db'" "r \<in> set (db_submissions db)"
  obtains r' where "r' \<in> set (db_submissions db')" "r' = r \<or> transition (ec_max_attempts K) r r'"
proof -
  from assms(1) obtain moved new where m: "db_submissions db' = moved @ new"
    "list_all2 (\<lambda>r r'. r' = r \<or> transition (ec_max_attempts K) r r') (db_submissions db) moved"
    by (auto simp: rows_refine_def)
  from assms(2) obtain i where i: "i < length (db_submissions db)" "db_submissions db ! i = r"
    by (auto simp: in_set_conv_nth)
  then have "moved ! i \<in> set (db_submissions db')" "moved ! i = r \<or> transition (ec_max_attempts K) r (moved ! i)"
    using m list_all2_nthD [OF m(2) i(1)] list_all2_lengthD [OF m(2)] by simp_all
  then show thesis by (rule that)
qed

lemma reachable_distinct: "reachable K db \<Longrightarrow> distinct_ids db"
  using reachable_ok by (simp add: store_ok_def keys_ok_def)

text \<open>Every call of a store method refines the state machine of a submission: all rows keep their
  place, each takes at most one transition of the machine, and at most one new row appears, at the
  end, QUEUED with no attempt, no lease and no outcome.\<close>
theorem store_refines_machine: "reachable K db \<Longrightarrow> store_step K db db' \<Longrightarrow> rows_refine K db db'"
  by (rule step_refines [OF _ reachable_distinct])

lemma store_refines_machine_witness: "rows_refine demo_contract demo_running demo_done"
  by (rule store_refines_machine [OF demo_running_reachable store_step.success [OF demo_completed]])

definition later :: "evaluation_contract \<Rightarrow> database \<Rightarrow> database \<Rightarrow> bool" where
  "later K = (store_step K)\<^sup>*\<^sup>*"

lemma later_refl: "later K db db"
  by (simp add: later_def)

lemma later_step: "later K db db' \<Longrightarrow> store_step K db' db'' \<Longrightarrow> later K db db''"
  by (simp add: later_def)

lemma later_reachable: "later K db db' \<Longrightarrow> reachable K db \<Longrightarrow> reachable K db'"
  unfolding later_def by (induction rule: rtranclp_induct) (auto intro: reachable.step)

text \<open>A property of rows that every transition keeps is kept by every later row with the same id.\<close>

lemma later_row:
  assumes "later K db db'" "reachable K db" "r \<in> set (db_submissions db)" "Q r"
    and keep: "\<And>x y. Q x \<Longrightarrow> transition (ec_max_attempts K) x y \<Longrightarrow> Q y"
  shows "\<exists>r' \<in> set (db_submissions db'). request_of r' = request_of r \<and> Q r'"
  using assms(1) unfolding later_def
proof (induction rule: rtranclp_induct)
  case base
  with assms(3,4) show ?case by blast
next
  case (step db1 db2)
  then obtain x where x: "x \<in> set (db_submissions db1)" "request_of x = request_of r" "Q x" by blast
  have "reachable K db1" using later_reachable [OF _ assms(2)] step(1) by (simp add: later_def)
  from step_refines [OF step(2) reachable_distinct [OF this]] x(1)
  obtain y where "y \<in> set (db_submissions db2)" "y = x \<or> transition (ec_max_attempts K) x y" by (rule refine_keeps)
  with x keep transition_request show ?case by metis
qed

text \<open>Terminal states are final: a rejected, succeeded or failed submission is the same row, bit
  for bit, in every later state of the store.\<close>
theorem terminal_rows_final:
  assumes "reachable K db" "later K db db'" "r \<in> set (db_submissions db)" "terminal r"
  shows "r \<in> set (db_submissions db')"
  using later_row [OF assms(2,1,3), of "\<lambda>x. x = r"] transition_not_terminal assms(4) by blast

lemma terminal_rows_final_witness: "hd (db_submissions demo_done) \<in> set (db_submissions (mark_outbox_published demo_done 9 (u ''a'')))"
  using terminal_rows_final [OF demo_done_reachable later_step [OF later_refl store_step.publish] demo_done_row]
  by (simp add: terminal_def demo_store_defs)
section \<open>Fencing\<close>

text \<open>A claim is lost when its row has moved on: another attempt, or no longer RUNNING.\<close>

definition lost :: "claimed_submission \<Rightarrow> submission_row \<Rightarrow> bool" where
  "lost c r \<longleftrightarrow> sr_id r = cl_id c \<and>
     (cl_attempt c < sr_attempt r \<or> cl_attempt c = sr_attempt r \<and> sr_status r \<noteq> RUNNING)"

lemma lost_kept: "lost c r \<Longrightarrow> transition m r r' \<Longrightarrow> lost c r'"
  using transition_attempt [of m r r'] request_of_fields [OF transition_request, of m r r']
  by (auto simp: lost_def split: if_splits)

lemma unheld:
  assumes "distinct_ids db" "r \<in> set (db_submissions db)" "lost c r"
  shows "find (held_by c) (db_submissions db) = None" "\<not> list_ex (\<lambda>x. held_by c x \<and> Q x) (db_submissions db)"
proof -
  have "\<not> held_by c x" if x: "x \<in> set (db_submissions db)" for x
  proof
    assume held: "held_by c x"
    then have "x = r" using same_id [OF assms(1) x assms(2)] assms(3) by (simp add: held_by_def lost_def)
    with held assms(3) show False by (auto simp: held_by_def lost_def)
  qed
  then show "find (held_by c) (db_submissions db) = None" "\<not> list_ex (\<lambda>x. held_by c x \<and> Q x) (db_submissions db)"
    by (auto simp: find_None_iff list_ex_iff)
qed

text \<open>What a worker with the claim can still do: nothing.\<close>

definition powerless :: "database \<Rightarrow> claimed_submission \<Rightarrow> bool" where
  "powerless db c \<longleftrightarrow>
     (\<forall>now res. complete_success db now c res = Inr (False, db)) \<and>
     (\<forall>now m. retry_submission db now c m = (False, db)) \<and>
     (\<forall>now version fcode retryable. complete_failure db now c version fcode retryable = (False, db)) \<and>
     (\<forall>now. complete_rejected db now c = (False, db)) \<and>
     (\<forall>now. \<not> claim_is_current db now c)"

lemma lost_powerless: "distinct_ids db \<Longrightarrow> r \<in> set (db_submissions db) \<Longrightarrow> lost c r \<Longrightarrow> powerless db c"
  using unheld [of db r c]
  by (simp add: powerless_def complete_success_def retry_submission_def complete_failure_def complete_rejected_def
      claim_is_current_def)

text \<open>C8. Completions are fenced: once the row of a claim has moved on (completed, failed by a sweep,
  put back in the queue, or claimed again by another worker), the old claim can never again succeed,
  fail, reject, retry or pass the currency check, in any later state, and its calls change nothing.\<close>
theorem lost_claim_is_powerless:
  assumes "reachable K db" "r \<in> set (db_submissions db)" "lost c r" "later K db db'"
  shows "powerless db' c"
proof -
  obtain r' where "r' \<in> set (db_submissions db')" "lost c r'"
    using later_row [OF assms(4,1,2), of "lost c"] assms(3) lost_kept by blast
  then show ?thesis
    by (rule lost_powerless [OF reachable_distinct [OF later_reachable [OF assms(4,1)]]])
qed

lemma lost_claim_is_powerless_witness: "powerless (mark_outbox_published demo_done 9 (u ''a'')) demo_claim"
  using lost_claim_is_powerless [OF demo_done_reachable demo_done_row _ later_step [OF later_refl store_step.publish],
      of demo_claim 9 "u ''a''"]
  by (simp add: lost_def demo_store_defs new_row_def)

section \<open>Bounded work\<close>

text \<open>How many transitions a row has left.\<close>

definition work_left :: "nat \<Rightarrow> submission_row \<Rightarrow> nat" where
  "work_left m r = (case sr_status r of QUEUED \<Rightarrow> 2 * (m - sr_attempt r) + 1
     | RUNNING \<Rightarrow> 2 * (m - sr_attempt r) + 2 | _ \<Rightarrow> 0)"

lemma transition_work: "transition m r r' \<Longrightarrow> work_left m r' < work_left m r"
  by (induction rule: transition.induct) (auto simp: work_left_def row_defs)

inductive transitions :: "nat \<Rightarrow> nat \<Rightarrow> submission_row \<Rightarrow> submission_row \<Rightarrow> bool" for m where
  none: "transitions m 0 r r"
| one: "transitions m n r r' \<Longrightarrow> transition m r' r'' \<Longrightarrow> transitions m (Suc n) r r''"

lemma transitions_work: "transitions m n r r' \<Longrightarrow> n + work_left m r' \<le> work_left m r"
  by (induction rule: transitions.induct) (auto dest: transition_work)

text \<open>Every submission comes to rest: with \<open>m\<close> attempts a new row takes at most \<open>2 m + 1\<close>
  transitions (a claim and a retry for each attempt and one that ends it), and it is over exactly
  when no work is left.\<close>
theorem submission_work_bounded:
  "fresh_row r \<Longrightarrow> transitions m n r r' \<Longrightarrow> n \<le> 2 * m + 1 \<and> (work_left m r' = 0 \<longleftrightarrow> terminal r')"
proof -
  assume r: "fresh_row r" and run: "transitions m n r r'"
  have "work_left m r = 2 * m + 1" using r by (simp add: work_left_def fresh_row_def)
  moreover have "work_left m r' = 0 \<longleftrightarrow> terminal r'"
    by (cases "sr_status r'") (simp_all add: work_left_def terminal_def)
  ultimately show ?thesis using transitions_work [OF run] by simp
qed

lemma submission_work_bounded_witness:
  "(1::nat) \<le> 2 * 2 + 1 \<and> (work_left 2 (job_deadline_failure 100000000 demo_row) = 0 \<longleftrightarrow> terminal (job_deadline_failure 100000000 demo_row))"
  using submission_work_bounded [OF _ transitions.one [OF transitions.none transition.miss], of demo_row 100000000 2]
  by (simp add: fresh_row_def demo_store_defs new_row_def seconds_def)

section \<open>Sweeps\<close>

definition sweep :: "database \<Rightarrow> int \<Rightarrow> database" where
  "sweep db now = snd (expire_queued_deadlines (snd (expire_leases db now None)) now None)"

lemma unswept:
  assumes "\<And>x. \<not> outstanding (f x)" and "r \<in> set (db_submissions (update_rows P f db))" and "outstanding r"
  shows "r \<in> set (db_submissions db) \<and> \<not> P r"
proof -
  obtain x where x: "x \<in> set (db_submissions db)" "r = (if P x then f x else x)"
    using assms(2) by (auto simp: update_rows_def)
  with assms(1) [of x] assms(3) have "\<not> P x"
    by auto
  with x show ?thesis
    by simp
qed

lemma unswept_deadline:
  "r \<in> set (db_submissions (snd (expire_queued_deadlines db now None))) \<Longrightarrow> outstanding r
     \<Longrightarrow> r \<in> set (db_submissions db) \<and> \<not> (sr_status r = QUEUED \<and> sr_deadline r \<le> now)"
  unfolding expire_queued_deadlines_def Let_def snd_conv
  by (drule unswept [rotated]) (simp_all add: outstanding_def job_deadline_failure_def for_identity_def)

lemma unswept_lease:
  "r \<in> set (db_submissions (snd (expire_leases db now None))) \<Longrightarrow> outstanding r
     \<Longrightarrow> r \<in> set (db_submissions db) \<and> \<not> (sr_status r = RUNNING \<and> due (sr_lease_expires r) now)"
  unfolding expire_leases_def Let_def snd_conv
  by (drule unswept [rotated]) (simp_all add: outstanding_def for_identity_def)

text \<open>After both sweeps at a time no submission is left past its deadline: every row that is still
  outstanding has its deadline ahead, and if it is RUNNING its lease is ahead too.  The lease sweep
  suffices for running rows because a lease never outlives the deadline.\<close>
theorem sweep_leaves_nothing_overdue:
  assumes "reachable K db" "r \<in> set (db_submissions (sweep db now))" "outstanding r"
  shows "now < sr_deadline r \<and> (sr_status r = RUNNING \<longrightarrow> after (sr_lease_expires r) now)"
proof -
  have ok: "row_ok x" if "x \<in> set (db_submissions db)" for x
    using reachable_ok [OF assms(1)] that by (simp add: store_ok_def states_ok_def)
  have r: "r \<in> set (db_submissions db)" "\<not> (sr_status r = RUNNING \<and> due (sr_lease_expires r) now)"
    "\<not> (sr_status r = QUEUED \<and> sr_deadline r \<le> now)"
    using unswept_deadline [OF assms(2) [unfolded sweep_def] assms(3)] unswept_lease [OF _ assms(3)] by blast+
  then show ?thesis
    using ok [OF r(1)] assms(3)
    by (auto simp: outstanding_def row_ok_def due_def after_def split: option.splits)
qed

lemma sweep_leaves_nothing_overdue_witness: "(7::int) < sr_deadline (hd (db_submissions demo_running))"
  using sweep_leaves_nothing_overdue [OF demo_running_reachable, of "hd (db_submissions demo_running)" 7]
  by (simp add: sweep_def expire_queued_deadlines_def expire_leases_def Let_def update_rows_def for_identity_def
      demo_store_defs new_row_def due_def outstanding_def)


end
