(* ===== verification/Store_Views.thy ===== *)
theory Store_Views
  imports Store_Properties
begin

text \<open>
  The read side of the store: the leaderboard is one board cut into pages, and the owner's history
  is one list cut by cursors.
\<close>

section \<open>Lists\<close>

lemma enumerate_after:
  "filter (\<lambda>(rank, _). int k < int rank) (enumerate (Suc n) xs) = drop (k - n) (enumerate (Suc n) xs)"
proof (induction xs arbitrary: n)
  case (Cons x xs)
  show ?case
  proof (cases "k \<le> n")
    case True
    then have "filter (\<lambda>(rank, _). int k < int rank) (enumerate (Suc n) (x # xs)) = enumerate (Suc n) (x # xs)"
      by (intro filter_True) (auto simp: in_set_enumerate_eq)
    then show ?thesis using True by simp
  next
    case False
    then have "k - n = Suc (k - Suc n)" by simp
    then show ?thesis using False Cons.IH [of "Suc n"] by simp
  qed
qed simp

lemma list_minimum:
  fixes f :: "'a \<Rightarrow> 'b::linorder"
  shows "x \<in> set xs \<Longrightarrow> \<exists>m \<in> set xs. \<forall>y \<in> set xs. f m \<le> f y"
proof -
  assume "x \<in> set xs"
  then have "Min (f ` set xs) \<in> f ` set xs" by (intro Min_in) auto
  then obtain m where "m \<in> set xs" "f m = Min (f ` set xs)" by force
  then show ?thesis by (intro bexI [of _ m]) auto
qed

lemma filter_below:
  fixes f :: "'a \<Rightarrow> 'b::linorder"
  shows "sorted_wrt (\<lambda>x y. f y < f x) xs \<Longrightarrow> i < length xs \<Longrightarrow> filter (\<lambda>x. f x < f (xs ! i)) xs = drop (Suc i) xs"
proof (induction xs arbitrary: i)
  case (Cons x xs)
  show ?case
  proof (cases i)
    case 0
    then show ?thesis using Cons.prems by (simp add: filter_id_conv)
  next
    case (Suc j)
    then have "xs ! j \<in> set xs" using Cons.prems by simp
    then have "\<not> f x < f (xs ! j)" using Cons.prems by auto
    then show ?thesis using Cons Suc by simp
  qed
qed simp

section \<open>Leaderboard\<close>

definition candidate_of :: "database \<Rightarrow> pystr \<Rightarrow> int \<Rightarrow> result_row \<Rightarrow> candidate list" where
  "candidate_of db identity as_of rr =
     (case row_of db (rr_submission rr) of
        Some r \<Rightarrow>
          (case find (\<lambda>x. us_id x = sr_user r) (db_users db) of
             Some x \<Rightarrow>
               if rr_identity rr = identity \<and> sr_status r = SUCCEEDED \<and> rr_succeeded rr \<le> as_of
               then [\<lparr>cd_user = sr_user r, cd_handle = us_handle x, cd_submission = sr_id r,
                      cd_result = rr, cd_snapshot_json = sr_snapshot_json r\<rparr>]
               else []
           | None \<Rightarrow> [])
      | None \<Rightarrow> [])"

lemma candidate_of_submission:
  "map cd_submission (candidate_of db identity as_of rr) = [] \<or>
   map cd_submission (candidate_of db identity as_of rr) = [rr_submission rr]"
  by (auto simp: candidate_of_def row_of_Some split: option.splits)

lemma candidates_parts:
  "map cd_submission (concat (map (candidate_of db identity as_of) rrs)) =
     map rr_submission (filter (\<lambda>rr. candidate_of db identity as_of rr \<noteq> []) rrs)"
proof (induction rrs)
  case (Cons rr rrs)
  then show ?case using candidate_of_submission [of db identity as_of rr] by (auto simp: map_concat)
qed simp

lemma candidates_distinct:
  assumes "results_ok db"
  shows "distinct (map cd_submission (candidates db identity as_of))"
proof -
  have "candidates db identity as_of = concat (map (candidate_of db identity as_of) (db_results db))"
    by (simp add: candidates_def candidate_of_def [abs_def])
  then show ?thesis
    using assms by (auto simp: candidates_parts results_ok_def intro: distinct_map_filter)
qed

lemma best_unique:
  assumes "results_ok db" "c \<in> set (candidates db identity as_of)" "d \<in> set (candidates db identity as_of)"
    "best_of_user (candidates db identity as_of) c" "best_of_user (candidates db identity as_of) d" "cd_user c = cd_user d"
  shows "c = d"
proof -
  have "choice_key c \<le> choice_key d" "choice_key d \<le> choice_key c"
    using assms(2-6) by (auto simp: best_of_user_def list_all_iff)
  then have "choice_key c = choice_key d" by (rule antisym)
  then have "cd_submission c = cd_submission d" by (simp add: choice_key_def)
  then show ?thesis using candidates_distinct [OF assms(1), of identity as_of] assms(2,3)
    by (simp add: distinct_map inj_on_def)
qed

definition board_of :: "database \<Rightarrow> pystr \<Rightarrow> int \<Rightarrow> candidate list" where
  "board_of db identity as_of =
     (let cs = candidates db identity as_of in sort_key rank_key (filter (best_of_user cs) cs))"

lemma board_distinct:
  assumes "results_ok db"
  shows "distinct (map cd_user (board_of db identity as_of))"
proof -
  let ?cs = "candidates db identity as_of"
  have "distinct (filter (best_of_user ?cs) ?cs)"
    using candidates_distinct [OF assms, of identity as_of] by (simp add: distinct_map)
  moreover have "inj_on cd_user (set (filter (best_of_user ?cs) ?cs))"
    using best_unique [OF assms] by (auto simp: inj_on_def)
  ultimately show ?thesis by (simp add: board_of_def Let_def distinct_map)
qed

lemma board_best:
  assumes "c \<in> set (candidates db identity as_of)"
  shows "\<exists>e \<in> set (board_of db identity as_of). cd_user e = cd_user c \<and> choice_key e \<le> choice_key c"
proof -
  let ?cs = "candidates db identity as_of"
  have "c \<in> set (filter (\<lambda>d. cd_user d = cd_user c) ?cs)" using assms by simp
  from list_minimum [OF this, of choice_key] obtain e where
    e: "e \<in> set ?cs" "cd_user e = cd_user c" "\<forall>d \<in> set ?cs. cd_user d = cd_user c \<longrightarrow> choice_key e \<le> choice_key d" by auto
  then have "best_of_user ?cs e" by (simp add: best_of_user_def list_all_iff)
  with e show ?thesis using assms by (auto simp: board_of_def Let_def)
qed

lemma ranked_board: "ranked db identity as_of = enumerate 1 (board_of db identity as_of)"
  by (simp add: ranked_def board_of_def Let_def)

lemma leaderboard_page:
  assumes "0 < limit" "0 \<le> after_rank"
  shows "leaderboard db identity limit as_of after_rank =
    Inr (take (nat limit) (drop (nat after_rank) (enumerate 1 (board_of db identity as_of))))"
proof -
  obtain k where k: "after_rank = int k" using assms(2) nonneg_int_cases by blast
  show ?thesis
    using enumerate_after [of k 0 "board_of db identity as_of"] assms
    by (simp add: leaderboard_def ranked_board k ensure_def case_prod_unfold)
qed

text \<open>The leaderboard is one board, cut into pages: there is a list of candidates, the same for
  every page, in which each user with a valid result before the cut-off appears exactly once with a
  best submission (score, then time, then id), in rank order; and each page is the slice of that
  list after the given rank, with ranks counted from one.\<close>
theorem leaderboard_is_one_board:
  assumes "reachable K db"
  shows "\<exists>board. sorted (map rank_key board) \<and> distinct (map cd_user board) \<and>
    set board \<subseteq> set (candidates db identity as_of) \<and>
    (\<forall>c \<in> set (candidates db identity as_of). \<exists>e \<in> set board. cd_user e = cd_user c \<and> choice_key e \<le> choice_key c) \<and>
    (\<forall>limit after_rank. 0 < limit \<and> 0 \<le> after_rank \<longrightarrow>
       leaderboard db identity limit as_of after_rank = Inr (take (nat limit) (drop (nat after_rank) (enumerate 1 board))))"
proof (intro exI [of _ "board_of db identity as_of"] conjI ballI allI impI)
  show "distinct (map cd_user (board_of db identity as_of))"
    using reachable_ok [OF assms] by (intro board_distinct) (simp add: store_ok_def)
  show "sorted (map rank_key (board_of db identity as_of))" by (simp add: board_of_def Let_def)
  show "set (board_of db identity as_of) \<subseteq> set (candidates db identity as_of)" by (auto simp: board_of_def Let_def)
qed (auto intro: board_best simp: leaderboard_page)

lemma leaderboard_is_one_board_witness:
  "\<exists>board. distinct (map cd_user board) \<and>
    leaderboard demo_done (u ''id'') 10 100 0 = Inr (take (nat 10) (drop (nat 0) (enumerate 1 board)))"
  using leaderboard_is_one_board [OF demo_done_reachable, of "u ''id''" 100] by auto

section \<open>History\<close>

definition row_key :: "submission_row \<Rightarrow> int \<times> pystr" where
  "row_key r = (sr_created r, sr_id r)"

lemma newest_first_filter: "newest_first (filter P rs) = filter P (newest_first rs)"
  by (simp add: newest_first_def rev_filter [symmetric] filter_sort)

lemma newest_first_sorted:
  assumes "distinct (map sr_id rs)"
  shows "sorted_wrt (\<lambda>x y. row_key y < row_key x) (newest_first rs)"
proof -
  have "distinct (map row_key rs)"
    using assms by (auto simp: distinct_map row_key_def inj_on_def)
  then have "sorted_wrt (<) (map row_key (sort_key row_key rs))"
    by (simp add: strict_sorted_iff distinct_map)
  then have "sorted_wrt (\<lambda>x y. row_key x < row_key y) (sort_key row_key rs)"
    by (simp add: strict_sorted_iff sorted_wrt_map)
  then show ?thesis by (simp add: newest_first_def row_key_def [abs_def] sorted_wrt_rev)
qed

definition history :: "database \<Rightarrow> pystr \<Rightarrow> submission_row list" where
  "history db user = newest_first (filter (\<lambda>r. sr_user r = user) (db_submissions db))"

lemma cursor_key: "(sr_created r < t \<or> sr_created r = t \<and> sr_id r < i) \<longleftrightarrow> row_key r < (t, i)"
  by (auto simp: row_key_def less_prod_def')

text \<open>The owner's history is one list, newest first, of exactly the owner's submissions: the first
  page is its beginning, and the page after the cursor of any entry is what follows that entry, so
  pages neither skip nor repeat a submission, also when several were created at the same instant.\<close>
theorem history_pages_are_exact:
  assumes "reachable K db" "0 < n"
  shows "set (history db user) = {r \<in> set (db_submissions db). sr_user r = user} \<and>
    sorted_wrt (\<lambda>x y. row_key y < row_key x) (history db user) \<and>
    submissions_for_owner db user n None None = Inr (take (nat n) (history db user)) \<and>
    (\<forall>i < length (history db user).
       submissions_for_owner db user n (Some (sr_created (history db user ! i))) (Some (sr_id (history db user ! i))) =
         Inr (take (nat n) (drop (Suc i) (history db user))))"
proof (intro conjI allI impI)
  have "distinct (map sr_id (db_submissions db))" using reachable_distinct [OF assms(1)] by (simp add: distinct_ids_def)
  then show sorted: "sorted_wrt (\<lambda>x y. row_key y < row_key x) (history db user)"
    unfolding history_def by (intro newest_first_sorted distinct_map_filter)
  show "set (history db user) = {r \<in> set (db_submissions db). sr_user r = user}"
    by (auto simp: history_def newest_first_def)
  show "submissions_for_owner db user n None None = Inr (take (nat n) (history db user))"
    using assms(2) by (simp add: submissions_for_owner_def history_def ensure_def)
  fix i assume "i < length (history db user)"
  from filter_below [OF sorted this]
  have "newest_first (filter (\<lambda>r. sr_user r = user \<and> row_key r < row_key (history db user ! i)) (db_submissions db)) =
      drop (Suc i) (history db user)"
    unfolding history_def by (simp add: newest_first_filter [symmetric] conj_commute)
  then show "submissions_for_owner db user n (Some (sr_created (history db user ! i))) (Some (sr_id (history db user ! i))) =
         Inr (take (nat n) (drop (Suc i) (history db user)))"
    using assms(2) by (simp add: submissions_for_owner_def ensure_def cursor_key) (simp add: row_key_def)
qed

lemma history_pages_are_exact_witness:
  "submissions_for_owner demo_done (u ''u1'') 3 None None = Inr (take (nat 3) (history demo_done (u ''u1'')))"
  using history_pages_are_exact [OF demo_done_reachable, of 3 "u ''u1''"] by simp

end
