(* ===== verification/Request_Identity.thy ===== *)
theory Request_Identity
  imports Store_Properties
begin

text \<open>
  The identity of a request: the framing of challenge, contract version and prompt before hashing
  is injective, so equal digests mean equal requests or a collision of the hash, and a repeated
  idempotency key is answered by comparing them.
\<close>

section \<open>UTF-8 can be read back\<close>

fun utf8_take :: "nat list \<Rightarrow> nat \<times> nat list" where
  "utf8_take (b # bs) =
     (if b < 128 then (b, bs)
      else if b < 224 then ((b - 192) * 64 + (bs ! 0 - 128), drop 1 bs)
      else if b < 240 then ((b - 224) * 4096 + (bs ! 0 - 128) * 64 + (bs ! 1 - 128), drop 2 bs)
      else ((b - 240) * 262144 + (bs ! 0 - 128) * 4096 + (bs ! 1 - 128) * 64 + (bs ! 2 - 128), drop 3 bs))"
| "utf8_take [] = (0, [])"

lemma base_64: "(c::nat) div 4096 * 4096 + c div 64 mod 64 * 64 + c mod 64 = c"
proof -
  have "c div 64 div 64 * 64 + c div 64 mod 64 = c div 64" by (rule div_mult_mod_eq)
  then have "(c div 4096 * 64 + c div 64 mod 64) * 64 = c div 64 * 64" by (simp add: div_mult2_eq [symmetric])
  then show ?thesis using div_mult_mod_eq [of c 64] by (simp add: algebra_simps)
qed

lemma base_64_4: "(c::nat) div 262144 * 262144 + c div 4096 mod 64 * 4096 + c div 64 mod 64 * 64 + c mod 64 = c"
proof -
  have "c div 4096 div 64 * 64 + c div 4096 mod 64 = c div 4096" by (rule div_mult_mod_eq)
  then have "(c div 262144 * 64 + c div 4096 mod 64) * 4096 = c div 4096 * 4096" by (simp add: div_mult2_eq [symmetric])
  then show ?thesis using base_64 [of c] by (simp add: algebra_simps)
qed

lemma utf8_take_char:
  assumes "c < 1114112"
  shows "utf8_take (utf8_char c @ x) = (c, x)"
proof -
  consider "c < 128" | "128 \<le> c" "c < 2048" | "2048 \<le> c" "c < 65536" | "65536 \<le> c" by linarith
  then show ?thesis
  proof cases
    case 2
    then have "c div 64 < 32" by (simp add: less_mult_imp_div_less)
    with 2 div_mult_mod_eq [of c 64] show ?thesis by (simp add: utf8_char_def)
  next
    case 3
    then have "c div 4096 < 16" by (simp add: less_mult_imp_div_less)
    with 3 base_64 [of c] show ?thesis by (simp add: utf8_char_def numeral_2_eq_2)
  next
    case 4
    with base_64_4 [of c] show ?thesis by (simp add: utf8_char_def numeral_2_eq_2 numeral_3_eq_3)
  qed (simp add: utf8_char_def)
qed

definition code_points :: "pystr \<Rightarrow> bool" where
  "code_points s \<longleftrightarrow> list_all (\<lambda>c. c < 1114112) s"

lemma utf8_char_nonempty: "utf8_char c \<noteq> []"
  by (simp add: utf8_char_def)

lemma utf8_chars_inj:
  "code_points s \<Longrightarrow> code_points t \<Longrightarrow> concat (map utf8_char s) = concat (map utf8_char t) \<Longrightarrow> s = t"
proof (induction s arbitrary: t)
  case Nil
  then show ?case by (cases t) (auto simp: utf8_char_nonempty)
next
  case (Cons c s)
  then obtain d t' where t: "t = d # t'" by (cases t) (auto simp: utf8_char_nonempty)
  with Cons.prems have "utf8_take (utf8_char c @ concat (map utf8_char s)) = utf8_take (utf8_char d @ concat (map utf8_char t'))"
    by simp
  then have "c = d" "concat (map utf8_char s) = concat (map utf8_char t')"
    using Cons.prems(1,2) t utf8_take_char [of c] utf8_take_char [of d] by (auto simp: code_points_def simp del: utf8_take.simps)
  with Cons t show ?case by (simp add: code_points_def)
qed

lemma utf8_inj: "utf8 s = Inr b \<Longrightarrow> utf8 t = Inr b \<Longrightarrow> code_points s \<Longrightarrow> code_points t \<Longrightarrow> s = t"
  using utf8_chars_inj by (auto simp: utf8_def split: if_splits)

section \<open>Framing\<close>

lemma big_endian_length [simp]: "length (big_endian_8 n) = 8"
  by (simp add: big_endian_8_def)

fun digits_256 :: "nat \<Rightarrow> nat list \<Rightarrow> nat" where
  "digits_256 acc [] = acc"
| "digits_256 acc (d # ds) = digits_256 (acc * 256 + d) ds"

lemma shift_256: "(n::nat) div 256 ^ Suc k * 256 + n div 256 ^ k mod 256 = n div 256 ^ k"
  by (metis div_mult2_eq div_mult_mod_eq power_Suc2)

lemma digits_value: "digits_256 (n div 256 ^ k) (map (\<lambda>i. n div 256 ^ (k - 1 - i) mod 256) [0..<k]) = n"
proof (induction k)
  case (Suc k)
  have "[0..<Suc k] = 0 # map Suc [0..<k]" by (simp add: map_Suc_upt upt_conv_Cons)
  then show ?case using Suc shift_256 [of n k] by (simp add: o_def)
qed simp

lemma big_endian_value: "n < 256 ^ 8 \<Longrightarrow> digits_256 0 (big_endian_8 n) = n"
  using digits_value [of n 8] by (simp add: big_endian_8_def)

lemma framed_cancel:
  assumes "framed v @ x = framed w @ y" "length v < 256 ^ 8" "length w < 256 ^ 8"
  shows "v = w \<and> x = y"
proof -
  have "big_endian_8 (length v) = big_endian_8 (length w)" and rest: "v @ x = w @ y"
    using assms(1) by (simp_all add: framed_def)
  then have "length v = length w" using big_endian_value assms(2,3) by metis
  with rest show ?thesis by simp
qed

lemma payload_inj:
  assumes "request_payload c v p = request_payload c' v' p'"
    "\<forall>s \<in> {c, v, p, c', v', p'}. length s < 256 ^ 8"
  shows "c = c' \<and> v = v' \<and> p = p'"
proof -
  have eq: "framed c @ framed v @ framed p = framed c' @ framed v' @ framed p'"
    using assms(1) by (simp add: request_payload_def)
  from framed_cancel [OF eq] assms(2) have "c = c'" and eq2: "framed v @ framed p = framed v' @ framed p'" by simp_all
  moreover from framed_cancel [OF eq2] assms(2) have "v = v'" and eq3: "framed p @ [] = framed p' @ []" by simp_all
  moreover from framed_cancel [OF eq3] assms(2) have "p = p'" by simp
  ultimately show ?thesis by simp
qed
section \<open>Identity and idempotency\<close>

definition request_digest :: "(nat list \<Rightarrow> pystr) \<Rightarrow> pystr \<Rightarrow> pystr \<Rightarrow> pystr \<Rightarrow> pystr result" where
  "request_digest sha challenge version prompt = rbind (utf8 prompt) (request_sha256 sha challenge version)"

definition short_text :: "pystr \<Rightarrow> bool" where
  "short_text s \<longleftrightarrow> code_points s \<and> 4 * length s < 256 ^ 8"

lemma utf8_char_length: "length (utf8_char c) \<le> 4"
  by (simp add: utf8_char_def)

lemma utf8_length: "utf8 s = Inr b \<Longrightarrow> length b \<le> 4 * length s"
proof -
  have "length (concat (map utf8_char s)) \<le> 4 * length s"
  proof (induction s)
    case (Cons c s)
    then show ?case using utf8_char_length [of c] by simp
  qed simp
  then show "utf8 s = Inr b \<Longrightarrow> ?thesis" by (auto simp: utf8_def split: if_splits)
qed

text \<open>Two requests have the same digest only if they are the same request (challenge, contract
  version and prompt all equal) or the hash function has two inputs with one digest: no other pair
  of requests can be confused, however their texts are split, because each part is length-framed.\<close>
theorem request_digest_identifies:
  assumes "request_digest sha c v p = Inr h" "request_digest sha c' v' p' = Inr h"
    "\<forall>s \<in> {c, v, p, c', v', p'}. short_text s"
  shows "(c, v, p) = (c', v', p') \<or> (\<exists>x y. x \<noteq> y \<and> sha x = sha y)"
proof -
  obtain bc bv bp bc' bv' bp' where b: "utf8 c = Inr bc" "utf8 v = Inr bv" "utf8 p = Inr bp"
    "utf8 c' = Inr bc'" "utf8 v' = Inr bv'" "utf8 p' = Inr bp'"
    and h: "sha (request_payload bc bv bp) = sha (request_payload bc' bv' bp')"
    using assms(1,2) by (auto simp: request_digest_def request_sha256_def rbind_Inr_iff)
  have len: "length y < 256 ^ 8" if "utf8 x = Inr y" "short_text x" for x y
    using utf8_length [OF that(1)] that(2) by (simp add: short_text_def)
  have lens: "\<forall>s \<in> {bc, bv, bp, bc', bv', bp'}. length s < 256 ^ 8"
    using len [OF b(1)] len [OF b(2)] len [OF b(3)] len [OF b(4)] len [OF b(5)] len [OF b(6)] assms(3) by simp
  show ?thesis
  proof (cases "request_payload bc bv bp = request_payload bc' bv' bp'")
    case True
    then have "bc = bc' \<and> bv = bv' \<and> bp = bp'" using lens by (rule payload_inj)
    then show ?thesis using b utf8_inj assms(3) by (simp add: short_text_def)
  next
    case False
    with h show ?thesis by blast
  qed
qed

lemma request_digest_identifies_witness:
  "(u ''a'', u ''b'', u ''p'') = (u ''a'', u ''b'', u ''p'') \<or> (\<exists>x y. x \<noteq> y \<and> (\<lambda>b :: nat list. b) x = (\<lambda>b. b) y)"
  by (rule request_digest_identifies [where sha = "\<lambda>b. b" and h = "request_payload (u ''a'') (u ''b'') (u ''p'')"])
    (simp_all add: request_digest_def request_sha256_def utf8_def utf8_char_def is_surrogate_def u_def
      short_text_def code_points_def)

lemma find_key:
  assumes "keys_ok db" "r \<in> set (db_submissions db)"
  shows "find (\<lambda>x. sr_user x = sr_user r \<and> sr_key x = sr_key r) (db_submissions db) = Some r"
proof (cases "find (\<lambda>x. sr_user x = sr_user r \<and> sr_key x = sr_key r) (db_submissions db)")
  case None
  then show ?thesis using assms(2) by (auto simp: find_None_iff)
next
  case (Some y)
  from find_held [OF Some] have "y = r"
    using assms unfolding keys_ok_def distinct_map inj_on_def by blast
  with Some show ?thesis by simp
qed

lemma created_row:
  assumes "create_submission sha db now fresh user key prompt c fp = Inr ((row, replayed), db')" "same_limits K c"
  shows "row \<in> set (db_submissions db')" "sr_user row = us_id user" "sr_key row = key"
    "request_digest sha (ec_challenge_id c) (ec_contract_version c) prompt = Inr (sr_request_sha256 row)"
proof -
  show "row \<in> set (db_submissions db')" "sr_user row = us_id user" "sr_key row = key"
    using create_shape [OF assms] by (auto simp: create_step_def)
  show "request_digest sha (ec_challenge_id c) (ec_contract_version c) prompt = Inr (sr_request_sha256 row)"
    using assms(1)
    by (auto simp: create_submission_def request_digest_def rbind_Inr_iff Let_def new_row_def
        split: option.splits if_splits)
qed

text \<open>C9. Creation is idempotent for ever: once a user's key has been accepted, any later call with the
  same key answers from the stored row.  A request with the same digest gets that submission back,
  marked as replayed, and a request with another digest is a conflict; in both cases nothing in the
  database changes, and quotas and the admission gate are not consulted.\<close>
theorem create_is_idempotent:
  assumes "reachable K db" "same_limits K c"
    "create_submission sha db now fresh user key prompt c fp = Inr ((row, replayed), db1)" "later K db1 db2"
    "request_digest sha (ec_challenge_id c') (ec_contract_version c') prompt' = Inr h"
  shows "request_digest sha (ec_challenge_id c) (ec_contract_version c) prompt = Inr (sr_request_sha256 row) \<and>
    (\<exists>row' \<in> set (db_submissions db2). request_of row' = request_of row \<and>
      create_submission sha db2 now' fresh' user key prompt' c' fp' =
        (if sr_request_sha256 row = h then Inr ((row', True), db2)
         else raise IdempotencyConflictError ''idempotency key was already used for different content''))"
proof
  note row = created_row [OF assms(3,2)]
  show "request_digest sha (ec_challenge_id c) (ec_contract_version c) prompt = Inr (sr_request_sha256 row)" by (rule row)
  have reach1: "reachable K db1" by (rule reachable.step [OF assms(1) store_step.create [OF assms(3,2)]])
  obtain row' where row': "row' \<in> set (db_submissions db2)" "request_of row' = request_of row"
    using later_row [OF assms(4) reach1 row(1), of "\<lambda>_. True"] by blast
  have "keys_ok db2" using reachable_ok [OF later_reachable [OF assms(4) reach1]] by (simp add: store_ok_def)
  from find_key [OF this row'(1)] have "find (\<lambda>x. sr_user x = us_id user \<and> sr_key x = key) (db_submissions db2) = Some row'"
    using request_of_fields [OF row'(2)] row(2,3) by simp
  then have "create_submission sha db2 now' fresh' user key prompt' c' fp' =
        (if sr_request_sha256 row = h then Inr ((row', True), db2)
         else raise IdempotencyConflictError ''idempotency key was already used for different content'')"
    using assms(5) row'(2) by (auto simp: create_submission_def request_digest_def rbind_Inr_iff request_of_def)
  with row' show "\<exists>row' \<in> set (db_submissions db2). request_of row' = request_of row \<and>
      create_submission sha db2 now' fresh' user key prompt' c' fp' =
        (if sr_request_sha256 row = h then Inr ((row', True), db2)
         else raise IdempotencyConflictError ''idempotency key was already used for different content'')" by blast
qed

lemma demo_user_reachable: "reachable demo_contract (empty_db\<lparr>db_users := [demo_user]\<rparr>)"
  by (rule reachable.step [OF reachable.start store_step.register [OF demo_register]])

lemma demo_later: "later demo_contract demo_queued demo_running"
  using later_step [OF later_refl store_step.claim [of demo_queued 1 2 "u ''t''" "u ''a''" "u ''id''" "u ''snap''" 60]]
    demo_claimed by (simp add: demo_contract_def)

lemma demo_digest:
  "request_digest (\<lambda>b. b) (ec_challenge_id demo_contract) (ec_contract_version demo_contract) (u ''q'') =
     Inr (request_payload (u ''upos'') (u ''v1'') (u ''q''))"
  by (simp add: request_digest_def request_sha256_def utf8_def utf8_char_def is_surrogate_def demo_contract_def u_def)

lemma demo_other_digest: "sr_request_sha256 demo_row \<noteq> request_payload (u ''upos'') (u ''v1'') (u ''q'')"
  by (simp add: demo_row_def new_row_def request_payload_def framed_def u_def)

lemma create_is_idempotent_witness:
  "create_submission (\<lambda>b. b) demo_running 9 (u ''b'') demo_user (u ''k'') (u ''q'') demo_contract None =
     raise IdempotencyConflictError ''idempotency key was already used for different content''"
  using create_is_idempotent [OF demo_user_reachable _ demo_create demo_later demo_digest] demo_other_digest
  by (simp add: same_limits_def)

end
