(* ===== verification/Job_Queue.thy ===== *)
theory Job_Queue
  imports Store_Properties "HOL-Library.Multiset"
begin

text \<open>
  Job queues of \<open>src/linguistic_oj/submission_jobs.py\<close>.  \<open>job_queue\<close> is what the worker relies on,
  the \<open>JobQueue\<close> protocol with the laws of an at-least-once queue; the in-memory queue is the model
  of \<open>InMemoryJobQueue\<close> and provides them.
\<close>

section \<open>Messages\<close>

record job_message =
  jm_submission :: pystr
  jm_identity :: pystr
  jm_snapshot :: pystr

record job_delivery =
  jd_id :: pystr
  jd_message :: job_message
  jd_receipt :: pystr

section \<open>The interface\<close>

text \<open>
  \<open>held q\<close> are the messages the queue is responsible for: those waiting and those delivered and
  not yet acknowledged.  \<open>inflight q\<close> are the deliveries it would still accept.
\<close>

datatype queue_event = Publish job_message | Receive rat | Ack job_delivery | Nack job_delivery

record 'q queue_log =
  ql_queue :: 'q
  ql_published :: "job_message multiset"
  ql_acked :: "job_message multiset"

locale job_queue =
  fixes routing :: "'q \<Rightarrow> pystr"
    and publish :: "'q \<Rightarrow> job_message \<Rightarrow> 'q result"
    and receive :: "'q \<Rightarrow> rat \<Rightarrow> job_delivery option \<times> 'q"
    and ack :: "'q \<Rightarrow> job_delivery \<Rightarrow> bool \<times> 'q"
    and nack :: "'q \<Rightarrow> job_delivery \<Rightarrow> bool \<times> 'q"
    and invar :: "'q \<Rightarrow> bool"
    and inflight :: "'q \<Rightarrow> job_delivery set"
    and held :: "'q \<Rightarrow> job_message multiset"
  assumes publish_accepts: "invar q \<Longrightarrow> (\<exists>q'. publish q m = Inr q') \<longleftrightarrow> jm_snapshot m = routing q"
    and publish_law: "invar q \<Longrightarrow> publish q m = Inr q' \<Longrightarrow>
      invar q' \<and> routing q' = routing q \<and> held q' = add_mset m (held q) \<and> inflight q' = inflight q"
    and receive_law: "invar q \<Longrightarrow> receive q t = (r, q') \<Longrightarrow>
      invar q' \<and> routing q' = routing q \<and> held q' = held q \<and>
      (case r of None \<Rightarrow> True | Some x \<Rightarrow> x \<in> inflight q' \<and> x \<notin> inflight q)"
    and ack_law: "invar q \<Longrightarrow> ack q d = (b, q') \<Longrightarrow>
      invar q' \<and> routing q' = routing q \<and>
      (if d \<in> inflight q then b \<and> held q = add_mset (jd_message d) (held q') \<and> inflight q' = inflight q - {d}
       else \<not> b \<and> q' = q)"
    and nack_law: "invar q \<Longrightarrow> nack q d = (b, q') \<Longrightarrow>
      invar q' \<and> routing q' = routing q \<and> held q' = held q \<and>
      (if d \<in> inflight q then b \<and> inflight q' = inflight q - {d} else \<not> b \<and> q' = q)"
    and inflight_held: "invar q \<Longrightarrow> d \<in> inflight q \<Longrightarrow> jd_message d \<in># held q"

definition queue_step :: "('q \<Rightarrow> job_message \<Rightarrow> 'q result) \<Rightarrow> ('q \<Rightarrow> rat \<Rightarrow> job_delivery option \<times> 'q)
    \<Rightarrow> ('q \<Rightarrow> job_delivery \<Rightarrow> bool \<times> 'q) \<Rightarrow> ('q \<Rightarrow> job_delivery \<Rightarrow> bool \<times> 'q)
    \<Rightarrow> queue_event \<Rightarrow> 'q queue_log \<Rightarrow> 'q queue_log" where
  "queue_step publish receive ack nack e l =
     (case e of
        Publish m \<Rightarrow>
          (case publish (ql_queue l) m of
             Inl _ \<Rightarrow> l
           | Inr q \<Rightarrow> l\<lparr>ql_queue := q, ql_published := add_mset m (ql_published l)\<rparr>)
      | Receive t \<Rightarrow> l\<lparr>ql_queue := snd (receive (ql_queue l) t)\<rparr>
      | Ack d \<Rightarrow>
          (case ack (ql_queue l) d of (b, q) \<Rightarrow>
             l\<lparr>ql_queue := q, ql_acked := (if b then add_mset (jd_message d) (ql_acked l) else ql_acked l)\<rparr>)
      | Nack d \<Rightarrow> l\<lparr>ql_queue := snd (nack (ql_queue l) d)\<rparr>)"

context job_queue
begin

abbreviation logged_run :: "queue_event list \<Rightarrow> 'q queue_log \<Rightarrow> 'q queue_log" where
  "logged_run \<equiv> fold (queue_step publish receive ack nack)"

definition balanced :: "'q queue_log \<Rightarrow> bool" where
  "balanced l \<longleftrightarrow> invar (ql_queue l) \<and> ql_published l = held (ql_queue l) + ql_acked l"

lemma step_balanced: "balanced l \<Longrightarrow> balanced (queue_step publish receive ack nack e l)"
proof (cases e)
  case (Publish m)
  assume "balanced l"
  with Publish show ?thesis
    by (cases "publish (ql_queue l) m") (auto simp: balanced_def queue_step_def dest: publish_law)
next
  case (Receive t)
  assume "balanced l"
  with Receive show ?thesis
    by (cases "receive (ql_queue l) t") (auto simp: balanced_def queue_step_def dest: receive_law)
next
  case (Ack d)
  assume l: "balanced l"
  obtain b q where a: "ack (ql_queue l) d = (b, q)" by fastforce
  with l ack_law [OF _ a] Ack show ?thesis
    by (auto simp: balanced_def queue_step_def split: if_splits)
next
  case (Nack d)
  assume "balanced l"
  with Nack show ?thesis
    by (cases "nack (ql_queue l) d") (auto simp: balanced_def queue_step_def dest: nack_law)
qed

text \<open>No message is lost or invented: what was published is held or was acknowledged.\<close>

lemma conservation: "balanced l \<Longrightarrow> balanced (logged_run es l)"
  by (induction es arbitrary: l) (auto intro: step_balanced)

lemma ack_at_most_once:
  assumes "invar q" "ack q d = (True, q')"
  shows "ack q' d = (False, q')"
proof -
  obtain b q'' where b: "ack q' d = (b, q'')" by fastforce
  have q': "invar q'" "d \<notin> inflight q'" using ack_law [OF assms] by (auto split: if_splits)
  from ack_law [OF q'(1) b] q'(2) b show ?thesis by simp
qed

text \<open>An unacknowledged delivery can be answered either way, and only the acknowledgement removes it.\<close>

lemma delivered_is_held:
  assumes "invar q" "receive q t = (Some d, q')"
  shows "fst (ack q' d) \<and> fst (nack q' d) \<and> jd_message d \<in># held (snd (nack q' d))"
proof -
  have q': "invar q'" "d \<in> inflight q'" using receive_law [OF assms] by auto
  obtain a qa n qn where "ack q' d = (a, qa)" "nack q' d = (n, qn)" by fastforce
  with ack_law [OF q'(1), of d a qa] nack_law [OF q'(1), of d n qn] q'(2) inflight_held [OF q'] show ?thesis by simp
qed

end

section \<open>The in-memory queue\<close>

record memory_queue =
  mq_routing :: pystr
  mq_visibility :: rat
  mq_messages :: "job_message list"
  mq_inflight :: "(pystr \<times> job_message \<times> rat) list"
  mq_next :: nat

definition InMemoryJobQueue :: "pystr \<Rightarrow> rat \<Rightarrow> memory_queue result" where
  "InMemoryJobQueue routing_key visibility =
     rbind (ensure (routing_key \<noteq> []) (Exc ValueError ''routing_key must not be empty'')) (\<lambda>_.
     rbind (ensure (0 < visibility) (Exc ValueError ''visibility_timeout_seconds must be positive'')) (\<lambda>_.
       Inr \<lparr>mq_routing = routing_key, mq_visibility = visibility, mq_messages = [], mq_inflight = [], mq_next = 1\<rparr>))"

definition mq_publish :: "memory_queue \<Rightarrow> job_message \<Rightarrow> memory_queue result" where
  "mq_publish q m =
     (if jm_snapshot m \<noteq> mq_routing q then raise ValueError ''message does not match the queue routing key''
      else Inr (q\<lparr>mq_messages := mq_messages q @ [m]\<rparr>))"

text \<open>Clock readings are finite floats; their difference is rounded, as the code computes it.\<close>

definition elapsed :: "rat \<Rightarrow> rat \<Rightarrow> rat" where
  "elapsed now since = (if since \<le> now then fl (now - since) else - fl (since - now))"

definition mq_receive :: "memory_queue \<Rightarrow> rat \<Rightarrow> job_delivery option \<times> memory_queue" where
  "mq_receive q now =
     (let expired = (\<lambda>(_, _, received_at). mq_visibility q \<le> elapsed now received_at);
          messages = mq_messages q @ map (fst \<circ> snd) (filter expired (mq_inflight q));
          waiting = filter (\<lambda>e. \<not> expired e) (mq_inflight q)
      in (case messages of
            [] \<Rightarrow> (None, q\<lparr>mq_inflight := waiting\<rparr>)
          | m # rest \<Rightarrow>
              (let i = nat_text (mq_next q)
               in (Some \<lparr>jd_id = i, jd_message = m, jd_receipt = i\<rparr>,
                   q\<lparr>mq_messages := rest, mq_inflight := waiting @ [(i, m, now)], mq_next := mq_next q + 1\<rparr>))))"

definition mq_accepts :: "memory_queue \<Rightarrow> job_delivery \<Rightarrow> bool" where
  "mq_accepts q d \<longleftrightarrow>
     (case map_of (mq_inflight q) (jd_id d) of
        None \<Rightarrow> False
      | Some (m, _) \<Rightarrow> m = jd_message d \<and> jd_receipt d = jd_id d)"

definition without :: "pystr \<Rightarrow> (pystr \<times> 'a) list \<Rightarrow> (pystr \<times> 'a) list" where
  "without i = filter (\<lambda>(k, _). k \<noteq> i)"

definition mq_ack :: "memory_queue \<Rightarrow> job_delivery \<Rightarrow> bool \<times> memory_queue" where
  "mq_ack q d =
     (if mq_accepts q d then (True, q\<lparr>mq_inflight := without (jd_id d) (mq_inflight q)\<rparr>) else (False, q))"

definition mq_nack :: "memory_queue \<Rightarrow> job_delivery \<Rightarrow> bool \<times> memory_queue" where
  "mq_nack q d =
     (if mq_accepts q d
      then (True, q\<lparr>mq_inflight := without (jd_id d) (mq_inflight q),
                    mq_messages := mq_messages q @ [jd_message d]\<rparr>)
      else (False, q))"

definition mq_length :: "memory_queue \<Rightarrow> nat" where
  "mq_length q = length (mq_messages q)"

section \<open>The in-memory queue provides the interface\<close>

lemma nat_text_value: "fold (\<lambda>d acc. acc * 10 + (d - 48)) (nat_text n) 0 = n"
proof (induction n rule: less_induct)
  case (less n)
  then show ?case
    by (subst nat_text.simps) (cases "n < 10", simp_all)
qed

lemma nat_text_inj: "nat_text m = nat_text n \<Longrightarrow> m = n"
  using nat_text_value by metis

definition mq_invar :: "memory_queue \<Rightarrow> bool" where
  "mq_invar q \<longleftrightarrow> distinct (map fst (mq_inflight q)) \<and>
     (\<forall>i \<in> fst ` set (mq_inflight q). \<exists>k < mq_next q. i = nat_text k) \<and>
     (\<forall>m \<in> set (mq_messages q) \<union> (fst \<circ> snd) ` set (mq_inflight q). jm_snapshot m = mq_routing q)"

definition mq_inflights :: "memory_queue \<Rightarrow> job_delivery set" where
  "mq_inflights q = {d. mq_accepts q d}"

definition mq_held :: "memory_queue \<Rightarrow> job_message multiset" where
  "mq_held q = mset (mq_messages q) + mset (map (fst \<circ> snd) (mq_inflight q))"

lemma map_of_filter_some:
  "distinct (map fst xs) \<Longrightarrow> map_of (filter P xs) i = Some v \<longleftrightarrow> map_of xs i = Some v \<and> P (i, v)"
  by (simp add: distinct_map_filter map_of_eq_Some_iff)

lemma without_absent: "i \<notin> fst ` set xs \<Longrightarrow> without i xs = xs"
  unfolding without_def by (rule filter_True) (auto simp: image_iff)

lemma without_held:
  assumes "distinct (map fst xs)" "map_of xs i = Some (m, t)"
  shows "mset (map (fst \<circ> snd) xs) = add_mset m (mset (map (fst \<circ> snd) (without i xs)))"
  using assms
proof (induction xs)
  case (Cons x xs)
  show ?case
  proof (cases "fst x = i")
    case True
    with Cons.prems have "without i xs = xs" by (intro without_absent) simp
    then show ?thesis using True Cons.prems by (cases x) (auto simp: without_def)
  next
    case False
    then show ?thesis using Cons by (cases x) (auto simp: without_def)
  qed
qed simp

lemma mq_filter_inflights:
  assumes "distinct (map fst (mq_inflight q))"
  shows "mq_accepts (q\<lparr>mq_inflight := filter P (mq_inflight q)\<rparr>) d \<longleftrightarrow>
    mq_accepts q d \<and> (\<exists>t. map_of (mq_inflight q) (jd_id d) = Some (jd_message d, t) \<and> P (jd_id d, jd_message d, t))"
  using map_of_filter_some [OF assms]
  by (fastforce simp: mq_accepts_def split: option.splits)
lemma mset_map_partition:
  "mset (map f xs) = mset (map f (filter P xs)) + mset (map f (filter (\<lambda>x. \<not> P x) xs))"
  by (induction xs) auto

lemma fresh_id:
  assumes "mq_invar q"
  shows "nat_text (mq_next q) \<notin> fst ` set (mq_inflight q)"
  using assms nat_text_inj by (fastforce simp: mq_invar_def)

lemma mq_receive_law:
  assumes "mq_invar q" "mq_receive q t = (r, q')"
  shows "mq_invar q' \<and> mq_routing q' = mq_routing q \<and> mq_held q' = mq_held q \<and>
    (case r of None \<Rightarrow> True | Some x \<Rightarrow> x \<in> mq_inflights q' \<and> x \<notin> mq_inflights q)"
proof -
  let ?e = "\<lambda>(_ :: pystr, _ :: job_message, received_at). mq_visibility q \<le> elapsed t received_at"
  let ?ms = "mq_messages q @ map (fst \<circ> snd) (filter ?e (mq_inflight q))"
  let ?w = "filter (\<lambda>x. \<not> ?e x) (mq_inflight q)"
  have total: "mset ?ms + mset (map (fst \<circ> snd) ?w) = mq_held q"
    using mset_map_partition [of "fst \<circ> snd" "mq_inflight q" ?e] by (simp add: mq_held_def)
  have w: "distinct (map fst ?w)" "\<forall>i \<in> fst ` set ?w. \<exists>k < mq_next q. i = nat_text k"
    "\<forall>m \<in> set ?ms \<union> (fst \<circ> snd) ` set ?w. jm_snapshot m = mq_routing q"
    using assms(1) by (auto simp: mq_invar_def distinct_map_filter)
  show ?thesis
  proof (cases ?ms)
    case Nil
    then have r: "r = None" "q' = q\<lparr>mq_inflight := ?w\<rparr>"
      using assms(2) by (simp_all add: mq_receive_def Let_def case_prod_unfold)
    then have "mq_held q' = mq_held q" using total Nil by (simp add: mq_held_def)
    then show ?thesis using r w Nil by (simp add: mq_invar_def)
  next
    case (Cons m rest)
    let ?i = "nat_text (mq_next q)"
    have r: "r = Some \<lparr>jd_id = ?i, jd_message = m, jd_receipt = ?i\<rparr>"
      "q' = q\<lparr>mq_messages := rest, mq_inflight := ?w @ [(?i, m, t)], mq_next := mq_next q + 1\<rparr>"
      using assms(2) Cons by (simp_all add: mq_receive_def Let_def case_prod_unfold)
    have fresh: "?i \<notin> fst ` set (mq_inflight q)" by (rule fresh_id [OF assms(1)])
    then have fresh_w: "?i \<notin> fst ` set ?w" by auto
    have "\<forall>x \<in> set (m # rest) \<union> (fst \<circ> snd) ` set ?w. jm_snapshot x = mq_routing q" using w(3) unfolding Cons by simp
    moreover have "\<exists>k < mq_next q + 1. i = nat_text k" if "i \<in> fst ` set ?w" for i
    proof -
      from w(2) that obtain k where "k < mq_next q" "i = nat_text k" by blast
      then show ?thesis by (intro exI [of _ k]) simp
    qed
    ultimately have "mq_invar q'"
      unfolding mq_invar_def r(2) using w(1) fresh_w by (auto intro: exI [of _ "mq_next q"])
    moreover have "mq_held q' = mq_held q"
      unfolding total [symmetric] Cons r(2) by (simp add: mq_held_def)
    moreover have "map_of ?w ?i = None" "map_of (mq_inflight q) ?i = None"
      using fresh fresh_w by (simp_all add: map_of_eq_None_iff)
    then have "the r \<in> mq_inflights q'" "the r \<notin> mq_inflights q"
      unfolding mq_inflights_def mq_accepts_def r by (simp_all add: map_add_def)
    ultimately show ?thesis using r by simp
  qed
qed

lemma mq_without_invar: "mq_invar q \<Longrightarrow> mq_invar (q\<lparr>mq_inflight := without i (mq_inflight q)\<rparr>)"
  by (auto simp: mq_invar_def without_def distinct_map_filter)

lemma mq_without_inflights:
  assumes "mq_invar q" "d \<in> mq_inflights q"
  shows "mq_inflights (q\<lparr>mq_inflight := without (jd_id d) (mq_inflight q)\<rparr>) = mq_inflights q - {d}"
proof -
  have dist: "distinct (map fst (mq_inflight q))" using assms(1) by (simp add: mq_invar_def)
  have "x = d" if "x \<in> mq_inflights q" "jd_id x = jd_id d" for x
    using that assms(2) by (cases x, cases d) (auto simp: mq_inflights_def mq_accepts_def split: option.splits prod.splits)
  then show ?thesis
    using mq_filter_inflights [OF dist, of "\<lambda>(k, _). k \<noteq> jd_id d"]
    by (auto simp: mq_inflights_def without_def mq_accepts_def split: option.splits)
qed

lemma mq_accepts_held:
  assumes "mq_invar q" "mq_accepts q d"
  shows "mq_held q = add_mset (jd_message d) (mq_held (q\<lparr>mq_inflight := without (jd_id d) (mq_inflight q)\<rparr>))"
proof -
  obtain t where "map_of (mq_inflight q) (jd_id d) = Some (jd_message d, t)"
    using assms(2) by (auto simp: mq_accepts_def split: option.splits)
  from without_held [OF _ this] show ?thesis using assms(1) by (simp add: mq_invar_def mq_held_def)
qed

lemma mq_ack_law:
  assumes inv: "mq_invar q" and ack: "mq_ack q d = (b, q')"
  shows "mq_invar q' \<and> mq_routing q' = mq_routing q \<and>
    (if d \<in> mq_inflights q then b \<and> mq_held q = add_mset (jd_message d) (mq_held q') \<and> mq_inflights q' = mq_inflights q - {d}
     else \<not> b \<and> q' = q)"
proof (cases "mq_accepts q d")
  case True
  then have "b" and q': "q' = q\<lparr>mq_inflight := without (jd_id d) (mq_inflight q)\<rparr>" using ack by (auto simp: mq_ack_def)
  moreover have "d \<in> mq_inflights q" using True by (simp add: mq_inflights_def)
  ultimately show ?thesis
    using mq_without_invar [OF inv] mq_accepts_held [OF inv True] mq_without_inflights [OF inv] by simp
next
  case False
  then show ?thesis using ack inv by (simp add: mq_ack_def mq_inflights_def)
qed

lemma mq_inflights_messages [simp]: "mq_inflights (q\<lparr>mq_messages := ms\<rparr>) = mq_inflights q"
  by (simp add: mq_inflights_def mq_accepts_def)

lemma mq_held_routed: "mq_invar q \<Longrightarrow> m \<in># mq_held q \<Longrightarrow> jm_snapshot m = mq_routing q"
  by (auto simp: mq_invar_def mq_held_def)

lemma mq_nack_law:
  assumes inv: "mq_invar q" and nack: "mq_nack q d = (b, q')"
  shows "mq_invar q' \<and> mq_routing q' = mq_routing q \<and> mq_held q' = mq_held q \<and>
    (if d \<in> mq_inflights q then b \<and> mq_inflights q' = mq_inflights q - {d} else \<not> b \<and> q' = q)"
proof (cases "mq_accepts q d")
  case True
  let ?q = "q\<lparr>mq_inflight := without (jd_id d) (mq_inflight q)\<rparr>"
  have q': "b" "q' = ?q\<lparr>mq_messages := mq_messages ?q @ [jd_message d]\<rparr>"
    using nack True by (auto simp: mq_nack_def)
  have held: "mq_held q = add_mset (jd_message d) (mq_held ?q)" by (rule mq_accepts_held [OF inv True])
  then have "jm_snapshot (jd_message d) = mq_routing q" using mq_held_routed [OF inv] by simp
  then have "mq_invar q'" using mq_without_invar [OF inv, of "jd_id d"] by (auto simp: q' mq_invar_def)
  moreover have "mq_held q' = mq_held q" unfolding held by (simp add: q' mq_held_def)
  moreover have "mq_inflights q' = mq_inflights q - {d}"
    unfolding q' mq_inflights_messages by (rule mq_without_inflights [OF inv]) (simp add: mq_inflights_def True)
  ultimately show ?thesis using True q' by (simp add: mq_inflights_def)
next
  case False
  then show ?thesis using nack inv by (simp add: mq_nack_def mq_inflights_def)
qed

lemma mq_publish_law:
  "mq_invar q \<Longrightarrow> mq_publish q m = Inr q' \<Longrightarrow>
    mq_invar q' \<and> mq_routing q' = mq_routing q \<and> mq_held q' = add_mset m (mq_held q) \<and> mq_inflights q' = mq_inflights q"
  by (simp add: mq_publish_def mq_invar_def mq_held_def ball_Un split: if_splits)
    (clarsimp simp: ball_Un)

lemma mq_inflight_held: "mq_invar q \<Longrightarrow> d \<in> mq_inflights q \<Longrightarrow> jd_message d \<in># mq_held q"
  using mq_accepts_held [of q d] by (simp add: mq_inflights_def)

interpretation memory: job_queue mq_routing mq_publish mq_receive mq_ack mq_nack mq_invar mq_inflights mq_held
  by unfold_locales
    (simp add: mq_publish_def, (rule mq_publish_law mq_receive_law mq_ack_law mq_nack_law mq_inflight_held; assumption)+)
section \<open>Conservation\<close>

lemma new_queue_ok: "InMemoryJobQueue key vis = Inr q \<Longrightarrow> mq_invar q \<and> mq_held q = {#}"
  by (auto simp: InMemoryJobQueue_def rbind_Inr_iff mq_invar_def mq_held_def)

definition new_log :: "memory_queue \<Rightarrow> memory_queue queue_log" where
  "new_log q = \<lparr>ql_queue = q, ql_published = {#}, ql_acked = {#}\<rparr>"

text \<open>C25. The in-memory queue is at-least-once: after any sequence of publications, deliveries,
  acknowledgements, rejections and visibility timeouts, every message that was accepted is held by
  the queue or was acknowledged, with its multiplicity, and nothing else is held.\<close>
theorem memory_queue_conserves:
  assumes "InMemoryJobQueue key vis = Inr q" "l = fold (queue_step mq_publish mq_receive mq_ack mq_nack) es (new_log q)"
  shows "ql_published l = mq_held (ql_queue l) + ql_acked l"
proof -
  have "memory.balanced (new_log q)" using new_queue_ok [OF assms(1)] by (simp add: memory.balanced_def new_log_def)
  from memory.conservation [OF this, of es] show ?thesis by (simp add: memory.balanced_def assms(2))
qed

definition demo_message :: job_message where
  "demo_message = \<lparr>jm_submission = u ''a'', jm_identity = u ''id'', jm_snapshot = u ''snap''\<rparr>"

definition demo_queue :: memory_queue where
  "demo_queue = \<lparr>mq_routing = u ''snap'', mq_visibility = 45, mq_messages = [], mq_inflight = [], mq_next = 1\<rparr>"

lemma demo_queue_new: "InMemoryJobQueue (u ''snap'') 45 = Inr demo_queue"
  by (simp add: InMemoryJobQueue_def demo_queue_def ensure_def)

lemma memory_queue_conserves_witness:
  "ql_published (fold (queue_step mq_publish mq_receive mq_ack mq_nack) [Publish demo_message, Receive 1] (new_log demo_queue)) =
     mq_held (ql_queue (fold (queue_step mq_publish mq_receive mq_ack mq_nack) [Publish demo_message, Receive 1] (new_log demo_queue))) +
     ql_acked (fold (queue_step mq_publish mq_receive mq_ack mq_nack) [Publish demo_message, Receive 1] (new_log demo_queue))"
  by (rule memory_queue_conserves [OF demo_queue_new refl])


end
