(* ===== verification/Worker.thy ===== *)
theory Worker
  imports Providers Job_Queue
begin

text \<open>
  The outbox dispatcher and the submission worker of \<open>src/linguistic_oj/submission_jobs.py\<close>.  A
  worker is a record of its collaborators; its methods are computations on the state they share:
  the database, the queue, the outside world (clocks, lease tokens, the model) and the two timers
  the worker keeps.  A store method is one transaction, executed at the clock reading it makes.
\<close>

section \<open>Dispatching the outbox\<close>

record 'q queue_ops =
  qo_routing :: "'q \<Rightarrow> pystr"
  qo_visibility :: "'q \<Rightarrow> rat"
  qo_publish :: "'q \<Rightarrow> job_message \<Rightarrow> 'q result"
  qo_receive :: "'q \<Rightarrow> rat \<Rightarrow> job_delivery option \<times> 'q"
  qo_ack :: "'q \<Rightarrow> job_delivery \<Rightarrow> bool \<times> 'q"
  qo_nack :: "'q \<Rightarrow> job_delivery \<Rightarrow> bool \<times> 'q"

definition message_for :: "evaluation_contract \<Rightarrow> pystr \<Rightarrow> job_message" where
  "message_for K i = \<lparr>jm_submission = i, jm_identity = ec_identity_sha256 K, jm_snapshot = ec_snapshot_sha256 K\<rparr>"

definition OutboxDispatcher :: "'q queue_ops \<Rightarrow> evaluation_contract \<Rightarrow> 'q \<Rightarrow> unit result" where
  "OutboxDispatcher Q K q =
     ensure (qo_routing Q q = ec_snapshot_sha256 K) (Exc ValueError ''queue does not match the evaluation contract'')"

text \<open>
  \<open>dispatch_pending\<close> publishes and then marks; a publication that raises leaves what was already
  done.  \<open>clock\<close> are the clock readings of the marks, in order.
\<close>

fun dispatch_ids :: "'q queue_ops \<Rightarrow> evaluation_contract \<Rightarrow> (nat \<Rightarrow> int) \<Rightarrow> pystr list \<Rightarrow> database \<times> 'q
    \<Rightarrow> nat result \<times> database \<times> 'q" where
  "dispatch_ids Q K clock [] (db, q) = (Inr 0, db, q)"
| "dispatch_ids Q K clock (i # ids) (db, q) =
     (case qo_publish Q q (message_for K i) of
        Inl e \<Rightarrow> (Inl e, db, q)
      | Inr q' \<Rightarrow>
          (case dispatch_ids Q K (clock \<circ> Suc) ids (mark_outbox_published db (clock 0) i, q') of
             (r, s) \<Rightarrow> (map_sum id Suc r, s)))"

definition dispatch_pending :: "'q queue_ops \<Rightarrow> evaluation_contract \<Rightarrow> (nat \<Rightarrow> int) \<Rightarrow> database \<times> 'q
    \<Rightarrow> nat result \<times> database \<times> 'q" where
  "dispatch_pending Q K clock s =
     dispatch_ids Q K clock (unpublished_submission_ids (fst s) (ec_identity_sha256 K) (ec_snapshot_sha256 K)) s"

fun republish :: "'q queue_ops \<Rightarrow> evaluation_contract \<Rightarrow> pystr list \<Rightarrow> 'q \<Rightarrow> nat result \<times> 'q" where
  "republish Q K [] q = (Inr 0, q)"
| "republish Q K (i # ids) q =
     (case qo_publish Q q (message_for K i) of
        Inl e \<Rightarrow> (Inl e, q)
      | Inr q' \<Rightarrow> (case republish Q K ids q' of (r, q'') \<Rightarrow> (map_sum id Suc r, q'')))"

definition recover_published_queued :: "'q queue_ops \<Rightarrow> evaluation_contract \<Rightarrow> database \<times> 'q
    \<Rightarrow> nat result \<times> database \<times> 'q" where
  "recover_published_queued Q K s =
     (case republish Q K (published_queued_submission_ids (fst s) (ec_identity_sha256 K) (ec_snapshot_sha256 K)) (snd s) of
        (r, q) \<Rightarrow> (r, fst s, q))"

definition recover :: "'q queue_ops \<Rightarrow> evaluation_contract \<Rightarrow> int \<Rightarrow> (nat \<Rightarrow> int) \<Rightarrow> database \<times> 'q
    \<Rightarrow> nat result \<times> database \<times> 'q" where
  "recover Q K now clock s =
     (case recover_published_queued Q K (snd (expire_queued_deadlines (fst s) now None), snd s) of
        (Inl e, s') \<Rightarrow> (Inl e, s')
      | (Inr recovered, s') \<Rightarrow>
          (case dispatch_pending Q K clock s' of (r, s'') \<Rightarrow> (map_sum id (\<lambda>n. recovered + n) r, s'')))"

section \<open>Admission checks of a worker\<close>

text \<open>The deterministic budget of the mock runtime counts code points.\<close>

fun preflight_requests :: "runtime \<Rightarrow> evaluation_contract \<Rightarrow> int \<Rightarrow> model_request list \<Rightarrow> unit result" where
  "preflight_requests R K generation [] = Inr ()"
| "preflight_requests R K generation (request # rest) =
     rbind (envelope_from_request request) (\<lambda>e.
       (let rendered = int (sum_list (map (\<lambda>(_, content). length content) (envelope_to_messages R e)))
        in if rendered > ec_max_rendered K then raise TokenLimitExceeded ''rendered Mock input exceeds the token limit''
           else if rendered + generation > ec_context_tokens K
           then raise TokenLimitExceeded ''rendered Mock input exceeds the context window''
           else preflight_requests R K generation rest))"

text \<open>\<open>int(x)\<close> of a JSON value: \<open>rt_int\<close> parses text, a float is truncated.\<close>

definition py_int :: "runtime \<Rightarrow> json \<Rightarrow> int result" where
  "py_int R j =
     (case j of
        JInt i \<Rightarrow> Inr i
      | JBool b \<Rightarrow> Inr (if b then 1 else 0)
      | JFloat (Fin q) \<Rightarrow> Inr (if 0 \<le> q then \<lfloor>q\<rfloor> else - \<lfloor>- q\<rfloor>)
      | JFloat _ \<Rightarrow> raise ValueError ''cannot convert float to integer''
      | JStr s \<Rightarrow> rt_int R s
      | _ \<Rightarrow> raise TypeError ''int() argument must be a string or a real number'')"

definition mock_preflight :: "runtime \<Rightarrow> evaluation_contract \<Rightarrow> model_request list \<Rightarrow> unit result" where
  "mock_preflight R K requests =
     (case requests of
        [] \<Rightarrow> raise ValueError ''challenge must contain at least one request''
      | r # _ \<Rightarrow>
          if int (length (mr_student_prompt r)) > ec_prompt_tokens K
          then raise TokenLimitExceeded ''student prompt exceeds the Mock token limit''
          else
            rbind (evaluation_identity R K) (\<lambda>identity.
            rbind (json_item identity ''generation_settings'') (\<lambda>settings.
            rbind (case settings of JObj ms \<Rightarrow> json_item ms ''max_tokens'' | _ \<Rightarrow> raise TypeError ''not subscriptable'') (\<lambda>n.
            rbind (py_int R n) (\<lambda>generation. preflight_requests R K generation requests)))))"

definition artifacts_match_contract :: "runtime \<Rightarrow> challenge_artifacts \<Rightarrow> evaluation_contract \<Rightarrow> bool result" where
  "artifacts_match_contract R a K =
     rbind (evaluation_identity R K) (\<lambda>identity.
       (let p = ca_public a; says = (\<lambda>k s. json_get identity k = JStr s)
        in Inr (pc_challenge_id p = ec_challenge_id K \<and> pc_status p = ec_catalog_status K \<and>
             says ''dataset_sha256'' (pc_dataset_sha256 p) \<and> says ''selection_sha256'' (pc_selection_sha256 p) \<and>
             says ''task'' (pc_task p) \<and> says ''response_schema_version'' (pc_response_schema_version p) \<and>
             says ''scorer_version'' SCORER_VERSION \<and> says ''aggregation_version'' AGGREGATION_VERSION \<and>
             says ''prompt_envelope_version'' (u ''1.0''))))"

section \<open>The worker\<close>

text \<open>
  \<open>wk_confirmed\<close> reads \<open>termination_confirmed\<close> of a provider error; \<open>wk_busy\<close> is present for a
  provider over HTTP and tells whether a request of it may still be running.
\<close>

record ('q, 'w) worker =
  wk_runtime :: runtime
  wk_platform :: platform
  wk_effects :: "'w effects"
  wk_token :: "'w \<Rightarrow> pystr \<times> 'w"
  wk_busy :: "('w \<Rightarrow> bool) option"
  wk_confirmed :: "py_exc \<Rightarrow> bool"
  wk_queue :: "'q queue_ops"
  wk_contract :: evaluation_contract
  wk_artifacts :: challenge_artifacts
  wk_cached :: "(challenge_artifacts \<Rightarrow> dataset_sample list result) option"
  wk_lease_seconds :: int
  wk_confirm :: bool

record ('q, 'w) worker_state =
  ws_db :: database
  ws_queue :: 'q
  ws_world :: 'w
  ws_next_sweep :: rat
  ws_next_receive :: rat

definition worker_core :: "('q, 'w) worker \<Rightarrow> 'q \<Rightarrow> unit result" where
  "worker_core W q =
     rbind (ensure (qo_routing (wk_queue W) q = ec_snapshot_sha256 (wk_contract W))
       (Exc ValueError ''queue does not match the evaluation contract'')) (\<lambda>_.
     rbind (ensure (of_int (wk_lease_seconds W) + 5 + 5 + 5 \<le> qo_visibility (wk_queue W) q)
       (Exc ValueError ''queue visibility must cover claim acquisition and exceed the database lease by five seconds'')) (\<lambda>_.
     rbind (artifacts_match_contract (wk_runtime W) (wk_artifacts W) (wk_contract W)) (\<lambda>matches.
       ensure matches (Exc ValueError ''challenge artifacts do not match the evaluation contract''))))"

text \<open>Python equality of a parsed value with a flat dictionary: numbers compare by value.\<close>

fun json_number :: "json \<Rightarrow> rat option" where
  "json_number (JInt i) = Some (of_int i)"
| "json_number (JBool b) = Some (if b then 1 else 0)"
| "json_number (JFloat (Fin q)) = Some q"
| "json_number _ = None"

definition scalar_equal :: "json \<Rightarrow> json \<Rightarrow> bool" where
  "scalar_equal a b \<longleftrightarrow>
     (case (json_number a, json_number b) of (Some x, Some y) \<Rightarrow> x = y | (None, None) \<Rightarrow> a = b | _ \<Rightarrow> False)"

definition equals_flat :: "json \<Rightarrow> (pystr \<times> json) list \<Rightarrow> bool" where
  "equals_flat j d \<longleftrightarrow>
     (case j of
        JObj ms \<Rightarrow> set (map fst ms) = set (map fst d) \<and>
          list_all (\<lambda>(k, v). case map_of ms k of None \<Rightarrow> False | Some x \<Rightarrow> scalar_equal x v) d
      | _ \<Rightarrow> False)"

definition deterministic_mock_model_identity :: "(pystr \<times> json) list" where
  "deterministic_mock_model_identity =
     [(u ''model'', JStr (u ''linguistic-oj-deterministic-mock'')), (u ''revision'', JStr (u ''deterministic-v1'')),
      (u ''runtime'', JStr (u ''mock'')), (u ''runtime_version'', JStr (u ''1''))]"

definition deterministic_mock_generation_settings :: "(pystr \<times> json) list" where
  "deterministic_mock_generation_settings =
     (case settings_to_dict \<lparr>gs_temperature = Fin 0, gs_top_p = Fin 1, gs_max_tokens = 256, gs_seed = 2026,
        gs_enable_thinking = False\<rparr> of JObj ms \<Rightarrow> ms | _ \<Rightarrow> [])"

definition deterministic_mock_tokenizer_identity :: "(pystr \<times> json) list" where
  "deterministic_mock_tokenizer_identity = [(u ''method'', JStr (u ''unicode-codepoint-v1''))]"

text \<open>The mock worker: its lease, its preflight and the identities it insists on.\<close>

definition SubmissionWorker :: "('q, 'w) worker \<Rightarrow> 'q \<Rightarrow> ('q, 'w) worker result" where
  "SubmissionWorker W q =
     (let R = wk_runtime W; K = wk_contract W;
          W' = W\<lparr>wk_lease_seconds := min 30 (ec_job_deadline_seconds K), wk_confirm := False,
                 wk_effects := (wk_effects W)\<lparr>ef_preflight := Some (\<lambda>requests w. (mock_preflight R K requests, w))\<rparr>\<rparr>
      in rbind (uses_mock_runtime R K) (\<lambda>mock.
         rbind (ensure mock (Exc ValueError ''the deterministic Mock provider requires a mock evaluation identity'')) (\<lambda>_.
         rbind (evaluation_identity R K) (\<lambda>identity.
         rbind (ensure (equals_flat (json_get identity ''model_identity'') deterministic_mock_model_identity \<and>
             equals_flat (json_get identity ''generation_settings'') deterministic_mock_generation_settings \<and>
             equals_flat (json_get identity ''tokenizer_identity'') deterministic_mock_tokenizer_identity)
           (Exc ValueError ''challenge artifacts do not match the evaluation contract'')) (\<lambda>_.
         rbind (worker_core W' q) (\<lambda>_. Inr W'))))))"

section \<open>Claiming work\<close>

definition monotonic :: "('q, 'w) worker \<Rightarrow> (('q, 'w) worker_state, rat) run" where
  "monotonic W s = (case ef_monotonic (wk_effects W) (ws_world s) of (t, w) \<Rightarrow> (Inr (seconds_of t), s\<lparr>ws_world := w\<rparr>))"

definition utc_now :: "('q, 'w) worker \<Rightarrow> (('q, 'w) worker_state, int) run" where
  "utc_now W s = (case ef_utc_now (wk_effects W) (ws_world s) of (t, w) \<Rightarrow> (Inr t, s\<lparr>ws_world := w\<rparr>))"

definition on_db :: "(database \<Rightarrow> 'a \<times> database) \<Rightarrow> (('q, 'w) worker_state, 'a) run" where
  "on_db f s = (case f (ws_db s) of (x, db) \<Rightarrow> (Inr x, s\<lparr>ws_db := db\<rparr>))"

definition on_queue :: "('q \<Rightarrow> 'a \<times> 'q) \<Rightarrow> (('q, 'w) worker_state, 'a) run" where
  "on_queue f s = (case f (ws_queue s) of (x, q) \<Rightarrow> (Inr x, s\<lparr>ws_queue := q\<rparr>))"

definition timed :: "('q, 'w) worker \<Rightarrow> (database \<Rightarrow> int \<Rightarrow> 'a \<times> database) \<Rightarrow> (('q, 'w) worker_state, 'a) run" where
  "timed W f = run_bind (utc_now W) (\<lambda>now. on_db (\<lambda>db. f db now))"

definition sweep_leases :: "('q, 'w) worker \<Rightarrow> (('q, 'w) worker_state, nat) run" where
  "sweep_leases W = timed W (\<lambda>db now. expire_leases db now None)"

definition sweep_if_due :: "('q, 'w) worker \<Rightarrow> rat \<Rightarrow> (('q, 'w) worker_state, unit) run" where
  "sweep_if_due W now s =
     (if ws_next_sweep s \<le> now
      then run_bind (sweep_leases W) (\<lambda>_.
           run_bind (timed W (\<lambda>db now. expire_queued_deadlines db now None)) (\<lambda>_ s.
             (Inr (), s\<lparr>ws_next_sweep := fl (now + 5)\<rparr>))) s
      else (Inr (), s))"

text \<open>\<open>claim_submission\<close> draws a token and reads the clock only for a row it may claim.\<close>

definition claimable :: "evaluation_contract \<Rightarrow> database \<Rightarrow> pystr \<Rightarrow> bool" where
  "claimable K db i \<longleftrightarrow>
     (case row_of db i of
        None \<Rightarrow> False
      | Some r \<Rightarrow> sr_identity r = ec_identity_sha256 K \<and> sr_snapshot_sha256 r = ec_snapshot_sha256 K \<and>
          sr_status r = QUEUED \<and> sr_attempt r < ec_max_attempts K)"

definition claim_message :: "('q, 'w) worker \<Rightarrow> pystr \<Rightarrow> (('q, 'w) worker_state, claim_attempt) run" where
  "claim_message W i s =
     (let K = wk_contract W;
          attempt = (\<lambda>now now' fresh. claim_submission (ws_db s) now now' fresh i (ec_identity_sha256 K)
            (ec_snapshot_sha256 K) (wk_lease_seconds W) (ec_max_attempts K) (ec_max_running K))
      in if claimable K (ws_db s) i
         then (case ef_utc_now (wk_effects W) (ws_world s) of (now, w1) \<Rightarrow>
               case wk_token W w1 of (fresh, w2) \<Rightarrow>
               case ef_utc_now (wk_effects W) w2 of (now', w3) \<Rightarrow>
               case attempt now now' fresh of (a, db) \<Rightarrow>
                 (Inr a, s\<lparr>ws_db := db, ws_world := (if ca_claim a = None then w1 else w3)\<rparr>))
         else (case attempt 0 0 [] of (a, db) \<Rightarrow> (Inr a, s\<lparr>ws_db := db\<rparr>)))"

definition claim_delivery :: "('q, 'w) worker \<Rightarrow> job_delivery
    \<Rightarrow> (('q, 'w) worker_state, pystr option \<times> (job_delivery \<times> claimed_submission) option) run" where
  "claim_delivery W d =
     (let m = jd_message d; i = jm_submission m; K = wk_contract W
      in if jm_identity m \<noteq> ec_identity_sha256 K \<or> jm_snapshot m \<noteq> ec_snapshot_sha256 K
         then run_bind (on_queue (\<lambda>q. qo_ack (wk_queue W) q d)) (\<lambda>_. run_pure (Inr (Some i, None)))
         else
           run_bind (claim_message W i) (\<lambda>a.
             (case ca_claim a of
                Some c \<Rightarrow> run_pure (Inr (Some i, Some (d, c)))
              | None \<Rightarrow>
                  if ca_retry_later a
                  then run_bind (on_queue (\<lambda>q. qo_nack (wk_queue W) q d)) (\<lambda>_.
                       run_bind (monotonic W) (\<lambda>t s.
                         (Inr (Some i, None), s\<lparr>ws_next_receive := fl (t + 1)\<rparr>)))
                  else run_bind (on_queue (\<lambda>q. qo_ack (wk_queue W) q d)) (\<lambda>_.
                       run_pure (Inr (Some i, None))))))"

definition receive_and_claim_attempt ::
  "('q, 'w) worker \<Rightarrow> (('q, 'w) worker_state, pystr option \<times> (job_delivery \<times> claimed_submission) option) run" where
  "receive_and_claim_attempt W =
     run_bind (monotonic W) (\<lambda>now.
     run_bind (sweep_if_due W now) (\<lambda>_.
     run_bind (monotonic W) (\<lambda>received_at.
     run_bind (on_queue (\<lambda>q. qo_receive (wk_queue W) q received_at)) (\<lambda>delivery.
       (case delivery of None \<Rightarrow> run_pure (Inr (None, None)) | Some d \<Rightarrow> claim_delivery W d)))))"

definition receive_and_claim ::
  "('q, 'w) worker \<Rightarrow> (('q, 'w) worker_state, (job_delivery \<times> claimed_submission) option) run" where
  "receive_and_claim W =
     run_bind (monotonic W) (\<lambda>now s.
       if now < ws_next_receive s then (Inr None, s)
       else run_bind (receive_and_claim_attempt W) (\<lambda>r. run_pure (Inr (snd r))) s)"

section \<open>Evaluating a claim\<close>

definition fail_claim :: "('q, 'w) worker \<Rightarrow> claimed_submission \<Rightarrow> string \<Rightarrow> bool \<Rightarrow> (('q, 'w) worker_state, bool) run" where
  "fail_claim W c fcode retryable =
     run_bind (timed W (\<lambda>db now. complete_failure db now c (ec_failure_version (wk_contract W)) fcode retryable)) (\<lambda>completed.
       if completed then run_pure (Inr True)
       else run_bind (sweep_leases W) (\<lambda>_. run_pure (Inr False)))"

definition ack_delivery :: "('q, 'w) worker \<Rightarrow> job_delivery \<Rightarrow> (('q, 'w) worker_state, bool) run" where
  "ack_delivery W d = on_queue (\<lambda>q. qo_ack (wk_queue W) q d)"

definition try_retry :: "('q, 'w) worker \<Rightarrow> claimed_submission \<Rightarrow> string \<Rightarrow> bool \<Rightarrow> (('q, 'w) worker_state, bool) run" where
  "try_retry W c fcode retry_allowed =
     (if retry_allowed \<and> u fcode \<in> set (ec_retryable_codes (wk_contract W))
      then timed W (\<lambda>db now. retry_submission db now c (ec_max_attempts (wk_contract W)))
      else run_pure (Inr False))"

definition handle_failure :: "('q, 'w) worker \<Rightarrow> job_delivery \<Rightarrow> claimed_submission \<Rightarrow> string \<Rightarrow> bool
    \<Rightarrow> (('q, 'w) worker_state, unit) run" where
  "handle_failure W d c fcode retry_allowed =
     run_bind (try_retry W c fcode retry_allowed) (\<lambda>retried.
       if retried then run_bind (on_queue (\<lambda>q. qo_nack (wk_queue W) q d)) (\<lambda>_. run_pure (Inr ()))
       else run_bind (fail_claim W c fcode False) (\<lambda>_.
            run_bind (ack_delivery W d) (\<lambda>_. run_pure (Inr ()))))"

definition request_retry_allowed :: "('q, 'w) worker \<Rightarrow> bool \<Rightarrow> bool" where
  "request_retry_allowed W confirmed \<longleftrightarrow> \<not> wk_confirm W \<or> confirmed"

text \<open>
  The \<open>except\<close> clauses, in order: \<open>None\<close> is an exception none of them catches.  The two token-limit
  classes of the code are one class here.
\<close>

datatype verdict = Reject | Fail string bool

definition verdict_of :: "('q, 'w) worker \<Rightarrow> py_exc \<Rightarrow> verdict option" where
  "verdict_of W e =
     (if catches TokenLimitExceeded e then Some Reject
      else if catches JobDeadlineExceeded e then Some (Fail ''JOB_DEADLINE'' True)
      else if catches ProviderTimeoutError e
        then Some (Fail ''PROVIDER_TIMEOUT'' (request_retry_allowed W (wk_confirmed W e)))
      else if catches TimeoutError e then Some (Fail ''PROVIDER_TIMEOUT'' (\<not> wk_confirm W))
      else if catches ProviderTransportError e
        then Some (Fail ''PROVIDER_TRANSPORT'' (request_retry_allowed W (wk_confirmed W e)))
      else if catches EvaluationPreflightError e then Some (Fail ''DATASET_INTEGRITY'' True)
      else if catches ProviderContractError e then Some (Fail ''RUNTIME_MISCONFIGURATION'' True)
      else if catches OSError e \<or> catches ValueError e then Some (Fail ''DATASET_INTEGRITY'' True)
      else if exc_cls e \<noteq> Base_Exception then Some (Fail ''RUNTIME_MISCONFIGURATION'' True)
      else None)"

definition run_claim :: "('q, 'w) worker \<Rightarrow> claimed_submission \<Rightarrow> (('q, 'w) worker_state, aggregate_result) run" where
  "run_claim W c s =
     (case run_challenge (wk_platform W) (wk_effects W) (wk_cached W) (wk_artifacts W) (cl_prompt c)
         (Some (cl_deadline c)) None (ws_world s) of
        (r, w) \<Rightarrow> (map_sum id fst r, s\<lparr>ws_world := w\<rparr>))"

definition finish_success :: "('q, 'w) worker \<Rightarrow> job_delivery \<Rightarrow> claimed_submission \<Rightarrow> (pystr \<times> json) list
    \<Rightarrow> (('q, 'w) worker_state, bool) run" where
  "finish_success W d c report =
     run_bind (utc_now W) (\<lambda>now.
     run_bind (\<lambda>s. case complete_success (ws_db s) now c report of
         Inl e \<Rightarrow> (Inl e, s)
       | Inr (b, db) \<Rightarrow> (Inr b, s\<lparr>ws_db := db\<rparr>)) (\<lambda>completed.
       if \<not> completed then run_bind (handle_failure W d c ''JOB_DEADLINE'' True) (\<lambda>_. run_pure (Inr False))
       else run_bind (ack_delivery W d) (\<lambda>_. run_pure (Inr True))))"

definition failed :: "('q, 'w) worker \<Rightarrow> job_delivery \<Rightarrow> claimed_submission \<Rightarrow> string \<Rightarrow> bool
    \<Rightarrow> (('q, 'w) worker_state, bool) run" where
  "failed W d c fcode retry_allowed = run_bind (handle_failure W d c fcode retry_allowed) (\<lambda>_. run_pure (Inr True))"

definition conclude :: "('q, 'w) worker \<Rightarrow> job_delivery \<Rightarrow> claimed_submission \<Rightarrow> aggregate_result result
    \<Rightarrow> (('q, 'w) worker_state, bool) run" where
  "conclude W d c outcome =
     (case outcome of
        Inl e \<Rightarrow>
          (case verdict_of W e of
             None \<Rightarrow> run_pure (Inl e)
           | Some Reject \<Rightarrow>
               run_bind (timed W (\<lambda>db now. complete_rejected db now c)) (\<lambda>completed.
               run_bind (if completed then run_pure (Inr 0) else sweep_leases W) (\<lambda>_.
               run_bind (ack_delivery W d) (\<lambda>_. run_pure (Inr True))))
           | Some (Fail fcode retry_allowed) \<Rightarrow> failed W d c fcode retry_allowed)
      | Inr aggregate \<Rightarrow>
          run_bind (utc_now W) (\<lambda>now.
            if claim_deadline_expired now c then failed W d c ''JOB_DEADLINE'' True
            else
              (case contract_owner_result (wk_runtime W) (wk_contract W) aggregate (cl_prompt_sha256 c) of
                 Inl e \<Rightarrow> if exc_cls e = Base_Exception then run_pure (Inl e)
                   else failed W d c ''RUNTIME_MISCONFIGURATION'' True
               | Inr report \<Rightarrow> finish_success W d c report)))"

definition evaluate_claim :: "('q, 'w) worker \<Rightarrow> job_delivery \<Rightarrow> claimed_submission \<Rightarrow> (('q, 'w) worker_state, bool) run" where
  "evaluate_claim W d c =
     (if cl_snapshot_json c \<noteq> ec_snapshot_json (wk_contract W) \<or> cl_identity c \<noteq> ec_identity_sha256 (wk_contract W)
      then failed W d c ''RUNTIME_MISCONFIGURATION'' True
      else
        run_bind (utc_now W) (\<lambda>now.
          if claim_deadline_expired now c then failed W d c ''JOB_DEADLINE'' True
          else (\<lambda>s. case run_claim W c s of (outcome, s') \<Rightarrow> conclude W d c outcome s')))"

text \<open>The claim is taken inside the guard of the executor, when there is one: entering it raises or admits the claim.\<close>

definition guarded :: "('w \<Rightarrow> unit result) option \<Rightarrow> (('q, 'w) worker_state, 'a) run \<Rightarrow> (('q, 'w) worker_state, 'a) run" where
  "guarded guard body s =
     (case guard of
        None \<Rightarrow> body s
      | Some enter \<Rightarrow> (case enter (ws_world s) of Inl e \<Rightarrow> (Inl e, s) | Inr _ \<Rightarrow> body s))"

definition run_once :: "('q, 'w) worker \<Rightarrow> ('w \<Rightarrow> unit result) option \<Rightarrow> (('q, 'w) worker_state, bool) run" where
  "run_once W guard s =
     (if wk_confirm W \<and> (case wk_busy W of None \<Rightarrow> False | Some busy \<Rightarrow> busy (ws_world s)) then (Inr False, s)
      else run_bind (guarded guard (receive_and_claim W)) (\<lambda>claimed.
             (case claimed of None \<Rightarrow> run_pure (Inr False) | Some (d, c) \<Rightarrow> evaluate_claim W d c)) s)"

end
