(* ===== verification/Worker_Effects.thy ===== *)
theory Worker_Effects
  imports Worker
begin

text \<open>
  What the store calls of a worker do to the rows, and which submissions are covered: a QUEUED
  submission of the contract is either unpublished in the outbox or has a message the queue holds.
\<close>

section \<open>Calls that only end submissions\<close>

text \<open>\<open>sinks\<close> relates databases whose rows are unchanged or have become terminal.\<close>

definition sunk :: "submission_row \<Rightarrow> submission_row \<Rightarrow> bool" where
  "sunk r r' \<longleftrightarrow> r' = r \<or> terminal r' \<and> request_of r' = request_of r"

definition sinks :: "evaluation_contract \<Rightarrow> database \<Rightarrow> database \<Rightarrow> bool" where
  "sinks K db db' \<longleftrightarrow> later K db db' \<and> db_outbox db' = db_outbox db \<and>
     list_all2 sunk (db_submissions db) (db_submissions db')"

lemma sinks_refl [simp, intro]: "sinks K db db"
  by (simp add: sinks_def later_refl sunk_def list_all2_same)

lemma sunk_trans: "sunk r r' \<Longrightarrow> sunk r' r'' \<Longrightarrow> sunk r r''"
  by (auto simp: sunk_def)

lemma later_trans: "later K db db' \<Longrightarrow> later K db' db'' \<Longrightarrow> later K db db''"
  by (simp add: later_def)

lemma sinks_trans: "sinks K db db' \<Longrightarrow> sinks K db' db'' \<Longrightarrow> sinks K db db''"
proof -
  assume steps: "sinks K db db'" "sinks K db' db''"
  have "list_all2 sunk (db_submissions db) (db_submissions db'')"
    using list_all2_trans [of sunk sunk sunk "db_submissions db" "db_submissions db'" "db_submissions db''"] sunk_trans steps
    unfolding sinks_def by blast
  then show ?thesis using steps later_trans [of K db db' db''] by (simp add: sinks_def)
qed

lemma sinks_update:
  assumes "store_step K db db'" "db_outbox db' = db_outbox db"
    "db_submissions db' = map (\<lambda>r. if P r then f r else r) (db_submissions db)"
    "\<And>r. P r \<Longrightarrow> terminal (f r) \<and> request_of (f r) = request_of r"
  shows "sinks K db db'"
  using assms later_step [OF later_refl assms(1)]
  by (auto simp: sinks_def sunk_def list_all2_map2 intro!: list_all2_refl)

lemmas ending_defs = terminal_def request_of_def row_defs

lemma update_sinks:
  assumes "store_step K db db'" "db' = db \<or> (\<exists>P f. db' = update_rows P f db \<and> (\<forall>r. terminal (f r) \<and> request_of (f r) = request_of r))"
  shows "sinks K db db'"
  using assms(2)
proof (elim disjE exE conjE)
  fix P f
  assume "db' = update_rows P f db" "\<forall>r. terminal (f r) \<and> request_of (f r) = request_of r"
  then show ?thesis by (intro sinks_update [OF assms(1), of P f]) (simp_all add: update_rows_def)
qed simp

lemma miss_ends: "terminal (job_deadline_failure now r) \<and> request_of (job_deadline_failure now r) = request_of r"
  by (simp add: ending_defs)

lemma leases_sink: "sinks K db (snd (expire_leases db now identity))"
proof (rule update_sinks)
  show "store_step K db (snd (expire_leases db now identity))"
    by (rule store_step.leases) (rule prod.collapse [symmetric])
  let ?f = "\<lambda>r. r\<lparr>sr_status := FAILED, sr_completed := Some now, sr_lease_token := None, sr_lease_expires := None,
    sr_failure_code := Some (if sr_deadline r \<le> now then ''JOB_DEADLINE'' else ''WORKER_CRASH''),
    sr_failure_retryable := Some False\<rparr>"
  have "\<forall>r. terminal (?f r) \<and> request_of (?f r) = request_of r" by (simp add: ending_defs)
  then show "snd (expire_leases db now identity) = db \<or>
    (\<exists>P f. snd (expire_leases db now identity) = update_rows P f db \<and> (\<forall>r. terminal (f r) \<and> request_of (f r) = request_of r))"
    unfolding expire_leases_def Let_def snd_conv by blast
qed

lemma deadlines_sink: "sinks K db (snd (expire_queued_deadlines db now identity))"
proof (rule update_sinks)
  show "store_step K db (snd (expire_queued_deadlines db now identity))"
    by (rule store_step.deadlines) (rule prod.collapse [symmetric])
  show "snd (expire_queued_deadlines db now identity) = db \<or>
    (\<exists>P f. snd (expire_queued_deadlines db now identity) = update_rows P f db \<and>
       (\<forall>r. terminal (f r) \<and> request_of (f r) = request_of r))"
    unfolding expire_queued_deadlines_def Let_def snd_conv using miss_ends [of now] by blast
qed

lemma failure_sinks: "sinks K db (snd (complete_failure db now c version fcode retryable))"
proof (rule update_sinks)
  show "store_step K db (snd (complete_failure db now c version fcode retryable))"
    by (rule store_step.failure) (rule prod.collapse [symmetric])
  have "terminal (release (r\<lparr>sr_status := FAILED, sr_completed := Some now, sr_failure_version := Some version,
      sr_failure_code := Some x, sr_failure_retryable := Some y\<rparr>)) \<and>
    request_of (release (r\<lparr>sr_status := FAILED, sr_completed := Some now, sr_failure_version := Some version,
      sr_failure_code := Some x, sr_failure_retryable := Some y\<rparr>)) = request_of r" for r x y
    by (simp add: ending_defs)
  then show "snd (complete_failure db now c version fcode retryable) = db \<or>
    (\<exists>P f. snd (complete_failure db now c version fcode retryable) = update_rows P f db \<and>
       (\<forall>r. terminal (f r) \<and> request_of (f r) = request_of r))"
    unfolding complete_failure_def Let_def by (cases "find (held_by c) (db_submissions db)") (simp, simp, blast)
qed

lemma rejected_sinks: "sinks K db (snd (complete_rejected db now c))"
proof (rule update_sinks)
  show "store_step K db (snd (complete_rejected db now c))"
    by (rule store_step.rejected) (rule prod.collapse [symmetric])
  have "terminal (release (job_deadline_failure now r)) \<and> request_of (release (job_deadline_failure now r)) = request_of r"
    "terminal (release (r\<lparr>sr_status := REJECTED, sr_completed := Some now,
      sr_failure_code := Some x, sr_failure_retryable := Some y\<rparr>)) \<and>
    request_of (release (r\<lparr>sr_status := REJECTED, sr_completed := Some now,
      sr_failure_code := Some x, sr_failure_retryable := Some y\<rparr>)) = request_of r" for r x y
    by (simp_all add: ending_defs)
  then show "snd (complete_rejected db now c) = db \<or>
    (\<exists>P f. snd (complete_rejected db now c) = update_rows P f db \<and> (\<forall>r. terminal (f r) \<and> request_of (f r) = request_of r))"
    unfolding complete_rejected_def by (cases "find (held_by c) (db_submissions db)") (simp, simp, blast)
qed

lemma success_sinks:
  assumes "complete_success db now c report = Inr (b, db')"
  shows "sinks K db db'" "\<not> b \<Longrightarrow> db' = db"
proof -
  have step: "store_step K db db'" using assms by (rule store_step.success)
  consider "db' = db" "\<not> b"
    | row where "b" "db' = update_rows (held_by c) (succeed_at now) (db\<lparr>db_results := db_results db @ [row]\<rparr>)"
    using assms by (auto simp: complete_success_def succeed_at_def [abs_def] rbind_Inr_iff Let_def split: if_splits)
  then show "sinks K db db'"
    by cases (use sinks_update [OF step, where P = "held_by c" and f = "succeed_at now"] in
      \<open>auto simp: update_rows_def succeed_at_def ending_defs\<close>)
  show "\<not> b \<Longrightarrow> db' = db" using assms by (auto simp: complete_success_def rbind_Inr_iff Let_def split: if_splits)
qed

lemma retry_fails: "retry_submission db now c m = (False, db') \<Longrightarrow> db' = db"
  by (auto simp: retry_submission_def split: option.splits if_splits)

lemma no_claim_sinks:
  assumes "claim_submission db now now' fresh i (ec_identity_sha256 K) (ec_snapshot_sha256 K) lease
    (ec_max_attempts K) (ec_max_running K) = (a, db')" "ca_claim a = None"
  shows "sinks K db db'"
proof -
  have "db' = db \<or> (\<exists>P. db' = update_rows P (job_deadline_failure now) db)"
    using assms by (auto simp: claim_submission_def no_claim_def Let_def split: option.splits if_splits)
  then show ?thesis using miss_ends [of now] by (intro update_sinks [OF store_step.claim [OF assms(1)]]) blast
qed

section \<open>Coverage\<close>

definition ours :: "evaluation_contract \<Rightarrow> submission_row \<Rightarrow> bool" where
  "ours K r \<longleftrightarrow> sr_identity r = ec_identity_sha256 K \<and> sr_snapshot_sha256 r = ec_snapshot_sha256 K"

definition unpublished :: "database \<Rightarrow> pystr \<Rightarrow> bool" where
  "unpublished db i \<longleftrightarrow> (\<exists>e \<in> set (db_outbox db). ob_submission e = i \<and> ob_published e = None)"

text \<open>
  \<open>A\<close> are the claims workers hold, with their deliveries, and \<open>H\<close> the messages the queue holds.  A
  RUNNING submission needs its message only while a worker may still hand it back.
\<close>

type_synonym claims = "(job_delivery \<times> claimed_submission) list"

definition claimed_ids :: "claims \<Rightarrow> pystr set" where
  "claimed_ids A = (cl_id \<circ> snd) ` set A"

definition row_covered :: "evaluation_contract \<Rightarrow> job_message multiset \<Rightarrow> database \<Rightarrow> claims \<Rightarrow> submission_row \<Rightarrow> bool" where
  "row_covered K H db A r \<longleftrightarrow> (ours K r \<longrightarrow>
     (sr_status r = QUEUED \<longrightarrow> sr_attempt r < ec_max_attempts K \<and>
        (message_for K (sr_id r) \<in># H \<or> unpublished db (sr_id r))) \<and>
     (sr_status r = RUNNING \<and> sr_id r \<in> claimed_ids A \<longrightarrow> message_for K (sr_id r) \<in># H))"

definition claim_tracked :: "evaluation_contract \<Rightarrow> database \<Rightarrow> job_delivery \<times> claimed_submission \<Rightarrow> bool" where
  "claim_tracked K db x \<longleftrightarrow> jd_message (fst x) = message_for K (cl_id (snd x)) \<and>
     (\<exists>r \<in> set (db_submissions db). sr_id r = cl_id (snd x) \<and> (terminal r \<or> sr_status r = RUNNING))"

definition covered :: "evaluation_contract \<Rightarrow> job_message multiset \<Rightarrow> database \<Rightarrow> claims \<Rightarrow> bool" where
  "covered K H db A \<longleftrightarrow> (\<forall>r \<in> set (db_submissions db). row_covered K H db A r) \<and>
     (\<forall>x \<in> set A. claim_tracked K db x) \<and> distinct (map (cl_id \<circ> snd) A)"

lemma message_for_inject [simp]: "message_for K i = message_for K j \<longleftrightarrow> i = j"
  by (simp add: message_for_def)

lemma covered_more: "covered K H db A \<Longrightarrow> set_mset H \<subseteq> set_mset H' \<Longrightarrow> covered K H' db A"
  unfolding covered_def row_covered_def by blast

lemma sunk_fields: "sunk r r' \<Longrightarrow> sr_id r' = sr_id r \<and> (ours K r' \<longleftrightarrow> ours K r) \<and> (r' = r \<or> terminal r')"
  by (auto simp: sunk_def request_of_def ours_def)

lemma list_all2_member1: "list_all2 R xs ys \<Longrightarrow> x \<in> set xs \<Longrightarrow> \<exists>y \<in> set ys. R x y"
  by (induction rule: list_all2_induct) auto

lemma list_all2_member2: "list_all2 R xs ys \<Longrightarrow> y \<in> set ys \<Longrightarrow> \<exists>x \<in> set xs. R x y"
  by (induction rule: list_all2_induct) auto

lemma covered_sinks:
  assumes "covered K H db A" "sinks K db db'"
  shows "covered K H db' A"
proof -
  have rows: "list_all2 sunk (db_submissions db) (db_submissions db')" and out: "db_outbox db' = db_outbox db"
    using assms(2) by (simp_all add: sinks_def)
  have "row_covered K H db' A r'" if r': "r' \<in> set (db_submissions db')" for r'
  proof -
    obtain r where r: "r \<in> set (db_submissions db)" "sunk r r'" using list_all2_member2 [OF rows r'] by blast
    then have "row_covered K H db A r" using assms(1) by (simp add: covered_def)
    then show ?thesis using sunk_fields [OF r(2), of K] out by (auto simp: row_covered_def unpublished_def terminal_def)
  qed
  moreover have "claim_tracked K db' x" if x: "x \<in> set A" for x
  proof -
    have "claim_tracked K db x" using assms(1) x by (simp add: covered_def)
    then obtain r where r: "r \<in> set (db_submissions db)" "sr_id r = cl_id (snd x)" "terminal r \<or> sr_status r = RUNNING"
      and d: "jd_message (fst x) = message_for K (cl_id (snd x))" by (auto simp: claim_tracked_def)
    obtain r' where "r' \<in> set (db_submissions db')" "sunk r r'" using list_all2_member1 [OF rows r(1)] by blast
    with sunk_fields [of r r' K] r d show ?thesis by (auto simp: claim_tracked_def)
  qed
  ultimately show ?thesis using assms(1) by (simp add: covered_def)
qed

text \<open>A message may go when no QUEUED or claimed submission of the contract depends on it.\<close>

lemma covered_drop:
  assumes "covered K H db A"
    "\<And>i r. message_for K i \<in># H \<Longrightarrow> message_for K i \<notin># H' \<Longrightarrow> r \<in> set (db_submissions db) \<Longrightarrow> sr_id r = i \<Longrightarrow>
       ours K r \<Longrightarrow> sr_status r \<noteq> QUEUED \<and> (sr_status r = RUNNING \<longrightarrow> i \<notin> claimed_ids A)"
  shows "covered K H' db A"
  using assms unfolding covered_def row_covered_def by blast

lemma covered_forget: "covered K H db A \<Longrightarrow> covered K H db (remove1 x A)"
  unfolding covered_def row_covered_def claimed_ids_def
  by (auto simp: distinct_map intro: inj_on_subset dest: notin_set_remove1)

lemma claimed_ids_simps [simp]:
  "claimed_ids [] = {}" "claimed_ids (x # A) = insert (cl_id (snd x)) (claimed_ids A)"
  "claimed_ids (A @ B) = claimed_ids A \<union> claimed_ids B"
  by (auto simp: claimed_ids_def)

lemma forgotten_id: "covered K H db A \<Longrightarrow> x \<in> set A \<Longrightarrow> cl_id (snd x) \<notin> claimed_ids (remove1 x A)"
  by (auto simp: covered_def claimed_ids_def distinct_map set_remove1_eq inj_on_def)

lemma terminal_status: "terminal r \<Longrightarrow> sr_status r \<noteq> QUEUED \<and> sr_status r \<noteq> RUNNING"
  by (auto simp: terminal_def)

lemma tracked_row:
  assumes "covered K H db A" "x \<in> set A" "distinct_ids db" "r \<in> set (db_submissions db)" "sr_id r = cl_id (snd x)"
  shows "sr_status r \<noteq> QUEUED"
proof -
  obtain r' where "r' \<in> set (db_submissions db)" "sr_id r' = cl_id (snd x)" "terminal r' \<or> sr_status r' = RUNNING"
    using assms(1,2) by (auto simp: covered_def claim_tracked_def)
  moreover from this have "r' = r" using same_id [OF assms(3)] assms(4,5) by simp
  ultimately show ?thesis using terminal_status by auto
qed

lemma unclaimed_id:
  assumes "covered K H db A" "distinct_ids db" "r \<in> set (db_submissions db)" "sr_status r = QUEUED"
  shows "sr_id r \<notin> claimed_ids A"
  using tracked_row [OF assms(1) _ assms(2,3)] assms(4) by (auto simp: claimed_ids_def)

text \<open>Handing a claim back makes its submission QUEUED again, and its message is still held.\<close>

lemma retry_effect:
  assumes "retry_submission db now c m = (True, db')"
  obtains "db' = update_rows (held_by c) (\<lambda>x. release (x\<lparr>sr_status := QUEUED, sr_started := None\<rparr>)) db"
    "\<exists>r \<in> set (db_submissions db). held_by c r \<and> sr_attempt r < m"
proof -
  from assms obtain r where r: "find (held_by c) (db_submissions db) = Some r" "sr_attempt r < m"
    "db' = update_rows (held_by c) (\<lambda>x. release (x\<lparr>sr_status := QUEUED, sr_started := None\<rparr>)) db"
    by (auto simp: retry_submission_def split: option.splits if_splits)
  then show ?thesis using find_held [OF r(1)] that by blast
qed

lemma covered_retry:
  assumes cov: "covered K H db A" and x: "(d, c) \<in> set A" and ids: "distinct_ids db"
    and retry: "retry_submission db now c (ec_max_attempts K) = (True, db')"
  shows "covered K H db' (remove1 (d, c) A)"
proof -
  let ?f = "\<lambda>x. release (x\<lparr>sr_status := QUEUED, sr_started := None\<rparr>)"
  from retry obtain r0 where db': "db' = update_rows (held_by c) ?f db"
    and r0: "r0 \<in> set (db_submissions db)" "held_by c r0" "sr_attempt r0 < ec_max_attempts K"
    by (elim retry_effect) blast
  have held: "r = r0" if "r \<in> set (db_submissions db)" "held_by c r" for r
    using same_id [OF ids that(1) r0(1)] that(2) r0(2) by (simp add: held_by_def)
  have same: "sr_id (?f r) = sr_id r" "ours K (?f r) = ours K r" "sr_attempt (?f r) = sr_attempt r" "sr_status (?f r) = QUEUED" for r
    by (simp_all add: release_def ours_def)
  have "row_covered K H db' (remove1 (d, c) A) r'" if "r' \<in> set (db_submissions db')" for r'
  proof -
    from that obtain r where r: "r \<in> set (db_submissions db)" "r' = (if held_by c r then ?f r else r)"
      by (auto simp: db' update_rows_def)
    have cov_r: "row_covered K H db A r" using cov r(1) by (simp add: covered_def)
    show ?thesis
    proof (cases "held_by c r")
      case True
      then have "sr_status r = RUNNING" "sr_id r \<in> claimed_ids A"
        using x by (force simp: held_by_def claimed_ids_def)+
      moreover have "sr_attempt r < ec_max_attempts K" using held [OF r(1) True] r0(3) by simp
      ultimately show ?thesis using True r(2) cov_r same by (simp add: row_covered_def)
    next
      case False
      then show ?thesis using r(2) cov_r covered_forget [OF cov, of "(d, c)"] r(1) db'
        by (auto simp: covered_def row_covered_def unpublished_def update_rows_def)
    qed
  qed
  moreover have "claim_tracked K db' y" if y: "y \<in> set (remove1 (d, c) A)" for y
  proof -
    have "claim_tracked K db y" using covered_forget [OF cov] y by (simp add: covered_def)
    then obtain r where r: "jd_message (fst y) = message_for K (cl_id (snd y))" "r \<in> set (db_submissions db)"
      "sr_id r = cl_id (snd y)" "terminal r \<or> sr_status r = RUNNING" by (auto simp: claim_tracked_def)
    have "\<not> held_by c r"
      using forgotten_id [OF cov x] y r(3) by (auto simp: held_by_def claimed_ids_def image_iff)
    then have "r \<in> set (db_submissions db')" using r(2) by (force simp: db' update_rows_def)
    then show ?thesis using r by (auto simp: claim_tracked_def)
  qed
  ultimately show ?thesis using covered_forget [OF cov] by (simp add: covered_def)
qed

text \<open>A claim takes one QUEUED submission of the contract, whose message was delivered.\<close>

lemma claim_effect:
  assumes "claim_submission db now now' fresh i (ec_identity_sha256 K) (ec_snapshot_sha256 K) lease
    (ec_max_attempts K) (ec_max_running K) = (a, db')" "ca_claim a = Some c"
  obtains r f P where "row_of db i = Some r" "sr_status r = QUEUED" "cl_id c = i" "db' = update_rows P f db"
    "\<And>x. P x \<Longrightarrow> sr_id x = i" "\<And>x. sr_status (f x) = RUNNING \<and> sr_id (f x) = sr_id x" "P r"
proof (cases "row_of db i")
  case None
  then show ?thesis using assms by (auto simp: claim_submission_def no_claim_def)
next
  case (Some r)
  let ?P = "\<lambda>x. sr_id x = i \<and> sr_status x = QUEUED \<and> sr_attempt x = sr_attempt r"
  let ?f = "\<lambda>x. x\<lparr>sr_status := RUNNING, sr_attempt := sr_attempt r + 1, sr_lease_token := Some fresh,
    sr_started := Some now, sr_lease_expires := Some (min (now' + seconds lease) (sr_deadline r))\<rparr>"
  have "sr_status r = QUEUED \<and> cl_id c = i \<and> db' = update_rows ?P ?f db"
    using assms Some by (auto simp: claim_submission_def no_claim_def Let_def split: if_splits)
  then show ?thesis using row_of_Some [OF Some] by (intro that [of r ?P ?f]) (simp_all add: Some)
qed

lemma covered_claim:
  assumes cov: "covered K H db A" and ids: "distinct_ids db"
    and claim: "claim_submission db now now' fresh i (ec_identity_sha256 K) (ec_snapshot_sha256 K) lease
      (ec_max_attempts K) (ec_max_running K) = (a, db')" "ca_claim a = Some c"
    and d: "jd_message d = message_for K i" "jd_message d \<in># H"
  shows "covered K H db' (A @ [(d, c)])"
proof -
  from claim obtain r0 f P where r0: "row_of db i = Some r0" "sr_status r0 = QUEUED" "cl_id c = i" "db' = update_rows P f db"
    "\<And>x. P x \<Longrightarrow> sr_id x = i" "\<And>x. sr_status (f x) = RUNNING \<and> sr_id (f x) = sr_id x" "P r0" by (rule claim_effect) blast
  have mem: "r0 \<in> set (db_submissions db)" "sr_id r0 = i" using row_of_Some [OF r0(1)] by auto
  have new: "i \<notin> claimed_ids A" using unclaimed_id [OF cov ids mem(1) r0(2)] mem(2) by simp
  have "row_covered K H db' (A @ [(d, c)]) r'" if "r' \<in> set (db_submissions db')" for r'
  proof -
    from that obtain r where r: "r \<in> set (db_submissions db)" "r' = (if P r then f r else r)"
      by (auto simp: r0(4) update_rows_def)
    have cov_r: "row_covered K H db A r" using cov r(1) by (simp add: covered_def)
    show ?thesis
    proof (cases "P r")
      case True
      then show ?thesis using r(2) r0(5,6) [of r] d by (simp add: row_covered_def)
    next
      case False
      then have "sr_id r \<noteq> i" using same_row [OF ids r0(1) r(1)] r0(7) by auto
      then show ?thesis using False r(2) cov_r r0(3,4)
        by (auto simp: row_covered_def unpublished_def update_rows_def)
    qed
  qed
  moreover have "claim_tracked K db' y" if y: "y \<in> set A" for y
  proof -
    have "claim_tracked K db y" using cov y by (simp add: covered_def)
    then obtain r where r: "jd_message (fst y) = message_for K (cl_id (snd y))" "r \<in> set (db_submissions db)"
      "sr_id r = cl_id (snd y)" "terminal r \<or> sr_status r = RUNNING" by (auto simp: claim_tracked_def)
    have "\<not> P r" using new y r(3) r0(5) [of r] by (auto simp: claimed_ids_def image_iff)
    then have "r \<in> set (db_submissions db')" using r(2) by (force simp: r0(4) update_rows_def)
    then show ?thesis using r by (auto simp: claim_tracked_def)
  qed
  moreover have "claim_tracked K db' (d, c)"
  proof -
    have "f r0 \<in> set (db_submissions db')" using mem(1) r0(7) by (force simp: r0(4) update_rows_def)
    then show ?thesis using d(1) r0(3) r0(6) [of r0] mem(2) by (auto simp: claim_tracked_def)
  qed
  ultimately show ?thesis using cov new r0(3) by (auto simp: covered_def claimed_ids_def)
qed

text \<open>A refused claim that is not to be retried: its message serves no submission.\<close>

lemma spent_message:
  assumes cov: "covered K H db A" and ids: "distinct_ids db"
    and claim: "claim_submission db now now' fresh i (ec_identity_sha256 K) (ec_snapshot_sha256 K) lease
      (ec_max_attempts K) (ec_max_running K) = (a, db')" "ca_claim a = None" "\<not> ca_retry_later a"
    and r': "r' \<in> set (db_submissions db')" "sr_id r' = i" "ours K r'"
  shows "terminal r'"
proof -
  have sink: "sinks K db db'" by (rule no_claim_sinks [OF claim(1,2)])
  then have "list_all2 sunk (db_submissions db) (db_submissions db')" by (simp add: sinks_def)
  from list_all2_member2 [OF this r'(1)] obtain r where r: "r \<in> set (db_submissions db)" "sunk r r'" by blast
  show ?thesis
  proof (rule ccontr)
    assume live: "\<not> terminal r'"
    then have same: "r' = r" "sr_id r = i" "ours K r" using r(2) r' by (auto simp: sunk_def)
    have row: "row_of db i = Some r"
    proof (cases "row_of db i")
      case None
      then show ?thesis using r(1) same(2) by (auto simp: row_of_def find_None_iff)
    next
      case (Some x)
      then show ?thesis using same_row [OF ids Some r(1) same(2)] by simp
    qed
    have "row_covered K H db A r" using cov r(1) by (simp add: covered_def)
    then have "sr_status r = QUEUED \<Longrightarrow> sr_attempt r < ec_max_attempts K" using same(3) by (simp add: row_covered_def)
    moreover have "sr_status r = QUEUED \<or> sr_status r = RUNNING"
      using live unfolding same(1) terminal_def by (cases "sr_status r") simp_all
    ultimately have "db' = update_rows (\<lambda>x. sr_id x = i \<and> sr_status x = QUEUED) (job_deadline_failure now) db \<and> sr_status r = QUEUED"
      using claim row same(3)
      by (auto simp: claim_submission_def no_claim_def ours_def Let_def split: if_splits)
    then obtain x where x: "x \<in> set (db_submissions db)" "sr_status r = QUEUED"
      "r' = (if sr_id x = i \<and> sr_status x = QUEUED then job_deadline_failure now x else x)"
      using r'(1) by (auto simp: update_rows_def)
    then have "sr_id x = i" using r'(2) by (auto simp: job_deadline_failure_def split: if_splits)
    then have "x = r" using same_id [OF ids x(1) r(1)] same(2) by simp
    then have "r' = job_deadline_failure now r" using x \<open>sr_id x = i\<close> by simp
    then show False using live miss_ends by simp
  qed
qed
section \<open>Coverage under the calls of the API\<close>

lemma covered_same:
  assumes "covered K H db A" "db_submissions db' = db_submissions db" "db_outbox db' = db_outbox db"
  shows "covered K H db' A"
  using assms unfolding covered_def row_covered_def claim_tracked_def unpublished_def by simp

lemma unpublished_mark [simp]: "unpublished (mark_outbox_published db now i) j \<longleftrightarrow> unpublished db j \<and> j \<noteq> i"
  by (auto simp: unpublished_def mark_outbox_published_def)

lemma rows_mark [simp]: "db_submissions (mark_outbox_published db now i) = db_submissions db"
  by (simp add: mark_outbox_published_def)

lemma covered_mark: "covered K H db A \<Longrightarrow> message_for K i \<in># H \<Longrightarrow> covered K H (mark_outbox_published db now i) A"
  unfolding covered_def row_covered_def claim_tracked_def by auto

lemma create_effect:
  assumes "create_submission sha db now fresh user key prompt c fp = Inr ((row, replayed), db')"
  shows "db' = db \<or> sr_status row = QUEUED \<and> sr_attempt row = 0 \<and>
    db_submissions db' = db_submissions db @ [row] \<and>
    db_outbox db' = db_outbox db @ [\<lparr>ob_submission = sr_id row, ob_created = now, ob_published = None\<rparr>]"
  using assms by (auto simp: create_submission_def rbind_Inr_iff Let_def new_row_def split: option.splits if_splits)

lemma covered_create:
  assumes "covered K H db A" "0 < ec_max_attempts K"
    "create_submission sha db now fresh user key prompt c fp = Inr ((row, replayed), db')" "distinct_ids db'"
  shows "covered K H db' A"
  using create_effect [OF assms(3)]
proof (elim disjE conjE)
  assume row: "sr_status row = QUEUED" "sr_attempt row = 0" and rows: "db_submissions db' = db_submissions db @ [row]"
    and out: "db_outbox db' = db_outbox db @ [\<lparr>ob_submission = sr_id row, ob_created = now, ob_published = None\<rparr>]"
  have "row_covered K H db' A r" if "r \<in> set (db_submissions db)" for r
    using assms(1) that out by (auto simp: covered_def row_covered_def unpublished_def)
  moreover have "row_covered K H db' A row" using row assms(2) out by (simp add: row_covered_def unpublished_def)
  moreover have "claim_tracked K db' x" if "x \<in> set A" for x
    using assms(1) that rows by (auto simp: covered_def claim_tracked_def)
  ultimately show ?thesis using assms(1) rows by (auto simp: covered_def)
qed (use assms(1) in simp)

lemma register_same:
  "register_user db fresh subject handle admin = Inr (x, db') \<Longrightarrow>
     db_submissions db' = db_submissions db \<and> db_outbox db' = db_outbox db"
  by (auto simp: register_user_def rbind_Inr_iff Let_def)

end
