(* ===== verification/Worker_System.thy ===== *)
theory Worker_System
  imports Worker_Effects
begin

text \<open>
  The submission system: the API, the dispatcher and any number of workers over one store and one
  queue.  A step is one call; a worker's evaluation of a claim is one step of its own, so claims
  of several workers overlap.  No accepted submission is stranded, for every queue that provides
  the interface.
\<close>

section \<open>Computations that keep an invariant\<close>

definition keeps :: "('s \<Rightarrow> bool) \<Rightarrow> ('s, 'a) run \<Rightarrow> bool" where
  "keeps I m \<longleftrightarrow> (\<forall>s. I s \<longrightarrow> I (snd (m s)))"

lemma keepsD: "keeps I m \<Longrightarrow> I s \<Longrightarrow> m s = (r, s') \<Longrightarrow> I s'"
  by (metis keeps_def snd_conv)

lemma keeps_bind: "keeps I m \<Longrightarrow> (\<And>x. keeps I (f x)) \<Longrightarrow> keeps I (run_bind m f)"
  by (fastforce simp: keeps_def run_bind_def split: prod.splits sum.splits)

lemma keeps_pure: "keeps I (run_pure r)"
  by (simp add: keeps_def run_pure_def)

text \<open>The calls that cannot raise.\<close>

definition returns :: "('s, 'a) run \<Rightarrow> bool" where
  "returns m \<longleftrightarrow> (\<forall>s. \<exists>x s'. m s = (Inr x, s'))"

lemma returnsE:
  assumes "returns m"
  obtains x s' where "m s = (Inr x, s')"
  using assms unfolding returns_def by blast

lemma returns_bind: "returns m \<Longrightarrow> (\<And>x. returns (f x)) \<Longrightarrow> returns (run_bind m f)"
  unfolding returns_def run_bind_def by (metis (no_types, lifting) case_prod_conv sum.case(2))

lemma returns_pure: "returns (run_pure (Inr x))"
  by (simp add: returns_def run_pure_def)

lemma returns_on_db: "returns (on_db f)"
  by (simp add: returns_def on_db_def split: prod.splits)

lemma returns_on_queue: "returns (on_queue f)"
  by (simp add: returns_def on_queue_def split: prod.splits)

lemma returns_monotonic: "returns (monotonic W)"
  by (simp add: returns_def monotonic_def split: prod.splits)

lemma returns_utc: "returns (utc_now W)"
  by (simp add: returns_def utc_now_def split: prod.splits)

lemma returns_timed: "returns (timed W f)"
  unfolding timed_def by (intro returns_bind returns_utc returns_on_db)

lemma returns_sweep_leases: "returns (sweep_leases W)"
  unfolding sweep_leases_def by (rule returns_timed)

lemma returns_sweep_if_due: "returns (sweep_if_due W now)"
proof -
  have "returns (run_bind (sweep_leases W) (\<lambda>_. run_bind (timed W (\<lambda>db now. expire_queued_deadlines db now None))
      (\<lambda>_ s. (Inr (), s\<lparr>ws_next_sweep := t\<rparr>))))" for t
    by (intro returns_bind returns_sweep_leases returns_timed) (simp add: returns_def)
  then show ?thesis by (simp add: returns_def sweep_if_due_def)
qed

lemma returns_try_retry: "returns (try_retry W c fcode retry_allowed)"
  unfolding try_retry_def by (simp add: returns_timed returns_pure)

lemma returns_fail_claim: "returns (fail_claim W c fcode retryable)"
  unfolding fail_claim_def
  by (intro returns_bind returns_timed) (simp add: returns_pure returns_bind returns_sweep_leases)

lemma returns_ack_delivery: "returns (ack_delivery W d)"
  unfolding ack_delivery_def by (rule returns_on_queue)

lemma run_claim_core:
  "run_claim W c s = (outcome, s') \<Longrightarrow> ws_db s' = ws_db s \<and> ws_queue s' = ws_queue s"
  by (auto simp: run_claim_def split: prod.splits)

lemma returns_handle_failure: "returns (handle_failure W d c fcode retry_allowed)"
  unfolding handle_failure_def
  by (intro returns_bind returns_try_retry) (simp add: returns_bind returns_on_queue returns_pure returns_fail_claim returns_ack_delivery)

lemma claim_message_effect:
  assumes "claim_message W i s = (r, s')"
  obtains a now now' fresh where "r = Inr a" "ws_queue s' = ws_queue s"
    "claim_submission (ws_db s) now now' fresh i (ec_identity_sha256 (wk_contract W)) (ec_snapshot_sha256 (wk_contract W))
       (wk_lease_seconds W) (ec_max_attempts (wk_contract W)) (ec_max_running (wk_contract W)) = (a, ws_db s')"
proof -
  have "\<exists>a now now' fresh. r = Inr a \<and> ws_queue s' = ws_queue s \<and>
    claim_submission (ws_db s) now now' fresh i (ec_identity_sha256 (wk_contract W)) (ec_snapshot_sha256 (wk_contract W))
       (wk_lease_seconds W) (ec_max_attempts (wk_contract W)) (ec_max_running (wk_contract W)) = (a, ws_db s')"
    using assms by (fastforce simp: claim_message_def Let_def split: if_splits prod.splits)
  then show ?thesis using that by blast
qed

lemma message_unmatched:
  "\<not> (\<exists>i. m = message_for K i) \<longleftrightarrow> jm_identity m \<noteq> ec_identity_sha256 K \<or> jm_snapshot m \<noteq> ec_snapshot_sha256 K"
proof -
  have "m = message_for K (jm_submission m)" if "jm_identity m = ec_identity_sha256 K" "jm_snapshot m = ec_snapshot_sha256 K"
    using that by (simp add: message_for_def)
  moreover have "jm_identity (message_for K i) = ec_identity_sha256 K" "jm_snapshot (message_for K i) = ec_snapshot_sha256 K" for i
    by (simp_all add: message_for_def)
  ultimately show ?thesis by metis
qed

section \<open>Any queue\<close>

locale worker_queue =
  fixes Q :: "'q queue_ops"
    and invar :: "'q \<Rightarrow> bool"
    and inflight :: "'q \<Rightarrow> job_delivery set"
    and held :: "'q \<Rightarrow> job_message multiset"
  assumes queue_laws: "job_queue (qo_routing Q) (qo_publish Q) (qo_receive Q) (qo_ack Q) (qo_nack Q) invar inflight held"

sublocale worker_queue \<subseteq> queue: job_queue "qo_routing Q" "qo_publish Q" "qo_receive Q" "qo_ack Q" "qo_nack Q" invar inflight held
  by (rule queue_laws)

context worker_queue
begin

definition safe :: "evaluation_contract \<Rightarrow> database \<Rightarrow> 'q \<Rightarrow> claims \<Rightarrow> bool" where
  "safe K db q A \<longleftrightarrow> reachable K db \<and> invar q \<and> qo_routing Q q = ec_snapshot_sha256 K \<and> covered K (held q) db A"

lemma safe_ids: "safe K db q A \<Longrightarrow> distinct_ids db"
  unfolding safe_def by (blast intro: reachable_distinct)

lemma safe_sinks: "safe K db q A \<Longrightarrow> sinks K db db' \<Longrightarrow> safe K db' q A"
  using later_reachable covered_sinks by (auto simp: safe_def sinks_def)

lemma safe_receive: "safe K db q A \<Longrightarrow> qo_receive Q q t = (r, q') \<Longrightarrow> safe K db q' A"
  using queue.receive_law by (auto simp: safe_def)

lemma safe_nack: "safe K db q A \<Longrightarrow> qo_nack Q q d = (b, q') \<Longrightarrow> safe K db q' A"
  using queue.nack_law by (auto simp: safe_def)

lemma safe_publish: "safe K db q A \<Longrightarrow> qo_publish Q q m = Inr q' \<Longrightarrow> safe K db q' A \<and> m \<in># held q'"
  using queue.publish_law [of q m q'] by (auto simp: safe_def intro: covered_more)

text \<open>An acknowledgement removes one message; it must not be one that is still needed.\<close>

lemma safe_ack:
  assumes "safe K db q A" "qo_ack Q q d = (b, q')"
    "\<And>i r. jd_message d = message_for K i \<Longrightarrow> r \<in> set (db_submissions db) \<Longrightarrow> sr_id r = i \<Longrightarrow> ours K r \<Longrightarrow>
       sr_status r \<noteq> QUEUED \<and> (sr_status r = RUNNING \<longrightarrow> i \<notin> claimed_ids A)"
  shows "safe K db q' A"
proof -
  have q: "invar q'" "qo_routing Q q' = qo_routing Q q" "held q' = held q \<or> held q = add_mset (jd_message d) (held q')"
    using queue.ack_law [OF _ assms(2)] assms(1) by (auto simp: safe_def split: if_splits)
  have "covered K (held q') db A"
  proof (rule covered_drop)
    show "covered K (held q) db A" using assms(1) by (simp add: safe_def)
    fix i r
    assume r: "message_for K i \<in># held q" "message_for K i \<notin># held q'" "r \<in> set (db_submissions db)" "sr_id r = i" "ours K r"
    then have "jd_message d = message_for K i" using q(3) by auto
    then show "sr_status r \<noteq> QUEUED \<and> (sr_status r = RUNNING \<longrightarrow> i \<notin> claimed_ids A)"
      using r(3-5) by (rule assms(3))
  qed
  then show ?thesis using q assms(1) by (simp add: safe_def)
qed

text \<open>A worker may acknowledge the delivery of a claim it holds: the submission is not QUEUED.\<close>

lemma safe_ack_claim:
  assumes "safe K db q A" "(d, c) \<in> set A" "qo_ack Q q d = (b, q')"
  shows "safe K db q' (remove1 (d, c) A)"
proof (rule safe_ack [OF _ assms(3)])
  have cov: "covered K (held q) db A" using assms(1) by (simp add: safe_def)
  show "safe K db q (remove1 (d, c) A)" using assms(1) covered_forget by (simp add: safe_def)
  fix i r
  assume "jd_message d = message_for K i" and r: "r \<in> set (db_submissions db)" "sr_id r = i"
  moreover have "jd_message d = message_for K (cl_id c)" using cov assms(2) by (force simp: covered_def claim_tracked_def)
  ultimately have i: "i = cl_id c" by simp
  show "sr_status r \<noteq> QUEUED \<and> (sr_status r = RUNNING \<longrightarrow> i \<notin> claimed_ids (remove1 (d, c) A))"
    using forgotten_id [OF cov assms(2)] tracked_row [OF cov assms(2) safe_ids [OF assms(1)] r(1)] r(2) i by simp
qed

section \<open>Claiming keeps every submission covered\<close>

abbreviation ok :: "evaluation_contract \<Rightarrow> claims \<Rightarrow> ('q, 'w) worker_state \<Rightarrow> bool" where
  "ok K A s \<equiv> safe K (ws_db s) (ws_queue s) A"

lemma keeps_monotonic: "keeps (ok K A) (monotonic W)"
  by (auto simp: keeps_def monotonic_def split: prod.splits)

lemma keeps_utc: "keeps (ok K A) (utc_now W)"
  by (auto simp: keeps_def utc_now_def split: prod.splits)

lemma keeps_on_db: "(\<And>db. sinks K db (snd (f db))) \<Longrightarrow> keeps (ok K A) (on_db f)"
  unfolding keeps_def on_db_def by (metis (no_types, lifting) case_prod_unfold safe_sinks snd_conv worker_state.select_convs(1,2)
      worker_state.surjective worker_state.update_convs(1))

lemma keeps_timed: "(\<And>db now. sinks K db (snd (f db now))) \<Longrightarrow> keeps (ok K A) (timed W f)"
  unfolding timed_def by (intro keeps_bind keeps_utc keeps_on_db)

lemma keeps_sweep_leases: "keeps (ok K A) (sweep_leases W)"
  unfolding sweep_leases_def by (intro keeps_timed leases_sink)

lemma keeps_sweep_if_due: "keeps (ok K A) (sweep_if_due W now)"
proof -
  have "keeps (ok K A) (run_bind (sweep_leases W) (\<lambda>_. run_bind (timed W (\<lambda>db now. expire_queued_deadlines db now None))
      (\<lambda>_ s. (Inr (), s\<lparr>ws_next_sweep := t\<rparr>))))" for t
    by (intro keeps_bind keeps_sweep_leases keeps_timed deadlines_sink) (simp add: keeps_def)
  then show ?thesis by (simp add: keeps_def sweep_if_due_def)
qed

lemma claim_delivery_safe:
  assumes W: "wk_queue W = Q" "wk_contract W = K" and s: "ok K A s" "d \<in> inflight (ws_queue s)"
    and run: "claim_delivery W d s = (r, s')"
  shows "\<exists>i x. r = Inr (i, x) \<and> ok K (A @ (case x of None \<Rightarrow> [] | Some y \<Rightarrow> [y])) s'"
proof (cases "\<exists>i. jd_message d = message_for K i")
  case False
  then have "jm_identity (jd_message d) \<noteq> ec_identity_sha256 K \<or> jm_snapshot (jd_message d) \<noteq> ec_snapshot_sha256 K"
    using message_unmatched by blast
  then have r: "r = Inr (Some (jm_submission (jd_message d)), None)" "s' = s\<lparr>ws_queue := snd (qo_ack Q (ws_queue s) d)\<rparr>"
    using run W by (auto simp: claim_delivery_def Let_def run_bind_eq on_queue_def split: prod.splits)
  have "safe K (ws_db s) (snd (qo_ack Q (ws_queue s) d)) A"
    by (rule safe_ack [OF s(1) prod.collapse [symmetric]]) (use False in blast)
  then show ?thesis using r by simp
next
  case True
  then obtain i where m: "jd_message d = message_for K i" by blast
  obtain a now now' fresh s1 where c: "claim_message W i s = (Inr a, s1)" "ws_queue s1 = ws_queue s"
    "claim_submission (ws_db s) now now' fresh i (ec_identity_sha256 K) (ec_snapshot_sha256 K)
       (wk_lease_seconds W) (ec_max_attempts K) (ec_max_running K) = (a, ws_db s1)"
    using claim_message_effect [of W i s] W(2) by (metis prod.exhaust)
  have cov: "covered K (held (ws_queue s)) (ws_db s) A" "reachable K (ws_db s)" using s(1) by (simp_all add: safe_def)
  note ids = safe_ids [OF s(1)]
  have reach: "reachable K (ws_db s1)" by (rule reachable.step [OF cov(2) store_step.claim [OF c(3)]])
  note unfolded = claim_delivery_def Let_def run_bind_eq m message_for_def c(1) on_queue_def W
  show ?thesis
  proof (cases "ca_claim a")
    case (Some y)
    then have r: "r = Inr (Some i, Some (d, y))" "s' = s1" using run by (auto simp: unfolded)
    have "jd_message d \<in># held (ws_queue s)" using queue.inflight_held s by (simp add: safe_def)
    from covered_claim [OF cov(1) ids c(3) Some m this] reach s(1) c(2) r show ?thesis by (simp add: safe_def)
  next
    case None
    have s1: "ok K A s1" using safe_sinks [OF s(1) no_claim_sinks [OF c(3) None]] c(2) by simp
    show ?thesis
    proof (cases "ca_retry_later a")
      case True
      then have "r = Inr (Some i, None)" "ws_db s' = ws_db s1" "ws_queue s' = snd (qo_nack Q (ws_queue s1) d)"
        using run None by (auto simp: unfolded monotonic_def split: prod.splits)
      then show ?thesis using safe_nack [OF s1 prod.collapse [symmetric]] by simp
    next
      case False
      then have r: "r = Inr (Some i, None)" "ws_db s' = ws_db s1" "ws_queue s' = snd (qo_ack Q (ws_queue s1) d)"
        using run None by (auto simp: unfolded split: prod.splits)
      have cov1: "covered K (held (ws_queue s1)) (ws_db s1) A" using s1 by (simp add: safe_def)
      have "safe K (ws_db s1) (snd (qo_ack Q (ws_queue s1) d)) A"
      proof (rule safe_ack [OF s1 prod.collapse [symmetric]])
        fix j x
        assume j: "jd_message d = message_for K j" and x: "x \<in> set (db_submissions (ws_db s1))" "sr_id x = j" "ours K x"
        then have "terminal x" using m by (intro spent_message [OF cov(1) ids c(3) None False]) simp_all
        then show "sr_status x \<noteq> QUEUED \<and> (sr_status x = RUNNING \<longrightarrow> j \<notin> claimed_ids A)" using terminal_status by simp
      qed
      then show ?thesis using r by simp
    qed
  qed
qed

lemma attempt_safe:
  assumes W: "wk_queue W = Q" "wk_contract W = K" and s: "ok K A s"
    and run: "receive_and_claim_attempt W s = (r, s')"
  shows "\<exists>i x. r = Inr (i, x) \<and> ok K (A @ (case x of None \<Rightarrow> [] | Some y \<Rightarrow> [y])) s'"
proof -
  obtain now s1 where s1: "monotonic W s = (Inr now, s1)" by (rule returnsE [OF returns_monotonic])
  obtain x2 s2 where s2: "sweep_if_due W now s1 = (Inr x2, s2)" by (rule returnsE [OF returns_sweep_if_due])
  obtain t s3 where s3: "monotonic W s2 = (Inr t, s3)" by (rule returnsE [OF returns_monotonic])
  obtain x q where q: "qo_receive Q (ws_queue s3) t = (x, q)" by fastforce
  have ok3: "ok K A s3"
    using keepsD [OF keeps_monotonic keepsD [OF keeps_sweep_if_due keepsD [OF keeps_monotonic s s1] s2] s3] .
  let ?s4 = "s3\<lparr>ws_queue := q\<rparr>"
  have ok4: "ok K A ?s4" using safe_receive [OF ok3 q] by simp
  have rest: "(case x of None \<Rightarrow> run_pure (Inr (None, None)) | Some d \<Rightarrow> claim_delivery W d) ?s4 = (r, s')"
    using run by (simp add: receive_and_claim_attempt_def run_bind_def s1 s2 s3 on_queue_def W q)
  show ?thesis
  proof (cases x)
    case None
    then show ?thesis using rest ok4 by auto
  next
    case (Some d)
    then have "d \<in> inflight (ws_queue ?s4)" using queue.receive_law [OF _ q] ok3 by (simp add: safe_def)
    then show ?thesis using claim_delivery_safe [OF W ok4] rest Some by simp
  qed
qed

lemma receive_and_claim_safe:
  assumes W: "wk_queue W = Q" "wk_contract W = K" and s: "ok K A s"
    and run: "receive_and_claim W s = (r, s')"
  shows "\<exists>x. r = Inr x \<and> ok K (A @ (case x of None \<Rightarrow> [] | Some y \<Rightarrow> [y])) s'"
proof -
  obtain now s1 where s1: "monotonic W s = (Inr now, s1)" by (rule returnsE [OF returns_monotonic])
  have ok1: "ok K A s1" by (rule keepsD [OF keeps_monotonic s s1])
  show ?thesis
  proof (cases "now < ws_next_receive s1")
    case True
    then show ?thesis using run ok1 by (auto simp: receive_and_claim_def run_bind_def s1)
  next
    case False
    obtain r1 s2 where a: "receive_and_claim_attempt W s1 = (r1, s2)" by fastforce
    then show ?thesis using attempt_safe [OF W ok1 a] run False
      by (auto simp: receive_and_claim_def run_bind_def s1)
  qed
qed

section \<open>Evaluating a claim keeps every submission covered\<close>

lemma keeps_fail_claim: "keeps (ok K A) (fail_claim W c fcode retryable)"
  unfolding fail_claim_def
  by (intro keeps_bind keeps_timed failure_sinks) (auto intro!: keeps_bind keeps_pure keeps_sweep_leases)

lemma ack_delivery_safe:
  assumes "wk_queue W = Q" "(d, c) \<in> set A" "ok K A s" "ack_delivery W d s = (r, s')"
  shows "ok K (remove1 (d, c) A) s'"
  using safe_ack_claim [OF assms(3,2) prod.collapse [symmetric]] assms(1,4)
  by (auto simp: ack_delivery_def on_queue_def split: prod.splits)

text \<open>A failure hands the claim back, or ends it and acknowledges its delivery.\<close>

lemma handle_failure_safe:
  assumes W: "wk_queue W = Q" "wk_contract W = K" and s: "ok K A s" "(d, c) \<in> set A"
    and run: "handle_failure W d c fcode retry_allowed s = (r, s')"
  shows "ok K (remove1 (d, c) A) s'"
proof -
  obtain b s1 where t: "try_retry W c fcode retry_allowed s = (Inr b, s1)"
    by (rule returnsE [OF returns_try_retry])
  show ?thesis
  proof (cases b)
    case True
    then obtain now where retry: "retry_submission (ws_db s) now c (ec_max_attempts K) = (True, ws_db s1)"
      and q1: "ws_queue s1 = ws_queue s"
      using t W(2) by (auto simp: try_retry_def timed_def run_bind_def utc_now_def on_db_def split: if_splits prod.splits)
    have "reachable K (ws_db s1)"
      using s(1) store_step.retry [OF retry] by (auto simp: safe_def intro: reachable.step)
    then have "ok K (remove1 (d, c) A) s1"
      using covered_retry [OF _ s(2) safe_ids [OF s(1)] retry] s(1) q1 by (simp add: safe_def)
    moreover have "ws_db s' = ws_db s1" "ws_queue s' = snd (qo_nack Q (ws_queue s1) d)"
      using run True W(1) by (auto simp: handle_failure_def run_bind_def t on_queue_def run_pure_def split: prod.splits)
    ultimately show ?thesis using safe_nack [OF _ prod.collapse [symmetric]] by simp
  next
    case False
    have "ws_db s1 = ws_db s" "ws_queue s1 = ws_queue s"
      using t False retry_fails
      by (auto simp: try_retry_def timed_def run_bind_def utc_now_def on_db_def run_pure_def split: if_splits prod.splits)
    then have ok1: "ok K A s1" using s(1) by simp
    obtain b2 s2 where f: "fail_claim W c fcode False s1 = (Inr b2, s2)" by (rule returnsE [OF returns_fail_claim])
    obtain b3 s3 where a: "ack_delivery W d s2 = (Inr b3, s3)" by (rule returnsE [OF returns_ack_delivery])
    have "s' = s3" using run False by (simp add: handle_failure_def run_bind_def t f a run_pure_def)
    with a have a: "ack_delivery W d s2 = (Inr b3, s')" by simp
    show ?thesis by (rule ack_delivery_safe [OF W(1) s(2) keepsD [OF keeps_fail_claim ok1 f] a])
  qed
qed

lemma failed_safe:
  assumes W: "wk_queue W = Q" "wk_contract W = K" and s: "ok K A s" "(d, c) \<in> set A"
    and run: "failed W d c fcode retry_allowed s = (r, s')"
  shows "ok K (remove1 (d, c) A) s'"
proof -
  obtain r1 where "handle_failure W d c fcode retry_allowed s = (r1, s')"
    using run by (auto simp: failed_def run_bind_eq)
  then show ?thesis by (rule handle_failure_safe [OF W s])
qed

lemma finish_success_safe:
  assumes W: "wk_queue W = Q" "wk_contract W = K" and s: "ok K A s" "(d, c) \<in> set A"
    and run: "finish_success W d c report s = (r, s')"
  shows "ok K A s' \<or> ok K (remove1 (d, c) A) s'"
proof -
  obtain now s1 where t: "utc_now W s = (Inr now, s1)" by (rule returnsE [OF returns_utc])
  have ok1: "ok K A s1" by (rule keepsD [OF keeps_utc s(1) t])
  show ?thesis
  proof (cases "complete_success (ws_db s1) now c report")
    case (Inl e)
    then show ?thesis using run ok1 by (auto simp: finish_success_def run_bind_def t)
  next
    case (Inr x)
    obtain b db where x: "x = (b, db)" by fastforce
    let ?s2 = "s1\<lparr>ws_db := db\<rparr>"
    have ok2: "ok K A ?s2" using safe_sinks [OF ok1 success_sinks(1)] Inr x by simp
    obtain b3 s3 where a: "ack_delivery W d ?s2 = (Inr b3, s3)" by (rule returnsE [OF returns_ack_delivery])
    obtain r4 s4 where f: "handle_failure W d c ''JOB_DEADLINE'' True ?s2 = (r4, s4)" by fastforce
    have "s' = (if b then s3 else s4)"
      using run by (auto simp: finish_success_def run_bind_def t Inr x a f run_pure_def split: sum.splits)
    then show ?thesis using ack_delivery_safe [OF W(1) s(2) ok2 a] handle_failure_safe [OF W ok2 s(2) f] by simp
  qed
qed

lemma conclude_safe:
  assumes W: "wk_queue W = Q" "wk_contract W = K" and s: "ok K A s" "(d, c) \<in> set A"
    and run: "conclude W d c outcome s = (r, s')"
  shows "ok K A s' \<or> ok K (remove1 (d, c) A) s'"
proof (cases outcome)
  case (Inl e)
  show ?thesis
  proof (cases "verdict_of W e")
    case None
    then show ?thesis using run s(1) Inl by (simp add: conclude_def)
  next
    case (Some v)
    show ?thesis
    proof (cases v)
      case Reject
      let ?m = "\<lambda>completed. if completed then run_pure (Inr 0) else sweep_leases W"
      have keep: "keeps (ok K A) (timed W (\<lambda>db now. complete_rejected db now c))" "keeps (ok K A) (?m b)"
        "returns (?m b)" for b
        by (simp_all add: keeps_timed rejected_sinks keeps_pure keeps_sweep_leases returns_pure returns_sweep_leases)
      obtain b s1 where t: "timed W (\<lambda>db now. complete_rejected db now c) s = (Inr b, s1)" by (rule returnsE [OF returns_timed])
      obtain n s2 where m: "?m b s1 = (Inr n, s2)" by (rule returnsE [OF keep(3)])
      obtain b3 s3 where a: "ack_delivery W d s2 = (Inr b3, s3)" by (rule returnsE [OF returns_ack_delivery])
      have "s' = s3" using run by (simp add: conclude_def Inl Some Reject run_bind_def t m a run_pure_def)
      then show ?thesis
        using ack_delivery_safe [OF W(1) s(2) keepsD [OF keep(2) keepsD [OF keep(1) s(1) t] m] a] by simp
    next
      case (Fail fcode retry_allowed)
      then show ?thesis using run failed_safe [OF W s] by (simp add: conclude_def Inl Some)
    qed
  qed
next
  case (Inr aggregate)
  obtain now s1 where t: "utc_now W s = (Inr now, s1)" by (rule returnsE [OF returns_utc])
  have ok1: "ok K A s1" by (rule keepsD [OF keeps_utc s(1) t])
  show ?thesis
    using run failed_safe [OF W ok1 s(2)] finish_success_safe [OF W ok1 s(2)] ok1
    by (auto simp: conclude_def Inr run_bind_def t split: if_splits sum.splits)
qed

text \<open>Whatever the evaluation does, its claim is finished or it is as if the worker had stopped.\<close>

lemma evaluate_claim_safe:
  assumes W: "wk_queue W = Q" "wk_contract W = K" and s: "ok K A s" "(d, c) \<in> set A"
    and run: "evaluate_claim W d c s = (r, s')"
  shows "ok K (remove1 (d, c) A) s'"
proof -
  obtain now s1 where t: "utc_now W s = (Inr now, s1)" by (rule returnsE [OF returns_utc])
  have ok1: "ok K A s1" by (rule keepsD [OF keeps_utc s(1) t])
  obtain outcome s2 where c: "run_claim W c s1 = (outcome, s2)" by fastforce
  have ok2: "ok K A s2" using run_claim_core [OF c] ok1 by simp
  have "ok K A s' \<or> ok K (remove1 (d, c) A) s'"
    using run failed_safe [OF W s] failed_safe [OF W ok1 s(2)] conclude_safe [OF W ok2 s(2)]
    by (auto simp: evaluate_claim_def run_bind_def t c split: if_splits)
  then show ?thesis using covered_forget by (auto simp: safe_def)
qed

section \<open>Dispatching keeps every submission covered\<close>

lemma safe_mark:
  assumes "safe K db q A" "message_for K i \<in># held q"
  shows "safe K (mark_outbox_published db now i) q A"
  using assms covered_mark reachable.step [OF _ store_step.publish] by (auto simp: safe_def)

lemma dispatch_ids_safe:
  "dispatch_ids Q K clock ids (db, q) = (r, db', q') \<Longrightarrow> safe K db q A \<Longrightarrow> safe K db' q' A"
proof (induction ids arbitrary: clock db q r)
  case (Cons i ids)
  show ?case
  proof (cases "qo_publish Q q (message_for K i)")
    case (Inl e)
    then show ?thesis using Cons.prems by simp
  next
    case (Inr q1)
    have "safe K (mark_outbox_published db (clock 0) i) q1 A"
      using safe_publish [OF Cons.prems(2) Inr] safe_mark by blast
    then show ?thesis using Cons.IH Cons.prems(1) Inr by (auto split: prod.splits)
  qed
qed simp

lemma republish_safe: "republish Q K ids q = (r, q') \<Longrightarrow> safe K db q A \<Longrightarrow> safe K db q' A"
proof (induction ids arbitrary: q r)
  case (Cons i ids)
  show ?case
  proof (cases "qo_publish Q q (message_for K i)")
    case (Inl e)
    then show ?thesis using Cons.prems by simp
  next
    case (Inr q1)
    then show ?thesis using Cons.IH Cons.prems safe_publish [OF Cons.prems(2) Inr] by (auto split: prod.splits)
  qed
qed simp

lemma dispatch_pending_safe: "dispatch_pending Q K clock (db, q) = (r, db', q') \<Longrightarrow> safe K db q A \<Longrightarrow> safe K db' q' A"
  unfolding dispatch_pending_def by (rule dispatch_ids_safe)

lemma recover_published_safe:
  "recover_published_queued Q K (db, q) = (r, db', q') \<Longrightarrow> safe K db q A \<Longrightarrow> safe K db' q' A"
  using republish_safe by (auto simp: recover_published_queued_def split: prod.splits)

lemma recover_safe:
  assumes "recover Q K now clock (db, q) = (r, db', q')" "safe K db q A"
  shows "safe K db' q' A"
proof -
  let ?db = "snd (expire_queued_deadlines db now None)"
  obtain r1 db1 q1 where p: "recover_published_queued Q K (?db, q) = (r1, db1, q1)" by (metis prod.exhaust)
  have safe1: "safe K db1 q1 A"
    by (rule recover_published_safe [OF p safe_sinks [OF assms(2) deadlines_sink]])
  obtain r2 db2 q2 where d: "dispatch_pending Q K clock (db1, q1) = (r2, db2, q2)" by (metis prod.exhaust)
  show ?thesis
    using assms(1) safe1 dispatch_pending_safe [OF d safe1] by (auto simp: recover_def p d split: sum.splits)
qed

end

end
