(* ===== verification/Submission_System.thy ===== *)
theory Submission_System
  imports Worker_System
begin

text \<open>
  The whole submission system as a transition system over one store and one queue: start-up
  recovery, the API, the dispatcher and any number of workers.
\<close>

section \<open>Steps\<close>

record 'q system =
  sy_db :: database
  sy_queue :: 'q
  sy_active :: claims

text \<open>\<open>Ws\<close> are the workers that run; each call of a worker starts in a state of its own clocks and timers.\<close>

inductive system_step :: "'q queue_ops \<Rightarrow> evaluation_contract \<Rightarrow> ('q, 'w) worker set \<Rightarrow> 'q system \<Rightarrow> 'q system \<Rightarrow> bool"
  for Q K Ws where
  register: "register_user (sy_db S) fresh subject handle admin = Inr (x, db) \<Longrightarrow> system_step Q K Ws S (S\<lparr>sy_db := db\<rparr>)"
| create: "create_submission sha (sy_db S) now fresh user key prompt c fp = Inr ((row, replayed), db) \<Longrightarrow> same_limits K c \<Longrightarrow>
    system_step Q K Ws S (S\<lparr>sy_db := db\<rparr>)"
| admin: "system_step Q K Ws S (S\<lparr>sy_db := (sy_db S)\<lparr>db_admin := rows\<rparr>\<rparr>)"
| leases: "expire_leases (sy_db S) now identity = (n, db) \<Longrightarrow> system_step Q K Ws S (S\<lparr>sy_db := db\<rparr>)"
| deadlines: "expire_queued_deadlines (sy_db S) now identity = (n, db) \<Longrightarrow> system_step Q K Ws S (S\<lparr>sy_db := db\<rparr>)"
| dispatch: "dispatch_pending Q K clock (sy_db S, sy_queue S) = (r, db, q) \<Longrightarrow>
    system_step Q K Ws S (S\<lparr>sy_db := db, sy_queue := q\<rparr>)"
| recovery: "recover Q K now clock (sy_db S, sy_queue S) = (r, db, q) \<Longrightarrow>
    system_step Q K Ws S (S\<lparr>sy_db := db, sy_queue := q\<rparr>)"
| receive: "W \<in> Ws \<Longrightarrow> wk_queue W = Q \<Longrightarrow> wk_contract W = K \<Longrightarrow> ws_db s = sy_db S \<Longrightarrow> ws_queue s = sy_queue S \<Longrightarrow>
    receive_and_claim W s = (Inr x, s') \<Longrightarrow>
    system_step Q K Ws S \<lparr>sy_db = ws_db s', sy_queue = ws_queue s',
      sy_active = sy_active S @ (case x of None \<Rightarrow> [] | Some y \<Rightarrow> [y])\<rparr>"
| evaluate: "W \<in> Ws \<Longrightarrow> wk_queue W = Q \<Longrightarrow> wk_contract W = K \<Longrightarrow> ws_db s = sy_db S \<Longrightarrow> ws_queue s = sy_queue S \<Longrightarrow>
    (d, c) \<in> set (sy_active S) \<Longrightarrow> evaluate_claim W d c s = (r, s') \<Longrightarrow>
    system_step Q K Ws S \<lparr>sy_db = ws_db s', sy_queue = ws_queue s', sy_active = remove1 (d, c) (sy_active S)\<rparr>"
| crash: "system_step Q K Ws S (S\<lparr>sy_active := remove1 x (sy_active S)\<rparr>)"

context worker_queue
begin

definition system_safe :: "evaluation_contract \<Rightarrow> 'q system \<Rightarrow> bool" where
  "system_safe K S \<longleftrightarrow> safe K (sy_db S) (sy_queue S) (sy_active S)"

lemma step_safe:
  assumes "system_step Q K Ws S S'" "system_safe K S" "0 < ec_max_attempts K"
  shows "system_safe K S'"
  using assms(1)
proof cases
  case (register fresh subject handle admin x db)
  then have "store_step K (sy_db S) db" by (intro store_step.register)
  then show ?thesis using assms(2) register register_same [OF register(2)] covered_same
    by (auto simp: system_safe_def safe_def intro: reachable.step)
next
  case (create sha now fresh user key prompt c fp row replayed db)
  have "reachable K db"
    using assms(2) store_step.create [OF create(2,3)] by (auto simp: system_safe_def safe_def intro: reachable.step)
  then show ?thesis using assms(2) create(1) covered_create [OF _ assms(3) create(2) reachable_distinct]
    by (auto simp: system_safe_def safe_def)
next
  case (admin rows)
  then show ?thesis using assms(2) covered_same store_step.admin
    by (auto simp: system_safe_def safe_def intro: reachable.step)
next
  case (leases now identity n db)
  then show ?thesis using assms(2) safe_sinks leases_sink by (auto simp: system_safe_def) (metis snd_conv)
next
  case (deadlines now identity n db)
  then show ?thesis using assms(2) safe_sinks deadlines_sink by (auto simp: system_safe_def) (metis snd_conv)
next
  case (dispatch clock r db q)
  then show ?thesis using assms(2) dispatch_pending_safe [OF dispatch(2)] by (simp add: system_safe_def)
next
  case (recovery now clock r db q)
  then show ?thesis using assms(2) recover_safe [OF recovery(2)] by (simp add: system_safe_def)
next
  case (receive W s x s')
  then show ?thesis using assms(2) receive_and_claim_safe [OF receive(3,4) _ receive(7)] by (auto simp: system_safe_def)
next
  case (evaluate W s d c r s')
  then show ?thesis using assms(2) evaluate_claim_safe [OF evaluate(3,4) _ evaluate(7,8)] by (auto simp: system_safe_def)
next
  case (crash x)
  then show ?thesis using assms(2) covered_forget by (auto simp: system_safe_def safe_def)
qed

lemma steps_safe:
  "(system_step Q K Ws)\<^sup>*\<^sup>* S S' \<Longrightarrow> system_safe K S \<Longrightarrow> 0 < ec_max_attempts K \<Longrightarrow> system_safe K S'"
  by (induction rule: rtranclp_induct) (auto intro: step_safe)

end

section \<open>Recovery\<close>

lemma dispatch_later: "dispatch_ids Q K clock ids (db, q) = (r, db', q') \<Longrightarrow> later K db db'"
proof (induction ids arbitrary: clock db q r)
  case (Cons i ids)
  show ?case
  proof (cases "qo_publish Q q (message_for K i)")
    case (Inr q1)
    obtain r1 s1 where rest: "dispatch_ids Q K (clock \<circ> Suc) ids (mark_outbox_published db (clock 0) i, q1) = (r1, s1)"
      by (metis prod.exhaust)
    then have "s1 = (db', q')" using Cons.prems Inr by simp
    then show ?thesis
      using later_trans [OF later_step [OF later_refl store_step.publish] Cons.IH] rest by blast
  qed (use Cons.prems in \<open>simp add: later_refl\<close>)
qed (simp add: later_refl)

lemma recover_reachable:
  assumes "recover Q K now clock (db, q) = (Inr n, db', q')" "reachable K db"
  shows "reachable K db'"
proof -
  have "later K db (snd (expire_queued_deadlines db now None))" using deadlines_sink by (simp add: sinks_def)
  moreover have "later K (snd (expire_queued_deadlines db now None)) db'"
    using assms(1) dispatch_later
    by (auto simp: recover_def recover_published_queued_def dispatch_pending_def split: prod.splits sum.splits)
  ultimately show ?thesis using later_reachable assms(2) by blast
qed

text \<open>The QUEUED submissions of a contract.\<close>

definition ours_queued :: "evaluation_contract \<Rightarrow> database \<Rightarrow> pystr list" where
  "ours_queued K db = map sr_id (filter (\<lambda>r. ours K r \<and> sr_status r = QUEUED) (db_submissions db))"

lemma filter_split: "mset (map f (filter (\<lambda>e. P e \<and> R e) xs)) + mset (map f (filter (\<lambda>e. \<not> P e \<and> R e) xs)) = mset (map f (filter R xs))"
  by (induction xs) auto

lemma row_of_member:
  assumes "distinct_ids db" "r \<in> set (db_submissions db)"
  shows "row_of db (sr_id r) = Some r"
proof (cases "row_of db (sr_id r)")
  case None
  then show ?thesis using assms(2) by (auto simp: row_of_def find_None_iff)
next
  case (Some x)
  then show ?thesis using same_row [OF assms(1) Some assms(2)] by simp
qed

lemma outbox_partition:
  assumes "keys_ok db"
  shows "mset (unpublished_submission_ids db (ec_identity_sha256 K) (ec_snapshot_sha256 K)) +
    mset (published_queued_submission_ids db (ec_identity_sha256 K) (ec_snapshot_sha256 K)) = mset (ours_queued K db)"
proof -
  let ?R = "\<lambda>i. case row_of db i of None \<Rightarrow> False
    | Some r \<Rightarrow> sr_identity r = ec_identity_sha256 K \<and> sr_snapshot_sha256 r = ec_snapshot_sha256 K \<and> sr_status r = QUEUED"
  have "filter (?R \<circ> sr_id) (db_submissions db) = filter (\<lambda>r. ours K r \<and> sr_status r = QUEUED) (db_submissions db)"
    using assms row_of_member by (intro filter_cong) (auto simp: keys_ok_def ours_def)
  then have "filter ?R (map sr_id (db_submissions db)) = ours_queued K db"
    by (simp add: filter_map ours_queued_def)
  moreover have "map ob_submission (filter (?R \<circ> ob_submission) (db_outbox db)) = filter ?R (map sr_id (db_submissions db))"
    using assms by (simp add: filter_map [symmetric] keys_ok_def)
  ultimately show ?thesis
    using filter_split [of ob_submission "\<lambda>e. ob_published e = None" "?R \<circ> ob_submission" "db_outbox db"]
    by (simp add: unpublished_submission_ids_def published_queued_submission_ids_def outbox_ids_def o_def)
qed

lemma unpublished_ids_iff:
  assumes "distinct_ids db" "r \<in> set (db_submissions db)" "ours K r" "sr_status r = QUEUED"
  shows "sr_id r \<in> set (unpublished_submission_ids db (ec_identity_sha256 K) (ec_snapshot_sha256 K)) \<longleftrightarrow> unpublished db (sr_id r)"
  using assms(3,4) row_of_member [OF assms(1,2)]
  by (auto simp: unpublished_submission_ids_def outbox_ids_def unpublished_def ours_def image_iff)

text \<open>In a reachable store a QUEUED submission has an attempt left.\<close>

lemma transition_queued: "transition m r r' \<Longrightarrow> sr_status r' = QUEUED \<Longrightarrow> sr_attempt r' < m"
  by (induction rule: transition.induct) (simp_all add: row_defs)

lemma queued_attempts:
  assumes "reachable K db" "0 < ec_max_attempts K"
  shows "\<forall>r \<in> set (db_submissions db). sr_status r = QUEUED \<longrightarrow> sr_attempt r < ec_max_attempts K"
  using assms(1)
proof (induction rule: reachable.induct)
  case start
  then show ?case by (simp add: empty_db_def)
next
  case (step db db')
  obtain moved new where m: "db_submissions db' = moved @ new" "\<forall>r \<in> set new. fresh_row r"
    "list_all2 (\<lambda>r r'. r' = r \<or> transition (ec_max_attempts K) r r') (db_submissions db) moved"
    using step_refines [OF step.hyps(2) reachable_distinct [OF step.hyps(1)]] by (auto simp: rows_refine_def)
  have "sr_attempt r' < ec_max_attempts K" if "r' \<in> set moved" "sr_status r' = QUEUED" for r'
  proof -
    from list_all2_member2 [OF m(3) that(1)] obtain r where "r \<in> set (db_submissions db)"
      "r' = r \<or> transition (ec_max_attempts K) r r'" by blast
    then show ?thesis using step.IH transition_queued that(2) by blast
  qed
  moreover have "sr_attempt r' < ec_max_attempts K" if "r' \<in> set new" for r'
    using m(2) that assms(2) by (simp add: fresh_row_def)
  ultimately show ?case unfolding m(1) by auto
qed

lemma mark_ids:
  "dispatch_ids Q K clock ids (db, q) = (r, db', q') \<Longrightarrow> db_submissions db' = db_submissions db"
proof (induction ids arbitrary: clock db q r)
  case (Cons i ids)
  show ?case
  proof (cases "qo_publish Q q (message_for K i)")
    case (Inr q1)
    obtain r1 s1 where "dispatch_ids Q K (clock \<circ> Suc) ids (mark_outbox_published db (clock 0) i, q1) = (r1, s1)"
      by (metis prod.exhaust)
    then show ?thesis using Cons.IH Cons.prems Inr by (cases s1) (auto)
  qed (use Cons.prems in simp)
qed simp

context worker_queue
begin

abbreviation routed :: "evaluation_contract \<Rightarrow> 'q \<Rightarrow> bool" where
  "routed K q \<equiv> invar q \<and> qo_routing Q q = ec_snapshot_sha256 K"

lemma publish_routed:
  assumes "routed K q"
  obtains q' where "qo_publish Q q (message_for K i) = Inr q'" "routed K q'" "held q' = add_mset (message_for K i) (held q)"
proof -
  obtain q' where q': "qo_publish Q q (message_for K i) = Inr q'"
    using queue.publish_accepts [of q "message_for K i"] assms by (auto simp: message_for_def)
  then show ?thesis using queue.publish_law [OF _ q'] assms that by simp
qed

lemma republish_all:
  "routed K q \<Longrightarrow> \<exists>q'. republish Q K ids q = (Inr (length ids), q') \<and> routed K q' \<and>
     held q' = held q + image_mset (message_for K) (mset ids)"
proof (induction ids arbitrary: q)
  case (Cons i ids)
  obtain q1 where q1: "qo_publish Q q (message_for K i) = Inr q1" "routed K q1" "held q1 = add_mset (message_for K i) (held q)"
    by (rule publish_routed [OF Cons.prems])
  from Cons.IH [OF q1(2)] obtain q' where "republish Q K ids q1 = (Inr (length ids), q')" "routed K q'"
    "held q' = held q1 + image_mset (message_for K) (mset ids)" by blast
  then show ?case using q1 by simp
qed simp

lemma dispatch_all:
  "routed K q \<Longrightarrow> \<exists>db' q'. dispatch_ids Q K clock ids (db, q) = (Inr (length ids), db', q') \<and> routed K q' \<and>
     held q' = held q + image_mset (message_for K) (mset ids)"
proof (induction ids arbitrary: clock db q)
  case (Cons i ids)
  obtain q1 where q1: "qo_publish Q q (message_for K i) = Inr q1" "routed K q1" "held q1 = add_mset (message_for K i) (held q)"
    by (rule publish_routed [OF Cons.prems])
  from Cons.IH [OF q1(2), of "clock \<circ> Suc" "mark_outbox_published db (clock 0) i"] obtain db' q' where
    "dispatch_ids Q K (clock \<circ> Suc) ids (mark_outbox_published db (clock 0) i, q1) = (Inr (length ids), db', q')" "routed K q'"
    "held q' = held q1 + image_mset (message_for K) (mset ids)" by blast
  then show ?case using q1 by simp
qed simp

lemma recover_all:
  assumes "reachable K db" "routed K q"
  shows "\<exists>db' q'. recover Q K now clock (db, q) = (Inr (length (ours_queued K db')), db', q') \<and> routed K q' \<and>
    held q' = held q + image_mset (message_for K) (mset (ours_queued K db')) \<and>
    db_submissions db' = db_submissions (snd (expire_queued_deadlines db now None))"
proof -
  let ?db = "snd (expire_queued_deadlines db now None)"
  let ?pub = "published_queued_submission_ids ?db (ec_identity_sha256 K) (ec_snapshot_sha256 K)"
  let ?un = "unpublished_submission_ids ?db (ec_identity_sha256 K) (ec_snapshot_sha256 K)"
  have "reachable K ?db"
    using deadlines_sink [of K db now None] assms(1) later_reachable by (auto simp: sinks_def)
  then have keys: "keys_ok ?db" using reachable_ok by (simp add: store_ok_def)
  obtain q1 where q1: "republish Q K ?pub q = (Inr (length ?pub), q1)" "routed K q1"
    "held q1 = held q + image_mset (message_for K) (mset ?pub)" using republish_all [OF assms(2)] by blast
  obtain db' q' where q': "dispatch_ids Q K clock ?un (?db, q1) = (Inr (length ?un), db', q')" "routed K q'"
    "held q' = held q1 + image_mset (message_for K) (mset ?un)" using dispatch_all [OF q1(2)] by blast
  have "ours_queued K db' = ours_queued K ?db" using mark_ids [OF q'(1)] by (simp add: ours_queued_def)
  moreover have split: "mset ?un + mset ?pub = mset (ours_queued K ?db)" by (rule outbox_partition [OF keys])
  moreover from this have "length ?pub + length ?un = length (ours_queued K ?db)"
    by (metis add.commute size_mset size_union)
  moreover have "recover Q K now clock (db, q) = (Inr (length ?pub + length ?un), db', q')"
    by (simp add: recover_def recover_published_queued_def dispatch_pending_def q1(1) q'(1))
  moreover have "held q' = held q + image_mset (message_for K) (mset ?un + mset ?pub)"
    by (simp add: q1(3) q'(3))
  ultimately show ?thesis using q'(2) mark_ids [OF q'(1)] by simp
qed

text \<open>After a dispatch, every QUEUED submission of the contract has a message in the queue.\<close>

lemma dispatch_reaches:
  assumes "safe K db q A" "dispatch_pending Q K clock (db, q) = (res, db', q')" "r \<in> set (db_submissions db)" "ours K r"
    "sr_status r = QUEUED"
  shows "message_for K (sr_id r) \<in># held q'"
proof -
  let ?ids = "unpublished_submission_ids db (ec_identity_sha256 K) (ec_snapshot_sha256 K)"
  have "held q' = held q + image_mset (message_for K) (mset ?ids)"
    using dispatch_all [where K = K and q = q and clock = clock and ids = ?ids and db = db] assms(1,2) by (auto simp: safe_def dispatch_pending_def)
  moreover have "message_for K (sr_id r) \<in># held q \<or> sr_id r \<in> set ?ids"
    using assms(1,3) unpublished_ids_iff [OF safe_ids [OF assms(1)] assms(3-5)] assms(4,5)
    by (auto simp: safe_def covered_def row_covered_def)
  ultimately show ?thesis by auto
qed

end
section \<open>The development deployment\<close>

definition memory_ops :: "memory_queue queue_ops" where
  "memory_ops = \<lparr>qo_routing = mq_routing, qo_visibility = mq_visibility, qo_publish = mq_publish,
     qo_receive = mq_receive, qo_ack = mq_ack, qo_nack = mq_nack\<rparr>"

lemma memory_ops_simps [simp]:
  "qo_routing memory_ops = mq_routing" "qo_visibility memory_ops = mq_visibility" "qo_publish memory_ops = mq_publish"
  "qo_receive memory_ops = mq_receive" "qo_ack memory_ops = mq_ack" "qo_nack memory_ops = mq_nack"
  by (simp_all add: memory_ops_def)

interpretation memory_workers: worker_queue memory_ops mq_invar mq_inflights mq_held
  by (rule worker_queue.intro) (simp add: memory.job_queue_axioms)

text \<open>Start-up: a new queue for the contract, its dispatcher, and recovery from the store.\<close>

definition start_system :: "evaluation_contract \<Rightarrow> rat \<Rightarrow> database \<Rightarrow> int \<Rightarrow> (nat \<Rightarrow> int) \<Rightarrow> memory_queue system result" where
  "start_system K visibility db now clock =
     rbind (InMemoryJobQueue (ec_snapshot_sha256 K) visibility) (\<lambda>q.
     rbind (OutboxDispatcher memory_ops K q) (\<lambda>_.
       (case recover memory_ops K now clock (db, q) of
          (r, db', q') \<Rightarrow> rbind r (\<lambda>_. Inr \<lparr>sy_db = db', sy_queue = q', sy_active = []\<rparr>))))"

lemma new_queue_routed:
  "InMemoryJobQueue key visibility = Inr q \<Longrightarrow> mq_invar q \<and> mq_routing q = key \<and> mq_held q = {#}"
  by (auto simp: InMemoryJobQueue_def rbind_Inr_iff mq_invar_def mq_held_def)

text \<open>The submissions of a contract that are QUEUED and whose deadline is not past, and what recovery makes of a row: it fails
  the QUEUED submissions of every contract that are past their deadline.\<close>

definition in_time :: "evaluation_contract \<Rightarrow> int \<Rightarrow> database \<Rightarrow> pystr list" where
  "in_time K now db = map sr_id (filter (\<lambda>r. ours K r \<and> sr_status r = QUEUED \<and> now < sr_deadline r) (db_submissions db))"

definition recovered_row :: "int \<Rightarrow> submission_row \<Rightarrow> submission_row" where
  "recovered_row now r =
     (if sr_status r = QUEUED \<and> sr_deadline r \<le> now
      then r\<lparr>sr_status := FAILED, sr_completed := Some now, sr_failure_code := Some ''JOB_DEADLINE'', sr_failure_retryable := Some False\<rparr>
      else r)"

lemma expired_rows: "db_submissions (snd (expire_queued_deadlines db now None)) = map (recovered_row now) (db_submissions db)"
  by (simp add: expire_queued_deadlines_def update_rows_def for_identity_def recovered_row_def job_deadline_failure_def Let_def)

lemma recovered_ids:
  assumes "db_submissions db' = map (recovered_row now) (db_submissions db)"
  shows "ours_queued K db' = in_time K now db"
proof -
  have "map sr_id (filter (\<lambda>r. ours K r \<and> sr_status r = QUEUED) (map (recovered_row now) rs)) =
      map sr_id (filter (\<lambda>r. ours K r \<and> sr_status r = QUEUED \<and> now < sr_deadline r) rs)" for rs
    by (induction rs) (auto simp: recovered_row_def ours_def)
  then show ?thesis
    by (simp add: ours_queued_def in_time_def assms)
qed

text \<open>C14. Recovery at start-up rebuilds the queue exactly.  From any state of the store that its operations can reach and a new
  queue, \<open>recover\<close> succeeds; the queue then holds one message for each submission of the contract that was QUEUED before and is not
  past its deadline, and nothing else, and their number is returned; and the rows of the store are those before, except that the
  QUEUED submissions past their deadline have failed with \<open>JOB_DEADLINE\<close>.\<close>
theorem recover_restores_queue:
  assumes "reachable K db" "InMemoryJobQueue (ec_snapshot_sha256 K) visibility = Inr q"
  shows "\<exists>db' q'. recover memory_ops K now clock (db, q) = (Inr (length (in_time K now db)), db', q') \<and>
    mq_held q' = mset (map (message_for K) (in_time K now db)) \<and>
    db_submissions db' = map (recovered_row now) (db_submissions db)"
proof -
  obtain db' q' where r: "recover memory_ops K now clock (db, q) = (Inr (length (ours_queued K db')), db', q')"
    "mq_held q' = mset (map (message_for K) (ours_queued K db'))"
    "db_submissions db' = map (recovered_row now) (db_submissions db)"
    using memory_workers.recover_all [OF assms(1), of q now clock] new_queue_routed [OF assms(2)]
    by (auto simp: memory_ops_simps expired_rows)
  from r(1,2) have "recover memory_ops K now clock (db, q) = (Inr (length (in_time K now db)), db', q') \<and>
      mq_held q' = mset (map (message_for K) (in_time K now db))"
    unfolding recovered_ids [OF r(3)] by simp
  with r(3) show ?thesis by blast
qed

lemma demo_recover:
  "recover memory_ops demo_contract 1 (\<lambda>_. 2) (demo_queued, demo_queue) =
     (Inr 1, mark_outbox_published demo_queued 2 (u ''a''), demo_queue\<lparr>mq_messages := [message_for demo_contract (u ''a'')]\<rparr>)"
  by (simp add: recover_def recover_published_queued_def dispatch_pending_def expire_queued_deadlines_def update_rows_def
      for_identity_def published_queued_submission_ids_def unpublished_submission_ids_def outbox_ids_def row_of_def Let_def
      demo_store_defs demo_queue_def new_row_def memory_ops_simps mq_publish_def message_for_def seconds_def)

lemma recover_restores_queue_witness:
  "\<exists>db' q'. recover memory_ops demo_contract 1 (\<lambda>_. 2) (demo_queued, demo_queue) = (Inr 1, db', q') \<and>
    mq_held q' = {#message_for demo_contract (u ''a'')#} \<and> map sr_status (db_submissions db') = [QUEUED]"
proof -
  have "in_time demo_contract 1 demo_queued = [u ''a'']"
    by (simp add: in_time_def demo_store_defs new_row_def ours_def seconds_def)
  then show ?thesis
    using recover_restores_queue [OF demo_queued_reachable, of 45 demo_queue 1 "\<lambda>_. 2"] demo_queue_new
    by (auto simp: demo_store_defs new_row_def recovered_row_def seconds_def)
qed

lemma start_safe:
  assumes "start_system K visibility db now clock = Inr S" "reachable K db" "0 < ec_max_attempts K"
  shows "memory_workers.system_safe K S"
proof -
  obtain q where q: "InMemoryJobQueue (ec_snapshot_sha256 K) visibility = Inr q"
    using assms(1) by (auto simp: start_system_def rbind_Inr_iff)
  obtain db' q' where r: "recover memory_ops K now clock (db, q) = (Inr (length (ours_queued K db')), db', q')"
    "mq_invar q'" "mq_routing q' = ec_snapshot_sha256 K" "mq_held q' = mset (map (message_for K) (ours_queued K db'))"
    using memory_workers.recover_all [OF assms(2), of q now clock] new_queue_routed [OF q]
    by (auto simp: memory_ops_simps)
  have S: "S = \<lparr>sy_db = db', sy_queue = q', sy_active = []\<rparr>"
    using assms(1) q r(1) by (simp add: start_system_def rbind_Inr_iff)
  have reach: "reachable K db'"
    using recover_reachable [OF r(1) assms(2)] .
  have "row_covered K (mq_held q') db' [] x" if x: "x \<in> set (db_submissions db')" for x
    using queued_attempts [OF reach assms(3)] x r(4) by (auto simp: row_covered_def ours_queued_def)
  then show ?thesis
    using r reach S by (simp add: memory_workers.system_safe_def memory_workers.safe_def covered_def memory_ops_simps)
qed

text \<open>C1. No accepted submission is stranded.  Start the system from any state the store can reach and
  let registrations, requests, sweeps, dispatches, worker polls, evaluations and crashes of workers
  happen in any order: every QUEUED submission of the contract is still in the outbox, to be
  published, or the queue holds a message for it, to be delivered.\<close>
theorem no_submission_stranded:
  assumes "start_system K visibility db now clock = Inr S0" "reachable K db" "0 < ec_max_attempts K"
    "(system_step memory_ops K Ws)\<^sup>*\<^sup>* S0 S"
    "r \<in> set (db_submissions (sy_db S))" "ours K r" "sr_status r = QUEUED"
  shows "message_for K (sr_id r) \<in># mq_held (sy_queue S) \<or>
    sr_id r \<in> set (unpublished_submission_ids (sy_db S) (ec_identity_sha256 K) (ec_snapshot_sha256 K))"
proof -
  have safe: "memory_workers.safe K (sy_db S) (sy_queue S) (sy_active S)"
    using memory_workers.steps_safe [OF assms(4) start_safe [OF assms(1-3)] assms(3)]
    by (simp add: memory_workers.system_safe_def)
  then have "row_covered K (mq_held (sy_queue S)) (sy_db S) (sy_active S) r"
    using assms(5) by (simp add: memory_workers.safe_def covered_def)
  then show ?thesis
    using unpublished_ids_iff [OF memory_workers.safe_ids [OF safe] assms(5-7)] assms(6,7) by (auto simp: row_covered_def)
qed

definition demo_started :: "memory_queue system" where
  "demo_started = \<lparr>sy_db = mark_outbox_published demo_queued 2 (u ''a''),
     sy_queue = demo_queue\<lparr>mq_messages := [message_for demo_contract (u ''a'')]\<rparr>, sy_active = []\<rparr>"

lemma demo_start: "start_system demo_contract 45 demo_queued 1 (\<lambda>_. 2) = Inr demo_started"
  using demo_recover demo_queue_new
  by (simp add: start_system_def demo_contract_def OutboxDispatcher_def memory_ops_simps demo_queue_def demo_started_def)

lemma no_submission_stranded_witness:
  "message_for demo_contract (u ''a'') \<in># mq_held (demo_queue\<lparr>mq_messages := [message_for demo_contract (u ''a'')]\<rparr>) \<or>
   u ''a'' \<in> set (unpublished_submission_ids (sy_db demo_started) (u ''id'') (u ''snap''))"
proof -
  have "(system_step memory_ops demo_contract ({} :: (memory_queue, unit) worker set))\<^sup>*\<^sup>* demo_started demo_started" by simp
  from no_submission_stranded [OF demo_start demo_queued_reachable _ this, of demo_row] show ?thesis
    by (simp add: demo_started_def demo_store_defs ours_def new_row_def)
qed

end
