(* ===== verification/Worker_Outcomes.thy ===== *)
theory Worker_Outcomes
  imports Worker_System
begin

text \<open>
  What an evaluation leaves behind: a claim on a submission created under the worker's contract is not
  left RUNNING by an evaluation that returns, whatever the provider or the dataset did, as long as the
  clock does not go back.
\<close>

section \<open>Claims that are no longer held\<close>

definition released :: "claimed_submission \<Rightarrow> database \<Rightarrow> bool" where
  "released c db \<longleftrightarrow> (\<forall>r \<in> set (db_submissions db). \<not> held_by c r)"

text \<open>The rows a worker claims carry the failure contract of its evaluation contract.\<close>

definition versioned :: "evaluation_contract \<Rightarrow> claimed_submission \<Rightarrow> database \<Rightarrow> bool" where
  "versioned K c db \<longleftrightarrow>
     (\<forall>r \<in> set (db_submissions db). held_by c r \<longrightarrow> sr_failure_version r = Some (ec_failure_version K))"

text \<open>A clock whose next reading is never earlier.\<close>

definition steady :: "'w effects \<Rightarrow> bool" where
  "steady E \<longleftrightarrow> (\<forall>w. fst (ef_utc_now E w) \<le> fst (ef_utc_now E (snd (ef_utc_now E w))))"

lemma released_sinks: "sinks K db db' \<Longrightarrow> released c db \<Longrightarrow> released c db'"
  unfolding released_def
proof
  fix x
  assume sink: "sinks K db db'" and free: "\<forall>r \<in> set (db_submissions db). \<not> held_by c r" and x: "x \<in> set (db_submissions db')"
  have "list_all2 sunk (db_submissions db) (db_submissions db')" using sink by (simp add: sinks_def)
  from list_all2_member2 [OF this x] obtain r where "r \<in> set (db_submissions db)" "sunk r x" by blast
  then show "\<not> held_by c x" using free by (auto simp: sunk_def held_by_def terminal_def)
qed

lemma released_update:
  "(\<And>r. sr_status (f r) \<noteq> RUNNING) \<Longrightarrow> released c (update_rows (held_by c) f db)"
  by (auto simp: released_def update_rows_def held_by_def)

lemma released_none: "find (held_by c) (db_submissions db) = None \<Longrightarrow> released c db"
  by (simp add: released_def find_None_iff)

lemma held_once:
  assumes "distinct_ids db" "find (held_by c) (db_submissions db) = Some r"
  shows "rowcount (held_by c) db = 1"
proof -
  have "distinct (db_submissions db)" using assms(1) by (simp add: distinct_ids_def distinct_map)
  moreover have "set (filter (held_by c) (db_submissions db)) = {r}"
    using same_held [OF assms] find_held [OF assms(2)] by auto
  ultimately show ?thesis unfolding rowcount_def by (metis distinct_card distinct_filter card_1_singleton_iff is_singletonI is_singleton_altdef)
qed

lemma sweep_releases:
  assumes "distinct_ids db" "find (held_by c) (db_submissions db) = Some r" "due (sr_lease_expires r) now"
  shows "released c (snd (expire_leases db now None))"
  using same_held [OF assms(1,2)] assms(3)
  by (auto simp: released_def expire_leases_def update_rows_def Let_def for_identity_def held_by_def)

lemma due_later: "due t now \<Longrightarrow> now \<le> now' \<Longrightarrow> due t now'"
  by (auto simp: due_def split: option.splits)

lemma failure_releases:
  assumes "distinct_ids db" "versioned K c db" "complete_failure db now c (ec_failure_version K) fcode retryable = (b, db')"
  shows "if b then released c db' else db' = db \<and> (\<forall>now' \<ge> now. released c (snd (expire_leases db now' None)))"
proof (cases "find (held_by c) (db_submissions db)")
  case None
  then show ?thesis using assms(3) released_none [OF None] released_sinks [OF leases_sink]
    by (auto simp: complete_failure_def)
next
  case (Some r)
  have "sr_failure_version r = Some (ec_failure_version K)"
    using assms(2) find_held [OF Some] by (simp add: versioned_def)
  then show ?thesis
    using assms(3) Some held_once [OF assms(1) Some] sweep_releases [OF assms(1) Some] due_later
    by (auto simp: complete_failure_def Let_def released_update release_def split: if_splits)
qed

lemma rejected_releases:
  assumes "distinct_ids db" "complete_rejected db now c = (b, db')"
  shows "if b then released c db' else db' = db \<and> (\<forall>now' \<ge> now. released c (snd (expire_leases db now' None)))"
proof (cases "find (held_by c) (db_submissions db)")
  case None
  then show ?thesis using assms(2) released_none [OF None] released_sinks [OF leases_sink]
    by (auto simp: complete_rejected_def)
next
  case (Some r)
  then show ?thesis
    using assms(2) held_once [OF assms(1) Some] sweep_releases [OF assms(1) Some] due_later
    by (auto simp: complete_rejected_def released_update release_def job_deadline_failure_def split: if_splits)
qed

lemma retry_releases: "retry_submission db now c m = (True, db') \<Longrightarrow> released c db'"
  by (auto simp: retry_submission_def released_update release_def split: option.splits if_splits)

lemma success_releases: "complete_success db now c report = Inr (True, db') \<Longrightarrow> released c db'"
  by (auto simp: complete_success_def rbind_Inr_iff Let_def released_update release_def split: if_splits)

section \<open>Evaluations\<close>

abbreviation ready :: "('q, 'w) worker \<Rightarrow> claimed_submission \<Rightarrow> ('q, 'w) worker_state \<Rightarrow> bool" where
  "ready W c s \<equiv> distinct_ids (ws_db s) \<and> versioned (wk_contract W) c (ws_db s)"

lemma timed_result:
  "timed W f s = (Inr x, s') \<longleftrightarrow>
     f (ws_db s) (fst (ef_utc_now (wk_effects W) (ws_world s))) = (x, ws_db s') \<and>
     s' = s\<lparr>ws_world := snd (ef_utc_now (wk_effects W) (ws_world s)), ws_db := ws_db s'\<rparr>"
  by (auto simp: timed_def run_bind_def utc_now_def on_db_def split: prod.splits)

lemma swept_after:
  assumes "steady (wk_effects W)" "timed W f s = (Inr x, s1)" "sweep_leases W s1 = (Inr n, s2)"
    "\<And>db now. f db now = (x, ws_db s1) \<Longrightarrow> db = ws_db s \<Longrightarrow> \<forall>now' \<ge> now. released c (snd (expire_leases (ws_db s1) now' None))"
  shows "released c (ws_db s2)"
proof -
  let ?E = "wk_effects W"
  have one: "f (ws_db s) (fst (ef_utc_now ?E (ws_world s))) = (x, ws_db s1)" "ws_world s1 = snd (ef_utc_now ?E (ws_world s))"
    using assms(2) unfolding timed_result by (auto, metis worker_state.select_convs(3) worker_state.surjective
        worker_state.update_convs(1,3))
  have two: "ws_db s2 = snd (expire_leases (ws_db s1) (fst (ef_utc_now ?E (ws_world s1))) None)"
    using assms(3) unfolding sweep_leases_def timed_result by (metis snd_conv)
  have "fst (ef_utc_now ?E (ws_world s)) \<le> fst (ef_utc_now ?E (ws_world s1))"
    using assms(1) one(2) by (simp add: steady_def)
  then show ?thesis using assms(4) [OF one(1)] two by simp
qed

lemma fail_claim_releases:
  assumes "steady (wk_effects W)" "ready W c s" "fail_claim W c fcode retryable s = (Inr b, s')"
  shows "released c (ws_db s')"
proof -
  let ?f = "\<lambda>db now. complete_failure db now c (ec_failure_version (wk_contract W)) fcode retryable"
  obtain b1 s1 where t: "timed W ?f s = (Inr b1, s1)" by (rule returnsE [OF returns_timed])
  then obtain now where now: "?f (ws_db s) now = (b1, ws_db s1)" unfolding timed_result by blast
  show ?thesis
  proof (cases b1)
    case True
    then show ?thesis
      using assms(3) failure_releases [OF _ _ now] assms(2) by (simp add: fail_claim_def run_bind_def t run_pure_def)
  next
    case False
    obtain n s2 where w: "sweep_leases W s1 = (Inr n, s2)" by (rule returnsE [OF returns_sweep_leases])
    have "released c (ws_db s2)"
    proof (rule swept_after [OF assms(1) t w])
      fix db now
      assume "?f db now = (b1, ws_db s1)" "db = ws_db s"
      then show "\<forall>now' \<ge> now. released c (snd (expire_leases (ws_db s1) now' None))"
        using failure_releases [of db "wk_contract W" c now fcode retryable b1 "ws_db s1"] False assms(2) by simp
    qed
    then show ?thesis using assms(3) False by (simp add: fail_claim_def run_bind_def t w run_pure_def)
  qed
qed
lemma ack_delivery_db: "ack_delivery W d s = (r, s') \<Longrightarrow> ws_db s' = ws_db s"
  by (auto simp: ack_delivery_def on_queue_def split: prod.splits)

lemma handle_failure_releases:
  assumes "steady (wk_effects W)" "ready W c s" "handle_failure W d c fcode retry_allowed s = (Inr x, s')"
  shows "released c (ws_db s')"
proof -
  obtain b s1 where t: "try_retry W c fcode retry_allowed s = (Inr b, s1)" by (rule returnsE [OF returns_try_retry])
  show ?thesis
  proof (cases b)
    case True
    then obtain now where "retry_submission (ws_db s) now c (ec_max_attempts (wk_contract W)) = (True, ws_db s1)"
      using t by (auto simp: try_retry_def timed_result split: if_splits)
    then have "released c (ws_db s1)" by (rule retry_releases)
    moreover have "ws_db s' = ws_db s1"
      using assms(3) True by (auto simp: handle_failure_def run_bind_def t on_queue_def run_pure_def split: prod.splits)
    ultimately show ?thesis by simp
  next
    case False
    have "ws_db s1 = ws_db s"
      using t False retry_fails by (auto simp: try_retry_def timed_result run_pure_def split: if_splits)
    then have ready1: "ready W c s1" using assms(2) by simp
    obtain b2 s2 where f: "fail_claim W c fcode False s1 = (Inr b2, s2)" by (rule returnsE [OF returns_fail_claim])
    obtain b3 s3 where a: "ack_delivery W d s2 = (Inr b3, s3)" by (rule returnsE [OF returns_ack_delivery])
    have "s' = s3" using assms(3) False by (simp add: handle_failure_def run_bind_def t f a run_pure_def)
    then show ?thesis using fail_claim_releases [OF assms(1) ready1 f] ack_delivery_db [OF a] by simp
  qed
qed

lemma failed_releases:
  assumes "steady (wk_effects W)" "ready W c s" "failed W d c fcode retry_allowed s = (Inr x, s')"
  shows "released c (ws_db s')"
  using assms(3) handle_failure_releases [OF assms(1,2)] by (auto simp: failed_def run_bind_eq)

lemma finish_success_releases:
  assumes "steady (wk_effects W)" "ready W c s" "finish_success W d c report s = (Inr x, s')"
  shows "released c (ws_db s')"
proof -
  obtain now s1 where t: "utc_now W s = (Inr now, s1)" by (rule returnsE [OF returns_utc])
  have db1: "ws_db s1 = ws_db s" using t by (auto simp: utc_now_def split: prod.splits)
  obtain b db where fin: "complete_success (ws_db s) now c report = Inr (b, db)"
    using assms(3) by (cases "complete_success (ws_db s) now c report") (auto simp: finish_success_def run_bind_def t db1)
  let ?s2 = "s1\<lparr>ws_db := db\<rparr>"
  obtain b3 s3 where a: "ack_delivery W d ?s2 = (Inr b3, s3)" by (rule returnsE [OF returns_ack_delivery])
  show ?thesis
  proof (cases b)
    case True
    then have "s' = s3" using assms(3) by (simp add: finish_success_def run_bind_def t db1 fin a run_pure_def)
    then show ?thesis using success_releases fin True ack_delivery_db [OF a] by auto
  next
    case False
    then have "db = ws_db s" using success_sinks(2) [OF fin] by simp
    then have "ready W c ?s2" using assms(2) by simp
    moreover obtain y where "handle_failure W d c ''JOB_DEADLINE'' True ?s2 = (Inr y, s')"
      using assms(3) False by (auto simp: finish_success_def run_bind_def t db1 fin run_pure_def split: prod.splits sum.splits)
    ultimately show ?thesis using handle_failure_releases [OF assms(1)] by blast
  qed
qed

lemma reject_releases:
  assumes "steady (wk_effects W)" "ready W c s" "timed W (\<lambda>db now. complete_rejected db now c) s = (Inr b, s1)"
    "(if b then run_pure (Inr 0) else sweep_leases W) s1 = (Inr n, s2)"
  shows "released c (ws_db s2)"
proof (cases b)
  case True
  obtain now where "complete_rejected (ws_db s) now c = (b, ws_db s1)" using assms(3) unfolding timed_result by blast
  then show ?thesis using rejected_releases [of "ws_db s"] assms(2,4) True by (auto simp: run_pure_def)
next
  case False
  then have w: "sweep_leases W s1 = (Inr n, s2)" using assms(4) by simp
  show ?thesis
  proof (rule swept_after [OF assms(1,3) w])
    fix db now
    assume "complete_rejected db now c = (b, ws_db s1)" "db = ws_db s"
    then show "\<forall>now' \<ge> now. released c (snd (expire_leases (ws_db s1) now' None))"
      using rejected_releases [of db now c b "ws_db s1"] False assms(2) by simp
  qed
qed

lemma conclude_releases:
  assumes "steady (wk_effects W)" "ready W c s" "conclude W d c outcome s = (Inr x, s')"
  shows "released c (ws_db s')"
proof (cases outcome)
  case (Inl e)
  then obtain v where v: "verdict_of W e = Some v" using assms(3) by (auto simp: conclude_def split: option.splits)
  show ?thesis
  proof (cases v)
    case Reject
    let ?m = "\<lambda>completed. if completed then run_pure (Inr 0) else sweep_leases W"
    have m: "returns (?m b)" for b by (simp add: returns_pure returns_sweep_leases)
    obtain b s1 where t: "timed W (\<lambda>db now. complete_rejected db now c) s = (Inr b, s1)" by (rule returnsE [OF returns_timed])
    obtain n s2 where n: "?m b s1 = (Inr n, s2)" by (rule returnsE [OF m])
    obtain b3 s3 where a: "ack_delivery W d s2 = (Inr b3, s3)" by (rule returnsE [OF returns_ack_delivery])
    have "s' = s3" using assms(3) by (simp add: conclude_def Inl v Reject run_bind_def t n a run_pure_def)
    then show ?thesis using reject_releases [OF assms(1,2) t n] ack_delivery_db [OF a] by simp
  next
    case (Fail fcode retry_allowed)
    then show ?thesis using assms(3) failed_releases [OF assms(1,2)] by (simp add: conclude_def Inl v)
  qed
next
  case (Inr aggregate)
  obtain now s1 where t: "utc_now W s = (Inr now, s1)" by (rule returnsE [OF returns_utc])
  have ready1: "ready W c s1" using t assms(2) by (auto simp: utc_now_def split: prod.splits)
  show ?thesis
    using assms(1,3) failed_releases [OF assms(1) ready1] finish_success_releases [OF assms(1) ready1]
    by (auto simp: conclude_def Inr run_bind_def t split: if_splits sum.splits)
qed

text \<open>A submission keeps the failure contract it was created under for as long as it is not over.\<close>

lemma created_versioned:
  assumes "reachable K db0" and "create_submission sha db0 now fresh user key prompt K fp = Inr ((row, False), db1)"
    and "later K db1 db" and "cl_id c = sr_id row"
  shows "versioned K c db"
  unfolding versioned_def
proof (intro ballI impI)
  fix r assume r: "r \<in> set (db_submissions db)" "held_by c r"
  let ?Q = "\<lambda>x. sr_failure_version x = Some (ec_failure_version K) \<or> terminal x"
  have "store_step K db0 db1"
    using assms(2) by (rule store_step.create) (simp add: same_limits_def)
  with assms(1) have reach: "reachable K db1"
    by (rule reachable.step)
  have row: "row \<in> set (db_submissions db1)" "?Q row"
    using assms(2) by (auto simp: create_submission_def rbind_Inr_iff new_row_def Let_def split: option.splits if_splits)
  have keep: "?Q y" if "?Q x" "transition (ec_max_attempts K) x y" for x y
    using that(2,1) by (induction rule: transition.induct) (auto simp: row_defs terminal_def)
  obtain r' where r': "r' \<in> set (db_submissions db)" "request_of r' = request_of row" "?Q r'"
    using later_row [OF assms(3) reach row(1), of ?Q] row(2) keep by blast
  have "sr_id r' = sr_id r"
    using r'(2) r(2) assms(4) by (simp add: request_of_def held_by_def)
  then have "r' = r"
    using same_id [OF reachable_distinct [OF later_reachable [OF assms(3) reach]] r'(1) r(1)] by simp
  with r'(3) r(2) show "sr_failure_version r = Some (ec_failure_version K)"
    by (auto simp: held_by_def terminal_def)
qed

text \<open>C13. An evaluation that returns has settled its claim.  For a submission that was created under the worker's contract, in any
  later state of the store, and for a worker whose clock does not go back between two readings: afterwards the submission is no
  longer RUNNING under the claim, be it succeeded, failed, rejected or handed back, for every outcome of the run.  (When the claim
  expired meanwhile, the sweep that follows ends it.)\<close>
theorem evaluation_settles_claim:
  assumes "steady (wk_effects W)" "reachable (wk_contract W) db0"
    "create_submission sha db0 now fresh user key prompt (wk_contract W) fp = Inr ((row, False), db1)"
    "later (wk_contract W) db1 (ws_db s)" "cl_id c = sr_id row"
    "evaluate_claim W d c s = (Inr x, s')" "r \<in> set (db_submissions (ws_db s'))"
  shows "\<not> held_by c r"
proof -
  have "reachable (wk_contract W) db1"
    by (rule reachable.step [OF assms(2) store_step.create [OF assms(3)]]) (simp add: same_limits_def)
  then have ready: "ready W c s"
    using reachable_distinct [OF later_reachable [OF assms(4)]] created_versioned [OF assms(2-5)] by simp
  obtain now1 s1 where t: "utc_now W s = (Inr now1, s1)" by (rule returnsE [OF returns_utc])
  have ready1: "ready W c s1" using t ready by (auto simp: utc_now_def split: prod.splits)
  obtain outcome s2 where run: "run_claim W c s1 = (outcome, s2)" by fastforce
  have ready2: "ready W c s2" using run_claim_core [OF run] ready1 by simp
  have "released c (ws_db s')"
    using assms(6) failed_releases [OF assms(1) ready] failed_releases [OF assms(1) ready1] conclude_releases [OF assms(1) ready2]
    by (auto simp: evaluate_claim_def run_bind_def t run split: if_splits)
  then show ?thesis using assms(7) by (simp add: released_def)
qed

definition late_worker :: "(memory_queue, unit) worker" where
  "late_worker = \<lparr>wk_runtime = demo_runtime, wk_platform = demo_platform,
     wk_effects = demo_effects\<lparr>ef_utc_now := (\<lambda>w. (100000000, w))\<rparr>, wk_token = (\<lambda>w. (u ''t'', w)), wk_busy = None,
     wk_confirmed = (\<lambda>_. True),
     wk_queue = \<lparr>qo_routing = mq_routing, qo_visibility = mq_visibility, qo_publish = mq_publish,
       qo_receive = mq_receive, qo_ack = mq_ack, qo_nack = mq_nack\<rparr>,
     wk_contract = demo_contract, wk_artifacts = demo_artifacts, wk_cached = None, wk_lease_seconds = 30, wk_confirm = False\<rparr>"

definition late_state :: "(memory_queue, unit) worker_state" where
  "late_state = \<lparr>ws_db = demo_running, ws_queue = demo_queue, ws_world = (), ws_next_sweep = 0, ws_next_receive = 0\<rparr>"

definition demo_delivery :: job_delivery where
  "demo_delivery = \<lparr>jd_id = u ''1'', jd_message = message_for demo_contract (u ''a''), jd_receipt = u ''1''\<rparr>"

lemma late_evaluation:
  "\<exists>x s'. evaluate_claim late_worker demo_delivery demo_claim late_state = (Inr x, s')"
proof -
  have "returns (failed late_worker demo_delivery demo_claim ''JOB_DEADLINE'' True)"
    unfolding failed_def by (intro returns_bind returns_handle_failure returns_pure)
  then show ?thesis
    by (simp add: returns_def evaluate_claim_def run_bind_def utc_now_def late_worker_def demo_claim_def demo_contract_def
        claim_deadline_expired_def)
qed

lemma evaluation_settles_claim_witness:
  "\<exists>x s'. evaluate_claim late_worker demo_delivery demo_claim late_state = (Inr x, s') \<and>
     find (held_by demo_claim) (db_submissions (ws_db s')) = None"
proof -
  obtain x s' where run: "evaluate_claim late_worker demo_delivery demo_claim late_state = (Inr x, s')"
    using late_evaluation by blast
  have worker: "steady (wk_effects late_worker)" "wk_contract late_worker = demo_contract" "ws_db late_state = demo_running"
    by (simp_all add: steady_def late_worker_def late_state_def)
  have start: "reachable demo_contract (empty_db\<lparr>db_users := [demo_user]\<rparr>)"
    by (rule reachable.step [OF reachable.start store_step.register [OF demo_register]])
  have "store_step demo_contract demo_queued demo_running"
    using demo_claimed by (intro store_step.claim) (simp add: demo_contract_def)
  then have "later demo_contract demo_queued demo_running"
    by (rule later_step [OF later_refl])
  moreover have "cl_id demo_claim = sr_id demo_row"
    by (simp add: demo_store_defs new_row_def)
  ultimately show ?thesis
    using evaluation_settles_claim [OF worker(1) _ _ _ _ run] start demo_create run
    unfolding worker(2,3) by (auto simp: find_None_iff)
qed

end
