(* ===== verification/Sample_Cache.thy ===== *)
theory Sample_Cache
  imports Runner
begin

text \<open>
  The bounded cache of loaded samples of \<open>src/linguistic_oj/sample_cache.py\<close>.  Every use verifies the
  artifacts and the bytes of the dataset first; entries are kept least recently used first.
\<close>

section \<open>The size of an entry\<close>

text \<open>
  The length of \<open>json.dumps\<close> with its default separators and \<open>ensure_ascii\<close>: a character beyond the
  basic plane is a pair of escapes.  The text of a float is the argument \<open>float_repr\<close>.
\<close>

definition ascii_char_length :: "nat \<Rightarrow> nat" where
  "ascii_char_length c =
     (if c \<in> {34, 92, 10, 13, 9, 8, 12} then 2 else if 32 \<le> c \<and> c \<le> 126 then 1 else if c < 65536 then 6 else 12)"

definition ascii_string_length :: "pystr \<Rightarrow> nat" where
  "ascii_string_length s = 2 + sum_list (map ascii_char_length s)"

fun ascii_length :: "(pyfloat \<Rightarrow> pystr) \<Rightarrow> json \<Rightarrow> nat" where
  "ascii_length float_repr JNull = 4"
| "ascii_length float_repr (JBool b) = (if b then 4 else 5)"
| "ascii_length float_repr (JInt i) = length (int_text i)"
| "ascii_length float_repr (JFloat x) = length (float_repr x)"
| "ascii_length float_repr (JStr s) = ascii_string_length s"
| "ascii_length float_repr (JArr js) = 2 + 2 * (length js - 1) + sum_list (map (ascii_length float_repr) js)"
| "ascii_length float_repr (JObj ms) =
     2 + 2 * (length ms - 1) + sum_list (map (\<lambda>(k, j). ascii_string_length k + 2 + ascii_length float_repr j) ms)"

definition sample_dump :: "dataset_sample \<Rightarrow> json" where
  "sample_dump s =
     JObj [(u ''id'', JStr (sid s)), (u ''language'', JStr (language s)), (u ''treebank'', JStr (treebank s)),
       (u ''text'', JStr (sample_text s)), (u ''answers'', JObj (answers s)),
       (u ''tasks_available'', JArr (map JStr (tasks_available s)))]"

definition encoded_size :: "(pyfloat \<Rightarrow> pystr) \<Rightarrow> dataset_sample list \<Rightarrow> nat" where
  "encoded_size float_repr samples = sum_list (map (ascii_length float_repr \<circ> sample_dump) samples)"

section \<open>The cache\<close>

type_synonym cache_key = "pystr \<times> pystr list"

record selection_cache =
  vc_max_entries :: nat
  vc_max_bytes :: nat
  vc_entries :: "(cache_key \<times> dataset_sample list \<times> nat) list"
  vc_bytes :: int

definition VerifiedSelectionCache :: "int \<Rightarrow> int \<Rightarrow> selection_cache result" where
  "VerifiedSelectionCache max_entries max_encoded_bytes =
     rbind (ensure (0 < max_entries \<and> 0 < max_encoded_bytes) (Exc ValueError ''cache bounds must be positive integers''))
       (\<lambda>_. Inr \<lparr>vc_max_entries = nat max_entries, vc_max_bytes = nat max_encoded_bytes, vc_entries = [], vc_bytes = 0\<rparr>)"

text \<open>Entries are dropped from the front until the new one fits.\<close>

fun evict :: "nat \<Rightarrow> nat \<Rightarrow> nat \<Rightarrow> (cache_key \<times> dataset_sample list \<times> nat) list \<Rightarrow> int
    \<Rightarrow> (cache_key \<times> dataset_sample list \<times> nat) list \<times> int" where
  "evict max_entries max_bytes need [] bytes = ([], bytes)"
| "evict max_entries max_bytes need (e # es) bytes =
     (if max_entries \<le> length (e # es) \<or> int max_bytes < bytes + int need
      then evict max_entries max_bytes need es (bytes - int (snd (snd e)))
      else (e # es, bytes))"

definition touch :: "cache_key \<Rightarrow> selection_cache \<Rightarrow> selection_cache" where
  "touch k c = c\<lparr>vc_entries := filter (\<lambda>e. fst e \<noteq> k) (vc_entries c) @ filter (\<lambda>e. fst e = k) (vc_entries c)\<rparr>"

definition store_entry :: "cache_key \<Rightarrow> dataset_sample list \<Rightarrow> nat \<Rightarrow> selection_cache \<Rightarrow> selection_cache" where
  "store_entry k samples need c =
     (if need \<le> vc_max_bytes c
      then (case evict (vc_max_entries c) (vc_max_bytes c) need (vc_entries c) (vc_bytes c) of
              (es, bytes) \<Rightarrow> c\<lparr>vc_entries := es @ [(k, samples, need)], vc_bytes := bytes + int need\<rparr>)
      else c)"

definition cache_load :: "platform \<Rightarrow> (pyfloat \<Rightarrow> pystr) \<Rightarrow> selection_cache \<Rightarrow> challenge_artifacts
    \<Rightarrow> dataset_sample list result \<times> selection_cache" where
  "cache_load P float_repr c a =
     (case validate_challenge_artifacts (pl_casefold P) (pl_sha P) a of
        Inl e \<Rightarrow> (Inl e, c)
      | Inr _ \<Rightarrow>
          (let k = (pc_dataset_sha256 (ca_public a), pm_sample_ids (ca_private a))
           in (case map_of (vc_entries c) k of
                 Some (samples, _) \<Rightarrow> (Inr samples, touch k c)
               | None \<Rightarrow>
                   (case load_dataset_samples_by_id (pl_accept P) (pl_depth P) (ca_dataset a) (snd k) (Some (fst k)) of
                      Inl e \<Rightarrow> (Inl e, c)
                    | Inr samples \<Rightarrow> (Inr samples, store_entry k samples (encoded_size float_repr samples) c)))))"

fun cache_loads :: "platform \<Rightarrow> (pyfloat \<Rightarrow> pystr) \<Rightarrow> selection_cache \<Rightarrow> challenge_artifacts list
    \<Rightarrow> dataset_sample list result list \<times> selection_cache" where
  "cache_loads P float_repr c [] = ([], c)"
| "cache_loads P float_repr c (a # as) =
     (case cache_load P float_repr c a of (r, c') \<Rightarrow>
      case cache_loads P float_repr c' as of (rs, c'') \<Rightarrow> (r # rs, c''))"

section \<open>Bounds\<close>

definition entries_size :: "(cache_key \<times> dataset_sample list \<times> nat) list \<Rightarrow> int" where
  "entries_size es = sum_list (map (int \<circ> snd \<circ> snd) es)"

definition cache_ok :: "selection_cache \<Rightarrow> bool" where
  "cache_ok c \<longleftrightarrow> length (vc_entries c) \<le> vc_max_entries c \<and> vc_bytes c = entries_size (vc_entries c) \<and>
     vc_bytes c \<le> int (vc_max_bytes c) \<and> distinct (map fst (vc_entries c)) \<and> 0 < vc_max_entries c"

lemma evict_fits:
  assumes "evict m b need es bytes = (es', bytes')" "bytes = entries_size es" "int need \<le> int b" "0 < m"
  shows "length es' < m \<and> bytes' = entries_size es' \<and> bytes' + int need \<le> int b \<and> (\<exists>dropped. es = dropped @ es')"
  using assms
proof (induction m b need es bytes rule: evict.induct)
  case (2 m b need e es bytes)
  show ?case
  proof (cases "m \<le> length (e # es) \<or> int b < bytes + int need")
    case True
    then obtain dropped where "length es' < m \<and> bytes' = entries_size es' \<and> bytes' + int need \<le> int b \<and> es = dropped @ es'"
      using 2 by (auto simp: entries_size_def)
    then show ?thesis by (intro conjI exI [of _ "e # dropped"]) auto
  next
    case False
    then show ?thesis using 2 by auto
  qed
qed (auto simp: entries_size_def)

lemma touch_mset: "mset (vc_entries (touch k c)) = mset (vc_entries c)"
  by (simp add: touch_def)

lemma touch_ok:
  assumes "cache_ok c"
  shows "cache_ok (touch k c)"
proof -
  have m: "mset (vc_entries (touch k c)) = mset (vc_entries c)" by (rule touch_mset)
  have "distinct (map fst (vc_entries (touch k c)))"
    using assms by (auto simp: touch_def cache_ok_def distinct_map_filter)
  moreover have "entries_size (vc_entries (touch k c)) = entries_size (vc_entries c)"
    unfolding entries_size_def by (metis mset_map m sum_mset_sum_list)
  moreover have "vc_max_entries (touch k c) = vc_max_entries c" "vc_max_bytes (touch k c) = vc_max_bytes c"
    "vc_bytes (touch k c) = vc_bytes c" by (simp_all add: touch_def)
  ultimately show ?thesis using assms mset_eq_length [OF m] by (simp add: cache_ok_def)
qed

lemma store_ok:
  assumes "cache_ok c" "map_of (vc_entries c) k = None"
  shows "cache_ok (store_entry k samples need c)"
proof (cases "need \<le> vc_max_bytes c")
  case True
  obtain es bytes where e: "evict (vc_max_entries c) (vc_max_bytes c) need (vc_entries c) (vc_bytes c) = (es, bytes)"
    by fastforce
  then obtain dropped where f: "length es < vc_max_entries c" "bytes = entries_size es" "bytes + int need \<le> int (vc_max_bytes c)"
    "vc_entries c = dropped @ es" using evict_fits [OF e] assms(1) True by (auto simp: cache_ok_def)
  have "distinct (map fst (es @ [(k, samples, need)]))"
    using assms f(4) by (auto simp: cache_ok_def map_of_eq_None_iff)
  moreover have "store_entry k samples need c = c\<lparr>vc_entries := es @ [(k, samples, need)], vc_bytes := bytes + int need\<rparr>"
    using True by (simp add: store_entry_def e)
  ultimately show ?thesis using f assms(1) by (simp add: cache_ok_def entries_size_def)
qed (use assms(1) in \<open>simp add: store_entry_def\<close>)
section \<open>Transparency\<close>

definition verified_load :: "platform \<Rightarrow> challenge_artifacts \<Rightarrow> dataset_sample list result" where
  "verified_load P a =
     rbind (validate_challenge_artifacts (pl_casefold P) (pl_sha P) a) (\<lambda>_.
       load_dataset_samples_by_id (pl_accept P) (pl_depth P) (ca_dataset a) (pm_sample_ids (ca_private a)) None)"

lemma load_validated:
  assumes "validate_challenge_artifacts casefold sha a = Inr ()"
  shows "load_dataset_samples_by_id accept depth (ca_dataset a) ids (Some (pc_dataset_sha256 (ca_public a))) =
    load_dataset_samples_by_id accept depth (ca_dataset a) ids None"
proof -
  obtain f where "ca_dataset a = Some f" "fc_sha256 f = pc_dataset_sha256 (ca_public a)"
    using validated_artifacts_ok [OF assms] by (auto simp: artifacts_ok_def)
  then have "samples_of accept depth (ca_dataset a) (Some (pc_dataset_sha256 (ca_public a))) =
      samples_of accept depth (ca_dataset a) None"
    by (auto simp: samples_of_def verified_dataset_samples_def iter_dataset_samples_def gen_then_def split: option.splits prod.splits)
  then show ?thesis by (simp add: load_dataset_samples_by_id_def)
qed

text \<open>Every entry holds what a load of any of the artifacts with its key returns.\<close>

definition entry_true :: "platform \<Rightarrow> challenge_artifacts set \<Rightarrow> cache_key \<times> dataset_sample list \<times> nat \<Rightarrow> bool" where
  "entry_true P \<A> e \<longleftrightarrow>
     (\<forall>a \<in> \<A>. fst e = (pc_dataset_sha256 (ca_public a), pm_sample_ids (ca_private a)) \<longrightarrow>
        validate_challenge_artifacts (pl_casefold P) (pl_sha P) a = Inr () \<longrightarrow> verified_load P a = Inr (fst (snd e)))"

definition entries_true :: "platform \<Rightarrow> challenge_artifacts set \<Rightarrow> selection_cache \<Rightarrow> bool" where
  "entries_true P \<A> c \<longleftrightarrow> (\<forall>e \<in> set (vc_entries c). entry_true P \<A> e)"

definition same_bytes :: "challenge_artifacts set \<Rightarrow> bool" where
  "same_bytes \<A> \<longleftrightarrow> (\<forall>a \<in> \<A>. \<forall>b \<in> \<A>. \<forall>f g. ca_dataset a = Some f \<longrightarrow> ca_dataset b = Some g \<longrightarrow>
     fc_sha256 f = fc_sha256 g \<longrightarrow> f = g)"

lemma same_key_same_load:
  assumes "same_bytes \<A>" "a \<in> \<A>" "b \<in> \<A>"
    "validate_challenge_artifacts (pl_casefold P) (pl_sha P) a = Inr ()"
    "validate_challenge_artifacts (pl_casefold P) (pl_sha P) b = Inr ()"
    "pc_dataset_sha256 (ca_public a) = pc_dataset_sha256 (ca_public b)" "pm_sample_ids (ca_private a) = pm_sample_ids (ca_private b)"
  shows "verified_load P a = verified_load P b"
proof -
  obtain f g where "ca_dataset a = Some f" "fc_sha256 f = pc_dataset_sha256 (ca_public a)"
    "ca_dataset b = Some g" "fc_sha256 g = pc_dataset_sha256 (ca_public b)"
    using validated_artifacts_ok [OF assms(4)] validated_artifacts_ok [OF assms(5)] by (auto simp: artifacts_ok_def)
  then have "ca_dataset a = ca_dataset b" using assms(1-3,6) unfolding same_bytes_def by metis
  then show ?thesis using assms(4,5,7) by (simp add: verified_load_def)
qed

lemma evict_entries: "evict m b need es bytes = (es', bytes') \<Longrightarrow> set es' \<subseteq> set es"
  by (induction m b need es bytes rule: evict.induct) (auto split: if_splits)

lemma cache_load_step:
  assumes "same_bytes \<A>" "a \<in> \<A>" "cache_ok c" "entries_true P \<A> c" "cache_load P float_repr c a = (r, c')"
  shows "r = verified_load P a \<and> cache_ok c' \<and> entries_true P \<A> c' \<and> vc_max_entries c' = vc_max_entries c \<and>
    vc_max_bytes c' = vc_max_bytes c"
proof (cases "validate_challenge_artifacts (pl_casefold P) (pl_sha P) a")
  case (Inl e)
  then show ?thesis using assms(3-5) by (auto simp: cache_load_def verified_load_def)
next
  case (Inr x)
  then have valid: "validate_challenge_artifacts (pl_casefold P) (pl_sha P) a = Inr ()" by simp
  let ?k = "(pc_dataset_sha256 (ca_public a), pm_sample_ids (ca_private a))"
  show ?thesis
  proof (cases "map_of (vc_entries c) ?k")
    case (Some e)
    obtain samples need where e: "e = (samples, need)" by fastforce
    have "(?k, samples, need) \<in> set (vc_entries c)" using map_of_SomeD [OF Some] e by simp
    then have "entry_true P \<A> (?k, samples, need)" using assms(4) unfolding entries_true_def by blast
    then have "verified_load P a = Inr samples" using assms(2) valid by (simp add: entry_true_def)
    moreover have "set (vc_entries (touch ?k c)) = set (vc_entries c)" by (auto simp: touch_def)
    then have "entries_true P \<A> (touch ?k c)" using assms(4) by (simp add: entries_true_def)
    moreover have "r = Inr samples" "c' = touch ?k c" using assms(5) valid Some e by (simp_all add: cache_load_def Let_def)
    ultimately show ?thesis using touch_ok [OF assms(3)] by (simp add: touch_def)
  next
    case None
    have load: "load_dataset_samples_by_id (pl_accept P) (pl_depth P) (ca_dataset a) (snd ?k) (Some (fst ?k)) = verified_load P a"
      using load_validated [OF valid] valid by (simp add: verified_load_def)
    show ?thesis
    proof (cases "verified_load P a")
      case (Inl e)
      then show ?thesis using assms(3-5) valid None load by (auto simp: cache_load_def)
    next
      case loaded: (Inr samples)
      let ?need = "encoded_size float_repr samples"
      have c': "r = Inr samples" "c' = store_entry ?k samples ?need c"
        using assms(5) valid None load loaded by (simp_all add: cache_load_def)
      have "set (vc_entries c') \<subseteq> insert (?k, samples, ?need) (set (vc_entries c))"
        using c'(2) by (auto simp: store_entry_def split: prod.splits if_splits dest: evict_entries)
      moreover have same: "verified_load P b = Inr samples"
        if "b \<in> \<A>" "?k = (pc_dataset_sha256 (ca_public b), pm_sample_ids (ca_private b))"
          "validate_challenge_artifacts (pl_casefold P) (pl_sha P) b = Inr ()" for b
        using same_key_same_load [OF assms(1,2) that(1) valid that(3)] that(2) loaded by simp
      have "entry_true P \<A> (?k, samples, ?need)"
        unfolding entry_true_def fst_conv snd_conv by (intro ballI impI same)
      ultimately have "entries_true P \<A> c'" using assms(4) unfolding entries_true_def by blast
      moreover have "cache_ok c'" using store_ok [OF assms(3) None] c'(2) by simp
      moreover have "vc_max_entries c' = vc_max_entries c" "vc_max_bytes c' = vc_max_bytes c"
        using c'(2) by (auto simp: store_entry_def split: prod.splits)
      ultimately show ?thesis using c'(1) loaded by simp
    qed
  qed
qed

lemma cache_loads_step:
  assumes "same_bytes \<A>" "set as \<subseteq> \<A>" "cache_ok c" "entries_true P \<A> c" "cache_loads P float_repr c as = (rs, c')"
  shows "rs = map (verified_load P) as \<and> cache_ok c' \<and> vc_max_entries c' = vc_max_entries c \<and> vc_max_bytes c' = vc_max_bytes c"
  using assms(2-)
proof (induction as arbitrary: c rs)
  case (Cons a as)
  obtain r c1 where one: "cache_load P float_repr c a = (r, c1)" by fastforce
  obtain rs1 c2 where rest: "cache_loads P float_repr c1 as = (rs1, c2)" by fastforce
  have "a \<in> \<A>" using Cons.prems(1) by simp
  note step = cache_load_step [OF assms(1) this Cons.prems(2,3) one]
  show ?case using Cons.IH [of c1 rs1] Cons.prems(1,4) step one rest by auto
qed simp

text \<open>C26. The cache is transparent and bounded: in any sequence of loads whose datasets have different
  digests when they have different bytes, every load returns what a load without the cache returns,
  errors included, and the entries never exceed the limits on their number and encoded size.\<close>
theorem cache_is_transparent:
  assumes "VerifiedSelectionCache m b = Inr c" "same_bytes (set as)" "cache_loads P float_repr c as = (rs, c')"
  shows "rs = map (verified_load P) as \<and> int (length (vc_entries c')) \<le> m \<and>
    entries_size (vc_entries c') \<le> b \<and> vc_bytes c' = entries_size (vc_entries c') \<and> distinct (map fst (vc_entries c'))"
proof -
  have "cache_ok c" "entries_true P (set as) c" "int (vc_max_entries c) = m" "int (vc_max_bytes c) = b"
    using assms(1) by (auto simp: VerifiedSelectionCache_def rbind_Inr_iff cache_ok_def entries_true_def entries_size_def)
  then show ?thesis using cache_loads_step [OF assms(2) subset_refl _ _ assms(3)] by (auto simp: cache_ok_def)
qed

text \<open>A run reads its samples through the cache as it would without one.\<close>

lemma prepare_through_cache: "prepare_samples P (Some (verified_load P)) a = prepare_samples P None a"
  by (simp add: prepare_samples_def verified_load_def)

lemma cache_is_transparent_witness:
  "fst (cache_loads demo_platform (\<lambda>_. []) \<lparr>vc_max_entries = 2, vc_max_bytes = 1000, vc_entries = [], vc_bytes = 0\<rparr>
     [demo_artifacts, demo_artifacts]) = [verified_load demo_platform demo_artifacts, verified_load demo_platform demo_artifacts]"
proof -
  let ?c = "\<lparr>vc_max_entries = 2, vc_max_bytes = 1000, vc_entries = [], vc_bytes = 0\<rparr>"
  have "VerifiedSelectionCache 2 1000 = Inr ?c" by (simp add: VerifiedSelectionCache_def)
  from cache_is_transparent [OF this, of "[demo_artifacts, demo_artifacts]" demo_platform "\<lambda>_. []"] show ?thesis
    by (cases "cache_loads demo_platform (\<lambda>_. []) ?c [demo_artifacts, demo_artifacts]") (simp add: same_bytes_def)
qed

end
