(* ===== verification/Auth_Store.thy ===== *)
theory Auth_Store
  imports Submission_Store
begin

text \<open>
  The account store of \<open>src/linguistic_oj/auth_store.py\<close>: credentials, sessions, single-use action
  tokens and rate limits.  A method is one transaction, a function of the tables and of the time \<open>now\<close>
  (whole seconds) its transaction reads; a violated constraint rolls it back and raises
  \<open>AuthConflictError\<close>.  Tokens are stored by their digest only.
\<close>

section \<open>Tables\<close>

datatype purpose = Verify_Email | Reset_Password

record credential =
  cr_user :: pystr
  cr_email :: pystr
  cr_hash :: pystr
  cr_version :: int

record auth_session_row =
  as_token :: pystr
  as_user :: pystr
  as_expires :: int

record action_token =
  at_token :: pystr
  at_purpose :: purpose
  at_email :: pystr
  at_user :: "pystr option"
  at_expires :: int

record rate_limit =
  rl_bucket :: pystr
  rl_attempts :: int
  rl_expires :: int

record auth_db =
  au_users :: "user_record list"
  au_credentials :: "credential list"
  au_sessions :: "auth_session_row list"
  au_actions :: "action_token list"
  au_rates :: "rate_limit list"

record account =
  ac_user :: pystr
  ac_subject :: pystr
  ac_handle :: pystr
  ac_admin :: bool
  ac_email :: pystr
  ac_hash :: pystr
  ac_version :: int

section \<open>Queries\<close>

definition joined :: "credential \<Rightarrow> user_record \<Rightarrow> account" where
  "joined c r = \<lparr>ac_user = us_id r, ac_subject = us_subject r, ac_handle = us_handle r, ac_admin = us_admin r,
     ac_email = cr_email c, ac_hash = cr_hash c, ac_version = cr_version c\<rparr>"

definition account_rows :: "auth_db \<Rightarrow> (credential \<Rightarrow> bool) \<Rightarrow> account list" where
  "account_rows A P =
     concat (map (\<lambda>c. map (joined c) (filter (\<lambda>r. us_id r = cr_user c) (au_users A))) (filter P (au_credentials A)))"

definition first_row :: "'a list \<Rightarrow> 'a option" where
  "first_row xs = (case xs of [] \<Rightarrow> None | x # _ \<Rightarrow> Some x)"

definition auth_account :: "auth_db \<Rightarrow> pystr \<Rightarrow> account option" where
  "auth_account A email = first_row (account_rows A (\<lambda>c. cr_email c = email))"

definition auth_require_bound_accounts :: "auth_db \<Rightarrow> unit result" where
  "auth_require_bound_accounts A =
     ensure (list_all (\<lambda>r. us_id r \<in> cr_user ` set (au_credentials A)) (au_users A))
       (Exc RuntimeError ''Production authentication has unbound legacy users'')"

definition auth_session :: "auth_db \<Rightarrow> int \<Rightarrow> pystr \<Rightarrow> (account \<times> int) option" where
  "auth_session A now token =
     first_row (concat (map (\<lambda>s. map (\<lambda>a. (a, as_expires s)) (account_rows A (\<lambda>c. cr_user c = as_user s)))
       (filter (\<lambda>s. as_token s = token \<and> now < as_expires s) (au_sessions A))))"

definition live_action :: "int \<Rightarrow> pystr \<Rightarrow> purpose \<Rightarrow> action_token \<Rightarrow> bool" where
  "live_action now token p t \<longleftrightarrow> at_token t = token \<and> at_purpose t = p \<and> now < at_expires t"

definition auth_action_email :: "auth_db \<Rightarrow> int \<Rightarrow> pystr \<Rightarrow> purpose \<Rightarrow> pystr option" where
  "auth_action_email A now token p = map_option at_email (find (live_action now token p) (au_actions A))"

section \<open>Rate limits\<close>

definition purge :: "int \<Rightarrow> auth_db \<Rightarrow> auth_db" where
  "purge now A = A\<lparr>au_rates := filter (\<lambda>x. now < rl_expires x) (au_rates A),
     au_sessions := filter (\<lambda>x. now < as_expires x) (au_sessions A),
     au_actions := filter (\<lambda>x. now < at_expires x) (au_actions A)\<rparr>"

definition attempts_of :: "auth_db \<Rightarrow> pystr \<Rightarrow> int" where
  "attempts_of A b = (case find (\<lambda>x. rl_bucket x = b) (au_rates A) of None \<Rightarrow> 0 | Some x \<Rightarrow> rl_attempts x)"

definition bump :: "int \<Rightarrow> pystr \<Rightarrow> rate_limit list \<Rightarrow> rate_limit list" where
  "bump expires b xs =
     (if b \<in> rl_bucket ` set xs
      then map (\<lambda>x. if rl_bucket x = b then x\<lparr>rl_attempts := rl_attempts x + 1\<rparr> else x) xs
      else xs @ [\<lparr>rl_bucket = b, rl_attempts = 1, rl_expires = expires\<rparr>])"

text \<open>A limit is checked only against a row that exists; a first attempt makes the row.\<close>

definition over_limit :: "auth_db \<Rightarrow> pystr \<times> int \<Rightarrow> bool" where
  "over_limit A = (\<lambda>(b, limit). b \<in> rl_bucket ` set (au_rates A) \<and> limit \<le> attempts_of A b)"

definition auth_throttle :: "auth_db \<Rightarrow> int \<Rightarrow> (pystr \<times> int) list \<Rightarrow> int \<Rightarrow> bool \<times> auth_db" where
  "auth_throttle A now buckets window =
     (let A' = purge now A
      in if list_ex (over_limit A') buckets then (False, A')
         else (True, A'\<lparr>au_rates := fold (\<lambda>(b, _). bump (now + window) b) buckets (au_rates A')\<rparr>))"

section \<open>Accounts, action tokens and sessions\<close>

text \<open>\<open>fresh\<close> is the identifier drawn for a new user.\<close>

definition insert_account :: "auth_db \<Rightarrow> pystr \<Rightarrow> pystr \<Rightarrow> pystr \<Rightarrow> pystr option \<Rightarrow> bool \<Rightarrow> auth_db result" where
  "insert_account A fresh email password_hash handle admin =
     (let subject = u ''account:'' @ fresh
      in if handle = None \<or> fresh \<in> us_id ` set (au_users A) \<or> subject \<in> us_subject ` set (au_users A) \<or>
            the handle \<in> us_handle ` set (au_users A) \<or>
            fresh \<in> cr_user ` set (au_credentials A) \<or> email \<in> cr_email ` set (au_credentials A)
         then raise AuthConflictError ''account constraint rejected''
         else Inr (A\<lparr>au_users := au_users A @ [\<lparr>us_id = fresh, us_subject = subject, us_handle = the handle, us_admin = admin\<rparr>],
                au_credentials := au_credentials A @
                  [\<lparr>cr_user = fresh, cr_email = email, cr_hash = password_hash, cr_version = 1\<rparr>]\<rparr>))"

definition auth_issue_action :: "auth_db \<Rightarrow> int \<Rightarrow> pystr \<Rightarrow> purpose \<Rightarrow> pystr \<Rightarrow> int \<Rightarrow> (bool \<times> auth_db) result" where
  "auth_issue_action A now email p token ttl =
     (let owner = map_option cr_user (find (\<lambda>c. cr_email c = email) (au_credentials A));
          kept = filter (\<lambda>t. \<not> (at_email t = email \<and> at_purpose t = p)) (au_actions A)
      in if p = Verify_Email \<and> owner \<noteq> None \<or> p = Reset_Password \<and> owner = None then Inr (False, A)
         else if token \<in> at_token ` set kept then raise AuthConflictError ''account constraint rejected''
         else Inr (True, A\<lparr>au_actions := kept @
                [\<lparr>at_token = token, at_purpose = p, at_email = email, at_user = owner, at_expires = now + ttl\<rparr>]\<rparr>))"

definition change_password :: "pystr option \<Rightarrow> pystr \<Rightarrow> auth_db \<Rightarrow> auth_db" where
  "change_password owner password_hash A =
     A\<lparr>au_credentials := map (\<lambda>c. if Some (cr_user c) = owner
            then c\<lparr>cr_hash := password_hash, cr_version := cr_version c + 1\<rparr> else c) (au_credentials A),
       au_sessions := filter (\<lambda>s. Some (as_user s) \<noteq> owner) (au_sessions A)\<rparr>"

definition spend_actions :: "pystr \<Rightarrow> auth_db \<Rightarrow> auth_db" where
  "spend_actions email A = A\<lparr>au_actions := filter (\<lambda>t. at_email t \<noteq> email) (au_actions A)\<rparr>"

definition auth_complete_action :: "auth_db \<Rightarrow> int \<Rightarrow> pystr \<Rightarrow> pystr \<Rightarrow> purpose \<Rightarrow> pystr \<Rightarrow> pystr option
    \<Rightarrow> (bool \<times> auth_db) result" where
  "auth_complete_action A now fresh token p password_hash handle =
     (case find (live_action now token p) (au_actions A) of
        None \<Rightarrow> Inr (False, A)
      | Some t \<Rightarrow>
          rbind (case p of
                   Verify_Email \<Rightarrow> insert_account A fresh (at_email t) password_hash handle False
                 | Reset_Password \<Rightarrow> Inr (change_password (at_user t) password_hash A)) (\<lambda>A'.
            Inr (True, spend_actions (at_email t) A')))"

text \<open>Login read the account before; its version and hash are compared again here.\<close>

definition auth_create_session :: "auth_db \<Rightarrow> int \<Rightarrow> account \<Rightarrow> pystr \<Rightarrow> int \<Rightarrow> pystr option
    \<Rightarrow> ((account \<times> int) option \<times> auth_db) result" where
  "auth_create_session A now a token ttl old_token =
     (case first_row (account_rows A (\<lambda>c. cr_user c = ac_user a)) of
        None \<Rightarrow> Inr (None, A)
      | Some row \<Rightarrow>
          if ac_version row \<noteq> ac_version a \<or> ac_hash row \<noteq> ac_hash a then Inr (None, A)
          else
            (let kept = filter (\<lambda>s. Some (as_token s) \<noteq> old_token) (au_sessions A)
             in if token \<in> as_token ` set kept then raise AuthConflictError ''account constraint rejected''
                else Inr (Some (row, now + ttl), A\<lparr>au_sessions := kept @
                       [\<lparr>as_token = token, as_user = ac_user a, as_expires = now + ttl\<rparr>]\<rparr>)))"

definition auth_revoke_session :: "auth_db \<Rightarrow> pystr \<Rightarrow> auth_db" where
  "auth_revoke_session A token = A\<lparr>au_sessions := filter (\<lambda>s. as_token s \<noteq> token) (au_sessions A)\<rparr>"

definition auth_provision_account :: "auth_db \<Rightarrow> pystr \<Rightarrow> pystr \<Rightarrow> pystr \<Rightarrow> pystr \<Rightarrow> bool \<Rightarrow> account option
    \<Rightarrow> auth_db result" where
  "auth_provision_account A fresh email password_hash handle admin expected =
     (if auth_account A email \<noteq> expected
      then raise AuthConflictError ''development account changed; refusing to overwrite''
      else if expected = None then insert_account A fresh email password_hash (Some handle) admin
      else Inr A)"

text \<open>The role is text in the code; a role other than the two known ones is refused first.\<close>

definition set_account_role :: "auth_db \<Rightarrow> pystr \<Rightarrow> pystr \<Rightarrow> auth_db result" where
  "set_account_role A user role =
     (if role \<notin> {u ''user'', u ''admin''} then raise ValueError ''unsupported account role''
      else if length (filter (\<lambda>r. us_id r = user) (au_users A)) \<noteq> 1 then raise ValueError ''account does not exist''
      else Inr (A\<lparr>au_users := map (\<lambda>r. if us_id r = user then r\<lparr>us_admin := (role = u ''admin'')\<rparr> else r) (au_users A)\<rparr>))"

section \<open>Reachable states\<close>

text \<open>The submission store adds users too, without a credential (its \<open>register_user\<close>).\<close>

datatype auth_event = Issued pystr | Spent pystr | Quiet

inductive auth_step :: "auth_db \<Rightarrow> auth_event \<Rightarrow> auth_db \<Rightarrow> bool" where
  throttle: "auth_throttle A now buckets window = (b, A') \<Longrightarrow> auth_step A Quiet A'"
| issue: "auth_issue_action A now email p token ttl = Inr (b, A')
    \<Longrightarrow> auth_step A (if b then Issued token else Quiet) A'"
| complete: "auth_complete_action A now fresh token p password_hash handle = Inr (b, A')
    \<Longrightarrow> auth_step A (if b then Spent token else Quiet) A'"
| login: "auth_create_session A now a token ttl old_token = Inr (r, A') \<Longrightarrow> auth_step A Quiet A'"
| logout: "auth_step A Quiet (auth_revoke_session A token)"
| provision: "auth_provision_account A fresh email password_hash handle admin expected = Inr A' \<Longrightarrow> auth_step A Quiet A'"
| enrol: "register_user db fresh subject handle admin = Inr (r, db') \<Longrightarrow> db_users db = au_users A
    \<Longrightarrow> auth_step A Quiet (A\<lparr>au_users := db_users db'\<rparr>)"
| role: "set_account_role A user new_role = Inr A' \<Longrightarrow> auth_step A Quiet A'"

inductive auth_run :: "auth_db \<Rightarrow> auth_event list \<Rightarrow> auth_db \<Rightarrow> bool" where
  start: "auth_run A [] A"
| step: "auth_run A es B \<Longrightarrow> auth_step B e C \<Longrightarrow> auth_run A (es @ [e]) C"

definition empty_auth :: auth_db where
  "empty_auth = \<lparr>au_users = [], au_credentials = [], au_sessions = [], au_actions = [], au_rates = []\<rparr>"

definition auth_reachable :: "auth_db \<Rightarrow> bool" where
  "auth_reachable A \<longleftrightarrow> (\<exists>es. auth_run empty_auth es A)"

definition users_ok :: "auth_db \<Rightarrow> bool" where
  "users_ok A \<longleftrightarrow> distinct (map us_id (au_users A)) \<and> distinct (map us_subject (au_users A)) \<and>
     distinct (map us_handle (au_users A))"

definition credentials_ok :: "auth_db \<Rightarrow> bool" where
  "credentials_ok A \<longleftrightarrow> distinct (map cr_email (au_credentials A)) \<and> distinct (map cr_user (au_credentials A)) \<and>
     cr_user ` set (au_credentials A) \<subseteq> us_id ` set (au_users A)"

definition sessions_ok :: "auth_db \<Rightarrow> bool" where
  "sessions_ok A \<longleftrightarrow> distinct (map as_token (au_sessions A)) \<and>
     as_user ` set (au_sessions A) \<subseteq> cr_user ` set (au_credentials A)"

definition owned :: "auth_db \<Rightarrow> action_token \<Rightarrow> bool" where
  "owned A t \<longleftrightarrow> (\<exists>c \<in> set (au_credentials A). at_user t = Some (cr_user c) \<and> cr_email c = at_email t)"

definition actions_ok :: "auth_db \<Rightarrow> bool" where
  "actions_ok A \<longleftrightarrow> distinct (map at_token (au_actions A)) \<and>
     distinct (map (\<lambda>t. (at_email t, at_purpose t)) (au_actions A)) \<and>
     (\<forall>t \<in> set (au_actions A). if at_purpose t = Reset_Password then owned A t else at_user t = None)"

definition auth_ok :: "auth_db \<Rightarrow> bool" where
  "auth_ok A \<longleftrightarrow> users_ok A \<and> credentials_ok A \<and> sessions_ok A \<and> actions_ok A \<and> distinct (map rl_bucket (au_rates A))"

lemmas auth_parts = users_ok_def credentials_ok_def sessions_ok_def actions_ok_def

section \<open>Every operation keeps the tables well formed\<close>

lemma owned_others [simp]:
  "owned (A\<lparr>au_users := us\<rparr>) = owned A" "owned (A\<lparr>au_sessions := ss\<rparr>) = owned A"
  "owned (A\<lparr>au_actions := ts\<rparr>) = owned A" "owned (A\<lparr>au_rates := rs\<rparr>) = owned A"
  by (auto simp: owned_def fun_eq_iff)

text \<open>An \<open>UPDATE\<close> keeps the columns it does not set.\<close>

lemma update_column:
  assumes "\<And>x. f (g x) = f x"
  shows "map f (map (\<lambda>x. if P x then g x else x) xs) = map f xs"
    and "f ` set (map (\<lambda>x. if P x then g x else x) xs) = f ` set xs"
proof -
  show "map f (map (\<lambda>x. if P x then g x else x) xs) = map f xs"
    by (induction xs) (auto simp: assms)
  from arg_cong [OF this, of set] show "f ` set (map (\<lambda>x. if P x then g x else x) xs) = f ` set xs"
    by (simp only: set_map)
qed

lemma bump_distinct: "distinct (map rl_bucket xs) \<Longrightarrow> distinct (map rl_bucket (bump e b xs))"
  by (auto simp: bump_def update_column simp del: map_map)

lemma bumps_distinct: "distinct (map rl_bucket xs) \<Longrightarrow> distinct (map rl_bucket (fold (\<lambda>(b, _). bump e b) bs xs))"
  by (induction bs arbitrary: xs) (auto simp: bump_distinct)

lemma purge_ok: "auth_ok A \<Longrightarrow> auth_ok (purge now A)"
  by (auto simp: auth_ok_def auth_parts purge_def distinct_map_filter)

lemma throttle_ok: "auth_ok A \<Longrightarrow> auth_throttle A now bs w = (b, A') \<Longrightarrow> auth_ok A'"
proof -
  have rates: "auth_ok B \<Longrightarrow> distinct (map rl_bucket rs) \<Longrightarrow> auth_ok (B\<lparr>au_rates := rs\<rparr>)" for B rs
    by (simp add: auth_ok_def auth_parts)
  show "auth_ok A \<Longrightarrow> auth_throttle A now bs w = (b, A') \<Longrightarrow> auth_ok A'"
    by (auto simp: auth_throttle_def Let_def split: if_splits
        intro!: rates bumps_distinct purge_ok intro: auth_ok_def [THEN iffD1, THEN conjunct2, THEN conjunct2, THEN conjunct2, THEN conjunct2])
qed

lemma insert_account_ok:
  assumes "auth_ok A" and "insert_account A fresh email h handle admin = Inr A'"
  shows "auth_ok A'"
proof -
  have new: "fresh \<notin> us_id ` set (au_users A)" "u ''account:'' @ fresh \<notin> us_subject ` set (au_users A)"
      "the handle \<notin> us_handle ` set (au_users A)" "fresh \<notin> cr_user ` set (au_credentials A)"
      "email \<notin> cr_email ` set (au_credentials A)"
    and A': "A' = A\<lparr>au_users := au_users A @
        [\<lparr>us_id = fresh, us_subject = u ''account:'' @ fresh, us_handle = the handle, us_admin = admin\<rparr>],
      au_credentials := au_credentials A @ [\<lparr>cr_user = fresh, cr_email = email, cr_hash = h, cr_version = 1\<rparr>]\<rparr>"
    using assms(2) by (simp_all add: insert_account_def Let_def split: if_splits)
  have "users_ok A'" "credentials_ok A'" "sessions_ok A'"
    using assms(1) new
    by (simp_all add: A' auth_ok_def auth_parts subset_insertI2)
  moreover have "owned A' t" if "owned A t" for t
    using that by (auto simp: owned_def A')
  ultimately show ?thesis
    using assms(1) by (simp add: auth_ok_def actions_ok_def A')
qed

lemma spend_ok: "auth_ok A \<Longrightarrow> auth_ok (spend_actions email A)"
  by (auto simp: auth_ok_def auth_parts spend_actions_def distinct_map_filter)

lemma find_credential:
  "find (\<lambda>c. cr_email c = email) cs = Some c \<Longrightarrow> c \<in> set cs \<and> cr_email c = email"
  by (auto simp: find_Some_iff)

lemma issue_cases:
  assumes "auth_issue_action A now email p token ttl = Inr (b, A')"
  obtains "\<not> b" "A' = A"
  | owner where "b" "owner = map_option cr_user (find (\<lambda>c. cr_email c = email) (au_credentials A))"
      "p = Verify_Email \<longleftrightarrow> owner = None"
      "token \<notin> at_token ` set (filter (\<lambda>t. \<not> (at_email t = email \<and> at_purpose t = p)) (au_actions A))"
      "A' = A\<lparr>au_actions := filter (\<lambda>t. \<not> (at_email t = email \<and> at_purpose t = p)) (au_actions A) @
         [\<lparr>at_token = token, at_purpose = p, at_email = email, at_user = owner, at_expires = now + ttl\<rparr>]\<rparr>"
proof (cases p)
  case Verify_Email
  with assms that show ?thesis
    by (auto simp: auth_issue_action_def Let_def split: if_splits)
next
  case Reset_Password
  with assms that show ?thesis
    by (auto simp: auth_issue_action_def Let_def split: if_splits)
qed

lemma issue_ok:
  assumes "auth_ok A" and "auth_issue_action A now email p token ttl = Inr (b, A')"
  shows "auth_ok A'"
  using assms(2)
proof (cases rule: issue_cases)
  case (2 owner)
  let ?t = "\<lparr>at_token = token, at_purpose = p, at_email = email, at_user = owner, at_expires = now + ttl\<rparr>"
  have "owned A ?t" if "p = Reset_Password"
  proof -
    from that 2(3) obtain v where "owner = Some v"
      by auto
    with 2(2) obtain c where "find (\<lambda>c. cr_email c = email) (au_credentials A) = Some c" "owner = Some (cr_user c)"
      by (metis map_option_eq_Some)
    with find_credential show ?thesis
      by (auto simp: owned_def)
  qed
  then have "if p = Reset_Password then owned A ?t else owner = None"
    using 2(3) by (cases p) auto
  then have "actions_ok A'"
    using assms(1) 2(4) by (auto simp: 2(5) auth_ok_def actions_ok_def distinct_map_filter)
  then show ?thesis
    using assms(1) by (simp add: 2(5) auth_ok_def users_ok_def credentials_ok_def sessions_ok_def)
qed (use assms in simp)

lemma change_password_columns:
  "map cr_user (au_credentials (change_password v h A)) = map cr_user (au_credentials A)"
  "map cr_email (au_credentials (change_password v h A)) = map cr_email (au_credentials A)"
  by (auto simp: change_password_def)

lemma change_password_ok:
  assumes "auth_ok A"
  shows "auth_ok (change_password v h A)"
proof -
  let ?B = "change_password v h A"
  have set_eq: "cr_user ` set (au_credentials ?B) = cr_user ` set (au_credentials A)"
    by (metis change_password_columns(1) set_map)
  have "owned ?B t" if own: "owned A t" for t
  proof -
    obtain c where c: "c \<in> set (au_credentials A)" "at_user t = Some (cr_user c)" "cr_email c = at_email t"
      using own by (auto simp: owned_def)
    let ?g = "\<lambda>c. if Some (cr_user c) = v then c\<lparr>cr_hash := h, cr_version := cr_version c + 1\<rparr> else c"
    have "?g c \<in> set (au_credentials ?B)" "cr_user (?g c) = cr_user c" "cr_email (?g c) = cr_email c"
      using c(1) by (auto simp: change_password_def)
    with c(2,3) show ?thesis
      by (intro owned_def [THEN iffD2] bexI [of _ "?g c"]) simp_all
  qed
  with assms set_eq show ?thesis
    by (simp add: auth_ok_def auth_parts change_password_columns)
       (auto simp: change_password_def distinct_map_filter)
qed

lemma complete_ok:
  "auth_ok A \<Longrightarrow> auth_complete_action A now fresh token p h handle = Inr (b, A') \<Longrightarrow> auth_ok A'"
  by (auto simp: auth_complete_action_def rbind_def insert_account_ok spend_ok change_password_ok
      split: option.splits sum.splits purpose.splits)

lemma in_account_rows:
  "a \<in> set (account_rows A P) \<longleftrightarrow>
     (\<exists>c \<in> set (au_credentials A). P c \<and> (\<exists>r \<in> set (au_users A). us_id r = cr_user c \<and> a = joined c r))"
  by (auto simp: account_rows_def)

lemma first_row_in: "first_row xs = Some x \<Longrightarrow> x \<in> set xs"
  by (cases xs) (auto simp: first_row_def)

lemma create_session_cases:
  assumes "auth_create_session A now a token ttl old = Inr (r, A')"
  obtains "r = None" "A' = A"
  | row where "row \<in> set (account_rows A (\<lambda>c. cr_user c = ac_user a))"
      "ac_version row = ac_version a" "ac_hash row = ac_hash a" "r = Some (row, now + ttl)"
      "token \<notin> as_token ` set (filter (\<lambda>s. Some (as_token s) \<noteq> old) (au_sessions A))"
      "A' = A\<lparr>au_sessions := filter (\<lambda>s. Some (as_token s) \<noteq> old) (au_sessions A) @
         [\<lparr>as_token = token, as_user = ac_user a, as_expires = now + ttl\<rparr>]\<rparr>"
proof (cases "first_row (account_rows A (\<lambda>c. cr_user c = ac_user a))")
  case None
  with assms that(1) show ?thesis
    by (simp add: auth_create_session_def)
next
  case (Some row)
  with assms that(1) that(2) [OF first_row_in] show ?thesis
    by (simp add: auth_create_session_def Let_def split: if_splits)
qed

lemma create_session_ok:
  assumes "auth_ok A" and "auth_create_session A now a token ttl old = Inr (r, A')"
  shows "auth_ok A'"
  using assms(2)
proof (cases rule: create_session_cases)
  case (2 row)
  have "ac_user a \<in> cr_user ` set (au_credentials A)"
    using 2(1) by (auto simp: in_account_rows intro: rev_image_eqI)
  moreover have "as_user ` set (filter P (au_sessions A)) \<subseteq> cr_user ` set (au_credentials A)" for P
    using assms(1) by (auto simp: auth_ok_def sessions_ok_def)
  ultimately show ?thesis
    using assms(1) 2(5) by (simp add: 2(6) auth_ok_def auth_parts distinct_map_filter)
qed (use assms in simp)

lemma revoke_ok: "auth_ok A \<Longrightarrow> auth_ok (auth_revoke_session A token)"
  by (auto simp: auth_ok_def auth_parts auth_revoke_session_def distinct_map_filter)

lemma provision_ok:
  "auth_ok A \<Longrightarrow> auth_provision_account A fresh email h handle admin e = Inr A' \<Longrightarrow> auth_ok A'"
  by (auto simp: auth_provision_account_def insert_account_ok split: if_splits)

lemma role_ok:
  assumes "auth_ok A" and "set_account_role A user role = Inr A'"
  shows "auth_ok A'"
proof -
  let ?f = "\<lambda>r. if us_id r = user then r\<lparr>us_admin := (role = u ''admin'')\<rparr> else r"
  have "A' = A\<lparr>au_users := map ?f (au_users A)\<rparr>"
    using assms(2) by (auto simp: set_account_role_def split: if_splits)
  then show ?thesis
    using assms(1) by (auto simp add: auth_ok_def auth_parts update_column simp del: map_map set_map)
qed

lemma register_users:
  "register_user db fresh subject handle admin = Inr (r, db') \<Longrightarrow>
     db_users db' = db_users db @ [r] \<and> us_id r \<notin> us_id ` set (db_users db) \<and>
     us_subject r \<notin> us_subject ` set (db_users db) \<and> us_handle r \<notin> us_handle ` set (db_users db)"
  by (auto simp: register_user_def rbind_def Let_def split: sum.splits)

lemma auth_step_ok: "auth_step A e A' \<Longrightarrow> auth_ok A \<Longrightarrow> auth_ok A'"
proof (induction rule: auth_step.induct)
  case (enrol db fresh subject handle admin r db' A)
  with register_users [OF enrol(1)] show ?case
    by (auto simp: auth_ok_def auth_parts)
qed (auto intro: throttle_ok issue_ok complete_ok create_session_ok revoke_ok provision_ok role_ok)

lemma auth_run_ok: "auth_run A es B \<Longrightarrow> auth_ok A \<Longrightarrow> auth_ok B"
  by (induction rule: auth_run.induct) (auto intro: auth_step_ok)

lemma empty_auth_ok: "auth_ok empty_auth"
  by (simp add: auth_ok_def auth_parts empty_auth_def)

lemma auth_reachable_ok: "auth_reachable A \<Longrightarrow> auth_ok A"
  using empty_auth_ok by (auto simp: auth_reachable_def intro: auth_run_ok)

section \<open>Credentials are never deleted and versions only grow\<close>

definition no_older :: "credential list \<Rightarrow> credential list \<Rightarrow> bool" where
  "no_older cs ds \<longleftrightarrow> (\<forall>c \<in> set cs. \<exists>d \<in> set ds. cr_user d = cr_user c \<and> cr_email d = cr_email c \<and> cr_version c \<le> cr_version d)"

lemma no_older_refl [simp]: "no_older cs cs"
  by (auto simp: no_older_def)

lemma no_older_append [simp]: "no_older cs (cs @ ds)"
  by (auto simp: no_older_def)

lemma no_older_trans: "no_older cs ds \<Longrightarrow> no_older ds es \<Longrightarrow> no_older cs es"
  unfolding no_older_def by (fastforce intro: order_trans)

lemma change_password_no_older: "no_older (au_credentials A) (au_credentials (change_password v h A))"
  unfolding no_older_def
proof
  fix c assume c: "c \<in> set (au_credentials A)"
  let ?d = "if Some (cr_user c) = v then c\<lparr>cr_hash := h, cr_version := cr_version c + 1\<rparr> else c"
  have "?d \<in> set (au_credentials (change_password v h A))"
    using c by (auto simp: change_password_def)
  then show "\<exists>d \<in> set (au_credentials (change_password v h A)).
      cr_user d = cr_user c \<and> cr_email d = cr_email c \<and> cr_version c \<le> cr_version d"
    by (intro bexI [of _ ?d]) auto
qed

lemma insert_account_no_older:
  "insert_account A fresh email h handle admin = Inr A' \<Longrightarrow> no_older (au_credentials A) (au_credentials A')"
  by (auto simp: insert_account_def Let_def split: if_splits)

lemma spend_credentials [simp]: "au_credentials (spend_actions email A) = au_credentials A"
  by (simp add: spend_actions_def)

lemma complete_no_older:
  "auth_complete_action A now fresh token p h handle = Inr (b, A') \<Longrightarrow> no_older (au_credentials A) (au_credentials A')"
  by (auto simp: auth_complete_action_def rbind_Inr_iff insert_account_no_older change_password_no_older
      split: option.splits purpose.splits)

lemma auth_step_no_older: "auth_step A e A' \<Longrightarrow> no_older (au_credentials A) (au_credentials A')"
proof (induction rule: auth_step.induct)
  case (login A now a token ttl old_token r A')
  then show ?case
    by (cases rule: create_session_cases) auto
next
  case (issue A now email p token ttl b A')
  then show ?case
    by (cases rule: issue_cases) auto
next
  case (complete A now fresh token p password_hash handle b A')
  then show ?case
    by (rule complete_no_older)
qed (auto simp: auth_throttle_def Let_def purge_def auth_revoke_session_def auth_provision_account_def
    set_account_role_def insert_account_no_older split: if_splits)

lemma auth_run_no_older: "auth_run A es B \<Longrightarrow> no_older (au_credentials A) (au_credentials B)"
  by (induction rule: auth_run.induct) (auto intro: auth_step_no_older no_older_trans)

section \<open>A completed reset fences every older login\<close>

lemma first_row_unique:
  assumes "\<And>x y. x \<in> set xs \<Longrightarrow> y \<in> set xs \<Longrightarrow> x = y"
  shows "first_row xs = Some a \<longleftrightarrow> a \<in> set xs"
proof
  assume "a \<in> set xs"
  then obtain x ys where "xs = x # ys"
    by (cases xs) auto
  with assms [of a x] \<open>a \<in> set xs\<close> show "first_row xs = Some a"
    by (simp add: first_row_def)
qed (rule first_row_in)

lemma unique_user: "users_ok A \<Longrightarrow> r \<in> set (au_users A) \<Longrightarrow> r' \<in> set (au_users A) \<Longrightarrow> us_id r = us_id r' \<Longrightarrow> r = r'"
  by (auto simp: users_ok_def distinct_map dest: inj_onD)

lemma unique_credential:
  assumes "credentials_ok A" and "c \<in> set (au_credentials A)" and "d \<in> set (au_credentials A)"
    and "cr_user c = cr_user d \<or> cr_email c = cr_email d"
  shows "c = d"
  using assms by (auto simp: credentials_ok_def distinct_map dest: inj_onD)

lemma auth_account_iff:
  assumes "auth_ok A"
  shows "auth_account A email = Some a \<longleftrightarrow>
     (\<exists>c \<in> set (au_credentials A). cr_email c = email \<and> (\<exists>r \<in> set (au_users A). us_id r = cr_user c \<and> a = joined c r))"
proof -
  have ok: "users_ok A" "credentials_ok A"
    using assms by (auto simp: auth_ok_def)
  have "x = y" if "x \<in> set (account_rows A (\<lambda>c. cr_email c = email))"
      "y \<in> set (account_rows A (\<lambda>c. cr_email c = email))" for x y
    using that unique_user [OF ok(1)] unique_credential [OF ok(2)]
    by (auto simp: in_account_rows) metis
  then have "auth_account A email = Some a \<longleftrightarrow> a \<in> set (account_rows A (\<lambda>c. cr_email c = email))"
    unfolding auth_account_def by (rule first_row_unique)
  then show ?thesis
    by (simp add: in_account_rows)
qed

lemma stale_login_refused:
  assumes "auth_ok B" and "d \<in> set (au_credentials B)" and "cr_user d = ac_user a" and "ac_version a < cr_version d"
  shows "auth_create_session B now a token ttl old = Inr (None, B)"
proof (cases "first_row (account_rows B (\<lambda>c. cr_user c = ac_user a))")
  case (Some row)
  then obtain c r where c: "c \<in> set (au_credentials B)" "cr_user c = ac_user a" "row = joined c r"
    using first_row_in by (force simp: in_account_rows)
  with assms unique_credential [of B c d] have "ac_version row \<noteq> ac_version a"
    by (simp add: auth_ok_def joined_def)
  with Some show ?thesis
    by (simp add: auth_create_session_def)
qed (simp add: auth_create_session_def)

lemma reset_completed:
  assumes ok: "auth_ok A"
    and done_: "auth_complete_action A now fresh token Reset_Password h handle = Inr (True, A')"
    and email: "auth_action_email A now token Reset_Password = Some email"
    and account: "auth_account A email = Some a"
  obtains c r where "c \<in> set (au_credentials A)" "r \<in> set (au_users A)" "us_id r = cr_user c" "a = joined c r"
    "cr_email c = email" "A' = spend_actions email (change_password (Some (cr_user c)) h A)"
proof -
  obtain c r where c: "c \<in> set (au_credentials A)" "cr_email c = email" "r \<in> set (au_users A)"
      "us_id r = cr_user c" "a = joined c r"
    using account ok by (auto simp: auth_account_iff)
  obtain t where t: "find (live_action now token Reset_Password) (au_actions A) = Some t" "at_email t = email"
    using email by (auto simp: auth_action_email_def)
  then have "t \<in> set (au_actions A)" "at_purpose t = Reset_Password"
    by (auto simp: find_Some_iff live_action_def)
  with ok have "owned A t"
    by (auto simp: auth_ok_def actions_ok_def)
  then obtain d where d: "d \<in> set (au_credentials A)" "at_user t = Some (cr_user d)" "cr_email d = email"
    using t(2) by (auto simp: owned_def)
  then have "d = c"
    using ok c unique_credential [of A d c] by (simp add: auth_ok_def)
  with done_ t d have "A' = spend_actions email (change_password (Some (cr_user c)) h A)"
    by (simp add: auth_complete_action_def)
  with that c show ?thesis
    by blast
qed

lemma reset_fences_sessions_facts:
  assumes "auth_reachable A"
    and "auth_complete_action A now fresh token Reset_Password h handle = Inr (True, A')"
    and "auth_action_email A now token Reset_Password = Some email"
    and "auth_account A email = Some a"
    and "auth_run A' es B"
  shows "auth_account A' email = Some (a\<lparr>ac_hash := h, ac_version := ac_version a + 1\<rparr>)"
    and "ac_user a \<notin> as_user ` set (au_sessions A')"
    and "auth_create_session B now' a token' ttl old = Inr (None, B)"
proof -
  have ok: "auth_ok A" and ok': "auth_ok A'"
    using assms(1,2) auth_reachable_ok complete_ok by blast+
  obtain c r where c: "c \<in> set (au_credentials A)" "r \<in> set (au_users A)" "us_id r = cr_user c" "a = joined c r"
      "cr_email c = email" and A': "A' = spend_actions email (change_password (Some (cr_user c)) h A)"
    by (rule reset_completed [OF ok assms(2-4)])
  let ?d = "c\<lparr>cr_hash := h, cr_version := cr_version c + 1\<rparr>"
  have d: "?d \<in> set (au_credentials A')"
    using c(1) by (auto simp: A' change_password_def)
  have "r \<in> set (au_users A')"
    using c(2) by (simp add: A' spend_actions_def change_password_def)
  with d c show "auth_account A' email = Some (a\<lparr>ac_hash := h, ac_version := ac_version a + 1\<rparr>)"
    by (subst auth_account_iff [OF ok']) (rule bexI [of _ ?d], auto simp: joined_def)
  show "ac_user a \<notin> as_user ` set (au_sessions A')"
    by (auto simp: A' c(4) spend_actions_def change_password_def joined_def)
       (use c(3) in auto)
  obtain e where "e \<in> set (au_credentials B)" "cr_user e = cr_user c" "cr_version c < cr_version e"
    using auth_run_no_older [OF assms(5)] d unfolding no_older_def by fastforce
  with c(3,4) show "auth_create_session B now' a token' ttl old = Inr (None, B)"
    by (intro stale_login_refused auth_run_ok [OF assms(5) ok']) (auto simp: joined_def)
qed

text \<open>A completed password reset logs the user out everywhere and fences every older login: the account then has the
  new hash and the next version, no session of the user is left, and a login that had read the account before the
  reset is refused in every later state of the store, whatever operations come between.\<close>
theorem reset_fences_sessions:
  assumes "auth_reachable A"
    and "auth_complete_action A now fresh token Reset_Password h handle = Inr (True, A')"
    and "auth_action_email A now token Reset_Password = Some email"
    and "auth_account A email = Some a"
    and "auth_run A' es B"
  shows "auth_account A' email = Some (a\<lparr>ac_hash := h, ac_version := ac_version a + 1\<rparr>) \<and>
    ac_user a \<notin> as_user ` set (au_sessions A') \<and>
    auth_create_session B now' a token' ttl old = Inr (None, B)"
  using reset_fences_sessions_facts [OF assms] by blast

section \<open>Action tokens are spent once\<close>

definition holds_token :: "auth_db \<Rightarrow> pystr \<Rightarrow> bool" where
  "holds_token A token \<longleftrightarrow> token \<in> at_token ` set (au_actions A)"

definition held_tokens :: "auth_db \<Rightarrow> pystr \<Rightarrow> nat" where
  "held_tokens A token = (if holds_token A token then 1 else 0)"

lemma held_mono: "at_token ` set (au_actions B) \<subseteq> at_token ` set (au_actions A) \<Longrightarrow> held_tokens B t \<le> held_tokens A t"
  by (auto simp: held_tokens_def holds_token_def)

lemma change_password_actions [simp]: "au_actions (change_password v h A) = au_actions A"
  by (simp add: change_password_def)

lemma insert_account_actions: "insert_account A fresh email h handle admin = Inr A' \<Longrightarrow> au_actions A' = au_actions A"
  by (auto simp: insert_account_def Let_def split: if_splits)

lemma complete_spends:
  assumes "auth_ok A" and "auth_complete_action A now fresh token p h handle = Inr (b, A')"
  shows "held_tokens A' t + count_list [if b then Spent token else Quiet] (Spent t) \<le> held_tokens A t"
proof (cases "find (live_action now token p) (au_actions A)")
  case None
  with assms(2) show ?thesis
    by (simp add: auth_complete_action_def)
next
  case (Some x)
  then have x: "x \<in> set (au_actions A)" "at_token x = token"
    by (auto simp: find_Some_iff live_action_def)
  have "b \<and> (\<exists>B. au_actions B = au_actions A \<and> A' = spend_actions (at_email x) B)"
  proof (cases p)
    case Verify_Email
    with Some assms(2) obtain B where "insert_account A fresh (at_email x) h handle False = Inr B"
        "b" "A' = spend_actions (at_email x) B"
      by (auto simp: auth_complete_action_def rbind_Inr_iff)
    with insert_account_actions show ?thesis
      by blast
  next
    case Reset_Password
    with Some assms(2) have "b" "A' = spend_actions (at_email x) (change_password (at_user x) h A)"
      by (auto simp: auth_complete_action_def)
    with change_password_actions show ?thesis
      by blast
  qed
  then obtain B where b: "b" and B: "au_actions B = au_actions A" "A' = spend_actions (at_email x) B"
    by blast
  have "y = x" if "y \<in> set (au_actions A)" "at_token y = token" for y
    using that x assms(1) by (auto simp: auth_ok_def actions_ok_def distinct_map dest: inj_onD)
  then have "\<not> holds_token A' token"
    by (auto simp: holds_token_def B spend_actions_def)
  moreover have "holds_token A token"
    using x by (auto simp: holds_token_def)
  moreover have "held_tokens A' t \<le> held_tokens A t"
    by (rule held_mono) (auto simp: B spend_actions_def)
  ultimately show ?thesis
    by (cases "t = token") (auto simp: b held_tokens_def)
qed

lemma auth_step_tokens:
  assumes "auth_step A e A'" and "auth_ok A"
  shows "held_tokens A' t + count_list [e] (Spent t) \<le> held_tokens A t + count_list [e] (Issued t)"
  using assms
proof (induction rule: auth_step.induct)
  case (issue A now email p token ttl b A')
  from issue(1) show ?case
    by (cases rule: issue_cases) (auto simp: held_tokens_def holds_token_def)
next
  case (complete A now fresh token p password_hash handle b A')
  with complete_spends [OF complete(2,1), of t] show ?case
    by auto
next
  case (login A now a token ttl old_token r A')
  from login(1) show ?case
    by (cases rule: create_session_cases) (auto simp: held_tokens_def holds_token_def)
next
  case (provision A fresh email password_hash handle admin expected A')
  then have "au_actions A' = au_actions A"
    by (auto simp: auth_provision_account_def insert_account_actions split: if_splits)
  then show ?case
    by (simp add: held_tokens_def holds_token_def)
next
  case (throttle A now buckets window b A')
  then have "set (au_actions A') \<subseteq> set (au_actions A)"
    by (auto simp: auth_throttle_def Let_def purge_def split: if_splits)
  then show ?case
    by (simp add: held_mono image_mono)
next
  case (role A user new_role A')
  then show ?case
    by (auto simp: set_account_role_def held_tokens_def holds_token_def split: if_splits)
qed (auto simp: held_tokens_def holds_token_def auth_revoke_session_def)

text \<open>An action token is spent at most once for each time it was issued: over any history of the store, its
  completions and the copy that is still live together never exceed its issues.\<close>
theorem action_token_spent_once:
  assumes "auth_run empty_auth es A"
  shows "count_list es (Spent token) + (if token \<in> at_token ` set (au_actions A) then 1 else 0) \<le> count_list es (Issued token)"
proof -
  have "held_tokens A token + count_list es (Spent token) \<le> held_tokens Z token + count_list es (Issued token)"
    if "auth_run Z es A" "auth_ok Z" for Z
    using that
  proof (induction rule: auth_run.induct)
    case (step Z es B e C)
    with auth_step_tokens [OF step.hyps(2) auth_run_ok [OF step.hyps(1) step.prems], of token] step.IH [OF step.prems]
    show ?case
      by (simp del: count_list.simps)
  qed simp
  from this [OF assms empty_auth_ok] show ?thesis
    by (simp add: held_tokens_def holds_token_def empty_auth_def split: if_splits)
qed

section \<open>Rate limits hold over a window\<close>

fun throttle_calls :: "auth_db \<Rightarrow> int \<Rightarrow> (int \<times> (pystr \<times> int) list) list \<Rightarrow> bool list" where
  "throttle_calls A window [] = []"
| "throttle_calls A window ((now, buckets) # cs) =
     (let (ok, A') = auth_throttle A now buckets window in ok # throttle_calls A' window cs)"

definition granted :: "pystr \<Rightarrow> (int \<times> (pystr \<times> int) list) list \<Rightarrow> bool list \<Rightarrow> nat" where
  "granted b cs oks = length (filter (\<lambda>((_, buckets), ok). ok \<and> b \<in> fst ` set buckets) (zip cs oks))"

lemma granted_simps [simp]:
  "granted b [] oks = 0"
  "granted b ((now, buckets) # cs) (ok # oks) = (if ok \<and> b \<in> fst ` set buckets then 1 else 0) + granted b cs oks"
  by (simp_all add: granted_def)

lemma attempts_of_row:
  assumes "distinct (map rl_bucket (au_rates A))" and "x \<in> set (au_rates A)"
  shows "attempts_of A (rl_bucket x) = rl_attempts x"
proof -
  obtain y where y: "find (\<lambda>y. rl_bucket y = rl_bucket x) (au_rates A) = Some y"
    using assms(2) by (cases "find (\<lambda>y. rl_bucket y = rl_bucket x) (au_rates A)") (auto simp: find_None_iff)
  then have "y \<in> set (au_rates A)" "rl_bucket y = rl_bucket x"
    by (auto simp: find_Some_iff)
  with assms have "y = x"
    by (auto simp: distinct_map dest: inj_onD)
  with y show ?thesis
    by (simp add: attempts_of_def)
qed

lemma bump_row:
  assumes "x \<in> set xs"
  shows "\<exists>y \<in> set (bump e b xs). rl_bucket y = rl_bucket x \<and> rl_expires y = rl_expires x \<and>
    rl_attempts y = rl_attempts x + (if rl_bucket x = b then 1 else 0)"
proof (cases "rl_bucket x = b")
  case True
  with assms have "x\<lparr>rl_attempts := rl_attempts x + 1\<rparr> \<in> set (bump e b xs)"
    by (auto simp: bump_def)
  with True show ?thesis
    by (intro bexI [of _ "x\<lparr>rl_attempts := rl_attempts x + 1\<rparr>"]) simp_all
next
  case False
  with assms have "x \<in> set (bump e b xs)"
    by (auto simp: bump_def)
  with False show ?thesis
    by force
qed

lemma bumps_row:
  assumes "x \<in> set xs"
  shows "\<exists>y \<in> set (fold (\<lambda>(b, _). bump e b) bs xs). rl_bucket y = rl_bucket x \<and> rl_expires y = rl_expires x \<and>
    rl_attempts x + (if rl_bucket x \<in> fst ` set bs then 1 else 0) \<le> rl_attempts y"
  using assms
proof (induction bs arbitrary: x xs)
  case Nil
  then show ?case
    by force
next
  case (Cons p bs)
  obtain b l where p: "p = (b, l)"
    by force
  obtain y where y: "y \<in> set (bump e b xs)" "rl_bucket y = rl_bucket x" "rl_expires y = rl_expires x"
      "rl_attempts y = rl_attempts x + (if rl_bucket x = b then 1 else 0)"
    using bump_row [OF Cons.prems] by blast
  obtain z where "z \<in> set (fold (\<lambda>(b, _). bump e b) bs (bump e b xs))" "rl_bucket z = rl_bucket y"
      "rl_expires z = rl_expires y" "rl_attempts y + (if rl_bucket y \<in> fst ` set bs then 1 else 0) \<le> rl_attempts z"
    using Cons.IH [OF y(1)] by blast
  with y show ?case
    by (intro bexI [of _ z]) (auto simp: p split: if_splits)
qed
lemma bumps_new_row:
  assumes "b \<in> fst ` set bs" and "b \<notin> rl_bucket ` set xs"
  shows "\<exists>y \<in> set (fold (\<lambda>(b, _). bump e b) bs xs). rl_bucket y = b \<and> rl_expires y = e \<and> 1 \<le> rl_attempts y"
  using assms
proof (induction bs arbitrary: xs)
  case (Cons p bs)
  obtain b' l where p: "p = (b', l)"
    by force
  show ?case
  proof (cases "b' = b")
    case True
    then have "\<lparr>rl_bucket = b, rl_attempts = 1, rl_expires = e\<rparr> \<in> set (bump e b' xs)"
      using Cons.prems(2) by (simp add: bump_def)
    from bumps_row [OF this, of e bs] show ?thesis
      by (force simp: p split: if_splits)
  next
    case False
    then have "b \<notin> rl_bucket ` set (bump e b' xs)" "b \<in> fst ` set bs"
      using Cons.prems by (auto simp: bump_def p)
    with Cons.IH [of "bump e b' xs"] show ?thesis
      by (simp add: p)
  qed
qed simp

lemma bumps_other:
  assumes "b \<notin> fst ` set bs" and "b \<notin> rl_bucket ` set xs"
  shows "b \<notin> rl_bucket ` set (fold (\<lambda>(b, _). bump e b) bs xs)"
  using assms
proof (induction bs arbitrary: xs)
  case (Cons p bs)
  then have "b \<notin> rl_bucket ` set (bump e (fst p) xs)"
    by (auto simp: bump_def)
  with Cons show ?case
    by (simp add: case_prod_beta)
qed simp

text \<open>Within a window, calls on a bucket that has its row.\<close>

lemma throttle_calls_row:
  assumes "distinct (map rl_bucket (au_rates A))" and "x \<in> set (au_rates A)" and "rl_bucket x = b"
    and "list_all (\<lambda>(now, buckets). now < rl_expires x \<and> (\<forall>limit. (b, limit) \<in> set buckets \<longrightarrow> limit \<le> L)) cs"
  shows "int (granted b cs (throttle_calls A window cs)) \<le> max 0 (L - rl_attempts x)"
  using assms
proof (induction cs arbitrary: A x)
  case (Cons c cs)
  obtain now buckets where c: "c = (now, buckets)"
    by force
  let ?P = "purge now A"
  have rows: "distinct (map rl_bucket (au_rates ?P))" "x \<in> set (au_rates ?P)"
    using Cons.prems by (auto simp: purge_def c distinct_map_filter)
  show ?case
  proof (cases "list_ex (over_limit ?P) buckets")
    case True
    then have "throttle_calls A window (c # cs) = False # throttle_calls ?P window cs"
      by (simp add: c auth_throttle_def Let_def)
    then show ?thesis
      using Cons.IH [OF rows Cons.prems(3)] Cons.prems(4) by (simp add: c)
  next
    case False
    let ?rs = "fold (\<lambda>(b, _). bump (now + window) b) buckets (au_rates ?P)"
    have calls: "throttle_calls A window (c # cs) = True # throttle_calls (?P\<lparr>au_rates := ?rs\<rparr>) window cs"
      using False by (simp add: c auth_throttle_def Let_def)
    obtain y where y: "y \<in> set ?rs" "rl_bucket y = b" "rl_expires y = rl_expires x"
        "rl_attempts x + (if b \<in> fst ` set buckets then 1 else 0) \<le> rl_attempts y"
      using bumps_row [OF rows(2), of "now + window" buckets] Cons.prems(3) by auto
    have "rl_attempts x < L" if "b \<in> fst ` set buckets"
    proof -
      from that obtain limit where "(b, limit) \<in> set buckets"
        by force
      with False Cons.prems(4) attempts_of_row [OF rows] show ?thesis
        using rows(2) Cons.prems(3) by (force simp: list_ex_iff over_limit_def c)
    qed
    moreover have "int (granted b cs (throttle_calls (?P\<lparr>au_rates := ?rs\<rparr>) window cs)) \<le> max 0 (L - rl_attempts y)"
      using Cons.prems(4) rows(1) y by (intro Cons.IH) (auto simp: bumps_distinct)
    ultimately show ?thesis
      using y(4) unfolding calls unfolding c by (auto split: if_splits)
  qed
qed simp

text \<open>The rate limit: over any calls that fall within one window of a bucket that has no row yet, and that name the
  bucket with limits of at most \<open>L\<close>, at most \<open>L\<close> are let through (one, when \<open>L\<close> is below one).\<close>
theorem throttle_bounds_attempts:
  assumes "distinct (map rl_bucket (au_rates A))" and "b \<notin> rl_bucket ` set (au_rates A)"
    and "list_all (\<lambda>(now, buckets). t \<le> now \<and> now < t + window \<and>
      (\<forall>limit. (b, limit) \<in> set buckets \<longrightarrow> limit \<le> L)) cs"
  shows "int (granted b cs (throttle_calls A window cs)) \<le> max 1 L"
  using assms
proof (induction cs arbitrary: A)
  case (Cons c cs)
  obtain now buckets where c: "c = (now, buckets)"
    by force
  let ?P = "purge now A"
  have rows: "distinct (map rl_bucket (au_rates ?P))" "b \<notin> rl_bucket ` set (au_rates ?P)"
    using Cons.prems by (auto simp: purge_def distinct_map_filter)
  show ?case
  proof (cases "list_ex (over_limit ?P) buckets")
    case True
    then have "throttle_calls A window (c # cs) = False # throttle_calls ?P window cs"
      by (simp add: c auth_throttle_def Let_def)
    then show ?thesis
      using Cons.IH [OF rows] Cons.prems(3) by (simp add: c)
  next
    case False
    let ?B = "?P\<lparr>au_rates := fold (\<lambda>(b, _). bump (now + window) b) buckets (au_rates ?P)\<rparr>"
    have calls: "throttle_calls A window (c # cs) = True # throttle_calls ?B window cs"
      using False by (simp add: c auth_throttle_def Let_def)
    have B: "distinct (map rl_bucket (au_rates ?B))"
      using rows(1) by (simp add: bumps_distinct)
    show ?thesis
    proof (cases "b \<in> fst ` set buckets")
      case True
      then obtain y where y: "y \<in> set (au_rates ?B)" "rl_bucket y = b" "rl_expires y = now + window" "1 \<le> rl_attempts y"
        using bumps_new_row [OF True rows(2)] by auto
      have "list_all (\<lambda>(now, buckets). now < rl_expires y \<and> (\<forall>limit. (b, limit) \<in> set buckets \<longrightarrow> limit \<le> L)) cs"
        using Cons.prems(3) y(3) by (auto simp: list_all_iff c)
      from throttle_calls_row [OF B y(1,2) this, of window] y(4) True show ?thesis
        unfolding calls unfolding c by auto
    next
      case False
      with bumps_other [OF False rows(2)] Cons.IH [OF B] Cons.prems(3) show ?thesis
        unfolding calls unfolding c by simp
    qed
  qed
qed simp
section \<open>Examples\<close>

definition demo_email :: pystr where "demo_email = u ''ann@example''"
definition demo_token :: pystr where "demo_token = u ''digest''"

definition demo_account :: account where
  "demo_account = \<lparr>ac_user = u ''id1'', ac_subject = u ''account:id1'', ac_handle = u ''ann'', ac_admin = False,
     ac_email = demo_email, ac_hash = u ''h1'', ac_version = 1\<rparr>"

definition demo_registered :: auth_db where
  "demo_registered = \<lparr>au_users = [\<lparr>us_id = u ''id1'', us_subject = u ''account:id1'', us_handle = u ''ann'', us_admin = False\<rparr>],
     au_credentials = [\<lparr>cr_user = u ''id1'', cr_email = demo_email, cr_hash = u ''h1'', cr_version = 1\<rparr>],
     au_sessions = [], au_actions = [], au_rates = []\<rparr>"

definition demo_requested :: auth_db where
  "demo_requested = demo_registered\<lparr>au_actions :=
     [\<lparr>at_token = demo_token, at_purpose = Reset_Password, at_email = demo_email, at_user = Some (u ''id1''), at_expires = 150\<rparr>]\<rparr>"

definition demo_reset :: auth_db where
  "demo_reset = demo_registered\<lparr>au_credentials :=
     [\<lparr>cr_user = u ''id1'', cr_email = demo_email, cr_hash = u ''h2'', cr_version = 2\<rparr>]\<rparr>"

lemmas demo_defs = demo_email_def demo_token_def demo_account_def demo_registered_def demo_requested_def demo_reset_def

lemma demo_steps:
  "auth_provision_account empty_auth (u ''id1'') demo_email (u ''h1'') (u ''ann'') False None = Inr demo_registered"
  "auth_issue_action demo_registered 100 demo_email Reset_Password demo_token 50 = Inr (True, demo_requested)"
  "auth_complete_action demo_requested 120 (u ''x'') demo_token Reset_Password (u ''h2'') None = Inr (True, demo_reset)"
  "auth_action_email demo_requested 120 demo_token Reset_Password = Some demo_email"
  "auth_account demo_requested demo_email = Some demo_account"
  by code_simp+

lemma demo_auth_run: "auth_run empty_auth [Quiet, Issued demo_token] demo_requested"
proof -
  have "auth_run empty_auth ([] @ [Quiet]) demo_registered"
    by (rule auth_run.step [OF auth_run.start auth_step.provision [OF demo_steps(1)]])
  from auth_run.step [OF this auth_step.issue [OF demo_steps(2)]] show ?thesis
    by simp
qed

lemma demo_run_reset: "auth_run empty_auth [Quiet, Issued demo_token, Spent demo_token] demo_reset"
  using auth_run.step [OF demo_auth_run auth_step.complete [OF demo_steps(3)]] by simp

theorem reset_fences_sessions_witness:
  "auth_account demo_reset demo_email = Some (demo_account\<lparr>ac_hash := u ''h2'', ac_version := 2\<rparr>)
   \<and> auth_create_session demo_reset 130 demo_account (u ''t'') 60 None = Inr (None, demo_reset)"
proof -
  have reach: "auth_reachable demo_requested"
    using demo_auth_run by (auto simp: auth_reachable_def)
  note p = reset_fences_sessions [OF reach demo_steps(3-5) auth_run.start]
  have "demo_account\<lparr>ac_hash := u ''h2'', ac_version := ac_version demo_account + 1\<rparr> = demo_account\<lparr>ac_hash := u ''h2'', ac_version := 2\<rparr>"
    by (simp add: demo_account_def)
  with p [of 130 "u ''t''" 60 None] show ?thesis
    by simp
qed

theorem action_token_spent_once_witness:
  "count_list [Quiet, Issued demo_token, Spent demo_token] (Spent demo_token) \<le>
   count_list [Quiet, Issued demo_token, Spent demo_token] (Issued demo_token)"
  using action_token_spent_once [OF demo_run_reset, of demo_token] by (simp only: add_leE split: if_splits)

theorem throttle_bounds_attempts_witness:
  "int (granted (u ''ip'') [(5, [(u ''ip'', 2)]), (6, [(u ''ip'', 2)]), (7, [(u ''ip'', 2)])]
      (throttle_calls empty_auth 900 [(5, [(u ''ip'', 2)]), (6, [(u ''ip'', 2)]), (7, [(u ''ip'', 2)])])) \<le> max 1 2
   \<and> throttle_calls empty_auth 900 [(5, [(u ''ip'', 2)]), (6, [(u ''ip'', 2)]), (7, [(u ''ip'', 2)])] = [True, True, False]"
proof
  show "int (granted (u ''ip'') [(5, [(u ''ip'', 2)]), (6, [(u ''ip'', 2)]), (7, [(u ''ip'', 2)])]
      (throttle_calls empty_auth 900 [(5, [(u ''ip'', 2)]), (6, [(u ''ip'', 2)]), (7, [(u ''ip'', 2)])])) \<le> max 1 2"
    by (rule throttle_bounds_attempts [where t = 0]) (simp_all add: empty_auth_def)
qed code_simp

end
