(* ===== verification/Auth_Service.thy ===== *)
theory Auth_Service
  imports Auth_Store Challenge "HOL-Library.Sublist"
begin

text \<open>
  The account service of \<open>src/linguistic_oj/auth.py\<close>, its mail queue (\<open>auth_mail.py\<close>) and the request checks of
  \<open>auth_routes.py\<close>, over the account store.  Each call of the store is a transaction of its own: \<open>others k\<close> is what other
  processes did to the tables before the \<open>k\<close>-th of them and \<open>clock k\<close> its time.  Argon2, SHA-256, e-mail validation,
  case folding, Unicode categories and the reading of IP addresses are the fields of \<open>auth_runtime\<close>; drawn tokens and
  salts are arguments, and \<open>slot\<close> tells whether one of the four hashing slots is free.
\<close>

section \<open>Errors, requests and the runtime\<close>

datatype auth_failure = Api_Error string int | Authentication_Error | Fault py_exc

type_synonym 'a answer = "auth_failure + 'a"

definition auth_error :: "string \<Rightarrow> int \<Rightarrow> 'a answer" where
  "auth_error c status = Inl (Api_Error c status)"

datatype ip_address = IPv4 nat | IPv6 nat

record auth_runtime =
  ar_digest :: "pystr \<Rightarrow> pystr"
  ar_casefold :: "pystr \<Rightarrow> pystr"
  ar_validate_email :: "pystr \<Rightarrow> pystr option"
  ar_make_hash :: "pystr \<Rightarrow> pystr \<Rightarrow> pystr"
  ar_verify :: "pystr \<Rightarrow> pystr \<Rightarrow> bool"
  ar_dummy_hash :: pystr
  ar_control :: "nat \<Rightarrow> bool"
  ar_ip :: "pystr \<Rightarrow> ip_address option"
  ar_network_text :: "ip_address \<Rightarrow> nat \<Rightarrow> pystr"

record auth_settings =
  st_origin :: pystr
  st_host :: pystr
  st_development :: bool
  st_cookie :: pystr
  st_trusted :: "ip_address set"

text \<open>Header names are lower case, as ASGI delivers them.\<close>

record request =
  rq_method :: string
  rq_path :: pystr
  rq_scheme :: pystr
  rq_peer :: "pystr option"
  rq_headers :: "(pystr \<times> pystr) list"

definition getlist :: "request \<Rightarrow> string \<Rightarrow> pystr list" where
  "getlist rq name = map snd (filter (\<lambda>(n, _). n = u name) (rq_headers rq))"

section \<open>Input rules\<close>

definition SESSION_SECONDS :: int where "SESSION_SECONDS = 8 * 60 * 60"
definition VERIFY_SECONDS :: int where "VERIFY_SECONDS = 30 * 60"
definition RESET_SECONDS :: int where "RESET_SECONDS = 15 * 60"

definition normalize_email :: "auth_runtime \<Rightarrow> pystr \<Rightarrow> pystr answer" where
  "normalize_email R value =
     (let v = ar_casefold R (py_strip value)
      in case utf8 v of
           Inl _ \<Rightarrow> auth_error ''AUTH_VALIDATION_ERROR'' 422
         | Inr bs \<Rightarrow>
             if 254 < length bs then auth_error ''AUTH_VALIDATION_ERROR'' 422
             else (case ar_validate_email R v of
                     None \<Rightarrow> auth_error ''AUTH_VALIDATION_ERROR'' 422
                   | Some n \<Rightarrow> Inr (ar_casefold R n)))"

definition password_ok :: "pystr \<Rightarrow> bool" where
  "password_ok p \<longleftrightarrow> 8 \<le> length p \<and> length p \<le> 128 \<and>
     (case utf8 p of Inl _ \<Rightarrow> False | Inr bs \<Rightarrow> length bs \<le> 512)"

definition validate_password :: "pystr \<Rightarrow> unit answer" where
  "validate_password p = (if password_ok p then Inr () else auth_error ''AUTH_VALIDATION_ERROR'' 422)"

definition validate_handle :: "auth_runtime \<Rightarrow> pystr option \<Rightarrow> unit answer" where
  "validate_handle R h =
     (case h of
        None \<Rightarrow> auth_error ''AUTH_VALIDATION_ERROR'' 422
      | Some v \<Rightarrow>
          if length v < 3 \<or> 32 < length v \<or> 64 \<in> set v \<or> v \<noteq> py_strip v \<or> list_ex (ar_control R) v
          then auth_error ''AUTH_VALIDATION_ERROR'' 422 else Inr ())"

definition token_char :: "nat \<Rightarrow> bool" where
  "token_char c \<longleftrightarrow> 65 \<le> c \<and> c \<le> 90 \<or> 97 \<le> c \<and> c \<le> 122 \<or> 48 \<le> c \<and> c \<le> 57 \<or> c = 95 \<or> c = 45"

definition is_token :: "pystr \<Rightarrow> bool" where
  "is_token t \<longleftrightarrow> length t = 43 \<and> list_all token_char t"

section \<open>Cookies and addresses\<close>

definition cookie_values :: "auth_settings \<Rightarrow> request \<Rightarrow> pystr list" where
  "cookie_values S rq =
     concat (map (\<lambda>header. concat (map (\<lambda>part.
        (let p = py_strip part;
             name = py_strip (takeWhile (\<lambda>c. c \<noteq> 61) p);
             value = drop 1 (dropWhile (\<lambda>c. c \<noteq> 61) p)
         in if name = st_cookie S then [value] else [])) (split_on 59 header))) (getlist rq ''cookie''))"

text \<open>Several cookies of the same name are refused: no winner is picked.\<close>

definition cookie_token :: "auth_settings \<Rightarrow> request \<Rightarrow> pystr option answer" where
  "cookie_token S rq =
     (case cookie_values S rq of
        [] \<Rightarrow> Inr None
      | [v] \<Rightarrow> if is_token v then Inr (Some v) else Inl Authentication_Error
      | _ \<Rightarrow> Inl Authentication_Error)"

definition guard_host :: "auth_settings \<Rightarrow> request \<Rightarrow> unit answer" where
  "guard_host S rq =
     (if st_development S \<and> (rq_scheme rq \<noteq> u ''http'' \<or> getlist rq ''host'' \<noteq> [st_host S])
      then auth_error ''AUTH_HOST_REJECTED'' 403 else Inr ())"

definition ip_value :: "auth_runtime \<Rightarrow> pystr \<Rightarrow> ip_address option" where
  "ip_value R v =
     (if 37 \<in> set v then None
      else map_option (\<lambda>a. case a of IPv6 n \<Rightarrow> if n div 2 ^ 32 = 65535 then IPv4 (n mod 2 ^ 32) else a | _ \<Rightarrow> a) (ar_ip R v))"

definition client_address :: "auth_runtime \<Rightarrow> auth_settings \<Rightarrow> request \<Rightarrow> ip_address option answer" where
  "client_address R S rq =
     (case ip_value R (case rq_peer rq of None \<Rightarrow> u ''unknown'' | Some p \<Rightarrow> p) of
        None \<Rightarrow> Inr None
      | Some a \<Rightarrow>
          if a \<in> st_trusted S
          then (case getlist rq ''x-loj-client-ip'' of
                  [v] \<Rightarrow> (case ip_value R v of
                            None \<Rightarrow> auth_error ''AUTH_PROXY_REJECTED'' 403
                          | Some b \<Rightarrow> Inr (Some b))
                | _ \<Rightarrow> auth_error ''AUTH_PROXY_REJECTED'' 403)
          else Inr (Some a))"

fun peer_text :: "auth_runtime \<Rightarrow> ip_address option \<Rightarrow> pystr" where
  "peer_text R None = u ''unknown''"
| "peer_text R (Some (IPv4 n)) = ar_network_text R (IPv4 (n div 2 ^ 8 * 2 ^ 8)) 24"
| "peer_text R (Some (IPv6 n)) = ar_network_text R (IPv6 (n div 2 ^ 64 * 2 ^ 64)) 64"

section \<open>The mail queue\<close>

text \<open>\<open>ml_worker\<close> is \<open>None\<close> before the worker thread was started, and tells whether it is alive afterwards.\<close>

type_synonym mail_job = "pystr \<times> purpose"

record mail_queue =
  ml_capacity :: nat
  ml_worker :: "bool option"
  ml_stopping :: bool
  ml_pending :: "mail_job list"
  ml_active :: "mail_job option"

definition AuthMailQueue :: "nat \<Rightarrow> mail_queue result" where
  "AuthMailQueue n = (if n < 1 then raise ValueError ''mail queue capacity must be positive''
     else Inr \<lparr>ml_capacity = n, ml_worker = None, ml_stopping = True, ml_pending = [], ml_active = None\<rparr>)"

definition MAIL_QUEUE_CAPACITY :: nat where "MAIL_QUEUE_CAPACITY = 64"

definition mail_start :: "bool \<Rightarrow> mail_queue \<Rightarrow> unit result \<times> mail_queue" where
  "mail_start spawned q =
     (case ml_worker q of
        Some alive \<Rightarrow> (if ml_stopping q \<or> \<not> alive then raise RuntimeError ''mail worker is unavailable'' else Inr (), q)
      | None \<Rightarrow> if spawned then (Inr (), q\<lparr>ml_stopping := False, ml_worker := Some True\<rparr>)
                else (raise RuntimeError ''mail worker could not start'', q\<lparr>ml_worker := None, ml_stopping := True\<rparr>))"

definition mail_submit :: "mail_job \<Rightarrow> mail_queue \<Rightarrow> unit result \<times> mail_queue" where
  "mail_submit job q =
     (if ml_worker q \<noteq> Some True \<or> ml_stopping q \<or> ml_capacity q \<le> length (ml_pending q)
      then (raise RuntimeError ''mail queue is unavailable'', q)
      else (Inr (), q\<lparr>ml_pending := ml_pending q @ [job]\<rparr>))"

text \<open>One wake-up of the worker loop: it ends when stopping, else takes the oldest job.\<close>

definition mail_take :: "mail_queue \<Rightarrow> mail_job option \<times> mail_queue" where
  "mail_take q =
     (if ml_worker q \<noteq> Some True \<or> ml_active q \<noteq> None then (None, q)
      else if ml_stopping q then (None, q\<lparr>ml_worker := Some False\<rparr>)
      else (case ml_pending q of
              [] \<Rightarrow> (None, q)
            | job # rest \<Rightarrow> (Some job, q\<lparr>ml_pending := rest, ml_active := Some job\<rparr>)))"

definition mail_finished :: "mail_queue \<Rightarrow> mail_queue" where
  "mail_finished q = q\<lparr>ml_active := None\<rparr>"

text \<open>\<open>stop\<close> waits for the worker before its second part; jobs that are still pending are dropped.\<close>

definition mail_stop_begin :: "mail_queue \<Rightarrow> mail_queue" where
  "mail_stop_begin q = q\<lparr>ml_stopping := True, ml_pending := []\<rparr>"

definition mail_stop_end :: "mail_queue \<Rightarrow> unit result \<times> mail_queue" where
  "mail_stop_end q =
     (case ml_worker q of
        None \<Rightarrow> (Inr (), q)
      | Some True \<Rightarrow> (raise RuntimeError ''mail worker did not stop within the shutdown deadline'', q)
      | Some False \<Rightarrow> (Inr (), q\<lparr>ml_worker := None\<rparr>))"

section \<open>The service\<close>

record service =
  sv_db :: auth_db
  sv_mail :: mail_queue
  sv_sent :: "(pystr \<times> purpose \<times> pystr) list"
  sv_hashes :: nat

type_synonym 'a act = "service \<Rightarrow> 'a answer \<times> service"

definition abind :: "'a act \<Rightarrow> ('a \<Rightarrow> 'b act) \<Rightarrow> 'b act" where
  "abind m f s = (case m s of (Inl e, s') \<Rightarrow> (Inl e, s') | (Inr x, s') \<Rightarrow> f x s')"

definition apure :: "'a answer \<Rightarrow> 'a act" where
  "apure r s = (r, s)"

text \<open>A read-only, a total and a fallible transaction; a raised exception rolls back.\<close>

definition query :: "(auth_db \<Rightarrow> auth_db) \<Rightarrow> (auth_db \<Rightarrow> 'a) \<Rightarrow> 'a act" where
  "query other f s = (let A = other (sv_db s) in (Inr (f A), s\<lparr>sv_db := A\<rparr>))"

definition update :: "(auth_db \<Rightarrow> auth_db) \<Rightarrow> (auth_db \<Rightarrow> 'a \<times> auth_db) \<Rightarrow> 'a act" where
  "update other f s = (let A = other (sv_db s) in case f A of (x, A') \<Rightarrow> (Inr x, s\<lparr>sv_db := A'\<rparr>))"

definition transact :: "(auth_db \<Rightarrow> auth_db) \<Rightarrow> (auth_db \<Rightarrow> ('a \<times> auth_db) result) \<Rightarrow> 'a act" where
  "transact other f s =
     (let A = other (sv_db s)
      in case f A of Inl e \<Rightarrow> (Inl (Fault e), s\<lparr>sv_db := A\<rparr>) | Inr (x, A') \<Rightarrow> (Inr x, s\<lparr>sv_db := A'\<rparr>))"

text \<open>Every use of Argon2 is counted.\<close>

definition hash_slot :: "bool \<Rightarrow> 'a \<Rightarrow> 'a act" where
  "hash_slot slot x s = (if slot then (Inr x, s\<lparr>sv_hashes := sv_hashes s + 1\<rparr>) else (auth_error ''AUTH_RATE_LIMITED'' 429, s))"

definition throttle :: "auth_runtime \<Rightarrow> auth_settings \<Rightarrow> (auth_db \<Rightarrow> auth_db) \<Rightarrow> int \<Rightarrow> request \<Rightarrow> pystr \<Rightarrow> pystr \<Rightarrow> bool
    \<Rightarrow> unit act" where
  "throttle R S other now rq operation identity mail =
     abind (apure (client_address R S rq)) (\<lambda>address.
     abind (update other (\<lambda>A. auth_throttle A now
        [(u ''peer:'' @ ar_digest R (operation @ u '':'' @ peer_text R address), if mail then 30 else 100),
         (u ''identity:'' @ ar_digest R (operation @ u '':'' @ identity), if mail then 5 else 10)] 900)) (\<lambda>allowed.
       apure (if allowed then Inr () else auth_error ''AUTH_RATE_LIMITED'' 429)))"

fun purpose_text :: "purpose \<Rightarrow> pystr" where
  "purpose_text Verify_Email = u ''verify-email''"
| "purpose_text Reset_Password = u ''reset-password''"

definition deliver_link :: "auth_runtime \<Rightarrow> (auth_db \<Rightarrow> auth_db) \<Rightarrow> int \<Rightarrow> pystr \<Rightarrow> bool \<Rightarrow> pystr \<Rightarrow> purpose \<Rightarrow> unit act" where
  "deliver_link R other now token mailed email p =
     abind (transact other (\<lambda>A. auth_issue_action A now email p (ar_digest R token)
        (if p = Verify_Email then VERIFY_SECONDS else RESET_SECONDS))) (\<lambda>issued s.
       if \<not> issued then (Inr (), s)
       else if mailed then (Inr (), s\<lparr>sv_sent := sv_sent s @ [(email, p, token)]\<rparr>)
       else (Inl (Fault (Exc OSError ''mail'')), s))"

definition submit_mail :: "mail_job \<Rightarrow> unit act" where
  "submit_mail job s = (case mail_submit job (sv_mail s) of
     (Inl e, q) \<Rightarrow> (Inl (Fault e), s\<lparr>sv_mail := q\<rparr>) | (Inr _, q) \<Rightarrow> (Inr (), s\<lparr>sv_mail := q\<rparr>))"

text \<open>Whatever goes wrong with mail is one error to the client.\<close>

definition or_not_ready :: "'a act \<Rightarrow> 'a act" where
  "or_not_ready m s = (case m s of (Inl _, s') \<Rightarrow> (auth_error ''SERVICE_NOT_READY'' 503, s') | (Inr x, s') \<Rightarrow> (Inr x, s'))"

definition request_link :: "auth_runtime \<Rightarrow> auth_settings \<Rightarrow> (nat \<Rightarrow> auth_db \<Rightarrow> auth_db) \<Rightarrow> (nat \<Rightarrow> int) \<Rightarrow> pystr \<Rightarrow> bool
    \<Rightarrow> request \<Rightarrow> pystr \<Rightarrow> purpose \<Rightarrow> unit act" where
  "request_link R S others clock token mailed rq email p =
     abind (apure (normalize_email R email)) (\<lambda>email.
     abind (throttle R S (others 0) (clock 0) rq (u ''mail:'' @ purpose_text p) email True) (\<lambda>_.
       or_not_ready
         (if st_development S then deliver_link R (others 1) (clock 1) token mailed email p else submit_mail (email, p))))"

text \<open>The mail worker delivers one job; a failure is only logged.\<close>

definition mail_worker :: "auth_runtime \<Rightarrow> (auth_db \<Rightarrow> auth_db) \<Rightarrow> int \<Rightarrow> pystr \<Rightarrow> bool \<Rightarrow> service \<Rightarrow> service" where
  "mail_worker R other now token mailed s =
     (case mail_take (sv_mail s) of
        (None, q) \<Rightarrow> s\<lparr>sv_mail := q\<rparr>
      | (Some (email, p), q) \<Rightarrow>
          (let s' = snd (deliver_link R other now token mailed email p (s\<lparr>sv_mail := q\<rparr>))
           in s'\<lparr>sv_mail := mail_finished (sv_mail s')\<rparr>))"

definition conflict_is_invalid :: "'a act \<Rightarrow> 'a act" where
  "conflict_is_invalid m s =
     (case m s of
        (Inl (Fault e), s') \<Rightarrow> (if catches AuthConflictError e then auth_error ''AUTH_VALIDATION_ERROR'' 422 else Inl (Fault e), s')
      | r \<Rightarrow> r)"

definition complete_link :: "auth_runtime \<Rightarrow> auth_settings \<Rightarrow> (nat \<Rightarrow> auth_db \<Rightarrow> auth_db) \<Rightarrow> (nat \<Rightarrow> int) \<Rightarrow> bool \<Rightarrow> pystr
    \<Rightarrow> pystr \<Rightarrow> request \<Rightarrow> pystr \<Rightarrow> pystr \<Rightarrow> purpose \<Rightarrow> pystr option \<Rightarrow> unit act" where
  "complete_link R S others clock slot salt fresh rq token password p handle =
     (let token_hash = ar_digest R token
      in abind (if is_token token then query (others 0) (\<lambda>A. auth_action_email A (clock 0) token_hash p) else apure (Inr None)) (\<lambda>email.
         abind (throttle R S (others 1) (clock 1) rq (u ''confirm:'' @ purpose_text p)
             (case email of Some e \<Rightarrow> if e = [] then token_hash else e | None \<Rightarrow> token_hash) False) (\<lambda>_.
         abind (apure (if email = None then auth_error ''AUTH_INVALID_TOKEN'' 401 else Inr ())) (\<lambda>_.
         abind (apure (validate_password password)) (\<lambda>_.
         abind (apure (if p = Verify_Email then validate_handle R handle else Inr ())) (\<lambda>_.
         abind (hash_slot slot (ar_make_hash R salt password)) (\<lambda>password_hash.
         abind (conflict_is_invalid (transact (others 2)
             (\<lambda>A. auth_complete_action A (clock 2) fresh token_hash p password_hash handle))) (\<lambda>completed.
           apure (if completed then Inr () else auth_error ''AUTH_INVALID_TOKEN'' 401)))))))))"

definition login :: "auth_runtime \<Rightarrow> auth_settings \<Rightarrow> (nat \<Rightarrow> auth_db \<Rightarrow> auth_db) \<Rightarrow> (nat \<Rightarrow> int) \<Rightarrow> bool \<Rightarrow> pystr
    \<Rightarrow> request \<Rightarrow> pystr \<Rightarrow> pystr \<Rightarrow> ((account \<times> int) \<times> pystr) act" where
  "login R S others clock slot token rq email password =
     abind (apure (normalize_email R email)) (\<lambda>email.
     abind (throttle R S (others 0) (clock 0) rq (u ''login'') email False) (\<lambda>_.
     abind (apure (validate_password password)) (\<lambda>_.
     abind (query (others 1) (\<lambda>A. auth_account A email)) (\<lambda>account.
     abind (hash_slot slot (ar_verify R (case account of None \<Rightarrow> ar_dummy_hash R | Some a \<Rightarrow> ac_hash a) password)) (\<lambda>valid.
       (case account of
          None \<Rightarrow> apure (auth_error ''AUTH_INVALID_CREDENTIALS'' 401)
        | Some a \<Rightarrow>
            if \<not> valid then apure (auth_error ''AUTH_INVALID_CREDENTIALS'' 401)
            else
              abind (apure (cookie_token S rq)) (\<lambda>old.
              abind (transact (others 2) (\<lambda>A. auth_create_session A (clock 2) a (ar_digest R token) SESSION_SECONDS
                  (map_option (ar_digest R) old))) (\<lambda>session.
                apure (case session of
                         None \<Rightarrow> auth_error ''AUTH_INVALID_CREDENTIALS'' 401
                       | Some x \<Rightarrow> Inr (x, token))))))))))"

definition logout :: "auth_runtime \<Rightarrow> auth_settings \<Rightarrow> (auth_db \<Rightarrow> auth_db) \<Rightarrow> request \<Rightarrow> unit act" where
  "logout R S other rq =
     abind (apure (cookie_token S rq)) (\<lambda>token.
       (case token of
          None \<Rightarrow> apure (Inr ())
        | Some t \<Rightarrow> update other (\<lambda>A. ((), auth_revoke_session A (ar_digest R t)))))"

definition session :: "auth_runtime \<Rightarrow> auth_settings \<Rightarrow> (auth_db \<Rightarrow> auth_db) \<Rightarrow> int \<Rightarrow> request \<Rightarrow> (account \<times> int) act" where
  "session R S other now rq =
     abind (apure (guard_host S rq)) (\<lambda>_.
     abind (apure (cookie_token S rq)) (\<lambda>token.
       (case token of
          None \<Rightarrow> apure (Inl Authentication_Error)
        | Some t \<Rightarrow>
            abind (query other (\<lambda>A. auth_session A now (ar_digest R t))) (\<lambda>found.
              apure (case found of None \<Rightarrow> Inl Authentication_Error | Some x \<Rightarrow> Inr x)))))"

definition authenticate :: "auth_runtime \<Rightarrow> auth_settings \<Rightarrow> (auth_db \<Rightarrow> auth_db) \<Rightarrow> int \<Rightarrow> request \<Rightarrow> pystr act" where
  "authenticate R S other now rq =
     abind (session R S other now rq) (\<lambda>(a, _).
       apure (if getlist rq ''x-loj-expected-user'' \<noteq> [] \<and> getlist rq ''x-loj-expected-user'' \<noteq> [ac_user a]
              then auth_error ''AUTH_ACCOUNT_CHANGED'' 409 else Inr (ac_subject a)))"
text \<open>Only in development, for addresses under \<open>.test\<close>; an account that differs is never overwritten.\<close>

definition provision_development_account :: "auth_runtime \<Rightarrow> auth_settings \<Rightarrow> (nat \<Rightarrow> auth_db \<Rightarrow> auth_db) \<Rightarrow> bool \<Rightarrow> pystr \<Rightarrow> pystr
    \<Rightarrow> pystr \<Rightarrow> pystr \<Rightarrow> pystr \<Rightarrow> pystr \<Rightarrow> unit act" where
  "provision_development_account R S others slot salt fresh email password handle role =
     (if \<not> st_development S then apure (Inl (Fault (Exc ValueError ''development account provisioning is disabled'')))
      else
        abind (apure (normalize_email R email)) (\<lambda>email.
        (let domain = rev (takeWhile (\<lambda>c. c \<noteq> 64) (rev email))
         in abind (apure (if length domain < 5 \<or> drop (length domain - 5) domain \<noteq> u ''.test'' \<or> role \<notin> {u ''user'', u ''admin''}
                    then Inl (Fault (Exc ValueError ''development accounts require a .test domain and a valid role'')) else Inr ())) (\<lambda>_.
            abind (apure (validate_password password)) (\<lambda>_.
            abind (apure (validate_handle R (Some handle))) (\<lambda>_.
            abind (query (others 0) (\<lambda>A. auth_account A email)) (\<lambda>account.
            abind (case account of
                     None \<Rightarrow> hash_slot slot (ar_make_hash R salt password)
                   | Some a \<Rightarrow>
                       abind (hash_slot slot (ar_verify R (ac_hash a) password)) (\<lambda>same.
                         apure (if \<not> same \<or> ac_handle a \<noteq> handle \<or> ac_admin a \<noteq> (role = u ''admin'')
                                then Inl (Fault (Exc ValueError ''development account differs; refusing to overwrite''))
                                else Inr (ac_hash a)))) (\<lambda>password_hash.
              transact (others 1) (\<lambda>A. map_sum id (\<lambda>A'. ((), A'))
                (auth_provision_account A fresh email password_hash handle (role = u ''admin'') account))))))))))"

section \<open>Request checks\<close>

text \<open>What \<open>AuthMiddleware\<close> checks before a request reaches a route.\<close>

definition under :: "string \<Rightarrow> pystr \<Rightarrow> bool" where
  "under base path \<longleftrightarrow> path = u base \<or> take (length base + 1) path = u (base @ ''/'')"

definition auth_path :: "request \<Rightarrow> bool" where
  "auth_path rq \<longleftrightarrow> under ''/v1/auth'' (rq_path rq)"

definition admin_path :: "request \<Rightarrow> bool" where
  "admin_path rq \<longleftrightarrow> under ''/v1/admin'' (rq_path rq)"

definition private_path :: "request \<Rightarrow> bool" where
  "private_path rq \<longleftrightarrow> admin_path rq \<or> rq_path rq = u ''/v1/users/me'' \<or> under ''/v1/submissions'' (rq_path rq)"

definition mutating :: "request \<Rightarrow> bool" where
  "mutating rq \<longleftrightarrow> rq_method rq \<notin> {''GET'', ''HEAD'', ''OPTIONS''}"

definition lower :: "pystr \<Rightarrow> pystr" where
  "lower s = map (\<lambda>c. if 65 \<le> c \<and> c \<le> 90 then c + 32 else c) s"

text \<open>Header values are Latin-1; the one comparison below is with ASCII text, so only ASCII letters matter.\<close>

definition same_origin_json :: "auth_settings \<Rightarrow> request \<Rightarrow> bool" where
  "same_origin_json S rq \<longleftrightarrow> getlist rq ''origin'' = [st_origin S] \<and> getlist rq ''x-loj-csrf'' = [u ''1''] \<and>
     (case getlist rq ''content-type'' of
        [t] \<Rightarrow> lower (py_strip (hd (split_on 59 t))) = u ''application/json''
      | _ \<Rightarrow> False)"

definition length_check :: "request \<Rightarrow> unit answer" where
  "length_check rq =
     (case getlist rq ''content-length'' of
        [] \<Rightarrow> Inr ()
      | [v] \<Rightarrow>
          if v = [] \<or> \<not> list_all (\<lambda>c. 48 \<le> c \<and> c \<le> 57) v then auth_error ''AUTH_VALIDATION_ERROR'' 422
          else if 8 < length v \<or> 8192 < foldl (\<lambda>n c. n * 10 + (c - 48)) 0 v then auth_error ''AUTH_VALIDATION_ERROR'' 413
          else Inr ()
      | _ \<Rightarrow> auth_error ''AUTH_VALIDATION_ERROR'' 422)"

definition rstrip_slash :: "pystr \<Rightarrow> pystr" where
  "rstrip_slash p = rev (dropWhile (\<lambda>c. c = 47) (rev p))"

definition request_guard :: "auth_runtime \<Rightarrow> auth_settings \<Rightarrow> (auth_db \<Rightarrow> auth_db) \<Rightarrow> int \<Rightarrow> request \<Rightarrow> unit act" where
  "request_guard R S other now rq =
     abind (apure (guard_host S rq)) (\<lambda>_.
     abind (apure (client_address R S rq)) (\<lambda>_.
       if \<not> auth_path rq \<and> \<not> private_path rq then apure (Inr ())
       else
         abind (apure (cookie_token S rq)) (\<lambda>_.
         abind (apure (if mutating rq
                       then if \<not> same_origin_json S rq then auth_error ''AUTH_CSRF_REJECTED'' 403
                            else if auth_path rq then length_check rq else Inr ()
                       else Inr ())) (\<lambda>_.
           if \<not> private_path rq then apure (Inr ())
           else
             abind (authenticate R S other now rq) (\<lambda>_.
               apure (if mutating rq \<and> (admin_path rq \<or> rstrip_slash (rq_path rq) = u ''/v1/submissions'') \<and>
                         getlist rq ''x-loj-expected-user'' = []
                      then auth_error ''AUTH_ACCOUNT_CHANGED'' 409 else Inr ()))))))"

section \<open>Rules of the service monad\<close>

named_theorems act_simps

lemma abind_run [act_simps]:
  "abind (apure (Inr x)) f s = f x s" "abind (apure (Inl e)) f s = (Inl e, s)" "apure r s = (r, s)"
  by (simp_all add: abind_def apure_def)

lemma abind_ok_iff: "abind m f s = (Inr y, t) \<longleftrightarrow> (\<exists>x s'. m s = (Inr x, s') \<and> f x s' = (Inr y, t))"
  by (auto simp: abind_def split: prod.splits sum.splits)

lemma apure_ok_iff: "apure r s = (Inr x, t) \<longleftrightarrow> r = Inr x \<and> t = s"
  by (auto simp: apure_def)

lemma query_ok_iff: "query other f s = (Inr x, t) \<longleftrightarrow> x = f (other (sv_db s)) \<and> t = s\<lparr>sv_db := other (sv_db s)\<rparr>"
  by (auto simp: query_def Let_def)

lemma hash_slot_ok_iff: "hash_slot slot x s = (Inr y, t) \<longleftrightarrow> slot \<and> y = x \<and> t = s\<lparr>sv_hashes := sv_hashes s + 1\<rparr>"
  by (auto simp: hash_slot_def auth_error_def)

lemma transact_ok_iff:
  "transact other f s = (Inr x, t) \<longleftrightarrow> (\<exists>A'. f (other (sv_db s)) = Inr (x, A') \<and> t = s\<lparr>sv_db := A'\<rparr>)"
  by (auto simp: transact_def Let_def split: sum.splits prod.splits)

lemma update_ok_iff:
  "update other f s = (Inr x, t) \<longleftrightarrow> (\<exists>A'. f (other (sv_db s)) = (x, A') \<and> t = s\<lparr>sv_db := A'\<rparr>)"
  by (auto simp: update_def Let_def split: prod.splits)

lemma conflict_ok_iff: "conflict_is_invalid m s = (Inr x, t) \<longleftrightarrow> m s = (Inr x, t)"
  by (auto simp: conflict_is_invalid_def auth_error_def split: prod.splits sum.splits auth_failure.splits)

lemma auth_error_ok [simp]: "auth_error c n \<noteq> Inr x" "Inr x \<noteq> auth_error c n"
  by (simp_all add: auth_error_def)

lemmas act_iffs = abind_ok_iff apure_ok_iff query_ok_iff hash_slot_ok_iff transact_ok_iff update_ok_iff conflict_ok_iff

section \<open>The mail queue is bounded\<close>

datatype mail_event = Mail_Start bool | Mail_Submit mail_job | Mail_Take | Mail_Finished | Mail_Stop_Begin | Mail_Stop_End

definition mail_step :: "mail_event \<Rightarrow> mail_queue \<Rightarrow> mail_queue" where
  "mail_step e q =
     (case e of
        Mail_Start ok \<Rightarrow> snd (mail_start ok q)
      | Mail_Submit job \<Rightarrow> snd (mail_submit job q)
      | Mail_Take \<Rightarrow> snd (mail_take q)
      | Mail_Finished \<Rightarrow> mail_finished q
      | Mail_Stop_Begin \<Rightarrow> mail_stop_begin q
      | Mail_Stop_End \<Rightarrow> snd (mail_stop_end q))"

text \<open>The jobs accepted and the jobs taken over a run, in order.\<close>

fun mail_accepted :: "mail_event list \<Rightarrow> mail_queue \<Rightarrow> mail_job list" where
  "mail_accepted [] q = []"
| "mail_accepted (e # es) q =
     (case e of Mail_Submit job \<Rightarrow> if fst (mail_submit job q) = Inr () then [job] else [] | _ \<Rightarrow> []) @
     mail_accepted es (mail_step e q)"

fun mail_taken :: "mail_event list \<Rightarrow> mail_queue \<Rightarrow> mail_job list" where
  "mail_taken [] q = []"
| "mail_taken (e # es) q =
     (case e of Mail_Take \<Rightarrow> (case fst (mail_take q) of Some job \<Rightarrow> [job] | None \<Rightarrow> []) | _ \<Rightarrow> []) @
     mail_taken es (mail_step e q)"
definition mail_ok :: "mail_queue \<Rightarrow> bool" where
  "mail_ok q \<longleftrightarrow> length (ml_pending q) \<le> ml_capacity q \<and> (ml_stopping q \<longrightarrow> ml_pending q = []) \<and>
     (ml_worker q = None \<or> ml_worker q = Some False \<longrightarrow> ml_stopping q)"

lemma mail_step_ok: "mail_ok q \<Longrightarrow> mail_ok (mail_step e q) \<and> ml_capacity (mail_step e q) = ml_capacity q"
  by (cases e) (auto simp: mail_ok_def mail_step_def mail_start_def mail_submit_def mail_take_def mail_finished_def
      mail_stop_begin_def mail_stop_end_def split: option.splits list.splits bool.splits)

lemma mail_step_pending:
  "(case e of Mail_Take \<Rightarrow> (case fst (mail_take q) of Some job \<Rightarrow> [job] | None \<Rightarrow> []) | _ \<Rightarrow> []) @ ml_pending (mail_step e q) =
     (if e = Mail_Stop_Begin then [] else ml_pending q) @
     (case e of Mail_Submit job \<Rightarrow> if fst (mail_submit job q) = Inr () then [job] else [] | _ \<Rightarrow> [])"
  by (cases e) (auto simp: mail_step_def mail_start_def mail_submit_def mail_take_def mail_finished_def
      mail_stop_begin_def mail_stop_end_def split: option.splits list.splits bool.splits)

text \<open>The mail queue never holds more than its capacity, and the worker takes accepted jobs in their order; without a shutdown every accepted
  job was taken or still waits.\<close>

theorem mail_queue_in_order:
  assumes "AuthMailQueue n = Inr q"
  shows "length (ml_pending (fold mail_step es q)) \<le> n \<and> subseq (mail_taken es q) (mail_accepted es q) \<and>
    (Mail_Stop_Begin \<notin> set es \<longrightarrow> mail_taken es q @ ml_pending (fold mail_step es q) = mail_accepted es q)"
proof -
  have q: "mail_ok q" "ml_capacity q = n" "ml_pending q = []"
    using assms by (auto simp: AuthMailQueue_def mail_ok_def split: if_splits)
  have "mail_ok (fold mail_step es r) \<and> ml_capacity (fold mail_step es r) = ml_capacity r" if "mail_ok r" for r
    using that mail_step_ok by (induction es arbitrary: r) auto
  then have "length (ml_pending (fold mail_step es q)) \<le> n"
    using q unfolding mail_ok_def by metis
  moreover have "subseq (mail_taken es r) (ml_pending r @ mail_accepted es r) \<and>
      (Mail_Stop_Begin \<notin> set es \<longrightarrow> mail_taken es r @ ml_pending (fold mail_step es r) = ml_pending r @ mail_accepted es r)" for r
  proof (induction es arbitrary: r)
    case (Cons e es)
    define taken where "taken = (case e of Mail_Take \<Rightarrow> (case fst (mail_take r) of Some job \<Rightarrow> [job] | None \<Rightarrow> []) | _ \<Rightarrow> [])"
    define got where "got = (case e of Mail_Submit job \<Rightarrow> if fst (mail_submit job r) = Inr () then [job] else [] | _ \<Rightarrow> [])"
    have step: "taken @ ml_pending (mail_step e r) = (if e = Mail_Stop_Begin then [] else ml_pending r) @ got"
      using mail_step_pending [where e = e and q = r] by (simp only: taken_def got_def)
    have unfold: "mail_taken (e # es) r = taken @ mail_taken es (mail_step e r)"
        "mail_accepted (e # es) r = got @ mail_accepted es (mail_step e r)"
      by (simp_all only: taken_def got_def mail_taken.simps mail_accepted.simps)
    have "subseq (taken @ mail_taken es (mail_step e r)) (taken @ ml_pending (mail_step e r) @ mail_accepted es (mail_step e r))"
      using Cons.IH by (simp add: subseq_append')
    also have "taken @ ml_pending (mail_step e r) @ mail_accepted es (mail_step e r) =
        (if e = Mail_Stop_Begin then [] else ml_pending r) @ got @ mail_accepted es (mail_step e r)"
      using arg_cong [OF step, of "\<lambda>xs. xs @ mail_accepted es (mail_step e r)"] by simp
    also have "subseq \<dots> (ml_pending r @ got @ mail_accepted es (mail_step e r))"
      by (auto simp: list_emb_append2)
    finally have "subseq (mail_taken (e # es) r) (ml_pending r @ mail_accepted (e # es) r)"
      by (simp only: unfold)
    moreover have "mail_taken (e # es) r @ ml_pending (fold mail_step (e # es) r) = ml_pending r @ mail_accepted (e # es) r"
      if "Mail_Stop_Begin \<notin> set (e # es)"
    proof -
      have "mail_taken es (mail_step e r) @ ml_pending (fold mail_step es (mail_step e r)) =
          ml_pending (mail_step e r) @ mail_accepted es (mail_step e r)"
        using that Cons.IH [of "mail_step e r"] by simp
      moreover have "(taken @ ml_pending (mail_step e r)) @ mail_accepted es (mail_step e r) = (ml_pending r @ got) @ mail_accepted es (mail_step e r)"
        unfolding step using that by auto
      ultimately show ?thesis
        by (simp only: unfold fold_simps append_assoc)
    qed
    ultimately show ?case
      by blast
  qed simp
  ultimately show ?thesis
    using q(3) by (metis append_Nil)
qed

section \<open>Answers do not tell whether an account exists\<close>

lemma throttle_by_rates:
  assumes "au_rates A = au_rates B"
  shows "fst (auth_throttle A now buckets window) = fst (auth_throttle B now buckets window)"
proof -
  have "over_limit (purge now A) = over_limit (purge now B)"
    using assms by (simp add: over_limit_def attempts_of_def purge_def fun_eq_iff)
  then show ?thesis
    by (simp add: auth_throttle_def Let_def)
qed

lemma throttle_result:
  assumes "au_rates (other (sv_db s)) = au_rates (other' (sv_db s'))"
  shows "fst (throttle R S other now rq operation identity mail s) = fst (throttle R S other' now rq operation identity mail s')"
proof (cases "client_address R S rq")
  case (Inr address)
  let ?b = "[(u ''peer:'' @ ar_digest R (operation @ u '':'' @ peer_text R address), if mail then 30 else 100),
     (u ''identity:'' @ ar_digest R (operation @ u '':'' @ identity), if mail then 5 else 10)]"
  obtain ok A A' where "auth_throttle (other (sv_db s)) now ?b 900 = (ok, A)" "auth_throttle (other' (sv_db s')) now ?b 900 = (ok, A')"
    using throttle_by_rates [OF assms, of now ?b 900]
    by (cases "auth_throttle (other (sv_db s)) now ?b 900"; cases "auth_throttle (other' (sv_db s')) now ?b 900") simp
  then show ?thesis
    by (simp add: throttle_def act_simps Inr abind_def update_def Let_def)
qed (simp add: throttle_def act_simps)

lemma throttle_frame:
  "throttle R S other now rq operation identity mail s = (r, t) \<Longrightarrow>
     sv_mail t = sv_mail s \<and> sv_sent t = sv_sent s \<and> sv_hashes t = sv_hashes s"
  by (auto simp: throttle_def abind_def apure_def update_def Let_def split: sum.splits prod.splits)

lemma request_link_production:
  assumes "\<not> st_development S" and "normalize_email R email = Inr n"
    and "throttle R S (others 0) (clock 0) rq (u ''mail:'' @ purpose_text p) n True s = (x, a)"
  shows "request_link R S others clock token mailed rq email p s =
    (case x of Inl e \<Rightarrow> (Inl e, a) | Inr _ \<Rightarrow> or_not_ready (submit_mail (n, p)) a)"
  using assms by (simp add: request_link_def act_simps abind_def split: sum.splits)

lemma submit_mail_by_queue:
  assumes "sv_mail a = sv_mail b"
  shows "fst (or_not_ready (submit_mail job) a) = fst (or_not_ready (submit_mail job) b) \<and>
    sv_mail (snd (or_not_ready (submit_mail job) a)) = sv_mail (snd (or_not_ready (submit_mail job) b)) \<and>
    sv_sent (snd (or_not_ready (submit_mail job) a)) = sv_sent a"
  using assms by (simp add: or_not_ready_def submit_mail_def split: sum.splits prod.splits)

text \<open>C30. Asking for a link does not tell whether an account exists: in production the answer and what is queued depend on the tables only through
  the rate limits, and no mail is sent before the answer.\<close>

theorem request_link_hides_accounts:
  assumes "\<not> st_development S" and "au_rates (others 0 (sv_db s)) = au_rates (others' 0 (sv_db s'))" and "sv_mail s = sv_mail s'"
    and "request_link R S others clock token mailed rq email p s = (r, t)"
    and "request_link R S others' clock' token' mailed' rq email p s' = (r', t')" and "clock 0 = clock' 0"
  shows "r = r' \<and> sv_mail t = sv_mail t' \<and> sv_sent t = sv_sent s \<and> sv_sent t' = sv_sent s'"
proof (cases "normalize_email R email")
  case (Inr n)
  obtain x a y b where x: "throttle R S (others 0) (clock 0) rq (u ''mail:'' @ purpose_text p) n True s = (x, a)"
      "throttle R S (others' 0) (clock 0) rq (u ''mail:'' @ purpose_text p) n True s' = (y, b)"
    by (meson surj_pair)
  have same: "x = y"
    using x throttle_result [where other = "others 0" and other' = "others' 0", OF assms(2), of R S "clock 0" rq "u ''mail:'' @ purpose_text p" n True] by simp
  have mail: "sv_mail a = sv_mail b" "sv_sent a = sv_sent s" "sv_sent b = sv_sent s'"
    using throttle_frame [OF x(1)] throttle_frame [OF x(2)] assms(3) by simp_all
  have "request_link R S others clock token mailed rq email p s = (case x of Inl e \<Rightarrow> (Inl e, a) | Inr _ \<Rightarrow> or_not_ready (submit_mail (n, p)) a)"
    by (rule request_link_production [where others = others and clock = clock and x = x and a = a, OF assms(1) Inr x(1)])
  moreover have "request_link R S others' clock' token' mailed' rq email p s' = (case x of Inl e \<Rightarrow> (Inl e, b) | Inr _ \<Rightarrow> or_not_ready (submit_mail (n, p)) b)"
    unfolding same using assms(6) x(2) by (intro request_link_production [where others = others' and clock = clock' and x = y and a = b, OF assms(1) Inr]) simp
  ultimately show ?thesis
    using assms(4,5) mail submit_mail_by_queue [OF mail(1), of "(n, p)"] submit_mail_by_queue [OF mail(1) [symmetric], of "(n, p)"]
    by (cases x) (simp_all, metis fst_conv snd_conv)
qed (use assms in \<open>auto simp: request_link_def act_simps\<close>)

text \<open>A throttled step leaves the accounts, so the lookup after it reads what was there before.\<close>

lemma throttle_accounts:
  "throttle R S other now rq operation identity mail s = (r, t) \<Longrightarrow>
     sv_db t = sv_db s \<or> au_users (sv_db t) = au_users (other (sv_db s)) \<and> au_credentials (sv_db t) = au_credentials (other (sv_db s))"
  by (auto simp: throttle_def abind_def apure_def update_def Let_def auth_throttle_def purge_def split: sum.splits prod.splits if_splits)

lemma throttled_account:
  "throttle R S id now rq operation identity mail s = (r, t) \<Longrightarrow> auth_account (sv_db t) = auth_account (sv_db s)"
  using throttle_accounts [of R S id now rq operation identity mail s r t]
  by (auto simp: auth_account_def account_rows_def fun_eq_iff)

text \<open>A login for an unknown address and one with a wrong password get the same answer after the same number of password hashes.\<close>

theorem login_hides_accounts:
  assumes "au_rates (sv_db s) = au_rates (sv_db s')" and "normalize_email R email = Inr n"
    and "auth_account (sv_db s) n = None"
    and "auth_account (sv_db s') n = Some a" and "\<not> ar_verify R (ac_hash a) password"
    and "login R S (\<lambda>_. id) clock slot token rq email password s = (r, t)"
    and "login R S (\<lambda>_. id) clock slot token' rq email password s' = (r', t')"
  shows "r = r' \<and> sv_hashes t - sv_hashes s = sv_hashes t' - sv_hashes s'"
proof -
  obtain x b y c where x: "throttle R S id (clock 0) rq (u ''login'') n False s = (x, b)"
      "throttle R S id (clock 0) rq (u ''login'') n False s' = (y, c)"
    by (meson surj_pair)
  moreover have "x = y"
    using x throttle_result [of id s id s' R S "clock 0" rq "u ''login''" n False] assms(1) by simp
  moreover note throttled_account [OF x(1)] throttled_account [OF x(2)] throttle_frame [OF x(1)] throttle_frame [OF x(2)]
  ultimately show ?thesis
    using assms(2-7) by (cases y; cases "validate_password password"; cases slot)
      (auto simp: login_def act_simps abind_def query_def Let_def hash_slot_def auth_error_def split: prod.splits sum.splits)
qed

section \<open>A session is for the password that is current\<close>

text \<open>Other transactions are runs of the account store.\<close>

definition store_runs :: "(nat \<Rightarrow> auth_db \<Rightarrow> auth_db) \<Rightarrow> bool" where
  "store_runs others \<longleftrightarrow> (\<forall>k A. \<exists>es. auth_run A es (others k A))"

lemma auth_run_append: "auth_run A es B \<Longrightarrow> auth_run C ds A \<Longrightarrow> auth_run C (ds @ es) B"
  by (induction rule: auth_run.induct) (auto intro: auth_run.intros simp flip: append_assoc)

lemma reachable_run: "auth_reachable A \<Longrightarrow> auth_run A es B \<Longrightarrow> auth_reachable B"
  unfolding auth_reachable_def using auth_run_append by blast

lemma reachable_step: "auth_reachable A \<Longrightarrow> auth_step A e B \<Longrightarrow> auth_reachable B"
  by (rule reachable_run [OF _ auth_run.step [OF auth_run.start]])

lemma store_runs_reachable: "store_runs others \<Longrightarrow> auth_reachable A \<Longrightarrow> auth_reachable (others k A)"
  unfolding store_runs_def using reachable_run by blast

lemma store_runs_older: "store_runs others \<Longrightarrow> no_older (au_credentials A) (au_credentials (others k A))"
  unfolding store_runs_def using auth_run_no_older by blast

lemma throttle_reachable:
  "throttle R S other now rq operation identity mail s = (r, t) \<Longrightarrow> auth_reachable (sv_db s) \<Longrightarrow> auth_reachable (other (sv_db s)) \<Longrightarrow>
     auth_reachable (sv_db t)"
  by (auto simp: throttle_def abind_def apure_def update_def Let_def split: sum.splits prod.splits
      intro: reachable_step [OF _ auth_step.throttle])

lemma login_steps:
  assumes "login R S others clock slot token rq email password s = (Inr (x, t), s')"
  obtains n s1 a0 old r A' where "normalize_email R email = Inr n" "throttle R S (others 0) (clock 0) rq (u ''login'') n False s = (Inr (), s1)"
    "auth_account (others 1 (sv_db s1)) n = Some a0" "ar_verify R (ac_hash a0) password" "t = token"
    "auth_create_session (others 2 (others 1 (sv_db s1))) (clock 2) a0 (ar_digest R token) SESSION_SECONDS old = Inr (Some x, A')"
    "sv_db s' = A'" "cookie_token S rq = Inr r" "old = map_option (ar_digest R) r"
proof -
  obtain n s1 where n: "normalize_email R email = Inr n"
      "throttle R S (others 0) (clock 0) rq (u ''login'') n False s = (Inr (), s1)"
    and rest: "abind (apure (validate_password password)) (\<lambda>_.
      abind (query (others 1) (\<lambda>A. auth_account A n)) (\<lambda>account.
      abind (hash_slot slot (ar_verify R (case account of None \<Rightarrow> ar_dummy_hash R | Some a \<Rightarrow> ac_hash a) password)) (\<lambda>valid.
       (case account of
          None \<Rightarrow> apure (auth_error ''AUTH_INVALID_CREDENTIALS'' 401)
        | Some a \<Rightarrow>
            if \<not> valid then apure (auth_error ''AUTH_INVALID_CREDENTIALS'' 401)
            else
              abind (apure (cookie_token S rq)) (\<lambda>old.
              abind (transact (others 2) (\<lambda>A. auth_create_session A (clock 2) a (ar_digest R token) SESSION_SECONDS
                  (map_option (ar_digest R) old))) (\<lambda>session.
                apure (case session of
                         None \<Rightarrow> auth_error ''AUTH_INVALID_CREDENTIALS'' 401
                       | Some x \<Rightarrow> Inr (x, token)))))))) s1 = (Inr (x, t), s')"
    using assms unfolding login_def abind_ok_iff [of "apure (normalize_email R email)"] apure_ok_iff
      abind_ok_iff [of "throttle R S (others 0) (clock 0) rq (u ''login'') _ False"] by auto
  show thesis
  proof (cases "auth_account (others 1 (sv_db s1)) n")
    case (Some a0)
    with rest show thesis
      by (auto simp: act_iffs split: if_splits option.splits intro!: that [OF n])
  qed (use rest in \<open>auto simp: act_iffs\<close>)
qed

lemma account_session:
  assumes ok: "auth_ok A" and "auth_account A n = Some a0" and older: "no_older (au_credentials A) (au_credentials B)" and okB: "auth_ok B"
    and "auth_create_session B now a0 token ttl old = Inr (Some (a, expires), C)"
  shows "ac_hash a = ac_hash a0 \<and> auth_account C n = Some a \<and> expires = now + ttl \<and>
    (now' < expires \<longrightarrow> auth_session C now' token = Some (a, expires))"
  using assms(5)
proof (cases rule: create_session_cases)
  case (2 row)
  have okC: "auth_ok C"
    using create_session_ok [OF okB assms(5)] .
  obtain c where c: "c \<in> set (au_credentials A)" "cr_email c = n" "ac_user a0 = cr_user c"
    using assms(2) by (auto simp: auth_account_iff [OF ok] joined_def)
  obtain d r where d: "d \<in> set (au_credentials B)" "cr_user d = ac_user a0" "r \<in> set (au_users B)" "us_id r = cr_user d" "a = joined d r"
    using 2(1,4) by (auto simp: in_account_rows)
  obtain e where "e \<in> set (au_credentials B)" "cr_user e = cr_user c" "cr_email e = n"
    using older c unfolding no_older_def by fastforce
  then have "cr_email d = n"
    using unique_credential [of B e d] okB c(3) d(1,2) by (auto simp: auth_ok_def)
  with d 2(6) have "auth_account C n = Some a"
    by (subst auth_account_iff [OF okC]) (auto intro!: bexI [of _ d] bexI [of _ r])
  moreover have "auth_session C now' token = Some (a, expires)" if "now' < expires"
    unfolding auth_session_def
  proof (subst first_row_unique)
    have rows: "x = a" if x_in: "x \<in> set (account_rows C (\<lambda>c. cr_user c = ac_user a0))" for x
    proof -
      obtain d' r' where x: "d' \<in> set (au_credentials C)" "cr_user d' = ac_user a0" "r' \<in> set (au_users C)" "us_id r' = cr_user d'" "x = joined d' r'"
        using x_in by (auto simp: in_account_rows)
      have "d' = d" "r' = r"
        using unique_credential [of C d' d] unique_user [of C r' r] okC x d 2(6) by (auto simp: auth_ok_def)
      with x d(5) show ?thesis
        by simp
    qed
    have sessions: "s = \<lparr>as_token = token, as_user = ac_user a0, as_expires = now + ttl\<rparr>"
      if "s \<in> set (au_sessions C)" "as_token s = token" for s
      using that 2(5,6) by auto
    have only: "x = (a, now + ttl)" if x_in: "x \<in> set (concat (map (\<lambda>s. map (\<lambda>a. (a, as_expires s)) (account_rows C (\<lambda>c. cr_user c = as_user s)))
          (filter (\<lambda>s. as_token s = token \<and> now' < as_expires s) (au_sessions C))))" for x
    proof -
      obtain s b where "s \<in> set (au_sessions C)" "as_token s = token" "b \<in> set (account_rows C (\<lambda>c. cr_user c = as_user s))" "x = (b, as_expires s)"
        using x_in by auto
      with sessions [of s] rows [of b] show ?thesis
        by simp
    qed
    show "x = y" if "x \<in> set (concat (map (\<lambda>s. map (\<lambda>a. (a, as_expires s)) (account_rows C (\<lambda>c. cr_user c = as_user s)))
          (filter (\<lambda>s. as_token s = token \<and> now' < as_expires s) (au_sessions C))))"
        and "y \<in> set (concat (map (\<lambda>s. map (\<lambda>a. (a, as_expires s)) (account_rows C (\<lambda>c. cr_user c = as_user s)))
          (filter (\<lambda>s. as_token s = token \<and> now' < as_expires s) (au_sessions C))))" for x y
      using only [OF that(1)] only [OF that(2)] by simp
    have "a \<in> set (account_rows C (\<lambda>c. cr_user c = ac_user a0))"
      using d 2(6) by (auto simp: in_account_rows intro!: bexI [of _ d] bexI [of _ r])
    then show "(a, expires) \<in> set (concat (map (\<lambda>s. map (\<lambda>a. (a, as_expires s)) (account_rows C (\<lambda>c. cr_user c = as_user s)))
          (filter (\<lambda>s. as_token s = token \<and> now' < as_expires s) (au_sessions C))))"
      using that 2(4,6) by auto
  qed
  ultimately show ?thesis
    using 2(3,4) by auto
qed simp

text \<open>C27. Whatever other processes do between the steps of a login, a session is given only if the password verifies against the hash the account
  has when the session is stored, and the session then answers for that account until it expires.\<close>

theorem login_uses_current_password:
  assumes "auth_reachable (sv_db s)" and "store_runs others"
    and "login R S others clock slot token rq email password s = (Inr ((a, expires), t), s')"
  shows "ar_verify R (ac_hash a) password \<and> expires = clock 2 + SESSION_SECONDS \<and>
    (\<exists>n. normalize_email R email = Inr n \<and> auth_account (sv_db s') n = Some a) \<and>
    (\<forall>now. now < expires \<longrightarrow> auth_session (sv_db s') now (ar_digest R t) = Some (a, expires))"
  using assms(3)
proof (rule login_steps)
  fix n s1 a0 old r A'
  assume login: "normalize_email R email = Inr n" "throttle R S (others 0) (clock 0) rq (u ''login'') n False s = (Inr (), s1)"
    "auth_account (others 1 (sv_db s1)) n = Some a0" "ar_verify R (ac_hash a0) password" "t = token"
    "auth_create_session (others 2 (others 1 (sv_db s1))) (clock 2) a0 (ar_digest R token) SESSION_SECONDS old = Inr (Some (a, expires), A')"
    "sv_db s' = A'"
  have reach: "auth_reachable (others 1 (sv_db s1))"
    using login(2) assms(1,2) by (blast intro: store_runs_reachable throttle_reachable)
  note session = account_session [OF auth_reachable_ok [OF reach] login(3) store_runs_older [OF assms(2)]
      auth_reachable_ok [OF store_runs_reachable [OF assms(2) reach]] login(6)]
  show ?thesis
    using session login(1,4,5,7) by auto
qed
section \<open>A reset ends the old access\<close>

lemma complete_steps:
  assumes "complete_link R S others clock slot salt fresh rq token password p handle s = (Inr (), s')"
  obtains email s1 A' where "is_token token" "auth_action_email (others 0 (sv_db s)) (clock 0) (ar_digest R token) p = Some email"
    "throttle R S (others 1) (clock 1) rq (u ''confirm:'' @ purpose_text p) (if email = [] then ar_digest R token else email) False
       (s\<lparr>sv_db := others 0 (sv_db s)\<rparr>) = (Inr (), s1)"
    "password_ok password"
    "auth_complete_action (others 2 (sv_db s1)) (clock 2) fresh (ar_digest R token) p (ar_make_hash R salt password) handle = Inr (True, A')"
    "sv_db s' = A'"
  using assms unfolding complete_link_def validate_password_def
  by (auto simp: act_iffs Let_def split: if_splits option.splits)

text \<open>The store that the last transaction of \<open>complete_link\<close> meets: others act before the token is read, before the rate limit and
  before the transaction.\<close>

definition before_completion :: "auth_runtime \<Rightarrow> auth_settings \<Rightarrow> (nat \<Rightarrow> auth_db \<Rightarrow> auth_db) \<Rightarrow> (nat \<Rightarrow> int) \<Rightarrow> request \<Rightarrow> pystr
    \<Rightarrow> purpose \<Rightarrow> service \<Rightarrow> auth_db" where
  "before_completion R S others clock rq token p s =
     (let A = others 0 (sv_db s);
          email = (case auth_action_email A (clock 0) (ar_digest R token) p of
                     Some e \<Rightarrow> if e = [] then ar_digest R token else e
                   | None \<Rightarrow> ar_digest R token)
      in others 2 (sv_db (snd (throttle R S (others 1) (clock 1) rq (u ''confirm:'' @ purpose_text p) email False (s\<lparr>sv_db := A\<rparr>)))))"

lemma other_accounts_kept:
  assumes "auth_ok A" and "auth_ok (spend_actions email (change_password (Some (cr_user c)) h A))" and "c \<in> set (au_credentials A)"
    and "e \<noteq> cr_email c"
  shows "auth_account (spend_actions email (change_password (Some (cr_user c)) h A)) e = auth_account A e"
proof -
  let ?A = "spend_actions email (change_password (Some (cr_user c)) h A)"
  have own: "cr_user d \<noteq> cr_user c" if "d \<in> set (au_credentials A)" "cr_email d = e" for d
    using unique_credential [of A d c] assms that by (auto simp: auth_ok_def)
  have "auth_account ?A e = Some x \<longleftrightarrow> auth_account A e = Some x" for x
    unfolding auth_account_iff [OF assms(1)] auth_account_iff [OF assms(2)]
    using own by (force simp: spend_actions_def change_password_def)
  then show ?thesis
    by (metis not_None_eq)
qed

text \<open>C28. A completed reset changes one account: that of the e-mail address the token was issued for, as the store holds it when the
  reset is done.  Its hash becomes that of the new password and its version the next one, and the account of every other address
  is as before; the sessions of this user are gone and no other, so no cookie of any request opens one; and the pending links of the
  address are spent.\<close>

theorem reset_ends_old_access:
  assumes "auth_reachable (sv_db s)" and "store_runs others"
    and "complete_link R S others clock slot salt fresh rq token password Reset_Password handle s = (Inr (), s')"
    and "A = before_completion R S others clock rq token Reset_Password s"
  shows "\<exists>email a. auth_action_email A (clock 2) (ar_digest R token) Reset_Password = Some email \<and> auth_account A email = Some a \<and>
    auth_account (sv_db s') email = Some (a\<lparr>ac_hash := ar_make_hash R salt password, ac_version := ac_version a + 1\<rparr>) \<and>
    (\<forall>e. e \<noteq> email \<longrightarrow> auth_account (sv_db s') e = auth_account A e) \<and>
    au_sessions (sv_db s') = filter (\<lambda>x. as_user x \<noteq> ac_user a) (au_sessions A) \<and>
    (\<forall>rq' now b expires t. session R S id now rq' s' = (Inr (b, expires), t) \<longrightarrow> ac_user b \<noteq> ac_user a) \<and>
    au_actions (sv_db s') = filter (\<lambda>x. at_email x \<noteq> email) (au_actions A)"
  using assms(3)
proof (rule complete_steps)
  fix email s1 A'
  assume completed: "auth_action_email (others 0 (sv_db s)) (clock 0) (ar_digest R token) Reset_Password = Some email"
    "throttle R S (others 1) (clock 1) rq (u ''confirm:'' @ purpose_text Reset_Password) (if email = [] then ar_digest R token else email) False
       (s\<lparr>sv_db := others 0 (sv_db s)\<rparr>) = (Inr (), s1)"
    "auth_complete_action (others 2 (sv_db s1)) (clock 2) fresh (ar_digest R token) Reset_Password (ar_make_hash R salt password) handle = Inr (True, A')"
    "sv_db s' = A'"
  have A: "others 2 (sv_db s1) = A"
    using completed(1,2) by (simp add: assms(4) before_completion_def Let_def)
  have "auth_reachable (sv_db s1)"
    using assms(1,2) by (intro throttle_reachable [OF completed(2)]) (auto intro!: store_runs_reachable [OF assms(2)])
  then have reach: "auth_reachable A"
    unfolding A [symmetric] by (rule store_runs_reachable [OF assms(2)])
  note ok = auth_reachable_ok [OF reach]
  obtain t where t: "find (live_action (clock 2) (ar_digest R token) Reset_Password) (au_actions A) = Some t"
    using completed(3) by (auto simp: A auth_complete_action_def split: option.splits)
  then have "t \<in> set (au_actions A)" "at_purpose t = Reset_Password"
    by (auto simp: find_Some_iff live_action_def)
  with ok have "owned A t"
    by (auto simp: auth_ok_def actions_ok_def)
  then obtain d where d: "d \<in> set (au_credentials A)" "cr_email d = at_email t"
    by (auto simp: owned_def)
  with ok obtain q where "q \<in> set (au_users A)" "us_id q = cr_user d"
    by (force simp: auth_ok_def credentials_ok_def)
  with d have account: "auth_account A (at_email t) = Some (joined d q)"
    by (subst auth_account_iff [OF ok]) auto
  have action: "auth_action_email A (clock 2) (ar_digest R token) Reset_Password = Some (at_email t)"
    using t by (simp add: auth_action_email_def)
  note done_ = completed(3) [unfolded A]
  obtain c r where c: "c \<in> set (au_credentials A)" "us_id r = cr_user c" "joined d q = joined c r" "cr_email c = at_email t"
      "A' = spend_actions (at_email t) (change_password (Some (cr_user c)) (ar_make_hash R salt password) A)"
    by (rule reset_completed [OF ok done_ action account])
  have user: "ac_user (joined d q) = cr_user c"
    using c(2,3) by (simp add: joined_def)
  have ok': "auth_ok A'"
    by (rule complete_ok [OF ok done_])
  have others_kept: "auth_account A' e = auth_account A e" if "e \<noteq> at_email t" for e
    using other_accounts_kept [OF ok ok' [unfolded c(5)] c(1)] that by (simp add: c(4,5))
  note fenced = reset_fences_sessions_facts [OF reach done_ action account auth_run.start]
  have closed: "ac_user b \<noteq> ac_user (joined d q)" if found: "session R S id now rq' s' = (Inr (b, expires), w)" for rq' now b expires w
  proof -
    obtain token' where "auth_session (sv_db s') now token' = Some (b, expires)"
      using found by (auto simp: session_def act_iffs split: option.splits)
    then have "(b, expires) \<in> set (concat (map (\<lambda>s. map (\<lambda>a. (a, as_expires s)) (account_rows A' (\<lambda>c. cr_user c = as_user s)))
        (filter (\<lambda>s. as_token s = token' \<and> now < as_expires s) (au_sessions A'))))"
      unfolding auth_session_def completed(4) by (rule first_row_in)
    then have "ac_user b \<in> as_user ` set (au_sessions A')"
      by (auto simp: in_account_rows joined_def)
    with fenced(2) show ?thesis
      by auto
  qed
  have rest: "au_sessions A' = filter (\<lambda>x. as_user x \<noteq> ac_user (joined d q)) (au_sessions A)"
      "au_actions A' = filter (\<lambda>x. at_email x \<noteq> at_email t) (au_actions A)"
    by (simp_all add: c(5) user spend_actions_def change_password_def)
  show ?thesis
    unfolding completed(4)
    by (intro exI [of _ "at_email t"] exI [of _ "joined d q"] conjI allI impI) (use action account fenced(1) others_kept rest closed in simp_all)
qed

section \<open>No write from another site\<close>

text \<open>C29. A request that changes private data passes the checks only from the configured origin, with the CSRF header, with exactly one well-formed session
  cookie of a live session, and for the account the page expects (administration and new submissions must name it).\<close>

theorem guarded_writes_are_intended:
  assumes "request_guard R S other now rq s = (Inr (), t)" and "private_path rq" and "mutating rq"
  shows "getlist rq ''origin'' = [st_origin S] \<and> getlist rq ''x-loj-csrf'' = [u ''1''] \<and>
    (\<exists>v a expires. cookie_values S rq = [v] \<and> is_token v \<and>
       auth_session (other (sv_db s)) now (ar_digest R v) = Some (a, expires) \<and>
       (getlist rq ''x-loj-expected-user'' = [ac_user a] \<or>
        getlist rq ''x-loj-expected-user'' = [] \<and> \<not> admin_path rq \<and> rq_path rq \<noteq> u ''/v1/submissions''))"
proof -
  have csrf: "same_origin_json S rq"
    using assms by (auto simp: request_guard_def act_iffs auth_error_def split: if_splits)
  obtain subject u1 u2 where a: "authenticate R S other now rq u1 = (Inr subject, u2)" "sv_db u1 = sv_db s"
      "\<not> (mutating rq \<and> (admin_path rq \<or> rstrip_slash (rq_path rq) = u ''/v1/submissions'') \<and> getlist rq ''x-loj-expected-user'' = [])"
    using assms by (auto simp: request_guard_def act_iffs auth_error_def split: if_splits)
  have slash: "rstrip_slash (u ''/v1/submissions'') = u ''/v1/submissions''"
    by (simp add: rstrip_slash_def u_def)
  obtain v b expires where v: "cookie_token S rq = Inr (Some v)" "auth_session (other (sv_db u1)) now (ar_digest R v) = Some (b, expires)"
      "getlist rq ''x-loj-expected-user'' = [] \<or> getlist rq ''x-loj-expected-user'' = [ac_user b]"
    using a(1) by (auto simp: authenticate_def session_def act_iffs auth_error_def split: if_splits option.splits)
  moreover have "cookie_values S rq = [v] \<and> is_token v"
    using v(1) by (auto simp: cookie_token_def split: list.splits if_splits)
  ultimately show ?thesis
    using csrf a(2,3) assms(3) slash by (auto simp: same_origin_json_def)
qed
section \<open>Examples\<close>

text \<open>A runtime in which a hash is the salt, a colon and the password.\<close>

definition toy_runtime :: auth_runtime where
  "toy_runtime = \<lparr>ar_digest = (\<lambda>t. 35 # t), ar_casefold = lower, ar_validate_email = (\<lambda>v. if 64 \<in> set v then Some v else None),
     ar_make_hash = (\<lambda>salt p. salt @ 58 # p), ar_verify = (\<lambda>h p. drop 1 (dropWhile (\<lambda>c. c \<noteq> 58) h) = p),
     ar_dummy_hash = u ''x:'', ar_control = (\<lambda>c. c < 32), ar_ip = (\<lambda>t. if t = u ''10.0.0.7'' then Some (IPv4 7) else None),
     ar_network_text = (\<lambda>a n. u ''net'')\<rparr>"

definition toy_settings :: auth_settings where
  "toy_settings = \<lparr>st_origin = u ''https://judge'', st_host = u ''judge'', st_development = False, st_cookie = u ''__Host-loj_session'',
     st_trusted = {}\<rparr>"

definition toy_request :: "(pystr \<times> pystr) list \<Rightarrow> request" where
  "toy_request hs = \<lparr>rq_method = ''POST'', rq_path = u ''/v1/submissions'', rq_scheme = u ''https'', rq_peer = Some (u ''10.0.0.7''),
     rq_headers = hs\<rparr>"

definition toy_mail :: mail_queue where
  "toy_mail = \<lparr>ml_capacity = 1, ml_worker = Some True, ml_stopping = False, ml_pending = [], ml_active = None\<rparr>"

definition toy_account :: auth_db where
  "toy_account = \<lparr>au_users = [\<lparr>us_id = u ''id1'', us_subject = u ''account:id1'', us_handle = u ''ann'', us_admin = False\<rparr>],
     au_credentials = [\<lparr>cr_user = u ''id1'', cr_email = u ''a@x.y'', cr_hash = u ''s:password1'', cr_version = 1\<rparr>],
     au_sessions = [], au_actions = [], au_rates = []\<rparr>"

definition toy_service :: "auth_db \<Rightarrow> service" where
  "toy_service A = \<lparr>sv_db = A, sv_mail = toy_mail, sv_sent = [], sv_hashes = 0\<rparr>"

definition toy_token :: pystr where "toy_token = replicate 43 97"

lemma toy_provisioned:
  "auth_provision_account empty_auth (u ''id1'') (u ''a@x.y'') (u ''s:password1'') (u ''ann'') False None = Inr toy_account"
  by code_simp

lemma toy_reachable: "auth_reachable toy_account"
  using auth_run.step [OF auth_run.start auth_step.provision [OF toy_provisioned]] unfolding auth_reachable_def by blast

lemma toy_token_ok [simp]: "is_token toy_token"
  by (simp add: is_token_def toy_token_def token_char_def list_all_iff)

lemma toy_email [simp]: "normalize_email toy_runtime (u ''A@x.y'') = Inr (u ''a@x.y'')"
  by (simp add: normalize_email_def toy_runtime_def lower_def py_strip_def py_space_def utf8_def utf8_char_def is_surrogate_def u_def)

lemma toy_client [simp]: "client_address toy_runtime toy_settings (toy_request hs) = Inr (Some (IPv4 7))"
  by (simp add: client_address_def ip_value_def toy_request_def toy_runtime_def toy_settings_def) (simp add: u_def)

lemma toy_headers [simp]: "getlist (toy_request hs) name = map snd (filter (\<lambda>(n, _). n = u name) hs)"
  by (simp add: getlist_def toy_request_def)

lemma toy_passwords [simp]:
  "validate_password (u ''password1'') = Inr ()" "validate_password (u ''password2'') = Inr ()"
  "ar_verify toy_runtime (u ''s:password1'') (u ''password1'')" "\<not> ar_verify toy_runtime (u ''s:password1'') (u ''password2'')"
  by (simp_all add: validate_password_def password_ok_def utf8_def utf8_char_def is_surrogate_def toy_runtime_def u_def)

definition toy_session :: auth_session_row where
  "toy_session = \<lparr>as_token = 35 # toy_token, as_user = u ''id1'', as_expires = 28805\<rparr>"

lemma toy_store_runs: "store_runs (\<lambda>_. id)"
  unfolding store_runs_def using auth_run.start by auto

lemma toy_login:
  "\<exists>t. login toy_runtime toy_settings (\<lambda>_. id) (\<lambda>_. 5) True toy_token (toy_request []) (u ''A@x.y'') (u ''password1'')
     (toy_service toy_account) =
   (Inr ((\<lparr>ac_user = u ''id1'', ac_subject = u ''account:id1'', ac_handle = u ''ann'', ac_admin = False,
       ac_email = u ''a@x.y'', ac_hash = u ''s:password1'', ac_version = 1\<rparr>, 28805), toy_token), t)"
  by (simp add: login_def act_simps abind_def throttle_def update_def query_def hash_slot_def transact_def auth_throttle_def purge_def
      over_limit_def auth_account_def account_rows_def first_row_def joined_def toy_service_def toy_account_def cookie_token_def
      cookie_values_def auth_create_session_def SESSION_SECONDS_def Let_def)
lemma toy_digest [simp]: "ar_digest toy_runtime t = 35 # t"
  by (simp add: toy_runtime_def)

definition toy_asked :: auth_db where
  "toy_asked = toy_account\<lparr>au_actions := [\<lparr>at_token = 35 # toy_token, at_purpose = Reset_Password, at_email = u ''a@x.y'',
     at_user = Some (u ''id1''), at_expires = 905\<rparr>]\<rparr>"

lemma toy_issued: "auth_issue_action toy_account 5 (u ''a@x.y'') Reset_Password (35 # toy_token) 900 = Inr (True, toy_asked)"
  by (simp add: auth_issue_action_def toy_account_def toy_asked_def)

lemma toy_asked_reachable: "auth_reachable toy_asked"
  by (rule reachable_step [OF toy_reachable auth_step.issue [OF toy_issued]])

lemma toy_reset:
  "\<exists>t. complete_link toy_runtime toy_settings (\<lambda>_. id) (\<lambda>_. 6) True (u ''r'') (u ''f'') (toy_request []) toy_token (u ''password2'')
     Reset_Password None (toy_service toy_asked) = (Inr (), t)"
  by (simp add: complete_link_def act_simps abind_def throttle_def update_def query_def hash_slot_def transact_def auth_throttle_def purge_def
      over_limit_def toy_service_def toy_asked_def toy_account_def auth_action_email_def live_action_def
      auth_complete_action_def conflict_is_invalid_def Let_def)

definition toy_signed_in :: auth_db where
  "toy_signed_in = toy_account\<lparr>au_sessions := [toy_session]\<rparr>"

definition toy_headers_sent :: "(pystr \<times> pystr) list" where
  "toy_headers_sent = [(u ''origin'', u ''https://judge''), (u ''x-loj-csrf'', u ''1''), (u ''content-type'', u ''application/json''),
     (u ''cookie'', u ''__Host-loj_session='' @ toy_token), (u ''x-loj-expected-user'', u ''id1'')]"

lemma split_on_free: "sep \<notin> set s \<Longrightarrow> split_on sep s = [s]"
  by (induction s) auto

lemma py_strip_ends: "\<not> py_space (hd s) \<Longrightarrow> \<not> py_space (last s) \<Longrightarrow> py_strip s = s"
proof -
  assume ends: "\<not> py_space (hd s)" "\<not> py_space (last s)"
  have keep: "\<not> py_space (hd xs) \<Longrightarrow> dropWhile py_space xs = xs" for xs
    by (cases xs) auto
  have "dropWhile py_space (rev s) = rev s"
    by (rule keep) (simp add: hd_rev ends)
  with keep [OF ends(1)] show ?thesis
    by (simp add: py_strip_def)
qed

lemma toy_cookie: "cookie_values toy_settings (toy_request toy_headers_sent) = [toy_token]"
proof -
  let ?h = "u ''__Host-loj_session='' @ toy_token"
  have "split_on 59 ?h = [?h]"
    by (rule split_on_free) (simp add: toy_token_def u_def)
  moreover have "py_strip ?h = ?h"
    by (rule py_strip_ends) (simp_all add: toy_token_def u_def py_space_def)
  moreover have "takeWhile (\<lambda>c. c \<noteq> 61) ?h = u ''__Host-loj_session''" "drop 1 (dropWhile (\<lambda>c. c \<noteq> 61) ?h) = toy_token"
    by (simp_all add: u_def)
  moreover have "py_strip (u ''__Host-loj_session'') = u ''__Host-loj_session''"
    by (simp add: py_strip_def py_space_def u_def)
  ultimately show ?thesis
    by (simp add: cookie_values_def toy_headers_sent_def toy_settings_def Let_def)
qed

lemma toy_found: "auth_session toy_signed_in 100 (35 # toy_token) = Some
   (\<lparr>ac_user = u ''id1'', ac_subject = u ''account:id1'', ac_handle = u ''ann'', ac_admin = False,
      ac_email = u ''a@x.y'', ac_hash = u ''s:password1'', ac_version = 1\<rparr>, 28805)"
  by (simp add: auth_session_def toy_signed_in_def toy_session_def toy_account_def account_rows_def joined_def first_row_def)

lemma toy_guarded:
  "\<exists>t. request_guard toy_runtime toy_settings id 100 (toy_request toy_headers_sent) (toy_service toy_signed_in) = (Inr (), t)"
proof -
  have "guard_host toy_settings rq = Inr ()" for rq
    by (simp add: guard_host_def toy_settings_def)
  moreover have "same_origin_json toy_settings (toy_request toy_headers_sent)"
    by (simp add: same_origin_json_def toy_headers_sent_def toy_settings_def) (simp add: lower_def py_strip_def py_space_def u_def)
  moreover have "private_path (toy_request hs)" "\<not> auth_path (toy_request hs)" for hs
    by (simp_all add: private_path_def auth_path_def admin_path_def under_def toy_request_def u_def)
  moreover have "cookie_token toy_settings (toy_request toy_headers_sent) = Inr (Some toy_token)"
    by (simp add: cookie_token_def toy_cookie)
  moreover have "getlist (toy_request toy_headers_sent) ''x-loj-expected-user'' = [u ''id1'']"
    by (simp add: toy_headers_sent_def)
  ultimately show ?thesis
    by (simp add: request_guard_def act_simps authenticate_def session_def abind_def query_def toy_found toy_service_def)
qed

theorem mail_queue_in_order_witness:
  "mail_taken [Mail_Start True, Mail_Submit (u ''a'', Verify_Email), Mail_Submit (u ''b'', Verify_Email), Mail_Take]
      \<lparr>ml_capacity = 1, ml_worker = None, ml_stopping = True, ml_pending = [], ml_active = None\<rparr> = [(u ''a'', Verify_Email)]"
proof -
  let ?q = "\<lparr>ml_capacity = 1, ml_worker = None, ml_stopping = True, ml_pending = [], ml_active = None\<rparr>"
  have "AuthMailQueue 1 = Inr ?q"
    by (simp add: AuthMailQueue_def)
  from mail_queue_in_order [OF this, of "[Mail_Start True, Mail_Submit (u ''a'', Verify_Email), Mail_Submit (u ''b'', Verify_Email), Mail_Take]"]
  show ?thesis
    by (simp add: mail_step_def mail_start_def mail_submit_def mail_take_def)
qed

theorem request_link_hides_accounts_witness:
  "fst (request_link toy_runtime toy_settings (\<lambda>_. id) (\<lambda>_. 5) toy_token True (toy_request []) (u ''A@x.y'') Reset_Password
     (toy_service toy_account)) =
   fst (request_link toy_runtime toy_settings (\<lambda>_. id) (\<lambda>_. 5) toy_token True (toy_request []) (u ''A@x.y'') Reset_Password
     (toy_service empty_auth))"
  using request_link_hides_accounts [where S = toy_settings and others = "\<lambda>_. id" and others' = "\<lambda>_. id" and
      s = "toy_service toy_account" and s' = "toy_service empty_auth" and clock = "\<lambda>_. 5" and clock' = "\<lambda>_. 5",
      OF _ _ _ prod.collapse [symmetric] prod.collapse [symmetric]]
  by (simp add: toy_settings_def toy_service_def toy_account_def empty_auth_def)

theorem login_hides_accounts_witness:
  "fst (login toy_runtime toy_settings (\<lambda>_. id) (\<lambda>_. 5) True toy_token (toy_request []) (u ''A@x.y'') (u ''password2'')
     (toy_service empty_auth)) =
   fst (login toy_runtime toy_settings (\<lambda>_. id) (\<lambda>_. 5) True toy_token (toy_request []) (u ''A@x.y'') (u ''password2'')
     (toy_service toy_account))"
proof -
  have "auth_account (sv_db (toy_service toy_account)) (u ''a@x.y'') = Some
     \<lparr>ac_user = u ''id1'', ac_subject = u ''account:id1'', ac_handle = u ''ann'', ac_admin = False,
       ac_email = u ''a@x.y'', ac_hash = u ''s:password1'', ac_version = 1\<rparr>"
    by (simp add: toy_service_def toy_account_def auth_account_def account_rows_def joined_def first_row_def)
  from login_hides_accounts [OF _ toy_email _ this _ prod.collapse [symmetric] prod.collapse [symmetric], of "toy_service empty_auth"]
  show ?thesis
    by (simp add: toy_service_def toy_account_def empty_auth_def auth_account_def account_rows_def first_row_def)
qed

theorem login_uses_current_password_witness:
  "\<exists>(t::service) a. auth_account (sv_db t) (u ''a@x.y'') = Some a \<and> ar_verify toy_runtime (ac_hash a) (u ''password1'') \<and>
     auth_session (sv_db t) 28804 (35 # toy_token) = Some (a, 28805)"
proof -
  have "auth_reachable (sv_db (toy_service toy_account))"
    using toy_reachable by (simp add: toy_service_def)
  note facts = login_uses_current_password [OF this toy_store_runs]
  obtain t where "login toy_runtime toy_settings (\<lambda>_. id) (\<lambda>_. 5) True toy_token (toy_request []) (u ''A@x.y'') (u ''password1'')
     (toy_service toy_account) =
     (Inr ((\<lparr>ac_user = u ''id1'', ac_subject = u ''account:id1'', ac_handle = u ''ann'', ac_admin = False,
       ac_email = u ''a@x.y'', ac_hash = u ''s:password1'', ac_version = 1\<rparr>, 28805), toy_token), t)"
    using toy_login by blast
  from facts [OF this] show ?thesis
    by (intro exI [of _ t]) auto
qed

theorem reset_ends_old_access_witness:
  "\<exists>(t::service) email a. auth_account (sv_db t) email = Some (a\<lparr>ac_hash := u ''r:password2'', ac_version := ac_version a + 1\<rparr>)"
proof -
  have "auth_reachable (sv_db (toy_service toy_asked))"
    using toy_asked_reachable by (simp add: toy_service_def)
  note facts = reset_ends_old_access [OF this toy_store_runs _ refl]
  obtain t where "complete_link toy_runtime toy_settings (\<lambda>_. id) (\<lambda>_. 6) True (u ''r'') (u ''f'') (toy_request []) toy_token (u ''password2'')
     Reset_Password None (toy_service toy_asked) = (Inr (), t)"
    using toy_reset by blast
  from facts [OF this] have "\<exists>email a. auth_account (sv_db t) email = Some (a\<lparr>ac_hash := ar_make_hash toy_runtime (u ''r'') (u ''password2''),
      ac_version := ac_version a + 1\<rparr>)"
    by blast
  moreover have "ar_make_hash toy_runtime (u ''r'') (u ''password2'') = u ''r:password2''"
    by (simp add: toy_runtime_def u_def)
  ultimately show ?thesis
    by auto
qed

theorem guarded_writes_are_intended_witness:
  "getlist (toy_request toy_headers_sent) ''origin'' = [u ''https://judge'']"
proof -
  obtain t where t: "request_guard toy_runtime toy_settings id 100 (toy_request toy_headers_sent) (toy_service toy_signed_in) = (Inr (), t)"
    using toy_guarded by blast
  have "private_path (toy_request toy_headers_sent)" "mutating (toy_request toy_headers_sent)"
    by (simp_all add: private_path_def admin_path_def under_def mutating_def toy_request_def u_def)
  from guarded_writes_are_intended [OF t this] show ?thesis
    by (simp add: toy_settings_def)
qed

end
