(* ===== verification/Executor_State.thy ===== *)
theory Executor_State
  imports Challenge
begin

text \<open>
  The serial executor state of \<open>src/linguistic_oj/executor_state.py\<close>: one private directory with a
  \<open>state.json\<close> that is written before each model request, and audited recoveries beside it.  A
  file is what a read gives: \<open>Absent\<close>, \<open>Unreadable\<close> (not private, too large, not UTF-8 or not
  JSON: each a \<open>ValueError\<close> at the reader) or a JSON document.  An atomic write either takes
  effect, or raises before the replacement, or raises after it, when the directory could not be
  synchronised.  The operating-system checks of the directory and of the lock file are not modelled:
  one process at a time runs between \<open>start\<close> and \<open>crash\<close>.
\<close>

section \<open>Files and documents\<close>

datatype protected_file = Absent | Unreadable | Document json

datatype write_outcome = Written | Not_Replaced | Not_Synced

record executor_dir =
  xd_state :: protected_file
  xd_audits :: "pystr \<Rightarrow> protected_file"

definition read_document :: "protected_file \<Rightarrow> json result" where
  "read_document f =
     (case f of Document j \<Rightarrow> Inr j
      | _ \<Rightarrow> raise ValueError ''auth configuration and password files must be private regular files'')"

text \<open>\<open>_write_atomic\<close>: the new content of the file and the outcome of the call.\<close>

definition write_atomic :: "write_outcome \<Rightarrow> json \<Rightarrow> protected_file \<Rightarrow> unit result \<times> protected_file" where
  "write_atomic w j f =
     (case w of
        Written \<Rightarrow> (Inr (), Document j)
      | Not_Replaced \<Rightarrow> (raise OSError ''write failed'', f)
      | Not_Synced \<Rightarrow> (raise OSError ''fsync failed'', Document j))"

record pending_operation =
  po_id :: pystr
  po_challenge :: pystr
  po_started :: pystr

record executor_document =
  xs_binding :: pystr
  xs_pending :: "pending_operation option"
  xs_last :: "pystr option"

definition STATE_VERSION :: pystr where
  "STATE_VERSION = u ''qwen-serial-executor-state-v1''"

definition is_hex32 :: "pystr \<Rightarrow> bool" where
  "is_hex32 v \<longleftrightarrow> length v = 32 \<and> list_all (\<lambda>c. c \<in> set (u ''0123456789abcdef'')) v"

definition pending_json :: "pending_operation \<Rightarrow> json" where
  "pending_json p =
     JObj [(u ''challenge_id'', JStr (po_challenge p)), (u ''operation_id'', JStr (po_id p)),
           (u ''started_at'', JStr (po_started p))]"

definition optional_json :: "('a \<Rightarrow> json) \<Rightarrow> 'a option \<Rightarrow> json" where
  "optional_json f x = (case x of None \<Rightarrow> JNull | Some y \<Rightarrow> f y)"

definition state_json :: "executor_document \<Rightarrow> json" where
  "state_json s =
     JObj [(u ''binding_sha256'', JStr (xs_binding s)), (u ''last_recovery'', optional_json JStr (xs_last s)),
           (u ''pending'', optional_json pending_json (xs_pending s)), (u ''version'', JStr STATE_VERSION)]"

section \<open>Reading the state\<close>

definition read_text :: "(pystr \<Rightarrow> bool) \<Rightarrow> string \<Rightarrow> json option \<Rightarrow> pystr result" where
  "read_text ok msg v =
     (case v of Some (JStr s) \<Rightarrow> if ok s then Inr s else raise ValueError msg | _ \<Rightarrow> raise ValueError msg)"

definition members :: "json \<Rightarrow> (pystr \<times> json) list option" where
  "members j = (case j of JObj ms \<Rightarrow> Some ms | _ \<Rightarrow> None)"

definition read_pending :: "json \<Rightarrow> pending_operation result" where
  "read_pending j =
     (case members j of
        None \<Rightarrow> raise ValueError ''invalid pending executor operation''
      | Some ms \<Rightarrow>
          rbind (ensure (fst ` set ms = {u ''operation_id'', u ''challenge_id'', u ''started_at''})
            (Exc ValueError ''invalid pending executor operation'')) (\<lambda>_.
          rbind (read_text is_hex32 ''invalid pending executor operation'' (map_of ms (u ''operation_id''))) (\<lambda>i.
          rbind (read_text (\<lambda>s. s \<noteq> []) ''invalid pending executor operation'' (map_of ms (u ''challenge_id''))) (\<lambda>c.
          rbind (read_text (\<lambda>_. True) ''invalid pending executor operation'' (map_of ms (u ''started_at''))) (\<lambda>t.
            Inr \<lparr>po_id = i, po_challenge = c, po_started = t\<rparr>)))))"

text \<open>The audit a recovery reference points to must name the same binding and operation.\<close>

definition check_audit :: "(pystr \<Rightarrow> protected_file) \<Rightarrow> pystr \<Rightarrow> pystr \<Rightarrow> unit result" where
  "check_audit audits binding last_id =
     rbind (read_document (audits last_id)) (\<lambda>audit.
       ensure (case members audit of
                 None \<Rightarrow> False
               | Some ms \<Rightarrow> map_of ms (u ''binding_sha256'') = Some (JStr binding) \<and>
                   (case map_of ms (u ''pending'') of
                      Some (JObj ps) \<Rightarrow> map_of ps (u ''operation_id'') = Some (JStr last_id)
                    | _ \<Rightarrow> False))
         (Exc ValueError ''executor recovery audit does not match state''))"

definition read_optional :: "(json \<Rightarrow> 'a result) \<Rightarrow> json option \<Rightarrow> 'a option result" where
  "read_optional f v =
     (case v of Some JNull \<Rightarrow> Inr None | Some j \<Rightarrow> rbind (f j) (\<lambda>x. Inr (Some x))
      | None \<Rightarrow> raise KeyError ''missing member'')"

definition read_state :: "executor_dir \<Rightarrow> executor_document result" where
  "read_state D =
     rbind (read_document (xd_state D)) (\<lambda>j.
       (case members j of
          None \<Rightarrow> raise ValueError ''invalid executor state''
        | Some ms \<Rightarrow>
            rbind (ensure (fst ` set ms = {u ''version'', u ''binding_sha256'', u ''pending'', u ''last_recovery''} \<and>
                map_of ms (u ''version'') = Some (JStr STATE_VERSION))
              (Exc ValueError ''invalid executor state'')) (\<lambda>_.
            rbind (read_text is_sha256 ''invalid executor state'' (map_of ms (u ''binding_sha256''))) (\<lambda>b.
            rbind (read_optional read_pending (map_of ms (u ''pending''))) (\<lambda>p.
            rbind (read_optional (\<lambda>v. read_text is_hex32 ''invalid executor recovery reference'' (Some v))
                (map_of ms (u ''last_recovery''))) (\<lambda>last_id.
            rbind (case last_id of None \<Rightarrow> Inr () | Some i \<Rightarrow> check_audit (xd_audits D) b i) (\<lambda>_.
              Inr \<lparr>xs_binding = b, xs_pending = p, xs_last = last_id\<rparr>)))))))"

section \<open>The executor\<close>

text \<open>The process memory: the binding of the deployment and the poison flag.\<close>

record executor =
  ex_binding :: pystr
  ex_poisoned :: bool

definition snapshot :: "executor \<Rightarrow> executor_dir \<Rightarrow> executor_document result" where
  "snapshot X D =
     rbind (read_state D) (\<lambda>s.
       if xs_binding s \<noteq> ex_binding X
       then raise ValueError ''executor binding changed; use the bound deployment configuration''
       else Inr s)"

definition ExecutorState :: "executor_dir \<Rightarrow> pystr \<Rightarrow> executor result" where
  "ExecutorState D binding =
     (let X = \<lparr>ex_binding = binding, ex_poisoned = False\<rparr> in rbind (snapshot X D) (\<lambda>_. Inr X))"

definition require_clean :: "executor \<Rightarrow> executor_dir \<Rightarrow> unit result" where
  "require_clean X D =
     (if ex_poisoned X then raise RecoveryRequired ''prior model request requires recorded termination confirmation''
      else rbind (snapshot X D) (\<lambda>s.
        ensure (xs_pending s = None)
          (Exc RecoveryRequired ''prior model request requires recorded termination confirmation'')))"

text \<open>\<open>poisoned\<close> is set during the write and cleared only when the write returned.\<close>

definition write_state :: "write_outcome \<Rightarrow> executor_document \<Rightarrow> executor \<times> executor_dir
    \<Rightarrow> unit result \<times> executor \<times> executor_dir" where
  "write_state w s = (\<lambda>(X, D).
     (case write_atomic w (state_json s) (xd_state D) of
        (r, f) \<Rightarrow> (r, X\<lparr>ex_poisoned := (r \<noteq> Inr ())\<rparr>, D\<lparr>xd_state := f\<rparr>)))"

definition initialize :: "executor_dir \<Rightarrow> bool \<Rightarrow> pystr \<Rightarrow> write_outcome \<Rightarrow> executor result \<times> executor_dir" where
  "initialize D no_files binding w =
     (if \<not> is_sha256 binding then (raise ValueError ''invalid executor binding'', D)
      else if \<not> no_files then (raise ValueError ''initialization requires an empty dedicated state directory'', D)
      else (case write_atomic w (state_json \<lparr>xs_binding = binding, xs_pending = None, xs_last = None\<rparr>) (xd_state D) of
              (r, f) \<Rightarrow> (rbind r (\<lambda>_. ExecutorState (D\<lparr>xd_state := f\<rparr>) binding), D\<lparr>xd_state := f\<rparr>)))"

text \<open>\<open>begin\<close>: \<open>fresh\<close> is the new operation's identifier and \<open>now\<close> its time stamp.\<close>

definition begin_request :: "pystr \<Rightarrow> pystr \<Rightarrow> pystr \<Rightarrow> write_outcome \<Rightarrow> executor \<times> executor_dir
    \<Rightarrow> pystr result \<times> executor \<times> executor_dir" where
  "begin_request challenge fresh now w = (\<lambda>(X, D).
     (case require_clean X D of
        Inl e \<Rightarrow> (Inl e, X, D)
      | Inr _ \<Rightarrow>
          (case snapshot X D of
             Inl e \<Rightarrow> (Inl e, X, D)
           | Inr s \<Rightarrow>
               (case write_state w (s\<lparr>xs_pending := Some \<lparr>po_id = fresh, po_challenge = challenge, po_started = now\<rparr>\<rparr>) (X, D) of
                  (r, S) \<Rightarrow> (rbind r (\<lambda>_. Inr fresh), S)))))"

definition finish_request :: "pystr \<Rightarrow> write_outcome \<Rightarrow> executor \<times> executor_dir \<Rightarrow> unit result \<times> executor \<times> executor_dir" where
  "finish_request operation w = (\<lambda>(X, D).
     (case snapshot X D of
        Inl e \<Rightarrow> (Inl e, X, D)
      | Inr s \<Rightarrow>
          if map_option po_id (xs_pending s) \<noteq> Some operation
          then (raise RecoveryRequired ''executor operation changed before completion'', X\<lparr>ex_poisoned := True\<rparr>, D)
          else write_state w (s\<lparr>xs_pending := None\<rparr>) (X, D)))"

section \<open>Recovery\<close>

definition attested_text :: "json option \<Rightarrow> bool" where
  "attested_text v = (case v of Some (JStr s) \<Rightarrow> py_strip s \<noteq> [] \<and> length s \<le> 1024 | _ \<Rightarrow> False)"

definition evidence_ok :: "pystr \<Rightarrow> pystr \<Rightarrow> json \<Rightarrow> bool" where
  "evidence_ok operation binding j =
     (case members j of
        None \<Rightarrow> False
      | Some ms \<Rightarrow>
          fst ` set ms = {u ''operation_id'', u ''binding_sha256'', u ''prior_request_terminated'',
            u ''confirmed_by'', u ''evidence_reference''} \<and>
          map_of ms (u ''operation_id'') = Some (JStr operation) \<and>
          map_of ms (u ''binding_sha256'') = Some (JStr binding) \<and>
          map_of ms (u ''prior_request_terminated'') = Some (JBool True) \<and>
          attested_text (map_of ms (u ''confirmed_by'')) \<and> attested_text (map_of ms (u ''evidence_reference'')))"

definition audit_json :: "pystr \<Rightarrow> pending_operation \<Rightarrow> json \<Rightarrow> pystr \<Rightarrow> pystr \<Rightarrow> json" where
  "audit_json binding p evidence evidence_hash now =
     JObj [(u ''binding_sha256'', JStr binding), (u ''evidence'', evidence),
           (u ''evidence_sha256'', JStr evidence_hash), (u ''pending'', pending_json p), (u ''recorded_at'', JStr now)]"

definition audit_agrees :: "pystr \<Rightarrow> pending_operation \<Rightarrow> json \<Rightarrow> pystr \<Rightarrow> json \<Rightarrow> bool" where
  "audit_agrees binding p evidence evidence_hash j =
     (case members j of
        None \<Rightarrow> False
      | Some ms \<Rightarrow> map_of ms (u ''pending'') = Some (pending_json p) \<and>
          map_of ms (u ''evidence_sha256'') = Some (JStr evidence_hash) \<and>
          map_of ms (u ''binding_sha256'') = Some (JStr binding) \<and> map_of ms (u ''evidence'') = Some evidence)"

text \<open>
  \<open>evidence\<close> is the file the operator names, \<open>evidence_hash\<close> the digest of its text; \<open>wa\<close> is the outcome of the write of
  the audit and \<open>ws\<close> that of the state.
\<close>

definition record_audit :: "pystr \<Rightarrow> json \<Rightarrow> write_outcome \<Rightarrow> (json \<Rightarrow> bool) \<Rightarrow> executor_dir \<Rightarrow> unit result \<times> executor_dir" where
  "record_audit operation audit wa agrees D =
     (if xd_audits D operation \<noteq> Absent
      then (rbind (read_document (xd_audits D operation)) (\<lambda>prior.
              ensure (agrees prior) (Exc ValueError ''recovery audit already exists with different evidence'')), D)
      else (case write_atomic wa audit Absent of
              (r, f) \<Rightarrow> (r, D\<lparr>xd_audits := (xd_audits D)(operation := f)\<rparr>)))"

definition recover_request :: "pystr \<Rightarrow> protected_file \<Rightarrow> pystr \<Rightarrow> pystr \<Rightarrow> write_outcome \<Rightarrow> write_outcome
    \<Rightarrow> executor \<times> executor_dir \<Rightarrow> unit result \<times> executor \<times> executor_dir" where
  "recover_request operation evidence evidence_hash now wa ws = (\<lambda>(X, D).
     (case rbind (snapshot X D) (\<lambda>s.
             (case xs_pending s of
                None \<Rightarrow> raise ValueError ''recovery operation does not match pending state''
              | Some p \<Rightarrow>
                  rbind (ensure (po_id p = operation) (Exc ValueError ''recovery operation does not match pending state'')) (\<lambda>_.
                  rbind (read_document evidence) (\<lambda>j.
                  rbind (ensure (evidence_ok operation (ex_binding X) j)
                    (Exc ValueError ''explicit matching termination evidence is required'')) (\<lambda>_.
                    Inr (s, p, j)))))) of
        Inl e \<Rightarrow> (Inl e, X, D)
      | Inr (s, p, j) \<Rightarrow>
          (case record_audit operation (audit_json (ex_binding X) p j evidence_hash now) wa
                  (audit_agrees (ex_binding X) p j evidence_hash) D of
             (Inl e, D') \<Rightarrow> (Inl e, X, D')
           | (Inr _, D') \<Rightarrow> write_state ws (s\<lparr>xs_pending := None, xs_last := Some operation\<rparr>) (X, D'))))"

section \<open>The guarded provider\<close>

text \<open>
  The call of the parent class: an answer, or an exception with its \<open>termination_confirmed\<close> attribute
  (false where it has none).  \<open>active\<close> is \<open>has_active_request\<close> after the call.  The transport error is the one
  subclass of \<open>ProviderRequestError\<close>; a timeout is not one, so no clause handles it.
\<close>

datatype 'a provider_reply = Answered 'a | Failed py_exc bool

definition handled :: "py_exc \<Rightarrow> bool" where
  "handled e \<longleftrightarrow> catches ProviderTransportError e \<or> catches ProviderContractError e"

definition confirmed_end :: "py_exc \<Rightarrow> bool \<Rightarrow> bool" where
  "confirmed_end e termination_confirmed \<longleftrightarrow> handled e \<and> (\<not> catches ProviderTransportError e \<or> termination_confirmed)"

definition finish_with :: "'a result \<Rightarrow> pystr \<Rightarrow> write_outcome \<Rightarrow> executor \<times> executor_dir
    \<Rightarrow> 'a result \<times> executor \<times> executor_dir" where
  "finish_with r operation w S = (case finish_request operation w S of (f, S') \<Rightarrow> (rbind f (\<lambda>_. r), S'))"

definition guarded_generate :: "pystr \<Rightarrow> pystr \<Rightarrow> pystr \<Rightarrow> write_outcome \<Rightarrow> 'a provider_reply \<Rightarrow> bool \<Rightarrow> write_outcome
    \<Rightarrow> executor \<times> executor_dir \<Rightarrow> 'a result \<times> executor \<times> executor_dir" where
  "guarded_generate challenge fresh now wb reply active we S =
     (case begin_request challenge fresh now wb S of
        (Inl e, S') \<Rightarrow> (Inl e, S')
      | (Inr operation, S') \<Rightarrow>
          (case reply of
             Failed e termination_confirmed \<Rightarrow>
               if confirmed_end e termination_confirmed \<and> \<not> active then finish_with (Inl e) operation we S' else (Inl e, S')
           | Answered g \<Rightarrow>
               if active then (raise RecoveryRequired ''model request is still active after completion'', S')
               else finish_with (Inr g) operation we S'))"

section \<open>What was written is what is read\<close>

lemma state_members: "members (state_json s) = Some [(u ''binding_sha256'', JStr (xs_binding s)),
   (u ''last_recovery'', optional_json JStr (xs_last s)),
   (u ''pending'', optional_json pending_json (xs_pending s)), (u ''version'', JStr STATE_VERSION)]"
  by (simp add: members_def state_json_def)

lemma read_pending_written:
  "read_pending (pending_json p) = (if is_hex32 (po_id p) \<and> po_challenge p \<noteq> [] then Inr p
     else raise ValueError ''invalid pending executor operation'')"
  by (auto simp: read_pending_def pending_json_def members_def read_text_def insert_commute)

lemma read_optional_written:
  assumes "\<And>x. f x \<noteq> JNull"
  shows "read_optional g (Some (optional_json f v)) = (case v of None \<Rightarrow> Inr None | Some x \<Rightarrow> rbind (g (f x)) (\<lambda>y. Inr (Some y)))"
proof (cases v)
  case (Some x)
  then show ?thesis
    using assms [of x] by (cases "f x") (auto simp: read_optional_def optional_json_def)
qed (simp add: read_optional_def optional_json_def)

lemma pending_json_not_null: "pending_json p \<noteq> JNull"
  by (simp add: pending_json_def)

definition document_ok :: "executor_document \<Rightarrow> bool" where
  "document_ok s \<longleftrightarrow> is_sha256 (xs_binding s) \<and>
     (case xs_pending s of None \<Rightarrow> True | Some p \<Rightarrow> is_hex32 (po_id p) \<and> po_challenge p \<noteq> []) \<and>
     (case xs_last s of None \<Rightarrow> True | Some i \<Rightarrow> is_hex32 i)"

lemma read_state_written:
  assumes "xd_state D = Document (state_json s)"
  shows "read_state D = Inr s' \<longleftrightarrow> s' = s \<and> document_ok s \<and>
    (case xs_last s of None \<Rightarrow> True | Some i \<Rightarrow> check_audit (xd_audits D) (xs_binding s) i = Inr ())"
proof -
  have "fst ` set (the (members (state_json s))) = {u ''version'', u ''binding_sha256'', u ''pending'', u ''last_recovery''}"
    by (simp add: state_members insert_commute)
  with assms show ?thesis
    by (cases s; cases s')
      (auto simp: read_state_def read_document_def state_members rbind_Inr_iff read_text_def
        read_optional_written pending_json_not_null read_pending_written document_ok_def split: option.splits if_splits)
qed
section \<open>The executor, crashes and the model server\<close>

text \<open>
  \<open>es_live\<close> is the set of requests the model server may still be working on.  A request that was sent may end at any
  time.  The provider calls \<open>finish\<close> only for a request that has ended, and the operator attests only what
  is true; a crash keeps the directory and the requests at the server and loses the process memory.
\<close>

record executor_system =
  es_dir :: executor_dir
  es_process :: "executor option"
  es_live :: "pystr set"

definition after_begin :: "executor_system \<Rightarrow> pystr result \<times> executor \<times> executor_dir \<Rightarrow> executor_system" where
  "after_begin S = (\<lambda>(r, X, D). S\<lparr>es_dir := D, es_process := Some X,
     es_live := (case r of Inr i \<Rightarrow> insert i (es_live S) | Inl _ \<Rightarrow> es_live S)\<rparr>)"

definition after_call :: "executor_system \<Rightarrow> unit result \<times> executor \<times> executor_dir \<Rightarrow> executor_system" where
  "after_call S = (\<lambda>(_, X, D). S\<lparr>es_dir := D, es_process := Some X\<rparr>)"

inductive executor_step :: "pystr \<Rightarrow> executor_system \<Rightarrow> executor_system \<Rightarrow> bool" for binding where
  start: "es_process S = None \<Longrightarrow> ExecutorState (es_dir S) binding = Inr X
    \<Longrightarrow> executor_step binding S (S\<lparr>es_process := Some X\<rparr>)"
| crash: "executor_step binding S (S\<lparr>es_process := None\<rparr>)"
| begin_call: "es_process S = Some X
    \<Longrightarrow> executor_step binding S (after_begin S (begin_request challenge fresh now w (X, es_dir S)))"
| ended: "executor_step binding S (S\<lparr>es_live := es_live S - {i}\<rparr>)"
| finish_call: "es_process S = Some X \<Longrightarrow> i \<notin> es_live S
    \<Longrightarrow> executor_step binding S (after_call S (finish_request i w (X, es_dir S)))"
| recover_call: "es_process S = Some X \<Longrightarrow> i \<notin> es_live S
    \<Longrightarrow> executor_step binding S (after_call S (recover_request i evidence evidence_hash now wa ws (X, es_dir S)))"

definition fresh_system :: "executor_dir \<Rightarrow> executor_system" where
  "fresh_system D = \<lparr>es_dir = D, es_process = None, es_live = {}\<rparr>"

text \<open>The directory starts as \<open>initialize\<close> leaves it.\<close>

definition executor_reachable :: "pystr \<Rightarrow> executor_system \<Rightarrow> bool" where
  "executor_reachable binding S \<longleftrightarrow>
     (\<exists>D X D'. initialize D True binding Written = (Inr X, D') \<and> (executor_step binding)\<^sup>*\<^sup>* (fresh_system D') S)"

text \<open>Every request the server may be working on is the one recorded as pending.\<close>

definition recorded :: "executor_system \<Rightarrow> bool" where
  "recorded S \<longleftrightarrow> (\<exists>s. xd_state (es_dir S) = Document (state_json s) \<and>
     es_live S \<subseteq> set_option (map_option po_id (xs_pending s)))"

lemma snapshot_written:
  "xd_state D = Document (state_json s) \<Longrightarrow> snapshot X D = Inr s' \<Longrightarrow> s' = s"
  by (auto simp: snapshot_def rbind_Inr_iff read_state_written split: if_splits)

lemma write_state_file:
  "write_state w s (X, D) = (r, X', D') \<Longrightarrow>
     xd_state D' = xd_state D \<and> r \<noteq> Inr () \<or> xd_state D' = Document (state_json s)"
  by (cases w) (auto simp: write_state_def write_atomic_def)

lemma begin_recorded:
  assumes "recorded S" and "begin_request challenge fresh now w (X, es_dir S) = (r, X', D')"
  shows "recorded (after_begin S (r, X', D'))"
proof (cases "require_clean X (es_dir S)")
  case (Inl e)
  with assms show ?thesis
    by (auto simp: begin_request_def after_begin_def recorded_def)
next
  case (Inr unit)
  obtain s where s: "xd_state (es_dir S) = Document (state_json s)"
      "es_live S \<subseteq> set_option (map_option po_id (xs_pending s))"
    using assms(1) by (auto simp: recorded_def)
  from Inr have snap: "snapshot X (es_dir S) = Inr s" and none: "xs_pending s = None"
    using snapshot_written [OF s(1)] by (auto simp: require_clean_def rbind_Inr_iff split: if_splits)
  let ?p = "\<lparr>po_id = fresh, po_challenge = challenge, po_started = now\<rparr>"
  obtain r' where w: "write_state w (s\<lparr>xs_pending := Some ?p\<rparr>) (X, es_dir S) = (r', X', D')" and r: "r = rbind r' (\<lambda>_. Inr fresh)"
    using assms(2) Inr snap by (auto simp: begin_request_def split: prod.splits)
  have empty: "es_live S = {}"
    using s(2) none by simp
  from write_state_file [OF w] show ?thesis
  proof
    assume "xd_state D' = xd_state (es_dir S) \<and> r' \<noteq> Inr ()"
    then show ?thesis
      using s empty r by (cases r') (auto simp: after_begin_def recorded_def)
  next
    assume stored: "xd_state D' = Document (state_json (s\<lparr>xs_pending := Some ?p\<rparr>))"
    have live: "es_live (after_begin S (r, X', D')) \<subseteq> {fresh}"
      using empty r by (cases r') (simp_all add: after_begin_def)
    have "set_option (map_option po_id (xs_pending (s\<lparr>xs_pending := Some ?p\<rparr>))) = {fresh}"
      by simp
    with live stored have "xd_state (es_dir (after_begin S (r, X', D'))) = Document (state_json (s\<lparr>xs_pending := Some ?p\<rparr>)) \<and>
        es_live (after_begin S (r, X', D')) \<subseteq> set_option (map_option po_id (xs_pending (s\<lparr>xs_pending := Some ?p\<rparr>)))"
      by (simp add: after_begin_def)
    then show ?thesis
      unfolding recorded_def by (rule exI)
  qed
qed

text \<open>A call that ends a pending request that the server is not working on.\<close>

lemma cleared_recorded:
  assumes "xd_state (es_dir S) = Document (state_json s)" and "es_live S \<subseteq> set_option (map_option po_id (xs_pending s))"
    and "map_option po_id (xs_pending s) = Some i" and "i \<notin> es_live S"
    and "xd_state D = xd_state (es_dir S)" and "write_state w (s\<lparr>xs_pending := None, xs_last := l\<rparr>) (X, D) = (r, X', D')"
  shows "recorded (after_call S (r, X', D'))"
proof -
  have "es_live S = {}"
    using assms(2-4) by auto
  with write_state_file [OF assms(6)] assms(1,5) show ?thesis
    by (auto simp: recorded_def after_call_def)
qed

lemma finish_recorded:
  assumes "recorded S" and "i \<notin> es_live S" and "finish_request i w (X, es_dir S) = (r, X', D')"
  shows "recorded (after_call S (r, X', D'))"
proof -
  obtain s where s: "xd_state (es_dir S) = Document (state_json s)"
      "es_live S \<subseteq> set_option (map_option po_id (xs_pending s))"
    using assms(1) by (auto simp: recorded_def)
  show ?thesis
  proof (cases "snapshot X (es_dir S) = Inr s \<and> map_option po_id (xs_pending s) = Some i")
    case True
    then have "write_state w (s\<lparr>xs_pending := None, xs_last := xs_last s\<rparr>) (X, es_dir S) = (r, X', D')"
      using assms(3) by (simp add: finish_request_def)
    from cleared_recorded [OF s _ assms(2) _ this] True show ?thesis
      by simp
  next
    case False
    then have "D' = es_dir S"
      using assms(3) snapshot_written [OF s(1)]
      by (cases "snapshot X (es_dir S)") (force simp: finish_request_def split: if_splits)+
    with s show ?thesis
      by (auto simp: recorded_def after_call_def)
  qed
qed

lemma record_audit_state: "record_audit i a wa ok D = (r, D') \<Longrightarrow> xd_state D' = xd_state D"
  by (auto simp: record_audit_def split: if_splits prod.splits)

lemma recover_recorded:
  assumes "recorded S" and "i \<notin> es_live S"
    and "recover_request i evidence evidence_hash now wa ws (X, es_dir S) = (r, X', D')"
  shows "recorded (after_call S (r, X', D'))"
proof -
  obtain s where s: "xd_state (es_dir S) = Document (state_json s)"
      "es_live S \<subseteq> set_option (map_option po_id (xs_pending s))"
    using assms(1) by (auto simp: recorded_def)
  have same: ?thesis if "xd_state D' = xd_state (es_dir S)"
    using that s by (auto simp: recorded_def after_call_def)
  let ?m = "rbind (snapshot X (es_dir S)) (\<lambda>s.
             (case xs_pending s of
                None \<Rightarrow> raise ValueError ''recovery operation does not match pending state''
              | Some p \<Rightarrow>
                  rbind (ensure (po_id p = i) (Exc ValueError ''recovery operation does not match pending state'')) (\<lambda>_.
                  rbind (read_document evidence) (\<lambda>j.
                  rbind (ensure (evidence_ok i (ex_binding X) j)
                    (Exc ValueError ''explicit matching termination evidence is required'')) (\<lambda>_.
                    Inr (s, p, j))))))"
  show ?thesis
  proof (cases ?m)
    case (Inl e)
    then show ?thesis
      using assms(3) by (intro same) (simp add: recover_request_def)
  next
    case (Inr t)
    then obtain p j where t: "t = (s, p, j)" "xs_pending s = Some p" "po_id p = i"
      using snapshot_written [OF s(1), of X] by (auto simp: rbind_Inr_iff split: option.splits)
    obtain a D'' where a: "record_audit i (audit_json (ex_binding X) p j evidence_hash now) wa
        (audit_agrees (ex_binding X) p j evidence_hash) (es_dir S) = (a, D'')"
      by force
    show ?thesis
    proof (cases a)
      case (Inl e)
      then show ?thesis
        using assms(3) Inr t(1) a record_audit_state [OF a] by (intro same) (simp add: recover_request_def)
    next
      case (Inr unit)
      then have "write_state ws (s\<lparr>xs_pending := None, xs_last := Some i\<rparr>) (X, D'') = (r, X', D')"
        using assms(3) \<open>?m = Inr t\<close> t(1) a by (simp add: recover_request_def)
      from cleared_recorded [OF s _ assms(2) record_audit_state [OF a] this] t(2,3) show ?thesis
        by simp
    qed
  qed
qed

lemma executor_step_recorded: "executor_step binding S S' \<Longrightarrow> recorded S \<Longrightarrow> recorded S'"
proof (induction rule: executor_step.induct)
  case (begin_call S X challenge fresh now w)
  then show ?case
    by (cases "begin_request challenge fresh now w (X, es_dir S)") (simp add: begin_recorded)
next
  case (finish_call S X i w)
  then show ?case
    by (cases "finish_request i w (X, es_dir S)") (simp add: finish_recorded)
next
  case (recover_call S X i evidence evidence_hash now wa ws)
  then show ?case
    by (cases "recover_request i evidence evidence_hash now wa ws (X, es_dir S)") (simp add: recover_recorded)
qed (auto simp: recorded_def)

lemma executor_recorded: "executor_reachable binding S \<Longrightarrow> recorded S"
proof -
  assume "executor_reachable binding S"
  then obtain D X D' where init: "initialize D True binding Written = (Inr X, D')"
      and run: "(executor_step binding)\<^sup>*\<^sup>* (fresh_system D') S"
    by (auto simp: executor_reachable_def)
  from init have "xd_state D' = Document (state_json \<lparr>xs_binding = binding, xs_pending = None, xs_last = None\<rparr>)"
    by (auto simp: initialize_def write_atomic_def split: if_splits)
  then have "recorded (fresh_system D')"
    by (auto simp: recorded_def fresh_system_def)
  with run show ?thesis
    by (induction rule: rtranclp_induct) (auto intro: executor_step_recorded)
qed

text \<open>The state file records the request \<open>i\<close> as pending.\<close>

definition records_request :: "executor_dir \<Rightarrow> pystr \<Rightarrow> bool" where
  "records_request D i \<longleftrightarrow> (\<exists>s p. xd_state D = Document (state_json s) \<and> xs_pending s = Some p \<and> po_id p = i)"

lemma one_request_at_a_time_facts:
  assumes "executor_reachable binding S"
  shows "es_live S = {} \<or> (\<exists>i. es_live S = {i} \<and> records_request (es_dir S) i)"
    and "es_live S \<noteq> {} \<Longrightarrow> begin_request challenge fresh now w (X, es_dir S) = (r, X', D') \<Longrightarrow>
      (\<exists>e. r = Inl e) \<and> D' = es_dir S"
proof -
  obtain s where s: "xd_state (es_dir S) = Document (state_json s)"
      "es_live S \<subseteq> set_option (map_option po_id (xs_pending s))"
    using executor_recorded [OF assms] by (auto simp: recorded_def)
  show "es_live S = {} \<or> (\<exists>i. es_live S = {i} \<and> records_request (es_dir S) i)"
  proof (cases "xs_pending s")
    case (Some p)
    then show ?thesis
      using s unfolding records_request_def by (cases "es_live S = {}") auto
  qed (use s(2) in simp)
  assume "es_live S \<noteq> {}" and call: "begin_request challenge fresh now w (X, es_dir S) = (r, X', D')"
  then have "xs_pending s \<noteq> None"
    using s(2) by auto
  then have "\<exists>e. require_clean X (es_dir S) = Inl e"
    using snapshot_written [OF s(1), of X]
    by (cases "snapshot X (es_dir S)") (auto simp: require_clean_def)
  with call show "(\<exists>e. r = Inl e) \<and> D' = es_dir S"
    by (auto simp: begin_request_def)
qed

text \<open>C17. The write-ahead barrier: across crashes, restarts, failed writes and recoveries the model server works on no request of
  the executor or on the one that the state file records as pending, and while it works on one no new request begins.\<close>
theorem one_request_at_a_time:
  assumes "executor_reachable binding S"
  shows "(es_live S = {} \<or> (\<exists>i. es_live S = {i} \<and> records_request (es_dir S) i)) \<and>
    (es_live S \<noteq> {} \<and> begin_request challenge fresh now w (X, es_dir S) = (r, X', D') \<longrightarrow>
      (\<exists>e. r = Inl e) \<and> D' = es_dir S)"
  using one_request_at_a_time_facts(1) [OF assms] one_request_at_a_time_facts(2) [OF assms, of challenge fresh now w X r X' D'] by satx

section \<open>The guard keeps the barrier exactly when the end is not confirmed\<close>

lemma read_text_Inr: "read_text ok m v = Inr t \<longleftrightarrow> v = Some (JStr t) \<and> ok t"
  by (auto simp: read_text_def split: option.splits json.splits)

lemma read_pending_ok: "read_pending j = Inr p \<Longrightarrow> is_hex32 (po_id p) \<and> po_challenge p \<noteq> []"
  by (auto simp: read_pending_def rbind_Inr_iff read_text_Inr split: option.splits)

lemma read_optional_Inr:
  "read_optional f v = Inr x \<longleftrightarrow>
     (v = Some JNull \<and> x = None \<or> (\<exists>j y. v = Some j \<and> j \<noteq> JNull \<and> f j = Inr y \<and> x = Some y))"
  by (auto simp: read_optional_def rbind_Inr_iff split: option.splits json.splits)

lemma read_state_ok:
  assumes "read_state D = Inr s"
  shows "document_ok s" and "case xs_last s of None \<Rightarrow> True | Some i \<Rightarrow> check_audit (xd_audits D) (xs_binding s) i = Inr ()"
  using assms
  by (auto simp: read_state_def rbind_Inr_iff read_text_Inr read_optional_Inr document_ok_def
      split: option.splits dest!: read_pending_ok)

lemma write_state_Written:
  "write_state Written s (X, D) = (Inr (), X\<lparr>ex_poisoned := False\<rparr>, D\<lparr>xd_state := Document (state_json s)\<rparr>)"
  by (simp add: write_state_def write_atomic_def)

text \<open>After a write that took effect the state that was written is the one in force.\<close>

lemma snapshot_after_write:
  assumes "snapshot X D = Inr s" and "document_ok (s\<lparr>xs_pending := q\<rparr>)" and "ex_binding Y = ex_binding X"
  shows "snapshot Y (D\<lparr>xd_state := Document (state_json (s\<lparr>xs_pending := q\<rparr>))\<rparr>) = Inr (s\<lparr>xs_pending := q\<rparr>)"
proof -
  let ?D = "D\<lparr>xd_state := Document (state_json (s\<lparr>xs_pending := q\<rparr>))\<rparr>"
  have s: "read_state D = Inr s" "xs_binding s = ex_binding X"
    using assms(1) by (auto simp: snapshot_def rbind_Inr_iff split: if_splits)
  have file_: "xd_state ?D = Document (state_json (s\<lparr>xs_pending := q\<rparr>))"
    by simp
  have "read_state ?D = Inr (s\<lparr>xs_pending := q\<rparr>)"
    unfolding read_state_written [OF file_] using assms(2) read_state_ok [OF s(1)] by (simp split: option.splits)
  with s(2) assms(3) show ?thesis
    by (simp add: snapshot_def)
qed

text \<open>
  The evidence that the request is over: none is left active, and the provider has answered, has judged an answer that came, or
  says of its exception that the end is confirmed.
\<close>

definition request_over :: "'a provider_reply \<Rightarrow> bool \<Rightarrow> bool" where
  "request_over reply active \<longleftrightarrow> \<not> active \<and>
     (case reply of Answered g \<Rightarrow> True | Failed e termination_confirmed \<Rightarrow> catches ProviderContractError e \<or> termination_confirmed)"

lemma failed_write:
  assumes "w \<noteq> Written" and "write_state w s (X, D) = (r, X', D')"
  shows "(\<exists>e. r = Inl e) \<and> ex_poisoned X'"
  using assms by (cases w) (auto simp: write_state_def write_atomic_def)

lemma poisoned_unclean: "ex_poisoned X \<Longrightarrow> require_clean X D \<noteq> Inr ()"
  by (simp add: require_clean_def)

lemma begin_failed_write:
  assumes "w \<noteq> Written" and "require_clean X D = Inr ()" and "begin_request challenge fresh now w (X, D) = (r, X', D')"
  shows "(\<exists>e. r = Inl e) \<and> ex_poisoned X'"
proof -
  obtain s where s: "snapshot X D = Inr s"
    using assms(2) by (auto simp: require_clean_def rbind_Inr_iff split: if_splits)
  obtain r' where "write_state w (s\<lparr>xs_pending := Some \<lparr>po_id = fresh, po_challenge = challenge, po_started = now\<rparr>\<rparr>) (X, D) = (r', X', D')"
      "r = rbind r' (\<lambda>_. Inr fresh)"
    using assms(2,3) s by (auto simp: begin_request_def split: prod.splits)
  with failed_write [OF assms(1)] show ?thesis
    by fastforce
qed

text \<open>What a call that starts clean leaves behind, for every outcome of its two writes.\<close>

lemma guarded_outcome:
  assumes "require_clean X D = Inr ()" and "is_hex32 fresh" and "challenge \<noteq> []"
    and "guarded_generate challenge fresh now wb reply active we (X, D) = (r, X', D')"
  defines "cleared \<equiv> \<not> active \<and> (case reply of Answered g \<Rightarrow> True | Failed e c \<Rightarrow> confirmed_end e c)"
  shows "wb = Written \<Longrightarrow> cleared \<Longrightarrow> we = Written \<Longrightarrow>
      require_clean X' D' = Inr () \<and> require_clean \<lparr>ex_binding = ex_binding X, ex_poisoned = False\<rparr> D' = Inr ()"
    and "wb = Written \<Longrightarrow> \<not> cleared \<Longrightarrow>
      require_clean X' D' \<noteq> Inr () \<and> require_clean \<lparr>ex_binding = ex_binding X, ex_poisoned = False\<rparr> D' \<noteq> Inr ()"
    and "wb = Written \<Longrightarrow> \<not> cleared \<or> we = Written \<Longrightarrow> r = (case reply of Failed e c \<Rightarrow> Inl e
      | Answered g \<Rightarrow> if active then raise RecoveryRequired ''model request is still active after completion'' else Inr g)"
    and "wb = Written \<Longrightarrow> cleared \<Longrightarrow> we \<noteq> Written \<Longrightarrow> require_clean X' D' \<noteq> Inr ()"
    and "wb \<noteq> Written \<Longrightarrow> require_clean X' D' \<noteq> Inr () \<and> (\<exists>e. fst (begin_request challenge fresh now wb (X, D)) = Inl e)"
proof -
  obtain s where s: "snapshot X D = Inr s" "xs_pending s = None"
    using assms(1) by (auto simp: require_clean_def rbind_Inr_iff split: if_splits)
  let ?p = "\<lparr>po_id = fresh, po_challenge = challenge, po_started = now\<rparr>"
  let ?s1 = "s\<lparr>xs_pending := Some ?p\<rparr>" and ?s2 = "s\<lparr>xs_pending := None\<rparr>"
  let ?D1 = "D\<lparr>xd_state := Document (state_json ?s1)\<rparr>" and ?D2 = "D\<lparr>xd_state := Document (state_json ?s2)\<rparr>"
  have ok: "document_ok ?s1" "document_ok ?s2"
    using s(1) assms(2,3) by (auto simp: snapshot_def rbind_Inr_iff document_ok_def dest!: read_state_ok(1) split: if_splits)
  note snaps = snapshot_after_write [OF s(1) ok(1)] snapshot_after_write [OF s(1) ok(2)]
  let ?X = "X\<lparr>ex_poisoned := False\<rparr>"
  have begun: "begin_request challenge fresh now Written (X, D) = (Inr fresh, ?X, ?D1)"
    using assms(1) s(1) by (simp add: begin_request_def write_state_Written)
  have finished: "finish_request fresh Written (?X, ?D1) = (Inr (), ?X, ?D2)"
    using snaps(1) [of ?X] by (simp add: finish_request_def write_state_Written)
  have clean: "require_clean Y ?D2 = Inr ()" "require_clean Y ?D1 \<noteq> Inr ()"
    if "ex_binding Y = ex_binding X" "\<not> ex_poisoned Y" for Y
    using that snaps by (simp_all add: require_clean_def)
  show "require_clean X' D' = Inr () \<and> require_clean \<lparr>ex_binding = ex_binding X, ex_poisoned = False\<rparr> D' = Inr ()"
    if "wb = Written" cleared "we = Written"
  proof -
    have "X' = ?X" "D' = ?D2"
      using assms(4) that by (auto simp: cleared_def guarded_generate_def begun finish_with_def finished split: provider_reply.splits)
    with clean show ?thesis by simp
  qed
  show "require_clean X' D' \<noteq> Inr () \<and> require_clean \<lparr>ex_binding = ex_binding X, ex_poisoned = False\<rparr> D' \<noteq> Inr ()"
    if "wb = Written" "\<not> cleared"
  proof -
    have "X' = ?X" "D' = ?D1"
      using assms(4) that by (auto simp: cleared_def guarded_generate_def begun split: provider_reply.splits if_splits)
    with clean show ?thesis by simp
  qed
  show "r = (case reply of Failed e c \<Rightarrow> Inl e
      | Answered g \<Rightarrow> if active then raise RecoveryRequired ''model request is still active after completion'' else Inr g)"
    if "wb = Written" "\<not> cleared \<or> we = Written"
    using assms(4) that
    by (auto simp: cleared_def guarded_generate_def begun finish_with_def finished split: provider_reply.splits if_splits)
  show "require_clean X' D' \<noteq> Inr ()" if began: "wb = Written" cleared and failed: "we \<noteq> Written"
  proof -
    obtain q Y E where f: "finish_request fresh we (?X, ?D1) = (q, Y, E)"
      by (cases "finish_request fresh we (?X, ?D1)")
    then have "ex_poisoned Y"
      using snaps(1) [of ?X] failed_write [OF failed] by (auto simp: finish_request_def)
    moreover have "X' = Y" "D' = E"
      using assms(4) began f by (auto simp: cleared_def guarded_generate_def begun finish_with_def split: provider_reply.splits)
    ultimately show ?thesis
      using poisoned_unclean by simp
  qed
  show "require_clean X' D' \<noteq> Inr () \<and> (\<exists>e. fst (begin_request challenge fresh now wb (X, D)) = Inl e)" if failed: "wb \<noteq> Written"
  proof -
    obtain q Y E where b: "begin_request challenge fresh now wb (X, D) = (q, Y, E)"
      by (cases "begin_request challenge fresh now wb (X, D)")
    obtain e where "q = Inl e" "ex_poisoned Y"
      using begin_failed_write [OF failed assms(1) b] by blast
    then show ?thesis
      using assms(4) b poisoned_unclean by (auto simp: guarded_generate_def)
  qed
qed

lemma transport_or_contract: "catches ProviderTransportError e \<Longrightarrow> \<not> catches ProviderContractError e"
  by (cases "exc_cls e") (simp_all add: catches_def)

lemma guarded_barrier_facts:
  assumes "require_clean X D = Inr ()" and "is_hex32 fresh" and "challenge \<noteq> []"
    and "guarded_generate challenge fresh now wb reply active we (X, D) = (r, X', D')"
  shows "require_clean X' D' = Inr () \<Longrightarrow> request_over reply active"
    and "require_clean \<lparr>ex_binding = ex_binding X, ex_poisoned = False\<rparr> D' = Inr () \<Longrightarrow>
      request_over reply active \<or> (\<exists>e. fst (begin_request challenge fresh now wb (X, D)) = Inl e)"
    and "wb = Written \<Longrightarrow> we = Written \<Longrightarrow> request_over reply active \<Longrightarrow>
      \<forall>e c. reply = Failed e c \<longrightarrow> catches ProviderTransportError e \<or> catches ProviderContractError e \<Longrightarrow>
      require_clean X' D' = Inr () \<and> require_clean \<lparr>ex_binding = ex_binding X, ex_poisoned = False\<rparr> D' = Inr ()"
    and "wb = Written \<Longrightarrow> we = Written \<Longrightarrow> reply = Failed e c \<Longrightarrow> exc_cls e = ProviderTimeoutError \<Longrightarrow>
      require_clean X' D' \<noteq> Inr () \<and> require_clean \<lparr>ex_binding = ex_binding X, ex_poisoned = False\<rparr> D' \<noteq> Inr ()"
    and "wb = Written \<Longrightarrow> we = Written \<Longrightarrow> r = (case reply of Failed e c \<Rightarrow> Inl e
      | Answered g \<Rightarrow> if active then raise RecoveryRequired ''model request is still active after completion'' else Inr g)"
proof -
  let ?cleared = "\<not> active \<and> (case reply of Answered g \<Rightarrow> True | Failed e c \<Rightarrow> confirmed_end e c)"
  have over: "?cleared \<Longrightarrow> request_over reply active"
    by (auto simp: request_over_def confirmed_end_def handled_def split: provider_reply.splits)
  note out = guarded_outcome [OF assms]
  show "request_over reply active" if "require_clean X' D' = Inr ()"
    using that over out(2,5) by (cases "wb = Written"; cases ?cleared) simp_all
  show "request_over reply active \<or> (\<exists>e. fst (begin_request challenge fresh now wb (X, D)) = Inl e)"
    if "require_clean \<lparr>ex_binding = ex_binding X, ex_poisoned = False\<rparr> D' = Inr ()"
    using that over out(2,5) by (cases "wb = Written"; cases ?cleared) simp_all
  show "require_clean X' D' = Inr () \<and> require_clean \<lparr>ex_binding = ex_binding X, ex_poisoned = False\<rparr> D' = Inr ()"
    if "wb = Written" "we = Written" "request_over reply active"
      "\<forall>e c. reply = Failed e c \<longrightarrow> catches ProviderTransportError e \<or> catches ProviderContractError e"
  proof -
    have "?cleared"
      using that(3,4) transport_or_contract by (cases reply) (auto simp: request_over_def confirmed_end_def handled_def)
    with out(1) that show ?thesis by blast
  qed
  show "require_clean X' D' \<noteq> Inr () \<and> require_clean \<lparr>ex_binding = ex_binding X, ex_poisoned = False\<rparr> D' \<noteq> Inr ()"
    if "wb = Written" "reply = Failed e c" "exc_cls e = ProviderTimeoutError"
    using that out(2) by (simp add: confirmed_end_def handled_def catches_def)
  show "r = (case reply of Failed e c \<Rightarrow> Inl e
      | Answered g \<Rightarrow> if active then raise RecoveryRequired ''model request is still active after completion'' else Inr g)"
    if "wb = Written" "we = Written"
    using out(3) that by blast
qed

text \<open>C18. The guard never takes a request for ended that may still run, and never answers for it: whatever the two writes do, a
  call that leaves this process clean has sent a request that is over, and a restarted process finds the executor clean only
  if the request is over or was never sent.  When both writes succeed, the barrier falls for every request that is over -
  except after a timeout, which no clause of the guard handles: it keeps the barrier although it confirms the end - and the
  caller gets the provider's answer or exception.\<close>
theorem guarded_generate_barrier:
  assumes "require_clean X D = Inr ()" and "is_hex32 fresh" and "challenge \<noteq> []"
    and "guarded_generate challenge fresh now wb reply active we (X, D) = (r, X', D')"
  shows "(require_clean X' D' = Inr () \<longrightarrow> request_over reply active) \<and>
    (require_clean \<lparr>ex_binding = ex_binding X, ex_poisoned = False\<rparr> D' = Inr () \<longrightarrow>
      request_over reply active \<or> (\<exists>e. fst (begin_request challenge fresh now wb (X, D)) = Inl e)) \<and>
    (wb = Written \<and> we = Written \<longrightarrow>
      (request_over reply active \<and> (\<forall>e c. reply = Failed e c \<longrightarrow> catches ProviderTransportError e \<or> catches ProviderContractError e) \<longrightarrow>
        require_clean X' D' = Inr () \<and> require_clean \<lparr>ex_binding = ex_binding X, ex_poisoned = False\<rparr> D' = Inr ()) \<and>
      (\<forall>e c. reply = Failed e c \<and> exc_cls e = ProviderTimeoutError \<longrightarrow>
        require_clean X' D' \<noteq> Inr () \<and> require_clean \<lparr>ex_binding = ex_binding X, ex_poisoned = False\<rparr> D' \<noteq> Inr ()) \<and>
      r = (case reply of Failed e c \<Rightarrow> Inl e
        | Answered g \<Rightarrow> if active then raise RecoveryRequired ''model request is still active after completion'' else Inr g))"
  by (intro conjI impI allI; (elim conjE)?) (use guarded_barrier_facts [OF assms] in \<open>simp_all\<close>)

section \<open>Examples\<close>

definition demo_binding :: pystr where "demo_binding = replicate 64 97"
definition demo_operation :: pystr where "demo_operation = replicate 32 49"

definition demo_dir :: executor_dir where
  "demo_dir = \<lparr>xd_state = Document (state_json \<lparr>xs_binding = demo_binding, xs_pending = None, xs_last = None\<rparr>),
     xd_audits = (\<lambda>_. Absent)\<rparr>"

definition demo_executor :: executor where
  "demo_executor = \<lparr>ex_binding = demo_binding, ex_poisoned = False\<rparr>"

lemma demo_valid: "is_sha256 demo_binding" "is_hex32 demo_operation"
  by (simp_all add: is_sha256_def is_hex32_def demo_binding_def demo_operation_def u_def list_all_iff)

lemma demo_document: "read_state demo_dir = Inr \<lparr>xs_binding = demo_binding, xs_pending = None, xs_last = None\<rparr>"
  using demo_valid by (simp add: read_state_written [of _ "\<lparr>xs_binding = demo_binding, xs_pending = None, xs_last = None\<rparr>"]
      demo_dir_def document_ok_def)

lemma demo_clean: "require_clean demo_executor demo_dir = Inr ()"
  by (simp add: require_clean_def snapshot_def demo_document demo_executor_def)

lemma demo_idle: "initialize \<lparr>xd_state = Absent, xd_audits = (\<lambda>_. Absent)\<rparr> True demo_binding Written = (Inr demo_executor, demo_dir)"
  using demo_document
  by (simp add: initialize_def demo_valid write_atomic_def ExecutorState_def snapshot_def demo_dir_def demo_executor_def Let_def)

theorem guarded_generate_barrier_witness:
  "case guarded_generate (u ''c'') demo_operation (u ''t'') Written
      (Failed (Exc ProviderTimeoutError ''deadline'') True :: unit provider_reply) False Written (demo_executor, demo_dir) of
    (r, X, D) \<Rightarrow> require_clean X D \<noteq> Inr ()"
proof -
  let ?G = "guarded_generate (u ''c'') demo_operation (u ''t'') Written
      (Failed (Exc ProviderTimeoutError ''deadline'') True :: unit provider_reply) False Written (demo_executor, demo_dir)"
  obtain r X' D' where g: "?G = (r, X', D')"
    by (cases ?G)
  have "u ''c'' \<noteq> []" by simp
  have "exc_cls (Exc ProviderTimeoutError ''deadline'') = ProviderTimeoutError"
    by simp
  with guarded_generate_barrier [OF demo_clean demo_valid(2) \<open>u ''c'' \<noteq> []\<close> g] have "require_clean X' D' \<noteq> Inr ()"
    by blast
  then show ?thesis
    by (simp add: g)
qed

definition demo_busy :: executor_system where
  "demo_busy = \<lparr>es_dir = demo_dir\<lparr>xd_state := Document (state_json \<lparr>xs_binding = demo_binding,
      xs_pending = Some \<lparr>po_id = demo_operation, po_challenge = u ''c'', po_started = u ''t''\<rparr>, xs_last = None\<rparr>)\<rparr>,
     es_process = Some demo_executor, es_live = {demo_operation}\<rparr>"

lemma demo_busy_reachable: "executor_reachable demo_binding demo_busy"
proof -
  let ?S0 = "fresh_system demo_dir" and ?s = "\<lparr>xs_binding = demo_binding, xs_pending = None, xs_last = None\<rparr>"
  let ?S1 = "?S0\<lparr>es_process := Some demo_executor\<rparr>"
  have snap: "snapshot demo_executor demo_dir = Inr ?s"
    by (simp add: snapshot_def demo_document demo_executor_def)
  have "executor_step demo_binding ?S0 ?S1"
    using snap by (intro executor_step.start) (simp_all add: fresh_system_def ExecutorState_def demo_executor_def)
  moreover have "executor_step demo_binding ?S1
      (after_begin ?S1 (begin_request (u ''c'') demo_operation (u ''t'') Written (demo_executor, es_dir ?S1)))"
    by (rule executor_step.begin_call) simp
  moreover have "demo_executor\<lparr>ex_poisoned := False\<rparr> = demo_executor"
    by (simp add: demo_executor_def)
  then have "after_begin ?S1 (begin_request (u ''c'') demo_operation (u ''t'') Written (demo_executor, es_dir ?S1)) = demo_busy"
    by (simp add: fresh_system_def begin_request_def demo_clean snap write_state_Written after_begin_def demo_busy_def)
  ultimately show ?thesis
    unfolding executor_reachable_def using demo_idle by (metis r_into_rtranclp rtranclp.rtrancl_into_rtrancl)
qed

theorem one_request_at_a_time_witness:
  "records_request (es_dir demo_busy) demo_operation \<and>
   fst (begin_request (u ''d'') demo_operation (u ''t'') Written (demo_executor, es_dir demo_busy)) \<noteq> Inr demo_operation"
proof -
  obtain r X' D' where b: "begin_request (u ''d'') demo_operation (u ''t'') Written (demo_executor, es_dir demo_busy) = (r, X', D')"
    by (cases "begin_request (u ''d'') demo_operation (u ''t'') Written (demo_executor, es_dir demo_busy)")
  have "es_live demo_busy \<noteq> {}"
    by (simp add: demo_busy_def)
  with one_request_at_a_time [OF demo_busy_reachable, of "u ''d''" demo_operation "u ''t''" Written demo_executor r X' D'] b show ?thesis
    by (auto simp: demo_busy_def)
qed

end
