(* ===== verification/Bounded_Executor.thy ===== *)
theory Bounded_Executor
  imports Executor_State Runner
begin

text \<open>
  The bounded executor state of \<open>src/linguistic_oj/bounded_executor_state.py\<close>: one durable record for each
  request in flight, at most \<open>max_inflight\<close> of them, and an incident latch that stops every further request
  until an operator reconciles all of them.  Each method runs under the object's lock and is one step;
  files and writes are those of Executor\_State.
\<close>

section \<open>Documents\<close>

record request_context =
  rc_submission :: pystr
  rc_sample_id :: pystr
  rc_position :: int
  rc_request :: pystr

record request_record =
  rq_challenge :: pystr
  rq_started :: pystr
  rq_context :: "request_context option"

record bounded_document =
  bs_binding :: pystr
  bs_max :: int
  bs_pending :: "(pystr \<times> request_record) list"
  bs_blocked :: bool
  bs_last :: "pystr option"

definition valid_text :: "pystr \<Rightarrow> bool" where
  "valid_text v \<longleftrightarrow> py_strip v \<noteq> [] \<and> length v \<le> 256"

definition valid_request_context :: "request_context \<Rightarrow> bool" where
  "valid_request_context c \<longleftrightarrow> is_sha256 (rc_submission c) \<and> is_sha256 (rc_sample_id c) \<and> is_sha256 (rc_request c) \<and>
     1 \<le> rc_position c \<and> rc_position c \<le> 1000000"

definition valid_context :: "request_context option \<Rightarrow> bool" where
  "valid_context c \<longleftrightarrow> (case c of None \<Rightarrow> True | Some x \<Rightarrow> valid_request_context x)"

definition valid_record :: "request_record \<Rightarrow> bool" where
  "valid_record r \<longleftrightarrow> valid_text (rq_challenge r) \<and> valid_text (rq_started r) \<and>
     valid_context (rq_context r)"

record recovery_evidence =
  ev_binding :: pystr
  ev_pending :: "pystr list"
  ev_terminated :: bool
  ev_confirmed_by :: pystr
  ev_reference :: pystr

record recovery_audit =
  ra_recovery :: pystr
  ra_binding :: pystr
  ra_pending :: "(pystr \<times> request_record) list"
  ra_evidence :: recovery_evidence
  ra_evidence_hash :: pystr

text \<open>
  A file that holds a document of the right shape, or one that does not (every shape error is the same
  \<open>ValueError\<close> of its reader).
\<close>

datatype 'a stored = Missing | Invalid | Stored 'a

record bounded_dir =
  bd_state :: "bounded_document stored"
  bd_audits :: "pystr \<Rightarrow> recovery_audit stored"

text \<open>\<open>digest\<close> is \<open>canonical_sha256\<close> of the recovery identity and of a pending set.\<close>

record digests =
  dg_recovery :: "pystr \<Rightarrow> int \<Rightarrow> (pystr \<times> request_record) list \<Rightarrow> pystr"
  dg_pending :: "(pystr \<times> request_record) list \<Rightarrow> pystr"

definition sorted_ids :: "(pystr \<times> request_record) list \<Rightarrow> pystr list" where
  "sorted_ids p = sort (map fst p)"

definition audit_valid :: "digests \<Rightarrow> bounded_document \<Rightarrow> pystr \<Rightarrow> recovery_audit \<Rightarrow> bool" where
  "audit_valid G s i a \<longleftrightarrow> ra_binding a = bs_binding s \<and> ra_recovery a = i \<and> ra_pending a \<noteq> [] \<and>
     dg_recovery G (bs_binding s) (bs_max s) (ra_pending a) = i \<and> ev_terminated (ra_evidence a) \<and>
     ev_pending (ra_evidence a) = sorted_ids (ra_pending a) \<and> is_sha256 (ra_evidence_hash a)"

definition read_bounded_state :: "digests \<Rightarrow> bounded_dir \<Rightarrow> bounded_document result" where
  "read_bounded_state G D =
     (case bd_state D of
        Stored s \<Rightarrow>
          rbind (ensure (is_sha256 (bs_binding s) \<and> 1 \<le> bs_max s \<and> bs_max s \<le> 32 \<and> int (length (bs_pending s)) \<le> bs_max s)
            (Exc ValueError ''invalid bounded executor state'')) (\<lambda>_.
          rbind (ensure (list_all (\<lambda>(k, r). is_hex32 k \<and> valid_record r) (bs_pending s))
            (Exc ValueError ''invalid pending request record'')) (\<lambda>_.
          rbind (case bs_last s of
                   None \<Rightarrow> Inr ()
                 | Some i \<Rightarrow>
                     rbind (ensure (is_sha256 i) (Exc ValueError ''invalid recovery reference'')) (\<lambda>_.
                       (case bd_audits D i of
                          Stored a \<Rightarrow> ensure (audit_valid G s i a) (Exc ValueError ''bounded executor recovery audit mismatch'')
                        | _ \<Rightarrow> raise ValueError ''bounded executor recovery audit mismatch''))) (\<lambda>_.
            Inr s)))
      | _ \<Rightarrow> raise ValueError ''invalid bounded executor state'')"

section \<open>The state object\<close>

record bounded =
  bx_binding :: pystr
  bx_max :: int
  bx_fault :: bool
  bx_live :: "pystr set"
  bx_poisoned :: bool
  bx_startup :: bool

type_synonym 'a bounded_call = "bounded \<times> bounded_dir \<Rightarrow> 'a result \<times> bounded \<times> bounded_dir"

definition faulted :: "bounded \<Rightarrow> bounded" where
  "faulted X = X\<lparr>bx_fault := True\<rparr>"

definition BoundedExecutorState :: "digests \<Rightarrow> bounded_dir \<Rightarrow> pystr \<Rightarrow> bounded result" where
  "BoundedExecutorState G D binding =
     rbind (read_bounded_state G D) (\<lambda>s.
       if bs_binding s \<noteq> binding then raise ValueError ''bounded executor binding or capacity changed''
       else Inr \<lparr>bx_binding = binding, bx_max = bs_max s, bx_fault = (bs_pending s \<noteq> [] \<or> bs_blocked s),
              bx_live = {}, bx_poisoned = False, bx_startup = (bs_pending s \<noteq> [])\<rparr>)"

definition bounded_write :: "write_outcome \<Rightarrow> bounded_document \<Rightarrow> unit bounded_call" where
  "bounded_write w s = (\<lambda>(X, D).
     (case w of
        Written \<Rightarrow> (Inr (), X, D\<lparr>bd_state := Stored s\<rparr>)
      | Not_Replaced \<Rightarrow> (raise OSError ''write failed'', faulted (X\<lparr>bx_poisoned := True\<rparr>), D)
      | Not_Synced \<Rightarrow> (raise OSError ''fsync failed'', faulted (X\<lparr>bx_poisoned := True\<rparr>), D\<lparr>bd_state := Stored s\<rparr>)))"

definition bounded_initialize :: "digests \<Rightarrow> bounded_dir \<Rightarrow> bool \<Rightarrow> pystr \<Rightarrow> int \<Rightarrow> write_outcome \<Rightarrow> bounded result \<times> bounded_dir" where
  "bounded_initialize G D no_files binding m w =
     (if \<not> is_sha256 binding \<or> \<not> (1 \<le> m \<and> m \<le> 32) then (raise ValueError ''invalid bounded executor initialization'', D)
      else if \<not> no_files then (raise ValueError ''initialization requires a new empty dedicated directory'', D)
      else
        (let D' = D\<lparr>bd_state := Stored \<lparr>bs_binding = binding, bs_max = m, bs_pending = [], bs_blocked = False, bs_last = None\<rparr>\<rparr>
         in (case w of
               Written \<Rightarrow> (BoundedExecutorState G D' binding, D')
             | Not_Replaced \<Rightarrow> (raise OSError ''write failed'', D)
             | Not_Synced \<Rightarrow> (raise OSError ''fsync failed'', D'))))"

text \<open>\<open>snapshot\<close> latches the fault signal when the state cannot be read or belongs to another deployment.\<close>

definition bounded_snapshot :: "digests \<Rightarrow> bounded_document bounded_call" where
  "bounded_snapshot G = (\<lambda>(X, D).
     (case rbind (read_bounded_state G D) (\<lambda>s.
             if bs_binding s \<noteq> bx_binding X \<or> bs_max s \<noteq> bx_max X
             then raise ValueError ''bounded executor binding or capacity changed'' else Inr s) of
        Inl e \<Rightarrow> (Inl e, faulted X, D)
      | Inr s \<Rightarrow> (Inr s, X, D)))"

definition require_dispatchable :: "digests \<Rightarrow> unit bounded_call" where
  "require_dispatchable G =
     run_bind (bounded_snapshot G) (\<lambda>s (X, D).
       if bx_fault X \<or> bx_poisoned X \<or> bx_startup X \<or> bs_blocked s \<or> fst ` set (bs_pending s) \<noteq> bx_live X
       then (raise RecoveryRequired ''bounded executor requires termination reconciliation'', faulted X, D)
       else (Inr (), X, D))"

definition bounded_require_clean :: "digests \<Rightarrow> unit bounded_call" where
  "bounded_require_clean G =
     run_bind (require_dispatchable G) (\<lambda>_.
     run_bind (bounded_snapshot G) (\<lambda>s.
       run_pure (ensure (bs_pending s = []) (Exc RecoveryRequired ''bounded executor still has in-flight requests''))))"

definition live_add :: "pystr \<Rightarrow> bounded \<Rightarrow> bounded" where
  "live_add i X = X\<lparr>bx_live := insert i (bx_live X)\<rparr>"

definition live_remove :: "pystr \<Rightarrow> bounded \<Rightarrow> bounded" where
  "live_remove i X = X\<lparr>bx_live := bx_live X - {i}\<rparr>"

definition bounded_begin :: "digests \<Rightarrow> pystr \<Rightarrow> request_context option \<Rightarrow> pystr \<Rightarrow> pystr \<Rightarrow> write_outcome \<Rightarrow> pystr bounded_call" where
  "bounded_begin G challenge cx fresh now w =
     (if \<not> valid_text challenge then run_pure (raise ValueError ''invalid request challenge identity'')
      else if \<not> valid_context cx
      then run_pure (raise ValueError ''invalid request correlation context'')
      else
        run_bind (require_dispatchable G) (\<lambda>_.
        run_bind (bounded_snapshot G) (\<lambda>s (X, D).
          if bx_max X \<le> int (length (bs_pending s))
          then (raise ExecutorBusy ''bounded executor request slots are full'', X, D)
          else
            run_bind (bounded_write w
                (s\<lparr>bs_pending := dict_set fresh \<lparr>rq_challenge = challenge, rq_started = now, rq_context = cx\<rparr> (bs_pending s)\<rparr>))
              (\<lambda>_ (X, D). (Inr fresh, live_add fresh X, D)) (X, D))))"

definition bounded_finish :: "digests \<Rightarrow> pystr \<Rightarrow> write_outcome \<Rightarrow> unit bounded_call" where
  "bounded_finish G operation w =
     run_bind (bounded_snapshot G) (\<lambda>s (X, D).
       if operation \<notin> bx_live X \<or> operation \<notin> fst ` set (bs_pending s)
       then (raise RecoveryRequired ''request completion does not match live ownership'', faulted (X\<lparr>bx_poisoned := True\<rparr>), D)
       else if bx_fault X \<or> bx_poisoned X \<or> bs_blocked s then (Inr (), live_remove operation X, D)
       else run_bind (bounded_write w (s\<lparr>bs_pending := dict_del operation (bs_pending s)\<rparr>))
              (\<lambda>_ (X, D). (Inr (), live_remove operation X, D)) (X, D))"

definition bounded_block :: "digests \<Rightarrow> pystr \<Rightarrow> write_outcome \<Rightarrow> unit bounded_call" where
  "bounded_block G operation w = (\<lambda>(X, D).
     run_bind (bounded_snapshot G) (\<lambda>s (X, D).
       if operation \<notin> bx_live X \<or> operation \<notin> fst ` set (bs_pending s)
       then (raise RecoveryRequired ''uncertain request identity changed'', X, D)
       else bounded_write w (s\<lparr>bs_blocked := True\<rparr>) (X, D)) (faulted (X\<lparr>bx_poisoned := True\<rparr>), D))"

text \<open>\<open>evidence\<close> is the operator's file with the digest of its text.\<close>

definition bounded_evidence_ok :: "pystr \<Rightarrow> (pystr \<times> request_record) list \<Rightarrow> recovery_evidence \<Rightarrow> bool" where
  "bounded_evidence_ok binding pending e \<longleftrightarrow> ev_binding e = binding \<and> ev_pending e = sorted_ids pending \<and>
     ev_terminated e \<and> valid_text (ev_confirmed_by e) \<and> valid_text (ev_reference e)"

definition store_audit :: "recovery_audit \<Rightarrow> write_outcome \<Rightarrow> unit bounded_call" where
  "store_audit a wa = (\<lambda>(X, D).
     (case bd_audits D (ra_recovery a) of
        Missing \<Rightarrow>
          (case wa of
             Written \<Rightarrow> (Inr (), X, D\<lparr>bd_audits := (bd_audits D)(ra_recovery a := Stored a)\<rparr>)
           | Not_Replaced \<Rightarrow> (raise OSError ''write failed'', X, D)
           | Not_Synced \<Rightarrow> (raise OSError ''fsync failed'', X, D\<lparr>bd_audits := (bd_audits D)(ra_recovery a := Stored a)\<rparr>))
      | Invalid \<Rightarrow> (raise ValueError ''recovery evidence differs from durable audit'', X, D)
      | Stored prior \<Rightarrow> (ensure (prior = a) (Exc ValueError ''recovery evidence differs from durable audit''), X, D)))"

definition recover_all :: "digests \<Rightarrow> pystr \<Rightarrow> (recovery_evidence \<times> pystr) stored \<Rightarrow> write_outcome \<Rightarrow> write_outcome
    \<Rightarrow> unit bounded_call" where
  "recover_all G expected evidence wa ws = (\<lambda>(X, D).
     if bx_live X \<noteq> {} then (raise RecoveryRequired ''stop the old executor before recovery'', X, D)
     else
       run_bind (bounded_snapshot G) (\<lambda>s.
       run_bind (run_pure (ensure (bs_pending s \<noteq> [] \<and> expected = dg_pending G (bs_pending s))
         (Exc ValueError ''pending request set does not match recovery''))) (\<lambda>_.
       run_bind (run_pure (case evidence of
           Stored (e, h) \<Rightarrow> if bounded_evidence_ok (bx_binding X) (bs_pending s) e then Inr (e, h)
                           else raise ValueError ''explicit evidence for the entire pending set is required''
         | _ \<Rightarrow> raise ValueError ''explicit evidence for the entire pending set is required'')) (\<lambda>(e, h).
       (let i = dg_recovery G (bx_binding X) (bx_max X) (bs_pending s)
        in run_bind (store_audit \<lparr>ra_recovery = i, ra_binding = bx_binding X, ra_pending = bs_pending s,
               ra_evidence = e, ra_evidence_hash = h\<rparr> wa) (\<lambda>_.
           run_bind (bounded_write ws (s\<lparr>bs_pending := [], bs_blocked := False, bs_last := Some i\<rparr>)) (\<lambda>_ (X, D).
             (Inr (), X\<lparr>bx_startup := False, bx_poisoned := False, bx_fault := False\<rparr>, D))))))) (X, D))"

text \<open>A guarded body (the claim of a submission) runs only when requests may be dispatched.\<close>

definition claim_guard :: "digests \<Rightarrow> 'a bounded_call \<Rightarrow> 'a bounded_call" where
  "claim_guard G body = run_bind (require_dispatchable G) (\<lambda>_. body)"

section \<open>The guarded provider\<close>

definition raise_after :: "py_exc \<Rightarrow> unit bounded_call \<Rightarrow> 'a bounded_call" where
  "raise_after e m = run_bind m (\<lambda>_. run_pure (Inl e))"

text \<open>\<open>reply\<close> and \<open>active\<close> are the outcome of the parent's call, as in Executor\_State.\<close>

definition generate_guarded :: "digests \<Rightarrow> pystr \<Rightarrow> request_context option \<Rightarrow> pystr \<Rightarrow> pystr \<Rightarrow> write_outcome
    \<Rightarrow> 'a provider_reply \<Rightarrow> bool \<Rightarrow> write_outcome \<Rightarrow> 'a bounded_call" where
  "generate_guarded G challenge cx fresh now wb reply active we =
     run_bind (bounded_begin G challenge cx fresh now wb) (\<lambda>operation.
       (case reply of
          Failed e termination_confirmed \<Rightarrow>
            if confirmed_end e termination_confirmed \<and> \<not> active then raise_after e (bounded_finish G operation we)
            else raise_after e (bounded_block G operation we)
        | Answered g \<Rightarrow>
            if active then raise_after (Exc RecoveryRequired ''request termination is not confirmed'') (bounded_block G operation we)
            else run_bind (bounded_finish G operation we) (\<lambda>_. run_pure (Inr g))))"

section \<open>The executor, its threads and the model server\<close>

record bounded_system =
  sy_dir :: bounded_dir
  sy_process :: "bounded option"
  sy_live :: "pystr set"

definition sy_after :: "bounded_system \<Rightarrow> 'a result \<times> bounded \<times> bounded_dir \<Rightarrow> bounded_system" where
  "sy_after S = (\<lambda>(_, X, D). S\<lparr>sy_dir := D, sy_process := Some X\<rparr>)"

definition sy_begun :: "bounded_system \<Rightarrow> pystr result \<times> bounded \<times> bounded_dir \<Rightarrow> bounded_system" where
  "sy_begun S c = (sy_after S c)\<lparr>sy_live := (case fst c of Inr i \<Rightarrow> insert i (sy_live S) | Inl _ \<Rightarrow> sy_live S)\<rparr>"

text \<open>
  The provider calls \<open>finish\<close> only for a request that has ended; it may call \<open>block\<close> for any.  The threads of the process
  interleave, one locked method at a time.
\<close>

inductive bounded_step :: "digests \<Rightarrow> pystr \<Rightarrow> bounded_system \<Rightarrow> bounded_system \<Rightarrow> bool" for G binding where
  start: "sy_process S = None \<Longrightarrow> BoundedExecutorState G (sy_dir S) binding = Inr X
    \<Longrightarrow> bounded_step G binding S (S\<lparr>sy_process := Some X\<rparr>)"
| crash: "bounded_step G binding S (S\<lparr>sy_process := None\<rparr>)"
| check: "sy_process S = Some X \<Longrightarrow> bounded_step G binding S (sy_after S (require_dispatchable G (X, sy_dir S)))"
| begin_call: "sy_process S = Some X
    \<Longrightarrow> bounded_step G binding S (sy_begun S (bounded_begin G challenge cx fresh now w (X, sy_dir S)))"
| ended: "bounded_step G binding S (S\<lparr>sy_live := sy_live S - {i}\<rparr>)"
| finish_call: "sy_process S = Some X \<Longrightarrow> i \<notin> sy_live S
    \<Longrightarrow> bounded_step G binding S (sy_after S (bounded_finish G i w (X, sy_dir S)))"
| block_call: "sy_process S = Some X
    \<Longrightarrow> bounded_step G binding S (sy_after S (bounded_block G i w (X, sy_dir S)))"

text \<open>A recovery is attested only when none of the recorded requests is still running.\<close>

definition stored_document :: "bounded_dir \<Rightarrow> bounded_document option" where
  "stored_document D = (case bd_state D of Stored s \<Rightarrow> Some s | _ \<Rightarrow> None)"

definition recorded_ids :: "bounded_dir \<Rightarrow> pystr set" where
  "recorded_ids D = (case stored_document D of Some s \<Rightarrow> fst ` set (bs_pending s) | None \<Rightarrow> {})"

inductive bounded_recovery :: "digests \<Rightarrow> bounded_system \<Rightarrow> bounded_system \<Rightarrow> bool" for G where
  recover: "sy_process S = Some X \<Longrightarrow> recorded_ids (sy_dir S) \<inter> sy_live S = {}
    \<Longrightarrow> bounded_recovery G S (sy_after S (recover_all G expected evidence wa ws (X, sy_dir S)))"

definition bounded_reachable :: "digests \<Rightarrow> pystr \<Rightarrow> int \<Rightarrow> bounded_system \<Rightarrow> bool" where
  "bounded_reachable G binding m S \<longleftrightarrow>
     (\<exists>D X D'. bounded_initialize G D True binding m Written = (Inr X, D') \<and>
        (sup (bounded_step G binding) (bounded_recovery G))\<^sup>*\<^sup>* \<lparr>sy_dir = D', sy_process = None, sy_live = {}\<rparr> S)"

section \<open>What each call writes\<close>

lemma snapshot_stored:
  "bounded_snapshot G (X, D) = (Inr s, X', D') \<Longrightarrow> X' = X \<and> D' = D \<and> stored_document D = Some s \<and>
     bs_binding s = bx_binding X \<and> bs_max s = bx_max X \<and> int (length (bs_pending s)) \<le> bs_max s"
  by (auto simp: bounded_snapshot_def read_bounded_state_def rbind_Inr_iff stored_document_def
      split: sum.splits stored.splits if_splits)

lemma snapshot_error: "bounded_snapshot G (X, D) = (Inl e, X', D') \<Longrightarrow> X' = faulted X \<and> D' = D"
  by (auto simp: bounded_snapshot_def split: sum.splits)

lemma write_cases:
  "bounded_write w s (X, D) = (r, X', D') \<Longrightarrow>
     (r = Inr () \<and> X' = X \<and> stored_document D' = Some s) \<or>
     ((\<exists>e. r = Inl e) \<and> X' = faulted (X\<lparr>bx_poisoned := True\<rparr>) \<and> (D' = D \<or> stored_document D' = Some s))"
  by (cases w) (auto simp: bounded_write_def stored_document_def)

lemma dispatchable_cases:
  assumes "require_dispatchable G (X, D) = (r, X', D')"
  obtains e where "r = Inl e" "X' = faulted X" "D' = D"
  | s where "r = Inr ()" "X' = X" "D' = D" "stored_document D = Some s" "\<not> bx_fault X" "\<not> bs_blocked s"
      "fst ` set (bs_pending s) = bx_live X"
proof (cases "bounded_snapshot G (X, D)")
  case (fields a Y E)
  show ?thesis
  proof (cases a)
    case (Inl e)
    with fields snapshot_error [of G X D e Y E] assms that(1) show ?thesis
      by (auto simp: require_dispatchable_def run_bind_def)
  next
    case (Inr s)
    with fields snapshot_stored [of G X D s Y E] assms that show ?thesis
      by (auto simp: require_dispatchable_def run_bind_def split: if_splits)
  qed
qed

lemma begin_cases:
  assumes "bounded_begin G challenge cx fresh now w (X, D) = (r, X', D')"
  obtains e where "r = Inl e" "D' = D" "X' = X \<or> X' = faulted X"
  | s q where "stored_document D = Some s" "\<not> bx_fault X" "int (length (bs_pending s)) < bs_max s"
      "r = Inr fresh \<and> X' = live_add fresh X \<and> stored_document D' = Some (s\<lparr>bs_pending := dict_set fresh q (bs_pending s)\<rparr>) \<or>
       (\<exists>e. r = Inl e) \<and> X' = faulted (X\<lparr>bx_poisoned := True\<rparr>) \<and>
         (D' = D \<or> stored_document D' = Some (s\<lparr>bs_pending := dict_set fresh q (bs_pending s)\<rparr>))"
proof (cases "\<not> valid_text challenge \<or> \<not> valid_context cx")
  case True
  with assms that(1) show ?thesis
    by (cases "valid_text challenge") (auto simp: bounded_begin_def run_pure_def)
next
  case False
  obtain a Y E where d: "require_dispatchable G (X, D) = (a, Y, E)"
    by (cases "require_dispatchable G (X, D)")
  from d show ?thesis
  proof (cases rule: dispatchable_cases)
    case (1 e)
    with False assms d that(1) show ?thesis
      by (auto simp: bounded_begin_def run_bind_def)
  next
    case (2 s)
    obtain b Z F where b: "bounded_snapshot G (X, D) = (b, Z, F)"
      by (cases "bounded_snapshot G (X, D)")
    show ?thesis
    proof (cases b)
      case (Inl e)
      with b 2 d False assms that(1) snapshot_error [of G X D e Z F] show ?thesis
        by (auto simp: bounded_begin_def run_bind_def)
    next
      case (Inr s')
      with b snapshot_stored [of G X D s' Z F] 2 have s': "s' = s" "Z = X" "F = D" "bs_max s = bx_max X"
        by auto
      let ?q = "\<lparr>rq_challenge = challenge, rq_started = now, rq_context = cx\<rparr>"
      let ?s = "s\<lparr>bs_pending := dict_set fresh ?q (bs_pending s)\<rparr>"
      show ?thesis
      proof (cases "bx_max X \<le> int (length (bs_pending s))")
        case True
        with b Inr s' 2 d False assms that(1) show ?thesis
          by (auto simp: bounded_begin_def run_bind_def)
      next
        case room: False
        obtain c U V where c: "bounded_write w ?s (X, D) = (c, U, V)"
          by (cases "bounded_write w ?s (X, D)")
        from b Inr s' 2 d False assms room c
        have "run_bind (\<lambda>_. (c, U, V)) (\<lambda>_ (X, D). (Inr fresh, live_add fresh X, D)) (X, D) = (r, X', D')"
          by (simp add: bounded_begin_def run_bind_def)
        with write_cases [OF c] room s' 2 that(2) [of s ?q] show ?thesis
          by (auto simp: run_bind_def)
      qed
    qed
  qed
qed

lemma finish_cases:
  assumes "bounded_finish G i w (X, D) = (r, X', D')"
  obtains "D' = D" "bx_fault X \<longrightarrow> bx_fault X'"
  | s where "stored_document D = Some s" "\<not> bx_fault X" "stored_document D' = Some (s\<lparr>bs_pending := dict_del i (bs_pending s)\<rparr>)"
proof (cases "bounded_snapshot G (X, D)")
  case (fields a Y E)
  show ?thesis
  proof (cases a)
    case (Inl e)
    with fields snapshot_error [of G X D e Y E] assms that(1) show ?thesis
      by (auto simp: bounded_finish_def run_bind_def faulted_def)
  next
    case (Inr s)
    with fields have snap: "bounded_snapshot G (X, D) = (Inr s, X, D)" and s: "stored_document D = Some s"
      using snapshot_stored [of G X D s Y E] by auto
    show ?thesis
    proof (cases "i \<in> bx_live X \<and> i \<in> fst ` set (bs_pending s) \<and> \<not> bx_fault X \<and> \<not> bx_poisoned X \<and> \<not> bs_blocked s")
      case True
      obtain c U V where c: "bounded_write w (s\<lparr>bs_pending := dict_del i (bs_pending s)\<rparr>) (X, D) = (c, U, V)"
        by (cases "bounded_write w (s\<lparr>bs_pending := dict_del i (bs_pending s)\<rparr>) (X, D)")
      with True snap assms have "V = D'"
        by (cases c) (auto simp: bounded_finish_def run_bind_def)
      with write_cases [OF c] True s that show ?thesis
        by auto
    next
      case False
      with snap assms that(1) show ?thesis
        by (auto simp: bounded_finish_def run_bind_def faulted_def live_remove_def split: if_splits)
    qed
  qed
qed

lemma block_cases:
  assumes "bounded_block G i w (X, D) = (r, X', D')"
  obtains "D' = D" "bx_fault X'"
  | s where "stored_document D = Some s" "bx_fault X'" "stored_document D' = Some (s\<lparr>bs_blocked := True\<rparr>)"
proof -
  let ?X = "faulted (X\<lparr>bx_poisoned := True\<rparr>)"
  obtain a Y E where snap: "bounded_snapshot G (?X, D) = (a, Y, E)"
    by (cases "bounded_snapshot G (?X, D)")
  show ?thesis
  proof (cases a)
    case (Inl e)
    with snap snapshot_error [of G ?X D e Y E] assms that(1) show ?thesis
      by (auto simp: bounded_block_def run_bind_def faulted_def)
  next
    case (Inr s)
    then have s: "stored_document D = Some s" "Y = ?X" "E = D"
      using snap snapshot_stored [of G ?X D s Y E] by auto
    show ?thesis
    proof (cases "i \<in> bx_live X \<and> i \<in> fst ` set (bs_pending s)")
      case True
      with assms snap Inr s have w: "bounded_write w (s\<lparr>bs_blocked := True\<rparr>) (?X, D) = (r, X', D')"
        by (simp add: bounded_block_def run_bind_def faulted_def)
      from write_cases [OF this] s(1) that show ?thesis
        by (auto simp: faulted_def)
    next
      case False
      with assms snap Inr s that(1) show ?thesis
        by (auto simp: bounded_block_def run_bind_def faulted_def split: if_splits)
    qed
  qed
qed

lemma store_audit_state: "store_audit a wa (X, D) = (r, X', D') \<Longrightarrow> bd_state D' = bd_state D \<and> X' = X"
  by (cases wa) (auto simp: store_audit_def split: stored.splits)
lemma recover_cases:
  assumes "recover_all G expected evidence wa ws (X, D) = (r, X', D')"
  obtains "stored_document D' = stored_document D" "\<exists>e. r = Inl e"
  | s i where "stored_document D = Some s" "stored_document D' = Some (s\<lparr>bs_pending := [], bs_blocked := False, bs_last := Some i\<rparr>)"
proof (cases "bx_live X = {}")
  case False
  with assms that(1) show ?thesis
    by (auto simp: recover_all_def)
next
  case live: True
  obtain a Y E where snap: "bounded_snapshot G (X, D) = (a, Y, E)"
    by (cases "bounded_snapshot G (X, D)")
  show ?thesis
  proof (cases a)
    case (Inl e)
    with snap live snapshot_error [of G X D e Y E] assms that(1) show ?thesis
      by (auto simp: recover_all_def run_bind_def)
  next
    case (Inr s)
    with snap have snap': "bounded_snapshot G (X, D) = (Inr s, X, D)" and s: "stored_document D = Some s"
      using snapshot_stored [of G X D s Y E] by auto
    show ?thesis
    proof (cases "\<exists>e h. evidence = Stored (e, h) \<and> bounded_evidence_ok (bx_binding X) (bs_pending s) e \<and>
        bs_pending s \<noteq> [] \<and> expected = dg_pending G (bs_pending s)")
      case False
      with assms live snap' that(1) show ?thesis
        by (cases "bs_pending s \<noteq> [] \<and> expected = dg_pending G (bs_pending s)")
          (auto simp: recover_all_def run_bind_def run_pure_def split: stored.splits prod.splits if_splits)
    next
      case True
      then obtain e h where ev: "evidence = Stored (e, h)" "bounded_evidence_ok (bx_binding X) (bs_pending s) e"
          "bs_pending s \<noteq> []" "expected = dg_pending G (bs_pending s)"
        by blast
      let ?i = "dg_recovery G (bx_binding X) (bx_max X) (bs_pending s)"
      let ?a = "\<lparr>ra_recovery = ?i, ra_binding = bx_binding X, ra_pending = bs_pending s, ra_evidence = e, ra_evidence_hash = h\<rparr>"
      let ?s = "s\<lparr>bs_pending := [], bs_blocked := False, bs_last := Some ?i\<rparr>"
      obtain b Z F where b: "store_audit ?a wa (X, D) = (b, Z, F)"
        by (cases "store_audit ?a wa (X, D)")
      have F: "stored_document F = stored_document D" "Z = X"
        using store_audit_state [OF b] by (auto simp: stored_document_def)
      obtain c U V where c: "bounded_write ws ?s (X, F) = (c, U, V)"
        by (cases "bounded_write ws ?s (X, F)")
      show ?thesis
      proof (cases b)
        case (Inl e')
        with assms live snap' ev b F that(1) show ?thesis
          by (auto simp: recover_all_def run_bind_def run_pure_def Let_def)
      next
        case (Inr unit)
        with assms live snap' ev b F c have "V = D'" "\<exists>e. c = Inl e \<Longrightarrow> \<exists>e. r = Inl e"
          by (cases c; auto simp: recover_all_def run_bind_def run_pure_def Let_def)+
        with write_cases [OF c] F s that show ?thesis
          by auto
      qed
    qed
  qed
qed

section \<open>At most \<open>max_inflight\<close> requests, and none after an incident\<close>

definition slots_ok :: "int \<Rightarrow> bounded_system \<Rightarrow> bool" where
  "slots_ok m S \<longleftrightarrow> (\<exists>s. stored_document (sy_dir S) = Some s \<and> bs_max s = m \<and>
     int (length (bs_pending s)) \<le> m \<and> sy_live S \<subseteq> fst ` set (bs_pending s))"

lemma slots_okI:
  assumes "stored_document (sy_dir S) = Some s" "bs_max s = m" "int (length (bs_pending s)) \<le> m"
    "sy_live S \<subseteq> fst ` set (bs_pending s)"
  shows "slots_ok m S"
  using assms by (auto simp: slots_ok_def)

lemma slots_okE:
  assumes "slots_ok m S"
  obtains s where "stored_document (sy_dir S) = Some s" "bs_max s = m" "int (length (bs_pending s)) \<le> m"
    "sy_live S \<subseteq> fst ` set (bs_pending s)"
  using assms by (auto simp: slots_ok_def)

lemma length_dict_set: "length (dict_set k v xs) \<le> Suc (length xs)"
  by (induction xs) auto

lemma length_dict_del: "length (dict_del k xs) \<le> length xs"
  by (simp add: dict_del_def)

lemma fst_dict_del: "fst ` set (dict_del k xs) = fst ` set xs - {k}"
  by (auto simp: dict_del_def)

lemma begin_slots:
  assumes "slots_ok m S" and "bounded_begin G challenge cx fresh now w (X, sy_dir S) = (r, X', D')"
  shows "slots_ok m (sy_begun S (r, X', D'))"
  using assms(2)
proof (cases rule: begin_cases)
  case (1 e)
  with assms(1) show ?thesis
    by (auto simp: slots_ok_def sy_begun_def sy_after_def)
next
  case (2 s q)
  then have s: "bs_max s = m" "sy_live S \<subseteq> fst ` set (bs_pending s)" "int (length (bs_pending s)) < m"
    using assms(1) by (auto simp: slots_ok_def)
  let ?s = "s\<lparr>bs_pending := dict_set fresh q (bs_pending s)\<rparr>"
  have size: "int (length (bs_pending ?s)) \<le> m"
    using s(3) length_dict_set [of fresh q "bs_pending s"] by simp
  show ?thesis
  proof (cases "stored_document D' = Some ?s")
    case True
    then show ?thesis
      using 2(4) s(1,2) size
      by (intro slots_okI [of _ ?s]) (auto simp: sy_begun_def sy_after_def split: sum.splits)
  next
    case False
    with 2 s show ?thesis
      by (intro slots_okI [of _ s]) (auto simp: sy_begun_def sy_after_def)
  qed
qed

lemma finish_slots:
  assumes "slots_ok m S" and "i \<notin> sy_live S" and "bounded_finish G i w (X, sy_dir S) = (r, X', D')"
  shows "slots_ok m (sy_after S (r, X', D'))"
  using assms(3)
proof (cases rule: finish_cases)
  case 1
  with assms(1) show ?thesis
    by (simp add: slots_ok_def sy_after_def)
next
  case (2 s)
  with assms(1,2) length_dict_del [of i "bs_pending s"] show ?thesis
    by (intro slots_okI [of _ "s\<lparr>bs_pending := dict_del i (bs_pending s)\<rparr>"]) (auto simp: sy_after_def slots_ok_def fst_dict_del)
qed

lemma block_slots:
  assumes "slots_ok m S" and "bounded_block G i w (X, sy_dir S) = (r, X', D')"
  shows "slots_ok m (sy_after S (r, X', D'))"
  using assms(2)
proof (cases rule: block_cases)
  case 1
  with assms(1) show ?thesis
    by (simp add: slots_ok_def sy_after_def)
next
  case (2 s)
  with assms(1) show ?thesis
    by (intro slots_okI [of _ "s\<lparr>bs_blocked := True\<rparr>"]) (auto simp: sy_after_def slots_ok_def)
qed

lemma recover_slots:
  assumes "slots_ok m S" and "recorded_ids (sy_dir S) \<inter> sy_live S = {}"
    and "recover_all G expected evidence wa ws (X, sy_dir S) = (r, X', D')"
  shows "slots_ok m (sy_after S (r, X', D'))"
  using assms(3)
proof (cases rule: recover_cases)
  case 1
  with assms(1) show ?thesis
    by (simp add: slots_ok_def sy_after_def)
next
  case (2 s i)
  with assms(1,2) have "sy_live S = {}" "bs_max s = m" "0 \<le> m"
    by (auto simp: slots_ok_def recorded_ids_def)
  with 2 show ?thesis
    by (intro slots_okI [of _ "s\<lparr>bs_pending := [], bs_blocked := False, bs_last := Some i\<rparr>"]) (auto simp: sy_after_def)
qed

lemma dispatchable_dir: "require_dispatchable G (X, D) = (r, X', D') \<Longrightarrow> D' = D"
  by (erule dispatchable_cases) auto

lemma bounded_step_slots: "bounded_step G binding S S' \<Longrightarrow> slots_ok m S \<Longrightarrow> slots_ok m S'"
proof (induction rule: bounded_step.induct)
  case (check S X)
  obtain r X' D' where c: "require_dispatchable G (X, sy_dir S) = (r, X', D')"
    by (cases "require_dispatchable G (X, sy_dir S)")
  with dispatchable_dir [OF c] check show ?case
    by (simp add: slots_ok_def sy_after_def)
next
  case (begin_call S X challenge cx fresh now w)
  then show ?case
    by (cases "bounded_begin G challenge cx fresh now w (X, sy_dir S)") (simp add: begin_slots)
next
  case (finish_call S X i w)
  then show ?case
    by (cases "bounded_finish G i w (X, sy_dir S)") (simp add: finish_slots)
next
  case (block_call S X i w)
  then show ?case
    by (cases "bounded_block G i w (X, sy_dir S)") (simp add: block_slots)
qed (auto simp: slots_ok_def)

lemma bounded_recovery_slots: "bounded_recovery G S S' \<Longrightarrow> slots_ok m S \<Longrightarrow> slots_ok m S'"
proof (induction rule: bounded_recovery.induct)
  case (recover S X expected evidence wa ws)
  then show ?case
    by (cases "recover_all G expected evidence wa ws (X, sy_dir S)") (simp add: recover_slots)
qed

lemma bounded_reachable_slots:
  assumes "bounded_reachable G binding m S"
  shows "slots_ok m S"
proof -
  obtain D X D' where init: "bounded_initialize G D True binding m Written = (Inr X, D')"
    and run: "(sup (bounded_step G binding) (bounded_recovery G))\<^sup>*\<^sup>* \<lparr>sy_dir = D', sy_process = None, sy_live = {}\<rparr> S"
    using assms by (auto simp: bounded_reachable_def)
  from init have "slots_ok m \<lparr>sy_dir = D', sy_process = None, sy_live = {}\<rparr>"
    by (auto simp: bounded_initialize_def slots_ok_def stored_document_def Let_def split: if_splits)
  with run show ?thesis
    by (induction rule: rtranclp_induct) (auto intro: bounded_step_slots bounded_recovery_slots)
qed

lemma inflight_bounded_facts:
  assumes "bounded_reachable G binding m S"
  shows "finite (sy_live S)" and "int (card (sy_live S)) \<le> m"
proof -
  from bounded_reachable_slots [OF assms] obtain s where "stored_document (sy_dir S) = Some s" "bs_max s = m"
      and s: "int (length (bs_pending s)) \<le> m" "sy_live S \<subseteq> fst ` set (bs_pending s)"
    by (rule slots_okE)
  from s(2) show "finite (sy_live S)"
    by (rule finite_subset) simp
  have "card (sy_live S) \<le> card (fst ` set (bs_pending s))"
    by (rule card_mono [OF _ s(2)]) simp
  also have "\<dots> \<le> length (bs_pending s)"
    by (metis card_length length_map set_map)
  finally show "int (card (sy_live S)) \<le> m"
    using s(1) by linarith
qed

text \<open>C19. The capacity: across concurrent threads, crashes, restarts, failed writes and recoveries the model server never
  works on more than \<open>max_inflight\<close> requests of the executor, and the state file holds a record of each of them, and never more
  records than that.\<close>
theorem inflight_bounded:
  assumes "bounded_reachable G binding m S"
  shows "finite (sy_live S) \<and> int (card (sy_live S)) \<le> m \<and>
    (\<exists>s. stored_document (sy_dir S) = Some s \<and> bs_max s = m \<and> int (length (bs_pending s)) \<le> m \<and>
      (\<forall>i \<in> sy_live S. \<exists>q. (i, q) \<in> set (bs_pending s)))"
proof -
  obtain s where "stored_document (sy_dir S) = Some s" "bs_max s = m" "int (length (bs_pending s)) \<le> m"
      "sy_live S \<subseteq> fst ` set (bs_pending s)"
    by (rule slots_okE [OF bounded_reachable_slots [OF assms]])
  moreover from this have "\<forall>i \<in> sy_live S. \<exists>q. (i, q) \<in> set (bs_pending s)"
    by force
  ultimately show ?thesis
    using inflight_bounded_facts [OF assms] by blast
qed

text \<open>An incident: an unreconciled record is on disk, and a running process has its fault latched.\<close>

definition incident :: "bounded_system \<Rightarrow> bool" where
  "incident S \<longleftrightarrow> (\<exists>s. stored_document (sy_dir S) = Some s \<and> bs_pending s \<noteq> []) \<and>
     (case sy_process S of None \<Rightarrow> True | Some X \<Rightarrow> bx_fault X)"

lemma started_fault:
  "BoundedExecutorState G D binding = Inr X \<Longrightarrow> stored_document D = Some s \<Longrightarrow> bs_pending s \<noteq> [] \<Longrightarrow> bx_fault X"
  by (auto simp: BoundedExecutorState_def read_bounded_state_def rbind_Inr_iff stored_document_def
      split: stored.splits if_splits)

lemma begin_refused:
  assumes "bx_fault X" and "bounded_begin G challenge cx fresh now w (X, D) = (r, X', D')"
  shows "(\<exists>e. r = Inl e) \<and> D' = D \<and> bx_fault X'"
  using assms(2) by (cases rule: begin_cases) (use assms(1) in \<open>auto simp: faulted_def\<close>)

lemma bounded_step_incident: "bounded_step G binding S S' \<Longrightarrow> incident S \<Longrightarrow> incident S'"
proof (induction rule: bounded_step.induct)
  case (start S X)
  then show ?case
    by (auto simp: incident_def intro: started_fault)
next
  case (check S X)
  obtain r X' D' where c: "require_dispatchable G (X, sy_dir S) = (r, X', D')"
    by (cases "require_dispatchable G (X, sy_dir S)")
  then show ?case
    by (cases rule: dispatchable_cases) (use check c in \<open>auto simp: incident_def sy_after_def faulted_def\<close>)
next
  case (begin_call S X challenge cx fresh now w)
  obtain r X' D' where c: "bounded_begin G challenge cx fresh now w (X, sy_dir S) = (r, X', D')"
    by (cases "bounded_begin G challenge cx fresh now w (X, sy_dir S)")
  with begin_refused [OF _ c] begin_call show ?case
    by (auto simp: incident_def sy_begun_def sy_after_def)
next
  case (finish_call S X i w)
  obtain r X' D' where c: "bounded_finish G i w (X, sy_dir S) = (r, X', D')"
    by (cases "bounded_finish G i w (X, sy_dir S)")
  then show ?case
    by (cases rule: finish_cases) (use finish_call c in \<open>auto simp: incident_def sy_after_def\<close>)
next
  case (block_call S X i w)
  obtain r X' D' where c: "bounded_block G i w (X, sy_dir S) = (r, X', D')"
    by (cases "bounded_block G i w (X, sy_dir S)")
  then show ?case
    by (cases rule: block_cases) (use block_call c in \<open>auto simp: incident_def sy_after_def\<close>)
qed (auto simp: incident_def)

text \<open>C20. After a request whose end is uncertain is blocked, no request begins any more, in this process or in a restarted
  one, whatever the threads do, until an operator's recovery.\<close>
theorem blocked_until_recovery:
  assumes "bounded_reachable G binding m S" and "sy_process S = Some X" and "i \<in> sy_live S"
    and "(bounded_step G binding)\<^sup>*\<^sup>* (sy_after S (bounded_block G i w (X, sy_dir S))) S'"
    and "sy_process S' = Some Y"
    and "bounded_begin G challenge cx fresh now w' (Y, sy_dir S') = (r, Y', D')"
  shows "(\<exists>e. r = Inl e) \<and> D' = sy_dir S'"
proof -
  from bounded_reachable_slots [OF assms(1)] obtain s
    where s: "stored_document (sy_dir S) = Some s" and "bs_max s = m" "int (length (bs_pending s)) \<le> m" and live: "sy_live S \<subseteq> fst ` set (bs_pending s)"
    by (rule slots_okE)
  have pending: "bs_pending s \<noteq> []"
    using live assms(3) by auto
  obtain b Z E where c: "bounded_block G i w (X, sy_dir S) = (b, Z, E)"
    by (cases "bounded_block G i w (X, sy_dir S)")
  then have "incident (sy_after S (b, Z, E))"
    by (cases rule: block_cases) (use s pending in \<open>auto simp: incident_def sy_after_def\<close>)
  then have "incident (sy_after S (bounded_block G i w (X, sy_dir S)))"
    by (simp add: c)
  with assms(4) have "incident S'"
    by (induction rule: rtranclp_induct) (auto intro: bounded_step_incident)
  then have "bx_fault Y"
    using assms(5) by (simp add: incident_def)
  from begin_refused [OF this assms(6)] show ?thesis
    by simp
qed

section \<open>Examples\<close>

definition demo_digests :: digests where
  "demo_digests = \<lparr>dg_recovery = (\<lambda>_ _ _. demo_binding), dg_pending = (\<lambda>_. demo_binding)\<rparr>"

definition demo_stored :: "(pystr \<times> request_record) list \<Rightarrow> bounded_dir" where
  "demo_stored p = \<lparr>bd_state = Stored \<lparr>bs_binding = demo_binding, bs_max = 2, bs_pending = p, bs_blocked = False, bs_last = None\<rparr>,
     bd_audits = (\<lambda>_. Missing)\<rparr>"

definition demo_bounded :: "pystr set \<Rightarrow> bounded" where
  "demo_bounded L = \<lparr>bx_binding = demo_binding, bx_max = 2, bx_fault = False, bx_live = L, bx_poisoned = False, bx_startup = False\<rparr>"

definition demo_record :: request_record where
  "demo_record = \<lparr>rq_challenge = u ''c'', rq_started = u ''t'', rq_context = None\<rparr>"

definition demo_running :: bounded_system where
  "demo_running = \<lparr>sy_dir = demo_stored [(demo_operation, demo_record)], sy_process = Some (demo_bounded {demo_operation}),
     sy_live = {demo_operation}\<rparr>"

lemma demo_text: "valid_text (u ''c'')" "valid_text (u ''t'')"
  by (simp_all add: valid_text_def py_strip_def py_space_def u_def)

lemma demo_read:
  "read_bounded_state demo_digests (demo_stored []) = Inr (the (stored_document (demo_stored [])))"
  "read_bounded_state demo_digests (demo_stored [(demo_operation, demo_record)])
     = Inr (the (stored_document (demo_stored [(demo_operation, demo_record)])))"
  using demo_valid demo_text
  by (simp_all add: read_bounded_state_def demo_stored_def stored_document_def valid_record_def demo_record_def valid_context_def)

lemma demo_first: "bounded_initialize demo_digests \<lparr>bd_state = Missing, bd_audits = (\<lambda>_. Missing)\<rparr> True demo_binding 2 Written
    = (Inr (demo_bounded {}), demo_stored [])"
  using demo_read(1) demo_valid
  by (simp add: bounded_initialize_def BoundedExecutorState_def Let_def demo_stored_def stored_document_def demo_bounded_def)

lemma demo_begun: "bounded_begin demo_digests (u ''c'') None demo_operation (u ''t'') Written (demo_bounded {}, demo_stored [])
    = (Inr demo_operation, demo_bounded {demo_operation}, demo_stored [(demo_operation, demo_record)])"
  using demo_read(1) demo_text
  by (simp add: bounded_begin_def valid_context_def run_bind_def require_dispatchable_def bounded_snapshot_def
      demo_bounded_def demo_stored_def stored_document_def bounded_write_def live_add_def demo_record_def)

lemma demo_bounded_reachable: "bounded_reachable demo_digests demo_binding 2 demo_running"
proof -
  let ?S0 = "\<lparr>sy_dir = demo_stored [], sy_process = None, sy_live = {}\<rparr>"
  let ?S1 = "?S0\<lparr>sy_process := Some (demo_bounded {})\<rparr>"
  have "bounded_step demo_digests demo_binding ?S0 ?S1"
    using demo_read(1)
    by (intro bounded_step.start) (simp_all add: BoundedExecutorState_def demo_stored_def stored_document_def demo_bounded_def)
  moreover have "bounded_step demo_digests demo_binding ?S1
      (sy_begun ?S1 (bounded_begin demo_digests (u ''c'') None demo_operation (u ''t'') Written (demo_bounded {}, sy_dir ?S1)))"
    by (rule bounded_step.begin_call) simp
  then have "bounded_step demo_digests demo_binding ?S1 demo_running"
    by (simp add: demo_begun sy_begun_def sy_after_def demo_running_def)
  ultimately have "(sup (bounded_step demo_digests demo_binding) (bounded_recovery demo_digests))\<^sup>*\<^sup>* ?S0 demo_running"
    by (meson converse_rtranclp_into_rtranclp r_into_rtranclp sup2I1)
  then show ?thesis
    unfolding bounded_reachable_def using demo_first by blast
qed

theorem inflight_bounded_witness: "int (card (sy_live demo_running)) \<le> 2"
  using inflight_bounded [OF demo_bounded_reachable] by blast

definition demo_blocked :: bounded_system where
  "demo_blocked = sy_after demo_running (bounded_block demo_digests demo_operation Not_Replaced
     (demo_bounded {demo_operation}, sy_dir demo_running))"

theorem blocked_until_recovery_witness:
  "fst (bounded_begin demo_digests (u ''c'') None (u ''x'') (u ''t'') Written (the (sy_process demo_blocked), sy_dir demo_blocked))
     \<noteq> Inr (u ''x'')"
proof -
  obtain r Y' D' where b: "bounded_begin demo_digests (u ''c'') None (u ''x'') (u ''t'') Written
      (the (sy_process demo_blocked), sy_dir demo_blocked) = (r, Y', D')"
    by (cases "bounded_begin demo_digests (u ''c'') None (u ''x'') (u ''t'') Written
      (the (sy_process demo_blocked), sy_dir demo_blocked)")
  have "sy_process demo_running = Some (demo_bounded {demo_operation})" "demo_operation \<in> sy_live demo_running"
    by (simp_all add: demo_running_def)
  moreover have "sy_process demo_blocked = Some (the (sy_process demo_blocked))"
    by (simp add: demo_blocked_def sy_after_def split: prod.splits)
  ultimately show ?thesis
    using blocked_until_recovery [OF demo_bounded_reachable _ _ rtranclp.rtrancl_refl, of "demo_bounded {demo_operation}"
        demo_operation Not_Replaced "the (sy_process demo_blocked)" "u ''c''" None "u ''x''" "u ''t''" Written r Y' D'] b
    by (auto simp: demo_blocked_def)
qed

end
