(* ===== verification/Sample_Scheduler.thy ===== *)
theory Sample_Scheduler
  imports Bounded_Executor
begin

text \<open>
  The request-level scheduler of \<open>src/linguistic_oj/sample_scheduler.py\<close>.  One coordinator thread runs the
  loop of \<open>run\<close>: it admits jobs, picks samples under the lock (\<open>_next\<close>), hands each to a free slot, and
  processes the batch of calls that have completed, also under the lock.  The slots' threads only run
  \<open>_evaluate\<close>.  Each section under the lock is one function of the scheduler's state; the clock is read
  where the code reads it, through the argument \<open>clock\<close>, the time at which a job's deadline is checked.
  A session (\<open>scheduler_session\<close>) is a run of these sections together with what it admitted, sent, received and removed; a
  publication may raise, and it may remove the job, which can then be admitted again.
\<close>

section \<open>Jobs\<close>

record prepared_job =
  pj_submission :: pystr
  pj_owner :: pystr
  pj_challenge :: pystr
  pj_artifacts :: challenge_artifacts
  pj_samples :: "prepared_sample list"
  pj_requests :: "model_request list"
  pj_deadline :: int

record progress =
  pg_job :: prepared_job
  pg_cursor :: nat
  pg_inflight :: "nat set"
  pg_outcomes :: "(nat \<times> sample_outcome) list"
  pg_aggregate :: "aggregate_result option"
  pg_error :: "string option"
  pg_error_type :: "exc_class option"
  pg_failure_code :: "string option"
  pg_retry :: bool
  pg_notified :: bool

definition new_progress :: "prepared_job \<Rightarrow> progress" where
  "new_progress j = \<lparr>pg_job = j, pg_cursor = 0, pg_inflight = {}, pg_outcomes = [], pg_aggregate = None, pg_error = None,
     pg_error_type = None, pg_failure_code = None, pg_retry = False, pg_notified = False\<rparr>"

type_synonym jobs = "(pystr \<times> progress) list"

text \<open>\<open>sc_free\<close> and \<open>sc_active\<close> are the locals of \<open>run\<close>; a dispatched call is its slot, job and position.\<close>

record scheduler =
  sc_slots :: nat
  sc_max_jobs :: nat
  sc_per_job :: nat
  sc_history_limit :: nat
  sc_jobs :: jobs
  sc_last :: "pystr option"
  sc_closed :: bool
  sc_halted :: bool
  sc_accepting :: bool
  sc_stop :: bool
  sc_dispatches :: "(pystr \<times> nat) list"
  sc_free :: "nat list"
  sc_active :: "(nat \<times> pystr \<times> nat) list"

definition SampleScheduler :: "nat \<Rightarrow> int \<Rightarrow> int \<Rightarrow> int \<Rightarrow> int option \<Rightarrow> int \<Rightarrow> scheduler result" where
  "SampleScheduler slots model_capacity max_inflight max_jobs per_job history_limit =
     rbind (ensure (1 \<le> model_capacity \<and> model_capacity \<le> 32 \<and> slots \<noteq> 0 \<and> int slots \<le> min model_capacity max_inflight \<and>
         1 \<le> max_jobs \<and> max_jobs \<le> 32)
       (Exc ValueError ''invalid request scheduler capacity'')) (\<lambda>_.
     rbind (ensure (1 \<le> history_limit \<and> history_limit \<le> 65536) (Exc ValueError ''invalid dispatch history bound'')) (\<lambda>_.
     (let limit = (case per_job of None \<Rightarrow> int slots | Some l \<Rightarrow> l)
      in rbind (ensure (1 \<le> limit \<and> limit \<le> int slots) (Exc ValueError ''per-job request limit must fit the global slots'')) (\<lambda>_.
         Inr \<lparr>sc_slots = slots, sc_max_jobs = nat max_jobs, sc_per_job = nat limit, sc_history_limit = nat history_limit,
              sc_jobs = [], sc_last = None, sc_closed = False, sc_halted = False, sc_accepting = True, sc_stop = False,
              sc_dispatches = [], sc_free = [0..<slots], sc_active = []\<rparr>))))"

section \<open>Admission\<close>

definition refuses :: "scheduler \<Rightarrow> bool" where
  "refuses S \<longleftrightarrow> sc_closed S \<or> sc_halted S \<or> \<not> sc_accepting S \<or> sc_stop S"

definition active_for :: "pystr \<Rightarrow> progress \<Rightarrow> bool" where
  "active_for owner p \<longleftrightarrow> pj_owner (pg_job p) = owner \<and> pg_aggregate p = None \<and> (pg_error p = None \<or> pg_inflight p \<noteq> {})"

text \<open>\<open>dispatchable\<close> is the outcome of the executor state's gate and \<open>valid\<close> that of \<open>validate_contract\<close>.\<close>

definition add_job :: "unit result \<Rightarrow> unit result \<Rightarrow> prepared_job \<Rightarrow> scheduler \<Rightarrow> scheduler result" where
  "add_job dispatchable valid j S =
     rbind (ensure (\<not> refuses S) (Exc RuntimeError ''scheduler no longer accepts jobs'')) (\<lambda>_.
     rbind dispatchable (\<lambda>_.
     rbind (ensure (pj_submission j \<notin> fst ` set (sc_jobs S) \<and> length (sc_jobs S) < sc_max_jobs S)
       (Exc ValueError ''duplicate job or finite-session job limit reached'')) (\<lambda>_.
     rbind (ensure (\<not> list_ex (\<lambda>(_, p). active_for (pj_owner j) p) (sc_jobs S))
       (Exc ValueError ''owner already has an active admitted job'')) (\<lambda>_.
     rbind valid (\<lambda>_.
       Inr (S\<lparr>sc_jobs := dict_set (pj_submission j) (new_progress j) (sc_jobs S)\<rparr>))))))"

definition admission_capacity :: "scheduler \<Rightarrow> int" where
  "admission_capacity S = (if refuses S then 0 else int (sc_max_jobs S) - int (length (sc_jobs S)))"

definition seal :: "scheduler \<Rightarrow> scheduler" where
  "seal S = S\<lparr>sc_accepting := False\<rparr>"

definition abort :: "scheduler \<Rightarrow> scheduler" where
  "abort S = S\<lparr>sc_halted := True\<rparr>"

section \<open>Choosing the next sample\<close>

definition past_deadline :: "(pystr \<Rightarrow> int) \<Rightarrow> pystr \<Rightarrow> progress \<Rightarrow> bool" where
  "past_deadline clock k p \<longleftrightarrow> require_remaining (pj_deadline (pg_job p)) (clock k) = raise JobDeadlineExceeded ''evaluation job deadline expired''"

definition fail_deadline :: "progress \<Rightarrow> progress" where
  "fail_deadline p = p\<lparr>pg_error := Some ''JOB_DEADLINE'', pg_error_type := Some JobDeadlineExceeded,
     pg_failure_code := Some ''JOB_DEADLINE''\<rparr>"

definition rotate_after :: "pystr option \<Rightarrow> pystr list \<Rightarrow> pystr list" where
  "rotate_after last_job keys =
     (case last_job of
        None \<Rightarrow> keys
      | Some l \<Rightarrow> if l \<in> set keys then tl (dropWhile (\<lambda>k. k \<noteq> l) keys) @ takeWhile (\<lambda>k. k \<noteq> l) keys @ [l] else keys)"

definition can_dispatch :: "nat \<Rightarrow> progress \<Rightarrow> bool" where
  "can_dispatch limit p \<longleftrightarrow> pg_error p = None \<and> pg_cursor p \<noteq> length (pj_samples (pg_job p)) \<and> card (pg_inflight p) < limit"

text \<open>The scan checks a deadline only for a job that could be dispatched, and fails the job if it has passed.\<close>

fun scan_candidates :: "(pystr \<Rightarrow> int) \<Rightarrow> nat \<Rightarrow> pystr list \<Rightarrow> jobs \<Rightarrow> pystr list \<times> jobs" where
  "scan_candidates clock limit [] js = ([], js)"
| "scan_candidates clock limit (k # ks) js =
     (case map_of js k of
        None \<Rightarrow> scan_candidates clock limit ks js
      | Some p \<Rightarrow>
          if \<not> can_dispatch limit p then scan_candidates clock limit ks js
          else if past_deadline clock k p then scan_candidates clock limit ks (dict_set k (fail_deadline p) js)
          else (case scan_candidates clock limit ks js of (cs, js') \<Rightarrow> (k # cs, js')))"

text \<open>\<open>min(candidates, key=...)\<close>: the first of the least.\<close>

definition first_min :: "('a \<Rightarrow> nat) \<Rightarrow> 'a list \<Rightarrow> 'a option" where
  "first_min f xs = find (\<lambda>x. list_all (\<lambda>y. f x \<le> f y) xs) xs"

definition inflight_of :: "jobs \<Rightarrow> pystr \<Rightarrow> nat" where
  "inflight_of js k = (case map_of js k of None \<Rightarrow> 0 | Some p \<Rightarrow> card (pg_inflight p))"

definition last_n :: "nat \<Rightarrow> 'a list \<Rightarrow> 'a list" where
  "last_n n xs = drop (length xs - n) xs"

definition take_sample :: "progress \<Rightarrow> progress" where
  "take_sample p = p\<lparr>pg_cursor := pg_cursor p + 1, pg_inflight := insert (pg_cursor p) (pg_inflight p)\<rparr>"

definition next_sample :: "(pystr \<Rightarrow> int) \<Rightarrow> scheduler \<Rightarrow> (pystr \<times> nat) option \<times> scheduler" where
  "next_sample clock S =
     (case scan_candidates clock (sc_per_job S) (rotate_after (sc_last S) (map fst (sc_jobs S))) (sc_jobs S) of
        (cs, js) \<Rightarrow>
          (case first_min (inflight_of js) cs of
             None \<Rightarrow> (None, S\<lparr>sc_jobs := js\<rparr>)
           | Some k \<Rightarrow>
               (case map_of js k of
                  None \<Rightarrow> (None, S\<lparr>sc_jobs := js\<rparr>)
                | Some p \<Rightarrow>
                    (Some (k, pg_cursor p),
                     S\<lparr>sc_jobs := dict_set k (take_sample p) js, sc_last := Some k,
                       sc_dispatches := last_n (sc_history_limit S) (sc_dispatches S @ [(k, pg_cursor p + 1)])\<rparr>))))"

section \<open>One round of the coordinator\<close>

definition on_jobs :: "(pystr \<Rightarrow> progress \<Rightarrow> progress) \<Rightarrow> scheduler \<Rightarrow> scheduler" where
  "on_jobs f S = S\<lparr>sc_jobs := map (\<lambda>(k, p). (k, f k p)) (sc_jobs S)\<rparr>"

definition unsettled :: "progress \<Rightarrow> bool" where
  "unsettled p \<longleftrightarrow> pg_aggregate p = None \<and> pg_error p = None"

definition fail_blocked :: "progress \<Rightarrow> progress" where
  "fail_blocked p = (if unsettled p
     then p\<lparr>pg_error := Some ''EXECUTOR_BLOCKED'', pg_failure_code := Some ''RUNTIME_MISCONFIGURATION''\<rparr> else p)"

definition block_all :: "scheduler \<Rightarrow> scheduler" where
  "block_all S = (if sc_halted S then on_jobs (\<lambda>_. fail_blocked) S else S)"

definition expire_job :: "(pystr \<Rightarrow> int) \<Rightarrow> pystr \<Rightarrow> progress \<Rightarrow> progress" where
  "expire_job clock k p = (if unsettled p \<and> past_deadline clock k p then (fail_deadline p)\<lparr>pg_retry := False\<rparr> else p)"

text \<open>\<open>while free ...\<close>: each dispatch uses up the first free slot.  \<open>clocks i\<close> is the clock of the \<open>i\<close>-th choice.\<close>

fun dispatch_loop :: "(nat \<Rightarrow> pystr \<Rightarrow> int) \<Rightarrow> nat \<Rightarrow> nat list \<Rightarrow> scheduler \<Rightarrow> scheduler" where
  "dispatch_loop clocks i [] S = S"
| "dispatch_loop clocks i (slot # free) S =
     (case next_sample (clocks i) S of
        (None, S') \<Rightarrow> S'
      | (Some (k, n), S') \<Rightarrow>
          dispatch_loop clocks (i + 1) free (S'\<lparr>sc_free := free, sc_active := sc_active S' @ [(slot, k, n)]\<rparr>))"

text \<open>\<open>ready\<close> is what \<open>dispatch_ready\<close> answers: an exception aborts, anything but true waits.\<close>

definition dispatch_gate :: "unit result \<Rightarrow> bool result \<Rightarrow> scheduler \<Rightarrow> scheduler" where
  "dispatch_gate dispatchable ready S =
     (let S1 = (case ready of Inl _ \<Rightarrow> abort S | Inr _ \<Rightarrow> S);
          S2 = (if sc_stop S1 then seal S1 else S1)
      in if \<not> sc_halted S2 \<and> dispatchable \<noteq> Inr () then abort S2 else S2)"

definition dispatch_phase :: "unit result \<Rightarrow> bool result \<Rightarrow> (pystr \<Rightarrow> int) \<Rightarrow> (nat \<Rightarrow> pystr \<Rightarrow> int) \<Rightarrow> scheduler \<Rightarrow> scheduler" where
  "dispatch_phase dispatchable ready clock clocks S =
     (let S1 = on_jobs (expire_job clock) (dispatch_gate dispatchable ready S)
      in block_all (if \<not> sc_halted S1 \<and> ready = Inr True then dispatch_loop clocks 0 (sc_free S1) S1 else S1))"

section \<open>Completed calls\<close>

text \<open>What \<open>_evaluate\<close> gave: the bound outcome, or an exception with its \<open>termination_confirmed\<close> attribute.\<close>

datatype sample_result = Sampled pystr nat sample_outcome | Raised py_exc bool

definition sample_id_at :: "progress \<Rightarrow> nat \<Rightarrow> pystr option" where
  "sample_id_at p n = (if n < length (pj_samples (pg_job p))
     then Some (ms_sample_id (ps_manifest (pj_samples (pg_job p) ! n))) else None)"

definition fail_execution :: "exc_class \<Rightarrow> progress \<Rightarrow> progress" where
  "fail_execution c p = p\<lparr>pg_error := Some ''EXECUTION_FAILED'', pg_error_type := Some c,
     pg_failure_code := Some ''RUNTIME_MISCONFIGURATION'', pg_retry := False\<rparr>"

text \<open>The transport error is the one subclass of \<open>ProviderRequestError\<close>; \<open>isinstance(error, ProviderTimeoutError)\<close> is the
  test of the code.\<close>

definition fail_request :: "py_exc \<Rightarrow> bool \<Rightarrow> progress \<Rightarrow> progress" where
  "fail_request e termination_confirmed p =
     (if pg_error p \<in> {None, Some ''PROVIDER_REQUEST_FAILED''}
      then
        (let p1 = p\<lparr>pg_retry := termination_confirmed \<and> (pg_error p = None \<or> pg_retry p)\<rparr>;
             p2 = (if pg_error p = None
                   then p1\<lparr>pg_failure_code := Some (if catches ProviderTimeoutError e then ''PROVIDER_TIMEOUT'' else ''PROVIDER_TRANSPORT''),
                          pg_error_type := Some (exc_cls e)\<rparr>
                   else p1)
         in p2\<lparr>pg_error := Some ''PROVIDER_REQUEST_FAILED''\<rparr>)
      else p)"

text \<open>The result of one call in its job, and whether the scheduler must abort.\<close>

definition settle_result :: "pystr \<Rightarrow> nat \<Rightarrow> sample_result \<Rightarrow> progress \<Rightarrow> progress \<times> bool" where
  "settle_result k n res p =
     (case res of
        Sampled rk rn outcome \<Rightarrow>
          if (rk, rn) \<noteq> (k, n) \<or> Some (so_sample_id outcome) \<noteq> sample_id_at p n \<or> n \<in> fst ` set (pg_outcomes p)
          then (fail_execution RuntimeError p, True)
          else (p\<lparr>pg_outcomes := dict_set n outcome (pg_outcomes p)\<rparr>, False)
      | Raised e termination_confirmed \<Rightarrow>
          if catches JobDeadlineExceeded e then ((fail_deadline p)\<lparr>pg_retry := False\<rparr>, False)
          else if catches SampleClaimLost e
          then (p\<lparr>pg_error := Some ''CLAIM_LOST'', pg_error_type := Some SampleClaimLost,
                  pg_failure_code := Some ''WORKER_CRASH'', pg_retry := False\<rparr>, False)
          else if catches ProviderTransportError e then (fail_request e termination_confirmed p, False)
          else (fail_execution (exc_cls e) p, True))"

definition ordered_outcomes :: "progress \<Rightarrow> sample_outcome option list" where
  "ordered_outcomes p = map (map_of (pg_outcomes p)) [0..<length (pj_samples (pg_job p))]"

text \<open>A job with all its outcomes is aggregated; the deadline is checked before and after.\<close>

definition settle_job :: "(challenge_artifacts \<Rightarrow> sample_outcome list \<Rightarrow> aggregate_result result) \<Rightarrow> int \<Rightarrow> int \<Rightarrow> progress
    \<Rightarrow> progress \<times> bool" where
  "settle_job aggregate before after p =
     (if pg_error p \<noteq> None \<or> length (pg_outcomes p) \<noteq> length (pj_samples (pg_job p)) then (p, False)
      else
        (case rbind (require_remaining (pj_deadline (pg_job p)) before) (\<lambda>_.
              rbind (aggregate (pj_artifacts (pg_job p)) (map the (ordered_outcomes p))) (\<lambda>a.
              rbind (require_remaining (pj_deadline (pg_job p)) after) (\<lambda>_. Inr a))) of
           Inr a \<Rightarrow> (p\<lparr>pg_aggregate := Some a\<rparr>, False)
         | Inl e \<Rightarrow>
             if catches JobDeadlineExceeded e then (fail_deadline p, False)
             else (p\<lparr>pg_error := Some ''AGGREGATION_FAILED'', pg_error_type := Some (exc_cls e),
                     pg_failure_code := Some ''RUNTIME_MISCONFIGURATION''\<rparr>, True)))"

record completion =
  cm_call :: "nat \<times> pystr \<times> nat"
  cm_result :: sample_result
  cm_before :: int
  cm_after :: int

definition complete_one :: "(challenge_artifacts \<Rightarrow> sample_outcome list \<Rightarrow> aggregate_result result) \<Rightarrow> completion
    \<Rightarrow> scheduler \<Rightarrow> scheduler" where
  "complete_one aggregate c S =
     (case cm_call c of
        (slot, k, n) \<Rightarrow>
          (case map_of (sc_jobs S) k of
             None \<Rightarrow> S
           | Some p \<Rightarrow>
               (case settle_result k n (cm_result c) (p\<lparr>pg_inflight := pg_inflight p - {n}\<rparr>) of
                  (p1, halt1) \<Rightarrow>
                    (case settle_job aggregate (cm_before c) (cm_after c) p1 of
                       (p2, halt2) \<Rightarrow>
                         S\<lparr>sc_active := remove1 (slot, k, n) (sc_active S), sc_free := sc_free S @ [slot],
                           sc_jobs := dict_set k p2 (sc_jobs S), sc_halted := sc_halted S \<or> halt1 \<or> halt2\<rparr>))))"

definition complete_phase :: "(challenge_artifacts \<Rightarrow> sample_outcome list \<Rightarrow> aggregate_result result) \<Rightarrow> completion list
    \<Rightarrow> scheduler \<Rightarrow> scheduler" where
  "complete_phase aggregate cs S = block_all (fold (complete_one aggregate) cs S)"

section \<open>Publication and the end of the session\<close>

definition terminal_job :: "progress \<Rightarrow> bool" where
  "terminal_job p \<longleftrightarrow> \<not> pg_notified p \<and> \<not> unsettled p \<and> pg_inflight p = {}"

definition terminal_jobs :: "scheduler \<Rightarrow> (pystr \<times> progress) list" where
  "terminal_jobs S = filter (\<lambda>(_, p). terminal_job p) (sc_jobs S)"

text \<open>\<open>notify_terminal\<close>: \<open>retain\<close> is \<open>retain_completed\<close>, and \<open>failing\<close> the position of the completed job whose
  publication raises.  The jobs before it are published, and it and the later ones stay marked as notified; the scheduler aborts.\<close>

definition published_keys :: "nat option \<Rightarrow> scheduler \<Rightarrow> pystr list" where
  "published_keys failing S = (case failing of
     None \<Rightarrow> map fst (terminal_jobs S)
   | Some m \<Rightarrow> take m (map fst (terminal_jobs S)))"

definition notify_phase :: "bool \<Rightarrow> nat option \<Rightarrow> scheduler \<Rightarrow> scheduler" where
  "notify_phase retain failing S =
     (let S1 = on_jobs (\<lambda>_ p. if terminal_job p then p\<lparr>pg_notified := True\<rparr> else p) S;
          S2 = (if retain then S1 else S1\<lparr>sc_jobs := filter (\<lambda>(k, _). k \<notin> set (published_keys failing S)) (sc_jobs S1)\<rparr>)
      in (case failing of
            None \<Rightarrow> S2
          | Some m \<Rightarrow> if m < length (terminal_jobs S) then abort S2 else S2))"

definition close_session :: "scheduler \<Rightarrow> scheduler" where
  "close_session S = on_jobs (\<lambda>_. fail_blocked) (S\<lparr>sc_closed := True\<rparr>)"

definition drained :: "scheduler \<Rightarrow> bool" where
  "drained S \<longleftrightarrow> list_all (\<lambda>(_, p). \<not> unsettled p) (sc_jobs S)"
section \<open>Well-formed schedules\<close>

definition same_work :: "progress \<Rightarrow> progress \<Rightarrow> bool" where
  "same_work p q \<longleftrightarrow> pg_job q = pg_job p \<and> pg_cursor q = pg_cursor p \<and> pg_inflight q = pg_inflight p \<and>
     pg_outcomes q = pg_outcomes p \<and> pg_aggregate q = pg_aggregate p \<and> (pg_error q = None \<longrightarrow> pg_error p = None)"

definition outcomes_ok :: "progress \<Rightarrow> bool" where
  "outcomes_ok p \<longleftrightarrow> distinct (map fst (pg_outcomes p)) \<and>
     (\<forall>(n, x) \<in> set (pg_outcomes p). n < pg_cursor p \<and> n \<notin> pg_inflight p \<and> Some (so_sample_id x) = sample_id_at p n)"

definition aggregate_ok :: "(challenge_artifacts \<Rightarrow> sample_outcome list \<Rightarrow> aggregate_result result) \<Rightarrow> progress \<Rightarrow> bool" where
  "aggregate_ok aggregate p \<longleftrightarrow> (case pg_aggregate p of
     None \<Rightarrow> True
   | Some a \<Rightarrow> pg_error p = None \<and> length (pg_outcomes p) = length (pj_samples (pg_job p)) \<and>
       aggregate (pj_artifacts (pg_job p)) (map the (ordered_outcomes p)) = Inr a)"

definition job_ok :: "(challenge_artifacts \<Rightarrow> sample_outcome list \<Rightarrow> aggregate_result result) \<Rightarrow> nat \<Rightarrow> pystr \<Rightarrow> progress \<Rightarrow> bool" where
  "job_ok aggregate limit k p \<longleftrightarrow> pj_submission (pg_job p) = k \<and> pg_cursor p \<le> length (pj_samples (pg_job p)) \<and>
     pg_inflight p \<subseteq> {..<pg_cursor p} \<and> card (pg_inflight p) \<le> limit \<and> outcomes_ok p \<and> aggregate_ok aggregate p"

definition jobs_ok :: "(challenge_artifacts \<Rightarrow> sample_outcome list \<Rightarrow> aggregate_result result) \<Rightarrow> nat \<Rightarrow> jobs \<Rightarrow> bool" where
  "jobs_ok aggregate limit js \<longleftrightarrow> distinct (map fst js) \<and> (\<forall>k p. map_of js k = Some p \<longrightarrow> job_ok aggregate limit k p)"

lemma jobs_ok_at: "jobs_ok aggregate limit js \<Longrightarrow> map_of js k = Some p \<Longrightarrow> job_ok aggregate limit k p"
  by (simp add: jobs_ok_def)

lemma jobs_ok_set:
  "jobs_ok aggregate limit js \<Longrightarrow> job_ok aggregate limit k p \<Longrightarrow> jobs_ok aggregate limit (dict_set k p js)"
  by (simp add: jobs_ok_def distinct_dict_set)

lemma same_work_ok:
  "job_ok aggregate limit k p \<Longrightarrow> same_work p q \<Longrightarrow> pg_aggregate p = None \<Longrightarrow> job_ok aggregate limit k q"
  by (auto simp: job_ok_def same_work_def outcomes_ok_def aggregate_ok_def sample_id_at_def)

lemma all_outcomes:
  assumes "outcomes_ok p" and "length (pg_outcomes p) = m" and "pg_cursor p \<le> m"
  shows "fst ` set (pg_outcomes p) = {..<m} \<and> pg_cursor p = m"
proof -
  have sub: "fst ` set (pg_outcomes p) \<subseteq> {..<pg_cursor p}"
    using assms(1) by (auto simp: outcomes_ok_def)
  have card: "card (fst ` set (pg_outcomes p)) = m"
    using assms(1,2) distinct_card [of "map fst (pg_outcomes p)"] by (simp add: outcomes_ok_def)
  have "card (fst ` set (pg_outcomes p)) \<le> card {..<pg_cursor p}"
    by (rule card_mono [OF finite_lessThan sub])
  then have c: "pg_cursor p = m"
    using card assms(3) by simp
  have "fst ` set (pg_outcomes p) = {..<pg_cursor p}"
    by (rule card_subset_eq [OF finite_lessThan sub]) (simp add: card c)
  with c show ?thesis
    by simp
qed

lemma finished_job:
  assumes "job_ok aggregate limit k p" and "pg_aggregate p = Some a"
  shows "pg_inflight p = {}" and "pg_cursor p = length (pj_samples (pg_job p))"
proof -
  have p: "outcomes_ok p" "pg_cursor p \<le> length (pj_samples (pg_job p))" "pg_inflight p \<subseteq> {..<pg_cursor p}"
    "length (pg_outcomes p) = length (pj_samples (pg_job p))"
    using assms by (auto simp: job_ok_def aggregate_ok_def)
  from all_outcomes [OF p(1,4,2)] have all: "fst ` set (pg_outcomes p) = {..<length (pj_samples (pg_job p))}"
    and c: "pg_cursor p = length (pj_samples (pg_job p))"
    by simp_all
  show "pg_cursor p = length (pj_samples (pg_job p))"
    by (rule c)
  have "n \<notin> pg_inflight p" if "n < length (pj_samples (pg_job p))" for n
  proof -
    have "n \<in> fst ` set (pg_outcomes p)"
      using that all by simp
    then show ?thesis
      using p(1) by (auto simp: outcomes_ok_def)
  qed
  then show "pg_inflight p = {}"
    using p(3) c by auto
qed

lemma open_job: "job_ok aggregate limit k p \<Longrightarrow> can_dispatch limit p \<Longrightarrow> pg_aggregate p = None"
  by (cases "pg_aggregate p") (auto simp: can_dispatch_def dest: finished_job(2))

lemma busy_job: "job_ok aggregate limit k p \<Longrightarrow> n \<in> pg_inflight p \<Longrightarrow> pg_aggregate p = None"
  by (cases "pg_aggregate p") (auto dest: finished_job(1))

lemma take_sample_ok:
  assumes "job_ok aggregate limit k p" and "can_dispatch limit p"
  shows "job_ok aggregate limit k (take_sample p)"
proof -
  have p: "pg_cursor p < length (pj_samples (pg_job p))" "pg_inflight p \<subseteq> {..<pg_cursor p}" "card (pg_inflight p) < limit"
    using assms by (auto simp: job_ok_def can_dispatch_def)
  have "pg_aggregate p = None"
    by (rule open_job [OF assms])
  moreover have "card (insert (pg_cursor p) (pg_inflight p)) \<le> limit"
    using p(3) finite_subset [OF p(2)] by (simp add: card_insert_if)
  moreover have "outcomes_ok (take_sample p)"
  proof -
    have same: "sample_id_at (take_sample p) n = sample_id_at p n" for n
      by (simp add: sample_id_at_def take_sample_def)
    have "outcomes_ok p"
      using assms(1) by (simp add: job_ok_def)
    then show ?thesis
      unfolding outcomes_ok_def same by (fastforce simp: take_sample_def)
  qed
  moreover have "insert (pg_cursor p) (pg_inflight p) \<subseteq> {..<Suc (pg_cursor p)}"
    using p(2) by (auto simp: subset_iff less_SucI)
  ultimately show ?thesis
    using assms(1) p(1) by (simp add: job_ok_def take_sample_def aggregate_ok_def)
qed

lemma fail_deadline_work: "same_work p (fail_deadline p)"
  by (simp add: same_work_def fail_deadline_def)

lemma scan_ok:
  assumes "scan_candidates clock limit ks js = (cs, js')" and "jobs_ok aggregate limit js" and "distinct ks"
  shows "jobs_ok aggregate limit js' \<and> fst ` set js' = fst ` set js \<and> set cs \<subseteq> set ks \<and>
    (\<forall>k p. map_of js k = Some p \<longrightarrow> (\<exists>q. map_of js' k = Some q \<and> same_work p q)) \<and>
    (\<forall>k. k \<notin> set ks \<or> k \<in> set cs \<longrightarrow> map_of js' k = map_of js k) \<and>
    (\<forall>k \<in> set cs. \<exists>p. map_of js k = Some p \<and> can_dispatch limit p \<and> \<not> past_deadline clock k p)"
  using assms
proof (induction clock limit ks js arbitrary: cs js' rule: scan_candidates.induct)
  case (1 clock limit js)
  then show ?case
    by (auto simp: same_work_def)
next
  case (2 clock limit k ks js)
  show ?case
  proof (cases "map_of js k")
    case None
    have "scan_candidates clock limit ks js = (cs, js')" "distinct ks"
      using 2(5,7) None by simp_all
    from 2(1) [OF None this(1) 2(6) this(2)] show ?thesis
      by auto
  next
    case (Some p)
    show ?thesis
    proof (cases "can_dispatch limit p")
      case False
      have "scan_candidates clock limit ks js = (cs, js')" "distinct ks"
        using 2(5,7) Some False by simp_all
      from 2(2) [OF Some False this(1) 2(6) this(2)] show ?thesis
        by auto
    next
      case True
      have ok: "job_ok aggregate limit k p"
        using 2(6) Some by (rule jobs_ok_at)
      show ?thesis
      proof (cases "past_deadline clock k p")
        case late: True
        have ok': "jobs_ok aggregate limit (dict_set k (fail_deadline p) js)"
          by (rule jobs_ok_set [OF 2(6) same_work_ok [OF ok fail_deadline_work open_job [OF ok True]]])
        have scan: "scan_candidates clock limit ks (dict_set k (fail_deadline p) js) = (cs, js')"
          using 2(5) Some True late by simp
        have ks: "distinct ks" "k \<notin> set ks"
          using 2(7) by simp_all
        have k: "k \<in> fst ` set js"
          using Some by (force dest: map_of_SomeD)
        have "\<not> \<not> can_dispatch limit p"
          using True by simp
        note ih = 2(3) [OF Some this late scan ok' ks(1)]
        have work: "\<exists>q. map_of js' k' = Some q \<and> same_work p' q" if "map_of js k' = Some p'" for k' p'
        proof (cases "k' = k")
          case True
          have "map_of (dict_set k (fail_deadline p) js) k = Some (fail_deadline p)"
            by simp
          with ih obtain q where "map_of js' k = Some q" "same_work (fail_deadline p) q"
            by blast
          with True that Some fail_deadline_work [of p] show ?thesis
            by (auto simp: same_work_def)
        qed (use ih that in auto)
        have keys: "fst ` set js' = fst ` set js"
          using ih k True by (simp add: insert_absorb)
        show ?thesis
          using ih ks(2) True work keys by (auto split: if_splits)
      next
        case False
        obtain cs0 where scan: "scan_candidates clock limit ks js = (cs0, js')" and cs: "cs = k # cs0"
          using 2(5) Some True False by (auto split: prod.splits)
        have ks: "distinct ks" "k \<notin> set ks"
          using 2(7) by simp_all
        from 2(4) [OF Some _ False scan 2(6) ks(1)] ks(2) True Some False show ?thesis
          unfolding cs by auto
      qed
    qed
  qed
qed
section \<open>How the jobs of a scheduler evolve\<close>

definition evolves :: "progress \<Rightarrow> progress \<Rightarrow> bool" where
  "evolves p q \<longleftrightarrow> pg_job q = pg_job p \<and> (\<forall>w. active_for w q \<longrightarrow> active_for w p)"

definition jobs_evolve :: "jobs \<Rightarrow> jobs \<Rightarrow> bool" where
  "jobs_evolve js js' \<longleftrightarrow> fst ` set js' = fst ` set js \<and>
     (\<forall>k p. map_of js k = Some p \<longrightarrow> (\<exists>q. map_of js' k = Some q \<and> evolves p q))"

definition calls_kept :: "jobs \<Rightarrow> jobs \<Rightarrow> bool" where
  "calls_kept js js' \<longleftrightarrow> (\<forall>k p. map_of js k = Some p \<longrightarrow> (\<exists>q. map_of js' k = Some q \<and> pg_inflight p \<subseteq> pg_inflight q))"

definition owners_ok :: "jobs \<Rightarrow> bool" where
  "owners_ok js \<longleftrightarrow> (\<forall>k k' p p' w. map_of js k = Some p \<longrightarrow> map_of js k' = Some p' \<longrightarrow>
     active_for w p \<longrightarrow> active_for w p' \<longrightarrow> k = k')"

definition calls_ok :: "(nat \<times> pystr \<times> nat) list \<Rightarrow> jobs \<Rightarrow> bool" where
  "calls_ok active js \<longleftrightarrow> distinct (map snd active) \<and>
     (\<forall>(s, k, n) \<in> set active. \<exists>p. map_of js k = Some p \<and> n \<in> pg_inflight p)"

definition sched_ok :: "(challenge_artifacts \<Rightarrow> sample_outcome list \<Rightarrow> aggregate_result result) \<Rightarrow> scheduler \<Rightarrow> bool" where
  "sched_ok aggregate S \<longleftrightarrow> jobs_ok aggregate (sc_per_job S) (sc_jobs S) \<and> owners_ok (sc_jobs S) \<and>
     length (sc_jobs S) \<le> sc_max_jobs S \<and> calls_ok (sc_active S) (sc_jobs S) \<and>
     mset (sc_free S) + mset (map fst (sc_active S)) = mset [0..<sc_slots S]"

lemma evolves_refl [simp]: "evolves p p"
  by (simp add: evolves_def)

lemma same_work_evolves: "same_work p q \<Longrightarrow> evolves p q"
  by (auto simp: same_work_def evolves_def active_for_def)

lemma owners_evolve: "owners_ok js \<Longrightarrow> jobs_evolve js js' \<Longrightarrow> owners_ok js'"
  unfolding owners_ok_def jobs_evolve_def evolves_def
  by (metis domD domI dom_map_of_conv_image_fst option.inject)

lemma evolve_set:
  assumes "map_of js k = Some p" and "evolves p q"
  shows "jobs_evolve js (dict_set k q js)"
proof -
  have "k \<in> fst ` set js"
    using assms(1) by (force dest: map_of_SomeD)
  with assms show ?thesis
    by (auto simp: jobs_evolve_def insert_absorb)
qed

lemma evolve_length:
  assumes "jobs_evolve js js'" and "distinct (map fst js)" and "distinct (map fst js')"
  shows "length js' = length js"
  using assms distinct_card [of "map fst js"] distinct_card [of "map fst js'"] by (simp add: jobs_evolve_def)

lemma calls_ok_kept: "calls_ok active js \<Longrightarrow> calls_kept js js' \<Longrightarrow> calls_ok active js'"
  by (fastforce simp: calls_ok_def calls_kept_def)

text \<open>Changing the jobs only.\<close>

lemma sched_ok_jobs:
  assumes "sched_ok aggregate S" and "jobs_ok aggregate (sc_per_job S) js" and "jobs_evolve (sc_jobs S) js"
    and "calls_kept (sc_jobs S) js"
  shows "sched_ok aggregate (S\<lparr>sc_jobs := js\<rparr>)"
  using assms evolve_length [OF assms(3)] owners_evolve [OF _ assms(3)] calls_ok_kept [OF _ assms(4)]
  by (auto simp: sched_ok_def jobs_ok_def)

lemma sched_ok_flags:
  "sched_ok aggregate (S\<lparr>sc_last := a\<rparr>) = sched_ok aggregate S" "sched_ok aggregate (S\<lparr>sc_closed := b\<rparr>) = sched_ok aggregate S"
  "sched_ok aggregate (S\<lparr>sc_halted := b\<rparr>) = sched_ok aggregate S" "sched_ok aggregate (S\<lparr>sc_accepting := b\<rparr>) = sched_ok aggregate S"
  "sched_ok aggregate (S\<lparr>sc_stop := b\<rparr>) = sched_ok aggregate S" "sched_ok aggregate (S\<lparr>sc_dispatches := d\<rparr>) = sched_ok aggregate S"
  by (simp_all add: sched_ok_def)

lemma map_of_on_jobs: "map_of (map (\<lambda>(k, p). (k, f k p)) js) k = map_option (f k) (map_of js k)"
  by (induction js) auto

lemma on_jobs_ok:
  assumes "sched_ok aggregate S"
    and "\<And>k p. job_ok aggregate (sc_per_job S) k p \<Longrightarrow> job_ok aggregate (sc_per_job S) k (f k p)"
    and "\<And>k p. evolves p (f k p)" and "\<And>k p. pg_inflight (f k p) = pg_inflight p"
  shows "sched_ok aggregate (on_jobs f S)"
  unfolding on_jobs_def
proof (rule sched_ok_jobs [OF assms(1)])
  let ?js = "map (\<lambda>(k, p). (k, f k p)) (sc_jobs S)"
  have keys: "map fst ?js = map fst (sc_jobs S)"
    by (simp add: case_prod_beta comp_def)
  have jobs: "jobs_ok aggregate (sc_per_job S) (sc_jobs S)"
    using assms(1) by (simp add: sched_ok_def)
  then show "jobs_ok aggregate (sc_per_job S) ?js"
    unfolding jobs_ok_def keys map_of_on_jobs using assms(2) by auto
  have "fst ` set ?js = fst ` set (sc_jobs S)"
    using arg_cong [OF keys, of set] by (simp only: set_map)
  then show "jobs_evolve (sc_jobs S) ?js"
    unfolding jobs_evolve_def map_of_on_jobs using assms(3) by auto
  show "calls_kept (sc_jobs S) ?js"
    unfolding calls_kept_def map_of_on_jobs using assms(4) by auto
qed

lemma abort_ok: "sched_ok aggregate S \<Longrightarrow> sched_ok aggregate (abort S)"
  by (simp add: abort_def sched_ok_flags)

lemma seal_ok: "sched_ok aggregate S \<Longrightarrow> sched_ok aggregate (seal S)"
  by (simp add: seal_def sched_ok_flags)

lemma unsettled_work: "same_work p q \<Longrightarrow> job_ok aggregate limit k p \<Longrightarrow> unsettled p \<Longrightarrow> job_ok aggregate limit k q"
  by (erule (1) same_work_ok) (simp add: unsettled_def)

lemma fail_blocked_work: "same_work p (fail_blocked p)"
  by (simp add: fail_blocked_def same_work_def)

lemma on_jobs_work:
  assumes "sched_ok aggregate S" and "\<And>k p. same_work p (f k p)" and "\<And>k p. \<not> unsettled p \<Longrightarrow> f k p = p"
  shows "sched_ok aggregate (on_jobs f S)"
proof (rule on_jobs_ok [OF assms(1)])
  fix k p
  show "evolves p (f k p)"
    by (rule same_work_evolves [OF assms(2)])
  show "pg_inflight (f k p) = pg_inflight p"
    using assms(2) [of p k] by (simp add: same_work_def)
  assume "job_ok aggregate (sc_per_job S) k p"
  with unsettled_work [OF assms(2) this] assms(3) [of p k] show "job_ok aggregate (sc_per_job S) k (f k p)"
    by (cases "unsettled p") simp_all
qed

lemma block_all_ok: "sched_ok aggregate S \<Longrightarrow> sched_ok aggregate (block_all S)"
  using on_jobs_work [of aggregate S "\<lambda>_. fail_blocked"] fail_blocked_work
  by (simp add: block_all_def fail_blocked_def)

lemma expire_job_work: "same_work p (expire_job clock k p)"
  by (simp add: expire_job_def same_work_def fail_deadline_def)

lemma expire_ok: "sched_ok aggregate S \<Longrightarrow> sched_ok aggregate (on_jobs (expire_job clock) S)"
  by (rule on_jobs_work) (simp_all add: expire_job_work, simp add: expire_job_def)

section \<open>The choice of the next sample\<close>

lemma rotate_split: "x \<notin> set xs \<Longrightarrow> rotate_after (Some x) (xs @ x # ys) = ys @ xs @ [x]"
proof -
  assume x: "x \<notin> set xs"
  have "dropWhile (\<lambda>k. k \<noteq> x) (xs @ x # ys) = x # ys" "takeWhile (\<lambda>k. k \<noteq> x) (xs @ x # ys) = xs"
    using x by (subst dropWhile_append2 takeWhile_append2; auto)+
  then show ?thesis
    by (simp add: rotate_after_def)
qed

lemma rotate_mset: "mset (rotate_after l keys) = mset keys"
proof (cases l)
  case (Some x)
  show ?thesis
  proof (cases "x \<in> set keys")
    case True
    then obtain xs ys where "keys = xs @ x # ys" "x \<notin> set xs"
      using split_list_first by metis
    then show ?thesis
      by (simp add: Some rotate_split)
  qed (simp add: rotate_after_def Some)
qed (simp add: rotate_after_def)

lemma rotate_set [simp]: "set (rotate_after l keys) = set keys"
  by (rule mset_eq_setD [OF rotate_mset])

lemma rotate_distinct: "distinct keys \<Longrightarrow> distinct (rotate_after l keys)"
  using mset_eq_imp_distinct_iff [OF rotate_mset] by blast

lemma first_min_Some: "first_min f xs = Some x \<Longrightarrow> x \<in> set xs \<and> (\<forall>y \<in> set xs. f x \<le> f y)"
  by (auto simp: first_min_def find_Some_iff list_all_iff)

lemma first_min_None: "first_min f xs = None \<longleftrightarrow> xs = []"
proof
  assume none: "first_min f xs = None"
  show "xs = []"
  proof (rule ccontr)
    assume "xs \<noteq> []"
    then obtain x where "x \<in> set xs" "\<forall>y \<in> set xs. f x \<le> f y"
      using arg_min_least [of "set xs" _ f] arg_min_if_finite(1) [of "set xs" f] by (metis List.finite_set set_empty)
    with none show False
      by (auto simp: first_min_def find_None_iff list_all_iff)
  qed
qed (simp add: first_min_def)
definition eligible :: "(pystr \<Rightarrow> int) \<Rightarrow> scheduler \<Rightarrow> pystr \<Rightarrow> progress \<Rightarrow> bool" where
  "eligible clock S k p \<longleftrightarrow> map_of (sc_jobs S) k = Some p \<and> can_dispatch (sc_per_job S) p \<and> \<not> past_deadline clock k p"

lemma scanned:
  assumes "sched_ok aggregate S"
    and "scan_candidates clock (sc_per_job S) (rotate_after (sc_last S) (map fst (sc_jobs S))) (sc_jobs S) = (cs, js)"
  shows "sched_ok aggregate (S\<lparr>sc_jobs := js\<rparr>)"
    and "\<And>k. k \<in> set cs \<Longrightarrow> map_of js k = map_of (sc_jobs S) k"
    and "\<And>k. k \<in> set cs \<Longrightarrow> \<exists>p. eligible clock S k p"
proof -
  have ok: "jobs_ok aggregate (sc_per_job S) (sc_jobs S)"
    using assms(1) by (simp add: sched_ok_def)
  then have "distinct (rotate_after (sc_last S) (map fst (sc_jobs S)))"
    by (simp add: rotate_distinct jobs_ok_def)
  note scan = scan_ok [OF assms(2) ok this]
  have work: "\<exists>q. map_of js k = Some q \<and> same_work p q" if "map_of (sc_jobs S) k = Some p" for k p
    using scan that by blast
  show "sched_ok aggregate (S\<lparr>sc_jobs := js\<rparr>)"
  proof (rule sched_ok_jobs [OF assms(1)])
    show "jobs_ok aggregate (sc_per_job S) js"
      using scan by blast
    have "fst ` set js = fst ` set (sc_jobs S)"
      using scan by blast
    with work show "jobs_evolve (sc_jobs S) js"
      unfolding jobs_evolve_def by (blast intro: same_work_evolves)
    show "calls_kept (sc_jobs S) js"
      unfolding calls_kept_def using work by (fastforce simp: same_work_def)
  qed
  show "map_of js k = map_of (sc_jobs S) k" if "k \<in> set cs" for k
    using scan that by blast
  show "\<exists>p. eligible clock S k p" if "k \<in> set cs" for k
    using scan that unfolding eligible_def by blast
qed

lemma next_sample_cases:
  assumes "next_sample clock S = (r, S')" and "sched_ok aggregate S"
  obtains js where "r = None" "S' = S\<lparr>sc_jobs := js\<rparr>" "sched_ok aggregate S'"
  | k p js d where "r = Some (k, pg_cursor p)" "eligible clock S k p" "map_of js k = Some p" "sched_ok aggregate (S\<lparr>sc_jobs := js\<rparr>)"
      "S' = S\<lparr>sc_jobs := dict_set k (take_sample p) js, sc_last := Some k, sc_dispatches := d\<rparr>"
proof -
  obtain cs js where scan: "scan_candidates clock (sc_per_job S) (rotate_after (sc_last S) (map fst (sc_jobs S))) (sc_jobs S) = (cs, js)"
    by force
  note ok = scanned [OF assms(2) scan]
  show ?thesis
  proof (cases "first_min (inflight_of js) cs")
    case None
    with assms(1) scan have "r = None" "S' = S\<lparr>sc_jobs := js\<rparr>"
      by (simp_all add: next_sample_def)
    with ok(1) that(1) show ?thesis
      by blast
  next
    case (Some k)
    then have k: "k \<in> set cs"
      using first_min_Some by metis
    with ok(2,3) obtain p where p: "eligible clock S k p" "map_of js k = Some p"
      by (auto simp: eligible_def)
    with assms(1) scan Some have "r = Some (k, pg_cursor p)"
        "S' = S\<lparr>sc_jobs := dict_set k (take_sample p) js, sc_last := Some k,
           sc_dispatches := last_n (sc_history_limit S) (sc_dispatches S @ [(k, pg_cursor p + 1)])\<rparr>"
      by (simp_all add: next_sample_def)
    with that(2) p ok(1) show ?thesis
      by blast
  qed
qed

lemma take_evolves: "can_dispatch limit p \<Longrightarrow> job_ok aggregate limit k p \<Longrightarrow> evolves p (take_sample p)"
  using open_job [of aggregate limit k p]
  by (auto simp: evolves_def active_for_def take_sample_def can_dispatch_def)

lemma dispatched_ok:
  assumes "sched_ok aggregate S" and "map_of (sc_jobs S) k = Some p" and "can_dispatch (sc_per_job S) p"
    and "sc_free S = slot # free"
  shows "sched_ok aggregate (S\<lparr>sc_jobs := dict_set k (take_sample p) (sc_jobs S), sc_free := free,
    sc_active := sc_active S @ [(slot, k, pg_cursor p)]\<rparr>)"
proof -
  let ?js = "dict_set k (take_sample p) (sc_jobs S)"
  have ok: "jobs_ok aggregate (sc_per_job S) (sc_jobs S)" "calls_ok (sc_active S) (sc_jobs S)"
    using assms(1) by (simp_all add: sched_ok_def)
  have p: "job_ok aggregate (sc_per_job S) k p"
    by (rule jobs_ok_at [OF ok(1) assms(2)])
  have taken: "sched_ok aggregate (S\<lparr>sc_jobs := ?js\<rparr>)"
  proof (rule sched_ok_jobs [OF assms(1)])
    show "jobs_ok aggregate (sc_per_job S) ?js"
      by (rule jobs_ok_set [OF ok(1) take_sample_ok [OF p assms(3)]])
    show "jobs_evolve (sc_jobs S) ?js"
      by (rule evolve_set [OF assms(2) take_evolves [OF assms(3) p]])
    show "calls_kept (sc_jobs S) ?js"
      using assms(2) by (auto simp: calls_kept_def take_sample_def)
  qed
  have new: "pg_cursor p \<notin> pg_inflight p"
    using p by (auto simp: job_ok_def)
  have "(k, pg_cursor p) \<notin> snd ` set (sc_active S)"
    using ok(2) assms(2) new by (force simp: calls_ok_def)
  then have "calls_ok (sc_active S @ [(slot, k, pg_cursor p)]) ?js"
    using taken by (auto simp: sched_ok_def calls_ok_def take_sample_def)
  then show ?thesis
    using taken assms(4) by (simp add: sched_ok_def)
qed

lemma dispatch_loop_ok: "sched_ok aggregate S \<Longrightarrow> sc_free S = free \<Longrightarrow> sched_ok aggregate (dispatch_loop clocks i free S)"
proof (induction clocks i free S rule: dispatch_loop.induct)
  case (2 clocks i slot free S)
  obtain r S' where n: "next_sample (clocks i) S = (r, S')"
    by force
  from n 2(2) show ?case
  proof (cases rule: next_sample_cases)
    case (1 js)
    with n show ?thesis
      by simp
  next
    case (2 k p js d)
    let ?S = "S'\<lparr>sc_free := free, sc_active := sc_active S' @ [(slot, k, pg_cursor p)]\<rparr>"
    have "sched_ok aggregate (S\<lparr>sc_jobs := dict_set k (take_sample p) js, sc_free := free,
        sc_active := sc_active S @ [(slot, k, pg_cursor p)]\<rparr>)"
      using dispatched_ok [OF 2(4), of k p slot free] 2(2,3) \<open>sc_free S = slot # free\<close> by (simp add: eligible_def)
    then have "sched_ok aggregate ?S"
      by (simp add: 2(5) sched_ok_def)
    with "2.IH" [OF n [symmetric] 2(1)] n 2(1) show ?thesis
      by simp
  qed
qed simp

lemma dispatch_phase_ok: "sched_ok aggregate S \<Longrightarrow> sched_ok aggregate (dispatch_phase d ready clock clocks S)"
  by (auto simp: dispatch_phase_def dispatch_gate_def Let_def intro!: block_all_ok dispatch_loop_ok expire_ok abort_ok seal_ok split: sum.splits)
section \<open>Completed calls keep the schedule well formed\<close>

definition same_calls :: "progress \<Rightarrow> progress \<Rightarrow> bool" where
  "same_calls p q \<longleftrightarrow> pg_job q = pg_job p \<and> pg_inflight q = pg_inflight p"

lemma add_outcome_ok:
  assumes "job_ok aggregate limit k p" and "pg_aggregate p = None" and "n < pg_cursor p" and "n \<notin> pg_inflight p"
    and "n \<notin> fst ` set (pg_outcomes p)" and "Some (so_sample_id x) = sample_id_at p n"
  shows "job_ok aggregate limit k (p\<lparr>pg_outcomes := dict_set n x (pg_outcomes p)\<rparr>)"
proof -
  let ?q = "p\<lparr>pg_outcomes := dict_set n x (pg_outcomes p)\<rparr>"
  have same: "sample_id_at ?q m = sample_id_at p m" for m
    by (simp add: sample_id_at_def)
  have "outcomes_ok p"
    using assms(1) by (simp add: job_ok_def)
  then have "outcomes_ok ?q"
    unfolding outcomes_ok_def same using assms(3-6) by (auto simp: dict_set_fresh)
  then show ?thesis
    using assms(1,2) by (simp add: job_ok_def aggregate_ok_def)
qed

lemma settle_result_ok:
  assumes "settle_result k n res p = (q, h)" and "job_ok aggregate limit k p" and "pg_aggregate p = None"
    and "n < pg_cursor p" and "n \<notin> pg_inflight p"
  shows "job_ok aggregate limit k q \<and> pg_aggregate q = None \<and> same_calls p q"
proof (cases res)
  case (Sampled rk rn x)
  show ?thesis
  proof (cases "(rk, rn) \<noteq> (k, n) \<or> Some (so_sample_id x) \<noteq> sample_id_at p n \<or> n \<in> fst ` set (pg_outcomes p)")
    case True
    with Sampled assms(1) have "q = fail_execution RuntimeError p"
      by (simp add: settle_result_def)
    with same_work_ok [OF assms(2) _ assms(3), of q] assms(3) show ?thesis
      by (simp add: same_work_def fail_execution_def same_calls_def)
  next
    case False
    with Sampled assms(1) have "q = p\<lparr>pg_outcomes := dict_set n x (pg_outcomes p)\<rparr>"
      by (auto simp: settle_result_def)
    with add_outcome_ok [OF assms(2-5), of x] False assms(3) show ?thesis
      by (simp add: same_calls_def)
  qed
next
  case (Raised e c)
  with assms(1) have "same_work p q"
    by (auto simp: settle_result_def same_work_def fail_deadline_def fail_request_def fail_execution_def Let_def split: if_splits)
  with same_work_ok [OF assms(2) this assms(3)] assms(3) show ?thesis
    by (simp add: same_work_def same_calls_def)
qed

lemma settle_job_ok:
  assumes "settle_job aggregate before after p = (q, h)" and "job_ok aggregate limit k p" and "pg_aggregate p = None"
  shows "job_ok aggregate limit k q \<and> same_calls p q"
proof (cases "same_work p q")
  case True
  with same_work_ok [OF assms(2) True assms(3)] show ?thesis
    by (simp add: same_work_def same_calls_def)
next
  case False
  with assms(1) obtain a where "q = p\<lparr>pg_aggregate := Some a\<rparr>" "pg_error p = None"
      "length (pg_outcomes p) = length (pj_samples (pg_job p))"
      "aggregate (pj_artifacts (pg_job p)) (map the (ordered_outcomes p)) = Inr a"
    by (auto simp: settle_job_def rbind_Inr_iff same_work_def fail_deadline_def split: if_splits sum.splits)
  moreover from this(1) have "sample_id_at q m = sample_id_at p m" "ordered_outcomes q = ordered_outcomes p" for m
    by (simp_all add: sample_id_at_def ordered_outcomes_def)
  ultimately show ?thesis
    using assms(2) by (simp add: job_ok_def outcomes_ok_def aggregate_ok_def same_calls_def)
qed

lemma ended_call_ok:
  assumes "job_ok aggregate limit k p" and "n \<in> pg_inflight p"
  shows "job_ok aggregate limit k (p\<lparr>pg_inflight := pg_inflight p - {n}\<rparr>)"
proof -
  let ?q = "p\<lparr>pg_inflight := pg_inflight p - {n}\<rparr>"
  have p: "outcomes_ok p" "pg_aggregate p = None" "pg_inflight p \<subseteq> {..<pg_cursor p}" "card (pg_inflight p) \<le> limit"
    using assms by (auto simp: job_ok_def busy_job)
  have same: "sample_id_at ?q m = sample_id_at p m" for m
    by (simp add: sample_id_at_def)
  have "outcomes_ok ?q"
    using p(1) unfolding outcomes_ok_def same by auto
  moreover have "card (pg_inflight p - {n}) \<le> limit"
    using p(4) card_Diff1_le [of "pg_inflight p" n] by linarith
  ultimately show ?thesis
    using assms(1) p by (auto simp: job_ok_def aggregate_ok_def)
qed

lemma complete_one_ok:
  assumes "sched_ok aggregate S" and "cm_call c \<in> set (sc_active S)"
  shows "sched_ok aggregate (complete_one aggregate c S)"
    and "sc_active (complete_one aggregate c S) = remove1 (cm_call c) (sc_active S)"
proof -
  obtain slot k n where c: "cm_call c = (slot, k, n)"
    by (cases "cm_call c")
  have ok: "jobs_ok aggregate (sc_per_job S) (sc_jobs S)" "calls_ok (sc_active S) (sc_jobs S)"
    using assms(1) by (simp_all add: sched_ok_def)
  obtain p where p: "map_of (sc_jobs S) k = Some p" "n \<in> pg_inflight p"
    using ok(2) assms(2) by (auto simp: calls_ok_def c)
  have jp: "job_ok aggregate (sc_per_job S) k p"
    by (rule jobs_ok_at [OF ok(1) p(1)])
  let ?p0 = "p\<lparr>pg_inflight := pg_inflight p - {n}\<rparr>"
  obtain p1 h1 where p1: "settle_result k n (cm_result c) ?p0 = (p1, h1)"
    by force
  obtain p2 h2 where p2: "settle_job aggregate (cm_before c) (cm_after c) p1 = (p2, h2)"
    by force
  have "n < pg_cursor p" "pg_aggregate p = None"
    using jp p(2) busy_job [OF jp p(2)] by (auto simp: job_ok_def)
  with settle_result_ok [OF p1 ended_call_ok [OF jp p(2)]]
  have p1_ok: "job_ok aggregate (sc_per_job S) k p1" "pg_aggregate p1 = None" "same_calls ?p0 p1"
    by simp_all
  from settle_job_ok [OF p2 p1_ok(1,2)] p1_ok(3)
  have p2_ok: "job_ok aggregate (sc_per_job S) k p2" "pg_job p2 = pg_job p" "pg_inflight p2 = pg_inflight p - {n}"
    by (simp_all add: same_calls_def)
  let ?js = "dict_set k p2 (sc_jobs S)"
  have step: "complete_one aggregate c S = S\<lparr>sc_active := remove1 (slot, k, n) (sc_active S), sc_free := sc_free S @ [slot],
      sc_jobs := ?js, sc_halted := sc_halted S \<or> h1 \<or> h2\<rparr>"
    using c p(1) p1 p2 by (simp add: complete_one_def)
  have "active_for w p" if "active_for w p2" for w
    using that p(2) p2_ok(2) \<open>pg_aggregate p = None\<close> by (auto simp: active_for_def)
  then have "evolves p p2"
    using p2_ok(2) by (simp add: evolves_def)
  then have evolve: "jobs_evolve (sc_jobs S) ?js"
    by (rule evolve_set [OF p(1)])
  have jobs: "jobs_ok aggregate (sc_per_job S) ?js"
    by (rule jobs_ok_set [OF ok(1) p2_ok(1)])
  have "(slot, k, n) \<in> set (sc_active S)"
    using assms(2) c by simp
  then obtain xs ys where split: "sc_active S = xs @ (slot, k, n) # ys" "(slot, k, n) \<notin> set xs"
    using split_list_first by metis
  have rest: "remove1 (slot, k, n) (sc_active S) = xs @ ys"
    using split by (simp add: remove1_append)
  have calls: "calls_ok (xs @ ys) ?js"
    unfolding calls_ok_def
  proof (intro conjI ballI, goal_cases)
    case 1
    then show ?case
      using ok(2) by (simp add: calls_ok_def split)
  next
    case (2 x)
    obtain s' k' n' where x: "x = (s', k', n')"
      by (cases x)
    have "(s', k', n') \<in> set (sc_active S)"
      using 2 x by (auto simp: split)
    with ok(2) obtain p' where p': "map_of (sc_jobs S) k' = Some p'" "n' \<in> pg_inflight p'"
      by (auto simp: calls_ok_def)
    have "(k, n) \<notin> snd ` set xs \<union> snd ` set ys"
      using ok(2) by (simp add: calls_ok_def split)
    moreover have "(k', n') \<in> snd ` set xs \<union> snd ` set ys"
      using 2 x by (metis UnI1 UnI2 Un_iff image_eqI set_append snd_conv)
    ultimately have "(k', n') \<noteq> (k, n)"
      by metis
    with p' p(1) p2_ok(3) show ?case
      by (cases "k' = k") (auto simp: x)
  qed
  have "mset (sc_free S @ [slot]) + mset (map fst (xs @ ys)) = mset [0..<sc_slots S]"
    using assms(1) by (simp add: sched_ok_def split)
  moreover have "length ?js = length (sc_jobs S)"
    using evolve_length [OF evolve] ok(1) jobs by (simp add: jobs_ok_def)
  ultimately show "sched_ok aggregate (complete_one aggregate c S)"
    using assms(1) jobs calls owners_evolve [OF _ evolve] unfolding step rest by (simp add: sched_ok_def)
  show "sc_active (complete_one aggregate c S) = remove1 (cm_call c) (sc_active S)"
    by (simp add: step c)
qed

lemma complete_all_ok:
  "sched_ok aggregate S \<Longrightarrow> mset (map cm_call cs) \<subseteq># mset (sc_active S) \<Longrightarrow> sched_ok aggregate (fold (complete_one aggregate) cs S)"
proof (induction cs arbitrary: S)
  case (Cons c cs)
  then have c: "cm_call c \<in> set (sc_active S)"
    using mset_subset_eqD [OF Cons.prems(2), of "cm_call c"] by simp
  have "mset (map cm_call cs) \<subseteq># mset (sc_active (complete_one aggregate c S))"
    using Cons.prems(2) c by (simp add: complete_one_ok(2) [OF Cons.prems(1) c] insert_subset_eq_iff)
  from Cons.IH [OF complete_one_ok(1) [OF Cons.prems(1) c] this] show ?case
    by simp
qed simp

section \<open>The scheduler's runs\<close>

text \<open>\<open>aggregate\<close> is the aggregation of the challenge.  A batch of completions consists of calls that are active.\<close>

inductive scheduler_step :: "(challenge_artifacts \<Rightarrow> sample_outcome list \<Rightarrow> aggregate_result result) \<Rightarrow> scheduler \<Rightarrow> scheduler \<Rightarrow> bool"
  for aggregate where
  admit: "add_job dispatchable valid j S = Inr S' \<Longrightarrow> scheduler_step aggregate S S'"
| sealed: "scheduler_step aggregate S (seal S)"
| aborted: "scheduler_step aggregate S (abort S)"
| stopped: "scheduler_step aggregate S (S\<lparr>sc_stop := True\<rparr>)"
| dispatched: "scheduler_step aggregate S (dispatch_phase dispatchable ready clock clocks S)"
| completed: "mset (map cm_call cs) \<subseteq># mset (sc_active S) \<Longrightarrow> scheduler_step aggregate S (complete_phase aggregate cs S)"
| published: "scheduler_step aggregate S (notify_phase retain failing S)"
| closed: "scheduler_step aggregate S (close_session S)"

definition scheduler_reachable :: "(challenge_artifacts \<Rightarrow> sample_outcome list \<Rightarrow> aggregate_result result) \<Rightarrow> scheduler \<Rightarrow> bool" where
  "scheduler_reachable aggregate S \<longleftrightarrow> (\<exists>slots capacity inflight max_jobs per_job history S0.
     SampleScheduler slots capacity inflight max_jobs per_job history = Inr S0 \<and> (scheduler_step aggregate)\<^sup>*\<^sup>* S0 S)"

lemma add_job_ok:
  assumes "sched_ok aggregate S" and "add_job d v j S = Inr S'"
  shows "sched_ok aggregate S'"
proof -
  let ?k = "pj_submission j"
  have new: "?k \<notin> fst ` set (sc_jobs S)" "length (sc_jobs S) < sc_max_jobs S"
    and free: "\<not> list_ex (\<lambda>(_, p). active_for (pj_owner j) p) (sc_jobs S)"
    and S': "S' = S\<lparr>sc_jobs := sc_jobs S @ [(?k, new_progress j)]\<rparr>"
    using assms(2) by (auto simp: add_job_def rbind_Inr_iff dict_set_fresh)
  have jobs: "jobs_ok aggregate (sc_per_job S) (sc_jobs S)" and calls: "calls_ok (sc_active S) (sc_jobs S)"
    and owners: "owners_ok (sc_jobs S)"
    using assms(1) by (simp_all add: sched_ok_def)
  have none: "map_of (sc_jobs S) ?k = None"
    using new(1) by (simp add: map_of_eq_None_iff)
  have old: "map_of (sc_jobs S') k = (if k = ?k then Some (new_progress j) else map_of (sc_jobs S) k)" for k
    using none by (cases "map_of (sc_jobs S) k") (auto simp: S' map_add_def)
  have "job_ok aggregate (sc_per_job S) ?k (new_progress j)"
    by (simp add: job_ok_def new_progress_def outcomes_ok_def aggregate_ok_def)
  with jobs new(1) have "jobs_ok aggregate (sc_per_job S) (sc_jobs S')"
    unfolding jobs_ok_def old by (simp add: S')
  moreover have no: "\<not> active_for w p" if "map_of (sc_jobs S) k = Some p" "active_for w (new_progress j)" for w k p
  proof
    assume "active_for w p"
    moreover have "w = pj_owner j"
      using that(2) by (simp add: active_for_def new_progress_def)
    ultimately have "list_ex (\<lambda>(_, p). active_for (pj_owner j) p) (sc_jobs S)"
      using map_of_SomeD [OF that(1)] by (auto simp: list_ex_iff)
    with free show False ..
  qed
  have "owners_ok (sc_jobs S')"
    unfolding owners_ok_def
  proof (intro allI impI)
    fix k k' p p' w
    assume a: "map_of (sc_jobs S') k = Some p" "map_of (sc_jobs S') k' = Some p'" "active_for w p" "active_for w p'"
    show "k = k'"
    proof (rule ccontr)
      assume "k \<noteq> k'"
      with a no [of k p w] no [of k' p' w] have "map_of (sc_jobs S) k = Some p" "map_of (sc_jobs S) k' = Some p'"
        unfolding old by (auto split: if_splits)
      with owners a(3,4) \<open>k \<noteq> k'\<close> show False
        unfolding owners_ok_def by blast
    qed
  qed
  moreover have "calls_ok (sc_active S) (sc_jobs S')"
  proof -
    have "calls_kept (sc_jobs S) (sc_jobs S')"
      unfolding calls_kept_def old using none by auto
    with calls show ?thesis
      by (rule calls_ok_kept)
  qed
  ultimately show ?thesis
    using assms(1) new(2) by (simp add: sched_ok_def S')
qed

lemma job_ok_flags:
  assumes "job_ok aggregate limit k p" and "same_work p q" and "pg_error q = pg_error p"
  shows "job_ok aggregate limit k q"
proof -
  have "sample_id_at q n = sample_id_at p n" "ordered_outcomes q = ordered_outcomes p" for n
    using assms(2) by (simp_all add: sample_id_at_def ordered_outcomes_def same_work_def)
  moreover have "pg_aggregate q = pg_aggregate p" "pg_outcomes q = pg_outcomes p" "pg_job q = pg_job p"
      "pg_cursor q = pg_cursor p" "pg_inflight q = pg_inflight p"
    using assms(2) by (simp_all add: same_work_def)
  ultimately have "outcomes_ok q = outcomes_ok p" "aggregate_ok aggregate q = aggregate_ok aggregate p"
    using assms(3) by (simp_all add: outcomes_ok_def aggregate_ok_def split: option.splits)
  with assms show ?thesis
    by (simp add: job_ok_def same_work_def)
qed

lemma map_of_filter_keys: "map_of (filter (\<lambda>(k, _). P k) m) k = (if P k then map_of m k else None)"
  by (induction m) auto

text \<open>Removing jobs that have no call in flight.\<close>

lemma remove_jobs_ok:
  assumes "sched_ok aggregate S" and "\<And>k p. \<not> P k \<Longrightarrow> map_of (sc_jobs S) k = Some p \<Longrightarrow> pg_inflight p = {}"
  shows "sched_ok aggregate (S\<lparr>sc_jobs := filter (\<lambda>(k, _). P k) (sc_jobs S)\<rparr>)"
proof -
  let ?js = "filter (\<lambda>(k, _). P k) (sc_jobs S)"
  have "jobs_ok aggregate (sc_per_job S) ?js"
    using assms(1) unfolding sched_ok_def jobs_ok_def map_of_filter_keys by (auto simp: distinct_map_filter split: if_splits)
  moreover have "owners_ok ?js"
    using assms(1) unfolding sched_ok_def owners_ok_def map_of_filter_keys by (auto split: if_splits)
  moreover have "calls_ok (sc_active S) ?js"
    using assms unfolding sched_ok_def calls_ok_def map_of_filter_keys by fastforce
  moreover have "length ?js \<le> sc_max_jobs S"
    by (rule order_trans [OF length_filter_le]) (use assms(1) in \<open>simp add: sched_ok_def\<close>)
  ultimately show ?thesis
    using assms(1) by (simp add: sched_ok_def)
qed

lemma published_terminal: "set (published_keys failing S) \<subseteq> fst ` set (terminal_jobs S)"
  using set_take_subset [of _ "map fst (terminal_jobs S)"] by (simp add: published_keys_def split: option.splits)

lemma notify_ok: "sched_ok aggregate S \<Longrightarrow> sched_ok aggregate (notify_phase retain failing S)"
proof -
  assume ok: "sched_ok aggregate S"
  let ?f = "\<lambda>(_::pystr) p. if terminal_job p then p\<lparr>pg_notified := True\<rparr> else p"
  let ?S = "on_jobs ?f S"
  have work: "same_work p (?f k p)" for k p
    by (simp add: same_work_def)
  have S: "sched_ok aggregate ?S"
  proof (rule on_jobs_ok [OF ok])
    show "job_ok aggregate (sc_per_job S) k (?f k p)" if "job_ok aggregate (sc_per_job S) k p" for k p
      by (rule job_ok_flags [OF that work]) simp
    show "evolves p (?f k p)" for k p
      by (rule same_work_evolves [OF work])
  qed simp
  have "pg_inflight p = {}" if gone: "k \<in> set (published_keys failing S)" "map_of (sc_jobs ?S) k = Some p" for k p
  proof -
    obtain q where q: "(k, q) \<in> set (sc_jobs S)" "terminal_job q"
      using gone(1) published_terminal [of failing S] unfolding terminal_jobs_def by force
    have "distinct (map fst (sc_jobs S))"
      using ok by (simp add: sched_ok_def jobs_ok_def)
    with q(1) have "map_of (sc_jobs S) k = Some q"
      by simp
    with gone(2) have "p = ?f k q"
      using map_of_on_jobs [of ?f "sc_jobs S" k] by (simp add: on_jobs_def)
    with q(2) show ?thesis
      by (simp add: terminal_job_def)
  qed
  then have "sched_ok aggregate (?S\<lparr>sc_jobs := filter (\<lambda>(k, _). k \<notin> set (published_keys failing S)) (sc_jobs ?S)\<rparr>)"
    by (intro remove_jobs_ok [OF S]) blast
  with S have "sched_ok aggregate (if retain then ?S else
      ?S\<lparr>sc_jobs := filter (\<lambda>(k, _). k \<notin> set (published_keys failing S)) (sc_jobs ?S)\<rparr>)"
    by (rule if_split [THEN iffD2, OF conjI [OF impI impI]])
  with abort_ok [OF this] show ?thesis
    unfolding notify_phase_def Let_def by (auto split: option.splits)
qed

lemma close_ok: "sched_ok aggregate S \<Longrightarrow> sched_ok aggregate (close_session S)"
  using on_jobs_work [of aggregate "S\<lparr>sc_closed := True\<rparr>" "\<lambda>_. fail_blocked"] fail_blocked_work
  by (simp add: close_session_def sched_ok_flags fail_blocked_def)

lemma scheduler_step_ok: "scheduler_step aggregate S S' \<Longrightarrow> sched_ok aggregate S \<Longrightarrow> sched_ok aggregate S'"
proof (induction rule: scheduler_step.induct)
  case (completed cs S)
  then show ?case
    unfolding complete_phase_def by (intro block_all_ok complete_all_ok)
qed (auto intro: add_job_ok seal_ok abort_ok dispatch_phase_ok notify_ok close_ok simp: sched_ok_flags)

lemma scheduler_reachable_ok: "scheduler_reachable aggregate S \<Longrightarrow> sched_ok aggregate S"
proof -
  assume "scheduler_reachable aggregate S"
  then obtain slots capacity inflight max_jobs per_job history S0 where
      init: "SampleScheduler slots capacity inflight max_jobs per_job history = Inr S0"
      and run: "(scheduler_step aggregate)\<^sup>*\<^sup>* S0 S"
    by (auto simp: scheduler_reachable_def)
  from init have "sched_ok aggregate S0"
    by (auto simp: SampleScheduler_def rbind_Inr_iff Let_def sched_ok_def jobs_ok_def owners_ok_def calls_ok_def)
  with run show ?thesis
    by (induction rule: rtranclp_induct) (auto intro: scheduler_step_ok)
qed
section \<open>Results, capacity and fairness\<close>

lemma result_outcomes:
  assumes "scheduler_reachable aggregate S" and "map_of (sc_jobs S) k = Some p" and "pg_aggregate p = Some a"
    and "xs = map the (ordered_outcomes p)"
  shows "pg_error p = None" and "pg_inflight p = {}" and "aggregate (pj_artifacts (pg_job p)) xs = Inr a"
    and "map so_sample_id xs = map (\<lambda>s. ms_sample_id (ps_manifest s)) (pj_samples (pg_job p))"
    and "n < length xs \<Longrightarrow> (n, xs ! n) \<in> set (pg_outcomes p)"
proof -
  have job: "job_ok aggregate (sc_per_job S) k p"
    using scheduler_reachable_ok [OF assms(1)] assms(2) by (auto simp: sched_ok_def intro: jobs_ok_at)
  with assms(3) have agg: "pg_error p = None" "length (pg_outcomes p) = length (pj_samples (pg_job p))"
      "aggregate (pj_artifacts (pg_job p)) (map the (ordered_outcomes p)) = Inr a"
    by (simp_all add: job_ok_def aggregate_ok_def)
  show "pg_error p = None" "pg_inflight p = {}" "aggregate (pj_artifacts (pg_job p)) xs = Inr a"
    using agg(1,3) finished_job(1) [OF job assms(3)] assms(4) by simp_all
  have ok: "outcomes_ok p" "pg_cursor p \<le> length (pj_samples (pg_job p))"
    using job by (simp_all add: job_ok_def)
  have at: "(n, xs ! n) \<in> set (pg_outcomes p)" if n: "n < length (pj_samples (pg_job p))" for n
  proof -
    have "n \<in> fst ` set (pg_outcomes p)"
      using all_outcomes [OF ok(1) agg(2) ok(2)] n by simp
    then obtain x where "map_of (pg_outcomes p) n = Some x"
      by (metis map_of_eq_None_iff not_None_eq)
    with n map_of_SomeD [OF this] show ?thesis
      by (simp add: assms(4) ordered_outcomes_def)
  qed
  then show "n < length xs \<Longrightarrow> (n, xs ! n) \<in> set (pg_outcomes p)"
    by (simp add: assms(4) ordered_outcomes_def)
  have "so_sample_id (xs ! n) = ms_sample_id (ps_manifest (pj_samples (pg_job p) ! n))"
    if n: "n < length (pj_samples (pg_job p))" for n
    using ok(1) at [OF n] n by (auto simp: outcomes_ok_def sample_id_at_def)
  then show "map so_sample_id xs = map (\<lambda>s. ms_sample_id (ps_manifest s)) (pj_samples (pg_job p))"
    by (intro nth_equalityI) (simp_all add: assms(4) ordered_outcomes_def)
qed

lemma scheduler_bounds_facts:
  assumes "scheduler_reachable aggregate S"
  shows "distinct (map fst (sc_active S)) \<and> set (map fst (sc_active S)) \<subseteq> {..<sc_slots S}"
    and "length (sc_jobs S) \<le> sc_max_jobs S"
    and "map_of (sc_jobs S) k = Some p \<Longrightarrow> card (pg_inflight p) \<le> sc_per_job S"
    and "map_of (sc_jobs S) k = Some p \<Longrightarrow> map_of (sc_jobs S) k' = Some p' \<Longrightarrow> active_for w p \<Longrightarrow> active_for w p' \<Longrightarrow> k = k'"
proof -
  have ok: "sched_ok aggregate S"
    by (rule scheduler_reachable_ok [OF assms])
  then have slots: "mset (sc_free S @ map fst (sc_active S)) = mset [0..<sc_slots S]"
    by (simp add: sched_ok_def)
  have "distinct (sc_free S @ map fst (sc_active S))"
    using mset_eq_imp_distinct_iff [OF slots] by simp
  moreover have "set (sc_free S @ map fst (sc_active S)) = {..<sc_slots S}"
    using mset_eq_setD [OF slots] by (simp add: atLeast0LessThan)
  ultimately show "distinct (map fst (sc_active S)) \<and> set (map fst (sc_active S)) \<subseteq> {..<sc_slots S}"
    by auto
  show "length (sc_jobs S) \<le> sc_max_jobs S"
    using ok by (simp add: sched_ok_def)
  show "map_of (sc_jobs S) k = Some p \<Longrightarrow> card (pg_inflight p) \<le> sc_per_job S"
    using ok by (auto simp: sched_ok_def jobs_ok_def job_ok_def)
  show "map_of (sc_jobs S) k = Some p \<Longrightarrow> map_of (sc_jobs S) k' = Some p' \<Longrightarrow> active_for w p \<Longrightarrow> active_for w p' \<Longrightarrow> k = k'"
    using ok unfolding sched_ok_def owners_ok_def by blast
qed

text \<open>C24. The bounds of a session: calls run in distinct slots of the executor, a job has at most its per-job limit in flight,
  at most \<open>max_jobs\<close> jobs are held, and no owner has two active jobs.\<close>
theorem scheduler_bounds:
  assumes "scheduler_reachable aggregate S"
  shows "distinct (map fst (sc_active S)) \<and> set (map fst (sc_active S)) \<subseteq> {..<sc_slots S} \<and>
    length (sc_jobs S) \<le> sc_max_jobs S \<and>
    (map_of (sc_jobs S) k = Some p \<longrightarrow> card (pg_inflight p) \<le> sc_per_job S) \<and>
    (map_of (sc_jobs S) k = Some p \<and> map_of (sc_jobs S) k' = Some p' \<and> active_for w p \<and> active_for w p' \<longrightarrow> k = k')"
  using scheduler_bounds_facts [OF assms] by blast

lemma scan_filter:
  "scan_candidates clock limit ks js = (cs, js') \<Longrightarrow> distinct ks \<Longrightarrow>
     cs = filter (\<lambda>k. case map_of js k of None \<Rightarrow> False | Some p \<Rightarrow> can_dispatch limit p \<and> \<not> past_deadline clock k p) ks"
proof (induction clock limit ks js arbitrary: cs js' rule: scan_candidates.induct)
  case (2 clock limit k ks js)
  show ?case
  proof (cases "map_of js k")
    case None
    with 2(1) [OF None, of cs js'] 2(5,6) show ?thesis
      by simp
  next
    case (Some p)
    consider "\<not> can_dispatch limit p" | "can_dispatch limit p" "past_deadline clock k p"
      | "can_dispatch limit p" "\<not> past_deadline clock k p"
      by blast
    then show ?thesis
    proof cases
      case 1
      with 2(2) [OF Some 1, of cs js'] 2(5,6) Some show ?thesis
        by simp
    next
      case b: 2
      have nn: "\<not> \<not> can_dispatch limit p"
        using b(1) by simp
      have "scan_candidates clock limit ks (dict_set k (fail_deadline p) js) = (cs, js')" "distinct ks" "k \<notin> set ks"
        using 2(5,6) Some b by simp_all
      with 2(3) [OF Some nn b(2), of cs js'] Some b show ?thesis
        by (auto intro!: filter_cong)
    next
      case c: 3
      have nn: "\<not> \<not> can_dispatch limit p"
        using c(1) by simp
      obtain cs0 where "scan_candidates clock limit ks js = (cs0, js')" "cs = k # cs0"
        using 2(5) Some c by (auto split: prod.splits)
      with 2(4) [OF Some nn c(2), of cs0 js'] 2(6) Some c show ?thesis
        by simp
    qed
  qed
qed simp

lemma find_split: "find P xs = Some x \<Longrightarrow> \<exists>ys zs. xs = ys @ x # zs \<and> P x \<and> (\<forall>y \<in> set ys. \<not> P y)"
proof (induction xs)
  case (Cons a xs)
  show ?case
  proof (cases "P a")
    case True
    with Cons.prems have "x = a" by simp
    with True show ?thesis
      by (intro exI [of _ "[]"] exI [of _ xs]) auto
  next
    case False
    with Cons obtain ys zs where "xs = ys @ x # zs" "P x" "\<forall>y \<in> set ys. \<not> P y"
      by auto
    with False show ?thesis
      by (intro exI [of _ "a # ys"] exI [of _ zs]) auto
  qed
qed simp

text \<open>C23. Fairness: the sample that is sent next belongs to an eligible job (no error, samples left, below its limit, in time)
  with the fewest calls in flight, and among these to the first in the order that starts after the job served last;
  its position is the job's next one.\<close>
theorem next_sample_is_fair:
  assumes "scheduler_reachable aggregate S" and "next_sample clock S = (Some (k, n), S')" and "eligible clock S k' p'"
  shows "\<exists>p before after. eligible clock S k p \<and> n = pg_cursor p \<and> card (pg_inflight p) \<le> card (pg_inflight p') \<and>
    rotate_after (sc_last S) (map fst (sc_jobs S)) = before @ k # after \<and>
    (card (pg_inflight p) = card (pg_inflight p') \<longrightarrow> k' \<notin> set before)"
proof -
  let ?ks = "rotate_after (sc_last S) (map fst (sc_jobs S))"
  have ok: "sched_ok aggregate S"
    by (rule scheduler_reachable_ok [OF assms(1)])
  then have dist: "distinct ?ks"
    by (simp add: rotate_distinct sched_ok_def jobs_ok_def)
  obtain cs js where scan: "scan_candidates clock (sc_per_job S) ?ks (sc_jobs S) = (cs, js)"
    by force
  note sc = scanned [OF ok scan]
  let ?E = "\<lambda>k. case map_of (sc_jobs S) k of None \<Rightarrow> False | Some p \<Rightarrow> can_dispatch (sc_per_job S) p \<and> \<not> past_deadline clock k p"
  have cs: "cs = filter ?E ?ks"
    by (rule scan_filter [OF scan dist])
  have E: "?E x \<longleftrightarrow> (\<exists>p. eligible clock S x p)" for x
    by (cases "map_of (sc_jobs S) x") (auto simp: eligible_def)
  have load: "inflight_of js x = card (pg_inflight q)" if "x \<in> set cs" "eligible clock S x q" for x q
    using sc(2) [OF that(1)] that(2) by (simp add: inflight_of_def eligible_def)
  have k': "k' \<in> set cs"
  proof -
    have "k' \<in> fst ` set (sc_jobs S)"
      using assms(3) by (force simp: eligible_def dest: map_of_SomeD)
    with assms(3) E show ?thesis
      unfolding cs by auto
  qed
  have k: "first_min (inflight_of js) cs = Some k"
    using assms(2) scan by (auto simp: next_sample_def split: option.splits)
  then have "find (\<lambda>x. list_all (\<lambda>y. inflight_of js x \<le> inflight_of js y) cs) cs = Some k"
    by (simp add: first_min_def)
  from find_split [OF this] obtain ys zs where yz: "cs = ys @ k # zs" "list_all (\<lambda>y. inflight_of js k \<le> inflight_of js y) cs"
      "\<forall>y \<in> set ys. \<not> list_all (\<lambda>z. inflight_of js y \<le> inflight_of js z) cs"
    by blast
  have kc: "k \<in> set cs"
    using yz(1) by simp
  then obtain p where p: "eligible clock S k p"
    using sc(3) by blast
  have n: "n = pg_cursor p"
    using assms(2) scan k sc(2) [OF kc] p by (auto simp: next_sample_def eligible_def split: option.splits)
  have least: "card (pg_inflight p) \<le> card (pg_inflight p')"
    using yz(2) k' load [OF kc p] load [OF k' assms(3)] by (auto simp: list_all_iff)
  obtain before after where ba: "?ks = before @ k # after" "k \<notin> set before"
    using kc split_list_first [of k ?ks] unfolding cs by auto
  have "k' \<notin> set before" if eq: "card (pg_inflight p) = card (pg_inflight p')"
  proof
    assume in_before: "k' \<in> set before"
    have "filter ?E before @ k # filter ?E after = ys @ k # zs"
      using cs yz(1) ba(1) p E by auto
    moreover have "distinct cs"
      using dist by (simp add: cs)
    then have "k \<notin> set ys" "k \<notin> set zs"
      using yz(1) by simp_all
    ultimately have "ys = filter ?E before"
      using append_Cons_eq_iff [of k ys zs "filter ?E before" "filter ?E after"] by simp
    with in_before assms(3) E have "k' \<in> set ys"
      by auto
    moreover have "list_all (\<lambda>z. inflight_of js k' \<le> inflight_of js z) cs"
      using yz(2) eq load [OF kc p] load [OF k' assms(3)] by (simp add: list_all_iff)
    ultimately show False
      using yz(3) by blast
  qed
  with p n least ba(1) show ?thesis
    by blast
qed
section \<open>Sessions\<close>

text \<open>A session with its history: each admission of a job, each sample sent and each result received for it, and the removal of a
  job after its publication (\<open>retain_completed\<close> off), after which its submission may be admitted again.\<close>

datatype session_event = Admitted pystr | Sent pystr nat | Received pystr nat sample_result | Retired pystr

text \<open>The calls a dispatch phase adds, in order, and the jobs a publication removes.\<close>

definition newly_sent :: "scheduler \<Rightarrow> scheduler \<Rightarrow> session_event list" where
  "newly_sent S S' = map (\<lambda>(_, k, n). Sent k n) (drop (length (sc_active S)) (sc_active S'))"

definition newly_received :: "completion \<Rightarrow> session_event" where
  "newly_received c = (case cm_call c of (_, k, n) \<Rightarrow> Received k n (cm_result c))"

definition newly_retired :: "scheduler \<Rightarrow> scheduler \<Rightarrow> session_event list" where
  "newly_retired S S' = map Retired (filter (\<lambda>k. k \<notin> fst ` set (sc_jobs S')) (map fst (sc_jobs S)))"

inductive scheduler_session :: "(challenge_artifacts \<Rightarrow> sample_outcome list \<Rightarrow> aggregate_result result)
    \<Rightarrow> session_event list \<Rightarrow> scheduler \<Rightarrow> bool" for aggregate where
  opened: "SampleScheduler slots capacity inflight max_jobs per_job history = Inr S \<Longrightarrow> scheduler_session aggregate [] S"
| admitted: "scheduler_session aggregate h S \<Longrightarrow> add_job dispatchable valid j S = Inr S'
    \<Longrightarrow> scheduler_session aggregate (h @ [Admitted (pj_submission j)]) S'"
| flagged: "scheduler_session aggregate h S \<Longrightarrow> S' \<in> {seal S, abort S, S\<lparr>sc_stop := True\<rparr>, close_session S}
    \<Longrightarrow> scheduler_session aggregate h S'"
| sending: "scheduler_session aggregate h S \<Longrightarrow> S' = dispatch_phase dispatchable ready clock clocks S
    \<Longrightarrow> scheduler_session aggregate (h @ newly_sent S S') S'"
| receiving: "scheduler_session aggregate h S \<Longrightarrow> mset (map cm_call cs) \<subseteq># mset (sc_active S)
    \<Longrightarrow> scheduler_session aggregate (h @ map newly_received cs) (complete_phase aggregate cs S)"
| publishing: "scheduler_session aggregate h S \<Longrightarrow> S' = notify_phase retain failing S
    \<Longrightarrow> scheduler_session aggregate (h @ newly_retired S S') S'"

lemma session_reachable: "scheduler_session aggregate h S \<Longrightarrow> scheduler_reachable aggregate S"
proof (induction rule: scheduler_session.induct)
  case (opened slots capacity inflight max_jobs per_job history S)
  then show ?case
    unfolding scheduler_reachable_def by blast
next
  case (admitted h S d v j S')
  then show ?case
    unfolding scheduler_reachable_def by (meson scheduler_step.admit rtranclp.rtrancl_into_rtrancl)
next
  case (flagged h S S')
  then have "scheduler_step aggregate S S'"
    by (auto intro: scheduler_step.intros)
  with flagged.IH show ?case
    unfolding scheduler_reachable_def by (meson rtranclp.rtrancl_into_rtrancl)
next
  case (sending h S S' d ready clock clocks)
  then show ?case
    unfolding scheduler_reachable_def by (meson scheduler_step.dispatched rtranclp.rtrancl_into_rtrancl)
next
  case (receiving h S cs)
  then show ?case
    unfolding scheduler_reachable_def by (meson scheduler_step.completed rtranclp.rtrancl_into_rtrancl)
next
  case (publishing h S S' retain failing)
  then show ?case
    unfolding scheduler_reachable_def by (meson scheduler_step.published rtranclp.rtrancl_into_rtrancl)
qed

text \<open>The events since the last admission of a job, latest first; the positions sent and the results received of a job.\<close>

definition since :: "pystr \<Rightarrow> session_event list \<Rightarrow> session_event list" where
  "since k h = takeWhile (\<lambda>e. e \<noteq> Admitted k) (rev h)"

definition sent_of :: "pystr \<Rightarrow> session_event list \<Rightarrow> nat list" where
  "sent_of k es = List.map_filter (\<lambda>e. case e of Sent j n \<Rightarrow> if j = k then Some n else None | _ \<Rightarrow> None) es"

definition received_of :: "pystr \<Rightarrow> nat \<Rightarrow> session_event list \<Rightarrow> sample_result list" where
  "received_of k n es = List.map_filter (\<lambda>e. case e of Received j m r \<Rightarrow> if j = k \<and> m = n then Some r else None | _ \<Rightarrow> None) es"

lemma since_more: "Admitted k \<notin> set es \<Longrightarrow> since k (h @ es) = rev es @ since k h"
  by (simp add: since_def) (subst takeWhile_append2, auto)

lemma since_admitted: "since k (h @ [Admitted j]) = (if j = k then [] else Admitted j # since k h)"
  by (simp add: since_def)

lemma since_split: "Admitted k \<notin> set during \<Longrightarrow> since k (before @ Admitted k # during) = rev during"
  using since_more [of k during "before @ [Admitted k]"] by (simp add: since_admitted)

lemma since_none: "Admitted k \<notin> set h \<Longrightarrow> since k h = rev h"
  using since_more [of k h "[]"] by (simp add: since_def)

lemma sent_of_simps [simp]: "sent_of k [] = []" "sent_of k (xs @ ys) = sent_of k xs @ sent_of k ys"
  "sent_of k (e # es) = (case e of Sent j n \<Rightarrow> if j = k then n # sent_of k es else sent_of k es | _ \<Rightarrow> sent_of k es)"
  by (simp_all add: sent_of_def map_filter_def split: session_event.split)

lemma received_of_simps [simp]: "received_of k n [] = []" "received_of k n (xs @ ys) = received_of k n xs @ received_of k n ys"
  "received_of k n (e # es) = (case e of Received j m r \<Rightarrow> if j = k \<and> m = n then r # received_of k n es else received_of k n es
     | _ \<Rightarrow> received_of k n es)"
  by (simp_all add: received_of_def map_filter_def split: session_event.split)

lemma of_rev [simp]: "sent_of k (rev es) = rev (sent_of k es)" "received_of k n (rev es) = rev (received_of k n es)"
  by (simp_all add: sent_of_def received_of_def map_filter_def rev_map rev_filter)

lemma sent_of_set: "n \<in> set (sent_of k es) \<longleftrightarrow> Sent k n \<in> set es"
  by (induction es) (auto split: session_event.split)

lemma sent_calls [simp]: "received_of k n (map (\<lambda>(_, j, m). Sent j m) xs) = []"
  by (induction xs) auto

lemma other_events [simp]: "sent_of k (map Retired ks) = []" "received_of k n (map Retired ks) = []"
  "sent_of k (map newly_received cs) = []" "received_of k n (newly_sent S S') = []"
  by (induction ks, simp_all) (induction cs, simp_all add: newly_received_def newly_sent_def split: prod.splits)

section \<open>What a session's history says of its jobs\<close>

text \<open>Sending samples of a job moves its cursor and adds calls from there on; its outcomes stay.\<close>

definition only_sends :: "progress \<Rightarrow> progress \<Rightarrow> bool" where
  "only_sends p q \<longleftrightarrow> pg_outcomes q = pg_outcomes p \<and> pg_cursor p \<le> pg_cursor q \<and>
     (\<forall>n \<in> pg_inflight q. n \<in> pg_inflight p \<or> pg_cursor p \<le> n)"

definition jobs_send :: "jobs \<Rightarrow> jobs \<Rightarrow> bool" where
  "jobs_send js js' \<longleftrightarrow> (\<forall>k. rel_option only_sends (map_of js k) (map_of js' k))"

lemma only_sends_refl [simp]: "only_sends p p"
  by (simp add: only_sends_def)

lemma only_sends_trans: "only_sends p q \<Longrightarrow> only_sends q r \<Longrightarrow> only_sends p r"
  by (auto simp: only_sends_def)

lemma jobs_send_refl [simp]: "jobs_send js js"
  by (simp add: jobs_send_def option.rel_refl)

lemma jobs_send_trans [trans]:
  assumes "jobs_send a b" and "jobs_send b c"
  shows "jobs_send a c"
  unfolding jobs_send_def
proof
  fix k
  have "rel_option only_sends (map_of a k) (map_of b k)" "rel_option only_sends (map_of b k) (map_of c k)"
    using assms by (simp_all add: jobs_send_def)
  then show "rel_option only_sends (map_of a k) (map_of c k)"
    by (cases "map_of a k"; cases "map_of b k"; cases "map_of c k") (auto intro: only_sends_trans)
qed

lemma jobs_send_set: "map_of js k = Some p \<Longrightarrow> only_sends p q \<Longrightarrow> jobs_send js (dict_set k q js)"
  by (simp add: jobs_send_def option.rel_refl)

lemma on_jobs_send: "(\<And>k p. only_sends p (f k p)) \<Longrightarrow> jobs_send (sc_jobs S) (sc_jobs (on_jobs f S))"
  unfolding jobs_send_def on_jobs_def by (simp add: map_of_on_jobs option.rel_map option.rel_refl)

lemma same_work_sends: "same_work p q \<Longrightarrow> only_sends p q"
  by (simp add: same_work_def only_sends_def)

lemma block_all_send: "jobs_send (sc_jobs S) (sc_jobs (block_all S))"
  by (simp add: block_all_def on_jobs_send same_work_sends fail_blocked_work)

lemma block_all_active [simp]: "sc_active (block_all S) = sc_active S"
  by (simp add: block_all_def on_jobs_def)

lemma abort_frame [simp]: "sc_active (abort S) = sc_active S" "sc_jobs (abort S) = sc_jobs S" "sc_free (abort S) = sc_free S"
  by (simp_all add: abort_def)

lemma seal_frame [simp]: "sc_active (seal S) = sc_active S" "sc_jobs (seal S) = sc_jobs S" "sc_free (seal S) = sc_free S"
  by (simp_all add: seal_def)

definition cursor_of :: "jobs \<Rightarrow> pystr \<Rightarrow> nat" where
  "cursor_of js k = (case map_of js k of None \<Rightarrow> 0 | Some p \<Rightarrow> pg_cursor p)"

lemma jobs_send_cursor: "jobs_send js js' \<Longrightarrow> cursor_of js k \<le> cursor_of js' k"
  unfolding jobs_send_def cursor_of_def
  by (drule spec [of _ k]) (cases "map_of js k"; cases "map_of js' k"; simp add: only_sends_def)

lemma scan_sends:
  "scan_candidates clock limit ks js = (cs, js') \<Longrightarrow> jobs_send js js' \<and> cursor_of js' k = cursor_of js k"
proof (induction clock limit ks js arbitrary: cs js' rule: scan_candidates.induct)
  case (2 clock limit k' ks js)
  show ?case
  proof (cases "map_of js k'")
    case None
    with 2(1) [OF None] 2(5) show ?thesis
      by simp
  next
    case (Some p)
    have fail: "jobs_send js (dict_set k' (fail_deadline p) js)" "cursor_of (dict_set k' (fail_deadline p) js) k = cursor_of js k"
      using jobs_send_set [OF Some same_work_sends [OF fail_deadline_work]] Some by (simp_all add: cursor_of_def fail_deadline_def)
    with 2(2) [OF Some] 2(3) [OF Some] 2(4) [OF Some] 2(5) Some show ?thesis
      by (auto split: if_splits prod.splits dest: jobs_send_trans [OF fail(1)])
  qed
qed simp

lemma next_sample_frame:
  assumes "next_sample clock S = (r, S')"
  shows "sc_active S' = sc_active S" and "sc_free S' = sc_free S" and "jobs_send (sc_jobs S) (sc_jobs S')"
    and "r = Some (k', n) \<Longrightarrow> n = cursor_of (sc_jobs S) k' \<and>
      cursor_of (sc_jobs S') k = (if k = k' then n + 1 else cursor_of (sc_jobs S) k)"
proof -
  obtain cs js where scan: "scan_candidates clock (sc_per_job S) (rotate_after (sc_last S) (map fst (sc_jobs S))) (sc_jobs S) = (cs, js)"
    by force
  note cur = conjunct2 [OF scan_sends [OF scan]]
  show "sc_active S' = sc_active S" "sc_free S' = sc_free S"
    using assms scan by (auto simp: next_sample_def split: option.splits)
  have take: "only_sends p (take_sample p)" for p
    by (simp add: only_sends_def take_sample_def)
  have js: "jobs_send (sc_jobs S) js"
    using scan_sends [OF scan] by blast
  then show "jobs_send (sc_jobs S) (sc_jobs S')"
    using assms scan by (auto simp: next_sample_def jobs_send_set [OF _ take] intro: jobs_send_trans [OF js] split: option.splits)
  assume "r = Some (k', n)"
  with assms scan obtain p where p: "map_of js k' = Some p" "n = pg_cursor p" "sc_jobs S' = dict_set k' (take_sample p) js"
    by (auto simp: next_sample_def split: option.splits)
  then show "n = cursor_of (sc_jobs S) k' \<and> cursor_of (sc_jobs S') k = (if k = k' then n + 1 else cursor_of (sc_jobs S) k)"
    using cur [of k] cur [of k'] by (simp add: cursor_of_def take_sample_def)
qed

text \<open>The calls of a job that are sent have the positions from its cursor on, in order.\<close>

lemma dispatch_loop_sends:
  "\<exists>new. sc_active (dispatch_loop clocks i free S) = sc_active S @ new \<and>
     jobs_send (sc_jobs S) (sc_jobs (dispatch_loop clocks i free S)) \<and>
     (\<forall>k. sent_of k (map (\<lambda>(_, k, n). Sent k n) new) = [cursor_of (sc_jobs S) k..<cursor_of (sc_jobs (dispatch_loop clocks i free S)) k])"
proof (induction clocks i free S rule: dispatch_loop.induct)
  case (2 clocks i slot free S)
  obtain r S' where n: "next_sample (clocks i) S = (r, S')"
    by force
  show ?case
  proof (cases r)
    case None
    have "cursor_of (sc_jobs S') k = cursor_of (sc_jobs S) k" for k
      using n None scan_sends by (auto simp: next_sample_def split: prod.splits option.splits)
    with None n next_sample_frame(1,3) [OF n] show ?thesis
      by simp
  next
    case (Some q)
    obtain k n where q: "q = (k, n)"
      by force
    let ?S = "S'\<lparr>sc_free := free, sc_active := sc_active S' @ [(slot, k, n)]\<rparr>"
    let ?T = "dispatch_loop clocks (i + 1) free ?S"
    have T: "dispatch_loop clocks i (slot # free) S = ?T"
      using n Some q by simp
    note fr = next_sample_frame(1,3) [OF n] next_sample_frame(4) [OF n, unfolded Some q, OF refl]
    from "2.IH" [OF n [symmetric] Some q [symmetric]]
    obtain new where ih: "sc_active ?T = sc_active ?S @ new" "jobs_send (sc_jobs ?S) (sc_jobs ?T)"
        "\<And>j. sent_of j (map (\<lambda>(_, k, n). Sent k n) new) = [cursor_of (sc_jobs ?S) j..<cursor_of (sc_jobs ?T) j]"
      by blast
    have jobs: "sc_jobs ?S = sc_jobs S'"
      by simp
    have order: "sent_of j (map (\<lambda>(_, k, n). Sent k n) ((slot, k, n) # new)) = [cursor_of (sc_jobs S) j..<cursor_of (sc_jobs ?T) j]" for j
    proof (cases "j = k")
      case True
      have "cursor_of (sc_jobs S') k = n + 1" "n = cursor_of (sc_jobs S) k"
        using fr(3) [of k] by simp_all
      with True ih(3) [of k] jobs_send_cursor [OF ih(2), of k] show ?thesis
        by (simp add: upt_conv_Cons)
    next
      case False
      with fr(3) [of j] ih(3) [of j] show ?thesis
        by simp
    qed
    have "jobs_send (sc_jobs S) (sc_jobs ?T)"
      using fr(2) ih(2) unfolding jobs by (rule jobs_send_trans)
    moreover have "sc_active ?T = sc_active S @ (slot, k, n) # new"
      using ih(1) fr(1) by simp
    ultimately show ?thesis
      using order unfolding T by blast
  qed
qed simp

lemma dispatch_phase_sends:
  assumes "S' = dispatch_phase dispatchable ready clock clocks S"
  shows "jobs_send (sc_jobs S) (sc_jobs S')"
    and "sent_of k (newly_sent S S') = [cursor_of (sc_jobs S) k..<cursor_of (sc_jobs S') k]"
proof -
  define S3 where "S3 = dispatch_gate dispatchable ready S"
  define S4 where "S4 = on_jobs (expire_job clock) S3"
  define S5 where "S5 = (if \<not> sc_halted S4 \<and> ready = Inr True then dispatch_loop clocks 0 (sc_free S4) S4 else S4)"
  have same: "cursor_of (sc_jobs (on_jobs f T)) k = cursor_of (sc_jobs T) k" if "\<And>k p. pg_cursor (f k p) = pg_cursor p" for f T
    using that by (simp add: on_jobs_def cursor_of_def map_of_on_jobs split: option.splits)
  have S3: "sc_active S3 = sc_active S" "sc_jobs S3 = sc_jobs S"
    by (auto simp: S3_def dispatch_gate_def Let_def split: sum.splits)
  have S4: "sc_active S4 = sc_active S" "jobs_send (sc_jobs S) (sc_jobs S4)" "cursor_of (sc_jobs S4) k = cursor_of (sc_jobs S) k"
    using S3 on_jobs_send [of "expire_job clock" S3] same [of "expire_job clock" S3]
    by (simp_all add: S4_def same_work_sends expire_job_work) (simp_all add: on_jobs_def expire_job_def fail_deadline_def)
  have S': "S' = block_all S5"
    by (simp only: assms dispatch_phase_def S5_def S4_def S3_def Let_def)
  obtain new where new: "sc_active S5 = sc_active S4 @ new" "jobs_send (sc_jobs S4) (sc_jobs S5)"
      "sent_of k (map (\<lambda>(_, k, n). Sent k n) new) = [cursor_of (sc_jobs S4) k..<cursor_of (sc_jobs S5) k]"
    using dispatch_loop_sends [of clocks 0 "sc_free S4" S4] by (cases "\<not> sc_halted S4 \<and> ready = Inr True") (auto simp: S5_def)
  show "jobs_send (sc_jobs S) (sc_jobs S')"
    using jobs_send_trans [OF jobs_send_trans [OF S4(2) new(2)] block_all_send] by (simp add: S')
  have "cursor_of (sc_jobs S') k = cursor_of (sc_jobs S5) k"
    using same [of "\<lambda>_. fail_blocked" S5] by (simp add: S' block_all_def fail_blocked_def)
  then show "sent_of k (newly_sent S S') = [cursor_of (sc_jobs S) k..<cursor_of (sc_jobs S') k]"
    using new(1,3) S4(1,3) by (simp add: newly_sent_def S')
qed

text \<open>What is known of a job in progress from the events since its admission, and of the session as a whole.\<close>

definition tracked :: "pystr \<Rightarrow> session_event list \<Rightarrow> progress \<Rightarrow> bool" where
  "tracked k es p \<longleftrightarrow> sent_of k es = rev [0..<pg_cursor p] \<and>
     (\<forall>n. n \<in> pg_inflight p \<or> pg_cursor p \<le> n \<longrightarrow> received_of k n es = []) \<and>
     (\<forall>(n, x) \<in> set (pg_outcomes p). received_of k n es = [Sampled k n x])"

definition settled :: "pystr \<Rightarrow> session_event list \<Rightarrow> bool" where
  "settled k h \<longleftrightarrow> (Admitted k \<in> set h \<longrightarrow> Retired k \<in> set (since k h)) \<and> (\<exists>m. sent_of k (since k h) = rev [0..<m])"

definition history_ok :: "session_event list \<Rightarrow> jobs \<Rightarrow> bool" where
  "history_ok h js \<longleftrightarrow> (\<forall>k. case map_of js k of None \<Rightarrow> settled k h | Some p \<Rightarrow> tracked k (since k h) p)"

definition in_order :: "session_event list \<Rightarrow> bool" where
  "in_order h \<longleftrightarrow> (\<forall>g es k. h = g @ es \<longrightarrow> (\<exists>m. sent_of k (since k g) = rev [0..<m]) \<and>
     (\<forall>r. es = Admitted k # r \<longrightarrow> Admitted k \<in> set g \<longrightarrow> Retired k \<in> set (since k g)))"

lemma in_orderD:
  assumes "in_order (g @ es)"
  shows "\<exists>m. sent_of k (since k g) = rev [0..<m]"
    and "es = Admitted k # r \<Longrightarrow> Admitted k \<in> set g \<Longrightarrow> Retired k \<in> set (since k g)"
  using assms unfolding in_order_def by blast+

lemma history_order: "history_ok h js \<Longrightarrow> \<exists>m. sent_of k (since k h) = rev [0..<m]"
  unfolding history_ok_def by (drule spec [of _ k]) (auto simp: settled_def tracked_def split: option.splits)

lemma in_order_more:
  assumes "in_order h" and "\<And>k. Admitted k \<notin> set es" and "\<And>k. \<exists>m. sent_of k (since k (h @ es)) = rev [0..<m]"
  shows "in_order (h @ es)"
  unfolding in_order_def
proof (intro allI impI)
  fix g fs k
  assume "h @ es = g @ fs"
  then consider us where "h = g @ us" "fs = us @ es" | us where "g = h @ us" "es = us @ fs"
    by (auto simp: append_eq_append_conv2)
  then show "(\<exists>m. sent_of k (since k g) = rev [0..<m]) \<and>
     (\<forall>r. fs = Admitted k # r \<longrightarrow> Admitted k \<in> set g \<longrightarrow> Retired k \<in> set (since k g))"
  proof cases
    case 1
    have "Retired k \<in> set (since k g)" if at: "fs = Admitted k # r" "Admitted k \<in> set g" for r
    proof (cases us)
      case Nil
      with at(1) 1 assms(2) [of k] show ?thesis
        by simp
    next
      case (Cons e us')
      with at(1) 1 have us: "us = Admitted k # us'"
        by simp
      have "in_order (g @ us)"
        using assms(1) 1 by simp
      from in_orderD(2) [OF this us at(2)] show ?thesis .
    qed
    with in_orderD(1) [of g us k] assms(1) 1 show ?thesis
      by blast
  next
    case 2
    obtain m where m: "rev (sent_of k (since k (h @ es))) = [0..<m]"
      using assms(3) [of k] by auto
    have "Admitted k \<notin> set us"
      using assms(2) [of k] 2 by simp
    then have "[0..<m] = rev (sent_of k (since k g)) @ sent_of k fs"
      using m assms(2) [of k] by (simp add: since_more 2)
    then have "rev (sent_of k (since k g)) = take (length (sent_of k (since k g))) [0..<m]"
      by simp
    then have "sent_of k (since k g) = rev (take (length (sent_of k (since k g))) [0..<m])"
      by (metis rev_rev_ident)
    moreover have "fs \<noteq> Admitted k # r" for r
      using assms(2) [of k] 2 by auto
    moreover have "\<exists>m'. take l [0..<m] = [0..<m']" for l
      by (cases "l \<le> m") (auto simp: take_upt intro: exI [of _ m])
    ultimately show ?thesis
      by metis
  qed
qed

lemma in_order_admitted:
  assumes "in_order h" and "settled j h"
  shows "in_order (h @ [Admitted j])"
  unfolding in_order_def
proof (intro allI impI)
  fix g fs k
  assume "h @ [Admitted j] = g @ fs"
  then consider "g = h @ [Admitted j]" "fs = []" | us where "h = g @ us" "fs = us @ [Admitted j]"
    by (metis append_Nil2 append_butlast_last_id butlast_append last_append last_snoc butlast_snoc)
  then show "(\<exists>m. sent_of k (since k g) = rev [0..<m]) \<and>
     (\<forall>r. fs = Admitted k # r \<longrightarrow> Admitted k \<in> set g \<longrightarrow> Retired k \<in> set (since k g))"
  proof cases
    case 1
    then show ?thesis
      using in_orderD(1) [of h "[]" k] assms(1) by (auto simp: since_admitted intro: exI [of _ 0])
  next
    case 2
    have "Retired k \<in> set (since k g)" if at: "fs = Admitted k # r" "Admitted k \<in> set g" for r
    proof (cases us)
      case Nil
      with at 2 assms(2) show ?thesis
        by (simp add: settled_def)
    next
      case (Cons e us')
      with at(1) 2 have us: "us = Admitted k # us'"
        by simp
      have "in_order (g @ us)"
        using assms(1) 2 by simp
      from in_orderD(2) [OF this us at(2)] show ?thesis .
    qed
    with in_orderD(1) [of g us k] assms(1) 2 show ?thesis
      by blast
  qed
qed

lemma history_sends:
  assumes "history_ok h js" and "jobs_send js js'" and "\<And>k. Admitted k \<notin> set es" and "\<And>k n. received_of k n es = []"
    and "\<And>k. sent_of k es = [cursor_of js k..<cursor_of js' k]"
  shows "history_ok (h @ es) js'"
  unfolding history_ok_def
proof
  fix k
  have old: "case map_of js k of None \<Rightarrow> settled k h | Some p \<Rightarrow> tracked k (since k h) p"
    using assms(1) by (simp add: history_ok_def)
  have sends: "rel_option only_sends (map_of js k) (map_of js' k)"
    using assms(2) by (simp add: jobs_send_def)
  show "case map_of js' k of None \<Rightarrow> settled k (h @ es) | Some p \<Rightarrow> tracked k (since k (h @ es)) p"
  proof (cases "map_of js k")
    case None
    with old sends assms(3,5) [of k] show ?thesis
      by (auto simp: settled_def since_more cursor_of_def)
  next
    case (Some p)
    with sends obtain q where q: "map_of js' k = Some q" "only_sends p q"
      by (cases "map_of js' k") auto
    with Some old have t: "sent_of k (since k h) = rev [0..<pg_cursor p]"
        "\<And>n. n \<in> pg_inflight p \<or> pg_cursor p \<le> n \<Longrightarrow> received_of k n (since k h) = []"
        "\<And>n x. (n, x) \<in> set (pg_outcomes p) \<Longrightarrow> received_of k n (since k h) = [Sampled k n x]"
      by (auto simp: tracked_def)
    have c: "pg_cursor p \<le> pg_cursor q" "pg_outcomes q = pg_outcomes p"
        "\<And>n. n \<in> pg_inflight q \<Longrightarrow> n \<in> pg_inflight p \<or> pg_cursor p \<le> n"
      using q(2) by (auto simp: only_sends_def)
    have "[0..<pg_cursor p] @ [pg_cursor p..<pg_cursor q] = [0..<pg_cursor q]"
      using c(1) upt_add_eq_append [of 0 "pg_cursor p" "pg_cursor q - pg_cursor p"] by simp
    then have "rev [pg_cursor p..<pg_cursor q] @ rev [0..<pg_cursor p] = rev [0..<pg_cursor q]"
      by (metis rev_append)
    then have "sent_of k (since k (h @ es)) = rev [0..<pg_cursor q]"
      using Some q(1) t(1) assms(3,5) [of k] by (simp add: since_more cursor_of_def)
    moreover have "received_of k n (since k (h @ es)) = received_of k n (since k h)" for n
      using assms(3,4) [of k] by (simp add: since_more)
    moreover have "received_of k n (since k h) = []" if "n \<in> pg_inflight q \<or> pg_cursor q \<le> n" for n
      using that t(2) [of n] c(1) c(3) [of n] by auto
    ultimately have "tracked k (since k (h @ es)) q"
      using t(3) c(2) by (auto simp: tracked_def)
    with q(1) show ?thesis
      by simp
  qed
qed

lemma history_same: "history_ok h js \<Longrightarrow> jobs_send js js' \<Longrightarrow> (\<And>k. cursor_of js' k \<le> cursor_of js k) \<Longrightarrow> history_ok h js'"
  using history_sends [of h js js' "[]"] by simp

lemma settle_result_calls:
  assumes "settle_result k n res p = (q, halt)"
  shows "pg_cursor q = pg_cursor p" and "pg_inflight q = pg_inflight p"
    and "pg_outcomes q = pg_outcomes p \<or> (\<exists>x. res = Sampled k n x \<and> pg_outcomes q = dict_set n x (pg_outcomes p))"
  using assms
  by (cases res; auto simp: settle_result_def fail_deadline_def fail_execution_def fail_request_def Let_def split: if_splits)+

lemma settle_job_calls:
  assumes "settle_job aggregate before after p = (q, halt)"
  shows "pg_cursor q = pg_cursor p" and "pg_inflight q = pg_inflight p" and "pg_outcomes q = pg_outcomes p"
  using assms by (auto simp: settle_job_def fail_deadline_def split: if_splits sum.splits)

lemma complete_one_tracked:
  assumes "sched_ok aggregate S" and "cm_call c \<in> set (sc_active S)" and "history_ok h (sc_jobs S)"
  shows "history_ok (h @ [newly_received c]) (sc_jobs (complete_one aggregate c S))"
proof -
  obtain slot k n where c: "cm_call c = (slot, k, n)"
    by (cases "cm_call c")
  have "calls_ok (sc_active S) (sc_jobs S)"
    using assms(1) by (simp add: sched_ok_def)
  with assms(2) c obtain p where p: "map_of (sc_jobs S) k = Some p" "n \<in> pg_inflight p"
    unfolding calls_ok_def by fastforce
  have "outcomes_ok p"
    using assms(1) p(1) by (auto simp: sched_ok_def jobs_ok_def job_ok_def)
  with p(2) have fresh: "n \<notin> fst ` set (pg_outcomes p)"
    by (auto simp: outcomes_ok_def)
  obtain p1 h1 where p1: "settle_result k n (cm_result c) (p\<lparr>pg_inflight := pg_inflight p - {n}\<rparr>) = (p1, h1)"
    by force
  obtain p2 h2 where p2: "settle_job aggregate (cm_before c) (cm_after c) p1 = (p2, h2)"
    by force
  have jobs: "sc_jobs (complete_one aggregate c S) = dict_set k p2 (sc_jobs S)"
    using p(1) p1 p2 by (simp add: complete_one_def c)
  have old: "tracked k (since k h) p"
    using assms(3) p(1) unfolding history_ok_def by (metis option.simps(5))
  have ev: "newly_received c = Received k n (cm_result c)"
    by (simp add: newly_received_def c)
  have more: "since j (h @ [newly_received c]) = Received k n (cm_result c) # since j h" for j
    using since_more [of j "[newly_received c]" h] by (simp add: newly_received_def c)
  have cur: "pg_cursor p2 = pg_cursor p" "pg_inflight p2 = pg_inflight p - {n}"
    using settle_result_calls(1,2) [OF p1] settle_job_calls(1,2) [OF p2] by simp_all
  have res: "(m, x) \<in> set (pg_outcomes p) \<or> m = n \<and> cm_result c = Sampled k n x" if "(m, x) \<in> set (pg_outcomes p2)" for m x
    using that settle_result_calls(3) [OF p1] settle_job_calls(3) [OF p2] fresh by (auto simp: dict_set_fresh)
  have t: "sent_of k (since k h) = rev [0..<pg_cursor p]"
      "\<And>m. m \<in> pg_inflight p \<or> pg_cursor p \<le> m \<Longrightarrow> received_of k m (since k h) = []"
      "\<And>m x. (m, x) \<in> set (pg_outcomes p) \<Longrightarrow> received_of k m (since k h) = [Sampled k m x]"
    using old by (auto simp: tracked_def)
  have got: "received_of k m (since k (h @ [newly_received c]))
      = (if m = n then [cm_result c] else received_of k m (since k h))" for m
    using t(2) [of n] p(2) by (simp add: more)
  have none: "received_of k m (since k (h @ [newly_received c])) = []" if "m \<in> pg_inflight p - {n} \<or> pg_cursor p \<le> m" for m
  proof -
    have "job_ok aggregate (sc_per_job S) k p"
      using assms(1) p(1) by (simp add: sched_ok_def jobs_ok_def)
    then have "n < pg_cursor p"
      using p(2) by (auto simp: job_ok_def)
    with that t(2) [of m] show ?thesis
      by (auto simp: got)
  qed
  have "received_of k m (since k (h @ [newly_received c])) = [Sampled k m x]" if "(m, x) \<in> set (pg_outcomes p2)" for m x
    using res [OF that] t(3) [of m x] fresh by (auto simp: got rev_image_eqI)
  with t(1) none have "tracked k (since k (h @ [newly_received c])) p2"
    by (simp add: tracked_def cur case_prod_beta more)
  moreover have "case map_of (sc_jobs S) j of None \<Rightarrow> settled j (h @ [newly_received c]) | Some p \<Rightarrow> tracked j (since j (h @ [newly_received c])) p"
    if "j \<noteq> k" for j
  proof -
    have "case map_of (sc_jobs S) j of None \<Rightarrow> settled j h | Some p \<Rightarrow> tracked j (since j h) p"
      using assms(3) by (simp add: history_ok_def)
    with that show ?thesis
      by (auto simp: more [unfolded ev] tracked_def settled_def ev split: option.splits)
  qed
  ultimately show ?thesis
    unfolding history_ok_def jobs by auto
qed

lemma complete_all_tracked:
  "sched_ok aggregate S \<Longrightarrow> mset (map cm_call cs) \<subseteq># mset (sc_active S) \<Longrightarrow> history_ok h (sc_jobs S)
    \<Longrightarrow> history_ok (h @ map newly_received cs) (sc_jobs (fold (complete_one aggregate) cs S))"
proof (induction cs arbitrary: S h)
  case (Cons c cs)
  then have c: "cm_call c \<in> set (sc_active S)"
    using mset_subset_eqD [OF Cons.prems(2), of "cm_call c"] by simp
  have "mset (map cm_call cs) \<subseteq># mset (sc_active (complete_one aggregate c S))"
    using Cons.prems(2) c by (simp add: complete_one_ok(2) [OF Cons.prems(1) c] insert_subset_eq_iff)
  from Cons.IH [OF complete_one_ok(1) [OF Cons.prems(1) c] this complete_one_tracked [OF Cons.prems(1) c Cons.prems(3)]]
  show ?case
    by simp
qed simp

lemma on_jobs_cursor: "(\<And>k p. pg_cursor (f k p) = pg_cursor p) \<Longrightarrow> cursor_of (sc_jobs (on_jobs f S)) k = cursor_of (sc_jobs S) k"
  by (simp add: on_jobs_def cursor_of_def map_of_on_jobs split: option.splits)

lemma add_job_tracked:
  assumes "add_job d v j S = Inr S'" and "history_ok h (sc_jobs S)"
  shows "history_ok (h @ [Admitted (pj_submission j)]) (sc_jobs S')" and "settled (pj_submission j) h"
proof -
  let ?j = "pj_submission j"
  have new: "map_of (sc_jobs S) ?j = None" and jobs: "sc_jobs S' = dict_set ?j (new_progress j) (sc_jobs S)"
    using assms(1) by (auto simp: add_job_def rbind_Inr_iff map_of_eq_None_iff)
  have at: "case map_of (sc_jobs S) k of None \<Rightarrow> settled k h | Some p \<Rightarrow> tracked k (since k h) p" for k
    using assms(2) by (simp add: history_ok_def)
  from at [of ?j] new show "settled ?j h"
    by simp
  have "tracked ?j [] (new_progress j)"
    by (simp add: tracked_def new_progress_def)
  moreover have "case map_of (sc_jobs S) k of None \<Rightarrow> settled k (h @ [Admitted ?j]) | Some p \<Rightarrow> tracked k (since k (h @ [Admitted ?j])) p"
    if "k \<noteq> ?j" for k
    using at [of k] that by (auto simp: settled_def tracked_def since_admitted split: option.splits)
  ultimately show "history_ok (h @ [Admitted ?j]) (sc_jobs S')"
    unfolding history_ok_def jobs by (auto simp: since_admitted)
qed

lemma notify_tracked:
  assumes "history_ok h (sc_jobs S)" and "S' = notify_phase retain failing S"
  shows "history_ok (h @ newly_retired S S') (sc_jobs S')"
proof -
  let ?f = "\<lambda>(_::pystr) p. if terminal_job p then p\<lparr>pg_notified := True\<rparr> else p"
  let ?P = "\<lambda>k. retain \<or> k \<notin> set (published_keys failing S)"
  have jobs: "sc_jobs S' = filter (\<lambda>(k, _). ?P k) (sc_jobs (on_jobs ?f S))"
    by (auto simp: assms(2) notify_phase_def Let_def split: option.splits)
  have at: "map_of (sc_jobs S') k = (if ?P k then map_option (?f k) (map_of (sc_jobs S) k) else None)" for k
    unfolding jobs map_of_filter_keys by (simp add: on_jobs_def map_of_on_jobs)
  have gone: "Retired k \<in> set (newly_retired S S') \<longleftrightarrow> map_of (sc_jobs S) k \<noteq> None \<and> map_of (sc_jobs S') k = None" for k
    by (auto simp: newly_retired_def map_of_eq_None_iff image_iff)
  have more: "since k (h @ newly_retired S S') = rev (newly_retired S S') @ since k h" for k
    by (rule since_more) (auto simp: newly_retired_def)
  have none: "sent_of k (newly_retired S S') = []" "received_of k n (newly_retired S S') = []" for k n
    by (simp_all add: newly_retired_def)
  show ?thesis
    unfolding history_ok_def
  proof
    fix k
    have old: "case map_of (sc_jobs S) k of None \<Rightarrow> settled k h | Some p \<Rightarrow> tracked k (since k h) p"
      using assms(1) by (simp add: history_ok_def)
    have adm: "Admitted k \<notin> set (newly_retired S S')"
      by (auto simp: newly_retired_def)
    show "case map_of (sc_jobs S') k of None \<Rightarrow> settled k (h @ newly_retired S S')
        | Some p \<Rightarrow> tracked k (since k (h @ newly_retired S S')) p"
    proof (cases "map_of (sc_jobs S) k")
      case None
      with old adm show ?thesis
        by (auto simp: at settled_def more none)
    next
      case (Some p)
      with old have t: "tracked k (since k h) p"
        by simp
      show ?thesis
      proof (cases "?P k")
        case True
        with Some t show ?thesis
          by (simp add: at tracked_def more none)
      next
        case False
        then have "map_of (sc_jobs S') k = None"
          by (simp add: at)
        with Some t gone [of k] show ?thesis
          by (auto simp: settled_def more none tracked_def)
      qed
    qed
  qed
qed

lemma session_tracked:
  assumes "scheduler_session aggregate h S"
  shows "history_ok h (sc_jobs S) \<and> in_order h"
  using assms
proof (induction rule: scheduler_session.induct)
  case (opened slots capacity inflight max_jobs per_job history S)
  then have "sc_jobs S = []"
    by (auto simp: SampleScheduler_def rbind_Inr_iff Let_def)
  then show ?case
    by (simp add: history_ok_def settled_def in_order_def since_def)
next
  case (admitted h S d v j S')
  then show ?case
    using add_job_tracked [OF admitted.hyps(2)] in_order_admitted by blast
next
  case (flagged h S S')
  have "jobs_send (sc_jobs S) (sc_jobs (close_session S))" "cursor_of (sc_jobs (close_session S)) k = cursor_of (sc_jobs S) k" for k
    using on_jobs_cursor [of "\<lambda>_. fail_blocked" "S\<lparr>sc_closed := True\<rparr>" k] on_jobs_send [of "\<lambda>_. fail_blocked" "S\<lparr>sc_closed := True\<rparr>"]
    by (simp_all add: close_session_def fail_blocked_def same_work_sends [OF fail_blocked_work [unfolded fail_blocked_def]])
  with flagged.hyps(2) have "jobs_send (sc_jobs S) (sc_jobs S')" "cursor_of (sc_jobs S') k \<le> cursor_of (sc_jobs S) k" for k
    by auto
  with flagged.IH history_same show ?case
    by blast
next
  case (sending h S S' d ready clock clocks)
  have adm: "Admitted k \<notin> set (newly_sent S S')" for k
    by (auto simp: newly_sent_def)
  have "history_ok (h @ newly_sent S S') (sc_jobs S')"
    using sending.IH adm by (intro history_sends) (auto simp: dispatch_phase_sends [OF sending.hyps(2)])
  with in_order_more [OF _ adm history_order [OF this]] sending.IH show ?case
    by blast
next
  case (receiving h S cs)
  have ok: "sched_ok aggregate S"
    by (rule scheduler_reachable_ok [OF session_reachable [OF receiving.hyps(1)]])
  let ?T = "fold (complete_one aggregate) cs S"
  have "history_ok (h @ map newly_received cs) (sc_jobs ?T)"
    using complete_all_tracked [OF ok receiving.hyps(2)] receiving.IH by blast
  then have "history_ok (h @ map newly_received cs) (sc_jobs (complete_phase aggregate cs S))"
    unfolding complete_phase_def
    by (rule history_same [OF _ block_all_send]) (simp add: block_all_def on_jobs_cursor fail_blocked_def)
  moreover have "Admitted k \<notin> set (map newly_received cs)" for k
    by (auto simp: newly_received_def split: prod.splits)
  ultimately show ?case
    using in_order_more [OF conjunct2 [OF receiving.IH] _ history_order] by simp
next
  case (publishing h S S' retain failing)
  have "history_ok (h @ newly_retired S S') (sc_jobs S')"
    using notify_tracked [OF _ publishing.hyps(2)] publishing.IH by blast
  moreover have "Admitted k \<notin> set (newly_retired S S')" for k
    by (auto simp: newly_retired_def)
  ultimately show ?case
    using in_order_more [OF conjunct2 [OF publishing.IH] _ history_order] by simp
qed

text \<open>C21. A job of a session has a result only when every sample of its manifest has one bound outcome: it then has no error and
  no call in flight, and the result is the aggregate of outcomes in manifest order, each of which is the one result that a call sent
  for this job and this position since the job's admission has returned.\<close>
theorem scheduled_result_is_complete:
  assumes "scheduler_session aggregate h S" and "map_of (sc_jobs S) k = Some p" and "pg_aggregate p = Some a"
  shows "pg_error p = None \<and> pg_inflight p = {} \<and>
    (\<exists>xs. aggregate (pj_artifacts (pg_job p)) xs = Inr a \<and>
      map so_sample_id xs = map (\<lambda>s. ms_sample_id (ps_manifest s)) (pj_samples (pg_job p)) \<and>
      (\<forall>n < length xs. received_of k n (since k h) = [Sampled k n (xs ! n)]))"
proof -
  note result = result_outcomes [OF session_reachable [OF assms(1)] assms(2,3) refl]
  have "tracked k (since k h) p"
    using session_tracked [OF assms(1)] assms(2) unfolding history_ok_def by (metis option.simps(5))
  then have "received_of k n (since k h) = [Sampled k n x]" if "(n, x) \<in> set (pg_outcomes p)" for n x
    using that by (auto simp: tracked_def)
  with result show ?thesis
    by blast
qed

text \<open>C22. Over a whole session, whatever calls complete, fail or time out in whatever order, the samples of a job that are sent
  between its admission and the next admission of its submission are the first of its manifest, in order and each once; and the
  submission is admitted again only after its job was removed by a publication.\<close>
theorem no_sample_sent_twice:
  assumes "scheduler_session aggregate h S" and "h = before @ Admitted k # during @ later" and "Admitted k \<notin> set during"
  shows "(\<exists>m. sent_of k during = [0..<m]) \<and> (later = Admitted k # rest \<longrightarrow> Retired k \<in> set during)"
proof -
  have "in_order ((before @ Admitted k # during) @ later)"
    using session_tracked [OF assms(1)] assms(2) by simp
  note order = in_orderD [OF this, of k, unfolded since_split [OF assms(3)]]
  from order(1) have "\<exists>m. sent_of k during = [0..<m]"
    by simp
  with order(2) show ?thesis
    by simp
qed

lemma timeout_halts_scheduler_facts:
  assumes "map_of (sc_jobs S) k = Some p" and "cm_call c = (slot, k, n)" and "cm_result c = Raised (Exc ProviderTimeoutError m) t"
  shows "sc_halted (complete_one aggregate c S)"
    and "map_option pg_failure_code (map_of (sc_jobs (complete_one aggregate c S)) k) = Some (Some ''RUNTIME_MISCONFIGURATION'')"
  using assms
  by (auto simp: complete_one_def settle_result_def settle_job_def fail_execution_def catches_def)

text \<open>C40. A provider timeout is not a \<open>ProviderRequestError\<close>: it falls through to the last clause, halts the scheduler and is
  reported as a misconfigured runtime.\<close>
theorem timeout_halts_scheduler:
  assumes "map_of (sc_jobs S) k = Some p" and "cm_call c = (slot, k, n)" and "cm_result c = Raised (Exc ProviderTimeoutError m) t"
  shows "sc_halted (complete_one aggregate c S) \<and>
    map_option pg_failure_code (map_of (sc_jobs (complete_one aggregate c S)) k) = Some (Some ''RUNTIME_MISCONFIGURATION'')"
  using timeout_halts_scheduler_facts [OF assms] by blast

section \<open>Examples\<close>

definition demo_part :: prepared_sample where
  "demo_part = hd demo_prepared"

definition demo_job :: prepared_job where
  "demo_job = \<lparr>pj_submission = u ''j'', pj_owner = u ''w'', pj_challenge = u ''c'', pj_artifacts = demo_artifacts,
     pj_samples = [demo_part], pj_requests = [], pj_deadline = 1000000\<rparr>"

definition demo_total :: aggregate_result where
  "demo_total = \<lparr>ar_challenge_id = u ''c'', ar_task = XPOS, ar_scorer_version = [], ar_aggregation_version = [],
     ar_dataset_sha256 = [], ar_selection_sha256 = [], ar_samples_total = 1, ar_samples_valid = 0, ar_samples_invalid = 1,
     ar_primary_metric = [], ar_score = 0, ar_metrics = [], ar_errors = []\<rparr>"

definition demo_agg :: "challenge_artifacts \<Rightarrow> sample_outcome list \<Rightarrow> aggregate_result result" where
  "demo_agg a xs = Inr demo_total"

definition demo_sched :: "jobs \<Rightarrow> pystr option \<Rightarrow> (pystr \<times> nat) list \<Rightarrow> nat list \<Rightarrow> (nat \<times> pystr \<times> nat) list \<Rightarrow> scheduler" where
  "demo_sched js l d free active = \<lparr>sc_slots = 1, sc_max_jobs = 1, sc_per_job = 1, sc_history_limit = 8, sc_jobs = js, sc_last = l,
     sc_closed = False, sc_halted = False, sc_accepting = True, sc_stop = False, sc_dispatches = d, sc_free = free, sc_active = active\<rparr>"

definition demo_waiting :: scheduler where
  "demo_waiting = demo_sched [(u ''j'', new_progress demo_job)] None [] [0] []"

definition demo_sent :: scheduler where
  "demo_sent = demo_sched [(u ''j'', take_sample (new_progress demo_job))] (Some (u ''j'')) [(u ''j'', 1)] [] [(0, u ''j'', 0)]"

definition demo_completion :: completion where
  "demo_completion = \<lparr>cm_call = (0, u ''j'', 0), cm_result = Sampled (u ''j'') 0 (hd demo_outcomes), cm_before = 0, cm_after = 0\<rparr>"

definition demo_graded :: scheduler where
  "demo_graded = complete_phase demo_agg [demo_completion] demo_sent"

lemma demo_in_time: "require_remaining 1000000 0 = Inr 1"
  by (simp add: require_remaining_def remaining_seconds_def Let_def)

lemma demo_part_id: "ms_sample_id (ps_manifest demo_part) = u ''s1''"
  by (simp add: demo_part_def demo_prepared_def)

lemma demo_opened: "SampleScheduler 1 1 1 1 None 8 = Inr (demo_sched [] None [] [0] [])"
  by (simp add: SampleScheduler_def demo_sched_def Let_def)

lemma demo_added: "add_job (Inr ()) (Inr ()) demo_job (demo_sched [] None [] [0] []) = Inr demo_waiting"
  by (simp add: add_job_def demo_sched_def demo_waiting_def refuses_def demo_job_def)

lemma demo_eligible: "eligible (\<lambda>_. 0) demo_waiting (u ''j'') (new_progress demo_job)"
  by (simp add: eligible_def demo_waiting_def demo_sched_def can_dispatch_def past_deadline_def new_progress_def demo_job_def demo_in_time)

lemma demo_next: "next_sample (\<lambda>_. 0) demo_waiting = (Some (u ''j'', 0), demo_sched [(u ''j'', take_sample (new_progress demo_job))]
    (Some (u ''j'')) [(u ''j'', 1)] [0] [])"
  using demo_eligible
  by (simp add: next_sample_def eligible_def demo_waiting_def demo_sched_def rotate_after_def first_min_def last_n_def)
     (simp add: new_progress_def)

lemma demo_dispatched: "dispatch_phase (Inr ()) (Inr True) (\<lambda>_. 0) (\<lambda>_ _. 0) demo_waiting = demo_sent"
proof -
  have "expire_job (\<lambda>_. 0) k (new_progress demo_job) = new_progress demo_job" for k
    by (simp add: expire_job_def past_deadline_def new_progress_def demo_job_def demo_in_time)
  then have "on_jobs (expire_job (\<lambda>_. 0)) (dispatch_gate (Inr ()) (Inr True) demo_waiting) = demo_waiting"
    by (simp add: dispatch_gate_def demo_waiting_def demo_sched_def on_jobs_def Let_def)
  moreover have "sc_free demo_waiting = [0]" "\<not> sc_halted demo_waiting"
    by (simp_all add: demo_waiting_def demo_sched_def)
  ultimately show ?thesis
    by (simp add: dispatch_phase_def Let_def demo_next block_all_def) (simp add: demo_sched_def demo_sent_def)
qed

lemma demo_session:
  "scheduler_session demo_agg [Admitted (u ''j'')] demo_waiting"
  "scheduler_session demo_agg [Admitted (u ''j''), Sent (u ''j'') 0] demo_sent"
  "scheduler_session demo_agg [Admitted (u ''j''), Sent (u ''j'') 0, Received (u ''j'') 0 (cm_result demo_completion)] demo_graded"
proof -
  have "pj_submission demo_job = u ''j''"
    by (simp add: demo_job_def)
  then show w: "scheduler_session demo_agg [Admitted (u ''j'')] demo_waiting"
    using scheduler_session.admitted [OF scheduler_session.opened [OF demo_opened] demo_added] by simp
  have "newly_sent demo_waiting demo_sent = [Sent (u ''j'') 0]"
    by (simp add: newly_sent_def demo_waiting_def demo_sent_def demo_sched_def)
  then show s: "scheduler_session demo_agg [Admitted (u ''j''), Sent (u ''j'') 0] demo_sent"
    using scheduler_session.sending [OF w demo_dispatched [symmetric]] by simp
  have "mset (map cm_call [demo_completion]) \<subseteq># mset (sc_active demo_sent)"
    by (simp add: demo_completion_def demo_sent_def demo_sched_def)
  from scheduler_session.receiving [OF s this]
  show "scheduler_session demo_agg [Admitted (u ''j''), Sent (u ''j'') 0, Received (u ''j'') 0 (cm_result demo_completion)] demo_graded"
    by (simp add: demo_graded_def newly_received_def) (simp add: demo_completion_def)
qed

definition demo_final :: progress where
  "demo_final = (take_sample (new_progress demo_job))\<lparr>pg_inflight := {}, pg_outcomes := [(0, hd demo_outcomes)], pg_aggregate := Some demo_total\<rparr>"

lemma demo_graded_job: "map_of (sc_jobs demo_graded) (u ''j'') = Some demo_final"
proof -
  have job: "pg_inflight (take_sample (new_progress demo_job)) = {0}" "pg_job (take_sample (new_progress demo_job)) = demo_job"
      "pg_outcomes (take_sample (new_progress demo_job)) = []" "pg_error (take_sample (new_progress demo_job)) = None"
    by (simp_all add: take_sample_def new_progress_def)
  show ?thesis
    by (simp add: demo_graded_def complete_phase_def complete_one_def demo_completion_def demo_sent_def demo_sched_def
        settle_result_def settle_job_def sample_id_at_def job demo_final_def block_all_def)
      (simp add: demo_job_def demo_part_id demo_outcomes_def demo_in_time demo_agg_def)
qed

theorem scheduled_result_is_complete_witness:
  "pg_error demo_final = None \<and> pg_inflight demo_final = {} \<and> (\<exists>xs. demo_agg demo_artifacts xs = Inr demo_total \<and> length xs = 1)"
proof -
  have final: "pg_aggregate demo_final = Some demo_total" "pg_job demo_final = demo_job"
    by (simp_all add: demo_final_def take_sample_def new_progress_def)
  have "length xs = 1" if "map so_sample_id xs = map (\<lambda>s. ms_sample_id (ps_manifest s)) (pj_samples demo_job)" for xs
    using arg_cong [OF that, of length] by (simp add: demo_job_def)
  moreover have "pj_artifacts demo_job = demo_artifacts"
    by (simp add: demo_job_def)
  ultimately show ?thesis
    using scheduled_result_is_complete [OF demo_session(3) demo_graded_job final(1)] unfolding final(2) by metis
qed

theorem scheduler_bounds_witness:
  "length (sc_jobs demo_sent) \<le> 1 \<and> card (pg_inflight (take_sample (new_progress demo_job))) \<le> 1"
proof -
  have "map_of (sc_jobs demo_sent) (u ''j'') = Some (take_sample (new_progress demo_job))" "sc_max_jobs demo_sent = 1" "sc_per_job demo_sent = 1"
    by (simp_all add: demo_sent_def demo_sched_def)
  with scheduler_bounds [OF session_reachable [OF demo_session(2)]] show ?thesis
    by metis
qed

theorem next_sample_is_fair_witness:
  "\<exists>p before after. eligible (\<lambda>_. 0) demo_waiting (u ''j'') p \<and> pg_cursor p = 0 \<and> [u ''j''] = before @ u ''j'' # after"
  using next_sample_is_fair [OF session_reachable [OF demo_session(1)] demo_next demo_eligible]
  by (simp add: demo_waiting_def demo_sched_def rotate_after_def) metis

theorem no_sample_sent_twice_witness: "\<exists>m. sent_of (u ''j'') [Sent (u ''j'') 0, Received (u ''j'') 0 (cm_result demo_completion)] = [0..<m]"
  by (rule conjunct1 [OF no_sample_sent_twice [OF demo_session(3), of "[]" _ _ "[]"]]) simp_all

definition demo_timeout :: completion where
  "demo_timeout = demo_completion\<lparr>cm_result := Raised (Exc ProviderTimeoutError ''timed out'') True\<rparr>"

theorem timeout_halts_scheduler_witness: "sc_halted (complete_one demo_agg demo_timeout demo_sent)"
proof (rule conjunct1 [OF timeout_halts_scheduler])
  show "map_of (sc_jobs demo_sent) (u ''j'') = Some (take_sample (new_progress demo_job))"
    by (simp add: demo_sent_def demo_sched_def)
qed (simp_all add: demo_timeout_def demo_completion_def)

end
