(* ===== verification/Postgres_Store.thy ===== *)
theory Postgres_Store
  imports Store_Views Request_Identity
begin

text \<open>
  The PostgreSQL store of \<open>src/linguistic_oj/postgres_submission_store.py\<close>, over the same tables.  Each method is one
  transaction; the row lock of \<open>FOR UPDATE\<close> and the advisory locks serialise those that read before they write, so a
  transaction is one function of the database.  The clock is the database's, read after the locks are taken.  The store
  differs from the SQLite one in how it claims and completes, and in two ways that the driver and the server bring: a \<open>TEXT\<close>
  parameter with a NUL character is refused, and text is compared in the collation of the database.
\<close>

section \<open>Parameters\<close>

text \<open>
  psycopg refuses a string parameter that contains a NUL character, before the query is sent.  \<open>pg_text\<close> lists the string
  parameters of a query that come from the caller; those that the code makes (hexadecimal digests and identifiers, timestamps,
  failure codes, JSON text) or that the database gave out contain none.  The prompt is a \<open>BYTEA\<close> column.
\<close>

definition pg_text :: "pystr list \<Rightarrow> 'a result \<Rightarrow> 'a result" where
  "pg_text ps query =
     (if list_ex (\<lambda>p. 0 \<in> set p) ps then raise DataError ''PostgreSQL text fields cannot contain NUL (0x00) bytes'' else query)"

section \<open>Users and admission\<close>

definition pg_register_user :: "database \<Rightarrow> pystr \<Rightarrow> pystr \<Rightarrow> pystr \<Rightarrow> bool \<Rightarrow> (user_record \<times> database) result" where
  "pg_register_user db fresh subject handle admin =
     (if subject = [] \<or> handle = [] \<or> 64 \<in> set handle
      then raise ValueError ''user subject and non-email public handle are required''
      else
        (let user = \<lparr>us_id = fresh, us_subject = subject, us_handle = handle, us_admin = admin\<rparr>
         in pg_text [subject, handle]
              (if list_ex (\<lambda>x. us_id x = fresh \<or> us_subject x = subject \<or> us_handle x = handle) (db_users db)
               then raise IntegrityError ''duplicate key value violates unique constraint''
               else Inr (user, db\<lparr>db_users := db_users db @ [user]\<rparr>))))"

definition pg_user_by_subject :: "database \<Rightarrow> pystr \<Rightarrow> user_record option result" where
  "pg_user_by_subject db subject = pg_text [subject] (Inr (find (\<lambda>r. us_subject r = subject) (db_users db)))"

definition pg_create_submission :: "(nat list \<Rightarrow> pystr) \<Rightarrow> database \<Rightarrow> int \<Rightarrow> pystr \<Rightarrow> user_record \<Rightarrow> pystr \<Rightarrow> pystr
    \<Rightarrow> evaluation_contract \<Rightarrow> pystr option \<Rightarrow> ((submission_row \<times> bool) \<times> database) result" where
  "pg_create_submission sha db now fresh user key prompt c fingerprint =
     rbind (utf8 prompt) (\<lambda>prompt_utf8.
     rbind (request_sha256 sha (ec_challenge_id c) (ec_contract_version c) prompt_utf8) (\<lambda>request_hash.
     pg_text [us_id user, key]
       (case filter (\<lambda>r. sr_user r = us_id user \<and> sr_key r = key) (db_submissions db) of
          existing # _ \<Rightarrow>
            if sr_request_sha256 existing \<noteq> request_hash
            then raise IdempotencyConflictError ''idempotency key was already used for different content''
            else Inr ((existing, True), db)
        | [] \<Rightarrow>
            pg_text [ec_challenge_id c] (rbind (assert_admissions_open db (ec_challenge_id c) fingerprint) (\<lambda>_.
            if ec_submissions_per_day c \<le> length (accepted_since db (us_id user) (ec_challenge_id c) (now - day))
            then raise SubmissionQuotaError ''SUBMISSION_RATE_LIMIT''
            else if ec_max_outstanding c \<le> length (outstanding_of db (us_id user))
            then raise SubmissionQuotaError ''OUTSTANDING_SUBMISSION_LIMIT''
            else if ec_global_queue_depth c \<le> length (filter outstanding (db_submissions db))
            then raise GlobalQueueFullError ''GLOBAL_QUEUE_FULL''
            else pg_text [ec_contract_version c, ec_identity_sha256 c, ec_snapshot_sha256 c, ec_snapshot_json c, ec_failure_version c]
              (if fresh \<in> sr_id ` set (db_submissions db) \<or> us_id user \<notin> us_id ` set (db_users db)
               then raise IntegrityError ''insert violates a constraint of submissions''
               else
              (let row = new_row c fresh (us_id user) key request_hash prompt (sha prompt_utf8) now
               in Inr ((row, False),
                    db\<lparr>db_submissions := db_submissions db @ [row],
                       db_outbox := db_outbox db @ [\<lparr>ob_submission = fresh, ob_created = now, ob_published = None\<rparr>]\<rparr>))))))))"

section \<open>Outbox\<close>

text \<open>The join of an outbox row with its submission, which is unique: an outbox row is listed when the condition holds.\<close>

definition pg_outbox_ids :: "(outbox_row \<Rightarrow> submission_row \<Rightarrow> bool) \<Rightarrow> database \<Rightarrow> pystr list" where
  "pg_outbox_ids P db =
     concat (map (\<lambda>o1. case row_of db (ob_submission o1) of
         Some r \<Rightarrow> if P o1 r then [ob_submission o1] else [] | None \<Rightarrow> []) (db_outbox db))"

definition pg_unpublished_submission_ids :: "database \<Rightarrow> pystr \<Rightarrow> pystr \<Rightarrow> pystr list result" where
  "pg_unpublished_submission_ids db identity snapshot =
     pg_text [identity, snapshot] (Inr (pg_outbox_ids (\<lambda>o1 r. ob_published o1 = None \<and> sr_identity r = identity \<and> sr_snapshot_sha256 r = snapshot \<and>
       sr_status r = QUEUED) db))"

definition pg_published_queued_submission_ids :: "database \<Rightarrow> pystr \<Rightarrow> pystr \<Rightarrow> pystr list result" where
  "pg_published_queued_submission_ids db identity snapshot =
     pg_text [identity, snapshot] (Inr (pg_outbox_ids (\<lambda>o1 r. ob_published o1 \<noteq> None \<and> sr_status r = QUEUED \<and> sr_identity r = identity \<and>
       sr_snapshot_sha256 r = snapshot) db))"

definition pg_mark_outbox_published :: "database \<Rightarrow> int \<Rightarrow> pystr \<Rightarrow> (unit \<times> database) result" where
  "pg_mark_outbox_published db now i =
     pg_text [i] (Inr ((), db\<lparr>db_outbox := map (\<lambda>o1. if ob_submission o1 = i \<and> ob_published o1 = None
                              then o1\<lparr>ob_published := Some now\<rparr> else o1) (db_outbox db)\<rparr>))"

section \<open>Claims\<close>

definition pg_claim_deadline_expired :: "int \<Rightarrow> claimed_submission \<Rightarrow> bool" where
  "pg_claim_deadline_expired now c \<longleftrightarrow> cl_deadline c \<le> now"

definition pg_outstanding_contract_hashes :: "database \<Rightarrow> pystr set" where
  "pg_outstanding_contract_hashes db = set (map sr_snapshot_sha256 (filter (\<lambda>r. sr_status r \<in> {QUEUED, RUNNING}) (db_submissions db)))"

definition pg_claim_is_current :: "database \<Rightarrow> int \<Rightarrow> claimed_submission \<Rightarrow> bool" where
  "pg_claim_is_current db now c \<longleftrightarrow>
     filter (\<lambda>r. sr_id r = cl_id c \<and> sr_user r = cl_user c \<and> sr_status r = RUNNING \<and> sr_attempt r = cl_attempt c \<and>
       sr_lease_token r = Some (cl_lease_token c) \<and> after (sr_lease_expires r) now \<and> now < sr_deadline r \<and>
       sr_identity r = cl_identity c \<and> sr_snapshot_sha256 r = cl_snapshot_sha256 c) (db_submissions db) \<noteq> []"

definition pg_expire_leases :: "database \<Rightarrow> int \<Rightarrow> pystr option \<Rightarrow> (nat \<times> database) result" where
  "pg_expire_leases db now identity =
     pg_text (case identity of None \<Rightarrow> [] | Some i \<Rightarrow> [i]) (let P = (\<lambda>r. sr_status r = RUNNING \<and> due (sr_lease_expires r) now \<and> for_identity identity r)
      in Inr (rowcount P db,
          update_rows P (\<lambda>r. r\<lparr>sr_status := FAILED, sr_completed := Some now, sr_lease_token := None,
            sr_lease_expires := None,
            sr_failure_code := Some (if sr_deadline r \<le> now then ''JOB_DEADLINE'' else ''WORKER_CRASH''),
            sr_failure_retryable := Some False\<rparr>) db))"

definition pg_expire_queued_deadlines :: "database \<Rightarrow> int \<Rightarrow> pystr option \<Rightarrow> (nat \<times> database) result" where
  "pg_expire_queued_deadlines db now identity =
     pg_text (case identity of None \<Rightarrow> [] | Some i \<Rightarrow> [i]) (let P = (\<lambda>r. sr_status r = QUEUED \<and> sr_deadline r \<le> now \<and> for_identity identity r)
      in Inr (rowcount P db,
          update_rows P (\<lambda>r. r\<lparr>sr_status := FAILED, sr_completed := Some now, sr_failure_code := Some ''JOB_DEADLINE'',
            sr_failure_retryable := Some False\<rparr>) db))"

text \<open>The clock is read once, after the row and the user are locked.\<close>

definition pg_claim_submission :: "database \<Rightarrow> int \<Rightarrow> pystr \<Rightarrow> pystr \<Rightarrow> pystr \<Rightarrow> pystr \<Rightarrow> int \<Rightarrow> nat \<Rightarrow> nat
    \<Rightarrow> (claim_attempt \<times> database) result" where
  "pg_claim_submission db now fresh i identity snapshot lease_seconds max_attempts max_running =
     pg_text [i] (Inr (case row_of db i of
        None \<Rightarrow> (no_claim False, db)
      | Some r \<Rightarrow>
          if sr_snapshot_sha256 r \<noteq> snapshot \<or> sr_identity r \<noteq> identity then (no_claim False, db)
          else if sr_status r = RUNNING then (no_claim True, db)
          else if sr_status r \<noteq> QUEUED \<or> max_attempts \<le> sr_attempt r then (no_claim False, db)
          else if sr_deadline r \<le> now then
            (no_claim False, update_rows (\<lambda>x. sr_id x = i \<and> sr_status x = QUEUED)
               (\<lambda>x. x\<lparr>sr_status := FAILED, sr_completed := Some now, sr_failure_code := Some ''JOB_DEADLINE'',
                  sr_failure_retryable := Some False\<rparr>) db)
          else if max_running \<le> rowcount (\<lambda>x. sr_user x = sr_user r \<and> sr_status x = RUNNING) db
          then (no_claim True, db)
          else
            (let attempt = sr_attempt r + 1;
                 expires = min (now + seconds lease_seconds) (sr_deadline r);
                 P = (\<lambda>x. sr_id x = i \<and> sr_status x = QUEUED \<and> sr_attempt x = sr_attempt r);
                 db' = update_rows P (\<lambda>x. x\<lparr>sr_status := RUNNING, sr_attempt := attempt,
                   sr_lease_token := Some fresh, sr_started := Some now, sr_lease_expires := Some expires\<rparr>) db
             in if rowcount P db \<noteq> 1 then (no_claim True, db')
                else
                  (\<lparr>ca_claim = Some \<lparr>cl_id = i, cl_user = sr_user r, cl_prompt = sr_prompt r,
                      cl_prompt_sha256 = sr_prompt_sha256 r, cl_snapshot_json = sr_snapshot_json r,
                      cl_snapshot_sha256 = sr_snapshot_sha256 r, cl_identity = sr_identity r,
                      cl_attempt = attempt, cl_lease_token = fresh, cl_deadline = sr_deadline r\<rparr>,
                    ca_retry_later = False\<rparr>, db'))))"
section \<open>Completion\<close>

text \<open>
  The row is selected and locked first; the lease is judged by its columns.  The result row takes the identity from the
  submission, not from the claim.
\<close>

definition pg_complete_success :: "database \<Rightarrow> int \<Rightarrow> claimed_submission \<Rightarrow> (pystr \<times> json) list
    \<Rightarrow> (bool \<times> database) result" where
  "pg_complete_success db now c report =
     (case find (held_by c) (db_submissions db) of
        None \<Rightarrow> Inr (False, db)
      | Some lease \<Rightarrow>
          if due (sr_lease_expires lease) now \<or> sr_deadline lease \<le> now then Inr (False, db)
          else
            (let db1 = update_rows (held_by c) (\<lambda>r. release (r\<lparr>sr_status := SUCCEEDED, sr_completed := Some now\<rparr>)) db
             in if rowcount (held_by c) db \<noteq> 1 then Inr (False, db1)
                else
                  rbind (result_number report ''score'') (\<lambda>score.
                  rbind (result_int report ''samples_total'') (\<lambda>total.
                  rbind (result_int report ''samples_valid'') (\<lambda>valid.
                  rbind (result_int report ''samples_invalid'') (\<lambda>bad.
                    if list_ex (\<lambda>row. rr_submission row = cl_id c) (db_results db)
                    then raise IntegrityError ''duplicate key value violates unique constraint''
                    else Inr (True, db1\<lparr>db_results := db_results db @
                      [\<lparr>rr_submission = cl_id c, rr_identity = sr_identity lease, rr_result = report,
                        rr_score = score, rr_samples_total = total, rr_samples_valid = valid,
                        rr_samples_invalid = bad, rr_succeeded = now\<rparr>]\<rparr>)))))))"

definition pg_retry_submission :: "database \<Rightarrow> int \<Rightarrow> claimed_submission \<Rightarrow> nat \<Rightarrow> bool \<times> database" where
  "pg_retry_submission db now c max_attempts =
     (case find (held_by c) (db_submissions db) of
        None \<Rightarrow> (False, db)
      | Some lease \<Rightarrow>
          if max_attempts \<le> sr_attempt lease \<or> sr_deadline lease \<le> now \<or> due (sr_lease_expires lease) now
          then (False, db)
          else (rowcount (held_by c) db = 1,
                update_rows (held_by c) (\<lambda>x. release (x\<lparr>sr_status := QUEUED, sr_started := None\<rparr>)) db))"

definition pg_complete_failure :: "database \<Rightarrow> int \<Rightarrow> claimed_submission \<Rightarrow> pystr \<Rightarrow> string \<Rightarrow> bool \<Rightarrow> bool \<times> database" where
  "pg_complete_failure db now c version fcode retryable =
     (case find (held_by c) (db_submissions db) of
        None \<Rightarrow> (False, db)
      | Some lease \<Rightarrow>
          if sr_failure_version lease \<noteq> Some version then (False, db)
          else if due (sr_lease_expires lease) now \<and> now < sr_deadline lease then (False, db)
          else
            (let (fcode', retryable') = (if sr_deadline lease \<le> now then (''JOB_DEADLINE'', False) else (fcode, retryable))
             in (rowcount (held_by c) db = 1,
                 update_rows (held_by c) (\<lambda>x. release (x\<lparr>sr_status := FAILED, sr_completed := Some now,
                   sr_failure_version := Some version, sr_failure_code := Some fcode',
                   sr_failure_retryable := Some retryable'\<rparr>)) db)))"

definition pg_complete_rejected :: "database \<Rightarrow> int \<Rightarrow> claimed_submission \<Rightarrow> bool \<times> database" where
  "pg_complete_rejected db now c =
     (case find (held_by c) (db_submissions db) of
        None \<Rightarrow> (False, db)
      | Some lease \<Rightarrow>
          if due (sr_lease_expires lease) now \<and> now < sr_deadline lease then (False, db)
          else
            (let (status, fcode) = (if sr_deadline lease \<le> now then (FAILED, ''JOB_DEADLINE'')
                                    else (REJECTED, ''TOKEN_LIMIT_EXCEEDED''))
             in (rowcount (held_by c) db = 1,
                 update_rows (held_by c) (\<lambda>x. release (x\<lparr>sr_status := status, sr_completed := Some now,
                   sr_failure_code := Some fcode, sr_failure_retryable := Some False\<rparr>)) db)))"

section \<open>Owner views and leaderboard\<close>

definition pg_submission_for_owner :: "database \<Rightarrow> pystr \<Rightarrow> pystr \<Rightarrow> submission_row option result" where
  "pg_submission_for_owner db i user =
     pg_text [i, user] (Inr (find (\<lambda>r. sr_id r = i \<and> sr_user r = user) (db_submissions db)))"

definition pg_submissions_for_owner :: "database \<Rightarrow> pystr \<Rightarrow> int \<Rightarrow> int option \<Rightarrow> pystr option
    \<Rightarrow> submission_row list result" where
  "pg_submissions_for_owner db user limit before_created before_id =
     (if limit \<le> 0 then raise ValueError ''limit must be positive''
      else
        (case (before_created, before_id) of
           (None, None) \<Rightarrow>
             pg_text [user] (Inr (take (nat limit) (newest_first (filter (\<lambda>r. sr_user r = user) (db_submissions db)))))
         | (Some t, Some i) \<Rightarrow>
             pg_text [user, i] (Inr (take (nat limit) (newest_first (filter (\<lambda>r. sr_user r = user \<and>
               (sr_created r < t \<or> sr_created r = t \<and> sr_id r < i)) (db_submissions db)))))
         | _ \<Rightarrow> raise ValueError ''history cursor fields must be provided together''))"

definition pg_owner_prompt :: "database \<Rightarrow> pystr \<Rightarrow> pystr \<Rightarrow> pystr option result" where
  "pg_owner_prompt db i user = pg_text [i, user] (Inr
     (case find (\<lambda>r. sr_id r = i \<and> sr_user r = user) (db_submissions db) of None \<Rightarrow> None | Some r \<Rightarrow> Some (sr_prompt r)))"

definition pg_owner_result :: "database \<Rightarrow> pystr \<Rightarrow> pystr
    \<Rightarrow> (submission_status \<times> (pystr \<times> json) list option \<times> (pystr option \<times> string \<times> bool) option) option result" where
  "pg_owner_result db i user = pg_text [i, user] (Inr
     (case find (\<lambda>r. sr_id r = i \<and> sr_user r = user) (db_submissions db) of
        None \<Rightarrow> None
      | Some r \<Rightarrow>
          Some (sr_status r,
            (case find (\<lambda>x. rr_submission x = sr_id r) (db_results db) of None \<Rightarrow> None | Some x \<Rightarrow> Some (rr_result x)),
            (case sr_failure_code r of None \<Rightarrow> None
             | Some fc \<Rightarrow> Some (sr_failure_version r, fc, sr_failure_retryable r = Some True)))))"

text \<open>
  The leaderboard breaks ties by \<open>public_handle\<close>, which PostgreSQL compares in the collation of the database: \<open>collate\<close>
  is its sort key.  Identifiers and timestamps are fixed-width ASCII, ordered alike by every collation.
\<close>

definition pg_leaderboard :: "(pystr \<Rightarrow> 'k::linorder) \<Rightarrow> database \<Rightarrow> pystr \<Rightarrow> int \<Rightarrow> int \<Rightarrow> int \<Rightarrow> (nat \<times> candidate) list result" where
  "pg_leaderboard collate db identity limit as_of after_rank =
     (if limit \<le> 0 \<or> after_rank < 0 then raise ValueError ''leaderboard pagination values are invalid''
      else
        pg_text [identity] (let cs = candidates db identity as_of;
             best = filter (best_of_user cs) cs;
             ranking = enumerate 1 (sort_key (\<lambda>c. (- rr_score (cd_result c), rr_succeeded (cd_result c), collate (cd_handle c))) best)
         in Inr (take (nat limit) (filter (\<lambda>(rank, _). after_rank < int rank) ranking))))"

section \<open>The two stores\<close>

text \<open>\<open>SubmissionStoreProtocol\<close>: what the API and the workers call, with the clock readings and fresh identifiers of a call.\<close>

record store_ops =
  st_register :: "database \<Rightarrow> pystr \<Rightarrow> pystr \<Rightarrow> pystr \<Rightarrow> bool \<Rightarrow> (user_record \<times> database) result"
  st_create :: "database \<Rightarrow> int \<Rightarrow> pystr \<Rightarrow> user_record \<Rightarrow> pystr \<Rightarrow> pystr \<Rightarrow> evaluation_contract \<Rightarrow> pystr option
    \<Rightarrow> ((submission_row \<times> bool) \<times> database) result"
  st_publish :: "database \<Rightarrow> int \<Rightarrow> pystr \<Rightarrow> (unit \<times> database) result"
  st_claim :: "database \<Rightarrow> int \<Rightarrow> pystr \<Rightarrow> pystr \<Rightarrow> pystr \<Rightarrow> pystr \<Rightarrow> int \<Rightarrow> nat \<Rightarrow> nat
    \<Rightarrow> (claim_attempt \<times> database) result"
  st_expire_leases :: "database \<Rightarrow> int \<Rightarrow> pystr option \<Rightarrow> (nat \<times> database) result"
  st_expire_queued :: "database \<Rightarrow> int \<Rightarrow> pystr option \<Rightarrow> (nat \<times> database) result"
  st_success :: "database \<Rightarrow> int \<Rightarrow> claimed_submission \<Rightarrow> (pystr \<times> json) list \<Rightarrow> (bool \<times> database) result"
  st_retry :: "database \<Rightarrow> int \<Rightarrow> claimed_submission \<Rightarrow> nat \<Rightarrow> bool \<times> database"
  st_failure :: "database \<Rightarrow> int \<Rightarrow> claimed_submission \<Rightarrow> pystr \<Rightarrow> string \<Rightarrow> bool \<Rightarrow> bool \<times> database"
  st_rejected :: "database \<Rightarrow> int \<Rightarrow> claimed_submission \<Rightarrow> bool \<times> database"
  st_user :: "database \<Rightarrow> pystr \<Rightarrow> user_record option result"
  st_unpublished :: "database \<Rightarrow> pystr \<Rightarrow> pystr \<Rightarrow> pystr list result"
  st_published_queued :: "database \<Rightarrow> pystr \<Rightarrow> pystr \<Rightarrow> pystr list result"
  st_current :: "database \<Rightarrow> int \<Rightarrow> claimed_submission \<Rightarrow> bool"
  st_hashes :: "database \<Rightarrow> pystr set"
  st_expired :: "int \<Rightarrow> claimed_submission \<Rightarrow> bool"
  st_for_owner :: "database \<Rightarrow> pystr \<Rightarrow> pystr \<Rightarrow> submission_row option result"
  st_history :: "database \<Rightarrow> pystr \<Rightarrow> int \<Rightarrow> int option \<Rightarrow> pystr option \<Rightarrow> submission_row list result"
  st_prompt :: "database \<Rightarrow> pystr \<Rightarrow> pystr \<Rightarrow> pystr option result"
  st_result :: "database \<Rightarrow> pystr \<Rightarrow> pystr
    \<Rightarrow> (submission_status \<times> (pystr \<times> json) list option \<times> (pystr option \<times> string \<times> bool) option) option result"
  st_leaderboard :: "database \<Rightarrow> pystr \<Rightarrow> int \<Rightarrow> int \<Rightarrow> int \<Rightarrow> (nat \<times> candidate) list result"

definition sqlite_ops :: "(nat list \<Rightarrow> pystr) \<Rightarrow> store_ops" where
  "sqlite_ops sha =
     \<lparr>st_register = register_user, st_create = create_submission sha,
      st_publish = (\<lambda>db now i. Inr ((), mark_outbox_published db now i)),
      st_claim = (\<lambda>db now fresh i identity snapshot lease attempts running.
        Inr (claim_submission db now now fresh i identity snapshot lease attempts running)),
      st_expire_leases = (\<lambda>db now identity. Inr (expire_leases db now identity)),
      st_expire_queued = (\<lambda>db now identity. Inr (expire_queued_deadlines db now identity)),
      st_success = complete_success, st_retry = retry_submission, st_failure = complete_failure, st_rejected = complete_rejected,
      st_user = (\<lambda>db subject. Inr (user_by_subject db subject)),
      st_unpublished = (\<lambda>db identity snapshot. Inr (unpublished_submission_ids db identity snapshot)),
      st_published_queued = (\<lambda>db identity snapshot. Inr (published_queued_submission_ids db identity snapshot)),
      st_current = claim_is_current, st_hashes = outstanding_contract_hashes, st_expired = claim_deadline_expired,
      st_for_owner = (\<lambda>db i user. Inr (submission_for_owner db i user)), st_history = submissions_for_owner,
      st_prompt = (\<lambda>db i user. Inr (owner_prompt db i user)), st_result = (\<lambda>db i user. Inr (owner_result db i user)),
      st_leaderboard = leaderboard\<rparr>"

definition postgres_ops :: "(pystr \<Rightarrow> 'k::linorder) \<Rightarrow> (nat list \<Rightarrow> pystr) \<Rightarrow> store_ops" where
  "postgres_ops collate sha =
     \<lparr>st_register = pg_register_user, st_create = pg_create_submission sha, st_publish = pg_mark_outbox_published,
      st_claim = pg_claim_submission, st_expire_leases = pg_expire_leases,
      st_expire_queued = pg_expire_queued_deadlines, st_success = pg_complete_success, st_retry = pg_retry_submission,
      st_failure = pg_complete_failure, st_rejected = pg_complete_rejected, st_user = pg_user_by_subject,
      st_unpublished = pg_unpublished_submission_ids, st_published_queued = pg_published_queued_submission_ids,
      st_current = pg_claim_is_current, st_hashes = pg_outstanding_contract_hashes, st_expired = pg_claim_deadline_expired,
      st_for_owner = pg_submission_for_owner, st_history = pg_submissions_for_owner, st_prompt = pg_owner_prompt,
      st_result = pg_owner_result, st_leaderboard = pg_leaderboard collate\<rparr>"

text \<open>\<open>build_submission_store\<close>: exactly one of the two databases is configured.\<close>

definition build_submission_store :: "(pystr \<Rightarrow> 'k::linorder) \<Rightarrow> (nat list \<Rightarrow> pystr) \<Rightarrow> bool \<Rightarrow> bool \<Rightarrow> store_ops result" where
  "build_submission_store collate sha sqlite postgres =
     (if sqlite = postgres
      then raise ValueError ''configure exactly one of SQLite database path or PostgreSQL database URL''
      else Inr (if sqlite then sqlite_ops sha else postgres_ops collate sha))"
section \<open>Sessions\<close>

text \<open>
  A session is a sequence of calls; a call on a claim names it by its position among the claims handed out so far.
  Exceptions are compared by class: the wording of a constraint violation is the driver's.
\<close>

datatype store_call =
    Register pystr pystr pystr bool
  | Create int pystr user_record pystr pystr evaluation_contract "pystr option"
  | Policy "admission_row list"
  | Mark int pystr
  | Claim int pystr pystr pystr pystr int nat nat
  | Expire_Leases int "pystr option"
  | Expire_Queued int "pystr option"
  | Succeed int nat "(pystr \<times> json) list"
  | Retry int nat nat
  | Fail int nat pystr string bool
  | Reject int nat
  | Is_Current int nat
  | Is_Expired int nat
  | User_By_Subject pystr
  | Unpublished pystr pystr
  | Published_Queued pystr pystr
  | Outstanding_Hashes
  | For_Owner pystr pystr
  | History pystr int "int option" "pystr option"
  | Prompt_Of pystr pystr
  | Result_Of pystr pystr
  | Leaderboard pystr int int int

datatype store_answer =
    A_Done "exc_class + unit"
  | A_User "exc_class + user_record"
  | A_Submission "exc_class + (submission_row \<times> bool)"
  | A_Claim "exc_class + claim_attempt"
  | A_Count "exc_class + nat"
  | A_Flag "exc_class + bool"
  | A_User_Row "exc_class + user_record option"
  | A_Ids "exc_class + pystr list"
  | A_Hashes "pystr set"
  | A_Row "exc_class + submission_row option"
  | A_History "exc_class + submission_row list"
  | A_Prompt "exc_class + pystr option"
  | A_Result "exc_class + (submission_status \<times> (pystr \<times> json) list option \<times> (pystr option \<times> string \<times> bool) option) option"
  | A_Board "exc_class + (nat \<times> candidate) list"
  | No_Such_Claim

record session =
  ss_db :: database
  ss_claims :: "claimed_submission list"

definition outcome :: "'a result \<Rightarrow> exc_class + 'a" where
  "outcome r = (case r of Inl e \<Rightarrow> Inl (exc_cls e) | Inr x \<Rightarrow> Inr x)"

definition committed :: "session \<Rightarrow> ('a \<times> database) result \<Rightarrow> session" where
  "committed s r = (case r of Inl _ \<Rightarrow> s | Inr (_, db) \<Rightarrow> s\<lparr>ss_db := db\<rparr>)"

definition claimed :: "session \<Rightarrow> (claim_attempt \<times> database) result \<Rightarrow> session" where
  "claimed s r = (case r of Inl _ \<Rightarrow> s | Inr (a, db) \<Rightarrow>
     \<lparr>ss_db = db, ss_claims = ss_claims s @ (case ca_claim a of None \<Rightarrow> [] | Some c \<Rightarrow> [c])\<rparr>)"

text \<open>The answer of a call that returns a value with the new database.\<close>

definition answered :: "('a \<times> database) result \<Rightarrow> exc_class + 'a" where
  "answered r = outcome (rbind r (\<lambda>x. Inr (fst x)))"

definition with_claim :: "session \<Rightarrow> nat \<Rightarrow> (claimed_submission \<Rightarrow> store_answer \<times> session) \<Rightarrow> store_answer \<times> session" where
  "with_claim s k f = (if k < length (ss_claims s) then f (ss_claims s ! k) else (No_Such_Claim, s))"

fun serve :: "store_ops \<Rightarrow> store_call \<Rightarrow> session \<Rightarrow> store_answer \<times> session" where
  "serve ops (Register fresh subject handle admin) s =
     (let r = st_register ops (ss_db s) fresh subject handle admin in (A_User (answered r), committed s r))"
| "serve ops (Create now fresh user key prompt c fp) s =
     (let r = st_create ops (ss_db s) now fresh user key prompt c fp
      in (A_Submission (answered r), committed s r))"
| "serve ops (Policy rows) s = (A_Done (Inr ()), s\<lparr>ss_db := (ss_db s)\<lparr>db_admin := rows\<rparr>\<rparr>)"
| "serve ops (Mark now i) s =
     (let r = st_publish ops (ss_db s) now i in (A_Done (answered r), committed s r))"
| "serve ops (Claim now fresh i identity snapshot lease attempts running) s =
     (let r = st_claim ops (ss_db s) now fresh i identity snapshot lease attempts running in (A_Claim (answered r), claimed s r))"
| "serve ops (Expire_Leases now identity) s =
     (let r = st_expire_leases ops (ss_db s) now identity in (A_Count (answered r), committed s r))"
| "serve ops (Expire_Queued now identity) s =
     (let r = st_expire_queued ops (ss_db s) now identity in (A_Count (answered r), committed s r))"
| "serve ops (Succeed now k res) s = with_claim s k (\<lambda>c.
     let r = st_success ops (ss_db s) now c res in (A_Flag (answered r), committed s r))"
| "serve ops (Retry now k m) s = with_claim s k (\<lambda>c.
     case st_retry ops (ss_db s) now c m of (b, db) \<Rightarrow> (A_Flag (Inr b), s\<lparr>ss_db := db\<rparr>))"
| "serve ops (Fail now k version fcode retryable) s = with_claim s k (\<lambda>c.
     case st_failure ops (ss_db s) now c version fcode retryable of (b, db) \<Rightarrow> (A_Flag (Inr b), s\<lparr>ss_db := db\<rparr>))"
| "serve ops (Reject now k) s = with_claim s k (\<lambda>c.
     case st_rejected ops (ss_db s) now c of (b, db) \<Rightarrow> (A_Flag (Inr b), s\<lparr>ss_db := db\<rparr>))"
| "serve ops (Is_Current now k) s = with_claim s k (\<lambda>c. (A_Flag (Inr (st_current ops (ss_db s) now c)), s))"
| "serve ops (Is_Expired now k) s = with_claim s k (\<lambda>c. (A_Flag (Inr (st_expired ops now c)), s))"
| "serve ops (User_By_Subject subject) s = (A_User_Row (outcome (st_user ops (ss_db s) subject)), s)"
| "serve ops (Unpublished identity snapshot) s = (A_Ids (outcome (st_unpublished ops (ss_db s) identity snapshot)), s)"
| "serve ops (Published_Queued identity snapshot) s = (A_Ids (outcome (st_published_queued ops (ss_db s) identity snapshot)), s)"
| "serve ops Outstanding_Hashes s = (A_Hashes (st_hashes ops (ss_db s)), s)"
| "serve ops (For_Owner i user) s = (A_Row (outcome (st_for_owner ops (ss_db s) i user)), s)"
| "serve ops (History user limit t i) s = (A_History (outcome (st_history ops (ss_db s) user limit t i)), s)"
| "serve ops (Prompt_Of i user) s = (A_Prompt (outcome (st_prompt ops (ss_db s) i user)), s)"
| "serve ops (Result_Of i user) s = (A_Result (outcome (st_result ops (ss_db s) i user)), s)"
| "serve ops (Leaderboard identity limit as_of after_rank) s =
     (A_Board (outcome (st_leaderboard ops (ss_db s) identity limit as_of after_rank)), s)"

fun serve_all :: "store_ops \<Rightarrow> store_call list \<Rightarrow> session \<Rightarrow> store_answer list \<times> session" where
  "serve_all ops [] s = ([], s)"
| "serve_all ops (c # cs) s =
     (case serve ops c s of (a, s') \<Rightarrow> (case serve_all ops cs s' of (as, s'') \<Rightarrow> (a # as, s'')))"

text \<open>The text parameters of a call that reach PostgreSQL; a plain call has no NUL character in one.\<close>

fun call_texts :: "store_call \<Rightarrow> pystr list" where
  "call_texts (Register fresh subject handle admin) = [subject, handle]"
| "call_texts (Create now fresh user key prompt c fp) = [us_id user, key, ec_challenge_id c, ec_contract_version c,
     ec_identity_sha256 c, ec_snapshot_sha256 c, ec_snapshot_json c, ec_failure_version c]"
| "call_texts (Mark now i) = [i]"
| "call_texts (Claim now fresh i identity snapshot lease attempts running) = [i]"
| "call_texts (Expire_Leases now identity) = (case identity of None \<Rightarrow> [] | Some i \<Rightarrow> [i])"
| "call_texts (Expire_Queued now identity) = (case identity of None \<Rightarrow> [] | Some i \<Rightarrow> [i])"
| "call_texts (User_By_Subject subject) = [subject]"
| "call_texts (Unpublished identity snapshot) = [identity, snapshot]"
| "call_texts (Published_Queued identity snapshot) = [identity, snapshot]"
| "call_texts (For_Owner i user) = [i, user]"
| "call_texts (History user limit t i) = user # (case i of None \<Rightarrow> [] | Some j \<Rightarrow> [j])"
| "call_texts (Prompt_Of i user) = [i, user]"
| "call_texts (Result_Of i user) = [i, user]"
| "call_texts (Leaderboard identity limit as_of after_rank) = [identity]"
| "call_texts call = []"

definition plain_call :: "store_call \<Rightarrow> bool" where
  "plain_call call \<longleftrightarrow> list_all (\<lambda>p. 0 \<notin> set p) (call_texts call)"

definition new_session :: session where
  "new_session = \<lparr>ss_db = empty_db, ss_claims = []\<rparr>"

section \<open>The calls agree\<close>

text \<open>What sessions keep: identifiers are unique, rows agree with their status, and a claim carries the identity of its row.\<close>

definition rows_ok :: "database \<Rightarrow> bool" where
  "rows_ok db \<longleftrightarrow> distinct_ids db \<and> (\<forall>r \<in> set (db_submissions db). row_ok r)"

definition claim_ok :: "database \<Rightarrow> claimed_submission \<Rightarrow> bool" where
  "claim_ok db c \<longleftrightarrow> (\<exists>r \<in> set (db_submissions db). sr_id r = cl_id c \<and> sr_identity r = cl_identity c)"

definition session_ok :: "session \<Rightarrow> bool" where
  "session_ok s \<longleftrightarrow> rows_ok (ss_db s) \<and> (\<forall>c \<in> set (ss_claims s). claim_ok (ss_db s) c)"

lemma find_hd_filter: "find P xs = (case filter P xs of [] \<Rightarrow> None | x # _ \<Rightarrow> Some x)"
  by (induction xs) auto

lemma find_Some_filter: "find P xs = Some x \<Longrightarrow> \<exists>ys. filter P xs = x # ys"
  by (simp add: find_hd_filter split: list.splits)

lemma distinct_singleton:
  assumes "distinct ys" and "set ys = {r}"
  shows "ys = [r]"
proof -
  have "length ys = Suc 0"
    using distinct_card [OF assms(1)] assms(2) by simp
  then obtain x where "ys = [x]"
    by (auto simp: length_Suc_conv)
  with assms(2) show ?thesis
    by simp
qed

lemma filter_single:
  assumes "distinct xs" and "r \<in> set xs" and "P r" and "\<And>x. x \<in> set xs \<Longrightarrow> P x \<Longrightarrow> x = r"
  shows "filter P xs = [r]"
proof (rule distinct_singleton)
  show "set (filter P xs) = {r}"
    using assms(2-4) unfolding set_filter by blast
qed (simp add: assms(1))

text \<open>A row selected by its identifier is the only one: an update of it changes exactly one row.\<close>

lemma unique_rowcount:
  assumes "distinct_ids db" and "r \<in> set (db_submissions db)" and "P r" and "\<And>x. P x \<Longrightarrow> sr_id x = sr_id r"
  shows "rowcount P db = 1"
proof -
  have "filter P (db_submissions db) = [r]"
  proof (rule filter_single)
    show "distinct (db_submissions db)"
      using assms(1) by (simp add: distinct_ids_def distinct_map)
    show "x = r" if "x \<in> set (db_submissions db)" "P x" for x
      by (rule same_id [OF assms(1) that(1) assms(2) assms(4) [OF that(2)]])
  qed (use assms(2,3) in simp_all)
  then show ?thesis
    by (simp add: rowcount_def)
qed

lemma held_rowcount: "distinct_ids db \<Longrightarrow> find (held_by c) (db_submissions db) = Some r \<Longrightarrow> rowcount (held_by c) db = 1"
  by (rule unique_rowcount [where r = r]) (auto dest!: find_held simp: held_by_def)

lemma pg_text_plain [simp]: "\<forall>p \<in> set ps. 0 \<notin> set p \<Longrightarrow> pg_text ps q = q"
  by (auto simp: pg_text_def list_ex_iff)

lemma register_agrees:
  assumes "0 \<notin> set subject" and "0 \<notin> set handle"
  shows "answered (pg_register_user db fresh subject handle admin) = answered (register_user db fresh subject handle admin)"
    and "committed s (pg_register_user db fresh subject handle admin) = committed s (register_user db fresh subject handle admin)"
  using assms
  by (auto simp: answered_def pg_register_user_def register_user_def ensure_def outcome_def committed_def list_ex_iff Let_def image_iff)

lemma create_agrees:
  assumes "plain_call (Create now fresh user key prompt c fp)"
  shows "map_sum exc_cls id (pg_create_submission sha db now fresh user key prompt c fp) =
     map_sum exc_cls id (create_submission sha db now fresh user key prompt c fp)"
  using assms unfolding plain_call_def
  by (auto simp: pg_create_submission_def create_submission_def find_hd_filter ensure_def rbind_def Let_def
      split: sum.splits list.splits)

lemma claim_agrees:
  assumes "distinct_ids db" and "0 \<notin> set i"
  shows "pg_claim_submission db now fresh i identity snapshot lease m n =
    Inr (claim_submission db now now fresh i identity snapshot lease m n)"
proof (cases "row_of db i")
  case (Some r)
  have "rowcount (\<lambda>x. sr_id x = i \<and> sr_status x = QUEUED \<and> sr_attempt x = sr_attempt r) db = 1" if "sr_status r = QUEUED"
    using row_of_Some [OF Some] that by (intro unique_rowcount [OF assms(1), of r]) auto
  with Some assms(2) show ?thesis
    by (auto simp: pg_claim_submission_def claim_submission_def Let_def job_deadline_failure_def [abs_def])
qed (use assms(2) in \<open>simp add: pg_claim_submission_def claim_submission_def\<close>)

lemma running_lease:
  assumes "rows_ok db" and "find (held_by c) (db_submissions db) = Some r"
  shows "after (sr_lease_expires r) now \<longleftrightarrow> \<not> due (sr_lease_expires r) now"
proof -
  have "row_ok r" "sr_status r = RUNNING"
    using assms find_held [OF assms(2)] by (auto simp: rows_ok_def held_by_def)
  then show ?thesis
    by (auto simp: row_ok_def after_def due_def)
qed

text \<open>The claim is judged alike: by a search for a row with a live lease, or by the columns of the row that was locked.\<close>

lemma live_row:
  assumes "rows_ok db"
  shows "list_ex (\<lambda>r. held_by c r \<and> after (sr_lease_expires r) now \<and> now < sr_deadline r) (db_submissions db) \<longleftrightarrow>
    (case find (held_by c) (db_submissions db) of
       None \<Rightarrow> False | Some r \<Rightarrow> \<not> (due (sr_lease_expires r) now \<or> sr_deadline r \<le> now))"
proof (cases "find (held_by c) (db_submissions db)")
  case None
  then have "\<forall>x \<in> set (db_submissions db). \<not> held_by c x"
    by (simp add: find_None_iff)
  then show ?thesis
    by (simp add: None list_ex_iff)
next
  case (Some r)
  have ids: "distinct_ids db"
    using assms by (simp add: rows_ok_def)
  have "list_ex (\<lambda>x. held_by c x \<and> after (sr_lease_expires x) now \<and> now < sr_deadline x) (db_submissions db) \<longleftrightarrow>
      after (sr_lease_expires r) now \<and> now < sr_deadline r"
    using find_held [OF Some] same_held [OF ids Some] by (auto simp: list_ex_iff)
  then show ?thesis
    using Some running_lease [OF assms Some] by auto
qed

lemma success_agrees:
  assumes "rows_ok db" and "claim_ok db c"
  shows "map_sum exc_cls id (pg_complete_success db now c res) = map_sum exc_cls id (complete_success db now c res)"
proof (cases "find (held_by c) (db_submissions db)")
  case None
  then show ?thesis
    using live_row [OF assms(1), of c now] by (simp add: pg_complete_success_def complete_success_def)
next
  case (Some r)
  have ids: "distinct_ids db"
    using assms(1) by (simp add: rows_ok_def)
  note r = find_held [OF Some]
  obtain x where x: "x \<in> set (db_submissions db)" "sr_id x = cl_id c" "sr_identity x = cl_identity c"
    using assms(2) by (auto simp: claim_ok_def)
  have "x = r"
    using same_id [OF ids x(1), of r] r x(2) by (simp add: held_by_def)
  with x(3) have identity: "sr_identity r = cl_identity c"
    by simp
  have used: "list_ex (\<lambda>row. rr_submission row = i) rs \<longleftrightarrow> i \<in> rr_submission ` set rs" for i and rs :: "result_row list"
    by (auto simp: list_ex_iff)
  show ?thesis
    using live_row [OF assms(1), of c now] held_rowcount [OF ids Some]
    by (auto simp: pg_complete_success_def complete_success_def Some identity Let_def used ensure_def rbind_def update_rows_def
        rowcount_def split: sum.splits)
qed

lemma retry_agrees: "distinct_ids db \<Longrightarrow> pg_retry_submission db now c m = retry_submission db now c m"
  using held_rowcount [of db c] by (auto simp: pg_retry_submission_def retry_submission_def split: option.splits)

lemma failure_agrees:
  "distinct_ids db \<Longrightarrow> pg_complete_failure db now c version fcode retryable = complete_failure db now c version fcode retryable"
  using held_rowcount [of db c]
  by (auto simp: pg_complete_failure_def complete_failure_def Let_def split: option.splits)

lemma rejected_agrees: "distinct_ids db \<Longrightarrow> pg_complete_rejected db now c = complete_rejected db now c"
  using held_rowcount [of db c]
  by (auto simp: pg_complete_rejected_def complete_rejected_def Let_def job_deadline_failure_def [abs_def] split: option.splits)

lemma sweeps_agree:
  assumes "\<And>i. identity = Some i \<Longrightarrow> 0 \<notin> set i"
  shows "pg_expire_leases db now identity = Inr (expire_leases db now identity)"
    and "pg_expire_queued_deadlines db now identity = Inr (expire_queued_deadlines db now identity)"
  using assms
  by (cases identity; simp add: Let_def pg_expire_leases_def expire_leases_def)
    (use assms in \<open>cases identity; simp add: Let_def pg_expire_queued_deadlines_def expire_queued_deadlines_def
      job_deadline_failure_def [abs_def]\<close>)

lemma outbox_ids_agree:
  "pg_outbox_ids (\<lambda>o1 r. P o1 \<and> Q r) db = map ob_submission (filter (\<lambda>o1. P o1 \<and>
     (case row_of db (ob_submission o1) of None \<Rightarrow> False | Some r \<Rightarrow> Q r)) (db_outbox db))"
proof -
  have "concat (map (\<lambda>o1. case row_of db (ob_submission o1) of
         Some r \<Rightarrow> if P o1 \<and> Q r then [ob_submission o1] else [] | None \<Rightarrow> []) os) = map ob_submission (filter (\<lambda>o1. P o1 \<and>
     (case row_of db (ob_submission o1) of None \<Rightarrow> False | Some r \<Rightarrow> Q r)) os)" for os
    by (induction os) (auto split: option.splits)
  then show ?thesis
    by (simp add: pg_outbox_ids_def)
qed

lemma outbox_agrees:
  assumes "0 \<notin> set identity" and "0 \<notin> set snapshot"
  shows "pg_unpublished_submission_ids db identity snapshot = Inr (unpublished_submission_ids db identity snapshot)"
    and "pg_published_queued_submission_ids db identity snapshot = Inr (published_queued_submission_ids db identity snapshot)"
  using assms outbox_ids_agree [of "\<lambda>o1. ob_published o1 = None"
      "\<lambda>r. sr_identity r = identity \<and> sr_snapshot_sha256 r = snapshot \<and> sr_status r = QUEUED" db]
    outbox_ids_agree [of "\<lambda>o1. ob_published o1 \<noteq> None"
      "\<lambda>r. sr_status r = QUEUED \<and> sr_identity r = identity \<and> sr_snapshot_sha256 r = snapshot" db]
  by (simp_all add: pg_unpublished_submission_ids_def unpublished_submission_ids_def pg_published_queued_submission_ids_def
      published_queued_submission_ids_def outbox_ids_def conj_ac cong: option.case_cong)

lemma claim_views_agree:
  "pg_claim_is_current db now c = claim_is_current db now c"
  "pg_outstanding_contract_hashes db = outstanding_contract_hashes db"
  "pg_claim_deadline_expired = claim_deadline_expired"
  by (auto simp: pg_claim_is_current_def claim_is_current_def held_by_def list_ex_iff filter_empty_conv conj_ac
      pg_outstanding_contract_hashes_def outstanding_contract_hashes_def outstanding_def
      pg_claim_deadline_expired_def claim_deadline_expired_def fun_eq_iff)

lemma history_agrees:
  assumes "0 \<notin> set user" and "\<And>j. i = Some j \<Longrightarrow> 0 \<notin> set j"
  shows "outcome (pg_submissions_for_owner db user limit t i) = outcome (submissions_for_owner db user limit t i)"
  using assms by (auto simp: pg_submissions_for_owner_def submissions_for_owner_def outcome_def ensure_def split: option.splits)

lemma owner_views_agree:
  assumes "0 \<notin> set i" and "0 \<notin> set user"
  shows "pg_submission_for_owner db i user = Inr (submission_for_owner db i user)"
    and "pg_owner_prompt db i user = Inr (owner_prompt db i user)"
    and "pg_owner_result db i user = Inr (owner_result db i user)"
proof -
  show "pg_owner_result db i user = Inr (owner_result db i user)"
  proof (cases "find (\<lambda>r. sr_id r = i \<and> sr_user r = user) (db_submissions db)")
    case (Some r)
    with find_held [OF Some] assms show ?thesis
      by (auto simp: pg_owner_result_def owner_result_def submission_for_owner_def map_option_case)
  qed (use assms in \<open>simp add: pg_owner_result_def owner_result_def submission_for_owner_def\<close>)
qed (use assms in \<open>simp_all add: pg_submission_for_owner_def submission_for_owner_def
    pg_owner_prompt_def owner_prompt_def map_option_case\<close>)

lemma small_calls_agree:
  "0 \<notin> set subject \<Longrightarrow> pg_user_by_subject db subject = Inr (user_by_subject db subject)"
  "0 \<notin> set i \<Longrightarrow> pg_mark_outbox_published db now i = Inr ((), mark_outbox_published db now i)"
  by (simp_all add: pg_user_by_subject_def user_by_subject_def pg_mark_outbox_published_def mark_outbox_published_def)

text \<open>A sort key that orders handles as their code points do.\<close>

definition code_point_order :: "(pystr \<Rightarrow> 'k::linorder) \<Rightarrow> bool" where
  "code_point_order collate \<longleftrightarrow> (\<forall>x y. collate x \<le> collate y \<longleftrightarrow> x \<le> y)"

lemma sort_key_order:
  assumes "\<And>x y. f x \<le> f y \<longleftrightarrow> g x \<le> g y"
  shows "sort_key f xs = sort_key g xs"
proof -
  have "insort_key f x ys = insort_key g x ys" for x ys
    by (induction ys) (simp_all add: assms)
  then show ?thesis
    by (induction xs) simp_all
qed

lemma leaderboard_agrees:
  assumes "code_point_order collate" and "0 \<notin> set identity"
  shows "outcome (pg_leaderboard collate db identity limit as_of after_rank) = outcome (leaderboard db identity limit as_of after_rank)"
proof -
  have same: "collate x \<le> collate y \<longleftrightarrow> x \<le> y" "collate x < collate y \<longleftrightarrow> x < y" for x y
    using assms(1) by (simp_all add: code_point_order_def less_le_not_le)
  have "sort_key (\<lambda>c. (- rr_score (cd_result c), rr_succeeded (cd_result c), collate (cd_handle c))) cs = sort_key rank_key cs" for cs
    by (rule sort_key_order) (simp add: rank_key_def less_eq_prod_simp same)
  with assms(2) show ?thesis
    by (auto simp: pg_leaderboard_def leaderboard_def ranked_def Let_def outcome_def ensure_def)
qed
section \<open>Sessions keep their invariant\<close>

lemma rows_step_keeps:
  assumes "rows_step K db db' P f" and "rows_ok db"
  shows "rows_ok db' \<and> (claim_ok db c \<longrightarrow> claim_ok db' c)"
proof -
  let ?g = "\<lambda>r. if P r then f r else r"
  have rows: "db_submissions db' = map ?g (db_submissions db)"
    and moved: "\<And>r. r \<in> set (db_submissions db) \<Longrightarrow> P r \<Longrightarrow> transition (ec_max_attempts K) r (f r)"
    using assms(1) by (simp_all add: rows_step_def)
  have keep: "sr_id (?g r) = sr_id r \<and> sr_identity (?g r) = sr_identity r \<and> row_ok (?g r)"
    if "r \<in> set (db_submissions db)" for r
    using moved [OF that] transition_request [of "ec_max_attempts K" r "f r"] transition_row_ok [of "ec_max_attempts K" r "f r"]
      assms(2) that by (simp add: request_of_def rows_ok_def)
  then have ids: "map sr_id (db_submissions db') = map sr_id (db_submissions db)"
    unfolding rows by simp
  have "row_ok r" if "r \<in> set (db_submissions db')" for r
    using that keep unfolding rows set_map by blast
  with ids assms(2) have "rows_ok db'"
    by (simp add: rows_ok_def distinct_ids_def)
  moreover have "claim_ok db' c" if claim: "claim_ok db c"
  proof -
    obtain r where r: "r \<in> set (db_submissions db)" "sr_id r = cl_id c" "sr_identity r = cl_identity c"
      using claim by (auto simp: claim_ok_def)
    have "?g r \<in> set (db_submissions db')"
      unfolding rows set_map using r(1) by (rule imageI)
    with keep [OF r(1)] r(2,3) show ?thesis
      unfolding claim_ok_def by (intro bexI [of _ "?g r"]) simp_all
  qed
  ultimately show ?thesis
    by simp
qed

lemma step_keeps:
  assumes "store_step K db db'" and "rows_ok db"
  shows "rows_ok db'" and "claim_ok db c \<Longrightarrow> claim_ok db' c"
proof -
  have "distinct_ids db"
    using assms(2) by (simp add: rows_ok_def)
  from store_step_shapes [OF assms(1) this] have "rows_ok db' \<and> (claim_ok db c \<longrightarrow> claim_ok db' c)"
  proof (elim disjE exE)
    assume "users_step db db'"
    with assms(2) show ?thesis
      by (simp add: users_step_def rows_ok_def distinct_ids_def claim_ok_def)
  next
    fix row assume "create_step K db db' row"
    with assms(2) fresh_row_ok [of row] show ?thesis
      by (auto simp: create_step_def rows_ok_def distinct_ids_def claim_ok_def)
  next
    fix P f assume "rows_step K db db' P f"
    from rows_step_keeps [OF this assms(2)] show ?thesis .
  qed
  then show "rows_ok db'" "claim_ok db c \<Longrightarrow> claim_ok db' c"
    by auto
qed

lemma session_step: "session_ok s \<Longrightarrow> store_step K (ss_db s) db \<Longrightarrow> session_ok (s\<lparr>ss_db := db\<rparr>)"
  using step_keeps by (auto simp: session_ok_def)

lemma session_committed:
  "session_ok s \<Longrightarrow> (\<And>x db. r = Inr (x, db) \<Longrightarrow> \<exists>K. store_step K (ss_db s) db) \<Longrightarrow> session_ok (committed s r)"
  by (auto simp: committed_def split: sum.splits intro: session_step)

lemma session_claimed:
  "session_ok s \<Longrightarrow> (\<And>c. session_ok (snd (f c))) \<Longrightarrow> session_ok (snd (with_claim s k f))"
  by (simp add: with_claim_def)

lemma claim_handed_out:
  assumes "claim_submission db now now fresh i identity snapshot lease m n = (a, db')" and "ca_claim a = Some c"
  shows "claim_ok db c"
proof -
  obtain r where r: "row_of db i = Some r"
    using assms by (cases "row_of db i") (auto simp: claim_submission_def no_claim_def)
  then have "cl_id c = i \<and> cl_identity c = sr_identity r"
    using assms by (auto simp: claim_submission_def no_claim_def Let_def split: if_splits)
  with row_of_Some [OF r] show ?thesis
    by (auto simp: claim_ok_def)
qed

lemma session_claim:
  assumes "session_ok s" and "claim_submission (ss_db s) now now fresh i identity snapshot lease m n = (a, db)"
  shows "session_ok (claimed s (Inr (a, db)))"
proof -
  let ?K = "demo_contract\<lparr>ec_max_attempts := m, ec_max_running := n\<rparr>"
  have step: "store_step ?K (ss_db s) db"
    by (rule store_step.claim [where a = a and now = now and now' = now and fresh = fresh and i = i and identity = identity
          and snapshot = snapshot and lease = lease]) (simp add: assms(2))
  have "claim_ok db c" if "c \<in> set (ss_claims s) \<or> ca_claim a = Some c" for c
  proof -
    have "claim_ok (ss_db s) c"
      using that assms(1) claim_handed_out [OF assms(2), of c] by (auto simp: session_ok_def)
    then show ?thesis
      by (rule step_keeps(2) [OF step, rotated]) (use assms(1) in \<open>simp add: session_ok_def\<close>)
  qed
  with step_keeps(1) [OF step] assms(1) show ?thesis
    by (auto simp: session_ok_def claimed_def split: option.splits)
qed

lemma outcome_committed:
  "map_sum exc_cls id a = map_sum exc_cls id b \<Longrightarrow>
     answered a = answered b \<and> committed s a = committed s b"
  by (cases a; cases b) (auto simp: answered_def outcome_def committed_def)

lemma serve_ok:
  assumes "session_ok s"
  shows "session_ok (snd (serve (sqlite_ops sha) call s))"
proof (cases call)
  case (Register fresh subject handle admin)
  have "session_ok (committed s (register_user (ss_db s) fresh subject handle admin))"
    by (rule session_committed [OF assms]) (blast intro: store_step.register)
  with Register show ?thesis
    by (simp add: sqlite_ops_def Let_def)
next
  case (Create now fresh user key prompt c fp)
  have "session_ok (committed s (create_submission sha (ss_db s) now fresh user key prompt c fp))"
  proof (rule session_committed [OF assms])
    fix x db assume "create_submission sha (ss_db s) now fresh user key prompt c fp = Inr (x, db)"
    then have "store_step c (ss_db s) db"
      by (cases x) (auto intro: store_step.create simp: same_limits_def)
    then show "\<exists>K. store_step K (ss_db s) db" ..
  qed
  with Create show ?thesis
    by (simp add: sqlite_ops_def Let_def)
next
  case (Policy rows)
  then show ?thesis
    using session_step [OF assms store_step.admin] by simp
next
  case (Mark now i)
  then show ?thesis
    using session_step [OF assms store_step.publish] by (simp add: sqlite_ops_def committed_def Let_def)
next
  case (Claim now fresh i identity snapshot lease attempts running)
  then show ?thesis
    using session_claim [OF assms, of now fresh i identity snapshot lease attempts running]
    by (cases "claim_submission (ss_db s) now now fresh i identity snapshot lease attempts running") (simp add: sqlite_ops_def Let_def)
next
  case (Expire_Leases now identity)
  then show ?thesis
    using session_step [OF assms store_step.leases] by (simp add: sqlite_ops_def committed_def Let_def split: prod.splits)
next
  case (Expire_Queued now identity)
  then show ?thesis
    using session_step [OF assms store_step.deadlines] by (simp add: sqlite_ops_def committed_def Let_def split: prod.splits)
next
  case (Succeed now k res)
  have "session_ok (committed s (complete_success (ss_db s) now c res))" for c
    by (rule session_committed [OF assms]) (blast intro: store_step.success)
  with Succeed show ?thesis
    by (simp add: sqlite_ops_def Let_def session_claimed [OF assms])
next
  case (Retry now k m)
  have "session_ok (s\<lparr>ss_db := db\<rparr>)" if "retry_submission (ss_db s) now c m = (b, db)" for c b db
    by (rule session_step [OF assms store_step.retry [where K = "demo_contract\<lparr>ec_max_attempts := m\<rparr>" and c = c and now = now and b = b]])
      (simp add: that)
  with Retry show ?thesis
    by (auto simp: sqlite_ops_def intro!: session_claimed [OF assms] split: prod.splits)
next
  case (Fail now k version fcode retryable)
  then show ?thesis
    using session_step [OF assms store_step.failure]
    by (auto simp: sqlite_ops_def intro!: session_claimed [OF assms] split: prod.splits)
next
  case (Reject now k)
  then show ?thesis
    using session_step [OF assms store_step.rejected]
    by (auto simp: sqlite_ops_def intro!: session_claimed [OF assms] split: prod.splits)
qed (simp_all add: assms session_claimed)

section \<open>The stores are interchangeable\<close>

lemma serve_agrees:
  assumes "session_ok s" and "code_point_order collate" and "plain_call call"
  shows "serve (postgres_ops collate sha) call s = serve (sqlite_ops sha) call s"
proof -
  have ok: "rows_ok (ss_db s)" "distinct_ids (ss_db s)" "\<And>k. k < length (ss_claims s) \<Longrightarrow> claim_ok (ss_db s) (ss_claims s ! k)"
    using assms(1) by (auto simp: session_ok_def rows_ok_def)
  have texts: "\<forall>p \<in> set (call_texts call). 0 \<notin> set p"
    using assms(3) by (simp add: plain_call_def list_all_iff)
  note [simp] = sqlite_ops_def postgres_ops_def Let_def with_claim_def
  show ?thesis
  proof (cases call)
    case (Create now fresh user key prompt c fp)
    with outcome_committed [OF create_agrees [OF assms(3) [unfolded Create]]] show ?thesis
      by simp
  next
    case (Succeed now k res)
    with outcome_committed [OF success_agrees [OF ok(1) ok(3)]] show ?thesis
      by simp
  qed (use ok texts in \<open>simp_all add: register_agrees claim_agrees sweeps_agree retry_agrees failure_agrees rejected_agrees
        outbox_agrees claim_views_agree history_agrees owner_views_agree small_calls_agree leaderboard_agrees [OF assms(2)]
        split: option.splits\<close>)
qed

lemma serve_all_agrees:
  assumes "code_point_order collate"
  shows "session_ok s \<Longrightarrow> list_all plain_call calls \<Longrightarrow>
    serve_all (postgres_ops collate sha) calls s = serve_all (sqlite_ops sha) calls s"
proof (induction calls arbitrary: s)
  case (Cons c cs)
  obtain a s' where step: "serve (sqlite_ops sha) c s = (a, s')"
    by fastforce
  with serve_ok [OF Cons.prems(1), of sha c] have "session_ok s'"
    by simp
  with Cons.IH [OF this] Cons.prems(2) step serve_agrees [OF Cons.prems(1) assms, of c sha] show ?case
    by simp
qed simp

lemma new_session_ok: "session_ok new_session"
  by (simp add: session_ok_def new_session_def rows_ok_def distinct_ids_def empty_db_def)

text \<open>C11. The SQLite and the PostgreSQL store are interchangeable when the collation of the PostgreSQL database orders handles by
  code point and no text parameter has a NUL character (which PostgreSQL refuses and SQLite stores): from an empty database, any
  sequence of such calls with the same clock readings and identifiers gets the same answers from both (exceptions compared by
  class) and leaves the same tables.\<close>
theorem stores_interchangeable:
  assumes "code_point_order collate" and "list_all plain_call calls"
  shows "serve_all (postgres_ops collate sha) calls new_session = serve_all (sqlite_ops sha) calls new_session"
  by (rule serve_all_agrees [OF assms(1) new_session_ok assms(2)])

text \<open>The assumption is needed: a NUL in an identifier is an error on one store and an unknown submission on the other.\<close>

lemma nul_refused:
  assumes "0 \<in> set i \<or> 0 \<in> set user"
  shows "serve (postgres_ops collate sha) (For_Owner i user) s = (A_Row (Inl DataError), s)"
  using assms by (auto simp: postgres_ops_def pg_submission_for_owner_def pg_text_def outcome_def)

definition demo_calls :: "store_call list" where
  "demo_calls = [Register (u ''u1'') (u ''s1'') (u ''ann'') False,
     Create 0 (u ''a'') demo_user (u ''k'') (u ''p'') demo_contract None,
     Claim 1 (u ''t'') (u ''a'') (u ''id'') (u ''snap'') 60 2 1, Succeed 5 0 demo_report,
     Leaderboard (u ''id'') 10 6 0]"

theorem stores_interchangeable_witness:
  "serve_all (postgres_ops (\<lambda>h. h) (\<lambda>b. b)) demo_calls new_session = serve_all (sqlite_ops (\<lambda>b. b)) demo_calls new_session"
  by (rule stores_interchangeable)
    (simp_all add: code_point_order_def demo_calls_def plain_call_def demo_user_def demo_contract_def u_def)

end
