(* ===== verification/Ascii_Json.thy ===== *)
theory Ascii_Json
  imports Json_Roundtrip
begin

text \<open>
  \<open>json.dumps\<close> with \<open>ensure_ascii\<close>: every character outside printable ASCII is escaped, above the basic plane as a pair of
  surrogates.  The separators are \<open>(",", ":")\<close> or, by default, \<open>(", ", ": ")\<close>.  The text parses back to the value unless a
  string holds a high surrogate just before a low one, which the reader would join.
\<close>

section \<open>Writing\<close>

definition u_escape :: "nat \<Rightarrow> pystr" where
  "u_escape n = [92, 117, hex_digit (n div 4096), hex_digit (n div 256 mod 16), hex_digit (n div 16 mod 16), hex_digit (n mod 16)]"

definition ascii_char :: "nat \<Rightarrow> pystr" where
  "ascii_char c =
     (if c = 34 then [92, 34] else if c = 92 then [92, 92]
      else if c = 10 then [92, 110] else if c = 13 then [92, 114] else if c = 9 then [92, 116]
      else if c = 8 then [92, 98] else if c = 12 then [92, 102]
      else if 32 \<le> c \<and> c \<le> 126 then [c]
      else if c < 65536 then u_escape c
      else u_escape (55296 + (c - 65536) div 1024) @ u_escape (56320 + (c - 65536) mod 1024))"

definition ascii_string :: "pystr \<Rightarrow> pystr" where
  "ascii_string s = 34 # concat (map ascii_char s) @ [34]"

fun join_by :: "pystr \<Rightarrow> pystr list \<Rightarrow> pystr" where
  "join_by sep [] = []"
| "join_by sep [s] = s"
| "join_by sep (s # ss) = s @ sep @ join_by sep ss"

definition space_if :: "bool \<Rightarrow> pystr" where
  "space_if spaced = (if spaced then [32] else [])"

fun dumps_ascii :: "bool \<Rightarrow> (pyfloat \<Rightarrow> pystr) \<Rightarrow> json \<Rightarrow> pystr" where
  "dumps_ascii sp float_repr JNull = u ''null''"
| "dumps_ascii sp float_repr (JBool b) = (if b then u ''true'' else u ''false'')"
| "dumps_ascii sp float_repr (JInt i) = int_text i"
| "dumps_ascii sp float_repr (JFloat x) = float_repr x"
| "dumps_ascii sp float_repr (JStr s) = ascii_string s"
| "dumps_ascii sp float_repr (JArr js) = 91 # join_by (44 # space_if sp) (map (dumps_ascii sp float_repr) js) @ [93]"
| "dumps_ascii sp float_repr (JObj ms) =
     123 # join_by (44 # space_if sp) (map (\<lambda>(k, j). ascii_string k @ 58 # space_if sp @ dumps_ascii sp float_repr j) ms) @ [125]"

section \<open>Strings that read back\<close>

fun unjoined :: "pystr \<Rightarrow> bool" where
  "unjoined (h # l # s) \<longleftrightarrow> \<not> (high_surrogate h \<and> low_surrogate l) \<and> unjoined (l # s)"
| "unjoined _ \<longleftrightarrow> True"

definition readable :: "pystr \<Rightarrow> bool" where
  "readable s \<longleftrightarrow> unjoined s \<and> list_all (\<lambda>c. c < 1114112) s"

lemma hex4_escape:
  assumes "n < 65536"
  shows "hex4 (hex_digit (n div 4096)) (hex_digit (n div 256 mod 16)) (hex_digit (n div 16 mod 16)) (hex_digit (n mod 16)) = Some n"
proof -
  have "n div 4096 * 16 + n div 256 mod 16 = n div 256"
    using div_mult_mod_eq [of "n div 256" 16] by (simp add: div_mult2_eq [symmetric])
  moreover have "n div 256 * 16 + n div 16 mod 16 = n div 16"
    using div_mult_mod_eq [of "n div 16" 16] by (simp add: div_mult2_eq [symmetric])
  moreover have "n div 16 * 16 + n mod 16 = n"
    by (rule div_mult_mod_eq)
  ultimately show ?thesis
    using assms by (simp add: hex4_def hex_value_digit)
qed

lemma escape_parts:
  assumes "n < 65536"
  obtains a b c d where "u_escape n = [92, 117, a, b, c, d]" "hex4 a b c d = Some n"
  using hex4_escape [OF assms] unfolding u_escape_def by blast

lemma ascii_char_cases:
  obtains (simple) e where "ascii_char c = [92, e]" "e \<noteq> 117" "simple_escape e = Some c"
  | (printable) "ascii_char c = [c]" "c \<noteq> 34" "c \<noteq> 92" "31 < c" "c < 127"
  | (escaped) "ascii_char c = u_escape c" "c < 65536"
  | (pair) "ascii_char c = u_escape (55296 + (c - 65536) div 1024) @ u_escape (56320 + (c - 65536) mod 1024)" "65536 \<le> c"
proof -
  consider "c \<in> {34, 92, 10, 13, 9, 8, 12}" | "c \<notin> {34, 92, 10, 13, 9, 8, 12}" "32 \<le> c" "c \<le> 126"
    | "c \<notin> {34, 92, 10, 13, 9, 8, 12}" "\<not> (32 \<le> c \<and> c \<le> 126)" "c < 65536" | "65536 \<le> c"
    by fastforce
  then show thesis
  proof cases
    case 1
    then show ?thesis
      by (intro simple [of "the (map_of [(34, 34), (92, 92), (10, 110), (13, 114), (9, 116), (8, 98), (12, 102)] c)"])
        (auto simp: ascii_char_def simple_escape_def)
  next
    case 2
    then show ?thesis
      by (intro printable) (simp_all add: ascii_char_def)
  next
    case 3
    then show ?thesis
      by (intro escaped) (auto simp: ascii_char_def)
  next
    case 4
    then show ?thesis
      by (intro pair) (simp_all add: ascii_char_def)
  qed
qed

lemma surrogate_pair:
  assumes "65536 \<le> c" and "c < 1114112"
  obtains h l where "h = 55296 + (c - 65536) div 1024" "l = 56320 + (c - 65536) mod 1024" "h < 65536" "l < 65536"
    "high_surrogate h" "\<not> low_surrogate h" "low_surrogate l" "join_surrogates h l = c"
proof -
  have "(c - 65536) div 1024 < 1024" "(c - 65536) mod 1024 < 1024"
    using assms by (simp_all add: less_mult_imp_div_less)
  moreover have "join_surrogates (55296 + (c - 65536) div 1024) (56320 + (c - 65536) mod 1024) = c"
    using assms div_mult_mod_eq [of "c - 65536" 1024] by (simp add: join_surrogates_def)
  ultimately show thesis
    by (intro that [OF refl refl]) (simp_all add: high_surrogate_def low_surrogate_def)
qed

text \<open>An escape is read back when what follows is not the escape of a low surrogate it could pair with.\<close>

definition apart :: "nat \<Rightarrow> pystr \<Rightarrow> bool" where
  "apart n t \<longleftrightarrow> \<not> high_surrogate n \<or> take 2 t \<noteq> [92, 117] \<or> (\<exists>m r. t = u_escape m @ r \<and> m < 65536 \<and> \<not> low_surrogate m)"

lemma scan_unicode_escape:
  assumes "n < 65536" and "apart n t"
  shows "scan_unicode (drop 2 (u_escape n) @ t) = Some (n, t)"
proof -
  obtain a b c d where n: "u_escape n = [92, 117, a, b, c, d]" "hex4 a b c d = Some n"
    by (rule escape_parts [OF assms(1)])
  show ?thesis
  proof (cases "high_surrogate n \<and> take 2 t = [92, 117]")
    case True
    then obtain m r where m: "t = u_escape m @ r" "m < 65536" "\<not> low_surrogate m"
      using assms(2) by (auto simp: apart_def)
    obtain a' b' c' d' where "u_escape m = [92, 117, a', b', c', d']" "hex4 a' b' c' d' = Some m"
      by (rule escape_parts [OF m(2)])
    with n m True show ?thesis
      by (simp add: scan_unicode_def)
  next
    case False
    with n show ?thesis
      by (auto simp: scan_unicode_def)
  qed
qed

lemma scan_unicode_pair:
  assumes "h < 65536" "l < 65536" "high_surrogate h" "low_surrogate l"
  shows "scan_unicode (drop 2 (u_escape h) @ u_escape l @ t) = Some (join_surrogates h l, t)"
proof -
  obtain a b c d where h: "u_escape h = [92, 117, a, b, c, d]" "hex4 a b c d = Some h"
    by (rule escape_parts [OF assms(1)])
  obtain a' b' c' d' where l: "u_escape l = [92, 117, a', b', c', d']" "hex4 a' b' c' d' = Some l"
    by (rule escape_parts [OF assms(2)])
  show ?thesis
    using h l assms(3,4) by (simp add: scan_unicode_def)
qed

lemma ascii_apart:
  assumes "readable (c # s)"
  shows "apart c (concat (map ascii_char s) @ 34 # r)"
proof (cases s)
  case Nil
  then show ?thesis
    by (simp add: apart_def)
next
  case (Cons d s')
  with assms have d: "\<not> (high_surrogate c \<and> low_surrogate d)" "d < 1114112"
    by (auto simp: readable_def)
  show ?thesis
  proof (cases rule: ascii_char_cases [of d])
    case (simple e)
    with Cons show ?thesis
      by (simp add: apart_def)
  next
    case printable
    with Cons show ?thesis
      by (simp add: apart_def)
  next
    case escaped
    with Cons d show ?thesis
      unfolding apart_def by auto
  next
    case pair
    obtain h where "h < 65536" "\<not> low_surrogate h" "h = 55296 + (d - 65536) div 1024"
      by (rule surrogate_pair [OF pair(2) d(2)])
    with Cons pair(1) show ?thesis
      unfolding apart_def by auto
  qed
qed

lemma scan_ascii_string: "readable s \<Longrightarrow> scan_string (concat (map ascii_char s) @ 34 # r) = Some (s, r)"
proof (induction s)
  case (Cons c s)
  have s: "readable s" "c < 1114112"
    using Cons.prems by (cases s; simp add: readable_def)+
  let ?t = "concat (map ascii_char s) @ 34 # r"
  have "scan_string (ascii_char c @ ?t) = emit c (scan_string ?t)"
  proof (cases rule: ascii_char_cases [of c])
    case (simple e)
    then show ?thesis
      by (simp add: scan_escape_def)
  next
    case printable
    then show ?thesis
      by simp
  next
    case escaped
    obtain a b c' d where n: "u_escape c = [92, 117, a, b, c', d]"
      by (rule escape_parts [OF escaped(2)])
    with escaped(1) scan_unicode_escape [OF escaped(2) ascii_apart [OF Cons.prems], of r] show ?thesis
      by (simp add: scan_escape_def)
  next
    case pair
    obtain h l where hl: "h = 55296 + (c - 65536) div 1024" "l = 56320 + (c - 65536) mod 1024" "h < 65536" "l < 65536"
        "high_surrogate h" "low_surrogate l" "join_surrogates h l = c"
      by (rule surrogate_pair [OF pair(2) s(2)])
    obtain a b c' d where n: "u_escape h = [92, 117, a, b, c', d]"
      by (rule escape_parts [OF hl(3)])
    with pair(1) scan_unicode_pair [OF hl(3-6), of ?t] hl(1,2,7) show ?thesis
      by (simp add: scan_escape_def)
  qed
  with Cons.IH [OF s(1)] show ?case
    by (simp add: emit_def)
qed simp

lemma scan_ascii_key: "readable k \<Longrightarrow> scan_key (ascii_string k @ r) = Inr (k, r)"
  by (simp add: scan_key_def ascii_string_def scan_ascii_string)

section \<open>Values that read back\<close>

fun ascii_plain :: "nat \<Rightarrow> json \<Rightarrow> bool" where
  "ascii_plain d (JFloat _) = False"
| "ascii_plain d (JInt i) = short_int i"
| "ascii_plain d (JStr s) = readable s"
| "ascii_plain d (JArr js) = (0 < d \<and> list_all (ascii_plain (d - 1)) js)"
| "ascii_plain d (JObj ms) = (0 < d \<and> distinct (map fst ms) \<and> list_all (\<lambda>(k, j). readable k \<and> ascii_plain (d - 1) j) ms)"
| "ascii_plain d _ = True"

lemma ascii_head:
  assumes "ascii_plain d j"
  shows "\<exists>c t. dumps_ascii sp fr j = c # t \<and> \<not> is_ws c \<and> c \<noteq> 93 \<and> c \<noteq> 125 \<and> c \<noteq> 65279"
proof (cases j)
  case (JInt i)
  then show ?thesis using int_text_head [of i] by (auto simp: is_digit_def is_ws_def)
qed (use assms in \<open>auto simp: is_ws_def u_def ascii_string_def\<close>)

lemma scan_ascii_scalar:
  assumes "ascii_plain d j" "ends r" "\<And>js. j \<noteq> JArr js" "\<And>ms. j \<noteq> JObj ms"
  shows "scan_value d (dumps_ascii sp fr j @ r) = Inr (j, r)"
proof (cases j)
  case (JStr s)
  then show ?thesis
    using scan_ascii_key [of s r] assms(1) by (subst scan_value.simps) (simp add: ascii_string_def)
next
  case JInt
  with assms(1,2) scan_scalar [of d j r fr] show ?thesis
    by simp
next
  case JNull
  with assms(2) scan_scalar [of d j r fr] show ?thesis
    by simp
next
  case (JBool b)
  with assms(2) scan_scalar [of d j r fr] show ?thesis
    by simp
qed (use assms in auto)

lemma scan_seq_joined:
  assumes item: "\<And>x r. x \<in> set xs \<Longrightarrow> ends r \<Longrightarrow> p (txt x @ r) = Inr (x, r)"
    and head: "\<And>x. x \<in> set xs \<Longrightarrow> \<exists>c t. txt x = c # t \<and> \<not> is_ws c"
    and "xs \<noteq> []" "length xs \<le> n" "close = 93 \<or> close = 125"
  shows "scan_seq p close n (join_by (44 # space_if sp) (map txt xs) @ close # r) = Inr (xs, r)"
  using assms
proof (induction xs arbitrary: n)
  case (Cons x xs)
  then obtain m where n: "n = Suc m" by (cases n) auto
  have close: "ends (close # r)" "\<not> is_ws close" "close \<noteq> 44"
    using Cons.prems(5) by (auto simp: ends_def is_digit_def is_ws_def)
  show ?case
  proof (cases xs)
    case Nil
    then show ?thesis using Cons.prems(1) [of x "close # r"] close n by (simp add: next_char_def skip_ws_def)
  next
    case (Cons y ys)
    let ?rest = "join_by (44 # space_if sp) (map txt xs) @ close # r"
    obtain c t where "txt y = c # t" "\<not> is_ws c" using Cons.prems(2) [of y] Cons by auto
    then have ws: "skip_ws (space_if sp @ ?rest) = ?rest" using Cons by (cases ys) (simp_all add: skip_ws_def space_if_def is_ws_def)
    have "ends (44 # space_if sp @ ?rest)" by (simp add: ends_def is_digit_def)
    then have "p (txt x @ 44 # space_if sp @ ?rest) = Inr (x, 44 # space_if sp @ ?rest)" by (intro Cons.prems(1)) simp
    moreover have "scan_seq p close m ?rest = Inr (xs, r)"
      using Cons.prems n Cons by (intro Cons.IH) auto
    ultimately show ?thesis
      using Cons n ws close by (simp add: next_char_def skip_ws_def is_ws_def)
  qed
qed simp

lemma join_by_length: "(\<And>x. x \<in> set xs \<Longrightarrow> txt x \<noteq> []) \<Longrightarrow> length xs \<le> length (join_by c (map txt xs))"
proof (induction xs)
  case (Cons x xs)
  then have x: "Suc 0 \<le> length (txt x)" by (simp add: Suc_le_eq)
  have "length xs \<le> length (join_by c (map txt xs))"
    using Cons by simp
  with x show ?case by (cases xs) auto
qed simp

lemma scan_items:
  assumes "\<And>x r. x \<in> set xs \<Longrightarrow> ends r \<Longrightarrow> p (txt x @ r) = Inr (x, r)"
    and "\<And>x. x \<in> set xs \<Longrightarrow> \<exists>c t. txt x = c # t \<and> \<not> is_ws c \<and> c \<noteq> close"
    and "xs \<noteq> []" "close = 93 \<or> close = 125" "t = join_by (44 # space_if sp) (map txt xs) @ close # r"
  shows "\<exists>c t'. skip_ws t = c # t' \<and> c \<noteq> close \<and> scan_seq p close (Suc (length t)) (c # t') = Inr (xs, r)"
proof -
  obtain x ys where x: "xs = x # ys"
    using assms(3) by (cases xs) auto
  obtain c q where c: "txt x = c # q" "\<not> is_ws c" "c \<noteq> close"
    using assms(2) [of x] x by auto
  then have "\<exists>t'. t = c # t'"
    using x assms(5) by (cases ys) simp_all
  then obtain t' where t': "t = c # t'"
    by blast
  have "length xs \<le> Suc (length t)"
    using join_by_length [of xs "txt" "44 # space_if sp"] assms(2,5) by fastforce
  then have "scan_seq p close (Suc (length t)) t = Inr (xs, r)"
    unfolding assms(5)
  proof (intro scan_seq_joined)
    show "\<exists>c t. txt y = c # t \<and> \<not> is_ws c" if "y \<in> set xs" for y
      using assms(2) [OF that] by blast
  qed (use assms in auto)
  with t' c show ?thesis
    by (auto simp: skip_ws_def)
qed

lemma scan_ascii_value: "ascii_plain d j \<Longrightarrow> ends r \<Longrightarrow> scan_value d (dumps_ascii sp fr j @ r) = Inr (j, r)"
proof (induction d arbitrary: j r)
  case 0
  then show ?case by (intro scan_ascii_scalar) auto
next
  case (Suc d)
  show ?case
  proof (cases j)
    case (JArr js)
    have js: "\<And>y. y \<in> set js \<Longrightarrow> ascii_plain d y" using Suc.prems JArr by (simp add: list_all_iff)
    show ?thesis
    proof (cases "js = []")
      case True
      then show ?thesis using JArr by (subst scan_value.simps) (simp add: next_char_def skip_ws_def is_ws_def)
    next
      case False
      let ?t = "join_by (44 # space_if sp) (map (dumps_ascii sp fr) js) @ 93 # r"
      have "\<exists>c t'. skip_ws ?t = c # t' \<and> c \<noteq> 93 \<and> scan_seq (scan_value d) 93 (Suc (length ?t)) (c # t') = Inr (js, r)"
        using Suc.IH js ascii_head [OF js] False by (intro scan_items [OF _ _ _ _ refl]) blast+
      then have "scan_value (Suc d) (91 # ?t) = Inr (JArr js, r)"
        using scan_array by blast
      then show ?thesis using JArr by simp
    qed
  next
    case (JObj ms)
    let ?txt = "\<lambda>(k, j). ascii_string k @ 58 # space_if sp @ dumps_ascii sp fr j"
    have ms: "distinct (map fst ms)" "\<And>k v. (k, v) \<in> set ms \<Longrightarrow> readable k \<and> ascii_plain d v"
      using Suc.prems JObj by (auto simp: list_all_iff)
    show ?thesis
    proof (cases "ms = []")
      case True
      then show ?thesis using JObj by (subst scan_value.simps) (simp add: next_char_def skip_ws_def is_ws_def)
    next
      case False
      let ?t = "join_by (44 # space_if sp) (map ?txt ms) @ 125 # r"
      have item: "scan_member (scan_value d) (?txt m @ q) = Inr (m, q)" if "m \<in> set ms" "ends q" for m q
      proof -
        obtain k v where [simp]: "m = (k, v)" by force
        have m: "readable k" "ascii_plain d v" using ms(2) that(1) by auto
        obtain e t' where "dumps_ascii sp fr v = e # t'" "\<not> is_ws e" using ascii_head [OF m(2)] by blast
        then have "skip_ws (space_if sp @ dumps_ascii sp fr v @ q) = dumps_ascii sp fr v @ q"
          by (simp add: skip_ws_def space_if_def is_ws_def)
        then show ?thesis
          using scan_ascii_key [OF m(1), of "58 # space_if sp @ dumps_ascii sp fr v @ q"] Suc.IH [OF m(2) that(2)]
          by (simp add: scan_member_def next_char_def skip_ws_def is_ws_def)
      qed
      have head: "\<exists>c t. ?txt m = c # t \<and> \<not> is_ws c \<and> c \<noteq> 125" for m
        by (cases m) (simp add: ascii_string_def is_ws_def)
      have "\<exists>c t'. skip_ws ?t = c # t' \<and> c \<noteq> 125 \<and> scan_seq (scan_member (scan_value d)) 125 (Suc (length ?t)) (c # t') = Inr (ms, r)"
        using item head False by (intro scan_items [OF _ _ _ _ refl]) blast+
      then have "scan_value (Suc d) (123 # ?t) = Inr (JObj (build_dict ms), r)"
        using scan_object by blast
      then show ?thesis using JObj build_dict_distinct [OF ms(1)] by simp
    qed
  qed (use scan_ascii_scalar [OF Suc.prems] in simp_all)
qed

lemma loads_dumps_ascii:
  assumes "ascii_plain depth j"
  shows "loads depth (dumps_ascii sp fr j) = Inr j"
proof -
  obtain c t where "dumps_ascii sp fr j = c # t" "\<not> is_ws c" "c \<noteq> 65279" using ascii_head [OF assms, of sp fr] by blast
  then show ?thesis
    using scan_ascii_value [OF assms, of "[]" sp fr] by (simp add: loads_def skip_ws_def ends_def)
qed

section \<open>The text is ASCII\<close>

lemma hex_digit_ascii: "d < 16 \<Longrightarrow> hex_digit d < 128"
  by (simp add: hex_digit_def)

lemma escape_ascii: "n < 65536 \<Longrightarrow> c \<in> set (u_escape n) \<Longrightarrow> c < 128"
  by (auto simp: u_escape_def less_mult_imp_div_less intro: hex_digit_ascii)

lemma char_ascii:
  assumes "x < 1114112" and "c \<in> set (ascii_char x)"
  shows "c < 128"
proof (cases rule: ascii_char_cases [of x])
  case (simple e)
  with assms show ?thesis
    by (auto simp: simple_escape_def split: if_splits)
next
  case printable
  with assms show ?thesis
    by simp
next
  case escaped
  with assms escape_ascii show ?thesis
    by auto
next
  case pair
  obtain h l where "h = 55296 + (x - 65536) div 1024" "l = 56320 + (x - 65536) mod 1024" "h < 65536" "l < 65536"
    by (rule surrogate_pair [OF pair(2) assms(1)])
  with pair assms(2) have "c \<in> set (u_escape h) \<or> c \<in> set (u_escape l)"
    by simp
  with \<open>h < 65536\<close> \<open>l < 65536\<close> escape_ascii show ?thesis
    by blast
qed

lemma string_ascii: "readable s \<Longrightarrow> c \<in> set (ascii_string s) \<Longrightarrow> c < 128"
  using char_ascii by (auto simp: ascii_string_def readable_def list_all_iff)

end
