(* ===== verification/Api_Cursors.thy ===== *)
theory Api_Cursors
  imports Auth_Service Ascii_Json
begin

text \<open>
  The page cursors of \<open>src/linguistic_oj/api.py\<close>: a JSON object as URL-safe base64 without padding.  \<open>base64\<close> and the
  decoding of UTF-8 are written out as the standard library documents them (\<open>validate=True\<close>: nothing but the alphabet, no
  excess padding); \<open>utc\<close> tells whether \<open>datetime.fromisoformat\<close> reads a time with a zero UTC offset.
\<close>

section \<open>Base64\<close>

definition b64_digit :: "nat \<Rightarrow> nat" where
  "b64_digit n = (if n < 26 then 65 + n else if n < 52 then 71 + n else if n < 62 then n - 4 else if n = 62 then 45 else 95)"

text \<open>\<open>altchars\<close> are translated to \<open>+\<close> and \<open>/\<close> first, so both spellings are read.\<close>

definition b64_value :: "nat \<Rightarrow> nat option" where
  "b64_value c =
     (if 65 \<le> c \<and> c \<le> 90 then Some (c - 65) else if 97 \<le> c \<and> c \<le> 122 then Some (c - 71)
      else if 48 \<le> c \<and> c \<le> 57 then Some (c + 4) else if c = 45 \<or> c = 43 then Some 62
      else if c = 95 \<or> c = 47 then Some 63 else None)"

fun urlsafe_b64encode :: "nat list \<Rightarrow> pystr" where
  "urlsafe_b64encode [] = []"
| "urlsafe_b64encode [a] = [b64_digit (a div 4), b64_digit (a mod 4 * 16), 61, 61]"
| "urlsafe_b64encode [a, b] = [b64_digit (a div 4), b64_digit (a mod 4 * 16 + b div 16), b64_digit (b mod 16 * 4), 61]"
| "urlsafe_b64encode (a # b # c # bs) =
     b64_digit (a div 4) # b64_digit (a mod 4 * 16 + b div 16) # b64_digit (b mod 16 * 4 + c div 64) # b64_digit (c mod 64) #
     urlsafe_b64encode bs"

definition rstrip_pad :: "pystr \<Rightarrow> pystr" where
  "rstrip_pad s = rev (dropWhile (\<lambda>c. c = 61) (rev s))"

definition padding :: "pystr \<Rightarrow> pystr" where
  "padding s = replicate ((4 - length s mod 4) mod 4) 61"

fun b64_bytes :: "pystr \<Rightarrow> nat list option" where
  "b64_bytes [] = Some []"
| "b64_bytes (a # b # c # d # s) =
     (if c = 61 \<and> d = 61 \<and> s = [] then
        (case (b64_value a, b64_value b) of (Some x, Some y) \<Rightarrow> Some [x * 4 + y div 16] | _ \<Rightarrow> None)
      else if d = 61 \<and> s = [] then
        (case (b64_value a, b64_value b, b64_value c) of
           (Some x, Some y, Some z) \<Rightarrow> Some [x * 4 + y div 16, y mod 16 * 16 + z div 4] | _ \<Rightarrow> None)
      else
        (case (b64_value a, b64_value b, b64_value c, b64_value d) of
           (Some x, Some y, Some z, Some w) \<Rightarrow>
             map_option (\<lambda>t. (x * 4 + y div 16) # (y mod 16 * 16 + z div 4) # (z mod 4 * 64 + w) # t) (b64_bytes s)
         | _ \<Rightarrow> None))"
| "b64_bytes _ = None"

text \<open>\<open>None\<close> is \<open>binascii.Error\<close>; text outside ASCII is a plain \<open>ValueError\<close>.\<close>

definition b64decode :: "pystr \<Rightarrow> nat list option result" where
  "b64decode s = (if list_all (\<lambda>c. c < 128) s then Inr (b64_bytes s)
     else raise ValueError ''string argument should contain only ASCII characters'')"

section \<open>UTF-8\<close>

definition continues :: "nat \<Rightarrow> bool" where
  "continues b \<longleftrightarrow> 128 \<le> b \<and> b < 192"

fun utf8_decode :: "nat list \<Rightarrow> pystr option" where
  "utf8_decode [] = Some []"
| "utf8_decode (a # s) =
     (if a < 128 then map_option ((#) a) (utf8_decode s)
      else (case s of
        [] \<Rightarrow> None
      | b # s1 \<Rightarrow>
          if \<not> continues b then None
          else if 194 \<le> a \<and> a < 224 then map_option ((#) ((a - 192) * 64 + (b - 128))) (utf8_decode s1)
          else (case s1 of
            [] \<Rightarrow> None
          | c # s2 \<Rightarrow>
              if \<not> continues c then None
              else if 224 \<le> a \<and> a < 240 then
                (let n = (a - 224) * 4096 + (b - 128) * 64 + (c - 128)
                 in if n < 2048 \<or> is_surrogate n then None else map_option ((#) n) (utf8_decode s2))
              else (case s2 of
                [] \<Rightarrow> None
              | d # s3 \<Rightarrow>
                  if \<not> continues d \<or> \<not> (240 \<le> a \<and> a < 245) then None
                  else
                    (let n = (a - 240) * 262144 + (b - 128) * 4096 + (c - 128) * 64 + (d - 128)
                     in if n < 65536 \<or> 1114112 \<le> n then None else map_option ((#) n) (utf8_decode s3))))))"

section \<open>Cursors\<close>

definition cursor_text :: "json \<Rightarrow> pystr" where
  "cursor_text j = rstrip_pad (urlsafe_b64encode (dumps_ascii False (\<lambda>_. []) j))"

definition history_cursor :: "pystr \<Rightarrow> pystr \<Rightarrow> pystr" where
  "history_cursor created i = cursor_text (JObj [(u ''created_at'', JStr created), (u ''submission_id'', JStr i), (u ''version'', JInt 1)])"

definition leaderboard_cursor :: "pystr \<Rightarrow> pystr \<Rightarrow> int \<Rightarrow> pystr" where
  "leaderboard_cursor as_of identity rank = cursor_text (JObj [(u ''as_of'', JStr as_of),
     (u ''evaluation_identity_sha256'', JStr identity), (u ''rank'', JInt rank), (u ''version'', JInt 1)])"

text \<open>
  The value of a cursor: \<open>binascii.Error\<close>, \<open>UnicodeDecodeError\<close> and \<open>JSONDecodeError\<close> are caught and give \<open>None\<close>, any other
  exception leaves the handler.
\<close>

definition cursor_value :: "nat \<Rightarrow> pystr \<Rightarrow> json answer" where
  "cursor_value depth cursor =
     (case b64decode (cursor @ padding cursor) of
        Inl e \<Rightarrow> Inl (Fault e)
      | Inr None \<Rightarrow> Inr JNull
      | Inr (Some bs) \<Rightarrow>
          (case utf8_decode bs of
             None \<Rightarrow> Inr JNull
           | Some t \<Rightarrow>
               (case loads depth t of
                  Inr j \<Rightarrow> Inr j
                | Inl JSONDecodeError \<Rightarrow> Inr JNull
                | Inl IntDigitLimit \<Rightarrow> Inl (Fault (Exc ValueError ''Exceeds the limit for integer string conversion''))
                | Inl RecursionLimit \<Rightarrow> Inl (Fault (Exc RecursionError ''maximum recursion depth exceeded'')))))"

definition has_keys :: "(pystr \<times> json) list \<Rightarrow> string list \<Rightarrow> bool" where
  "has_keys ms ks \<longleftrightarrow> fst ` set ms = u ` set ks"

text \<open>\<open>value["version"] != 1\<close> also accepts \<open>True\<close> and \<open>1.0\<close>.\<close>

definition version_one :: "json \<Rightarrow> bool" where
  "version_one j \<longleftrightarrow> j = JInt 1 \<or> j = JBool True \<or> j = JFloat (Fin 1)"

definition is_submission_id :: "pystr \<Rightarrow> bool" where
  "is_submission_id i \<longleftrightarrow> length i = 32 \<and> list_all (\<lambda>c. 48 \<le> c \<and> c \<le> 57 \<or> 97 \<le> c \<and> c \<le> 102) i"

definition decode_history_cursor :: "(pystr \<Rightarrow> bool) \<Rightarrow> nat \<Rightarrow> pystr option \<Rightarrow> (pystr \<times> pystr) option answer" where
  "decode_history_cursor utc depth cursor =
     (case cursor of
        None \<Rightarrow> Inr None
      | Some c \<Rightarrow>
          rbind (cursor_value depth c) (\<lambda>j.
            (case j of
               JObj ms \<Rightarrow>
                 if has_keys ms [''created_at'', ''submission_id'', ''version''] \<and> version_one (json_get ms ''version'')
                 then (case (json_get ms ''created_at'', json_get ms ''submission_id'') of
                         (JStr t, JStr i) \<Rightarrow>
                           if utc t \<and> is_submission_id i then Inr (Some (t, i)) else auth_error ''INVALID_SUBMISSION_CURSOR'' 422
                       | _ \<Rightarrow> auth_error ''INVALID_SUBMISSION_CURSOR'' 422)
                 else auth_error ''INVALID_SUBMISSION_CURSOR'' 422
             | _ \<Rightarrow> auth_error ''INVALID_SUBMISSION_CURSOR'' 422)))"

text \<open>Without a cursor the board is read as of \<open>now\<close>.\<close>

definition decode_leaderboard_cursor :: "(pystr \<Rightarrow> bool) \<Rightarrow> nat \<Rightarrow> pystr \<Rightarrow> pystr \<Rightarrow> pystr option \<Rightarrow> (pystr \<times> int) answer" where
  "decode_leaderboard_cursor utc depth now identity cursor =
     (case cursor of
        None \<Rightarrow> Inr (now, 0)
      | Some c \<Rightarrow>
          rbind (cursor_value depth c) (\<lambda>j.
            (case j of
               JObj ms \<Rightarrow>
                 if has_keys ms [''as_of'', ''evaluation_identity_sha256'', ''rank'', ''version''] \<and>
                    version_one (json_get ms ''version'') \<and> json_get ms ''evaluation_identity_sha256'' = JStr identity
                 then (case (json_get ms ''as_of'', json_get ms ''rank'') of
                         (JStr t, JInt n) \<Rightarrow> if utc t \<and> 0 < n then Inr (t, n) else auth_error ''INVALID_LEADERBOARD_CURSOR'' 422
                       | _ \<Rightarrow> auth_error ''INVALID_LEADERBOARD_CURSOR'' 422)
                 else auth_error ''INVALID_LEADERBOARD_CURSOR'' 422
             | _ \<Rightarrow> auth_error ''INVALID_LEADERBOARD_CURSOR'' 422)))"

section \<open>Base64 reads back\<close>

lemma b64_value_digit: "n < 64 \<Longrightarrow> b64_value (b64_digit n) = Some n"
  by (auto simp: b64_value_def b64_digit_def)

lemma b64_digit_char: "n < 64 \<Longrightarrow> b64_digit n \<noteq> 61 \<and> b64_digit n < 128"
  by (auto simp: b64_digit_def)

lemma b64_parts:
  assumes "a < 256" and "b < 256" and "c < (256::nat)"
  shows "a div 4 < 64" "a mod 4 * 16 < 64" "a mod 4 * 16 + b div 16 < 64" "b mod 16 * 4 < 64" "b mod 16 * 4 + c div 64 < 64" "c mod 64 < 64"
proof -
  have "a div 4 < 64" "b div 16 < 16" "c div 64 < 4" "a mod 4 < 4" "b mod 16 < 16" "c mod 64 < 64"
    using assms by (simp_all add: less_mult_imp_div_less)
  then show "a div 4 < 64" "a mod 4 * 16 < 64" "a mod 4 * 16 + b div 16 < 64" "b mod 16 * 4 < 64" "b mod 16 * 4 + c div 64 < 64"
      "c mod 64 < 64"
    by linarith+
qed

lemma b64_join:
  assumes "a < 256" and "b < 256" and "c < (256::nat)"
  shows "a div 4 * 4 + a mod 4 * 16 div 16 = a" "a div 4 * 4 + (a mod 4 * 16 + b div 16) div 16 = a"
    "(a mod 4 * 16 + b div 16) mod 16 * 16 + b mod 16 * 4 div 4 = b"
    "(a mod 4 * 16 + b div 16) mod 16 * 16 + (b mod 16 * 4 + c div 64) div 4 = b"
    "(b mod 16 * 4 + c div 64) mod 4 * 64 + c mod 64 = c"
proof -
  have less: "b div 16 < 16" "c div 64 < 4"
    using assms by (simp_all add: less_mult_imp_div_less)
  then show "a div 4 * 4 + a mod 4 * 16 div 16 = a" "a div 4 * 4 + (a mod 4 * 16 + b div 16) div 16 = a"
      "(a mod 4 * 16 + b div 16) mod 16 * 16 + b mod 16 * 4 div 4 = b"
      "(a mod 4 * 16 + b div 16) mod 16 * 16 + (b mod 16 * 4 + c div 64) div 4 = b"
      "(b mod 16 * 4 + c div 64) mod 4 * 64 + c mod 64 = c"
    using div_mult_mod_eq [of a 4] div_mult_mod_eq [of b 16] div_mult_mod_eq [of c 64] by simp_all
qed

lemma b64_roundtrip: "list_all (\<lambda>b. b < 256) bs \<Longrightarrow> b64_bytes (urlsafe_b64encode bs) = Some bs"
proof (induction bs rule: urlsafe_b64encode.induct)
  case (2 a)
  then show ?case
    using b64_parts [of a 0 0] b64_join [of a 0 0] by (simp add: b64_value_digit)
next
  case (3 a b)
  then show ?case
    using b64_parts [of a b 0] b64_join [of a b 0] by (simp add: b64_value_digit b64_digit_char)
next
  case (4 a b c bs)
  then show ?case
    using b64_parts [of a b c] b64_join [of a b c] less_mult_imp_div_less [of b 16 16]
    by (simp add: b64_value_digit b64_digit_char)
qed simp

lemma b64_text:
  assumes "list_all (\<lambda>b. b < 256) bs"
  shows "\<exists>body k. urlsafe_b64encode bs = body @ replicate k 61 \<and> list_all (\<lambda>c. c < 128 \<and> c \<noteq> 61) body \<and>
    (4 - length body mod 4) mod 4 = k"
  using assms
proof (induction bs rule: urlsafe_b64encode.induct)
  case 1
  show ?case by simp
next
  case (2 a)
  then have "b64_digit (a div 4) \<noteq> 61 \<and> b64_digit (a div 4) < 128" "b64_digit (a mod 4 * 16) \<noteq> 61 \<and> b64_digit (a mod 4 * 16) < 128"
    using b64_parts [of a 0 0] by (simp_all add: b64_digit_char)
  then show ?case
    by (intro exI [of _ "[b64_digit (a div 4), b64_digit (a mod 4 * 16)]"] exI [of _ 2]) (simp add: numeral_2_eq_2)
next
  case (3 a b)
  then show ?case
    using b64_parts [of a b 0] b64_digit_char
    by (intro exI [of _ "[b64_digit (a div 4), b64_digit (a mod 4 * 16 + b div 16), b64_digit (b mod 16 * 4)]"] exI [of _ 1]) simp
next
  case (4 a b c bs)
  then obtain body k where IH: "urlsafe_b64encode bs = body @ replicate k 61" "list_all (\<lambda>c. c < 128 \<and> c \<noteq> 61) body"
      "(4 - length body mod 4) mod 4 = k"
    by auto
  let ?h = "[b64_digit (a div 4), b64_digit (a mod 4 * 16 + b div 16), b64_digit (b mod 16 * 4 + c div 64), b64_digit (c mod 64)]"
  have "list_all (\<lambda>c. c < 128 \<and> c \<noteq> 61) ?h"
    using 4 b64_parts [of a b c] b64_digit_char by simp
  moreover have "length (?h @ body) mod 4 = length body mod 4"
    by simp
  ultimately show ?case
    using IH by (intro exI [of _ "?h @ body"] exI [of _ k]) (simp del: length_append add: list_all_append)
qed

lemma pad_restored:
  assumes "list_all (\<lambda>b. b < 256) bs"
  defines "t \<equiv> rstrip_pad (urlsafe_b64encode bs)"
  shows "t @ padding t = urlsafe_b64encode bs" and "list_all (\<lambda>c. c < 128) (urlsafe_b64encode bs)"
proof -
  obtain body k where b: "urlsafe_b64encode bs = body @ replicate k 61" "list_all (\<lambda>c. c < 128 \<and> c \<noteq> 61) body"
      "(4 - length body mod 4) mod 4 = k"
    using b64_text [OF assms(1)] by blast
  have "dropWhile (\<lambda>c. c = 61) (replicate k 61 @ rev body) = dropWhile (\<lambda>c. c = 61) (rev body)"
    by (intro dropWhile_append2) simp
  also have "\<dots> = rev body"
    using b(2) by (cases body rule: rev_cases) simp_all
  finally have "dropWhile (\<lambda>c. c = 61) (replicate k 61 @ rev body) = rev body" .
  then have "t = body"
    using b(1) by (simp add: t_def rstrip_pad_def)
  with b show "t @ padding t = urlsafe_b64encode bs" "list_all (\<lambda>c. c < 128) (urlsafe_b64encode bs)"
    by (auto simp: padding_def list_all_iff)
qed

lemma utf8_ascii: "list_all (\<lambda>c. c < 128) t \<Longrightarrow> utf8_decode t = Some t"
  by (induction t) simp_all

section \<open>Cursors read back\<close>

lemma cursor_value_text:
  assumes "ascii_plain depth j" and "list_all (\<lambda>c. c < 128) (dumps_ascii False (\<lambda>_. []) j)"
  shows "cursor_value depth (cursor_text j) = Inr j"
proof -
  let ?t = "dumps_ascii False (\<lambda>_. []) j"
  have bytes: "list_all (\<lambda>b. b < 256) ?t"
    using assms(2) by (simp add: list_all_iff) fastforce
  show ?thesis
    using pad_restored [OF bytes] b64_roundtrip [OF bytes] utf8_ascii [OF assms(2)] loads_dumps_ascii [OF assms(1)]
    by (simp add: cursor_value_def cursor_text_def b64decode_def)
qed

lemma nat_text_ascii: "c \<in> set (nat_text n) \<Longrightarrow> c < 128"
proof (induction n rule: nat_text.induct)
  case (1 n)
  then show ?case
    by (subst (asm) nat_text.simps) (auto split: if_splits)
qed

lemma int_text_ascii: "c \<in> set (int_text i) \<Longrightarrow> c < 128"
  by (auto simp: int_text_def nat_text_ascii split: if_splits)

lemma short_one: "short_int 1"
  by (subst short_int_def, simp, subst nat_text.simps) (simp add: max_int_digits_def)

lemma ascii_unjoined: "\<forall>c\<in>set s. c < 128 \<Longrightarrow> unjoined s"
  by (induction s rule: unjoined.induct) (auto simp: high_surrogate_def)

lemma ascii_readable: "\<forall>c\<in>set s. c < 128 \<Longrightarrow> readable s"
  by (auto simp: readable_def list_all_iff ascii_unjoined)

lemma submission_id_readable: "is_submission_id i \<Longrightarrow> readable i"
  by (intro ascii_readable) (auto simp: is_submission_id_def list_all_iff)

lemmas cursor_ascii = int_text_ascii string_ascii

lemmas cursor_keys = has_keys_def json_get_def u_def version_one_def

lemma history_cursor_read:
  assumes "utc created" and "readable created" and "is_submission_id i" and "0 < depth"
  shows "decode_history_cursor utc depth (Some (history_cursor created i)) = Inr (Some (created, i))"
proof -
  let ?j = "JObj [(u ''created_at'', JStr created), (u ''submission_id'', JStr i), (u ''version'', JInt 1)]"
  have keys: "readable (u ''created_at'')" "readable (u ''submission_id'')" "readable (u ''version'')"
    by (simp_all add: u_def readable_def high_surrogate_def)
  have "ascii_plain depth ?j"
    using assms keys submission_id_readable [OF assms(3)] short_one by (simp add: u_def)
  moreover have "list_all (\<lambda>c. c < 128) (dumps_ascii False (\<lambda>_. []) ?j)"
    using keys assms(2) submission_id_readable [OF assms(3)] by (auto simp: list_all_iff space_if_def dest: cursor_ascii)
  ultimately show ?thesis
    using assms by (simp add: decode_history_cursor_def history_cursor_def cursor_value_text cursor_keys)
qed

text \<open>
  The cursor of a page is read back by the next request as the time and the submission it was made of.  The text of a time is
  ASCII, so it is \<open>readable\<close>.
\<close>

theorem history_cursor_roundtrip:
  assumes "utc created" and "readable created" and "is_submission_id i" and "0 < depth"
  shows "decode_history_cursor utc depth (Some (history_cursor created i)) = Inr (Some (created, i))"
  using assms by (rule history_cursor_read)

lemma history_cursor_roundtrip_witness:
  "decode_history_cursor (\<lambda>t. t = u ''2026-07-01T00:00:00.000000+00:00'') 900
     (Some (history_cursor (u ''2026-07-01T00:00:00.000000+00:00'') (replicate 32 97))) =
   Inr (Some (u ''2026-07-01T00:00:00.000000+00:00'', replicate 32 97))"
proof (rule history_cursor_roundtrip)
  show "readable (u ''2026-07-01T00:00:00.000000+00:00'')"
    by (rule ascii_readable) (simp add: u_def)
qed (simp_all add: is_submission_id_def list_all_iff)

text \<open>C38. The same holds of the leaderboard, whose cursor is only read for the identity it was made for.\<close>

theorem leaderboard_cursor_roundtrip:
  assumes "utc as_of" and "readable as_of" and "readable identity" and "short_int rank" and "0 < rank" and "0 < depth"
  shows "decode_leaderboard_cursor utc depth now requested (Some (leaderboard_cursor as_of identity rank)) =
    (if requested = identity then Inr (as_of, rank) else auth_error ''INVALID_LEADERBOARD_CURSOR'' 422)"
proof -
  let ?j = "JObj [(u ''as_of'', JStr as_of), (u ''evaluation_identity_sha256'', JStr identity), (u ''rank'', JInt rank),
    (u ''version'', JInt 1)]"
  have keys: "readable (u ''as_of'')" "readable (u ''evaluation_identity_sha256'')" "readable (u ''rank'')" "readable (u ''version'')"
    by (simp_all add: u_def readable_def high_surrogate_def)
  have "ascii_plain depth ?j"
    using assms keys short_one by (simp add: u_def)
  moreover have "list_all (\<lambda>c. c < 128) (dumps_ascii False (\<lambda>_. []) ?j)"
    using keys assms(2,3) by (auto simp: list_all_iff space_if_def dest: cursor_ascii)
  ultimately show ?thesis
    using assms by (auto simp: decode_leaderboard_cursor_def leaderboard_cursor_def cursor_value_text cursor_keys)
qed

lemma leaderboard_cursor_roundtrip_witness:
  "decode_leaderboard_cursor (\<lambda>t. t = u ''2026-07-01'') 900 [] (u ''ab'') (Some (leaderboard_cursor (u ''2026-07-01'') (u ''ab'') 1)) =
   Inr (u ''2026-07-01'', 1)"
  using leaderboard_cursor_roundtrip [of "\<lambda>t. t = u ''2026-07-01''" "u ''2026-07-01''" "u ''ab''" 1 900 "[]" "u ''ab''"] short_one
  by (simp add: ascii_readable u_def)

lemma cursor_value_faults:
  "(\<exists>e. cursor_value depth c = Inl (Fault e)) \<longleftrightarrow>
    \<not> list_all (\<lambda>x. x < 128) c \<or>
    (\<exists>bs t. b64_bytes (c @ padding c) = Some bs \<and> utf8_decode bs = Some t \<and> loads depth t \<in> Inl ` {IntDigitLimit, RecursionLimit})"
proof -
  have "list_all (\<lambda>x. x < 128) (c @ padding c) = list_all (\<lambda>x. x < 128) c"
    unfolding padding_def list_all_append by (simp add: list_all_iff)
  then show ?thesis
    by (auto simp: cursor_value_def b64decode_def list_all_iff padding_def
      split: option.splits sum.splits loads_error.splits if_splits)
qed

lemma history_decode_faults:
  "(\<exists>e. decode_history_cursor utc depth (Some c) = Inl (Fault e)) \<longleftrightarrow> (\<exists>e. cursor_value depth c = Inl (Fault e))"
proof (cases "cursor_value depth c")
  case (Inl e)
  then show ?thesis
    by (simp add: decode_history_cursor_def)
next
  case (Inr j)
  then show ?thesis
  proof (cases j)
    case (JObj ms)
    with Inr show ?thesis
      by (cases "json_get ms ''created_at''"; cases "json_get ms ''submission_id''") (auto simp: decode_history_cursor_def auth_error_def)
  qed (simp_all add: decode_history_cursor_def auth_error_def)
qed

lemma leaderboard_decode_faults:
  "(\<exists>e. decode_leaderboard_cursor utc depth now identity (Some c) = Inl (Fault e)) \<longleftrightarrow> (\<exists>e. cursor_value depth c = Inl (Fault e))"
proof (cases "cursor_value depth c")
  case (Inl e)
  then show ?thesis
    by (simp add: decode_leaderboard_cursor_def)
next
  case (Inr j)
  then show ?thesis
  proof (cases j)
    case (JObj ms)
    with Inr show ?thesis
      by (cases "json_get ms ''as_of''"; cases "json_get ms ''rank''") (auto simp: decode_leaderboard_cursor_def auth_error_def)
  qed (simp_all add: decode_leaderboard_cursor_def auth_error_def)
qed

lemma cursor_value_non_ascii:
  assumes "\<not> list_all (\<lambda>x. x < 128) c"
  shows "cursor_value depth c = Inl (Fault (Exc ValueError ''string argument should contain only ASCII characters''))"
  using assms by (auto simp: cursor_value_def b64decode_def list_all_iff)

text \<open>The bytes of a cursor are UTF-8 text over a limit of the JSON reader.\<close>

definition over_reader_limits :: "nat \<Rightarrow> pystr \<Rightarrow> bool" where
  "over_reader_limits depth c \<longleftrightarrow> (\<exists>bs t. b64_bytes (c @ padding c) = Some bs \<and> utf8_decode bs = Some t \<and>
     loads depth t \<in> Inl ` {IntDigitLimit, RecursionLimit})"

text \<open>C39. 
  A cursor, of a history or of a leaderboard, that holds a character outside ASCII makes \<open>base64.b64decode\<close> raise a \<open>ValueError\<close>
  that no clause of the handler catches, so that the request ends as an internal error and not with the 422 of an invalid cursor.
  The only other cursors that end so hold a number or a nesting over the limits of the JSON reader.
\<close>

theorem non_ascii_cursor_escapes:
  "(\<not> list_all (\<lambda>x. x < 128) c \<longrightarrow>
      decode_history_cursor utc depth (Some c) = Inl (Fault (Exc ValueError ''string argument should contain only ASCII characters'')) \<and>
      decode_leaderboard_cursor utc depth now identity (Some c) =
        Inl (Fault (Exc ValueError ''string argument should contain only ASCII characters''))) \<and>
   (\<exists>e. decode_history_cursor utc depth (Some c) = Inl (Fault e)) =
     (\<not> list_all (\<lambda>x. x < 128) c \<or> over_reader_limits depth c) \<and>
   (\<exists>e. decode_leaderboard_cursor utc depth now identity (Some c) = Inl (Fault e)) =
     (\<not> list_all (\<lambda>x. x < 128) c \<or> over_reader_limits depth c)"
proof -
  have "decode_history_cursor utc depth (Some c) = Inl (Fault (Exc ValueError ''string argument should contain only ASCII characters''))"
      "decode_leaderboard_cursor utc depth now identity (Some c) =
        Inl (Fault (Exc ValueError ''string argument should contain only ASCII characters''))"
    if "\<not> list_all (\<lambda>x. x < 128) c"
    using cursor_value_non_ascii [OF that] by (simp_all add: decode_history_cursor_def decode_leaderboard_cursor_def)
  then show ?thesis
    by (simp only: history_decode_faults leaderboard_decode_faults cursor_value_faults over_reader_limits_def) blast
qed

theorem non_ascii_cursor_escapes_witness:
  "decode_history_cursor (\<lambda>_. True) 900 (Some [233]) = Inl (Fault (Exc ValueError ''string argument should contain only ASCII characters'')) \<and>
   decode_leaderboard_cursor (\<lambda>_. True) 900 [] (u ''ab'') (Some [233]) =
     Inl (Fault (Exc ValueError ''string argument should contain only ASCII characters''))"
  using non_ascii_cursor_escapes [of "[233]" "\<lambda>_. True" 900 "[]" "u ''ab''"] by simp

end
