(* ===== verification/Admin_Store.thy ===== *)
theory Admin_Store
  imports Auth_Store Store_Properties Json_Roundtrip
begin

text \<open>
  The teaching policy of \<open>src/linguistic_oj/admin_store.py\<close>: drafts, published content and the admission switch of each
  challenge, changed only by an administrator who names the revision he saw, with an append-only history.  A change is
  one transaction.  \<open>ctl\<close> holds of the code points of the Unicode categories Cc, Cf and Cs; \<open>parse\<close> is pydantic's
  \<open>TeachingContent.model_validate_json\<close>.  Snapshots in the history are kept as values, where the code keeps their JSON.
\<close>

section \<open>Teaching content\<close>

record teaching_content =
  tc_title :: pystr
  tc_summary :: pystr
  tc_instructions :: pystr
  tc_zero_shot :: pystr
  tc_few_shot :: pystr

definition ADMIN_BODY_BYTES :: nat where
  "ADMIN_BODY_BYTES = 16 * 1024"

definition MAX_EXPECTED_REVISION :: int where
  "MAX_EXPECTED_REVISION = 9223372036854775806"

definition content_json :: "teaching_content \<Rightarrow> json" where
  "content_json c = JObj
     [(u ''few_shot_prompt'', JStr (tc_few_shot c)), (u ''instructions'', JStr (tc_instructions c)),
      (u ''summary'', JStr (tc_summary c)), (u ''title'', JStr (tc_title c)), (u ''zero_shot_prompt'', JStr (tc_zero_shot c))]"

definition content_text :: "teaching_content \<Rightarrow> pystr" where
  "content_text c = dumps (\<lambda>_. []) (content_json c)"

definition envelope_text :: "teaching_content \<Rightarrow> pystr" where
  "envelope_text c = dumps (\<lambda>_. [])
     (JObj [(u ''content'', content_json c), (u ''expected_revision'', JInt MAX_EXPECTED_REVISION)])"

definition bounded_text :: "nat \<Rightarrow> nat \<Rightarrow> pystr \<Rightarrow> bool" where
  "bounded_text lo hi s \<longleftrightarrow> lo \<le> length s \<and> length s \<le> hi"

definition plain_text :: "(nat \<Rightarrow> bool) \<Rightarrow> pystr \<Rightarrow> bool" where
  "plain_text ctl s \<longleftrightarrow> list_all (\<lambda>ch. ch = 10 \<or> \<not> ctl ch) s"

definition field_sizes :: "teaching_content \<Rightarrow> bool" where
  "field_sizes c \<longleftrightarrow> bounded_text 1 120 (tc_title c) \<and> bounded_text 0 500 (tc_summary c) \<and>
     bounded_text 1 4000 (tc_instructions c) \<and> bounded_text 1 3000 (tc_zero_shot c) \<and> bounded_text 1 3000 (tc_few_shot c)"

definition safe_text :: "(nat \<Rightarrow> bool) \<Rightarrow> teaching_content \<Rightarrow> bool" where
  "safe_text ctl c \<longleftrightarrow>
     list_all (\<lambda>s. py_strip s \<noteq> []) [tc_title c, tc_instructions c, tc_zero_shot c, tc_few_shot c] \<and>
     list_all (plain_text ctl) [tc_title c, tc_summary c, tc_instructions c, tc_zero_shot c, tc_few_shot c] \<and>
     (case utf8 (envelope_text c) of Inl _ \<Rightarrow> False | Inr bs \<Rightarrow> length bs \<le> ADMIN_BODY_BYTES)"

definition valid_content :: "(nat \<Rightarrow> bool) \<Rightarrow> teaching_content \<Rightarrow> bool" where
  "valid_content ctl c \<longleftrightarrow> field_sizes c \<and> safe_text ctl c"

section \<open>State\<close>

record admin_state =
  an_challenge :: pystr
  an_source :: "pystr option"
  an_revision :: int
  an_draft :: "pystr option"
  an_published :: "pystr option"
  an_published_revision :: int
  an_published_source :: "pystr option"
  an_closed :: bool

definition AdminState :: "pystr \<Rightarrow> admin_state" where
  "AdminState challenge = \<lparr>an_challenge = challenge, an_source = None, an_revision = 0, an_draft = None, an_published = None,
     an_published_revision = 0, an_published_source = None, an_closed = False\<rparr>"

definition matches :: "admin_state \<Rightarrow> pystr \<Rightarrow> bool" where
  "matches s fingerprint \<longleftrightarrow> an_source s = None \<or> an_source s = Some fingerprint"

definition closed_for :: "admin_state \<Rightarrow> pystr \<Rightarrow> bool" where
  "closed_for s fingerprint \<longleftrightarrow> an_closed s \<or> \<not> matches s fingerprint"

text \<open>Content that cannot be read any more raises in the code; it is \<open>None\<close> inside the option here.\<close>

definition published_content :: "(pystr \<Rightarrow> teaching_content option) \<Rightarrow> admin_state \<Rightarrow> pystr \<Rightarrow> teaching_content option option" where
  "published_content parse s fingerprint =
     (if an_published_source s \<noteq> Some fingerprint then None else map_option parse (an_published s))"

datatype admin_issue = Source_Changed | Draft_Required | Draft_Invalid

definition issues :: "(pystr \<Rightarrow> teaching_content option) \<Rightarrow> admin_state \<Rightarrow> pystr \<Rightarrow> admin_issue list" where
  "issues parse s fingerprint =
     (if matches s fingerprint then [] else [Source_Changed]) @
     (case an_draft s of
        None \<Rightarrow> [Draft_Required]
      | Some t \<Rightarrow> if parse t = None then [Draft_Invalid] else [])"

fun issue_code :: "admin_issue \<Rightarrow> string" where
  "issue_code Source_Changed = ''ADMIN_SOURCE_CHANGED''"
| "issue_code Draft_Required = ''ADMIN_DRAFT_REQUIRED''"
| "issue_code Draft_Invalid = ''ADMIN_DRAFT_INVALID''"

datatype admin_action = Save teaching_content | Check | Publish | Admissions bool

datatype action_name = A_Save | A_Publish | A_Admissions

record revision_row =
  rv_challenge :: pystr
  rv_revision :: int
  rv_action :: action_name
  rv_operator :: pystr
  rv_created :: int
  rv_previous :: admin_state
  rv_next :: admin_state

record admin_db =
  am_auth :: auth_db
  am_states :: "admin_state list"
  am_revisions :: "revision_row list"

record admin_actor =
  aa_token :: pystr
  aa_expected :: "pystr option"

section \<open>Transactions\<close>

definition admin_authorize :: "auth_db \<Rightarrow> int \<Rightarrow> admin_actor \<Rightarrow> pystr result" where
  "admin_authorize A now actor =
     (case concat (map (\<lambda>s. filter (\<lambda>x. us_id x = as_user s) (au_users A))
             (filter (\<lambda>s. as_token s = aa_token actor \<and> now < as_expires s) (au_sessions A))) of
        [] \<Rightarrow> raise AdminError ''AUTH_INVALID_TOKEN''
      | x # _ \<Rightarrow>
          if aa_expected actor \<noteq> None \<and> aa_expected actor \<noteq> Some (us_id x) then raise AdminError ''AUTH_ACCOUNT_CHANGED''
          else if \<not> us_admin x then raise AdminError ''ADMIN_REQUIRED''
          else Inr (us_id x))"

definition stored_state :: "admin_db \<Rightarrow> pystr \<Rightarrow> admin_state option" where
  "stored_state D challenge = find (\<lambda>s. an_challenge s = challenge) (am_states D)"

definition state_of :: "admin_db \<Rightarrow> pystr \<Rightarrow> admin_state" where
  "state_of D challenge = (case stored_state D challenge of None \<Rightarrow> AdminState challenge | Some s \<Rightarrow> s)"

definition admin_states :: "admin_db \<Rightarrow> int \<Rightarrow> pystr list \<Rightarrow> admin_actor option \<Rightarrow> (pystr \<times> admin_state) list result" where
  "admin_states D now challenges actor =
     rbind (case actor of None \<Rightarrow> Inr () | Some a \<Rightarrow> rbind (admin_authorize (am_auth D) now a) (\<lambda>_. Inr ())) (\<lambda>_.
       Inr (map (\<lambda>ch. (ch, state_of D ch)) (rev (remdups (rev challenges)))))"

text \<open>\<open>INSERT ... ON CONFLICT(challenge_id) DO UPDATE\<close>.\<close>

definition upsert :: "admin_state \<Rightarrow> admin_state list \<Rightarrow> admin_state list" where
  "upsert s rows =
     (if an_challenge s \<in> an_challenge ` set rows then map (\<lambda>r. if an_challenge r = an_challenge s then s else r) rows
      else rows @ [s])"

definition name_of :: "admin_action \<Rightarrow> action_name" where
  "name_of a = (case a of Save _ \<Rightarrow> A_Save | Publish \<Rightarrow> A_Publish | _ \<Rightarrow> A_Admissions)"

text \<open>The state that an accepted operation writes; a check is answered before.\<close>

definition next_state :: "(pystr \<Rightarrow> teaching_content option) \<Rightarrow> pystr \<Rightarrow> bool \<Rightarrow> bool \<Rightarrow> admin_action \<Rightarrow> admin_state
    \<Rightarrow> admin_state result" where
  "next_state parse fingerprint has_contract can_reopen action previous =
     (let current = previous\<lparr>an_revision := an_revision previous + 1\<rparr>
      in (case action of
            Save c \<Rightarrow>
              Inr (current\<lparr>an_source := Some fingerprint, an_draft := Some (content_text c),
                an_closed := an_closed previous \<or> has_contract \<and> \<not> matches previous fingerprint\<rparr>)
          | _ \<Rightarrow>
              if \<not> matches previous fingerprint then raise AdminError ''ADMIN_SOURCE_CHANGED''
              else
                (let current = current\<lparr>an_source := Some fingerprint\<rparr>
                 in (case action of
                       Admissions off \<Rightarrow>
                         if \<not> has_contract \<or> \<not> off \<and> \<not> can_reopen then raise AdminError ''CHALLENGE_NOT_OPEN''
                         else Inr (current\<lparr>an_closed := off\<rparr>)
                     | _ \<Rightarrow>
                         (case issues parse previous fingerprint of
                            i # _ \<Rightarrow> raise AdminError (issue_code i)
                          | [] \<Rightarrow> Inr (current\<lparr>an_published := an_draft previous, an_published_revision := an_revision current,
                                 an_published_source := Some fingerprint\<rparr>))))))"

datatype admin_answer = Changed admin_state | Checked bool "admin_issue list" int

text \<open>
  \<open>now\<close> is the time at which the transaction begins and \<open>now'\<close> the time after the lock of the challenge was awaited: the
  session is checked at both.
\<close>

definition admin_change :: "(nat \<Rightarrow> bool) \<Rightarrow> (pystr \<Rightarrow> teaching_content option) \<Rightarrow> admin_db \<Rightarrow> int \<Rightarrow> int \<Rightarrow> pystr \<Rightarrow> pystr
    \<Rightarrow> admin_actor \<Rightarrow> int \<Rightarrow> admin_action \<Rightarrow> bool \<Rightarrow> bool \<Rightarrow> (admin_answer \<times> admin_db) result" where
  "admin_change ctl parse D now now' challenge fingerprint actor expected action has_contract can_reopen =
     rbind (ensure (0 \<le> expected \<and> expected \<le> MAX_EXPECTED_REVISION) (Exc ValueError ''invalid expected revision'')) (\<lambda>_.
     rbind (ensure (aa_expected actor \<noteq> None) (Exc AdminError ''AUTH_ACCOUNT_CHANGED'')) (\<lambda>_.
     rbind (case action of
              Save c \<Rightarrow> ensure (valid_content ctl c) (Exc ValidationError ''TeachingContent'')
            | _ \<Rightarrow> Inr ()) (\<lambda>_.
     rbind (admin_authorize (am_auth D) now actor) (\<lambda>_.
     rbind (admin_authorize (am_auth D) now' actor) (\<lambda>operator.
       (let previous = state_of D challenge
        in rbind (ensure (an_revision previous = expected) (Exc AdminError ''ADMIN_REVISION_CONFLICT'')) (\<lambda>_.
           if action = Check
           then (let found = issues parse previous fingerprint in Inr (Checked (found = []) found (an_revision previous), D))
           else
             rbind (next_state parse fingerprint has_contract can_reopen action previous) (\<lambda>current.
             rbind (ensure ((challenge, an_revision current) \<notin> (\<lambda>v. (rv_challenge v, rv_revision v)) ` set (am_revisions D))
               (Exc AuthConflictError ''account constraint rejected'')) (\<lambda>_.
               Inr (Changed current,
                 D\<lparr>am_states := upsert current (am_states D),
                   am_revisions := am_revisions D @
                     [\<lparr>rv_challenge = challenge, rv_revision = an_revision current, rv_action = name_of action,
                       rv_operator = operator, rv_created = now', rv_previous = previous, rv_next = current\<rparr>]\<rparr>))))))))))"

section \<open>Reachable states\<close>

inductive admin_step :: "(nat \<Rightarrow> bool) \<Rightarrow> (pystr \<Rightarrow> teaching_content option) \<Rightarrow> admin_db \<Rightarrow> admin_db \<Rightarrow> bool" for ctl parse where
  change: "admin_change ctl parse D now now' challenge fingerprint actor expected action has_contract can_reopen = Inr (a, D')
    \<Longrightarrow> admin_step ctl parse D D'"
| account: "auth_step (am_auth D) e A \<Longrightarrow> admin_step ctl parse D (D\<lparr>am_auth := A\<rparr>)"

definition empty_admin :: admin_db where
  "empty_admin = \<lparr>am_auth = empty_auth, am_states = [], am_revisions = []\<rparr>"

definition admin_reachable :: "(nat \<Rightarrow> bool) \<Rightarrow> (pystr \<Rightarrow> teaching_content option) \<Rightarrow> admin_db \<Rightarrow> bool" where
  "admin_reachable ctl parse D \<longleftrightarrow> (admin_step ctl parse)\<^sup>*\<^sup>* empty_admin D"
section \<open>What a change does\<close>

lemma stored_challenge: "stored_state D ch = Some s \<Longrightarrow> s \<in> set (am_states D) \<and> an_challenge s = ch"
  by (auto simp: stored_state_def find_Some_iff)

lemma state_of_challenge [simp]: "an_challenge (state_of D ch) = ch"
  by (auto simp: state_of_def AdminState_def dest: stored_challenge split: option.splits)

lemma find_upsert:
  "find (\<lambda>r. an_challenge r = ch) (upsert s rows) =
     (if ch = an_challenge s then Some s else find (\<lambda>r. an_challenge r = ch) rows)"
proof -
  have "find (\<lambda>r. an_challenge r = ch) (map (\<lambda>r. if an_challenge r = an_challenge s then s else r) rs) =
      (if ch = an_challenge s \<and> ch \<in> an_challenge ` set rs then Some s
       else if ch = an_challenge s then None else find (\<lambda>r. an_challenge r = ch) rs)" for rs
    by (induction rs) auto
  moreover have "find P (xs @ [y]) = (case find P xs of None \<Rightarrow> if P y then Some y else None | Some x \<Rightarrow> Some x)"
    for P and xs :: "admin_state list" and y
    by (induction xs) auto
  moreover have "an_challenge s \<notin> an_challenge ` set rows \<Longrightarrow> find (\<lambda>r. an_challenge r = an_challenge s) rows = None"
    by (force simp: find_None_iff image_iff)
  ultimately show ?thesis
    by (auto simp: upsert_def split: option.splits)
qed

lemma next_state_basic:
  assumes "next_state parse fp has_contract can_reopen action s = Inr t"
  shows "an_challenge t = an_challenge s \<and> an_revision t = an_revision s + 1 \<and> an_source t = Some fp"
  using assms by (auto simp: next_state_def Let_def split: admin_action.splits list.splits if_splits)

lemma next_state_draft:
  assumes "next_state parse fp has_contract can_reopen action s = Inr t"
  shows "case action of Save c \<Rightarrow> an_draft t = Some (content_text c) | _ \<Rightarrow> an_draft t = an_draft s"
  using assms by (auto simp: next_state_def Let_def split: admin_action.splits list.splits if_splits)

lemma next_state_published:
  assumes "next_state parse fp has_contract can_reopen action s = Inr t"
  shows "an_published t = an_published s \<and> action \<noteq> Publish \<or> action = Publish \<or> action = Check"
  using assms by (auto simp: next_state_def Let_def split: admin_action.splits list.splits if_splits)

lemma publish_state:
  assumes "next_state parse fp has_contract can_reopen Publish s = Inr t"
  shows "an_published t = an_draft s \<and> an_published_source t = Some fp \<and> issues parse s fp = []"
  using assms by (auto simp: next_state_def Let_def split: list.splits if_splits)

lemma change_cases:
  assumes "admin_change ctl parse D now now' ch fp actor expected action has_contract can_reopen = Inr (a, D')"
  obtains (checked) "action = Check" "D' = D"
  | (written) operator t where "action \<noteq> Check" "a = Changed t"
      "next_state parse fp has_contract can_reopen action (state_of D ch) = Inr t"
      "admin_authorize (am_auth D) now' actor = Inr operator"
      "D' = D\<lparr>am_states := upsert t (am_states D), am_revisions := am_revisions D @
         [\<lparr>rv_challenge = ch, rv_revision = an_revision t, rv_action = name_of action, rv_operator = operator, rv_created = now',
           rv_previous = state_of D ch, rv_next = t\<rparr>]\<rparr>"
      "case action of Save c \<Rightarrow> valid_content ctl c | _ \<Rightarrow> True"
proof (cases "action = Check")
  case True
  with assms checked show ?thesis
    by (auto simp: admin_change_def rbind_Inr_iff Let_def)
next
  case False
  moreover have "case action of Save c \<Rightarrow> valid_content ctl c | _ \<Rightarrow> True"
    using assms by (auto simp: admin_change_def rbind_Inr_iff split: admin_action.splits)
  ultimately show ?thesis
    using assms written by (auto simp: admin_change_def rbind_Inr_iff Let_def)
qed

lemma change_expected:
  assumes "admin_change ctl parse D now now' ch fp actor expected action has_contract can_reopen = Inr (a, D')"
  shows "an_revision (state_of D ch) = expected \<and> 0 \<le> expected \<and> expected \<le> MAX_EXPECTED_REVISION \<and>
    (\<exists>operator. aa_expected actor \<noteq> None \<and> admin_authorize (am_auth D) now' actor = Inr operator)"
  using assms by (auto simp: admin_change_def rbind_Inr_iff Let_def)

lemma state_after:
  assumes "an_challenge t = ch"
  shows "state_of (D\<lparr>am_states := upsert t (am_states D), am_revisions := vs\<rparr>) ch' = (if ch' = ch then t else state_of D ch')"
  using assms by (simp add: state_of_def stored_state_def find_upsert)

section \<open>The history\<close>

text \<open>A chain of revisions leads from one state to another, each numbered one above the last.\<close>

fun chain :: "admin_state \<Rightarrow> revision_row list \<Rightarrow> admin_state \<Rightarrow> bool" where
  "chain s [] t \<longleftrightarrow> s = t"
| "chain s (v # vs) t \<longleftrightarrow> rv_previous v = s \<and> rv_revision v = an_revision s + 1 \<and> an_revision (rv_next v) = rv_revision v \<and>
     chain (rv_next v) vs t"

definition revisions_of :: "admin_db \<Rightarrow> pystr \<Rightarrow> revision_row list" where
  "revisions_of D ch = filter (\<lambda>v. rv_challenge v = ch) (am_revisions D)"

definition saved_draft :: "(nat \<Rightarrow> bool) \<Rightarrow> admin_db \<Rightarrow> pystr \<Rightarrow> pystr \<Rightarrow> bool" where
  "saved_draft ctl D ch t \<longleftrightarrow>
     (\<exists>v \<in> set (revisions_of D ch). \<exists>c. rv_action v = A_Save \<and> valid_content ctl c \<and> t = content_text c \<and> an_draft (rv_next v) = Some t)"

definition drafts_ok :: "(nat \<Rightarrow> bool) \<Rightarrow> admin_db \<Rightarrow> pystr \<Rightarrow> bool" where
  "drafts_ok ctl D ch \<longleftrightarrow>
     (\<forall>t. an_draft (state_of D ch) = Some t \<or> an_published (state_of D ch) = Some t \<longrightarrow> saved_draft ctl D ch t)"

definition admin_ok :: "(nat \<Rightarrow> bool) \<Rightarrow> admin_db \<Rightarrow> bool" where
  "admin_ok ctl D \<longleftrightarrow> distinct (map an_challenge (am_states D)) \<and> (\<forall>s \<in> set (am_states D). an_source s \<noteq> None) \<and>
     (\<forall>ch. chain (AdminState ch) (revisions_of D ch) (state_of D ch) \<and>
        an_revision (state_of D ch) \<le> MAX_EXPECTED_REVISION + 1 \<and> drafts_ok ctl D ch)"

lemma chain_append:
  "chain s (vs @ [v]) t \<longleftrightarrow> (\<exists>r. chain s vs r \<and> chain r [v] t)"
  by (induction vs arbitrary: s) auto

lemma chain_numbers: "chain s vs t \<Longrightarrow> map rv_revision vs = map (\<lambda>i. an_revision s + 1 + int i) [0..<length vs] \<and>
    an_revision t = an_revision s + int (length vs)"
proof (induction vs arbitrary: s)
  case (Cons v vs)
  have "map (\<lambda>i. an_revision s + 1 + int i) [0..<Suc (length vs)] =
      (an_revision s + 1) # map (\<lambda>i. an_revision s + 2 + int i) [0..<length vs]"
    unfolding upt_conv_Cons [OF zero_less_Suc] map_Suc_upt [symmetric] by simp
  with Cons.IH [of "rv_next v"] Cons.prems show ?case
    by (simp add: algebra_simps)
qed simp

lemma saved_mono: "set (am_revisions D) \<subseteq> set (am_revisions D') \<Longrightarrow> saved_draft ctl D ch t \<Longrightarrow> saved_draft ctl D' ch t"
  unfolding saved_draft_def revisions_of_def by auto

lemma admin_change_ok:
  assumes "admin_ok ctl D" and "admin_change ctl parse D now now' ch fp actor expected action has_contract can_reopen = Inr (a, D')"
  shows "admin_ok ctl D'"
  using assms(2)
proof (cases rule: change_cases)
  case (written operator t)
  note t = next_state_basic [OF written(3)]
  let ?v = "\<lparr>rv_challenge = ch, rv_revision = an_revision t, rv_action = name_of action, rv_operator = operator, rv_created = now',
           rv_previous = state_of D ch, rv_next = t\<rparr>"
  have state: "state_of D' ch' = (if ch' = ch then t else state_of D ch')" for ch'
    unfolding written(5) using t by (intro state_after) simp
  have revisions: "revisions_of D' ch' = revisions_of D ch' @ (if ch' = ch then [?v] else [])" for ch'
    by (simp add: revisions_of_def written(5))
  have old: "saved_draft ctl D ch' x \<Longrightarrow> saved_draft ctl D' ch' x" for ch' x
    by (rule saved_mono) (auto simp: written(5))
  have drafts: "drafts_ok ctl D' ch'" for ch'
  proof (cases "ch' = ch")
    case False
    then show ?thesis
      using assms(1) old by (simp add: admin_ok_def drafts_ok_def state)
  next
    case True
    have before: "an_draft (state_of D ch) = Some x \<or> an_published (state_of D ch) = Some x \<Longrightarrow> saved_draft ctl D' ch x" for x
      using assms(1) old by (auto simp: admin_ok_def drafts_ok_def)
    have draft: "saved_draft ctl D' ch x" if "an_draft t = Some x" for x
    proof (cases action)
      case (Save c)
      with that written(6) next_state_draft [OF written(3)] show ?thesis
        unfolding saved_draft_def revisions by (intro bexI [of _ ?v] exI [of _ c]) (auto simp: name_of_def)
    qed (use that before next_state_draft [OF written(3)] in simp_all)
    have "saved_draft ctl D' ch x" if "an_published t = Some x" for x
      using that before next_state_published [OF written(3)] publish_state [of parse fp has_contract can_reopen "state_of D ch" t]
        written(1,3) by auto
    with draft True show ?thesis
      by (simp add: drafts_ok_def state)
  qed
  have "chain (AdminState ch') (revisions_of D' ch') (state_of D' ch')" for ch'
    using assms(1) t by (auto simp: admin_ok_def state revisions chain_append)
  moreover have "an_revision (state_of D' ch') \<le> MAX_EXPECTED_REVISION + 1" for ch'
    using assms(1) t change_expected [OF assms(2)] by (auto simp: admin_ok_def state)
  moreover have "distinct (map an_challenge (am_states D'))"
  proof -
    have "map an_challenge (map (\<lambda>r. if an_challenge r = an_challenge t then t else r) rs) = map an_challenge rs" for rs
      by (induction rs) auto
    then show ?thesis
      using assms(1) by (simp add: written(5) upsert_def admin_ok_def del: map_map)
  qed
  moreover have "an_source s \<noteq> None" if "s \<in> set (am_states D')" for s
    using that assms(1) t by (auto simp: written(5) upsert_def admin_ok_def split: if_splits)
  ultimately show ?thesis
    using drafts by (simp add: admin_ok_def)
qed (use assms(1) in simp)

lemma admin_frame [simp]:
  "state_of (D\<lparr>am_auth := A\<rparr>) = state_of D" "revisions_of (D\<lparr>am_auth := A\<rparr>) = revisions_of D"
  by (simp_all add: fun_eq_iff state_of_def stored_state_def revisions_of_def)

lemma admin_step_ok: "admin_step ctl parse D D' \<Longrightarrow> admin_ok ctl D \<Longrightarrow> admin_ok ctl D'"
proof (induction rule: admin_step.induct)
  case (change D now now' challenge fingerprint actor expected action has_contract can_reopen a D')
  then show ?case
    by (blast intro: admin_change_ok)
next
  case (account D e A)
  then show ?case
    by (simp add: admin_ok_def drafts_ok_def saved_draft_def)
qed

lemma empty_admin_ok: "admin_ok ctl empty_admin"
  by (simp add: admin_ok_def empty_admin_def state_of_def stored_state_def revisions_of_def AdminState_def drafts_ok_def
      MAX_EXPECTED_REVISION_def)

lemma admin_reachable_ok: "admin_reachable ctl parse D \<Longrightarrow> admin_ok ctl D"
  unfolding admin_reachable_def by (induction rule: rtranclp_induct) (auto intro: admin_step_ok empty_admin_ok)
text \<open>The history of a challenge is complete: its revisions are 1 to \<open>n\<close>, each row starts from the state the row before wrote, the last
  one wrote the current state, and the number stays in the range of a 64-bit column.\<close>

theorem admin_history_is_complete:
  assumes "admin_reachable ctl parse D"
  shows "map rv_revision (revisions_of D ch) = map (\<lambda>i. 1 + int i) [0..<length (revisions_of D ch)] \<and>
    chain (AdminState ch) (revisions_of D ch) (state_of D ch) \<and>
    an_revision (state_of D ch) = int (length (revisions_of D ch)) \<and> length (revisions_of D ch) < 2 ^ 63"
proof -
  note ok = admin_reachable_ok [OF assms]
  then have "chain (AdminState ch) (revisions_of D ch) (state_of D ch)" "an_revision (state_of D ch) \<le> MAX_EXPECTED_REVISION + 1"
    by (simp_all add: admin_ok_def)
  with chain_numbers [OF this(1)] show ?thesis
    by (simp add: AdminState_def MAX_EXPECTED_REVISION_def)
qed

lemma authorized_session:
  assumes "admin_authorize A now actor = Inr operator"
  shows "\<exists>s x. s \<in> set (au_sessions A) \<and> as_token s = aa_token actor \<and> now < as_expires s \<and>
    x \<in> set (au_users A) \<and> us_id x = as_user s \<and> us_admin x \<and> us_id x = operator"
proof -
  let ?rows = "concat (map (\<lambda>s. filter (\<lambda>x. us_id x = as_user s) (au_users A))
     (filter (\<lambda>s. as_token s = aa_token actor \<and> now < as_expires s) (au_sessions A)))"
  obtain x xs where x: "?rows = x # xs" "us_admin x" "us_id x = operator"
    using assms by (auto simp: admin_authorize_def split: list.splits if_splits)
  then have "x \<in> set ?rows"
    by simp
  with x(2,3) show ?thesis
    by auto
qed

lemma authorized_expected:
  "admin_authorize A now actor = Inr operator \<Longrightarrow> aa_expected actor = None \<or> aa_expected actor = Some operator"
  by (auto simp: admin_authorize_def split: list.splits if_splits)

text \<open>A change succeeds only for a live session, at the time after the lock, of an administrator who is the expected account; it is recorded under
  his name and touches no other challenge and no account.\<close>

theorem admin_change_is_authorized:
  assumes "admin_change ctl parse D now now' ch fp actor expected action has_contract can_reopen = Inr (a, D')"
  shows "(\<exists>s x. s \<in> set (au_sessions (am_auth D)) \<and> as_token s = aa_token actor \<and> now' < as_expires s \<and>
      x \<in> set (au_users (am_auth D)) \<and> us_id x = as_user s \<and> us_admin x \<and> aa_expected actor = Some (us_id x) \<and>
      (D' = D \<or> (\<exists>t. a = Changed t \<and> revisions_of D' ch = revisions_of D ch @
         [\<lparr>rv_challenge = ch, rv_revision = expected + 1, rv_action = name_of action, rv_operator = us_id x, rv_created = now',
           rv_previous = state_of D ch, rv_next = state_of D' ch\<rparr>]))) \<and>
    am_auth D' = am_auth D \<and> (\<forall>ch'. ch' = ch \<or> state_of D' ch' = state_of D ch' \<and> revisions_of D' ch' = revisions_of D ch')"
  using assms
proof (cases rule: change_cases)
  case checked
  obtain operator where "aa_expected actor \<noteq> None" "admin_authorize (am_auth D) now' actor = Inr operator"
    using change_expected [OF assms] by auto
  with authorized_session [OF this(2)] authorized_expected [OF this(2)] checked(2) show ?thesis
    by auto
next
  case (written operator t)
  note t = next_state_basic [OF written(3)]
  have state: "state_of D' ch' = (if ch' = ch then t else state_of D ch')" for ch'
    unfolding written(5) using t by (intro state_after) simp
  obtain s x where "s \<in> set (au_sessions (am_auth D)) \<and> as_token s = aa_token actor \<and> now' < as_expires s"
      "x \<in> set (au_users (am_auth D)) \<and> us_id x = as_user s \<and> us_admin x \<and> us_id x = operator"
    using authorized_session [OF written(4)] by blast
  moreover have "revisions_of D' ch' = revisions_of D ch' @ (if ch' = ch then
       [\<lparr>rv_challenge = ch, rv_revision = expected + 1, rv_action = name_of action, rv_operator = operator, rv_created = now',
           rv_previous = state_of D ch, rv_next = state_of D' ch\<rparr>] else [])" for ch'
    using t change_expected [OF assms] state by (simp add: revisions_of_def written(5))
  moreover have "am_auth D' = am_auth D"
    by (simp add: written(5))
  moreover have "aa_expected actor = Some operator"
    using authorized_expected [OF written(4)] change_expected [OF assms] by auto
  ultimately show ?thesis
    using written(2) state by fastforce
qed

text \<open>Revisions never fall, so an administrator who acts on what he saw before another change is refused.\<close>

lemma revision_mono_step:
  assumes "admin_step ctl parse D D'"
  shows "an_revision (state_of D ch) \<le> an_revision (state_of D' ch)"
  using assms
proof cases
  case (change now now' ch' fp actor expected action has_contract can_reopen a)
  from change show ?thesis
  proof (cases rule: change_cases)
    case (written operator t)
    with next_state_basic [OF written(3)] state_after [of t ch'] show ?thesis
      by auto
  qed simp
next
  case (account e A)
  then show ?thesis
    by simp
qed

lemma revision_mono: "(admin_step ctl parse)\<^sup>*\<^sup>* D E \<Longrightarrow> an_revision (state_of D ch) \<le> an_revision (state_of E ch)"
  by (induction rule: rtranclp_induct) (auto intro: order_trans revision_mono_step)

text \<open>C33. Two administrators who saw the same revision cannot both change a challenge: whatever happens after the first change, a second one that names the same revision fails.\<close>

theorem stale_revision_refused:
  assumes "admin_change ctl parse D now now' ch fp actor expected action has_contract can_reopen = Inr (Changed t, D')"
    and "(admin_step ctl parse)\<^sup>*\<^sup>* D' E"
  shows "\<exists>e. admin_change ctl parse E now2 now2' ch fp2 actor2 expected action2 has_contract2 can_reopen2 = Inl e"
proof -
  have "an_revision (state_of D' ch) = expected + 1"
    using assms(1)
  proof (cases rule: change_cases)
    case checked
    with assms(1) show ?thesis
      by (auto simp: admin_change_def rbind_Inr_iff Let_def)
  next
    case (written operator t)
    with next_state_basic [OF written(3)] state_after [of t ch] change_expected [OF assms(1)] show ?thesis
      by simp
  qed
  with revision_mono [OF assms(2), of ch] have "an_revision (state_of E ch) \<noteq> expected"
    by simp
  then show ?thesis
    using change_expected [of ctl parse E now2 now2' ch fp2 actor2 expected action2 has_contract2 can_reopen2]
    by (cases "admin_change ctl parse E now2 now2' ch fp2 actor2 expected action2 has_contract2 can_reopen2") auto
qed

text \<open>In every reachable state the published content reads back, is valid, and was written by a recorded save; the hypothesis is that pydantic
  reads the text of a valid content back.\<close>

theorem published_is_saved:
  assumes "admin_reachable ctl parse D" and "\<forall>c. valid_content ctl c \<longrightarrow> parse (content_text c) = Some c"
    and "published_content parse (state_of D ch) fp = Some p"
  shows "\<exists>c v. p = Some c \<and> valid_content ctl c \<and> v \<in> set (revisions_of D ch) \<and> rv_action v = A_Save \<and>
    an_draft (rv_next v) = Some (content_text c)"
proof -
  obtain t where t: "an_published (state_of D ch) = Some t" "p = parse t"
    using assms(3) by (auto simp: published_content_def split: if_splits)
  with admin_reachable_ok [OF assms(1)] have "saved_draft ctl D ch t"
    by (simp add: admin_ok_def drafts_ok_def)
  with t(2) assms(2) show ?thesis
    by (auto simp: saved_draft_def)
qed

section \<open>The gate of the submission store\<close>

text \<open>What the submission store reads of the policy: the two columns of \<open>challenge_admin_state\<close>.\<close>

definition gate_rows :: "admin_db \<Rightarrow> admission_row list" where
  "gate_rows D = map (\<lambda>s. \<lparr>ad_challenge = an_challenge s, ad_fingerprint = the (an_source s), ad_closed = an_closed s\<rparr>)
     (am_states D)"

lemma gate_answers:
  assumes "admin_ok ctl D" and "db_admin db = gate_rows D"
  shows "assert_admissions_open db ch (Some fp) =
    ensure (\<not> closed_for (state_of D ch) fp) (Exc ChallengePausedError ''challenge admissions are paused'')"
proof -
  have "find (\<lambda>r. ad_challenge r = ch) (gate_rows D) =
      map_option (\<lambda>s. \<lparr>ad_challenge = an_challenge s, ad_fingerprint = the (an_source s), ad_closed = an_closed s\<rparr>) (stored_state D ch)"
  proof -
    have "find (\<lambda>r. ad_challenge r = ch) (map f rs) = map_option f (find (\<lambda>s. an_challenge s = ch) rs)"
      if "\<And>s. ad_challenge (f s) = an_challenge s" for f and rs :: "admin_state list"
      using that by (induction rs) auto
    then show ?thesis
      unfolding gate_rows_def stored_state_def by this simp
  qed
  moreover have "an_source s \<noteq> None" if "stored_state D ch = Some s" for s
    using stored_challenge [OF that] assms(1) by (auto simp: admin_ok_def)
  ultimately show ?thesis
    using assms(2) by (auto simp: assert_admissions_open_def state_of_def closed_for_def matches_def AdminState_def ensure_def
        split: option.splits)
qed

text \<open>The policy and the submission store compose: a challenge that is closed, or whose source moved on, answers a new key with
  \<open>ChallengePausedError\<close>, and in every other case the store behaves as it does without any policy.\<close>

theorem policy_gates_submissions:
  assumes "admin_reachable ctl parse D" and "db_admin db = gate_rows D"
  shows "create_submission sha db now fresh user key prompt c (Some fp) =
    (if closed_for (state_of D (ec_challenge_id c)) fp \<and> find (\<lambda>r. sr_user r = us_id user \<and> sr_key r = key) (db_submissions db) = None
     then rbind (utf8 prompt) (\<lambda>b. rbind (request_sha256 sha (ec_challenge_id c) (ec_contract_version c) b)
       (\<lambda>_. raise ChallengePausedError ''challenge admissions are paused''))
     else map_sum id (map_prod id (\<lambda>db'. db'\<lparr>db_admin := gate_rows D\<rparr>))
       (create_submission sha (db\<lparr>db_admin := []\<rparr>) now fresh user key prompt c (Some fp)))"
proof -
  have open_db: "assert_admissions_open (db\<lparr>db_admin := []\<rparr>) ch f = Inr ()" for ch f
    by (simp add: assert_admissions_open_def)
  have same: "accepted_since (db\<lparr>db_admin := []\<rparr>) = accepted_since db" "outstanding_of (db\<lparr>db_admin := []\<rparr>) = outstanding_of db"
    by (simp_all add: fun_eq_iff accepted_since_def outstanding_of_def)
  have restored: "db\<lparr>db_submissions := ss, db_outbox := os, db_admin := gate_rows D\<rparr> = db\<lparr>db_submissions := ss, db_outbox := os\<rparr>" for ss os
    using assms(2) by (cases db) simp
  note gate = gate_answers [OF admin_reachable_ok [OF assms(1)] assms(2)]
  show ?thesis
    using assms(2) by (auto simp: restored create_submission_def gate open_db same rbind_def ensure_def Let_def
        split: sum.splits option.splits)
qed
section \<open>Examples\<close>

text \<open>A reader of stored content, by the parser of the development.\<close>

definition content_of :: "json \<Rightarrow> teaching_content option" where
  "content_of j = (case j of
     JObj [(a, JStr few), (b, JStr instructions), (c, JStr summary), (d, JStr title), (e, JStr zero)] \<Rightarrow>
       if [a, b, c, d, e] = map u [''few_shot_prompt'', ''instructions'', ''summary'', ''title'', ''zero_shot_prompt'']
       then Some \<lparr>tc_title = title, tc_summary = summary, tc_instructions = instructions, tc_zero_shot = zero, tc_few_shot = few\<rparr>
       else None
   | _ \<Rightarrow> None)"

definition read_content :: "(nat \<Rightarrow> bool) \<Rightarrow> pystr \<Rightarrow> teaching_content option" where
  "read_content ctl t = (case loads 10 t of
     Inl _ \<Rightarrow> None
   | Inr j \<Rightarrow> (case content_of j of Some c \<Rightarrow> if valid_content ctl c then Some c else None | None \<Rightarrow> None))"

lemma content_of_json: "content_of (content_json c) = Some c"
  by (cases c) (simp add: content_of_def content_json_def)

lemma read_content_text: "valid_content ctl c \<Longrightarrow> read_content ctl (content_text c) = Some c"
  using loads_dumps [of 10 "content_json c" "\<lambda>_. []"] content_of_json [of c]
  by (simp add: read_content_def content_text_def) (simp add: content_json_def)

definition demo_ctl :: "nat \<Rightarrow> bool" where "demo_ctl ch \<longleftrightarrow> ch < 32 \<or> ch = 127"

definition demo_content :: teaching_content where
  "demo_content = \<lparr>tc_title = u ''t'', tc_summary = [], tc_instructions = u ''i'', tc_zero_shot = u ''z'', tc_few_shot = u ''f''\<rparr>"

definition demo_admin :: auth_db where
  "demo_admin = \<lparr>au_users = [\<lparr>us_id = u ''a1'', us_subject = u ''account:a1'', us_handle = u ''root'', us_admin = True\<rparr>],
     au_credentials = [\<lparr>cr_user = u ''a1'', cr_email = demo_email, cr_hash = u ''h1'', cr_version = 1\<rparr>],
     au_sessions = [], au_actions = [], au_rates = []\<rparr>"

definition demo_admin_account :: account where
  "demo_admin_account = \<lparr>ac_user = u ''a1'', ac_subject = u ''account:a1'', ac_handle = u ''root'', ac_admin = True,
     ac_email = demo_email, ac_hash = u ''h1'', ac_version = 1\<rparr>"

definition demo_signed_in :: auth_db where
  "demo_signed_in = demo_admin\<lparr>au_sessions := [\<lparr>as_token = demo_token, as_user = u ''a1'', as_expires = 3700\<rparr>]\<rparr>"

definition demo_actor :: admin_actor where
  "demo_actor = \<lparr>aa_token = demo_token, aa_expected = Some (u ''a1'')\<rparr>"

definition demo_change :: "admin_db \<Rightarrow> int \<Rightarrow> admin_action \<Rightarrow> (admin_answer \<times> admin_db) result" where
  "demo_change D expected action =
     admin_change demo_ctl (read_content demo_ctl) D 110 120 (u ''c1'') (u ''fp'') demo_actor expected action True True"

definition demo_draft :: admin_state where
  "demo_draft = \<lparr>an_challenge = u ''c1'', an_source = Some (u ''fp''), an_revision = 1, an_draft = Some (content_text demo_content),
     an_published = None, an_published_revision = 0, an_published_source = None, an_closed = False\<rparr>"

definition demo_live :: admin_state where
  "demo_live = demo_draft\<lparr>an_revision := 2, an_published := Some (content_text demo_content), an_published_revision := 2,
     an_published_source := Some (u ''fp'')\<rparr>"

definition demo_off :: admin_state where
  "demo_off = demo_live\<lparr>an_revision := 3, an_closed := True\<rparr>"

definition demo_entry :: "action_name \<Rightarrow> admin_state \<Rightarrow> admin_state \<Rightarrow> revision_row" where
  "demo_entry a s t = \<lparr>rv_challenge = u ''c1'', rv_revision = an_revision t, rv_action = a, rv_operator = u ''a1'', rv_created = 120,
     rv_previous = s, rv_next = t\<rparr>"

definition demo_open :: admin_db where "demo_open = empty_admin\<lparr>am_auth := demo_signed_in\<rparr>"
definition demo_saved :: admin_db where
  "demo_saved = demo_open\<lparr>am_states := [demo_draft], am_revisions := [demo_entry A_Save (AdminState (u ''c1'')) demo_draft]\<rparr>"
definition demo_published :: admin_db where
  "demo_published = demo_saved\<lparr>am_states := [demo_live],
     am_revisions := am_revisions demo_saved @ [demo_entry A_Publish demo_draft demo_live]\<rparr>"
definition demo_paused :: admin_db where
  "demo_paused = demo_published\<lparr>am_states := [demo_off],
     am_revisions := am_revisions demo_published @ [demo_entry A_Admissions demo_live demo_off]\<rparr>"

lemmas demo_policy_defs = demo_open_def demo_saved_def demo_published_def demo_paused_def demo_entry_def demo_off_def demo_live_def
  demo_draft_def demo_change_def empty_admin_def

lemma demo_admin_steps:
  "auth_provision_account empty_auth (u ''a1'') demo_email (u ''h1'') (u ''root'') True None = Inr demo_admin"
  "auth_create_session demo_admin 100 demo_admin_account demo_token 3600 None = Inr (Some (demo_admin_account, 3700), demo_signed_in)"
  by code_simp+

lemma demo_admin_facts [simp]:
  "admin_authorize demo_signed_in 110 demo_actor = Inr (u ''a1'')" "admin_authorize demo_signed_in 120 demo_actor = Inr (u ''a1'')"
  "aa_expected demo_actor = Some (u ''a1'')"
  by code_simp+

lemma max_revision_text: "int_text MAX_EXPECTED_REVISION = u ''9223372036854775806''"
  unfolding int_text_def MAX_EXPECTED_REVISION_def u_def
  by simp (subst nat_text.simps, simp)+

lemma demo_content_valid [simp]: "valid_content demo_ctl demo_content"
  unfolding valid_content_def field_sizes_def safe_text_def envelope_text_def
  by (simp add: content_json_def max_revision_text)
    (simp add: demo_content_def bounded_text_def plain_text_def demo_ctl_def py_strip_def py_space_def u_def dump_string_def
      escape_char_def utf8_def is_surrogate_def utf8_char_def ADMIN_BODY_BYTES_def)

lemma demo_policy_stored [simp]:
  "state_of demo_open (u ''c1'') = AdminState (u ''c1'')" "state_of demo_saved (u ''c1'') = demo_draft"
  "state_of demo_published (u ''c1'') = demo_live" "state_of demo_paused (u ''c1'') = demo_off"
  by (simp_all add: state_of_def stored_state_def demo_policy_defs)

lemma demo_policy_next:
  "next_state (read_content demo_ctl) (u ''fp'') True True (Save demo_content) (AdminState (u ''c1'')) = Inr demo_draft"
  "next_state (read_content demo_ctl) (u ''fp'') True True Publish demo_draft = Inr demo_live"
  "next_state (read_content demo_ctl) (u ''fp'') True True (Admissions True) demo_live = Inr demo_off"
  by (simp_all add: demo_draft_def demo_live_def demo_off_def next_state_def issues_def matches_def AdminState_def
      read_content_text Let_def)

lemma demo_changes:
  "demo_change demo_open 0 (Save demo_content) = Inr (Changed demo_draft, demo_saved)"
  "demo_change demo_saved 1 Publish = Inr (Changed demo_live, demo_published)"
  "demo_change demo_published 2 (Admissions True) = Inr (Changed demo_off, demo_paused)"
  by (simp_all add: demo_change_def admin_change_def demo_policy_next name_of_def MAX_EXPECTED_REVISION_def Let_def)
    (simp_all add: demo_policy_defs AdminState_def upsert_def)

lemmas demo_admin_changes = demo_changes [unfolded demo_change_def]

lemma demo_policy_reachable:
  "admin_reachable demo_ctl (read_content demo_ctl) demo_paused"
proof -
  let ?step = "admin_step demo_ctl (read_content demo_ctl)"
  have "?step empty_admin (empty_admin\<lparr>am_auth := demo_admin\<rparr>)"
    using admin_step.account [of empty_admin Quiet demo_admin] auth_step.provision [OF demo_admin_steps(1)]
    by (simp add: empty_admin_def)
  moreover have "?step (empty_admin\<lparr>am_auth := demo_admin\<rparr>) demo_open"
    using admin_step.account [of "empty_admin\<lparr>am_auth := demo_admin\<rparr>" Quiet demo_signed_in]
      auth_step.login [OF demo_admin_steps(2)] by (simp add: demo_open_def)
  ultimately show ?thesis
    unfolding admin_reachable_def
    using demo_admin_changes [THEN admin_step.change] by (meson rtranclp.rtrancl_into_rtrancl rtranclp.rtrancl_refl)
qed
theorem admin_history_is_complete_witness:
  "map rv_revision (revisions_of demo_paused (u ''c1'')) = [1, 2, 3] \<and> an_revision (state_of demo_paused (u ''c1'')) = 3 \<and>
   chain (AdminState (u ''c1'')) (revisions_of demo_paused (u ''c1'')) demo_off"
  using admin_history_is_complete [OF demo_policy_reachable, of "u ''c1''"]
  by (simp add: revisions_of_def) (simp add: demo_policy_defs)

theorem admin_change_is_authorized_witness:
  "am_auth demo_saved = demo_signed_in \<and> state_of demo_saved (u ''c2'') = AdminState (u ''c2'') \<and>
   (\<exists>x \<in> set (au_users demo_signed_in). us_admin x \<and> us_id x = u ''a1'')"
proof -
  have other: "state_of demo_open (u ''c2'') = AdminState (u ''c2'')"
    by (simp add: state_of_def stored_state_def demo_open_def empty_admin_def)
  have auth: "am_auth demo_open = demo_signed_in"
    by (simp add: demo_open_def)
  note facts = admin_change_is_authorized [OF demo_admin_changes(1), unfolded auth]
  have "u ''c2'' = u ''c1'' \<or> state_of demo_saved (u ''c2'') = state_of demo_open (u ''c2'')"
    using facts by blast
  with facts other show ?thesis
    by auto
qed

theorem stale_revision_refused_witness:
  "\<exists>e. demo_change demo_paused 1 (Save demo_content) = Inl e"
proof -
  have "(admin_step demo_ctl (read_content demo_ctl))\<^sup>*\<^sup>* demo_published demo_paused"
    using admin_step.change [OF demo_admin_changes(3)] by blast
  from stale_revision_refused [OF demo_admin_changes(2) this] show ?thesis
    by (simp add: demo_change_def)
qed

theorem published_is_saved_witness:
  "\<exists>c v. Some demo_content = Some c \<and> valid_content demo_ctl c \<and> v \<in> set (revisions_of demo_paused (u ''c1'')) \<and>
     rv_action v = A_Save \<and> an_draft (rv_next v) = Some (content_text c)"
proof -
  have "published_content (read_content demo_ctl) (state_of demo_paused (u ''c1'')) (u ''fp'') = Some (Some demo_content)"
    by (simp add: published_content_def demo_off_def demo_live_def read_content_text)
  from published_is_saved [OF demo_policy_reachable _ this] read_content_text show ?thesis
    by blast
qed

theorem policy_gates_submissions_witness:
  "create_submission (\<lambda>b. b) (demo_queued\<lparr>db_admin := gate_rows demo_paused\<rparr>) 5 (u ''b'') demo_user (u ''k2'') (u ''p'')
     (demo_contract\<lparr>ec_challenge_id := u ''c1''\<rparr>) (Some (u ''fp'')) = raise ChallengePausedError ''challenge admissions are paused''"
proof -
  have gate: "db_admin (demo_queued\<lparr>db_admin := gate_rows demo_paused\<rparr>) = gate_rows demo_paused"
    by simp
  have "closed_for demo_off (u ''fp'')" "utf8 (u ''p'') = Inr (u ''p'')"
    by (simp_all add: closed_for_def demo_off_def utf8_def utf8_char_def is_surrogate_def u_def)
  moreover have "find (\<lambda>r. sr_user r = us_id demo_user \<and> sr_key r = u ''k2'') (db_submissions demo_queued) = None"
    by (simp add: demo_store_defs new_row_def)
  moreover have "request_sha256 (\<lambda>b. b) (u ''c1'') (u ''v1'') (u ''p'') = Inr (request_payload (u ''c1'') (u ''v1'') (u ''p''))"
    by (simp add: request_sha256_def utf8_def utf8_char_def is_surrogate_def u_def)
  moreover have "ec_contract_version demo_contract = u ''v1''"
    by (simp add: demo_contract_def)
  ultimately show ?thesis
    using policy_gates_submissions [OF demo_policy_reachable gate, of "\<lambda>b. b" 5 "u ''b''" demo_user "u ''k2''" "u ''p''"
        "demo_contract\<lparr>ec_challenge_id := u ''c1''\<rparr>" "u ''fp''"] by simp
qed

end
