(* ===== verification/Availability.thy ===== *)
theory Availability
  imports Json
begin

text \<open>
  The availability of a runtime as requests observe it (\<open>src/linguistic_oj/runtime_availability.py\<close>).  Locks make each read and
  write atomic, so what other threads do between two reads of one call is an argument: the state at the second read.  The
  replies of the model server and the clock are arguments too; \<open>parse\<close> is \<open>json.loads\<close> on bytes.
\<close>

section \<open>Declared and probed\<close>

type_synonym declared = "(pystr \<times> bool) list"

text \<open>\<open>ProbedAvailability.__getitem__\<close>; \<open>later\<close> are the declarations after the probe has answered.\<close>

definition probed :: "declared \<Rightarrow> (pystr \<Rightarrow> bool result) \<Rightarrow> declared \<Rightarrow> pystr \<Rightarrow> bool result" where
  "probed declared probe later key =
     (case map_of declared key of
        None \<Rightarrow> raise KeyError ''key''
      | Some False \<Rightarrow> Inr False
      | Some True \<Rightarrow>
          (let healthy = (probe key = Inr True)
           in case map_of later key of None \<Rightarrow> raise KeyError ''key'' | Some d \<Rightarrow> Inr (d \<and> healthy)))"

definition declare_runtime :: "declared \<Rightarrow> pystr \<Rightarrow> bool \<Rightarrow> declared result" where
  "declare_runtime declared key v =
     (if map_of declared key = None then raise ValueError ''runtime updates require an existing task and a boolean''
      else Inr (map (\<lambda>(k, d). (k, if k = key then v else d)) declared))"

section \<open>The executor\<close>

record executor_health =
  eh_live :: bool
  eh_fault :: bool
  eh_dispatch_faulted :: bool
  eh_stop :: bool

definition start_executor :: "unit result \<Rightarrow> executor_health \<Rightarrow> executor_health result" where
  "start_executor require_clean E = rbind require_clean (\<lambda>_. Inr (E\<lparr>eh_live := True\<rparr>))"

definition close_executor :: "executor_health \<Rightarrow> executor_health" where
  "close_executor E = E\<lparr>eh_live := False\<rparr>"

definition fail_executor :: "executor_health \<Rightarrow> executor_health" where
  "fail_executor E = E\<lparr>eh_fault := True\<rparr>"

definition local_ready :: "executor_health \<Rightarrow> bool" where
  "local_ready E \<longleftrightarrow> eh_live E \<and> \<not> eh_fault E \<and> \<not> eh_dispatch_faulted E"

text \<open>\<open>E'\<close> is the state once the model has been observed.\<close>

definition dispatch_ready :: "bool result \<Rightarrow> executor_health \<Rightarrow> executor_health \<Rightarrow> bool" where
  "dispatch_ready model_healthy E E' = (if \<not> local_ready E then False else model_healthy = Inr True \<and> local_ready E')"

definition executor_available :: "pystr set \<Rightarrow> bool result \<Rightarrow> pystr option \<Rightarrow> executor_health \<Rightarrow> executor_health \<Rightarrow> bool" where
  "executor_available keys model_healthy challenge E E' =
     (case challenge of
        Some c \<Rightarrow> c \<in> keys \<and> \<not> eh_stop E \<and> dispatch_ready model_healthy E E' \<and> \<not> eh_stop E'
      | None \<Rightarrow> \<not> eh_stop E \<and> dispatch_ready model_healthy E E' \<and> \<not> eh_stop E')"

section \<open>The model server\<close>

record model_probe =
  mp_model :: pystr
  mp_ttl :: rat
  mp_until :: "rat option"
  mp_healthy :: bool

record model_replies =
  mr_health :: "int result"
  mr_models :: "(int \<times> nat list) result"

definition MODEL_REPLY_BYTES :: nat where
  "MODEL_REPLY_BYTES = 16384"

text \<open>\<open>{item['id'] for item in payload['data']}\<close>: an item that is no object, has no identifier or one that is not hashable raises.\<close>

definition served_id :: "json \<Rightarrow> json option" where
  "served_id j =
     (case j of
        JObj ms \<Rightarrow> (case map_of ms (u ''id'') of
            None \<Rightarrow> None | Some (JArr _) \<Rightarrow> None | Some (JObj _) \<Rightarrow> None | Some i \<Rightarrow> Some i)
      | _ \<Rightarrow> None)"

definition serves :: "pystr \<Rightarrow> json \<Rightarrow> bool" where
  "serves model payload =
     (case payload of
        JObj ms \<Rightarrow>
          (case map_of ms (u ''data'') of
             Some (JArr items) \<Rightarrow> list_all (\<lambda>j. served_id j \<noteq> None) items \<and> Some (JStr model) \<in> served_id ` set items
           | _ \<Rightarrow> False)
      | _ \<Rightarrow> False)"

definition observed :: "(nat list \<Rightarrow> json result) \<Rightarrow> pystr \<Rightarrow> model_replies \<Rightarrow> bool" where
  "observed parse model H =
     (mr_health H = Inr 200 \<and>
      (case mr_models H of
         Inr (status, raw) \<Rightarrow>
           status = 200 \<and> length raw \<le> MODEL_REPLY_BYTES \<and> (case parse raw of Inr j \<Rightarrow> serves model j | Inl _ \<Rightarrow> False)
       | Inl _ \<Rightarrow> False))"

text \<open>\<open>LocalModelProbe.healthy\<close>: \<open>now\<close> is read before the requests and \<open>now'\<close> after them.\<close>

definition probe_fresh :: "rat \<Rightarrow> model_probe \<Rightarrow> bool" where
  "probe_fresh now P \<longleftrightarrow> (case mp_until P of None \<Rightarrow> False | Some t \<Rightarrow> now < t)"

definition probe_healthy :: "(nat list \<Rightarrow> json result) \<Rightarrow> rat \<Rightarrow> rat \<Rightarrow> model_replies \<Rightarrow> model_probe \<Rightarrow> bool \<times> model_probe" where
  "probe_healthy parse now now' H P =
     (if probe_fresh now P then (mp_healthy P, P)
      else
        (let healthy = observed parse (mp_model P) H
         in (healthy, P\<lparr>mp_healthy := healthy, mp_until := Some (now' + mp_ttl P)\<rparr>)))"

section \<open>Health is an observation\<close>

record probe_call =
  pr_start :: rat
  pr_end :: rat
  pr_replies :: model_replies

fun probe_calls :: "(nat list \<Rightarrow> json result) \<Rightarrow> probe_call list \<Rightarrow> model_probe \<Rightarrow> bool list \<times> model_probe" where
  "probe_calls parse [] P = ([], P)"
| "probe_calls parse (c # cs) P =
     (let (h, P') = probe_healthy parse (pr_start c) (pr_end c) (pr_replies c) P; (hs, P'') = probe_calls parse cs P' in (h # hs, P''))"

definition new_probe :: "pystr \<Rightarrow> rat \<Rightarrow> model_probe" where
  "new_probe model ttl = \<lparr>mp_model = model, mp_ttl = ttl, mp_until = None, mp_healthy = False\<rparr>"

lemma probe_constant: "mp_model (snd (probe_healthy parse now now' H P)) = mp_model P" "mp_ttl (snd (probe_healthy parse now now' H P)) = mp_ttl P"
  by (simp_all add: probe_healthy_def Let_def)

text \<open>The state holds the answer of some earlier call \<open>c\<close> of \<open>cs\<close> that asked the server, or nothing was asked.\<close>

definition recorded :: "(nat list \<Rightarrow> json result) \<Rightarrow> probe_call set \<Rightarrow> model_probe \<Rightarrow> bool" where
  "recorded parse cs P \<longleftrightarrow> mp_until P = None \<or>
     (\<exists>c \<in> cs. mp_until P = Some (pr_end c + mp_ttl P) \<and> mp_healthy P = observed parse (mp_model P) (pr_replies c))"

lemma recorded_step:
  assumes "recorded parse cs P"
  shows "recorded parse (insert c cs) (snd (probe_healthy parse (pr_start c) (pr_end c) (pr_replies c) P))"
  using assms by (auto simp: recorded_def probe_healthy_def Let_def)

lemma answer_recorded:
  assumes "recorded parse cs P" and "probe_healthy parse (pr_start c) (pr_end c) (pr_replies c) P = (h, P')"
  shows "\<exists>d \<in> insert c cs. h = observed parse (mp_model P) (pr_replies d) \<and> (d = c \<or> pr_start c < pr_end d + mp_ttl P)"
  using assms by (auto simp: recorded_def probe_healthy_def probe_fresh_def Let_def split: if_splits option.splits)

lemma probe_answers:
  assumes "recorded parse (set done) P" and "i < length cs"
  shows "\<exists>d \<in> set done \<union> set (take (Suc i) cs). fst (probe_calls parse cs P) ! i = observed parse (mp_model P) (pr_replies d) \<and>
    (d = cs ! i \<or> pr_start (cs ! i) < pr_end d + mp_ttl P)"
  using assms
proof (induction cs arbitrary: i P "done")
  case (Cons c cs)
  obtain h P' where step: "probe_healthy parse (pr_start c) (pr_end c) (pr_replies c) P = (h, P')"
    by force
  have same: "mp_model P' = mp_model P" "mp_ttl P' = mp_ttl P" "recorded parse (set (c # done)) P'"
    using probe_constant [of parse "pr_start c" "pr_end c" "pr_replies c" P] recorded_step [OF Cons.prems(1), of c] step by auto
  show ?case
  proof (cases i)
    case 0
    then show ?thesis
      using answer_recorded [OF Cons.prems(1) step] step by (auto simp: case_prod_unfold Let_def)
  next
    case (Suc k)
    then have "\<exists>d \<in> set (c # done) \<union> set (take (Suc k) cs). fst (probe_calls parse cs P') ! k =
        observed parse (mp_model P') (pr_replies d) \<and> (d = cs ! k \<or> pr_start (cs ! k) < pr_end d + mp_ttl P')"
      using Cons.prems(2) same(3) by (intro Cons.IH) auto
    then show ?thesis
      using Suc same(1,2) step by (auto simp: case_prod_unfold Let_def)
  qed
qed simp

text \<open>
  Every answer of the shared probe is what the server replied to this call, or to an earlier call that ended less than the
  time to live before this one began: health is never older than that.
\<close>

theorem health_is_recent:
  assumes "i < length cs"
  shows "\<exists>d \<in> set (take (Suc i) cs). fst (probe_calls parse cs (new_probe model ttl)) ! i = observed parse model (pr_replies d) \<and>
    (d = cs ! i \<or> pr_start (cs ! i) < pr_end d + ttl)"
  using probe_answers [of parse "[]" "new_probe model ttl" i cs] assms by (simp add: recorded_def new_probe_def)

theorem health_is_recent_witness:
  "fst (probe_calls (\<lambda>_. raise ValueError ''json'') [\<lparr>pr_start = 1, pr_end = 2, pr_replies = \<lparr>mr_health = Inr 500, mr_models = Inr (200, [])\<rparr>\<rparr>]
     (new_probe (u ''m'') 1)) ! 0 = False"
  using health_is_recent [of 0 "[\<lparr>pr_start = 1, pr_end = 2, pr_replies = \<lparr>mr_health = Inr 500, mr_models = Inr (200, [])\<rparr>\<rparr>]"
      "\<lambda>_. raise ValueError ''json''" "u ''m''" 1]
  by (simp add: observed_def)

section \<open>Declared disables and faults\<close>

lemma declare_keys: "declare_runtime declared key v = Inr later \<Longrightarrow> map fst later = map fst declared"
  by (auto simp: declare_runtime_def case_prod_unfold comp_def split: if_splits)

text \<open>
  A task is available only while it is declared so, before the probe and after it, and its probe answers \<open>True\<close>; an executor
  that has failed is never available again in its lifetime, whatever is called on it, nor for a challenge it does not serve.
\<close>

theorem availability_is_authoritative:
  "(probed declared probe later key = Inr True) = (map_of declared key = Some True \<and> probe key = Inr True \<and> map_of later key = Some True) \<and>
   (executor_available keys healthy challenge E E' \<longrightarrow> local_ready E \<and> local_ready E' \<and> \<not> eh_stop E \<and> \<not> eh_stop E' \<and> healthy = Inr True \<and>
      (\<forall>c. challenge = Some c \<longrightarrow> c \<in> keys)) \<and>
   \<not> executor_available keys healthy challenge (fail_executor E) E' \<and>
   \<not> executor_available keys healthy challenge (close_executor (fail_executor E)) E' \<and>
   (\<forall>c F. start_executor c (fail_executor E) = Inr F \<longrightarrow> \<not> executor_available keys healthy challenge F E')"
  by (auto simp: probed_def executor_available_def dispatch_ready_def local_ready_def fail_executor_def close_executor_def
    start_executor_def rbind_Inr_iff Let_def split: option.splits bool.splits if_splits)

end
