(* ===== verification/Api.thy ===== *)
theory Api
  imports Api_Cursors Admin_Store Submission_System Store_Views Availability
begin

text \<open>
  The handlers of \<open>src/linguistic_oj/api.py\<close> over the submission store, the teaching policy and the job queues.  A handler
  answers a value, an \<open>APIError\<close> (code and status), or an exception that no clause catches and that ends as
  \<open>INTERNAL_SERVER_ERROR\<close>.  The framework (routing, validation of the request model, headers) is not modelled: the handlers
  start from validated arguments.
\<close>

section \<open>The application\<close>

record application =
  ap_catalog :: "(pystr \<times> public_challenge) list"
  ap_contracts :: "(pystr \<times> evaluation_contract) list"
  ap_draft :: bool

definition answered :: "'a result \<Rightarrow> 'a answer" where
  "answered r = map_sum Fault id r"

lemma answered_iffs [simp]:
  "answered (Inr x) = Inr x" "answered (Inl e) = Inl (Fault e)" "answered r = Inr x \<longleftrightarrow> r = Inr x"
  by (auto simp: answered_def map_sum_def split: sum.splits)

definition optional_str :: "pystr option \<Rightarrow> json" where
  "optional_str s = (case s of None \<Rightarrow> JNull | Some t \<Rightarrow> JStr t)"

text \<open>\<open>model_dump(mode="json")\<close> of a public challenge, written with sorted keys.\<close>

definition public_json :: "public_challenge \<Rightarrow> json" where
  "public_json p = JObj
     [(u ''aggregation_version'', optional_str (pc_aggregation_version p)), (u ''annotation_license'', JStr (pc_annotation_license p)),
      (u ''attribution_requirements'', JStr (pc_attribution_requirements p)),
      (u ''benchmark_limitations'', JStr (pc_benchmark_limitations p)), (u ''challenge_id'', JStr (pc_challenge_id p)),
      (u ''dataset_sha256'', JStr (pc_dataset_sha256 p)), (u ''language'', JStr (pc_language p)),
      (u ''primary_metric'', JStr (pc_primary_metric p)), (u ''response_schema_version'', JStr (pc_response_schema_version p)),
      (u ''sample_count'', JInt (pc_sample_count p)), (u ''scorer_version'', optional_str (pc_scorer_version p)),
      (u ''secondary_metrics'', JArr (map JStr (pc_secondary_metrics p))), (u ''security_level'', JStr (pc_security_level p)),
      (u ''selection_sha256'', JStr (pc_selection_sha256 p)),
      (u ''share_alike_requirements'', JStr (pc_share_alike_requirements p)),
      (u ''source_commit'', JStr (pc_source_commit p)),
      (u ''source_file_sha256s'', JArr (map (\<lambda>f. JObj [(u ''path'', JStr (sf_path f)), (u ''sha256'', JStr (sf_sha256 f))])
         (pc_source_file_sha256s p))),
      (u ''source_release'', JStr (pc_source_release p)), (u ''status'', JStr (pc_status p)), (u ''task'', JStr (pc_task p)),
      (u ''title'', JStr (pc_title p)), (u ''treebank'', JStr (pc_treebank p)),
      (u ''underlying_text_rights'', JStr (pc_underlying_text_rights p)), (u ''version'', JStr (pc_version p))]"

definition source_fingerprint :: "(nat list \<Rightarrow> pystr) \<Rightarrow> public_challenge \<Rightarrow> pystr result" where
  "source_fingerprint sha p = rbind (utf8 (dumps (\<lambda>_. []) (public_json p))) (\<lambda>b. Inr (sha b))"

section \<open>Challenges\<close>

record challenge_view =
  cv_public :: public_challenge
  cv_identity :: "pystr option"
  cv_model :: "(pystr \<times> json) list option"
  cv_prompt_bytes :: "int option"
  cv_submission_enabled :: bool
  cv_runtime_available :: bool
  cv_accepting :: bool
  cv_open :: bool
  cv_closed :: bool

definition is_str :: "json \<Rightarrow> bool" where
  "is_str j \<longleftrightarrow> (case j of JStr _ \<Rightarrow> True | _ \<Rightarrow> False)"

definition is_int :: "json \<Rightarrow> bool" where
  "is_int j \<longleftrightarrow> (case j of JInt _ \<Rightarrow> True | _ \<Rightarrow> False)"

text \<open>A strict \<open>float\<close> field also takes an integer.\<close>

definition is_number :: "json \<Rightarrow> bool" where
  "is_number j \<longleftrightarrow> (case j of JInt _ \<Rightarrow> True | JFloat _ \<Rightarrow> True | _ \<Rightarrow> False)"

definition is_bool :: "json \<Rightarrow> bool" where
  "is_bool j \<longleftrightarrow> (case j of JBool _ \<Rightarrow> True | _ \<Rightarrow> False)"

text \<open>A model with \<open>extra="forbid"\<close>: exactly these fields, each of its type.\<close>

definition shaped :: "(string \<times> (json \<Rightarrow> bool)) list \<Rightarrow> json \<Rightarrow> bool" where
  "shaped tys j \<longleftrightarrow>
     (case j of JObj ms \<Rightarrow> has_keys ms (map fst tys) \<and> list_all (\<lambda>(k, P). P (json_get ms k)) tys | _ \<Rightarrow> False)"

definition model_identity_shape :: "json \<Rightarrow> bool" where
  "model_identity_shape = shaped [(''model'', is_str), (''revision'', is_str), (''runtime'', is_str), (''runtime_version'', is_str)]"

definition contract_model_identity :: "runtime \<Rightarrow> evaluation_contract \<Rightarrow> (pystr \<times> json) list result" where
  "contract_model_identity R K =
     rbind (evaluation_identity R K) (\<lambda>identity.
     rbind (json_item identity ''model_identity'') (\<lambda>j.
     rbind (ensure (model_identity_shape j) (Exc ValidationError ''ModelIdentityResponse'')) (\<lambda>_. as_mapping j)))"

definition enabled_for :: "runtime \<Rightarrow> bool \<Rightarrow> evaluation_contract \<Rightarrow> bool result" where
  "enabled_for R draft K = rbind (external_activation_ready R K) (\<lambda>ready. Inr (ready \<or> draft))"

definition challenge_response :: "runtime \<Rightarrow> public_challenge \<Rightarrow> evaluation_contract option \<Rightarrow> bool \<Rightarrow> bool \<Rightarrow> bool
    \<Rightarrow> challenge_view result" where
  "challenge_response R p contract draft runtime_available admissions_closed =
     rbind (case contract of None \<Rightarrow> Inr None | Some K \<Rightarrow> rbind (contract_model_identity R K) (\<lambda>m. Inr (Some m))) (\<lambda>model.
     rbind (case contract of None \<Rightarrow> Inr False | Some K \<Rightarrow> enabled_for R draft K) (\<lambda>enabled.
       Inr \<lparr>cv_public = p, cv_identity = map_option ec_identity_sha256 contract, cv_model = model,
         cv_prompt_bytes = map_option ec_prompt_bytes contract, cv_submission_enabled = enabled,
         cv_runtime_available = runtime_available,
         cv_accepting = enabled \<and> runtime_available \<and> \<not> admissions_closed,
         cv_open = enabled \<and> runtime_available \<and> \<not> admissions_closed, cv_closed = admissions_closed\<rparr>))"

text \<open>\<open>available k\<close> is \<open>available_runtimes.get(k)\<close> while the request runs; a task that is not declared has none.\<close>

definition view_of :: "runtime \<Rightarrow> application \<Rightarrow> (pystr \<Rightarrow> bool option) \<Rightarrow> admin_db \<Rightarrow> pystr \<Rightarrow> public_challenge \<Rightarrow> challenge_view result" where
  "view_of R A available D ch p =
     (let contract = map_of (ap_contracts A) ch
      in rbind (if contract = None then Inr False
                else rbind (source_fingerprint (rt_sha R) p) (\<lambda>fp. Inr (closed_for (state_of D ch) fp))) (\<lambda>shut.
         challenge_response R p contract (ap_draft A) (available ch = Some True) shut))"

definition get_challenge :: "runtime \<Rightarrow> application \<Rightarrow> (pystr \<Rightarrow> bool option) \<Rightarrow> admin_db \<Rightarrow> pystr \<Rightarrow> challenge_view answer" where
  "get_challenge R A available D ch =
     (case map_of (ap_catalog A) ch of
        None \<Rightarrow> auth_error ''CHALLENGE_NOT_FOUND'' 404
      | Some p \<Rightarrow> answered (view_of R A available D ch p))"

fun views :: "(public_challenge \<Rightarrow> challenge_view result) \<Rightarrow> public_challenge list \<Rightarrow> challenge_view list result" where
  "views f [] = Inr []"
| "views f (p # ps) = rbind (f p) (\<lambda>v. rbind (views f ps) (\<lambda>vs. Inr (v # vs)))"

definition get_challenges :: "runtime \<Rightarrow> application \<Rightarrow> (pystr \<Rightarrow> bool option) \<Rightarrow> admin_db \<Rightarrow> challenge_view list answer" where
  "get_challenges R A available D =
     answered (views (\<lambda>p. view_of R A available D (pc_challenge_id p) p)
       (sort_key (\<lambda>p. (pc_language p, pc_task p, pc_challenge_id p)) (map snd (ap_catalog A))))"

text \<open>Published content that cannot be read, or a store that fails, is \<open>SERVICE_NOT_READY\<close>.\<close>

definition get_teaching :: "(nat list \<Rightarrow> pystr) \<Rightarrow> (pystr \<Rightarrow> teaching_content option) \<Rightarrow> application \<Rightarrow> admin_db \<Rightarrow> pystr
    \<Rightarrow> (int \<times> teaching_content option) answer" where
  "get_teaching sha parse A D ch =
     (case map_of (ap_catalog A) ch of
        None \<Rightarrow> auth_error ''CHALLENGE_NOT_FOUND'' 404
      | Some p \<Rightarrow>
          (case source_fingerprint sha p of
             Inl _ \<Rightarrow> auth_error ''SERVICE_NOT_READY'' 503
           | Inr fp \<Rightarrow>
               (case published_content parse (state_of D ch) fp of
                  None \<Rightarrow> Inr (0, None)
                | Some None \<Rightarrow> auth_error ''SERVICE_NOT_READY'' 503
                | Some (Some c) \<Rightarrow> Inr (an_published_revision (state_of D ch), Some c))))"

section \<open>The caller\<close>

definition current_user :: "database \<Rightarrow> pystr answer \<Rightarrow> user_record answer" where
  "current_user db who =
     (case who of
        Inl Authentication_Error \<Rightarrow> auth_error ''AUTHENTICATION_REQUIRED'' 401
      | Inl e \<Rightarrow> Inl e
      | Inr subject \<Rightarrow>
          if subject = [] \<or> py_strip subject \<noteq> subject then auth_error ''AUTHENTICATION_REQUIRED'' 401
          else (case user_by_subject db subject of
                  None \<Rightarrow> auth_error ''USER_NOT_REGISTERED'' 403
                | Some x \<Rightarrow> Inr x))"

section \<open>Creating a submission\<close>

record submission_view =
  sv_id :: pystr
  sv_challenge :: pystr
  sv_identity :: pystr
  sv_status :: submission_status
  sv_created :: int
  sv_started :: "int option"
  sv_completed :: "int option"

definition submission_response :: "submission_row \<Rightarrow> submission_view" where
  "submission_response r = \<lparr>sv_id = sr_id r, sv_challenge = sr_challenge r, sv_identity = sr_identity r, sv_status = sr_status r,
     sv_created = sr_created r, sv_started = sr_started r, sv_completed = sr_completed r\<rparr>"

definition submission_checks :: "runtime \<Rightarrow> application \<Rightarrow> (pystr \<Rightarrow> bool option) \<Rightarrow> evaluation_contract \<Rightarrow> pystr \<Rightarrow> pystr
    \<Rightarrow> pystr option \<Rightarrow> unit answer" where
  "submission_checks R A available K ch prompt key =
     rbind (answered (enabled_for R (ap_draft A) K)) (\<lambda>enabled.
     rbind (ensure enabled (Api_Error ''CHALLENGE_NOT_OPEN'' 409)) (\<lambda>_.
     rbind (case available ch of None \<Rightarrow> Inl (Fault (Exc KeyError ''challenge'')) | Some b \<Rightarrow> Inr b) (\<lambda>up.
     rbind (ensure up (Api_Error ''CHALLENGE_RUNTIME_UNAVAILABLE'' 503)) (\<lambda>_.
     rbind (ensure (py_strip prompt \<noteq> []) (Api_Error ''INVALID_STUDENT_PROMPT'' 422)) (\<lambda>_.
     rbind (answered (utf8 prompt)) (\<lambda>bytes.
     rbind (ensure (int (length bytes) \<le> ec_prompt_bytes K) (Api_Error ''STUDENT_PROMPT_BYTE_LIMIT'' 422)) (\<lambda>_.
       (case key of
          None \<Rightarrow> auth_error ''INVALID_IDEMPOTENCY_KEY'' 422
        | Some k \<Rightarrow> ensure (idempotency_key_is_valid R K k) (Api_Error ''INVALID_IDEMPOTENCY_KEY'' 422)))))))))"

text \<open>The exceptions of the store that the handler answers; the rest leaves it.\<close>

definition store_failure :: "py_exc \<Rightarrow> auth_failure" where
  "store_failure e =
     (case e of
        Exc ChallengePausedError _ \<Rightarrow> Api_Error ''CHALLENGE_PAUSED'' 409
      | Exc IdempotencyConflictError _ \<Rightarrow> Api_Error ''IDEMPOTENCY_CONFLICT'' 409
      | Exc SubmissionQuotaError c \<Rightarrow> Api_Error c 429
      | Exc GlobalQueueFullError _ \<Rightarrow> Api_Error ''GLOBAL_QUEUE_FULL'' 503
      | _ \<Rightarrow> Fault e)"

definition catalog_fingerprint :: "runtime \<Rightarrow> application \<Rightarrow> pystr \<Rightarrow> pystr option result" where
  "catalog_fingerprint R A ch =
     (case map_of (ap_catalog A) ch of
        None \<Rightarrow> Inr None
      | Some p \<Rightarrow> rbind (source_fingerprint (rt_sha R) p) (\<lambda>fp. Inr (Some fp)))"

definition admitted :: "runtime \<Rightarrow> application \<Rightarrow> (pystr \<Rightarrow> bool option) \<Rightarrow> database \<Rightarrow> int \<Rightarrow> pystr \<Rightarrow> user_record \<Rightarrow> pystr
    \<Rightarrow> evaluation_contract \<Rightarrow> pystr \<Rightarrow> pystr option \<Rightarrow> ((submission_row \<times> bool) \<times> database) answer" where
  "admitted R A available db now fresh user ch K prompt key =
     rbind (submission_checks R A available K ch prompt key) (\<lambda>_.
     rbind (answered (catalog_fingerprint R A ch)) (\<lambda>fp.
       map_sum store_failure id (create_submission (rt_sha R) db now fresh user (the key) prompt K fp)))"

text \<open>
  \<open>POST /v1/submissions\<close>: the outbox of the challenge is dispatched once the submission is committed, and what that raises is
  only logged.
\<close>

definition post_submission :: "runtime \<Rightarrow> 'q queue_ops \<Rightarrow> application \<Rightarrow> (pystr \<Rightarrow> bool option) \<Rightarrow> int \<Rightarrow> pystr \<Rightarrow> (nat \<Rightarrow> int)
    \<Rightarrow> user_record \<Rightarrow> pystr \<Rightarrow> pystr \<Rightarrow> pystr option \<Rightarrow> database \<times> 'q \<Rightarrow> submission_view answer \<times> database \<times> 'q" where
  "post_submission R Q A available now fresh clock user ch prompt key S =
     (case map_of (ap_contracts A) ch of
        None \<Rightarrow>
          (if map_of (ap_catalog A) ch \<noteq> None then auth_error ''CHALLENGE_NOT_OPEN'' 409
           else auth_error ''CHALLENGE_NOT_FOUND'' 404, S)
      | Some K \<Rightarrow>
          (case admitted R A available (fst S) now fresh user ch K prompt key of
             Inl e \<Rightarrow> (Inl e, S)
           | Inr ((row, replayed), db) \<Rightarrow> (Inr (submission_response row), snd (dispatch_pending Q K clock (db, snd S)))))"

section \<open>The owner's views\<close>

definition get_submission :: "database \<Rightarrow> user_record \<Rightarrow> pystr \<Rightarrow> submission_view answer" where
  "get_submission db user i =
     (case submission_for_owner db i (us_id user) of
        None \<Rightarrow> auth_error ''SUBMISSION_NOT_FOUND'' 404
      | Some r \<Rightarrow> Inr (submission_response r))"

record prompt_view =
  pv_id :: pystr
  pv_challenge :: pystr
  pv_prompt :: pystr
  pv_prompt_sha256 :: pystr

definition get_owner_prompt :: "database \<Rightarrow> user_record \<Rightarrow> pystr \<Rightarrow> prompt_view answer" where
  "get_owner_prompt db user i =
     (case submission_for_owner db i (us_id user) of
        None \<Rightarrow> auth_error ''SUBMISSION_NOT_FOUND'' 404
      | Some r \<Rightarrow> Inr \<lparr>pv_id = sr_id r, pv_challenge = sr_challenge r, pv_prompt = sr_prompt r, pv_prompt_sha256 = sr_prompt_sha256 r\<rparr>)"

datatype terminal_view =
    Succeeded "(pystr \<times> json) list"
  | Failed string "pystr option" bool
  | Rejected string "pystr option" bool

text \<open>The models of a result: the task picks the primary metric and the metrics.\<close>

fun metric_names :: "string \<Rightarrow> string list" where
  "metric_names t =
     (if t = ''segmentation'' then [''micro_f1'', ''micro_precision'', ''micro_recall'']
      else if t = ''dependency'' then [''las'', ''uas'']
      else if t = ''transliteration'' then [''sentence_exact_match_rate'', ''token_accuracy'']
      else [''micro_accuracy''])"

definition primary_name :: "string \<Rightarrow> string" where
  "primary_name t =
     (if t = ''segmentation'' then ''micro_f1'' else if t = ''dependency'' then ''las''
      else if t = ''transliteration'' then ''token_accuracy'' else ''micro_accuracy'')"

definition count_map :: "json \<Rightarrow> bool" where
  "count_map j \<longleftrightarrow> (case j of JObj ms \<Rightarrow> list_all (\<lambda>(_, v). is_int v) ms | _ \<Rightarrow> False)"

definition generation_shape :: "json \<Rightarrow> bool" where
  "generation_shape = shaped [(''enable_thinking'', is_bool), (''max_tokens'', is_int), (''seed'', is_int),
     (''temperature'', is_number), (''top_p'', is_number)]"

definition success_fields :: "string \<Rightarrow> (string \<times> (json \<Rightarrow> bool)) list" where
  "success_fields t =
     [(''task'', \<lambda>j. j = JStr (u t)), (''primary_metric'', \<lambda>j. j = JStr (u (primary_name t))),
      (''metrics'', shaped (map (\<lambda>k. (k, is_number)) (metric_names t))),
      (''aggregation_version'', is_str), (''challenge_id'', is_str), (''dataset_sha256'', is_str), (''errors'', count_map),
      (''generation_settings'', generation_shape), (''model_identity'', model_identity_shape),
      (''prompt_envelope_version'', is_str), (''samples_invalid'', is_int), (''samples_total'', is_int),
      (''samples_valid'', is_int), (''score'', is_number), (''scorer_version'', is_str), (''selection_sha256'', is_str),
      (''student_prompt_sha256'', is_str)]"

definition success_shape :: "(pystr \<times> json) list \<Rightarrow> bool" where
  "success_shape ms \<longleftrightarrow>
     list_ex (\<lambda>t. shaped (success_fields t) (JObj ms)) [''segmentation'', ''upos'', ''xpos'', ''dependency'', ''transliteration'']"

definition FAILURE_CODES :: "string list" where
  "FAILURE_CODES = [''DATASET_INTEGRITY'', ''JOB_DEADLINE'', ''MODEL_IDENTITY_MISMATCH'', ''PROVIDER_TIMEOUT'',
     ''PROVIDER_TRANSPORT'', ''RUNTIME_MISCONFIGURATION'', ''WORKER_CRASH'']"

text \<open>\<open>set(stored) != set(contract fields)\<close> is a \<open>RuntimeError\<close>.\<close>

definition same_fields :: "pystr list \<Rightarrow> json list \<Rightarrow> bool" where
  "same_fields ks js \<longleftrightarrow> JStr ` set ks = set js"

definition failure_keys :: "pystr list" where
  "failure_keys = [u ''failure_contract_version'', u ''code'', u ''retryable'']"

definition rejected_view :: "evaluation_contract \<Rightarrow> (pystr option \<times> string \<times> bool) option \<Rightarrow> terminal_view result" where
  "rejected_view K why =
     (let (version, c, retryable) =
        (case why of Some f \<Rightarrow> f | None \<Rightarrow> (Some (ec_failure_version K), ''TOKEN_LIMIT_EXCEEDED'', False))
      in rbind (ensure (same_fields failure_keys (ec_owner_failure_fields K))
           (Exc RuntimeError ''stored rejection violates the evaluation contract'')) (\<lambda>_.
         rbind (ensure (c = ''TOKEN_LIMIT_EXCEEDED'' \<and> \<not> retryable \<and> version \<noteq> None) (Exc ValidationError ''OwnerRejectedResponse'')) (\<lambda>_.
           Inr (Rejected c version retryable))))"

definition failed_view :: "evaluation_contract \<Rightarrow> pystr option \<times> string \<times> bool \<Rightarrow> terminal_view result" where
  "failed_view K = (\<lambda>(version, c, retryable).
     rbind (ensure (same_fields failure_keys (ec_owner_failure_fields K))
       (Exc RuntimeError ''stored failure result violates the evaluation contract'')) (\<lambda>_.
     rbind (ensure (c \<in> set FAILURE_CODES \<and> version \<noteq> None) (Exc ValidationError ''OwnerFailureResponse'')) (\<lambda>_.
       Inr (Failed c version retryable))))"

definition succeeded_view :: "evaluation_contract \<Rightarrow> (pystr \<times> json) list \<Rightarrow> terminal_view result" where
  "succeeded_view K ms =
     rbind (ensure (same_fields (map fst ms) (ec_owner_result_fields K))
       (Exc RuntimeError ''stored owner result violates the evaluation contract'')) (\<lambda>_.
     rbind (ensure (success_shape ms) (Exc ValidationError ''OwnerSuccessResponse'')) (\<lambda>_.
       Inr (Succeeded ms)))"

definition stored_contract :: "runtime \<Rightarrow> pystr \<Rightarrow> evaluation_contract result" where
  "stored_contract R snapshot = rbind (py_loads R snapshot) (\<lambda>j. rbind (as_mapping j) (from_mapping R))"

definition get_result :: "runtime \<Rightarrow> database \<Rightarrow> user_record \<Rightarrow> pystr \<Rightarrow> terminal_view answer" where
  "get_result R db user i =
     (case (submission_for_owner db i (us_id user), owner_result db i (us_id user)) of
        (Some r, Some (st, outcome, why)) \<Rightarrow>
          if st = QUEUED \<or> st = RUNNING then auth_error ''RESULT_NOT_READY'' 409
          else answered (rbind (stored_contract R (sr_snapshot_json r)) (\<lambda>K.
            if st = REJECTED then rejected_view K why
            else (case (outcome, why) of
                    (Some ms, _) \<Rightarrow> succeeded_view K ms
                  | (None, Some f) \<Rightarrow> failed_view K f
                  | (None, None) \<Rightarrow> raise RuntimeError ''terminal submission has no result'')))
      | _ \<Rightarrow> auth_error ''SUBMISSION_NOT_FOUND'' 404)"

section \<open>Pages\<close>

text \<open>
  \<open>stamp\<close> writes a time as the store does.  The column is text, so the page before a cursor is cut by comparing texts; the page
  is cut from one more row than it shows.
\<close>

definition before_cursor :: "(int \<Rightarrow> pystr) \<Rightarrow> (pystr \<times> pystr) option \<Rightarrow> submission_row \<Rightarrow> bool" where
  "before_cursor stamp c r \<longleftrightarrow>
     (case c of
        None \<Rightarrow> True
      | Some (t, i) \<Rightarrow> stamp (sr_created r) < t \<or> stamp (sr_created r) = t \<and> sr_id r < i)"

definition history_records :: "(int \<Rightarrow> pystr) \<Rightarrow> database \<Rightarrow> pystr \<Rightarrow> nat \<Rightarrow> (pystr \<times> pystr) option \<Rightarrow> submission_row list" where
  "history_records stamp db user limit c =
     take limit (newest_first (filter (\<lambda>r. sr_user r = user \<and> before_cursor stamp c r) (db_submissions db)))"

record page =
  pg_items :: "submission_view list"
  pg_next :: "pystr option"

definition get_submissions :: "(int \<Rightarrow> pystr) \<Rightarrow> (pystr \<Rightarrow> bool) \<Rightarrow> nat \<Rightarrow> database \<Rightarrow> user_record \<Rightarrow> nat \<Rightarrow> pystr option \<Rightarrow> page answer" where
  "get_submissions stamp utc depth db user limit cursor =
     rbind (decode_history_cursor utc depth cursor) (\<lambda>c.
       (let records = history_records stamp db (us_id user) (limit + 1) c;
            visible = take limit records
        in Inr \<lparr>pg_items = map submission_response visible,
             pg_next = (if limit < length records
               then Some (history_cursor (stamp (sr_created (List.last visible))) (sr_id (List.last visible))) else None)\<rparr>))"

record board_row =
  br_identity :: pystr
  br_handle :: pystr
  br_rank :: nat
  br_invalid :: int
  br_total :: int
  br_valid :: int
  br_score :: rat
  br_succeeded :: int

record board_page =
  bp_items :: "board_row list"
  bp_next :: "pystr option"

definition board_keys :: "pystr list" where
  "board_keys = map u [''evaluation_identity_sha256'', ''public_handle'', ''rank'', ''samples_invalid'', ''samples_total'',
     ''samples_valid'', ''score'', ''succeeded_at'']"

definition leaderboard_row :: "runtime \<Rightarrow> nat \<times> candidate \<Rightarrow> board_row result" where
  "leaderboard_row R = (\<lambda>(rank, c).
     rbind (stored_contract R (cd_snapshot_json c)) (\<lambda>K.
     rbind (ensure (same_fields board_keys (ec_leaderboard_fields K))
       (Exc RuntimeError ''leaderboard row violates the evaluation contract'')) (\<lambda>_.
       (let r = cd_result c
        in Inr \<lparr>br_identity = rr_identity r, br_handle = cd_handle c, br_rank = rank, br_invalid = rr_samples_invalid r,
             br_total = rr_samples_total r, br_valid = rr_samples_valid r, br_score = rr_score r, br_succeeded = rr_succeeded r\<rparr>))))"

fun board_rows :: "runtime \<Rightarrow> (nat \<times> candidate) list \<Rightarrow> board_row list result" where
  "board_rows R [] = Inr []"
| "board_rows R (e # es) = rbind (leaderboard_row R e) (\<lambda>r. rbind (board_rows R es) (\<lambda>rs. Inr (r # rs)))"

text \<open>\<open>instant\<close> reads the text of a cursor as the time it denotes among those that are stored.\<close>

definition get_leaderboard :: "runtime \<Rightarrow> application \<Rightarrow> (pystr \<Rightarrow> int option) \<Rightarrow> pystr \<Rightarrow> database \<Rightarrow> pystr \<Rightarrow> nat \<Rightarrow> pystr option
    \<Rightarrow> board_page answer" where
  "get_leaderboard R A instant now db identity limit cursor =
     (if identity \<notin> ec_identity_sha256 ` snd ` set (ap_contracts A) then auth_error ''LEADERBOARD_NOT_FOUND'' 404
      else
        rbind (decode_leaderboard_cursor (\<lambda>t. instant t \<noteq> None) (rt_depth R) now identity cursor) (\<lambda>(as_of, after_rank).
        rbind (answered (leaderboard db identity (int limit + 1) (the (instant as_of)) after_rank)) (\<lambda>entries.
        rbind (answered (board_rows R (take limit entries))) (\<lambda>rows.
          Inr \<lparr>bp_items = rows,
            bp_next = (if limit < length entries
              then Some (leaderboard_cursor as_of identity (int (fst (List.last (take limit entries))))) else None)\<rparr>))))"

section \<open>Background work\<close>

text \<open>
  One round of \<open>dispatch_outbox\<close> for one challenge, and the recovery at start-up.  What raises is logged, except at start-up
  in production, where it stops the application.
\<close>

definition dispatch_round :: "'q queue_ops \<Rightarrow> evaluation_contract \<Rightarrow> int \<Rightarrow> (nat \<Rightarrow> int) \<Rightarrow> database \<times> 'q \<Rightarrow> database \<times> 'q" where
  "dispatch_round Q K now clock S =
     snd (dispatch_pending Q K clock (snd (expire_queued_deadlines (fst S) now (Some (ec_identity_sha256 K))), snd S))"

definition app_recovery :: "'q queue_ops \<Rightarrow> bool \<Rightarrow> evaluation_contract \<Rightarrow> int \<Rightarrow> int \<Rightarrow> (nat \<Rightarrow> int) \<Rightarrow> database \<times> 'q
    \<Rightarrow> unit result \<times> database \<times> 'q" where
  "app_recovery Q production K now now' clock S =
     (case recover Q K now' clock (snd (expire_queued_deadlines (fst S) now (Some (ec_identity_sha256 K))), snd S) of
        (Inl e, S') \<Rightarrow> (if production then Inl e else Inr (), S')
      | (Inr _, S') \<Rightarrow> (Inr (), S'))"

section \<open>Routes\<close>

text \<open>A dispatcher is known by the contract it was made for; all of them share the store.\<close>

definition common_policy :: "evaluation_contract \<Rightarrow> evaluation_contract \<Rightarrow> bool" where
  "common_policy a b \<longleftrightarrow> ec_body_bytes a = ec_body_bytes b \<and> ec_global_queue_depth a = ec_global_queue_depth b \<and>
     ec_max_outstanding a = ec_max_outstanding b \<and> ec_max_running a = ec_max_running b \<and>
     ec_owner_result_fields a = ec_owner_result_fields b \<and> ec_owner_failure_fields a = ec_owner_failure_fields b \<and>
     ec_leaderboard_fields a = ec_leaderboard_fields b"

definition result_keys :: "pystr list" where
  "result_keys = map u [''aggregation_version'', ''challenge_id'', ''dataset_sha256'', ''errors'', ''generation_settings'', ''metrics'',
     ''model_identity'', ''primary_metric'', ''prompt_envelope_version'', ''samples_invalid'', ''samples_total'', ''samples_valid'',
     ''score'', ''scorer_version'', ''selection_sha256'', ''student_prompt_sha256'', ''task'']"

fun routes_matched :: "(pystr \<times> evaluation_contract) list \<Rightarrow> (pystr \<times> evaluation_contract) list \<Rightarrow> unit result" where
  "routes_matched dispatchers [] = Inr ()"
| "routes_matched dispatchers ((ch, K) # rest) =
     rbind (ensure (ch = ec_challenge_id K) (Exc ValueError ''contract keys must match their challenge IDs'')) (\<lambda>_.
     rbind (ensure (case map_of dispatchers ch of None \<Rightarrow> False | Some D \<Rightarrow>
         ec_identity_sha256 D = ec_identity_sha256 K \<and> ec_snapshot_sha256 D = ec_snapshot_sha256 K)
       (Exc ValueError ''dispatcher does not match its evaluation contract'')) (\<lambda>_. routes_matched dispatchers rest))"

fun policies_shared :: "evaluation_contract \<Rightarrow> evaluation_contract list \<Rightarrow> unit result" where
  "policies_shared first [] = Inr ()"
| "policies_shared first (K # rest) =
     rbind (ensure (common_policy K first) (Exc ValueError ''multi-challenge contracts have incompatible process-wide policies'')) (\<lambda>_.
     rbind (ensure (same_fields result_keys (ec_owner_result_fields K))
       (Exc ValueError ''owner result fields are incompatible with the API contract'')) (\<lambda>_.
     rbind (ensure (same_fields failure_keys (ec_owner_failure_fields K))
       (Exc ValueError ''owner failure fields are incompatible with the API contract'')) (\<lambda>_.
     rbind (ensure (same_fields board_keys (ec_leaderboard_fields K))
       (Exc ValueError ''leaderboard fields are incompatible with the API contract'')) (\<lambda>_. policies_shared first rest))))"

definition normalize_routes :: "(pystr \<times> evaluation_contract) list \<Rightarrow> (pystr \<times> evaluation_contract) list \<Rightarrow> unit result" where
  "normalize_routes contracts dispatchers =
     (if contracts = [] \<or> fst ` set contracts \<noteq> fst ` set dispatchers
      then raise ValueError ''contracts and dispatchers must have the same non-empty challenge IDs''
      else rbind (routes_matched dispatchers contracts) (\<lambda>_. policies_shared (snd (hd contracts)) (map snd contracts)))"

end
