(* ===== verification/Api_Properties.thy ===== *)
theory Api_Properties
  imports Api Request_Identity
begin

text \<open>What the handlers promise: to the client about admission, retries, privacy, results and pages, and what it
  means for the system below that a submission is accepted.\<close>

section \<open>Routes\<close>

lemma routes_matched_keys: "routes_matched dispatchers cs = Inr () \<Longrightarrow> (ch, K) \<in> set cs \<Longrightarrow> ec_challenge_id K = ch"
  by (induction cs) (auto simp: rbind_Inr_iff)

lemma policies_shared_all: "policies_shared first Ks = Inr () \<Longrightarrow> K \<in> set Ks \<Longrightarrow> common_policy K first"
  by (induction Ks) (auto simp: rbind_Inr_iff)

lemma routes_uniform:
  assumes "normalize_routes contracts dispatchers = Inr ()" and "(ch, K) \<in> set contracts" and "(ch', K') \<in> set contracts"
  shows "ec_challenge_id K = ch \<and> same_limits K K'"
proof -
  have routes: "routes_matched dispatchers contracts = Inr ()" "policies_shared (snd (hd contracts)) (map snd contracts) = Inr ()"
    using assms(1) by (auto simp: normalize_routes_def rbind_Inr_iff split: if_splits)
  have "common_policy K (snd (hd contracts))" "common_policy K' (snd (hd contracts))"
    using policies_shared_all [OF routes(2)] assms(2,3) by force+
  then show ?thesis
    using routes_matched_keys [OF routes(1) assms(2)] by (simp add: common_policy_def same_limits_def)
qed

section \<open>Posting\<close>

lemma dispatch_keeps_rows:
  "db_submissions (fst (snd (dispatch_pending Q K clock S))) = db_submissions (fst S)"
proof -
  obtain r db' q' where "dispatch_pending Q K clock S = (r, db', q')"
    by (cases "dispatch_pending Q K clock S") auto
  then show ?thesis
    using mark_ids [of Q K clock _ "fst S" "snd S" r db' q'] by (simp add: dispatch_pending_def)
qed

lemma post_cases:
  assumes "post_submission R Q A available now fresh clock user ch prompt key (db, q) = (a, S)"
  obtains (refused) e where "a = Inl e" "S = (db, q)"
  | (accepted) K k fp row replayed db' where "map_of (ap_contracts A) ch = Some K" "key = Some k"
      "submission_checks R A available K ch prompt key = Inr ()" "catalog_fingerprint R A ch = Inr fp"
      "create_submission (rt_sha R) db now fresh user k prompt K fp = Inr ((row, replayed), db')"
      "a = Inr (submission_response row)" "S = snd (dispatch_pending Q K clock (db', q))"
proof (cases "map_of (ap_contracts A) ch")
  case None
  with assms refused show ?thesis
    by (auto simp: post_submission_def auth_error_def split: if_splits)
next
  case (Some K)
  show ?thesis
  proof (cases "admitted R A available db now fresh user ch K prompt key")
    case (Inl e)
    with Some assms refused show ?thesis
      by (auto simp: post_submission_def)
  next
    case (Inr x)
    obtain row replayed db' where x: "x = ((row, replayed), db')"
      by (cases x) auto
    have checks: "submission_checks R A available K ch prompt key = Inr ()"
      using Inr by (auto simp: admitted_def rbind_Inr_iff)
    moreover have "key \<noteq> None"
      using checks by (cases key) (simp_all add: submission_checks_def rbind_Inr_iff auth_error_def)
    moreover obtain fp where "catalog_fingerprint R A ch = Inr fp"
        "map_sum store_failure id (create_submission (rt_sha R) db now fresh user (the key) prompt K fp) = Inr x"
      using Inr by (auto simp: admitted_def rbind_Inr_iff)
    moreover from this(2) have "create_submission (rt_sha R) db now fresh user (the key) prompt K fp = Inr x"
      by (cases "create_submission (rt_sha R) db now fresh user (the key) prompt K fp") auto
    ultimately show ?thesis
      using accepted [OF Some] Some Inr x assms by (auto simp: post_submission_def)
  qed
qed

lemma run_intro:
  assumes "system_step Q K Ws S T" and "system_step Q K Ws T U"
  shows "(system_step Q K Ws)\<^sup>*\<^sup>* S U"
  using assms by (meson r_into_rtranclp rtranclp.rtrancl_into_rtrancl)

lemma post_run:
  assumes "map_of (ap_contracts A) ch = Some K"
    and "post_submission R Q A available now fresh clock user ch prompt key (db, q) = (a, db', q')"
  shows "(system_step Q K Ws)\<^sup>*\<^sup>* \<lparr>sy_db = db, sy_queue = q, sy_active = cs\<rparr> \<lparr>sy_db = db', sy_queue = q', sy_active = cs\<rparr>"
  using assms(2)
proof (cases rule: post_cases)
  case refused
  then show ?thesis
    by simp
next
  case (accepted K' k fp row replayed db1)
  have K: "K' = K"
    using accepted(1) assms(1) by simp
  obtain r where dispatched: "dispatch_pending Q K clock (db1, q) = (r, db', q')"
    using accepted(7) K by (cases "dispatch_pending Q K clock (db1, q)") auto
  let ?S = "\<lparr>sy_db = db, sy_queue = q, sy_active = cs\<rparr>"
  have "system_step Q K Ws ?S (?S\<lparr>sy_db := db1\<rparr>)"
    using accepted(5) K by (intro system_step.create [of _ ?S]) (auto simp: same_limits_def)
  moreover have "system_step Q K Ws (?S\<lparr>sy_db := db1\<rparr>) (?S\<lparr>sy_db := db1\<rparr>\<lparr>sy_db := db', sy_queue := q'\<rparr>)"
    using dispatched by (intro system_step.dispatch) auto
  ultimately have "(system_step Q K Ws)\<^sup>*\<^sup>* ?S (?S\<lparr>sy_db := db1\<rparr>\<lparr>sy_db := db', sy_queue := q'\<rparr>)"
    by (rule run_intro)
  then show ?thesis
    by simp
qed

lemma deadlines_step:
  "system_step Q K Ws \<lparr>sy_db = db, sy_queue = q, sy_active = cs\<rparr>
     \<lparr>sy_db = snd (expire_queued_deadlines db now i), sy_queue = q, sy_active = cs\<rparr>"
proof -
  let ?S = "\<lparr>sy_db = db, sy_queue = q, sy_active = cs\<rparr>"
  have "system_step Q K Ws ?S (?S\<lparr>sy_db := snd (expire_queued_deadlines db now i)\<rparr>)"
    by (rule system_step.deadlines [of ?S now i "fst (expire_queued_deadlines db now i)"]) simp
  then show ?thesis
    by simp
qed

lemma round_run:
  assumes "dispatch_round Q K now clock (db, q) = (db', q')"
  shows "(system_step Q K Ws)\<^sup>*\<^sup>* \<lparr>sy_db = db, sy_queue = q, sy_active = cs\<rparr> \<lparr>sy_db = db', sy_queue = q', sy_active = cs\<rparr>"
proof -
  let ?T = "\<lparr>sy_db = snd (expire_queued_deadlines db now (Some (ec_identity_sha256 K))), sy_queue = q, sy_active = cs\<rparr>"
  obtain r where "dispatch_pending Q K clock (sy_db ?T, sy_queue ?T) = (r, db', q')"
    using assms by (cases "dispatch_pending Q K clock (sy_db ?T, q)") (auto simp: dispatch_round_def)
  from system_step.dispatch [of Q K clock ?T, OF this] have "system_step Q K Ws ?T (?T\<lparr>sy_db := db', sy_queue := q'\<rparr>)" .
  then show ?thesis
    using run_intro [OF deadlines_step] by simp
qed

lemma recovery_run:
  assumes "app_recovery Q production K now now' clock (db, q) = (r, db', q')"
  shows "(system_step Q K Ws)\<^sup>*\<^sup>* \<lparr>sy_db = db, sy_queue = q, sy_active = cs\<rparr> \<lparr>sy_db = db', sy_queue = q', sy_active = cs\<rparr>"
proof -
  let ?T = "\<lparr>sy_db = snd (expire_queued_deadlines db now (Some (ec_identity_sha256 K))), sy_queue = q, sy_active = cs\<rparr>"
  obtain r' where "recover Q K now' clock (sy_db ?T, sy_queue ?T) = (r', db', q')"
    using assms by (cases "recover Q K now' clock (sy_db ?T, q)") (auto simp: app_recovery_def split: sum.splits)
  from system_step.recovery [of Q K now' clock ?T, OF this] have "system_step Q K Ws ?T (?T\<lparr>sy_db := db', sy_queue := q'\<rparr>)" .
  then show ?thesis
    using run_intro [OF deadlines_step] by simp
qed

lemma checks_passed:
  assumes "submission_checks R A available K ch prompt key = Inr ()"
  shows "enabled_for R (ap_draft A) K = Inr True" and "available ch = Some True" and "py_strip prompt \<noteq> []"
    and "\<exists>bytes. utf8 prompt = Inr bytes \<and> int (length bytes) \<le> ec_prompt_bytes K"
    and "\<exists>k. key = Some k \<and> idempotency_key_is_valid R K k"
  using assms
  by (cases "enabled_for R (ap_draft A) K"; cases "available ch"; cases "utf8 prompt"; cases key;
      auto simp: submission_checks_def rbind_Inr_iff auth_error_def ensure_def split: if_splits)+

text \<open>What is stored for a request that is accepted: a new row of it, or the row of an earlier request with the same key and the
  same digest.\<close>

definition stored_for :: "runtime \<Rightarrow> evaluation_contract \<Rightarrow> user_record \<Rightarrow> pystr \<Rightarrow> pystr \<Rightarrow> int \<Rightarrow> database \<Rightarrow> database
    \<Rightarrow> submission_row \<Rightarrow> bool" where
  "stored_for R K user k prompt now db db' r \<longleftrightarrow> sr_user r = us_id user \<and> sr_key r = k \<and>
     rbind (utf8 prompt) (request_sha256 (rt_sha R) (ec_challenge_id K) (ec_contract_version K)) = Inr (sr_request_sha256 r) \<and>
     (if r \<in> set (db_submissions db) then db_submissions db' = db_submissions db
      else db_submissions db' = db_submissions db @ [r] \<and> ours K r \<and> sr_challenge r = ec_challenge_id K \<and>
        sr_prompt r = prompt \<and> sr_status r = QUEUED \<and> sr_created r = now)"

lemma created_stored:
  assumes "create_submission (rt_sha R) db now fresh user k prompt K fp = Inr ((row, replayed), db')"
  shows "stored_for R K user k prompt now db db' row" and "row \<in> set (db_submissions db')"
proof -
  obtain bytes h where digest: "utf8 prompt = Inr bytes" "request_sha256 (rt_sha R) (ec_challenge_id K) (ec_contract_version K) bytes = Inr h"
    using assms by (auto simp: create_submission_def rbind_Inr_iff)
  show "stored_for R K user k prompt now db db' row" "row \<in> set (db_submissions db')"
    using assms digest
    by (auto simp: create_submission_def rbind_Inr_iff stored_for_def ours_def new_row_def Let_def image_iff
        dest!: find_held split: option.splits if_splits)
qed

text \<open>C12. What it means that a submission is accepted.  In any state that the system (one store, the in-memory queue, any number of
  workers, with crashes) reaches, a \<open>POST /v1/submissions\<close> for a challenge whose contract is the one deployed is answered with a
  submission only when the challenge is enabled, its runtime is available, the prompt is not blank and within its byte limit, and
  the idempotency key is valid.  The submission that is answered is then a stored row with the caller's key and the digest of
  this request: either the row of an earlier request, and no row changes, or one new row with this prompt, QUEUED under this
  contract.  When it is QUEUED under this contract, the queue holds a message for it once the request returns.\<close>
theorem accepted_is_queued:
  assumes "start_system K visibility db0 now0 clock0 = Inr S0" and "reachable K db0" and "0 < ec_max_attempts K"
    and "(system_step memory_ops K Ws)\<^sup>*\<^sup>* S0 \<lparr>sy_db = db, sy_queue = q, sy_active = cs\<rparr>"
    and "map_of (ap_contracts A) ch = Some K"
    and "post_submission R memory_ops A available now fresh clock user ch prompt key (db, q) = (Inr v, db', q')"
  shows "enabled_for R (ap_draft A) K = Inr True \<and> available ch = Some True \<and> py_strip prompt \<noteq> [] \<and>
    (\<exists>bytes. utf8 prompt = Inr bytes \<and> int (length bytes) \<le> ec_prompt_bytes K) \<and>
    (\<exists>k r. key = Some k \<and> idempotency_key_is_valid R K k \<and> r \<in> set (db_submissions db') \<and> v = submission_response r \<and>
      stored_for R K user k prompt now db db' r \<and>
      (ours K r \<and> sr_status r = QUEUED \<longrightarrow> message_for K (sr_id r) \<in># mq_held q'))"
proof -
  obtain k fp row replayed db1 where p: "key = Some k" "submission_checks R A available K ch prompt key = Inr ()"
      "create_submission (rt_sha R) db now fresh user k prompt K fp = Inr ((row, replayed), db1)"
      "v = submission_response row" "(db', q') = snd (dispatch_pending memory_ops K clock (db1, q))"
    using assms(5) by (cases rule: post_cases [OF assms(6)]) auto
  let ?S = "\<lparr>sy_db = db, sy_queue = q, sy_active = cs\<rparr>"
  have "memory_workers.system_safe K ?S"
    by (rule memory_workers.steps_safe [OF assms(4) start_safe [OF assms(1-3)] assms(3)])
  moreover have "system_step memory_ops K Ws ?S (?S\<lparr>sy_db := db1\<rparr>)"
    using p(3) by (intro system_step.create [of _ ?S]) (auto simp: same_limits_def)
  ultimately have safe: "memory_workers.safe K db1 q cs"
    using memory_workers.step_safe [OF _ _ assms(3)] by (fastforce simp: memory_workers.system_safe_def)
  obtain res where dispatched: "dispatch_pending memory_ops K clock (db1, q) = (res, db', q')"
    using p(5) by (cases "dispatch_pending memory_ops K clock (db1, q)") auto
  have rows: "db_submissions db' = db_submissions db1"
    using dispatch_keeps_rows [of memory_ops K clock "(db1, q)"] dispatched by simp
  note stored = created_stored [OF p(3)]
  have queued: "message_for K (sr_id row) \<in># mq_held q'" if "ours K row \<and> sr_status row = QUEUED"
    using memory_workers.dispatch_reaches [OF safe dispatched stored(2)] that by blast
  have valid: "idempotency_key_is_valid R K k"
    using checks_passed(5) [OF p(2)] p(1) by simp
  have kept: "stored_for R K user k prompt now db db' row"
    using stored(1) by (simp add: stored_for_def rows)
  have member: "row \<in> set (db_submissions db')"
    using stored(2) by (simp add: rows)
  show ?thesis
    by (rule conjI [OF checks_passed(1) [OF p(2)]], rule conjI [OF checks_passed(2) [OF p(2)]],
        rule conjI [OF checks_passed(3) [OF p(2)]], rule conjI [OF checks_passed(4) [OF p(2)]],
        rule exI [of _ k], rule exI [of _ row])
      (use p(1,4) valid kept member queued in simp)
qed

section \<open>Admission\<close>

lemma create_paused:
  assumes "create_submission sha db now fresh user key prompt c fp = Inl (Exc ChallengePausedError m)"
  shows "assert_admissions_open db (ec_challenge_id c) fp \<noteq> Inr ()"
  using assms by (auto simp: create_submission_def request_sha256_def utf8_def rbind_Inl_iff ensure_def Let_def
      split: option.splits if_splits)

lemma create_shut:
  assumes "create_submission sha db now fresh user key prompt c fp = Inr ((row, replayed), db')"
    and "assert_admissions_open db (ec_challenge_id c) fp \<noteq> Inr ()"
  shows "db' = db"
  using assms by (auto simp: create_submission_def rbind_Inr_iff split: option.splits if_splits)

lemma store_failure_paused: "store_failure e = Api_Error ''CHALLENGE_PAUSED'' 409 \<Longrightarrow> \<exists>m. e = Exc ChallengePausedError m"
  by (cases e) (auto simp: store_failure_def split: exc_class.splits)

lemma store_failure_shut:
  "store_failure e \<notin> {Api_Error ''CHALLENGE_NOT_OPEN'' 409, Api_Error ''CHALLENGE_NOT_FOUND'' 404, Api_Error ''CHALLENGE_RUNTIME_UNAVAILABLE'' 503}"
  by (cases e) (auto simp: store_failure_def split: exc_class.splits)

definition shut_answers :: "'a answer set" where
  "shut_answers = Inl ` {Api_Error ''CHALLENGE_NOT_OPEN'' 409, Api_Error ''CHALLENGE_NOT_FOUND'' 404,
     Api_Error ''CHALLENGE_RUNTIME_UNAVAILABLE'' 503, Api_Error ''CHALLENGE_PAUSED'' 409}"

lemma checks_open:
  assumes "enabled_for R (ap_draft A) K = Inr True" and "available ch = Some True"
  shows "submission_checks R A available K ch prompt key \<notin> shut_answers"
  using assms by (cases "utf8 prompt") (auto simp: submission_checks_def shut_answers_def ensure_def auth_error_def split: option.splits if_splits)

lemma checks_shut:
  assumes "submission_checks R A available K ch prompt key = Inr ()"
  shows "enabled_for R (ap_draft A) K = Inr True \<and> available ch = Some True"
  using assms by (auto simp: submission_checks_def rbind_Inr_iff ensure_def split: option.splits if_splits)

lemma challenge_seen:
  assumes "get_challenge R A available D ch = Inr v" and "map_of (ap_contracts A) ch = Some K"
  obtains p fp e where "map_of (ap_catalog A) ch = Some p" "catalog_fingerprint R A ch = Inr (Some fp)"
    "enabled_for R (ap_draft A) K = Inr e"
    "cv_accepting v = (e \<and> available ch = Some True \<and> \<not> closed_for (state_of D ch) fp)"
  using assms by (auto simp: get_challenge_def view_of_def challenge_response_def rbind_Inr_iff auth_error_def
      catalog_fingerprint_def split: option.splits)

lemma challenge_without_contract:
  assumes "get_challenge R A available D ch = Inr v" and "map_of (ap_contracts A) ch = None"
  shows "\<not> cv_accepting v"
  using assms by (auto simp: get_challenge_def view_of_def challenge_response_def rbind_Inr_iff auth_error_def split: option.splits)

lemma post_open:
  assumes K: "map_of (ap_contracts A) ch = Some K" and "enabled_for R (ap_draft A) K = Inr True" and "available ch = Some True"
    and fp: "catalog_fingerprint R A ch = Inr fp" and gate: "assert_admissions_open (fst S) (ec_challenge_id K) fp = Inr ()"
  shows "fst (post_submission R Q A available now fresh clock user ch prompt key S) \<notin> shut_answers"
proof (cases "admitted R A available (fst S) now fresh user ch K prompt key")
  case (Inr x)
  then show ?thesis
    using K by (cases x) (auto simp: post_submission_def shut_answers_def)
next
  case (Inl e)
  have "e \<notin> {Api_Error ''CHALLENGE_NOT_OPEN'' 409, Api_Error ''CHALLENGE_NOT_FOUND'' 404,
     Api_Error ''CHALLENGE_RUNTIME_UNAVAILABLE'' 503, Api_Error ''CHALLENGE_PAUSED'' 409}"
  proof (cases "submission_checks R A available K ch prompt key")
    case (Inl d)
    then show ?thesis
      using \<open>admitted _ _ _ _ _ _ _ _ _ _ _ = Inl e\<close> checks_open [OF assms(2), of available ch prompt key] assms(3)
      by (simp add: admitted_def shut_answers_def)
  next
    case (Inr y)
    then obtain m where m: "create_submission (rt_sha R) (fst S) now fresh user (the key) prompt K fp = Inl m" "e = store_failure m"
      using \<open>admitted _ _ _ _ _ _ _ _ _ _ _ = Inl e\<close> fp
      by (cases "create_submission (rt_sha R) (fst S) now fresh user (the key) prompt K fp") (auto simp: admitted_def)
    then have "e \<noteq> Api_Error ''CHALLENGE_PAUSED'' 409"
      using create_paused gate store_failure_paused by metis
    then show ?thesis
      using store_failure_shut [of m] m(2) by simp
  qed
  then show ?thesis
    using Inl K by (simp add: post_submission_def shut_answers_def)
qed

lemma post_shut:
  assumes "map_of (ap_contracts A) ch = Some K" and "catalog_fingerprint R A ch = Inr fp"
    and "\<not> (enabled_for R (ap_draft A) K = Inr True \<and> available ch = Some True \<and>
      assert_admissions_open (fst S) (ec_challenge_id K) fp = Inr ())"
  shows "db_submissions (fst (snd (post_submission R Q A available now fresh clock user ch prompt key S))) = db_submissions (fst S)"
proof -
  obtain db q where S: "S = (db, q)"
    by force
  obtain a S' where post: "post_submission R Q A available now fresh clock user ch prompt key (db, q) = (a, S')"
    by (cases "post_submission R Q A available now fresh clock user ch prompt key (db, q)")
  then show ?thesis
  proof (cases rule: post_cases)
    case refused
    then show ?thesis
      using post S by simp
  next
    case (accepted K' k fp' row replayed db')
    then have "assert_admissions_open db (ec_challenge_id K) fp \<noteq> Inr ()" "K' = K" "fp' = fp"
      using assms checks_shut [OF accepted(3)] S by auto
    then have "db' = db"
      using create_shut [OF accepted(5)] by blast
    then show ?thesis
      using accepted(7) post S dispatch_keeps_rows [of Q K' clock "(db, q)"] by simp
  qed
qed

text \<open>C5. 
  What a student is shown is what happens: while the challenge is shown as accepting submissions, none is refused because the
  challenge is missing, not open, paused or without a runtime; while it is not, no request stores a submission (a key that was
  used before still answers with its submission).
\<close>

theorem accepting_is_truthful:
  assumes "admin_reachable ctl parse D" and "db_admin (fst S) = gate_rows D" and "normalize_routes (ap_contracts A) dispatchers = Inr ()"
    and "get_challenge R A available D ch = Inr v"
  shows "if cv_accepting v
    then fst (post_submission R Q A available now fresh clock user ch prompt key S) \<notin> shut_answers
    else db_submissions (fst (snd (post_submission R Q A available now fresh clock user ch prompt key S))) = db_submissions (fst S)"
proof (cases "map_of (ap_contracts A) ch")
  case None
  with challenge_without_contract [OF assms(4)] show ?thesis
    by (simp add: post_submission_def)
next
  case (Some K)
  then have ch: "ec_challenge_id K = ch"
    using routes_uniform [OF assms(3)] by (blast dest: map_of_SomeD)
  obtain p fp e where seen: "catalog_fingerprint R A ch = Inr (Some fp)" "enabled_for R (ap_draft A) K = Inr e"
      "cv_accepting v = (e \<and> available ch = Some True \<and> \<not> closed_for (state_of D ch) fp)"
    by (rule challenge_seen [OF assms(4) Some])
  have gate: "assert_admissions_open (fst S) (ec_challenge_id K) (Some fp) = Inr () \<longleftrightarrow> \<not> closed_for (state_of D ch) fp"
    using gate_answers [OF admin_reachable_ok [OF assms(1)] assms(2), of ch fp] ch by simp
  show ?thesis
  proof (cases "cv_accepting v")
    case True
    then have "enabled_for R (ap_draft A) K = Inr True" "available ch = Some True"
        "assert_admissions_open (fst S) (ec_challenge_id K) (Some fp) = Inr ()"
      using seen gate by simp_all
    from post_open [where available = available, OF Some this(1,2) seen(1) this(3)] True show ?thesis
      by simp
  next
    case False
    then have "\<not> (enabled_for R (ap_draft A) K = Inr True \<and> available ch = Some True \<and>
        assert_admissions_open (fst S) (ec_challenge_id K) (Some fp) = Inr ())"
      using seen(2,3) gate by auto
    with False post_shut [OF Some seen(1)] show ?thesis
      by simp
  qed
qed

section \<open>Retries\<close>





section \<open>Results\<close>

lemma owned_row:
  assumes "submission_for_owner db i user = Some r"
  shows "r \<in> set (db_submissions db) \<and> sr_id r = i \<and> sr_user r = user"
  using find_held [OF assms [unfolded submission_for_owner_def]] by simp

lemma answered_not_api [simp]: "answered x \<noteq> auth_error c s"
  by (cases x) (simp_all add: auth_error_def answered_def)

lemma views_kind:
  "rejected_view K why = Inr t \<Longrightarrow> \<exists>v. t = Rejected ''TOKEN_LIMIT_EXCEEDED'' (Some v) False"
  "failed_view K f = Inr t \<Longrightarrow> \<exists>c v b. f = (Some v, c, b) \<and> t = Failed c (Some v) b \<and> c \<in> set FAILURE_CODES"
  "succeeded_view K ms = Inr t \<Longrightarrow> t = Succeeded ms"
  by (auto simp: rejected_view_def failed_view_def succeeded_view_def rbind_Inr_iff Let_def case_prod_unfold prod_eq_iff)

lemma stored_result:
  assumes "reachable K db" and "submission_for_owner db i user = Some r"
  shows "sr_status r = SUCCEEDED \<longleftrightarrow> (\<exists>x. find (\<lambda>x. rr_submission x = i) (db_results db) = Some x)"
proof -
  note r = owned_row [OF assms(2)]
  have ok: "keys_ok db" "results_ok db"
    using reachable_ok [OF assms(1)] by (auto simp: store_ok_def)
  show ?thesis
  proof
    assume "sr_status r = SUCCEEDED"
    then obtain x where "x \<in> set (db_results db)" "rr_submission x = i"
      using ok(2) r by (auto simp: results_ok_def)
    then show "\<exists>x. find (\<lambda>x. rr_submission x = i) (db_results db) = Some x"
      by (metis (mono_tags, lifting) find_None_iff option.exhaust)
  next
    assume "\<exists>x. find (\<lambda>x. rr_submission x = i) (db_results db) = Some x"
    then obtain x where "x \<in> set (db_results db)" "rr_submission x = i"
      using find_held by fastforce
    then obtain r' where "r' \<in> set (db_submissions db)" "sr_id r' = i" "sr_status r' = SUCCEEDED"
      using ok(2) by (auto simp: results_ok_def result_of_def)
    then show "sr_status r = SUCCEEDED"
      using same_id [of db r' r] r ok(1) by (simp add: keys_ok_def)
  qed
qed

text \<open>C35. 
  What an owner reads follows the state of the submission: not ready while it is queued or running, the stored result once it
  has succeeded, the recorded failure or rejection otherwise - always checked against the contract that was stored with the
  submission - and never that a finished submission has no result.
\<close>

theorem result_follows_status:
  assumes "reachable K db"
  shows "get_result R db user i =
    (case submission_for_owner db i (us_id user) of
       None \<Rightarrow> auth_error ''SUBMISSION_NOT_FOUND'' 404
     | Some r \<Rightarrow>
         (case sr_status r of
            SUCCEEDED \<Rightarrow> answered (rbind (stored_contract R (sr_snapshot_json r)) (\<lambda>c.
              succeeded_view c (rr_result (the (find (\<lambda>x. rr_submission x = i) (db_results db))))))
          | FAILED \<Rightarrow> answered (rbind (stored_contract R (sr_snapshot_json r)) (\<lambda>c.
              failed_view c (sr_failure_version r, the (sr_failure_code r), sr_failure_retryable r = Some True)))
          | REJECTED \<Rightarrow> answered (rbind (stored_contract R (sr_snapshot_json r)) (\<lambda>c.
              rejected_view c (Some (sr_failure_version r, the (sr_failure_code r), sr_failure_retryable r = Some True))))
          | _ \<Rightarrow> auth_error ''RESULT_NOT_READY'' 409))"
proof (cases "submission_for_owner db i (us_id user)")
  case None
  then show ?thesis
    by (simp add: get_result_def)
next
  case (Some r)
  have row: "row_ok r"
    using reachable_ok [OF assms] owned_row [OF Some] by (simp add: store_ok_def states_ok_def)
  note result = stored_result [OF assms Some]
  show ?thesis
  proof (cases "sr_status r")
    case SUCCEEDED
    then obtain x where "find (\<lambda>x. rr_submission x = i) (db_results db) = Some x"
      using result by blast
    with Some SUCCEEDED show ?thesis
      by (simp add: get_result_def owner_result_def)
  next
    case FAILED
    then have "find (\<lambda>x. rr_submission x = i) (db_results db) = None"
      using result by (cases "find (\<lambda>x. rr_submission x = i) (db_results db)") auto
    moreover obtain c where "sr_failure_code r = Some c"
      using row FAILED by (auto simp: row_ok_def)
    ultimately show ?thesis
      using Some FAILED by (simp add: get_result_def owner_result_def)
  next
    case REJECTED
    then obtain c where "sr_failure_code r = Some c"
      using row by (auto simp: row_ok_def)
    with Some REJECTED show ?thesis
      by (simp add: get_result_def owner_result_def)
  qed (use Some in \<open>simp_all add: get_result_def owner_result_def\<close>)
qed

section \<open>Privacy\<close>

lemma find_append_other: "\<not> P x \<Longrightarrow> find P (xs @ [x]) = find P xs"
  by (induction xs) auto

lemma dispatch_keeps_results:
  "db_results (fst (snd (dispatch_pending Q K clock S))) = db_results (fst S)"
proof -
  have "dispatch_ids Q K clock ids (db, q) = (r, db', q') \<Longrightarrow> db_results db' = db_results db" for ids db q clock r db' q'
    by (induction ids arbitrary: clock db q r) (fastforce simp: mark_outbox_published_def split: sum.splits prod.splits)+
  then have "db_results (fst (snd (dispatch_ids Q K clock ids (db, q)))) = db_results db" for ids db q
    by (cases "dispatch_ids Q K clock ids (db, q)") auto
  then show ?thesis
    by (cases S) (simp add: dispatch_pending_def)
qed

lemma post_appends:
  assumes "post_submission R Q A available now fresh clock user ch prompt key (db, q) = (a, db', q')"
  shows "db_results db' = db_results db \<and>
    (db_submissions db' = db_submissions db \<or> (\<exists>r. sr_user r = us_id user \<and> db_submissions db' = db_submissions db @ [r]))"
  using assms
proof (cases rule: post_cases)
  case (accepted K k fp row replayed db1)
  have "db_results db1 = db_results db \<and>
      (db_submissions db1 = db_submissions db \<or> (\<exists>r. sr_user r = us_id user \<and> db_submissions db1 = db_submissions db @ [r]))"
    using accepted(5) by (auto simp: create_submission_def rbind_Inr_iff Let_def new_row_def split: option.splits if_splits)
  then show ?thesis
    using accepted(7) dispatch_keeps_rows [of Q K clock "(db1, q)"] dispatch_keeps_results [of Q K clock "(db1, q)"]
    by (metis fst_conv)
qed simp

text \<open>C34. Nothing that a request of one user stores or is answered shows in what another user reads.\<close>

theorem other_users_unseen:
  assumes "post_submission R Q A available now fresh clock user ch prompt key (db, q) = (a, db', q')" and "us_id reader \<noteq> us_id user"
  shows "get_submission db' reader i = get_submission db reader i \<and> get_owner_prompt db' reader i = get_owner_prompt db reader i \<and>
    get_result R db' reader i = get_result R db reader i \<and>
    get_submissions stamp utc depth db' reader limit cursor = get_submissions stamp utc depth db reader limit cursor"
proof -
  have owner: "submission_for_owner db' i (us_id reader) = submission_for_owner db i (us_id reader)"
    using post_appends [OF assms(1)] assms(2) by (auto simp: submission_for_owner_def find_append_other)
  have "filter (\<lambda>r. sr_user r = us_id reader \<and> before_cursor stamp c r) (db_submissions db') =
      filter (\<lambda>r. sr_user r = us_id reader \<and> before_cursor stamp c r) (db_submissions db)" for c
    using post_appends [OF assms(1)] assms(2) by auto
  moreover have "owner_result db' i (us_id reader) = owner_result db i (us_id reader)"
    using owner post_appends [OF assms(1)] by (simp add: owner_result_def cong: option.case_cong)
  ultimately show ?thesis
    using owner by (simp add: get_submission_def get_owner_prompt_def get_result_def get_submissions_def history_records_def)
qed

section \<open>Reading the whole history\<close>

text \<open>A client that follows \<open>next_cursor\<close> until there is none.  \<open>None\<close> in the result: it did not come to an end with this fuel.\<close>

fun read_history :: "(pystr option \<Rightarrow> page answer) \<Rightarrow> nat \<Rightarrow> pystr option \<Rightarrow> submission_view list answer option" where
  "read_history fetch 0 cursor = None"
| "read_history fetch (Suc n) cursor =
     (case fetch cursor of
        Inl e \<Rightarrow> Some (Inl e)
      | Inr p \<Rightarrow>
          (case pg_next p of
             None \<Rightarrow> Some (Inr (pg_items p))
           | Some c \<Rightarrow> map_option (\<lambda>r. rbind r (\<lambda>rest. Inr (pg_items p @ rest))) (read_history fetch n (Some c))))"

text \<open>Times are written as readable UTC texts that sort as the times do, and identifiers as the store draws them.\<close>

definition stamps_ok :: "(int \<Rightarrow> pystr) \<Rightarrow> (pystr \<Rightarrow> bool) \<Rightarrow> submission_row list \<Rightarrow> bool" where
  "stamps_ok stamp utc rs \<longleftrightarrow>
     list_all (\<lambda>r. utc (stamp (sr_created r)) \<and> readable (stamp (sr_created r)) \<and> is_submission_id (sr_id r) \<and>
       list_all (\<lambda>s. (stamp (sr_created r) < stamp (sr_created s)) = (sr_created r < sr_created s)) rs) rs"

lemma stamps_member:
  assumes "stamps_ok stamp utc rs" and "r \<in> set rs" and "s \<in> set rs"
  shows "utc (stamp (sr_created r)) \<and> readable (stamp (sr_created r)) \<and> is_submission_id (sr_id r)"
    and "before_cursor stamp (Some (stamp (sr_created s), sr_id s)) r \<longleftrightarrow> row_key r < row_key s"
proof -
  show "utc (stamp (sr_created r)) \<and> readable (stamp (sr_created r)) \<and> is_submission_id (sr_id r)"
    using assms by (simp add: stamps_ok_def list_all_iff)
  have "(stamp (sr_created r) < stamp (sr_created s)) = (sr_created r < sr_created s)"
      "(stamp (sr_created s) < stamp (sr_created r)) = (sr_created s < sr_created r)"
    using assms by (simp_all add: stamps_ok_def list_all_iff)
  then have "(stamp (sr_created r) = stamp (sr_created s)) = (sr_created r = sr_created s)"
    by (metis less_irrefl linorder_less_linear)
  then show "before_cursor stamp (Some (stamp (sr_created s), sr_id s)) r \<longleftrightarrow> row_key r < row_key s"
    using \<open>(stamp (sr_created r) < stamp (sr_created s)) = (sr_created r < sr_created s)\<close>
    by (auto simp: before_cursor_def row_key_def less_prod_def')
qed

lemma history_members: "set (history db user) = {r \<in> set (db_submissions db). sr_user r = user}"
  by (auto simp: history_def newest_first_def)

lemma records_filtered:
  "history_records stamp db user n c = take n (filter (before_cursor stamp c) (history db user))"
  by (simp add: history_records_def history_def newest_first_filter [symmetric] filter_filter conj_commute)

lemma records_first: "history_records stamp db user n None = take n (history db user)"
  by (simp add: records_filtered before_cursor_def)

lemma records_after:
  assumes "distinct_ids db" and "stamps_ok stamp utc (history db user)" and "i < length (history db user)"
  shows "history_records stamp db user n (Some (stamp (sr_created (history db user ! i)), sr_id (history db user ! i))) =
    take n (drop (Suc i) (history db user))"
proof -
  let ?H = "history db user"
  have "sorted_wrt (\<lambda>x y. row_key y < row_key x) ?H"
    using assms(1) by (auto simp: history_def distinct_ids_def intro!: newest_first_sorted distinct_map_filter)
  then have "filter (\<lambda>r. row_key r < row_key (?H ! i)) ?H = drop (Suc i) ?H"
    using assms(3) by (rule filter_below)
  moreover have "filter (before_cursor stamp (Some (stamp (sr_created (?H ! i)), sr_id (?H ! i)))) ?H =
      filter (\<lambda>r. row_key r < row_key (?H ! i)) ?H"
    using stamps_member(2) [OF assms(2) _ nth_mem [OF assms(3)]] by (intro filter_cong) auto
  ultimately show ?thesis
    by (simp add: records_filtered)
qed

text \<open>The cursor in front of position \<open>k\<close> of the history.\<close>

definition cursor_at :: "(int \<Rightarrow> pystr) \<Rightarrow> submission_row list \<Rightarrow> nat \<Rightarrow> pystr option" where
  "cursor_at stamp H k = (case k of 0 \<Rightarrow> None | Suc i \<Rightarrow> Some (history_cursor (stamp (sr_created (H ! i))) (sr_id (H ! i))))"

lemma page_at:
  assumes "distinct_ids db" and "stamps_ok stamp utc (history db (us_id user))" and "0 < depth" and "0 < limit"
    and "k \<le> length (history db (us_id user))"
  shows "get_submissions stamp utc depth db user limit (cursor_at stamp (history db (us_id user)) k) =
    Inr \<lparr>pg_items = map submission_response (take limit (drop k (history db (us_id user)))),
      pg_next = (if k + limit < length (history db (us_id user)) then cursor_at stamp (history db (us_id user)) (k + limit) else None)\<rparr>"
proof -
  let ?H = "history db (us_id user)"
  let ?c = "case k of 0 \<Rightarrow> None | Suc i \<Rightarrow> Some (stamp (sr_created (?H ! i)), sr_id (?H ! i))"
  have "decode_history_cursor utc depth (cursor_at stamp ?H k) = Inr ?c"
  proof (cases k)
    case 0
    then show ?thesis
      by (simp add: cursor_at_def decode_history_cursor_def)
  next
    case (Suc i)
    then have "?H ! i \<in> set ?H"
      using assms(5) by simp
    from stamps_member(1) [OF assms(2) this this] Suc assms(3) show ?thesis
      by (simp add: cursor_at_def history_cursor_read)
  qed
  moreover have records: "history_records stamp db (us_id user) (limit + 1) ?c = take (limit + 1) (drop k ?H)"
    using assms(5) records_after [OF assms(1,2)] by (cases k) (simp_all add: records_first)
  moreover have "List.last (take limit (drop k ?H)) = ?H ! (k + limit - 1)" if "k + limit < length ?H"
    using that assms(4) by (simp add: last_conv_nth min_def)
  moreover have "cursor_at stamp ?H (k + limit) =
      Some (history_cursor (stamp (sr_created (?H ! (k + limit - 1)))) (sr_id (?H ! (k + limit - 1))))"
    using assms(4) by (cases "k + limit") (simp_all add: cursor_at_def)
  ultimately show ?thesis
    using assms(4) by (auto simp: get_submissions_def Let_def min_def)
qed

lemma read_from:
  assumes "distinct_ids db" and "stamps_ok stamp utc (history db (us_id user))" and "0 < depth" and "0 < limit"
    and "k \<le> length (history db (us_id user))" and "length (history db (us_id user)) - k < n"
  shows "read_history (get_submissions stamp utc depth db user limit) n (cursor_at stamp (history db (us_id user)) k) =
    Some (Inr (map submission_response (drop k (history db (us_id user)))))"
  using assms(5,6)
proof (induction n arbitrary: k)
  case (Suc n)
  let ?H = "history db (us_id user)"
  note page = page_at [OF assms(1-4) Suc.prems(1)]
  show ?case
  proof (cases "k + limit < length ?H")
    case True
    then have "length ?H - (k + limit) < n"
      using Suc.prems assms(4) by linarith
    moreover have "cursor_at stamp ?H (k + limit) \<noteq> None"
      using assms(4) by (simp add: cursor_at_def split: nat.splits)
    then obtain c where c: "cursor_at stamp ?H (k + limit) = Some c"
      by blast
    ultimately have rest: "read_history (get_submissions stamp utc depth db user limit) n (Some c) =
        Some (Inr (map submission_response (drop (k + limit) ?H)))"
      using Suc.IH [of "k + limit"] True by simp
    have "drop k ?H = take limit (drop k ?H) @ drop (k + limit) ?H"
      by (metis append_take_drop_id add.commute drop_drop)
    then have "map submission_response (drop k ?H) =
        map submission_response (take limit (drop k ?H)) @ map submission_response (drop (k + limit) ?H)"
      by (metis map_append)
    then show ?thesis
      using page True rest c by simp
  next
    case False
    with page show ?thesis
      by simp
  qed
qed simp

text \<open>C36. 
  A client that follows the cursors of its history, with any page size, comes to an end and has then read each of its
  submissions exactly once, newest first.
\<close>

theorem history_read_once:
  assumes "reachable K db" and "stamps_ok stamp utc (history db (us_id user))" and "0 < depth" and "0 < limit"
  shows "read_history (get_submissions stamp utc depth db user limit) (Suc (length (history db (us_id user)))) None =
      Some (Inr (map submission_response (history db (us_id user)))) \<and>
    set (history db (us_id user)) = {r \<in> set (db_submissions db). sr_user r = us_id user} \<and>
    sorted_wrt (\<lambda>x y. row_key y < row_key x) (history db (us_id user))"
proof -
  have ids: "distinct_ids db"
    using reachable_ok [OF assms(1)] by (simp add: store_ok_def keys_ok_def)
  then have "sorted_wrt (\<lambda>x y. row_key y < row_key x) (history db (us_id user))"
    by (auto simp: history_def distinct_ids_def intro!: newest_first_sorted distinct_map_filter)
  then show ?thesis
    using read_from [OF ids assms(2-4), of 0 "Suc (length (history db (us_id user)))"]
    by (simp add: cursor_at_def history_members del: read_history.simps)
qed

section \<open>Examples\<close>

definition demo_snapshot :: json where
  "demo_snapshot = JObj [(u ''access_policy'', JObj []), (u ''catalog'', JObj []), (u ''evaluation_identity'', JObj
     [(u ''model_identity'', JObj [(u ''model'', JStr (u ''m'')), (u ''revision'', JStr (u ''r'')), (u ''runtime'', JStr (u ''t'')),
        (u ''runtime_version'', JStr (u ''v''))])])]"

definition demo_route :: evaluation_contract where
  "demo_route = demo_contract\<lparr>ec_snapshot_json := dumps (\<lambda>_. []) demo_snapshot, ec_owner_result_fields := map JStr result_keys,
     ec_owner_failure_fields := map JStr failure_keys, ec_leaderboard_fields := map JStr board_keys\<rparr>"

definition demo_public :: public_challenge where
  "demo_public = \<lparr>pc_challenge_id = u ''upos'', pc_title = u ''t'', pc_version = [], pc_language = [], pc_treebank = [], pc_task = u ''upos'',
     pc_sample_count = 1, pc_primary_metric = [], pc_secondary_metrics = [], pc_response_schema_version = [],
     pc_scorer_version = None, pc_aggregation_version = None, pc_dataset_sha256 = [], pc_selection_sha256 = [],
     pc_security_level = [], pc_status = [], pc_annotation_license = [], pc_attribution_requirements = [], pc_source_release = [],
     pc_source_commit = [], pc_source_file_sha256s = [], pc_share_alike_requirements = [], pc_underlying_text_rights = [],
     pc_benchmark_limitations = []\<rparr>"

definition demo_app :: application where
  "demo_app = \<lparr>ap_catalog = [(u ''upos'', demo_public)], ap_contracts = [(u ''upos'', demo_route)], ap_draft = True\<rparr>"

definition demo_rt :: runtime where
  "demo_rt = demo_runtime\<lparr>rt_sha := (\<lambda>_. u ''fp''), rt_fullmatch := (\<lambda>_ _. True)\<rparr>"

lemma demo_snapshot_read: "py_loads demo_rt (dumps (\<lambda>_. []) demo_snapshot) = Inr demo_snapshot"
proof -
  have "plain 9 demo_snapshot"
    by (simp add: demo_snapshot_def u_def)
  then have "loads 9 (dumps (\<lambda>_. []) demo_snapshot) = Inr demo_snapshot"
    by (rule loads_dumps)
  then show ?thesis
    by (simp add: py_loads_def demo_rt_def demo_runtime_def)
qed

lemma demo_enabled: "enabled_for demo_rt True demo_route = Inr True"
  using demo_snapshot_read
  by (simp add: enabled_for_def external_activation_ready_def demo_route_def demo_snapshot_def as_mapping_def mapping_field_def json_get_def u_def)

lemma demo_model: "\<exists>m. contract_model_identity demo_rt demo_route = Inr m"
  using demo_snapshot_read
  by (simp add: contract_model_identity_def evaluation_identity_def contract_section_def demo_route_def demo_snapshot_def as_mapping_def json_item_def
      model_identity_shape_def shaped_def has_keys_def json_get_def is_str_def ensure_def u_def)

lemma demo_fingerprint: "source_fingerprint (rt_sha demo_rt) demo_public = Inr (u ''fp'')"
proof -
  have "nat_text (Suc 0) = [49]"
    by (subst nat_text.simps) simp
  then have "\<exists>b. utf8 (dumps (\<lambda>_. []) (public_json demo_public)) = Inr b"
    by (simp add: public_json_def demo_public_def optional_str_def dump_string_def escape_char_def utf8_def is_surrogate_def int_text_def u_def)
  then show ?thesis
    by (auto simp: source_fingerprint_def demo_rt_def)
qed

definition demo_start_db :: database where
  "demo_start_db = empty_db\<lparr>db_users := [demo_user]\<rparr>"

definition demo_post :: "database \<times> memory_queue \<Rightarrow> submission_view answer \<times> database \<times> memory_queue" where
  "demo_post = post_submission demo_rt memory_ops demo_app (\<lambda>_. Some True) 0 (replicate 32 97) (\<lambda>_. 2) demo_user (u ''upos'') (u ''p'')
     (Some (u ''k''))"

lemma demo_start_reachable: "reachable demo_route demo_start_db"
  unfolding demo_start_db_def by (rule reachable.step [OF reachable.start store_step.register [OF demo_register]])

lemma demo_prompt: "utf8 (u ''p'') = Inr (u ''p'')" "py_strip (u ''p'') \<noteq> []"
  by (simp_all add: utf8_def utf8_char_def is_surrogate_def py_strip_def py_space_def u_def)

lemma demo_post_checks: "submission_checks demo_rt demo_app (\<lambda>_. Some True) demo_route (u ''upos'') (u ''p'') (Some (u ''k'')) = Inr ()"
  using demo_prompt demo_enabled
  by (simp add: submission_checks_def demo_app_def ensure_def idempotency_key_is_valid_def demo_rt_def demo_route_def demo_contract_def u_def)

lemma demo_digest_fp: "request_sha256 (rt_sha demo_rt) (u ''upos'') (u ''v1'') b = Inr (u ''fp'')"
  by (simp add: request_sha256_def utf8_def utf8_char_def is_surrogate_def demo_rt_def u_def)

lemma demo_stored:
  "\<exists>row db. create_submission (rt_sha demo_rt) demo_start_db 0 (replicate 32 97) demo_user (u ''k'') (u ''p'') demo_route (Some (u ''fp'')) =
     Inr ((row, False), db)"
  using demo_prompt
  by (simp add: create_submission_def demo_digest_fp demo_start_db_def empty_db_def assert_admissions_open_def accepted_since_def
      outstanding_of_def demo_route_def demo_contract_def demo_user_def ensure_def Let_def)

lemma demo_catalog_fp: "catalog_fingerprint demo_rt demo_app (u ''upos'') = Inr (Some (u ''fp''))"
  using demo_fingerprint by (simp add: catalog_fingerprint_def demo_app_def)

lemma demo_posted: "\<exists>v db q. demo_post (demo_start_db, demo_queue) = (Inr v, db, q)"
proof -
  obtain row db where "create_submission (rt_sha demo_rt) demo_start_db 0 (replicate 32 97) demo_user (u ''k'') (u ''p'') demo_route
      (Some (u ''fp'')) = Inr ((row, False), db)"
    using demo_stored by blast
  then have "admitted demo_rt demo_app (\<lambda>_. Some True) demo_start_db 0 (replicate 32 97) demo_user (u ''upos'') demo_route (u ''p'')
      (Some (u ''k'')) = Inr ((row, False), db)"
    using demo_post_checks demo_catalog_fp by (simp add: admitted_def)
  moreover have "map_of (ap_contracts demo_app) (u ''upos'') = Some demo_route"
    by (simp add: demo_app_def)
  ultimately show ?thesis
    by (cases "snd (dispatch_pending memory_ops demo_route (\<lambda>_. 2) (db, demo_queue))") (simp add: demo_post_def post_submission_def)
qed

lemma demo_start_up: "start_system demo_route 45 demo_start_db 0 (\<lambda>_. 2) = Inr \<lparr>sy_db = demo_start_db, sy_queue = demo_queue, sy_active = []\<rparr>"
proof -
  have "ec_snapshot_sha256 demo_route = u ''snap''"
    by (simp add: demo_route_def demo_contract_def)
  moreover have "recover memory_ops demo_route 0 (\<lambda>_. 2) (demo_start_db, demo_queue) = (Inr 0, demo_start_db, demo_queue)"
    by (simp add: recover_def recover_published_queued_def dispatch_pending_def expire_queued_deadlines_def update_rows_def
        published_queued_submission_ids_def unpublished_submission_ids_def outbox_ids_def Let_def demo_start_db_def empty_db_def)
  moreover have "mq_routing demo_queue = u ''snap''"
    by (simp add: demo_queue_def)
  ultimately show ?thesis
    using demo_queue_new by (simp add: start_system_def OutboxDispatcher_def)
qed

theorem accepted_is_queued_witness:
  "\<exists>v db q. demo_post (demo_start_db, demo_queue) = (Inr v, db, q) \<and> message_for demo_route (sv_id v) \<in># mq_held q"
proof -
  obtain v db q where posted: "demo_post (demo_start_db, demo_queue) = (Inr v, db, q)"
    using demo_posted by blast
  have route: "map_of (ap_contracts demo_app) (u ''upos'') = Some demo_route"
    by (simp add: demo_app_def)
  have limit: "0 < ec_max_attempts demo_route"
    by (simp add: demo_route_def demo_contract_def)
  have run: "(system_step memory_ops demo_route ({} :: (memory_queue, unit) worker set))\<^sup>*\<^sup>*
      \<lparr>sy_db = demo_start_db, sy_queue = demo_queue, sy_active = []\<rparr> \<lparr>sy_db = demo_start_db, sy_queue = demo_queue, sy_active = []\<rparr>"
    by simp
  obtain k r where "v = submission_response r" "stored_for demo_rt demo_route demo_user k (u ''p'') 0 demo_start_db db r"
      "ours demo_route r \<and> sr_status r = QUEUED \<longrightarrow> message_for demo_route (sr_id r) \<in># mq_held q"
    using accepted_is_queued [OF demo_start_up demo_start_reachable limit run route posted [unfolded demo_post_def]] by blast
  then have "message_for demo_route (sv_id v) \<in># mq_held q"
    by (simp add: stored_for_def demo_start_db_def empty_db_def submission_response_def)
  with posted show ?thesis
    by blast
qed


definition demo_reader :: user_record where
  "demo_reader = \<lparr>us_id = u ''u2'', us_subject = u ''s2'', us_handle = u ''bob'', us_admin = False\<rparr>"

theorem other_users_unseen_witness:
  "get_submission (fst (snd (demo_post (demo_start_db, demo_queue)))) demo_reader (replicate 32 97) = auth_error ''SUBMISSION_NOT_FOUND'' 404"
proof -
  obtain v db q where posted: "demo_post (demo_start_db, demo_queue) = (Inr v, db, q)"
    using demo_posted by blast
  have "us_id demo_reader \<noteq> us_id demo_user"
    by (simp add: demo_reader_def demo_user_def)
  from other_users_unseen [OF posted [unfolded demo_post_def] this, of "replicate 32 97"]
  have "get_submission db demo_reader (replicate 32 97) = get_submission demo_start_db demo_reader (replicate 32 97)"
    by blast
  then show ?thesis
    using posted by (simp add: get_submission_def submission_for_owner_def demo_start_db_def empty_db_def)
qed

theorem result_follows_status_witness:
  "get_result demo_rt demo_queued demo_user (u ''a'') = auth_error ''RESULT_NOT_READY'' 409 \<and>
   get_result demo_rt demo_done demo_user (u ''b'') = auth_error ''SUBMISSION_NOT_FOUND'' 404"
  using result_follows_status [OF demo_queued_reachable, of demo_rt demo_user "u ''a''"]
    result_follows_status [OF demo_done_reachable, of demo_rt demo_user "u ''b''"]
  by (simp add: submission_for_owner_def demo_store_defs new_row_def)

theorem accepting_is_truthful_witness:
  "fst (demo_post (demo_start_db, demo_queue)) \<notin> shut_answers"
proof -
  have routes: "normalize_routes (ap_contracts demo_app) (ap_contracts demo_app) = Inr ()"
    by (simp add: normalize_routes_def demo_app_def demo_route_def demo_contract_def common_policy_def same_fields_def ensure_def)
  have gate: "db_admin (fst (demo_start_db, demo_queue)) = gate_rows empty_admin" "admin_reachable (\<lambda>_. False) (\<lambda>_. None) empty_admin"
    by (simp_all add: demo_start_db_def empty_db_def gate_rows_def empty_admin_def admin_reachable_def)
  obtain m where "contract_model_identity demo_rt demo_route = Inr m"
    using demo_model by blast
  moreover have "\<not> closed_for (state_of empty_admin (u ''upos'')) (u ''fp'')"
    by (simp add: closed_for_def matches_def state_of_def stored_state_def empty_admin_def AdminState_def)
  ultimately obtain v where "get_challenge demo_rt demo_app (\<lambda>_. Some True) empty_admin (u ''upos'') = Inr v" "cv_accepting v"
    using demo_enabled demo_fingerprint
    by (simp add: get_challenge_def view_of_def challenge_response_def demo_app_def)
  with accepting_is_truthful [OF gate(2,1) routes, of demo_rt "\<lambda>_. Some True" "u ''upos''" v memory_ops 0 "replicate 32 97" "\<lambda>_. 2" demo_user
      "u ''p''" "Some (u ''k'')"] show ?thesis
    unfolding demo_post_def by simp
qed

definition demo_entry_row :: "nat \<Rightarrow> string \<Rightarrow> int \<Rightarrow> submission_row" where
  "demo_entry_row i k t = new_row demo_route (replicate 32 i) (u ''u1'') (u k) (u ''fp'') (u ''p'') (u ''fp'') t"

definition demo_one :: database where
  "demo_one = demo_start_db\<lparr>db_submissions := [demo_entry_row 97 ''k'' 0],
     db_outbox := [\<lparr>ob_submission = replicate 32 97, ob_created = 0, ob_published = None\<rparr>]\<rparr>"

definition demo_two :: database where
  "demo_two = demo_start_db\<lparr>db_submissions := [demo_entry_row 97 ''k'' 0, demo_entry_row 98 ''l'' 1],
     db_outbox := [\<lparr>ob_submission = replicate 32 97, ob_created = 0, ob_published = None\<rparr>,
       \<lparr>ob_submission = replicate 32 98, ob_created = 1, ob_published = None\<rparr>]\<rparr>"

lemmas demo_create_defs = create_submission_def demo_digest_fp demo_start_db_def empty_db_def assert_admissions_open_def accepted_since_def
  outstanding_of_def demo_user_def ensure_def Let_def

lemma demo_route_fields:
  "ec_challenge_id demo_route = u ''upos''" "ec_contract_version demo_route = u ''v1''" "ec_submissions_per_day demo_route = 5"
  "ec_max_outstanding demo_route = 2" "ec_global_queue_depth demo_route = 10"
  by (simp_all add: demo_route_def demo_contract_def)

lemma demo_two_created:
  "create_submission (rt_sha demo_rt) demo_start_db 0 (replicate 32 97) demo_user (u ''k'') (u ''p'') demo_route (Some (u ''fp'')) =
     Inr ((demo_entry_row 97 ''k'' 0, False), demo_one)"
  "create_submission (rt_sha demo_rt) demo_one 1 (replicate 32 98) demo_user (u ''l'') (u ''p'') demo_route (Some (u ''fp'')) =
     Inr ((demo_entry_row 98 ''l'' 1, False), demo_two)"
proof -
  have "rt_sha demo_rt b = u ''fp''" for b
    by (simp add: demo_rt_def)
  moreover have "sr_user (demo_entry_row i k t) = u ''u1''" "sr_key (demo_entry_row i k t) = u k" "sr_created (demo_entry_row i k t) = t"
      "sr_status (demo_entry_row i k t) = QUEUED" "sr_challenge (demo_entry_row i k t) = u ''upos''" "sr_id (demo_entry_row i k t) = replicate 32 i" for i k t
    by (simp_all add: demo_entry_row_def new_row_def demo_route_fields)
  ultimately show "create_submission (rt_sha demo_rt) demo_start_db 0 (replicate 32 97) demo_user (u ''k'') (u ''p'') demo_route (Some (u ''fp'')) =
     Inr ((demo_entry_row 97 ''k'' 0, False), demo_one)"
    "create_submission (rt_sha demo_rt) demo_one 1 (replicate 32 98) demo_user (u ''l'') (u ''p'') demo_route (Some (u ''fp'')) =
     Inr ((demo_entry_row 98 ''l'' 1, False), demo_two)"
    using demo_prompt
    by (simp_all add: demo_create_defs demo_route_fields demo_one_def demo_two_def demo_entry_row_def [symmetric] outstanding_def)
qed

lemma demo_two_reachable: "reachable demo_route demo_two"
proof (rule reachable.step [OF reachable.step [OF demo_start_reachable store_step.create [OF demo_two_created(1)]]
    store_step.create [OF demo_two_created(2)]])
qed (simp_all add: same_limits_def)

lemma demo_history: "history demo_two (us_id demo_user) = [demo_entry_row 98 ''l'' 1, demo_entry_row 97 ''k'' 0]"
  by (simp add: history_def newest_first_def demo_two_def demo_user_def demo_entry_row_def new_row_def)

theorem history_read_once_witness:
  "\<exists>vs. read_history (get_submissions (\<lambda>t. if t = 0 then u ''a'' else u ''b'') (\<lambda>_. True) 1 demo_two demo_user 1) 3 None = Some (Inr vs) \<and>
    map sv_id vs = [replicate 32 98, replicate 32 97]"
proof -
  have "stamps_ok (\<lambda>t. if t = 0 then u ''a'' else u ''b'') (\<lambda>_. True) (history demo_two (us_id demo_user))"
    by (simp add: demo_history stamps_ok_def demo_entry_row_def new_row_def readable_def is_submission_id_def u_def list_all_iff)
  from history_read_once [OF demo_two_reachable this, of 1 1] show ?thesis
    unfolding demo_history
    by (simp add: submission_response_def demo_entry_row_def new_row_def eval_nat_numeral del: read_history.simps replicate_Suc replicate.simps)
qed

end
