(* ===== verification/Admin_Service.thy ===== *)
theory Admin_Service
  imports Api_Properties
begin

text \<open>
  The administrator's service of \<open>src/linguistic_oj/admin.py\<close>: who acts is read from the session cookie and the expected-user
  header, the policy is changed by one transaction of the policy store, and the answer shows the challenge as students see it.
\<close>

section \<open>The service\<close>

definition admin_failure :: "py_exc \<Rightarrow> auth_failure" where
  "admin_failure e =
     (case e of
        Exc AdminError c \<Rightarrow>
          Api_Error c (if c = ''AUTH_INVALID_TOKEN'' then 401 else if c = ''ADMIN_REQUIRED'' then 403 else 409)
      | _ \<Rightarrow> Fault e)"

definition service_actor :: "auth_runtime \<Rightarrow> auth_settings \<Rightarrow> request \<Rightarrow> bool \<Rightarrow> admin_actor answer" where
  "service_actor AR S rq write =
     rbind (cookie_token S rq) (\<lambda>token.
       (case token of
          None \<Rightarrow> auth_error ''AUTH_INVALID_TOKEN'' 401
        | Some t \<Rightarrow>
            (let expected = getlist rq ''x-loj-expected-user''
             in if 1 < length expected \<or> write \<and> expected = [] then auth_error ''AUTH_ACCOUNT_CHANGED'' 409
                else Inr \<lparr>aa_token = ar_digest AR t, aa_expected = (case expected of [] \<Rightarrow> None | e # _ \<Rightarrow> Some e)\<rparr>)))"

definition can_reopen :: "runtime \<Rightarrow> application \<Rightarrow> (pystr \<Rightarrow> bool option) \<Rightarrow> pystr \<Rightarrow> bool result" where
  "can_reopen R A available ch =
     (case map_of (ap_contracts A) ch of
        None \<Rightarrow> Inr False
      | Some K \<Rightarrow> rbind (enabled_for R (ap_draft A) K) (\<lambda>enabled. Inr (enabled \<and> available ch = Some True)))"

record admin_detail =
  de_challenge :: challenge_view
  de_revision :: int
  de_draft :: "teaching_content option"
  de_published :: "teaching_content option"
  de_published_revision :: int
  de_closed :: bool
  de_can_reopen :: bool

definition read_stored :: "(pystr \<Rightarrow> teaching_content option) \<Rightarrow> pystr option \<Rightarrow> teaching_content option result" where
  "read_stored parse t =
     (case t of
        None \<Rightarrow> Inr None
      | Some s \<Rightarrow> (case parse s of None \<Rightarrow> raise ValidationError ''TeachingContent'' | Some c \<Rightarrow> Inr (Some c)))"

definition admin_view :: "runtime \<Rightarrow> (pystr \<Rightarrow> teaching_content option) \<Rightarrow> application \<Rightarrow> (pystr \<Rightarrow> bool option) \<Rightarrow> admin_state
    \<Rightarrow> public_challenge \<Rightarrow> admin_detail result" where
  "admin_view R parse A available s p =
     (let ch = an_challenge s; contract = map_of (ap_contracts A) ch
      in rbind (source_fingerprint (rt_sha R) p) (\<lambda>fp.
         (let shut = contract \<noteq> None \<and> closed_for s fp
          in rbind (if an_published_source s = Some fp then read_stored parse (an_published s) else Inr None) (\<lambda>published.
             rbind (challenge_response R p contract (ap_draft A) (available ch = Some True) shut) (\<lambda>view.
             rbind (read_stored parse (an_draft s)) (\<lambda>draft.
             rbind (can_reopen R A available ch) (\<lambda>reopen.
               Inr \<lparr>de_challenge = view, de_revision = an_revision s, de_draft = draft, de_published = published,
                 de_published_revision = (if published = None then 0 else an_published_revision s), de_closed = shut,
                 de_can_reopen = reopen \<and> matches s fp\<rparr>)))))))"

text \<open>A read of one challenge; what is not in the catalogue is only revealed to an administrator.\<close>

definition admin_read :: "runtime \<Rightarrow> auth_runtime \<Rightarrow> auth_settings \<Rightarrow> (pystr \<Rightarrow> teaching_content option) \<Rightarrow> application
    \<Rightarrow> (pystr \<Rightarrow> bool option) \<Rightarrow> admin_db \<Rightarrow> int \<Rightarrow> request \<Rightarrow> pystr \<Rightarrow> admin_detail answer" where
  "admin_read R AR S parse A available D now rq ch =
     rbind (service_actor AR S rq False) (\<lambda>actor.
     rbind (map_sum admin_failure id (admin_states D now [ch] (Some actor))) (\<lambda>_.
       (case map_of (ap_catalog A) ch of
          None \<Rightarrow> auth_error ''CHALLENGE_NOT_FOUND'' 404
        | Some p \<Rightarrow> answered (admin_view R parse A available (state_of D ch) p))))"

datatype service_answer = Detail admin_detail | Report bool "admin_issue list" int

definition service_change :: "runtime \<Rightarrow> auth_runtime \<Rightarrow> auth_settings \<Rightarrow> (nat \<Rightarrow> bool) \<Rightarrow> (pystr \<Rightarrow> teaching_content option)
    \<Rightarrow> application \<Rightarrow> (pystr \<Rightarrow> bool option) \<Rightarrow> int \<Rightarrow> int \<Rightarrow> request \<Rightarrow> pystr \<Rightarrow> admin_action \<Rightarrow> int \<Rightarrow> admin_db
    \<Rightarrow> service_answer answer \<times> admin_db" where
  "service_change R AR S ctl parse A available now now' rq ch action expected D =
     (case service_actor AR S rq True of
        Inl e \<Rightarrow> (Inl e, D)
      | Inr actor \<Rightarrow>
          (case map_of (ap_catalog A) ch of
             None \<Rightarrow>
               (case admin_states D now [] (Some actor) of
                  Inl e \<Rightarrow> (Inl (admin_failure e), D)
                | Inr _ \<Rightarrow> (auth_error ''CHALLENGE_NOT_FOUND'' 404, D))
           | Some p \<Rightarrow>
               (case rbind (source_fingerprint (rt_sha R) p) (\<lambda>fp. rbind (can_reopen R A available ch) (\<lambda>reopen. Inr (fp, reopen))) of
                  Inl e \<Rightarrow> (Inl (Fault e), D)
                | Inr (fp, reopen) \<Rightarrow>
                    (case admin_change ctl parse D now now' ch fp actor expected action (map_of (ap_contracts A) ch \<noteq> None) reopen of
                       Inl e \<Rightarrow> (Inl (admin_failure e), D)
                     | Inr (Checked ok found revision, D') \<Rightarrow> (Inr (Report ok found revision), D')
                     | Inr (Changed s, D') \<Rightarrow>
                         (rbind (answered (admin_view R parse A available s p)) (\<lambda>d. Inr (Detail d)), D')))))"

section \<open>Authority\<close>

text \<open>The session of the request belongs to an administrator, who is the one the request names.\<close>

definition authorized :: "auth_runtime \<Rightarrow> auth_settings \<Rightarrow> admin_db \<Rightarrow> int \<Rightarrow> request \<Rightarrow> bool" where
  "authorized AR S D now rq \<longleftrightarrow>
     (\<exists>actor operator. service_actor AR S rq True = Inr actor \<and> admin_authorize (am_auth D) now actor = Inr operator)"

lemma change_authorized:
  assumes "admin_change ctl parse D now now' ch fp actor expected action has_contract reopen = Inr r"
  shows "\<exists>operator. admin_authorize (am_auth D) now actor = Inr operator"
  using assms by (auto simp: admin_change_def rbind_Inr_iff)

lemma admin_failure_known: "admin_failure e \<noteq> Api_Error c 404"
  by (cases e) (auto simp: admin_failure_def split: exc_class.splits)

lemma service_actor_error: "service_actor AR S rq write = Inl e \<Longrightarrow> e \<noteq> Api_Error ''CHALLENGE_NOT_FOUND'' 404"
  by (auto simp: service_actor_def cookie_token_def auth_error_def Let_def rbind_Inl_iff split: option.splits list.splits if_splits)

lemma states_authorized: "admin_states D now [] (Some actor) = Inr r \<Longrightarrow> \<exists>operator. admin_authorize (am_auth D) now actor = Inr operator"
  by (auto simp: admin_states_def rbind_Inr_iff)

text \<open>A request that is not from an administrator changes nothing and is answered with an error of its own.\<close>

lemma unauthorized_change:
  assumes "\<not> authorized AR S D now rq"
  shows "\<exists>e. service_change R AR S ctl parse A available now now' rq ch action expected D = (Inl e, D) \<and>
    e \<noteq> Api_Error ''CHALLENGE_NOT_FOUND'' 404"
proof (cases "service_actor AR S rq True")
  case (Inl e)
  then show ?thesis
    using service_actor_error by (auto simp: service_change_def)
next
  case (Inr actor)
  then have refused: "admin_authorize (am_auth D) now actor \<noteq> Inr operator" for operator
    using assms by (auto simp: authorized_def)
  show ?thesis
  proof (cases "map_of (ap_catalog A) ch")
    case None
    obtain e where "admin_states D now [] (Some actor) = Inl e"
      using refused states_authorized [of D now actor] by (cases "admin_states D now [] (Some actor)") auto
    then show ?thesis
      using Inr None admin_failure_known by (simp add: service_change_def)
  next
    case (Some p)
    let ?c = "map_of (ap_contracts A) ch \<noteq> None"
    show ?thesis
    proof (cases "rbind (source_fingerprint (rt_sha R) p) (\<lambda>fp. rbind (can_reopen R A available ch) (\<lambda>reopen. Inr (fp, reopen)))")
      case failed: (Inl e)
      then show ?thesis
        using Inr Some by (simp add: service_change_def)
    next
      case passed: (Inr x)
      obtain fp reopen where x: "x = (fp, reopen)"
        by force
      obtain e where "admin_change ctl parse D now now' ch fp actor expected action ?c reopen = Inl e"
        using refused change_authorized [of ctl parse D now now' ch fp actor expected action ?c reopen]
        by (cases "admin_change ctl parse D now now' ch fp actor expected action ?c reopen") auto
      then show ?thesis
        using Inr Some passed x admin_failure_known by (simp add: service_change_def)
    qed
  qed
qed

text \<open>C31. 
  Nothing is changed, and not even the absence of a challenge is told, but to an administrator whose session the request
  carries and whom it names.
\<close>

theorem only_administrators_change:
  assumes "service_change R AR S ctl parse A available now now' rq ch action expected D = (a, D')"
    and "D' \<noteq> D \<or> a = auth_error ''CHALLENGE_NOT_FOUND'' 404 \<or> (\<exists>r. a = Inr r)"
  shows "\<exists>actor operator. service_actor AR S rq True = Inr actor \<and> admin_authorize (am_auth D) now actor = Inr operator"
proof (rule ccontr)
  assume "\<not> ?thesis"
  then have "\<not> authorized AR S D now rq"
    by (simp add: authorized_def)
  then obtain e where e: "service_change R AR S ctl parse A available now now' rq ch action expected D = (Inl e, D)"
      "e \<noteq> Api_Error ''CHALLENGE_NOT_FOUND'' 404"
    using unauthorized_change by blast
  then have "a = Inl e" "D' = D"
    using assms(1) by simp_all
  with assms(2) e(2) show False
    by (simp add: auth_error_def)
qed

section \<open>Opening and closing\<close>

lemma switched:
  assumes "next_state parse fp has_contract reopen (Admissions off) s = Inr t"
  shows "an_closed t = off \<and> an_source t = Some fp \<and> has_contract \<and> (off \<or> reopen)"
  using assms by (auto simp: next_state_def Let_def split: if_splits)

lemma service_changed:
  assumes "service_change R AR S ctl parse A available now now' rq ch (Admissions off) expected D = (Inr r, D')"
  obtains p fp K where "map_of (ap_catalog A) ch = Some p" "source_fingerprint (rt_sha R) p = Inr fp"
    "an_closed (state_of D' ch) = off" "an_source (state_of D' ch) = Some fp"
    "map_of (ap_contracts A) ch = Some K" "off \<or> can_reopen R A available ch = Inr True"
    "\<And>ch'. ch' \<noteq> ch \<Longrightarrow> state_of D' ch' = state_of D ch'"
proof -
  obtain actor p fp reopen a where change: "map_of (ap_catalog A) ch = Some p" "source_fingerprint (rt_sha R) p = Inr fp"
      "can_reopen R A available ch = Inr reopen"
      "admin_change ctl parse D now now' ch fp actor expected (Admissions off) (map_of (ap_contracts A) ch \<noteq> None) reopen = Inr (a, D')"
    using assms by (auto simp: service_change_def rbind_Inr_iff auth_error_def split: sum.splits option.splits prod.splits admin_answer.splits)
  from change(4) show ?thesis
  proof (cases rule: change_cases)
    case checked
    then show ?thesis
      by simp
  next
    case (written operator t)
    have t: "an_challenge t = ch"
      using next_state_basic [OF written(3)] by simp
    obtain K where "map_of (ap_contracts A) ch = Some K"
      using switched [OF written(3)] by auto
    then show ?thesis
      using that [OF change(1,2)] switched [OF written(3)] written(5) state_after [OF t] change(3) by simp
  qed
qed

text \<open>C32. 
  What an administrator switches is what students see next: after admissions are opened the challenge is shown as accepting,
  after they are closed it is not, and no other challenge changes.
\<close>

theorem admissions_take_effect:
  assumes "service_change R AR S ctl parse A available now now' rq ch (Admissions off) expected D = (Inr r, D')"
    and "get_challenge R A available D' ch = Inr v"
  shows "cv_accepting v = (\<not> off) \<and> (ch' = ch \<or> get_challenge R A available D' ch' = get_challenge R A available D ch')"
proof -
  obtain p fp K where change: "map_of (ap_catalog A) ch = Some p" "source_fingerprint (rt_sha R) p = Inr fp"
      "an_closed (state_of D' ch) = off" "an_source (state_of D' ch) = Some fp"
      "map_of (ap_contracts A) ch = Some K" "off \<or> can_reopen R A available ch = Inr True"
      "\<And>ch'. ch' \<noteq> ch \<Longrightarrow> state_of D' ch' = state_of D ch'"
    by (rule service_changed [OF assms(1)]) blast
  have "closed_for (state_of D' ch) fp = off"
    using change(3,4) by (simp add: closed_for_def matches_def)
  moreover obtain p' fp' e where seen: "catalog_fingerprint R A ch = Inr (Some fp')" "enabled_for R (ap_draft A) K = Inr e"
      "cv_accepting v = (e \<and> available ch = Some True \<and> \<not> closed_for (state_of D' ch) fp')"
    by (rule challenge_seen [OF assms(2) change(5)])
  moreover have "fp' = fp"
    using seen(1) change(1,2) by (simp add: catalog_fingerprint_def)
  ultimately have "cv_accepting v = (\<not> off)"
    using change(5,6) by (auto simp: can_reopen_def)
  moreover have "get_challenge R A available D' ch' = get_challenge R A available D ch'" if "ch' \<noteq> ch"
  proof -
    have "view_of R A available D' ch' = view_of R A available D ch'"
      unfolding view_of_def [abs_def] change(7) [OF that] ..
    then show ?thesis
      by (cases "map_of (ap_catalog A) ch'") (simp_all add: get_challenge_def)
  qed
  ultimately show ?thesis
    by blast
qed

section \<open>Examples\<close>

definition demo_site :: auth_settings where
  "demo_site = \<lparr>st_origin = u ''http://x'', st_host = u ''x'', st_development = False, st_cookie = u ''s'', st_trusted = {}\<rparr>"

definition demo_digests :: auth_runtime where
  "demo_digests = \<lparr>ar_digest = (\<lambda>_. demo_token), ar_casefold = (\<lambda>t. t), ar_validate_email = Some, ar_make_hash = (\<lambda>_ _. []),
     ar_verify = (\<lambda>_ _. True), ar_dummy_hash = [], ar_control = (\<lambda>_. False), ar_ip = (\<lambda>_. None), ar_network_text = (\<lambda>_ _. [])\<rparr>"

definition demo_request :: request where
  "demo_request = \<lparr>rq_method = ''POST'', rq_path = [], rq_scheme = u ''http'', rq_peer = None,
     rq_headers = [(u ''cookie'', u ''s=aaaaaaaaaaaaaaaaaaaaaaaaaaaaaaaaaaaaaaaaaaa''), (u ''x-loj-expected-user'', u ''a1'')]\<rparr>"

lemma demo_service_actor: "service_actor demo_digests demo_site demo_request True = Inr demo_actor"
proof -
  have "cookie_values demo_site demo_request = [u ''aaaaaaaaaaaaaaaaaaaaaaaaaaaaaaaaaaaaaaaaaaa'']"
    by (simp add: cookie_values_def getlist_def demo_request_def demo_site_def u_def py_strip_def py_space_def Let_def)
  then show ?thesis
    by (simp add: service_actor_def cookie_token_def is_token_def token_char_def u_def getlist_def demo_request_def
        demo_digests_def demo_actor_def Let_def)
qed

definition demo_switched :: "bool \<Rightarrow> int \<Rightarrow> admin_state" where
  "demo_switched off n = (AdminState (u ''upos''))\<lparr>an_revision := n, an_source := Some (u ''fp''), an_closed := off\<rparr>"

definition demo_service :: "bool \<Rightarrow> int \<Rightarrow> admin_db \<Rightarrow> service_answer answer \<times> admin_db" where
  "demo_service off expected = service_change demo_rt demo_digests demo_site demo_ctl (read_content demo_ctl) demo_app (\<lambda>_. Some True) 110 120
     demo_request (u ''upos'') (Admissions off) expected"

lemma demo_service_closes: "\<exists>r D. demo_service True 0 demo_open = (Inr r, D)"
proof -
  have "can_reopen demo_rt demo_app (\<lambda>_. Some True) (u ''upos'') = Inr True"
    using demo_enabled by (simp add: can_reopen_def demo_app_def)
  moreover have "admin_change demo_ctl (read_content demo_ctl) demo_open 110 120 (u ''upos'') (u ''fp'') demo_actor 0 (Admissions True) True True =
      Inr (Changed (demo_switched True 1), demo_open\<lparr>am_states := [demo_switched True 1], am_revisions :=
        [\<lparr>rv_challenge = u ''upos'', rv_revision = 1, rv_action = A_Admissions, rv_operator = u ''a1'', rv_created = 120,
          rv_previous = AdminState (u ''upos''), rv_next = demo_switched True 1\<rparr>]\<rparr>)"
    by (simp add: admin_change_def next_state_def matches_def AdminState_def state_of_def stored_state_def demo_open_def empty_admin_def
        upsert_def name_of_def demo_switched_def MAX_EXPECTED_REVISION_def Let_def)
  moreover have "\<exists>d. admin_view demo_rt (read_content demo_ctl) demo_app (\<lambda>_. Some True) (demo_switched True 1) demo_public = Inr d"
    using demo_model demo_enabled demo_fingerprint
    by (auto simp: admin_view_def demo_switched_def AdminState_def read_stored_def challenge_response_def can_reopen_def demo_app_def Let_def)
  ultimately show ?thesis
    using demo_service_actor demo_fingerprint by (auto simp: demo_service_def service_change_def demo_app_def)
qed

theorem admissions_take_effect_witness:
  "\<exists>r D v. demo_service True 0 demo_open = (Inr r, D) \<and> get_challenge demo_rt demo_app (\<lambda>_. Some True) D (u ''upos'') = Inr v \<and> \<not> cv_accepting v"
proof -
  obtain r D where switched: "demo_service True 0 demo_open = (Inr r, D)"
    using demo_service_closes by blast
  moreover obtain v where v: "get_challenge demo_rt demo_app (\<lambda>_. Some True) D (u ''upos'') = Inr v"
    using demo_model demo_enabled demo_fingerprint
    by (auto simp: get_challenge_def view_of_def challenge_response_def demo_app_def)
  ultimately show ?thesis
    using admissions_take_effect [OF switched [unfolded demo_service_def] v] by blast
qed

theorem only_administrators_change_witness:
  "\<exists>actor operator. service_actor demo_digests demo_site demo_request True = Inr actor \<and> admin_authorize (am_auth demo_open) 110 actor = Inr operator"
proof -
  obtain r D where switched: "demo_service True 0 demo_open = (Inr r, D)"
    using demo_service_closes by blast
  then show ?thesis
    by (intro only_administrators_change [OF switched [unfolded demo_service_def]]) simp
qed

end
