(* ===== verification/Registry.thy ===== *)
theory Registry
  imports Evaluation_Contract Demo_Challenge
begin

text \<open>
  The catalogue of \<open>src/linguistic_oj/challenge_registry.py\<close> and its additive extension (\<open>registry_extension.py\<close>).  The
  project directory is the record \<open>registry_files\<close>: which paths are symbolic links, where a path leads once links are
  followed (\<open>None\<close>: outside the root), and what its files parse to.  \<open>casefold\<close> is \<open>str.casefold\<close>.
\<close>

section \<open>Paths\<close>

record registry_entry =
  re_public :: pystr
  re_contract :: "pystr option"

record registry_document =
  rd_version :: pystr
  rd_entries :: "registry_entry list"

record registry_files =
  rf_symlink :: "pystr list \<Rightarrow> bool"
  rf_resolve :: "pystr list \<Rightarrow> pystr list option"
  rf_public :: "pystr list \<Rightarrow> public_challenge result"
  rf_contract :: "pystr list \<Rightarrow> (pystr \<times> json) list result"

definition project_path :: "registry_files \<Rightarrow> pystr \<Rightarrow> pystr list result" where
  "project_path F value =
     (if value = [] \<or> py_strip value \<noteq> value \<or> 92 \<in> set value then raise ValueError ''must be a root-relative POSIX path''
      else if hd value = 47 \<or> path_parts value = [] \<or> u ''..'' \<in> set (path_parts value) \<or>
        list_ex (\<lambda>part. 58 \<in> set part) (path_parts value)
      then raise ValueError ''must stay below the project root''
      else if rf_symlink F (path_parts value) then raise ValueError ''must not be a symbolic link''
      else (case rf_resolve F (path_parts value) of
              None \<Rightarrow> raise ValueError ''must stay below the project root''
            | Some path \<Rightarrow> Inr path))"

section \<open>A contract describes its challenge\<close>

fun same_fingerprints :: "source_file_fingerprint list \<Rightarrow> json \<Rightarrow> bool" where
  "same_fingerprints fs (JArr js) \<longleftrightarrow> list_all2 (\<lambda>f j. case j of
      JObj ms \<Rightarrow> length ms = 2 \<and> json_get ms ''path'' = JStr (sf_path f) \<and> json_get ms ''sha256'' = JStr (sf_sha256 f)
    | _ \<Rightarrow> False) fs js"
| "same_fingerprints fs _ \<longleftrightarrow> False"

definition describes :: "evaluation_contract \<Rightarrow> (pystr \<times> json) list \<Rightarrow> (pystr \<times> json) list \<Rightarrow> public_challenge \<Rightarrow> bool" where
  "describes K identity catalog p \<longleftrightarrow>
     ec_challenge_id K = pc_challenge_id p \<and> ec_catalog_status K = pc_status p \<and>
     json_get catalog ''security_level'' = JStr (pc_security_level p) \<and>
     json_get identity ''dataset_sha256'' = JStr (pc_dataset_sha256 p) \<and>
     json_get identity ''selection_sha256'' = JStr (pc_selection_sha256 p) \<and>
     json_get identity ''task'' = JStr (pc_task p) \<and>
     json_get identity ''response_schema_version'' = JStr (pc_response_schema_version p) \<and>
     Some (json_get identity ''scorer_version'') = map_option JStr (pc_scorer_version p) \<and>
     Some (json_get identity ''aggregation_version'') = map_option JStr (pc_aggregation_version p) \<and>
     json_get catalog ''annotation_license'' = JStr (pc_annotation_license p) \<and>
     json_get catalog ''attribution_requirements'' = JStr (pc_attribution_requirements p) \<and>
     json_get catalog ''source_release'' = JStr (pc_source_release p) \<and>
     json_get catalog ''source_commit'' = JStr (pc_source_commit p) \<and>
     same_fingerprints (pc_source_file_sha256s p) (json_get catalog ''source_file_sha256s'') \<and>
     json_get catalog ''share_alike_requirements'' = JStr (pc_share_alike_requirements p) \<and>
     json_get catalog ''underlying_text_rights'' = JStr (pc_underlying_text_rights p)"

definition validate_contract_matches_public :: "runtime \<Rightarrow> (pystr \<Rightarrow> pystr) \<Rightarrow> evaluation_contract \<Rightarrow> public_challenge
    \<Rightarrow> unit result" where
  "validate_contract_matches_public R casefold K p =
     rbind (validate_public_challenge casefold p) (\<lambda>_.
     rbind (ensure (pc_scorer_version p \<noteq> None \<and> pc_aggregation_version p \<noteq> None)
       (Exc ValueError ''an evaluation contract requires public scorer and aggregation versions'')) (\<lambda>_.
     rbind (evaluation_identity R K) (\<lambda>identity.
     rbind (contract_catalog R K) (\<lambda>catalog.
       ensure (describes K identity catalog p) (Exc ValueError ''evaluation contract does not match public challenge'')))))"

section \<open>The registry\<close>

record registry =
  rg_public :: "(pystr \<times> public_challenge) list"
  rg_contracts :: "(pystr \<times> evaluation_contract) list"

text \<open>\<open>ChallengeContractRegistry.__post_init__\<close>.\<close>

definition public_entry :: "(pystr \<Rightarrow> pystr) \<Rightarrow> pystr \<times> public_challenge \<Rightarrow> unit result" where
  "public_entry casefold = (\<lambda>(i, p).
     rbind (ensure (i = pc_challenge_id p) (Exc ValueError ''public challenge registry key does not match challenge ID'')) (\<lambda>_.
       validate_public_challenge casefold p))"

definition contract_entry :: "runtime \<Rightarrow> (pystr \<Rightarrow> pystr) \<Rightarrow> (pystr \<times> public_challenge) list \<Rightarrow> pystr \<times> evaluation_contract
    \<Rightarrow> unit result" where
  "contract_entry R casefold public = (\<lambda>(i, K).
     rbind (ensure (i = ec_challenge_id K) (Exc ValueError ''evaluation contract registry key does not match challenge ID'')) (\<lambda>_.
       (case map_of public i of
          None \<Rightarrow> raise ValueError ''evaluation contract has no public challenge descriptor''
        | Some p \<Rightarrow> validate_contract_matches_public R casefold K p)))"

fun check_each :: "('a \<Rightarrow> unit result) \<Rightarrow> 'a list \<Rightarrow> unit result" where
  "check_each f [] = Inr ()"
| "check_each f (x # xs) = rbind (f x) (\<lambda>_. check_each f xs)"

definition ChallengeContractRegistry :: "runtime \<Rightarrow> (pystr \<Rightarrow> pystr) \<Rightarrow> (pystr \<times> public_challenge) list
    \<Rightarrow> (pystr \<times> evaluation_contract) list \<Rightarrow> registry result" where
  "ChallengeContractRegistry R casefold public contracts =
     rbind (check_each (public_entry casefold) public) (\<lambda>_.
     rbind (check_each (contract_entry R casefold public) contracts) (\<lambda>_.
       Inr \<lparr>rg_public = public, rg_contracts = contracts\<rparr>))"

record loading =
  ld_public :: "(pystr \<times> public_challenge) list"
  ld_contracts :: "(pystr \<times> evaluation_contract) list"
  ld_identities :: "pystr set"
  ld_public_paths :: "pystr list set"
  ld_contract_paths :: "pystr list set"

definition load_contract :: "runtime \<Rightarrow> (pystr \<Rightarrow> pystr) \<Rightarrow> registry_files \<Rightarrow> public_challenge \<Rightarrow> pystr \<Rightarrow> loading
    \<Rightarrow> loading result" where
  "load_contract R casefold F p value L =
     rbind (project_path F value) (\<lambda>path.
     rbind (ensure (path \<notin> ld_contract_paths L) (Exc ValueError ''duplicate evaluation contract path'')) (\<lambda>_.
     rbind (rf_contract F path) (\<lambda>mapping.
     rbind (from_mapping R mapping) (\<lambda>K.
     rbind (validate_contract_matches_public R casefold K p) (\<lambda>_.
     rbind (ensure (ec_identity_sha256 K \<notin> ld_identities L) (Exc ValueError ''duplicate evaluation identity'')) (\<lambda>_.
       Inr (L\<lparr>ld_contract_paths := insert path (ld_contract_paths L), ld_identities := insert (ec_identity_sha256 K) (ld_identities L),
              ld_contracts := dict_set (pc_challenge_id p) K (ld_contracts L)\<rparr>)))))))"

definition load_entry :: "runtime \<Rightarrow> (pystr \<Rightarrow> pystr) \<Rightarrow> registry_files \<Rightarrow> registry_entry \<Rightarrow> loading \<Rightarrow> loading result" where
  "load_entry R casefold F e L =
     rbind (project_path F (re_public e)) (\<lambda>path.
     rbind (ensure (path \<notin> ld_public_paths L) (Exc ValueError ''duplicate public descriptor path'')) (\<lambda>_.
     rbind (rf_public F path) (\<lambda>p.
     rbind (validate_public_challenge casefold p) (\<lambda>_.
     rbind (ensure (pc_challenge_id p \<notin> fst ` set (ld_public L)) (Exc ValueError ''duplicate challenge ID'')) (\<lambda>_.
       (let L' = L\<lparr>ld_public_paths := insert path (ld_public_paths L), ld_public := dict_set (pc_challenge_id p) p (ld_public L)\<rparr>
        in case re_contract e of None \<Rightarrow> Inr L' | Some value \<Rightarrow> load_contract R casefold F p value L'))))))"

fun load_entries :: "runtime \<Rightarrow> (pystr \<Rightarrow> pystr) \<Rightarrow> registry_files \<Rightarrow> registry_entry list \<Rightarrow> loading \<Rightarrow> loading result" where
  "load_entries R casefold F [] L = Inr L"
| "load_entries R casefold F (e # es) L = rbind (load_entry R casefold F e L) (load_entries R casefold F es)"

definition no_loading :: loading where
  "no_loading = \<lparr>ld_public = [], ld_contracts = [], ld_identities = {}, ld_public_paths = {}, ld_contract_paths = {}\<rparr>"

definition load_challenge_contract_registry :: "runtime \<Rightarrow> (pystr \<Rightarrow> pystr) \<Rightarrow> registry_files \<Rightarrow> registry_document
    \<Rightarrow> registry result" where
  "load_challenge_contract_registry R casefold F d =
     rbind (ensure (rd_version d = u ''challenge-contract-registry-v1'')
       (Exc ValueError ''unsupported challenge contract registry version'')) (\<lambda>_.
     rbind (ensure (rd_entries d \<noteq> []) (Exc ValueError ''challenge contract registry must not be empty'')) (\<lambda>_.
     rbind (load_entries R casefold F (rd_entries d) no_loading) (\<lambda>L.
       ChallengeContractRegistry R casefold (ld_public L) (ld_contracts L))))"

section \<open>Additive extension\<close>

text \<open>\<open>validate_extension\<close>: the added keys, sorted.\<close>

definition validate_extension :: "(pystr \<times> pystr) list \<Rightarrow> (pystr \<times> pystr) list \<Rightarrow> pystr list result" where
  "validate_extension old new =
     (if old = [] \<or> new = [] \<or> list_ex (\<lambda>(k, v). map_of new k \<noteq> Some v) old
      then raise ValueError ''registry extension cannot remove or replace an existing contract''
      else
        (let added = sorted_list_of_set (fst ` set new - fst ` set old)
         in if added = [] then raise ValueError ''registry extension must add at least one contract'' else Inr added))"

section \<open>A loaded registry is consistent\<close>

lemma check_each_Inr: "check_each f xs = Inr r \<longleftrightarrow> (\<forall>x \<in> set xs. f x = Inr ())"
  by (induction xs) (auto simp: rbind_Inr_iff)

definition loading_ok :: "runtime \<Rightarrow> (pystr \<Rightarrow> pystr) \<Rightarrow> loading \<Rightarrow> bool" where
  "loading_ok R casefold L \<longleftrightarrow> distinct (map fst (ld_public L)) \<and> distinct (map fst (ld_contracts L)) \<and>
     distinct (map (ec_identity_sha256 \<circ> snd) (ld_contracts L)) \<and>
     ec_identity_sha256 ` snd ` set (ld_contracts L) = ld_identities L \<and>
     fst ` set (ld_contracts L) \<subseteq> fst ` set (ld_public L) \<and>
     (\<forall>x \<in> set (ld_public L). public_entry casefold x = Inr ()) \<and>
     (\<forall>x \<in> set (ld_contracts L). contract_entry R casefold (ld_public L) x = Inr ())"

lemma matching_ids: "validate_contract_matches_public R casefold K p = Inr r \<Longrightarrow> ec_challenge_id K = pc_challenge_id p"
  by (auto simp: validate_contract_matches_public_def rbind_Inr_iff describes_def)

lemma load_entry_ok:
  assumes "load_entry R casefold F e L = Inr L'" and "loading_ok R casefold L"
  shows "loading_ok R casefold L'"
proof -
  obtain p path where p: "validate_public_challenge casefold p = Inr ()" "pc_challenge_id p \<notin> fst ` set (ld_public L)"
    and loaded: "(case re_contract e of None \<Rightarrow> Inr (L\<lparr>ld_public_paths := insert path (ld_public_paths L), ld_public := dict_set (pc_challenge_id p) p (ld_public L)\<rparr>)
      | Some value \<Rightarrow> load_contract R casefold F p value (L\<lparr>ld_public_paths := insert path (ld_public_paths L), ld_public := dict_set (pc_challenge_id p) p (ld_public L)\<rparr>)) = Inr L'"
    using assms(1) by (auto simp: load_entry_def rbind_Inr_iff Let_def)
  note cont = loaded [unfolded dict_set_fresh [OF p(2)]]
  let ?L = "L\<lparr>ld_public_paths := insert path (ld_public_paths L), ld_public := ld_public L @ [(pc_challenge_id p, p)]\<rparr>"
  have fresh: "pc_challenge_id p \<notin> fst ` set (ld_contracts L)"
    using p(2) assms(2) by (auto simp: loading_ok_def)
  have old: "contract_entry R casefold (ld_public ?L) x = Inr ()" if "x \<in> set (ld_contracts L)" for x
  proof -
    have "contract_entry R casefold (ld_public L) x = Inr ()" "fst x \<in> fst ` set (ld_public L)"
      using that assms(2) by (auto simp: loading_ok_def)
    moreover have "map_of (ld_public ?L) (fst x) = map_of (ld_public L) (fst x)"
    proof -
      have "fst x \<noteq> pc_challenge_id p"
        using calculation(2) p(2) by metis
      then show ?thesis
        by (simp add: map_add_def split: option.splits)
    qed
    ultimately show ?thesis
      by (simp add: contract_entry_def split_beta)
  qed
  have ok: "loading_ok R casefold ?L"
    using assms(2) p old by (auto simp: loading_ok_def public_entry_def)
  show ?thesis
  proof (cases "re_contract e")
    case None
    with cont ok show ?thesis
      by simp
  next
    case (Some v)
    then obtain path' K where K: "validate_contract_matches_public R casefold K p = Inr ()" "ec_identity_sha256 K \<notin> ld_identities L"
      and L': "L' = ?L\<lparr>ld_contract_paths := insert path' (ld_contract_paths L), ld_identities := insert (ec_identity_sha256 K) (ld_identities L),
              ld_contracts := ld_contracts L @ [(pc_challenge_id p, K)]\<rparr>"
      using cont fresh by (auto simp: load_contract_def rbind_Inr_iff dict_set_fresh)
    have "contract_entry R casefold (ld_public ?L) (pc_challenge_id p, K) = Inr ()"
      using K(1) p(2) matching_ids [OF K(1)] by (auto simp: contract_entry_def map_add_def dest: map_of_SomeD
          intro: rev_image_eqI split: option.splits)
    moreover have "ec_identity_sha256 K \<notin> (ec_identity_sha256 \<circ> snd) ` set (ld_contracts L)"
      using K(2) assms(2) unfolding loading_ok_def image_comp [symmetric] by blast
    ultimately show ?thesis
      using ok fresh by (simp add: L' loading_ok_def)
  qed
qed

lemma load_entries_ok: "load_entries R casefold F es L = Inr L' \<Longrightarrow> loading_ok R casefold L \<Longrightarrow> loading_ok R casefold L'"
  by (induction es arbitrary: L) (auto simp: rbind_Inr_iff intro: load_entry_ok)

lemma no_loading_ok: "loading_ok R casefold no_loading"
  by (simp add: loading_ok_def no_loading_def)

text \<open>C37. A registry that loads is consistent: every challenge is valid under its own key, every contract belongs to a listed challenge and
  describes it field by field, and no two contracts share an evaluation identity; in particular the constructor at the end of the loader
  never refuses what the loop accepted.\<close>

theorem registry_is_consistent:
  assumes "load_challenge_contract_registry R casefold F d = Inr G"
  shows "distinct (map fst (rg_public G)) \<and> distinct (map (ec_identity_sha256 \<circ> snd) (rg_contracts G)) \<and>
    (\<forall>(i, p) \<in> set (rg_public G). i = pc_challenge_id p \<and> validate_public_challenge casefold p = Inr ()) \<and>
    (\<forall>(i, K) \<in> set (rg_contracts G). \<exists>p identity catalog. map_of (rg_public G) i = Some p \<and> i = ec_challenge_id K \<and>
       evaluation_identity R K = Inr identity \<and> contract_catalog R K = Inr catalog \<and> describes K identity catalog p)"
proof -
  obtain L where L: "load_entries R casefold F (rd_entries d) no_loading = Inr L"
      "ChallengeContractRegistry R casefold (ld_public L) (ld_contracts L) = Inr G"
    using assms by (auto simp: load_challenge_contract_registry_def rbind_Inr_iff)
  note ok = load_entries_ok [OF L(1) no_loading_ok]
  have G: "rg_public G = ld_public L" "rg_contracts G = ld_contracts L"
    using L(2) by (auto simp: ChallengeContractRegistry_def rbind_Inr_iff)
  have "\<exists>p identity catalog. map_of (rg_public G) i = Some p \<and> i = ec_challenge_id K \<and>
       evaluation_identity R K = Inr identity \<and> contract_catalog R K = Inr catalog \<and> describes K identity catalog p"
    if "(i, K) \<in> set (rg_contracts G)" for i K
  proof -
    have "contract_entry R casefold (ld_public L) (i, K) = Inr ()"
      using that ok by (auto simp: loading_ok_def G)
    then show ?thesis
      by (auto simp: contract_entry_def validate_contract_matches_public_def rbind_Inr_iff G split: option.splits)
  qed
  moreover have "i = pc_challenge_id p \<and> validate_public_challenge casefold p = Inr ()" if "(i, p) \<in> set (rg_public G)" for i p
  proof -
    have "public_entry casefold (i, p) = Inr ()"
      using that ok by (auto simp: loading_ok_def G)
    then show ?thesis
      by (auto simp: public_entry_def rbind_Inr_iff)
  qed
  ultimately show ?thesis
    using ok by (auto simp: loading_ok_def G)
qed

lemma constructor_never_refuses:
  assumes "load_entries R casefold F es no_loading = Inr L"
  shows "ChallengeContractRegistry R casefold (ld_public L) (ld_contracts L) =
    Inr \<lparr>rg_public = ld_public L, rg_contracts = ld_contracts L\<rparr>"
proof -
  have "check_each (public_entry casefold) (ld_public L) = Inr ()" "check_each (contract_entry R casefold (ld_public L)) (ld_contracts L) = Inr ()"
    using load_entries_ok [OF assms no_loading_ok] by (auto simp: check_each_Inr loading_ok_def)
  then show ?thesis
    by (simp add: ChallengeContractRegistry_def)
qed

text \<open>An accepted extension keeps every contract and adds at least one; the answer lists exactly the new keys, in order.\<close>

theorem extension_is_additive:
  assumes "distinct (map fst new)"
  shows "(\<exists>added. validate_extension old new = Inr added \<and> added \<noteq> [] \<and> sorted_wrt (<) added \<and>
      set added = fst ` set new - fst ` set old) \<longleftrightarrow>
    old \<noteq> [] \<and> set old \<subseteq> set new \<and> fst ` set new \<noteq> fst ` set old"
proof -
  have kept: "list_ex (\<lambda>(k, v). map_of new k \<noteq> Some v) old \<longleftrightarrow> \<not> set old \<subseteq> set new"
    using assms by (auto simp: list_ex_iff)
  have "sorted_list_of_set (fst ` set new - fst ` set old) = [] \<longleftrightarrow> fst ` set new \<subseteq> fst ` set old"
    by auto
  moreover have "set old \<subseteq> set new \<Longrightarrow> fst ` set new \<subseteq> fst ` set old \<longleftrightarrow> fst ` set new = fst ` set old"
    by auto
  ultimately show ?thesis
    using kept by (auto simp: validate_extension_def Let_def)
qed

section \<open>Examples\<close>

definition demo_files :: registry_files where
  "demo_files = \<lparr>rf_symlink = (\<lambda>_. False), rf_resolve = Some, rf_public = (\<lambda>_. Inr (ca_public demo_artifacts)),
     rf_contract = (\<lambda>_. raise FileNotFoundError ''contract'')\<rparr>"

definition demo_registry_document :: registry_document where
  "demo_registry_document = \<lparr>rd_version = u ''challenge-contract-registry-v1'',
     rd_entries = [\<lparr>re_public = u ''public/a.json'', re_contract = None\<rparr>]\<rparr>"

lemma demo_registry:
  "load_challenge_contract_registry R (\<lambda>s. s) demo_files demo_registry_document =
     Inr \<lparr>rg_public = [(pc_challenge_id (ca_public demo_artifacts), ca_public demo_artifacts)], rg_contracts = []\<rparr>"
proof -
  have "validate_public_challenge (\<lambda>s. s) (ca_public demo_artifacts) = Inr ()"
    using demo_artifacts(8) by (auto simp: validate_challenge_artifacts_def rbind_Inr_iff Let_def)
  moreover have "project_path demo_files (u ''public/a.json'') = Inr [u ''public'', u ''a.json'']"
    by (simp add: project_path_def demo_files_def path_parts_def py_strip_def py_space_def u_def)
  moreover have "rf_public demo_files p = Inr (ca_public demo_artifacts)" for p
    by (simp add: demo_files_def)
  ultimately show ?thesis
    by (simp add: load_challenge_contract_registry_def demo_registry_document_def load_entry_def no_loading_def
        ChallengeContractRegistry_def public_entry_def)
qed

theorem registry_is_consistent_witness:
  "validate_public_challenge (\<lambda>s. s) (ca_public demo_artifacts) = Inr ()"
  using registry_is_consistent [OF demo_registry] by simp

theorem extension_is_additive_witness:
  "\<exists>added. validate_extension [(u ''a'', u ''1'')] [(u ''a'', u ''1''), (u ''b'', u ''2'')] = Inr added \<and> u ''b'' \<in> set added"
proof -
  have "distinct (map fst [(u ''a'', u ''1''), (u ''b'', u ''2'')])"
    by simp
  from extension_is_additive [OF this, of "[(u ''a'', u ''1'')]"] show ?thesis
    by auto
qed

end
