(* ===== verification/Redis_Queue.thy ===== *)
theory Redis_Queue
  imports Api_Cursors Job_Queue Request_Identity "HOL-Library.AList"
begin

text \<open>
  The Redis job queue (\<open>src/linguistic_oj/redis_job_queue.py\<close>): one stream and one consumer group for a contract snapshot, a
  hash of the active entry of each submission and a hash of receipts.  The scripts run atomically in the server.  The
  server is a parameter: \<open>'r\<close> is its state, the commands the scripts use are the fields of \<open>redis\<close>, and \<open>redis_laws\<close> is what
  their documentation says of this stream and these hashes.  A command that fails on the connection raises before the server
  acts and is not modelled.  Scripts and commands of different clients interleave: \<open>redis_history\<close> is a run of them together
  with the deliveries and settlements it made.  Entry identifiers are ASCII, so their bytes and their text are one.
\<close>

section \<open>The server\<close>

type_synonym stream_fields = "(nat list \<times> nat list) list"

datatype queue_hash = Active | Receipts

record 'r redis =
  rd_xadd :: "stream_fields \<Rightarrow> 'r \<Rightarrow> pystr \<times> 'r"
  rd_xrange :: "'r \<Rightarrow> pystr \<Rightarrow> stream_fields option"
  rd_xdel :: "pystr \<Rightarrow> 'r \<Rightarrow> 'r"
  rd_xack :: "pystr \<Rightarrow> 'r \<Rightarrow> nat \<times> 'r"
  rd_xpending :: "'r \<Rightarrow> pystr \<Rightarrow> pystr option"
  rd_xautoclaim :: "pystr \<Rightarrow> int \<Rightarrow> pystr \<Rightarrow> 'r \<Rightarrow> (pystr \<times> (pystr \<times> stream_fields) option \<times> pystr list) \<times> 'r"
  rd_xreadgroup :: "pystr \<Rightarrow> 'r \<Rightarrow> (pystr \<times> stream_fields) option \<times> 'r"
  rd_hget :: "'r \<Rightarrow> queue_hash \<Rightarrow> nat list \<Rightarrow> pystr option"
  rd_hset :: "queue_hash \<Rightarrow> nat list \<Rightarrow> pystr \<Rightarrow> 'r \<Rightarrow> 'r"
  rd_hdel :: "queue_hash \<Rightarrow> nat list \<Rightarrow> 'r \<Rightarrow> 'r"

record redis_client =
  rc_routing :: pystr
  rc_visibility_ms :: int
  rc_consumer :: pystr
  rc_cursor :: pystr
  rc_prefer_reclaimed :: bool

section \<open>The scripts\<close>

definition message_fields :: "job_message \<Rightarrow> stream_fields result" where
  "message_fields m =
     rbind (utf8 (jm_submission m)) (\<lambda>s. rbind (utf8 (jm_identity m)) (\<lambda>e. rbind (utf8 (jm_snapshot m)) (\<lambda>c.
       Inr [(u ''submission_id'', s), (u ''evaluation_identity_sha256'', e), (u ''contract_snapshot_sha256'', c)])))"

definition add_active :: "'r redis \<Rightarrow> nat list \<Rightarrow> stream_fields \<Rightarrow> 'r \<Rightarrow> 'r" where
  "add_active C sub fs s = (let (i, s') = rd_xadd C fs s in rd_hset C Active sub i s')"

definition publish_script :: "'r redis \<Rightarrow> nat list \<Rightarrow> stream_fields \<Rightarrow> 'r \<Rightarrow> 'r" where
  "publish_script C sub fs s =
     (case rd_hget C s Active sub of
        None \<Rightarrow> add_active C sub fs s
      | Some i \<Rightarrow> if rd_xrange C s i \<noteq> None then s else add_active C sub fs (rd_hdel C Active sub s))"

definition register_receipt_script :: "'r redis \<Rightarrow> pystr \<Rightarrow> pystr \<Rightarrow> pystr \<Rightarrow> 'r \<Rightarrow> bool \<times> 'r" where
  "register_receipt_script C i consumer token s =
     (if rd_xpending C s i \<noteq> Some consumer then (False, s) else (True, rd_hset C Receipts i token s))"

definition claim_stale_script :: "'r redis \<Rightarrow> pystr \<Rightarrow> int \<Rightarrow> pystr \<Rightarrow> pystr \<Rightarrow> 'r \<Rightarrow> (pystr \<times> (pystr \<times> stream_fields) option) \<times> 'r" where
  "claim_stale_script C consumer idle cursor token s =
     (let ((next_cursor, claimed, deleted), s1) = rd_xautoclaim C consumer idle cursor s;
          s2 = (case claimed of None \<Rightarrow> s1 | Some (i, _) \<Rightarrow> rd_hset C Receipts i token s1)
      in ((next_cursor, claimed), fold (rd_hdel C Receipts) deleted s2))"

text \<open>The submission an entry is about: the first field of that name.\<close>

definition submission_field :: "stream_fields \<Rightarrow> nat list option" where
  "submission_field fs = map_of fs (u ''submission_id'')"

definition held_receipt :: "'r redis \<Rightarrow> pystr \<Rightarrow> pystr \<Rightarrow> pystr \<Rightarrow> 'r \<Rightarrow> bool" where
  "held_receipt C i consumer token s \<longleftrightarrow> rd_xpending C s i = Some consumer \<and> rd_hget C s Receipts i = Some token"

definition release_active :: "'r redis \<Rightarrow> pystr \<Rightarrow> stream_fields option \<Rightarrow> 'r \<Rightarrow> 'r" where
  "release_active C i entry s =
     (case Option.bind entry submission_field of
        None \<Rightarrow> s
      | Some sub \<Rightarrow> if rd_hget C s Active sub = Some i then rd_hdel C Active sub s else s)"

definition ack_script :: "'r redis \<Rightarrow> pystr \<Rightarrow> pystr \<Rightarrow> pystr \<Rightarrow> 'r \<Rightarrow> bool \<times> 'r" where
  "ack_script C i consumer token s =
     (if \<not> held_receipt C i consumer token s then (False, s)
      else
        (let entry = rd_xrange C s i; (n, s1) = rd_xack C i s
         in if n \<noteq> 1 then (False, s1)
            else (True, release_active C i entry (rd_hdel C Receipts i (rd_xdel C i s1)))))"

definition requeue_script :: "'r redis \<Rightarrow> pystr \<Rightarrow> pystr \<Rightarrow> pystr \<Rightarrow> 'r \<Rightarrow> bool \<times> 'r" where
  "requeue_script C i consumer token s =
     (if \<not> held_receipt C i consumer token s then (False, s)
      else
        (case rd_xrange C s i of
           None \<Rightarrow> (False, s)
         | Some fs \<Rightarrow>
             (let (j, s1) = rd_xadd C fs s;
                  s2 = (case submission_field fs of None \<Rightarrow> s1 | Some sub \<Rightarrow> rd_hset C Active sub j s1)
              in (True, rd_hdel C Receipts i (rd_xdel C i (snd (rd_xack C i s2)))))))"

section \<open>The queue\<close>

definition redis_publish :: "'r redis \<Rightarrow> redis_client \<Rightarrow> job_message \<Rightarrow> 'r \<Rightarrow> 'r result" where
  "redis_publish C Q m s =
     rbind (ensure (jm_submission m \<noteq> []) (Exc ValueError ''submission_id must not be empty'')) (\<lambda>_.
     rbind (ensure (is_sha256 (jm_identity m)) (Exc ValueError ''evaluation identity must be a lowercase SHA-256 value'')) (\<lambda>_.
     rbind (ensure (jm_snapshot m = rc_routing Q) (Exc ValueError ''message does not match the queue routing key'')) (\<lambda>_.
     rbind (message_fields m) (\<lambda>fs. Inr (publish_script C (the (submission_field fs)) fs s)))))"

definition field_value :: "(pystr \<times> pystr) list \<Rightarrow> string \<Rightarrow> pystr" where
  "field_value ps k = the (map_of ps (u k))"

definition delivery_from_entry :: "redis_client \<Rightarrow> pystr \<Rightarrow> stream_fields \<Rightarrow> pystr \<Rightarrow> job_delivery result" where
  "delivery_from_entry Q i fs token =
     rbind (ensure (length fs = 3) (Exc RedisQueueMessageError ''Redis Stream entry has invalid fields'')) (\<lambda>_.
     (let decoded = map (\<lambda>(k, v). (utf8_decode k, utf8_decode v)) fs
      in rbind (ensure (list_all (\<lambda>(k, v). k \<noteq> None \<and> v \<noteq> None) decoded)
           (Exc RedisQueueMessageError ''Redis Stream entry fields must be valid UTF-8'')) (\<lambda>_.
         (let ps = map (\<lambda>(k, v). (the k, the v)) decoded
          in rbind (ensure (fst ` set ps = u ` {''submission_id'', ''evaluation_identity_sha256'', ''contract_snapshot_sha256''} \<and>
                 list_all (\<lambda>(_, v). v \<noteq> []) ps)
               (Exc RedisQueueMessageError ''Redis Stream entry has invalid fields'')) (\<lambda>_.
             rbind (ensure (is_sha256 (field_value ps ''evaluation_identity_sha256''))
               (Exc RedisQueueMessageError ''evaluation identity is not a SHA-256 value'')) (\<lambda>_.
             rbind (ensure (field_value ps ''contract_snapshot_sha256'' = rc_routing Q)
               (Exc RedisQueueMessageError ''Redis Stream entry has the wrong routing key'')) (\<lambda>_.
               Inr \<lparr>jd_id = i, jd_message = \<lparr>jm_submission = field_value ps ''submission_id'',
                 jm_identity = field_value ps ''evaluation_identity_sha256'',
                 jm_snapshot = field_value ps ''contract_snapshot_sha256''\<rparr>, jd_receipt = token\<rparr>)))))))"

text \<open>A delivery that breaks the contract is acknowledged, so that it does not come back, and raised.\<close>

definition delivered :: "'r redis \<Rightarrow> redis_client \<Rightarrow> pystr \<times> stream_fields \<Rightarrow> pystr \<Rightarrow> 'r \<Rightarrow> job_delivery option result \<times> 'r" where
  "delivered C Q entry token s =
     (case delivery_from_entry Q (fst entry) (snd entry) token of
        Inr d \<Rightarrow> (Inr (Some d), s)
      | Inl e \<Rightarrow> (Inl e, snd (ack_script C (fst entry) (rc_consumer Q) token s)))"

definition fresh_delivery :: "'r redis \<Rightarrow> redis_client \<Rightarrow> pystr \<times> stream_fields \<Rightarrow> pystr \<Rightarrow> 'r \<Rightarrow> job_delivery option result \<times> 'r" where
  "fresh_delivery C Q entry token s =
     (let (registered, s1) = register_receipt_script C (fst entry) (rc_consumer Q) token s
      in if \<not> registered then (Inr None, s1) else delivered C Q entry token s1)"

definition take_reclaimed :: "'r redis \<Rightarrow> pystr \<Rightarrow> redis_client \<Rightarrow> 'r \<Rightarrow> (pystr \<times> stream_fields) option \<times> redis_client \<times> 'r" where
  "take_reclaimed C token Q s =
     (let ((cursor, claimed), s1) = claim_stale_script C (rc_consumer Q) (rc_visibility_ms Q) (rc_cursor Q) token s
      in (claimed, Q\<lparr>rc_cursor := cursor\<rparr>, s1))"

text \<open>
  \<open>_receive_locked\<close>: reclaimed and fresh entries take turns.  \<open>token\<close> is drawn for the reclaim, \<open>token'\<close> for a fresh entry and
  \<open>token''\<close> for the second reclaim.
\<close>

definition redis_receive :: "'r redis \<Rightarrow> pystr \<Rightarrow> pystr \<Rightarrow> pystr \<Rightarrow> redis_client \<times> 'r \<Rightarrow> job_delivery option result \<times> redis_client \<times> 'r" where
  "redis_receive C token token' token'' = (\<lambda>(Q, s).
     (let first = rc_prefer_reclaimed Q;
          (claimed, Q1, s1) = (if first then take_reclaimed C token Q s else (None, Q, s))
      in (case claimed of
            Some entry \<Rightarrow>
              (let Q2 = Q1\<lparr>rc_prefer_reclaimed := False\<rparr>; (r, s2) = delivered C Q2 entry token s1 in (r, Q2, s2))
          | None \<Rightarrow>
              (case rd_xreadgroup C (rc_consumer Q1) s1 of
                 (Some entry, s2) \<Rightarrow>
                   (let Q2 = Q1\<lparr>rc_prefer_reclaimed := True\<rparr>; (r, s3) = fresh_delivery C Q2 entry token' s2 in (r, Q2, s3))
               | (None, s2) \<Rightarrow>
                   if first then (Inr None, Q1, s2)
                   else
                     (case take_reclaimed C token'' Q1 s2 of
                        (None, Q3, s3) \<Rightarrow> (Inr None, Q3, s3)
                      | (Some entry, Q3, s3) \<Rightarrow>
                          (let Q4 = Q3\<lparr>rc_prefer_reclaimed := False\<rparr>; (r, s4) = delivered C Q4 entry token'' s3 in (r, Q4, s4)))))))"

definition redis_ack :: "'r redis \<Rightarrow> redis_client \<Rightarrow> job_delivery \<Rightarrow> 'r \<Rightarrow> bool \<times> 'r" where
  "redis_ack C Q d s =
     (if jm_snapshot (jd_message d) \<noteq> rc_routing Q then (False, s) else ack_script C (jd_id d) (rc_consumer Q) (jd_receipt d) s)"

definition redis_nack :: "'r redis \<Rightarrow> redis_client \<Rightarrow> job_delivery \<Rightarrow> 'r \<Rightarrow> bool \<times> 'r" where
  "redis_nack C Q d s =
     (if jm_snapshot (jd_message d) \<noteq> rc_routing Q then (False, s) else requeue_script C (jd_id d) (rc_consumer Q) (jd_receipt d) s)"

section \<open>What Redis documents\<close>

text \<open>A command changes what it names and nothing else.  \<open>XADD\<close> draws an identifier that no entry has.\<close>

definition seen :: "'r redis \<Rightarrow> 'r \<Rightarrow> (pystr \<Rightarrow> stream_fields option) \<times> (pystr \<Rightarrow> pystr option) \<times> (queue_hash \<Rightarrow> nat list \<Rightarrow> pystr option)" where
  "seen C s = (rd_xrange C s, rd_xpending C s, rd_hget C s)"

definition xadd_adds :: "'r redis \<Rightarrow> bool" where
  "xadd_adds C \<longleftrightarrow> (\<forall>fs s. rd_xrange C s (fst (rd_xadd C fs s)) = None \<and> rd_xpending C s (fst (rd_xadd C fs s)) = None \<and>
     seen C (snd (rd_xadd C fs s)) = ((rd_xrange C s)(fst (rd_xadd C fs s) \<mapsto> fs), rd_xpending C s, rd_hget C s))"

definition xdel_deletes :: "'r redis \<Rightarrow> bool" where
  "xdel_deletes C \<longleftrightarrow> (\<forall>i s. seen C (rd_xdel C i s) = ((rd_xrange C s)(i := None), rd_xpending C s, rd_hget C s))"

definition xack_acknowledges :: "'r redis \<Rightarrow> bool" where
  "xack_acknowledges C \<longleftrightarrow> (\<forall>i s. fst (rd_xack C i s) = (if rd_xpending C s i = None then 0 else 1) \<and>
     seen C (snd (rd_xack C i s)) = (rd_xrange C s, (rd_xpending C s)(i := None), rd_hget C s))"

definition xreadgroup_delivers :: "'r redis \<Rightarrow> bool" where
  "xreadgroup_delivers C \<longleftrightarrow> (\<forall>c s.
     (case fst (rd_xreadgroup C c s) of
        None \<Rightarrow> seen C (snd (rd_xreadgroup C c s)) = seen C s
      | Some (i, fs) \<Rightarrow> rd_xrange C s i = Some fs \<and> rd_xpending C s i = None \<and>
          seen C (snd (rd_xreadgroup C c s)) = (rd_xrange C s, (rd_xpending C s)(i \<mapsto> c), rd_hget C s)))"

definition xautoclaim_claims :: "'r redis \<Rightarrow> bool" where
  "xautoclaim_claims C \<longleftrightarrow> (\<forall>c idle k s.
     (case rd_xautoclaim C c idle k s of ((_, claimed, deleted), s') \<Rightarrow>
        (\<forall>(i, fs) \<in> set_option claimed. rd_xrange C s i = Some fs \<and> rd_xpending C s i \<noteq> None) \<and>
        (\<forall>d \<in> set deleted. rd_xrange C s d = None) \<and>
        seen C s' = (rd_xrange C s, (\<lambda>j. if j \<in> fst ` set_option claimed then Some c
          else if j \<in> set deleted then None else rd_xpending C s j), rd_hget C s)))"

definition hashes_store :: "'r redis \<Rightarrow> bool" where
  "hashes_store C \<longleftrightarrow> (\<forall>h k v s.
     seen C (rd_hset C h k v s) = (rd_xrange C s, rd_xpending C s, (rd_hget C s)(h := (rd_hget C s h)(k \<mapsto> v))) \<and>
     seen C (rd_hdel C h k s) = (rd_xrange C s, rd_xpending C s, (rd_hget C s)(h := (rd_hget C s h)(k := None))))"

definition redis_laws :: "'r redis \<Rightarrow> bool" where
  "redis_laws C \<longleftrightarrow> xadd_adds C \<and> xdel_deletes C \<and> xack_acknowledges C \<and> xreadgroup_delivers C \<and> xautoclaim_claims C \<and> hashes_store C"

section \<open>UTF-8 reads back\<close>

lemma continues_tail: "continues (128 + n mod 64)"
  by (simp add: continues_def)

lemma utf8_decode_char:
  assumes "c < 1114112" and "\<not> is_surrogate c"
  shows "utf8_decode (utf8_char c @ x) = map_option ((#) c) (utf8_decode x)"
proof -
  consider "c < 128" | "128 \<le> c" "c < 2048" | "2048 \<le> c" "c < 65536" | "65536 \<le> c"
    by linarith
  then show ?thesis
  proof cases
    case 2
    then have "2 \<le> c div 64" "c div 64 < 32"
      using div_le_mono [of 128 c 64] by (simp_all add: less_mult_imp_div_less)
    with 2 div_mult_mod_eq [of c 64] continues_tail show ?thesis
      by (simp add: utf8_char_def)
  next
    case 3
    then have "c div 4096 < 16"
      by (simp add: less_mult_imp_div_less)
    with 3 base_64 [of c] continues_tail assms(2) show ?thesis
      by (simp add: utf8_char_def Let_def)
  next
    case 4
    then have "c div 262144 < 5"
      using assms(1) by (simp add: less_mult_imp_div_less)
    with 4 base_64_4 [of c] continues_tail assms(1) show ?thesis
      by (simp add: utf8_char_def Let_def)
  qed (simp add: utf8_char_def)
qed

lemma utf8_decode_utf8:
  assumes "utf8 s = Inr b" and "code_points s"
  shows "utf8_decode b = Some s"
proof -
  have "\<not> list_ex is_surrogate s" "b = concat (map utf8_char s)"
    using assms(1) by (auto simp: utf8_def split: if_splits)
  then show ?thesis
    using assms(2) by (induction s arbitrary: b) (auto simp: utf8_decode_char code_points_def)
qed

lemma utf8_ascii_text:
  assumes "\<forall>c \<in> set s. c < 128"
  shows "utf8 s = Inr s"
proof -
  have "\<not> list_ex is_surrogate s"
    using assms by (auto simp: list_ex_iff is_surrogate_def)
  moreover have "concat (map utf8_char s) = s"
    using assms by (induction s) (simp_all add: utf8_char_def)
  ultimately show ?thesis
    by (simp add: utf8_def)
qed

lemma sha256_ascii: "is_sha256 v \<Longrightarrow> c \<in> set v \<Longrightarrow> c < 128"
  by (auto simp: is_sha256_def list_all_iff u_def)

section \<open>Messages read back\<close>

text \<open>The messages a queue of this routing key publishes.\<close>

definition publishable :: "pystr \<Rightarrow> job_message \<Rightarrow> bool" where
  "publishable key m \<longleftrightarrow> jm_submission m \<noteq> [] \<and> code_points (jm_submission m) \<and> is_sha256 (jm_identity m) \<and> jm_snapshot m = key \<and>
     is_sha256 key"

lemma message_fields_form:
  assumes "message_fields m = Inr fs" and "publishable key m"
  obtains b where "utf8 (jm_submission m) = Inr b" "utf8_decode b = Some (jm_submission m)"
    "fs = [(u ''submission_id'', b), (u ''evaluation_identity_sha256'', jm_identity m), (u ''contract_snapshot_sha256'', jm_snapshot m)]"
proof -
  have "utf8 (jm_identity m) = Inr (jm_identity m)" "utf8 (jm_snapshot m) = Inr (jm_snapshot m)"
    using assms(2) sha256_ascii by (intro utf8_ascii_text; force simp: publishable_def)+
  with assms utf8_decode_utf8 that show ?thesis
    by (auto simp: message_fields_def rbind_Inr_iff publishable_def)
qed

lemma utf8_decode_ascii: "\<forall>c \<in> set s. c < 128 \<Longrightarrow> utf8_decode s = Some s"
  by (simp add: utf8_ascii list_all_iff)

lemma u_ascii: "list_all (\<lambda>c. c < 128) (u ''submission_id'')" "list_all (\<lambda>c. c < 128) (u ''evaluation_identity_sha256'')"
  "list_all (\<lambda>c. c < 128) (u ''contract_snapshot_sha256'')"
  by (simp_all add: u_def)

lemma delivery_reads_message:
  assumes "message_fields m = Inr fs" and "publishable (rc_routing Q) m"
  shows "delivery_from_entry Q i fs token = Inr \<lparr>jd_id = i, jd_message = m, jd_receipt = token\<rparr>"
proof -
  obtain b where b: "utf8 (jm_submission m) = Inr b" "utf8_decode b = Some (jm_submission m)"
      "fs = [(u ''submission_id'', b), (u ''evaluation_identity_sha256'', jm_identity m), (u ''contract_snapshot_sha256'', jm_snapshot m)]"
    by (rule message_fields_form [OF assms])
  have "utf8_decode (jm_identity m) = Some (jm_identity m)" "utf8_decode (jm_snapshot m) = Some (jm_snapshot m)"
    using assms(2) sha256_ascii by (intro utf8_decode_ascii; force simp: publishable_def)+
  moreover have "jm_identity m \<noteq> []" "jm_snapshot m \<noteq> []" "is_sha256 (jm_identity m)"
    using assms(2) by (auto simp: publishable_def is_sha256_def)
  ultimately show ?thesis
    using b u_ascii [THEN utf8_ascii] assms(2)
    by (simp add: delivery_from_entry_def field_value_def ensure_def publishable_def Let_def)
qed

section \<open>Reading the laws\<close>

lemma seen_parts: "seen C s = (x, p, h) \<Longrightarrow> rd_xrange C s = x \<and> rd_xpending C s = p \<and> rd_hget C s = h"
  by (simp add: seen_def)

lemma law_xadd:
  assumes "redis_laws C" and "rd_xadd C fs s = (i, s')"
  shows "rd_xrange C s i = None" "rd_xpending C s i = None" "rd_xrange C s' = (rd_xrange C s)(i \<mapsto> fs)"
    "rd_xpending C s' = rd_xpending C s" "rd_hget C s' = rd_hget C s"
proof -
  have "xadd_adds C"
    using assms(1) by (simp add: redis_laws_def)
  then have "rd_xrange C s i = None \<and> rd_xpending C s i = None \<and> seen C s' = ((rd_xrange C s)(i \<mapsto> fs), rd_xpending C s, rd_hget C s)"
    using assms(2) by (metis xadd_adds_def fst_conv snd_conv)
  then show "rd_xrange C s i = None" "rd_xpending C s i = None" "rd_xrange C s' = (rd_xrange C s)(i \<mapsto> fs)"
      "rd_xpending C s' = rd_xpending C s" "rd_hget C s' = rd_hget C s"
    by (simp_all add: seen_def)
qed

lemma law_xdel:
  assumes "redis_laws C"
  shows "rd_xrange C (rd_xdel C i s) = (rd_xrange C s)(i := None)" "rd_xpending C (rd_xdel C i s) = rd_xpending C s"
    "rd_hget C (rd_xdel C i s) = rd_hget C s"
  using assms by (simp_all add: redis_laws_def xdel_deletes_def seen_def)

lemma law_xack:
  assumes "redis_laws C"
  shows "fst (rd_xack C i s) = (if rd_xpending C s i = None then 0 else 1)" "rd_xrange C (snd (rd_xack C i s)) = rd_xrange C s"
    "rd_xpending C (snd (rd_xack C i s)) = (rd_xpending C s)(i := None)" "rd_hget C (snd (rd_xack C i s)) = rd_hget C s"
  using assms by (simp_all add: redis_laws_def xack_acknowledges_def seen_def)

lemma law_hashes:
  assumes "redis_laws C"
  shows "rd_xrange C (rd_hset C h k v s) = rd_xrange C s" "rd_xpending C (rd_hset C h k v s) = rd_xpending C s"
    "rd_hget C (rd_hset C h k v s) = (rd_hget C s)(h := (rd_hget C s h)(k \<mapsto> v))"
    "rd_xrange C (rd_hdel C h k s) = rd_xrange C s" "rd_xpending C (rd_hdel C h k s) = rd_xpending C s"
    "rd_hget C (rd_hdel C h k s) = (rd_hget C s)(h := (rd_hget C s h)(k := None))"
  using assms by (simp_all add: redis_laws_def hashes_store_def seen_def)

text \<open>What the jobs of the queue depend on: the entries and the active hash.\<close>

definition same_jobs :: "'r redis \<Rightarrow> 'r \<Rightarrow> 'r \<Rightarrow> bool" where
  "same_jobs C s s' \<longleftrightarrow> rd_xrange C s' = rd_xrange C s \<and> rd_hget C s' Active = rd_hget C s Active"

lemma read_same_jobs:
  assumes "redis_laws C" and "rd_xreadgroup C c s = (r, s')"
  shows "same_jobs C s s' \<and> (\<forall>i fs. r = Some (i, fs) \<longrightarrow> rd_xrange C s i = Some fs)"
proof -
  have "xreadgroup_delivers C"
    using assms(1) by (simp add: redis_laws_def)
  then have "case fst (rd_xreadgroup C c s) of None \<Rightarrow> seen C (snd (rd_xreadgroup C c s)) = seen C s
      | Some (i, fs) \<Rightarrow> rd_xrange C s i = Some fs \<and> rd_xpending C s i = None \<and>
          seen C (snd (rd_xreadgroup C c s)) = (rd_xrange C s, (rd_xpending C s)(i \<mapsto> c), rd_hget C s)"
    unfolding xreadgroup_delivers_def by blast
  then show ?thesis
    using assms(2) by (auto simp: same_jobs_def seen_def split: option.splits)
qed

lemma receipts_same_jobs:
  assumes "redis_laws C"
  shows "same_jobs C s (rd_hset C Receipts k v s)" "same_jobs C s (fold (rd_hdel C Receipts) ks s)"
proof -
  show "same_jobs C s (rd_hset C Receipts k v s)"
    by (simp add: same_jobs_def law_hashes [OF assms])
  show "same_jobs C s (fold (rd_hdel C Receipts) ks s)"
    by (induction ks arbitrary: s) (simp_all add: same_jobs_def law_hashes [OF assms])
qed

lemma claim_same_jobs:
  assumes "redis_laws C" and "claim_stale_script C c idle k token s = ((k', claimed), s')"
  shows "same_jobs C s s' \<and> (\<forall>i fs. claimed = Some (i, fs) \<longrightarrow> rd_xrange C s i = Some fs)"
proof -
  obtain k1 entry deleted s1 where auto: "rd_xautoclaim C c idle k s = ((k1, entry, deleted), s1)"
    by (cases "rd_xautoclaim C c idle k s") auto
  have claims: "xautoclaim_claims C"
    using assms(1) by (simp add: redis_laws_def)
  from claims [unfolded xautoclaim_claims_def, THEN spec, of c, THEN spec, of idle, THEN spec, of k, THEN spec, of s] auto have "\<forall>i fs. entry = Some (i, fs) \<longrightarrow> rd_xrange C s i = Some fs" "same_jobs C s s1"
    by (auto simp: same_jobs_def seen_def)
  moreover have "claimed = entry"
      "s' = fold (rd_hdel C Receipts) deleted (case entry of None \<Rightarrow> s1 | Some (i, _) \<Rightarrow> rd_hset C Receipts i token s1)"
    using assms(2) auto by (auto simp: claim_stale_script_def)
  moreover have "same_jobs C s1 (case entry of None \<Rightarrow> s1 | Some (i, _) \<Rightarrow> rd_hset C Receipts i token s1)"
    using receipts_same_jobs(1) [OF assms(1)] by (auto simp: same_jobs_def split: option.splits)
  ultimately show ?thesis
    using receipts_same_jobs(2) [OF assms(1)] by (auto simp: same_jobs_def)
qed

section \<open>One entry for a submission\<close>

definition stream_ok :: "'r redis \<Rightarrow> pystr \<Rightarrow> 'r \<Rightarrow> bool" where
  "stream_ok C key s \<longleftrightarrow>
     (\<forall>i fs. rd_xrange C s i = Some fs \<longrightarrow> (\<exists>m. publishable key m \<and> message_fields m = Inr fs)) \<and>
     (\<forall>sub i. rd_hget C s Active sub = Some i \<longleftrightarrow> (\<exists>fs. rd_xrange C s i = Some fs \<and> submission_field fs = Some sub))"

text \<open>The submissions that have an entry.\<close>

definition live :: "'r redis \<Rightarrow> 'r \<Rightarrow> nat list set" where
  "live C s = {sub. \<exists>i fs. rd_xrange C s i = Some fs \<and> submission_field fs = Some sub}"

lemma stream_ok_same: "stream_ok C key s \<Longrightarrow> same_jobs C s s' \<Longrightarrow> stream_ok C key s'"
  by (simp add: stream_ok_def same_jobs_def)

lemma live_same: "same_jobs C s s' \<Longrightarrow> live C s' = live C s"
  by (simp add: live_def same_jobs_def)

lemma live_active: "stream_ok C key s \<Longrightarrow> sub \<in> live C s \<longleftrightarrow> rd_hget C s Active sub \<noteq> None"
  by (auto simp: stream_ok_def live_def)

lemma fields_submission: "message_fields m = Inr fs \<Longrightarrow> \<exists>sub. submission_field fs = Some sub"
  by (auto simp: message_fields_def rbind_Inr_iff submission_field_def)

lemma stream_field:
  assumes "stream_ok C key s" and "rd_xrange C s i = Some fs"
  obtains m sub where "publishable key m" "message_fields m = Inr fs" "submission_field fs = Some sub" "rd_hget C s Active sub = Some i"
proof -
  obtain m where m: "publishable key m" "message_fields m = Inr fs"
    using assms unfolding stream_ok_def by blast
  moreover obtain sub where "submission_field fs = Some sub"
    using fields_submission [OF m(2)] by blast
  moreover have "rd_hget C s Active sub = Some i"
    using assms calculation(3) unfolding stream_ok_def by blast
  ultimately show ?thesis
    by (rule that)
qed

lemma entry_unique:
  assumes "stream_ok C key s" and "rd_xrange C s i = Some fs" and "rd_xrange C s j = Some gs" and "submission_field fs = submission_field gs"
  shows "i = j"
proof -
  obtain sub where "submission_field fs = Some sub" "rd_hget C s Active sub = Some i"
    by (rule stream_field [OF assms(1,2)])
  moreover obtain sub' where "submission_field gs = Some sub'" "rd_hget C s Active sub' = Some j"
    by (rule stream_field [OF assms(1,3)])
  ultimately show ?thesis
    using assms(4) by simp
qed

lemma add_active_ok:
  assumes "redis_laws C" and "stream_ok C key s" and "publishable key m" and "message_fields m = Inr fs" and "submission_field fs = Some sub"
    and "sub \<notin> live C s"
  shows "stream_ok C key (add_active C sub fs s) \<and> live C (add_active C sub fs s) = insert sub (live C s)"
proof -
  obtain i s' where add: "rd_xadd C fs s = (i, s')"
    by force
  note law = law_xadd [OF assms(1) add]
  have new: "rd_xrange C (add_active C sub fs s) = (rd_xrange C s)(i \<mapsto> fs)"
      "rd_hget C (add_active C sub fs s) Active = (rd_hget C s Active)(sub \<mapsto> i)"
    using add law by (simp_all add: add_active_def law_hashes [OF assms(1)])
  have inactive: "rd_hget C s Active sub = None"
    using live_active [OF assms(2)] assms(6) by auto
  have unused: "rd_hget C s Active x \<noteq> Some i" for x
    using law(1) assms(2) by (auto simp: stream_ok_def)
  have "stream_ok C key (add_active C sub fs s)"
    unfolding stream_ok_def new
  proof (intro conjI allI impI)
    show "\<exists>m. publishable key m \<and> message_fields m = Inr gs" if "((rd_xrange C s)(i \<mapsto> fs)) j = Some gs" for j gs
      using that assms(2-4) by (auto simp: stream_ok_def split: if_splits)
    show "(((rd_hget C s Active)(sub \<mapsto> i)) x = Some j) = (\<exists>gs. ((rd_xrange C s)(i \<mapsto> fs)) j = Some gs \<and> submission_field gs = Some x)" for x j
    proof (cases "x = sub")
      case True
      then show ?thesis
        using assms(5,6) by (auto simp: live_def)
    next
      case False
      then show ?thesis
        using unused [of x] assms(2,5) by (auto simp: stream_ok_def)
    qed
  qed
  moreover have "live C (add_active C sub fs s) = insert sub (live C s)"
    using live_active [OF calculation] live_active [OF assms(2)] new(2) by (auto split: if_splits)
  ultimately show ?thesis
    by simp
qed

lemma publish_ok:
  assumes "redis_laws C" and "stream_ok C key s" and "publishable key m" and "message_fields m = Inr fs" and "submission_field fs = Some sub"
  shows "stream_ok C key (publish_script C sub fs s) \<and> live C (publish_script C sub fs s) = insert sub (live C s)"
proof (cases "rd_hget C s Active sub")
  case None
  then have "sub \<notin> live C s"
    using live_active [OF assms(2)] by simp
  with None add_active_ok [OF assms] show ?thesis
    by (simp add: publish_script_def)
next
  case (Some i)
  then have "rd_xrange C s i \<noteq> None" "sub \<in> live C s"
    using assms(2) live_active [OF assms(2)] by (auto simp: stream_ok_def)
  with Some assms(2) show ?thesis
    by (auto simp: publish_script_def)
qed

text \<open>An entry goes, and with it the mark of its submission.\<close>

lemma removed_ok:
  assumes "stream_ok C key s" and "rd_xrange C s i = Some fs" and "submission_field fs = Some sub"
    and "rd_xrange C t = (rd_xrange C s)(i := None)" and "rd_hget C t Active = (rd_hget C s Active)(sub := None)"
  shows "stream_ok C key t \<and> live C t = live C s - {sub}"
proof -
  have active: "rd_hget C s Active sub = Some i"
    using assms(1-3) unfolding stream_ok_def by blast
  have alone: "\<And>l gs. rd_xrange C s l = Some gs \<Longrightarrow> submission_field gs = Some sub \<Longrightarrow> l = i"
    using entry_unique [OF assms(1) _ assms(2)] assms(3) by simp
  have "stream_ok C key t"
    unfolding stream_ok_def assms(4,5)
  proof (intro conjI allI impI)
    show "\<exists>m. publishable key m \<and> message_fields m = Inr gs" if "((rd_xrange C s)(i := None)) j = Some gs" for j gs
      using that assms(1) by (auto simp: stream_ok_def split: if_splits)
    show "(((rd_hget C s Active)(sub := None)) x = Some j) = (\<exists>gs. ((rd_xrange C s)(i := None)) j = Some gs \<and> submission_field gs = Some x)" for x j
    proof (cases "x = sub")
      case True
      then show ?thesis
        using alone [of j] by (auto split: if_splits)
    next
      case False
      have "rd_hget C s Active x = Some j \<longleftrightarrow> (\<exists>gs. rd_xrange C s j = Some gs \<and> submission_field gs = Some x)"
        using assms(1) by (simp add: stream_ok_def)
      with False assms(2,3) show ?thesis
        by (auto split: if_splits)
    qed
  qed
  moreover have "live C t = live C s - {sub}"
    using live_active [OF calculation] live_active [OF assms(1)] assms(5) by (auto split: if_splits)
  ultimately show ?thesis
    by simp
qed

lemma ack_script_ok:
  assumes "redis_laws C" and "stream_ok C key s" and "ack_script C i consumer token s = (b, s')"
  shows "stream_ok C key s' \<and>
    live C s' = (if b then live C s - set_option (Option.bind (rd_xrange C s i) submission_field) else live C s) \<and>
    b = held_receipt C i consumer token s \<and> (b \<longrightarrow> rd_xpending C s' i = None)"
proof (cases "held_receipt C i consumer token s")
  case False
  then show ?thesis
    using assms(2,3) by (simp add: ack_script_def)
next
  case True
  have acked: "fst (rd_xack C i s) = 1"
    using True law_xack(1) [OF assms(1)] by (simp add: held_receipt_def)
  let ?t = "rd_hdel C Receipts i (rd_xdel C i (snd (rd_xack C i s)))"
  have t: "rd_xrange C ?t = (rd_xrange C s)(i := None)" "rd_hget C ?t Active = rd_hget C s Active" "rd_xpending C ?t i = None"
    by (simp_all add: law_hashes [OF assms(1)] law_xdel [OF assms(1)] law_xack [OF assms(1)])
  have s': "b" "s' = release_active C i (rd_xrange C s i) ?t"
    using assms(3) True acked by (auto simp: ack_script_def Let_def case_prod_unfold)
  show ?thesis
  proof (cases "rd_xrange C s i")
    case None
    then have "s' = ?t" "(rd_xrange C s)(i := None) = rd_xrange C s"
      using s' by (auto simp: release_active_def)
    then show ?thesis
      using None s' t assms(2) True by (simp add: stream_ok_def live_def)
  next
    case (Some fs)
    obtain sub where sub: "submission_field fs = Some sub" "rd_hget C s Active sub = Some i"
      by (rule stream_field [OF assms(2) Some])
    then have "s' = rd_hdel C Active sub ?t"
      using s' Some t by (simp add: release_active_def)
    then have "rd_xrange C s' = (rd_xrange C s)(i := None)" "rd_hget C s' Active = (rd_hget C s Active)(sub := None)" "rd_xpending C s' i = None"
      using t by (simp_all add: law_hashes [OF assms(1)])
    then show ?thesis
      using removed_ok [OF assms(2) Some sub(1)] s' sub Some True by simp
  qed
qed

lemma requeue_script_ok:
  assumes "redis_laws C" and "stream_ok C key s" and "requeue_script C i consumer token s = (b, s')"
  shows "stream_ok C key s' \<and> live C s' = live C s \<and> (b \<longrightarrow> held_receipt C i consumer token s \<and> rd_xpending C s' i = None)"
proof (cases "held_receipt C i consumer token s \<and> rd_xrange C s i \<noteq> None")
  case False
  then show ?thesis
    using assms(2,3) by (auto simp: requeue_script_def split: if_splits)
next
  case True
  then obtain fs where fs: "rd_xrange C s i = Some fs" "held_receipt C i consumer token s"
    by blast
  obtain m sub where sub: "publishable key m" "message_fields m = Inr fs" "submission_field fs = Some sub" "rd_hget C s Active sub = Some i"
    by (rule stream_field [OF assms(2) fs(1)])
  obtain j s1 where add: "rd_xadd C fs s = (j, s1)"
    by force
  note law = law_xadd [OF assms(1) add]
  have "j \<noteq> i"
    using law(1) fs(1) by auto
  have s': "b" "s' = rd_hdel C Receipts i (rd_xdel C i (snd (rd_xack C i (rd_hset C Active sub j s1))))"
    using assms(3) fs sub add by (auto simp: requeue_script_def Let_def case_prod_unfold)
  have t: "rd_xrange C s' = (rd_xrange C s)(j \<mapsto> fs, i := None)" "rd_hget C s' Active = (rd_hget C s Active)(sub \<mapsto> j)" "rd_xpending C s' i = None"
    using s' law by (simp_all add: law_hashes [OF assms(1)] law_xdel [OF assms(1)] law_xack [OF assms(1)])
  have unused: "rd_hget C s Active x \<noteq> Some j" for x
    using law(1) assms(2) by (auto simp: stream_ok_def)
  have alone: "\<And>l gs. rd_xrange C s l = Some gs \<Longrightarrow> submission_field gs = Some sub \<Longrightarrow> l = i"
    using entry_unique [OF assms(2) _ fs(1)] sub(3) by simp
  have "stream_ok C key s'"
    unfolding stream_ok_def t
  proof (intro conjI allI impI)
    show "\<exists>m. publishable key m \<and> message_fields m = Inr gs" if "((rd_xrange C s)(j \<mapsto> fs, i := None)) l = Some gs" for l gs
      using that assms(2) sub(1,2) by (auto simp: stream_ok_def split: if_splits)
    show "(((rd_hget C s Active)(sub \<mapsto> j)) x = Some l) =
        (\<exists>gs. ((rd_xrange C s)(j \<mapsto> fs, i := None)) l = Some gs \<and> submission_field gs = Some x)" for x l
    proof (cases "x = sub")
      case True
      then show ?thesis
        using alone [of l] sub(3) \<open>j \<noteq> i\<close> by (auto split: if_splits)
    next
      case False
      have "rd_hget C s Active x = Some l \<longleftrightarrow> (\<exists>gs. rd_xrange C s l = Some gs \<and> submission_field gs = Some x)"
        using assms(2) by (simp add: stream_ok_def)
      with False fs(1) sub(3) \<open>j \<noteq> i\<close> law(1) show ?thesis
        by (auto split: if_splits)
    qed
  qed
  moreover have "live C s' = live C s"
    using live_active [OF calculation] live_active [OF assms(2)] t(2) sub(4) by (auto split: if_splits)
  ultimately show ?thesis
    using fs(2) t(3) s' by simp
qed
section \<open>Taking an entry\<close>

lemma hdel_receipts:
  assumes "redis_laws C"
  shows "rd_xrange C (fold (rd_hdel C Receipts) ks s) = rd_xrange C s \<and> rd_xpending C (fold (rd_hdel C Receipts) ks s) = rd_xpending C s \<and>
    (i \<notin> set ks \<longrightarrow> rd_hget C (fold (rd_hdel C Receipts) ks s) Receipts i = rd_hget C s Receipts i)"
  by (induction ks arbitrary: s) (auto simp: law_hashes [OF assms])

lemma claim_held:
  assumes "redis_laws C" and "claim_stale_script C c idle k token s = ((k', Some (i, fs)), s')"
  shows "held_receipt C i c token s'"
proof -
  obtain k1 entry deleted s1 where claim: "rd_xautoclaim C c idle k s = ((k1, entry, deleted), s1)"
    by (cases "rd_xautoclaim C c idle k s") auto
  then have entry: "entry = Some (i, fs)"
    using assms(2) by (auto simp: claim_stale_script_def)
  then have s': "s' = fold (rd_hdel C Receipts) deleted (rd_hset C Receipts i token s1)"
    using assms(2) claim by (simp add: claim_stale_script_def)
  have claims: "xautoclaim_claims C"
    using assms(1) by (simp add: redis_laws_def)
  from claims [unfolded xautoclaim_claims_def, THEN spec, of c, THEN spec, of idle, THEN spec, of k, THEN spec, of s] claim entry
  have "rd_xrange C s i = Some fs" "\<forall>d \<in> set deleted. rd_xrange C s d = None" "rd_xpending C s1 i = Some c"
    by (auto simp: seen_def)
  then have "i \<notin> set deleted" "rd_xpending C s1 i = Some c"
    by auto
  with hdel_receipts [OF assms(1), of deleted "rd_hset C Receipts i token s1" i] show ?thesis
    by (simp add: s' held_receipt_def law_hashes [OF assms(1)])
qed

text \<open>What a receive must establish: the stream is as it was, and the delivery is a published message the client holds.\<close>

definition takes :: "'r redis \<Rightarrow> pystr \<Rightarrow> pystr \<Rightarrow> 'r \<Rightarrow> job_delivery option result \<Rightarrow> 'r \<Rightarrow> bool" where
  "takes C key consumer s r s' \<longleftrightarrow> same_jobs C s s' \<and>
     (r = Inr None \<or> (\<exists>d. r = Inr (Some d) \<and> publishable key (jd_message d) \<and>
        message_fields (jd_message d) = Inr (the (rd_xrange C s' (jd_id d))) \<and> rd_xrange C s' (jd_id d) \<noteq> None \<and>
        held_receipt C (jd_id d) consumer (jd_receipt d) s'))"

lemma takes_after: "same_jobs C s s1 \<Longrightarrow> takes C key c s1 r s2 \<Longrightarrow> takes C key c s r s2"
  by (auto simp: takes_def same_jobs_def)

lemma delivered_takes:
  assumes "stream_ok C (rc_routing Q) s" and "rd_xrange C s i = Some fs" and "held_receipt C i (rc_consumer Q) token s"
    and "delivered C Q (i, fs) token s = (r, s')"
  shows "takes C (rc_routing Q) (rc_consumer Q) s r s'"
proof -
  obtain m where m: "publishable (rc_routing Q) m" "message_fields m = Inr fs"
    by (rule stream_field [OF assms(1,2)])
  then have "r = Inr (Some \<lparr>jd_id = i, jd_message = m, jd_receipt = token\<rparr>)" "s' = s"
    using assms(4) delivery_reads_message [OF m(2,1)] by (auto simp: delivered_def)
  with m assms(2,3) show ?thesis
    by (simp add: takes_def same_jobs_def)
qed

lemma fresh_takes:
  assumes "redis_laws C" and "stream_ok C (rc_routing Q) s" and "rd_xrange C s i = Some fs"
    and "fresh_delivery C Q (i, fs) token s = (r, s')"
  shows "takes C (rc_routing Q) (rc_consumer Q) s r s'"
proof (cases "rd_xpending C s i = Some (rc_consumer Q)")
  case False
  then show ?thesis
    using assms(4) by (auto simp: fresh_delivery_def register_receipt_script_def takes_def same_jobs_def)
next
  case True
  let ?t = "rd_hset C Receipts i token s"
  have "delivered C Q (i, fs) token ?t = (r, s')"
    using assms(4) True by (simp add: fresh_delivery_def register_receipt_script_def)
  moreover have "same_jobs C s ?t"
    by (rule receipts_same_jobs(1) [OF assms(1)])
  moreover have "rd_xrange C ?t i = Some fs" "held_receipt C i (rc_consumer Q) token ?t"
    using assms(3) True by (simp_all add: held_receipt_def law_hashes [OF assms(1)])
  ultimately show ?thesis
    using takes_after [OF _ delivered_takes] stream_ok_same [OF assms(2)] by metis
qed

lemma take_reclaimed_ok:
  assumes "redis_laws C" and "take_reclaimed C token Q s = (claimed, Q', s')"
  shows "same_jobs C s s' \<and> rc_routing Q' = rc_routing Q \<and> rc_consumer Q' = rc_consumer Q \<and>
    (\<forall>i fs. claimed = Some (i, fs) \<longrightarrow> rd_xrange C s' i = Some fs \<and> held_receipt C i (rc_consumer Q) token s')"
proof -
  obtain k' where script: "claim_stale_script C (rc_consumer Q) (rc_visibility_ms Q) (rc_cursor Q) token s = ((k', claimed), s')" "Q' = Q\<lparr>rc_cursor := k'\<rparr>"
    using assms(2) by (auto simp: take_reclaimed_def split: prod.splits)
  have jobs: "same_jobs C s s'" "\<forall>i fs. claimed = Some (i, fs) \<longrightarrow> rd_xrange C s i = Some fs"
    using claim_same_jobs [OF assms(1) script(1)] by simp_all
  moreover have "\<forall>i fs. claimed = Some (i, fs) \<longrightarrow> held_receipt C i (rc_consumer Q) token s'"
    using claim_held [OF assms(1)] script(1) by blast
  ultimately show ?thesis
    using script(2) by (simp add: same_jobs_def)
qed

lemma read_takes:
  assumes "redis_laws C" and "stream_ok C (rc_routing Q) s" and "rd_xreadgroup C c s = (Some (i, fs), s1)"
    and "fresh_delivery C Q (i, fs) token s1 = (r, s')"
  shows "takes C (rc_routing Q) (rc_consumer Q) s r s'"
proof -
  have "same_jobs C s s1" "rd_xrange C s i = Some fs"
    using read_same_jobs [OF assms(1,3)] by simp_all
  moreover from this have "rd_xrange C s1 i = Some fs"
    by (simp add: same_jobs_def)
  ultimately show ?thesis
    using takes_after [OF _ fresh_takes [OF assms(1) _ _ assms(4)]] stream_ok_same [OF assms(2)] by metis
qed

lemma receive_ok:
  assumes "redis_laws C" and "stream_ok C (rc_routing Q) s" and "redis_receive C token token' token'' (Q, s) = (r, Q', s')"
  shows "takes C (rc_routing Q) (rc_consumer Q) s r s'"
proof -
  define first where "first = rc_prefer_reclaimed Q"
  obtain claimed Q1 s1 where start: "(if first then take_reclaimed C token Q s else (None, Q, s)) = (claimed, Q1, s1)"
    by (cases "if first then take_reclaimed C token Q s else (None, Q, s)") auto
  have "same_jobs C s s1 \<and> rc_routing Q1 = rc_routing Q \<and> rc_consumer Q1 = rc_consumer Q \<and>
      (\<forall>i fs. claimed = Some (i, fs) \<longrightarrow> rd_xrange C s1 i = Some fs \<and> held_receipt C i (rc_consumer Q) token s1)"
  proof (cases first)
    case True
    then show ?thesis
      using start take_reclaimed_ok [OF assms(1)] by presburger
  next
    case False
    then show ?thesis
      using start by (auto simp: same_jobs_def)
  qed
  then have Q1: "same_jobs C s s1" "rc_routing Q1 = rc_routing Q" "rc_consumer Q1 = rc_consumer Q"
      "\<forall>i fs. claimed = Some (i, fs) \<longrightarrow> rd_xrange C s1 i = Some fs \<and> held_receipt C i (rc_consumer Q) token s1"
    by blast+
  have ok1: "stream_ok C (rc_routing Q) s1"
    by (rule stream_ok_same [OF assms(2) Q1(1)])
  show ?thesis
  proof (cases claimed)
    case (Some entry)
    obtain i fs where entry: "entry = (i, fs)"
      by force
    have "delivered C (Q1\<lparr>rc_prefer_reclaimed := False\<rparr>) (i, fs) token s1 = (r, s')"
      using assms(3) start Some entry by (simp add: redis_receive_def first_def Let_def split: prod.splits)
    with Some entry Q1 ok1 delivered_takes [of C "Q1\<lparr>rc_prefer_reclaimed := False\<rparr>" s1 i fs token r s'] show ?thesis
      by (auto intro: takes_after)
  next
    case None
    obtain found s2 where read: "rd_xreadgroup C (rc_consumer Q1) s1 = (found, s2)"
      by force
    show ?thesis
    proof (cases found)
      case (Some entry)
      obtain i fs where entry: "entry = (i, fs)"
        by force
      have "fresh_delivery C (Q1\<lparr>rc_prefer_reclaimed := True\<rparr>) (i, fs) token' s2 = (r, s')"
        using assms(3) start None read Some entry by (simp add: redis_receive_def first_def Let_def split: prod.splits)
      with read Some entry Q1 ok1 read_takes [OF assms(1), of "Q1\<lparr>rc_prefer_reclaimed := True\<rparr>" s1 "rc_consumer Q1" i fs s2 token' r s'] show ?thesis
        by (auto intro: takes_after)
    next
      case unread: None
      have s2: "same_jobs C s s2"
        using read_same_jobs [OF assms(1) read] Q1(1) by (simp add: same_jobs_def)
      show ?thesis
      proof (cases first)
        case True
        then have "r = Inr None" "s' = s2"
          using assms(3) start None read unread by (simp_all add: redis_receive_def first_def Let_def split: prod.splits)
        with s2 show ?thesis
          by (simp add: takes_def)
      next
        case False
        obtain claimed' Q3 s3 where again: "take_reclaimed C token'' Q1 s2 = (claimed', Q3, s3)"
          by (cases "take_reclaimed C token'' Q1 s2") auto
        note taken = take_reclaimed_ok [OF assms(1) again]
        have s3: "same_jobs C s s3"
          using s2 taken by (simp add: same_jobs_def)
        show ?thesis
        proof (cases claimed')
          case None
          then have "r = Inr None" "s' = s3"
            using assms(3) start \<open>claimed = None\<close> read unread False again
            by (simp_all add: redis_receive_def first_def Let_def split: prod.splits)
          with s3 show ?thesis
            by (simp add: takes_def)
        next
          case (Some entry)
          obtain i fs where entry: "entry = (i, fs)"
            by force
          have "delivered C (Q3\<lparr>rc_prefer_reclaimed := False\<rparr>) (i, fs) token'' s3 = (r, s')"
            using assms(3) start \<open>claimed = None\<close> read unread False again Some entry
            by (simp add: redis_receive_def first_def Let_def split: prod.splits)
          with Some entry taken Q1 s3 stream_ok_same [OF assms(2) s3] delivered_takes [of C "Q3\<lparr>rc_prefer_reclaimed := False\<rparr>" s3 i fs token'' r s']
          show ?thesis
            by (auto intro: takes_after)
        qed
      qed
    qed
  qed
qed

section \<open>The clients\<close>

text \<open>One call of a client of the stream; a call that raises leaves the server as the call left it.\<close>

inductive redis_step :: "'r redis \<Rightarrow> pystr \<Rightarrow> 'r \<Rightarrow> 'r \<Rightarrow> bool" for C key where
  publish: "rc_routing Q = key \<Longrightarrow> code_points (jm_submission m) \<Longrightarrow> redis_publish C Q m s = Inr s' \<Longrightarrow> redis_step C key s s'"
| receive: "rc_routing Q = key \<Longrightarrow> redis_receive C token token' token'' (Q, s) = (r, Q', s') \<Longrightarrow> redis_step C key s s'"
| ack: "rc_routing Q = key \<Longrightarrow> redis_ack C Q d s = (b, s') \<Longrightarrow> redis_step C key s s'"
| nack: "rc_routing Q = key \<Longrightarrow> redis_nack C Q d s = (b, s') \<Longrightarrow> redis_step C key s s'"

lemma redis_publish_ok:
  assumes "redis_laws C" and "is_sha256 (rc_routing Q)" and "stream_ok C (rc_routing Q) s" and "code_points (jm_submission m)"
    and "redis_publish C Q m s = Inr s'"
  shows "\<exists>sub. utf8 (jm_submission m) = Inr sub \<and> stream_ok C (rc_routing Q) s' \<and> live C s' = insert sub (live C s)"
proof -
  obtain fs where fs: "message_fields m = Inr fs" "s' = publish_script C (the (submission_field fs)) fs s" and m: "publishable (rc_routing Q) m"
    using assms by (auto simp: redis_publish_def publishable_def rbind_Inr_iff ensure_def split: if_splits)
  obtain sub where "utf8 (jm_submission m) = Inr sub" "submission_field fs = Some sub"
    by (rule message_fields_form [OF fs(1) m]) (simp add: submission_field_def)
  with publish_ok [OF assms(1,3) m fs(1)] fs(2) show ?thesis
    by simp
qed

lemma redis_ack_ok:
  assumes "redis_laws C" and "stream_ok C (rc_routing Q) s" and "redis_ack C Q d s = (b, s')"
  shows "stream_ok C (rc_routing Q) s' \<and>
    live C s' = (if b then live C s - set_option (Option.bind (rd_xrange C s (jd_id d)) submission_field) else live C s) \<and>
    (b \<longrightarrow> held_receipt C (jd_id d) (rc_consumer Q) (jd_receipt d) s \<and> rd_xpending C s' (jd_id d) = None)"
  using assms ack_script_ok [OF assms(1,2), of "jd_id d" "rc_consumer Q" "jd_receipt d" b s']
  by (auto simp: redis_ack_def split: if_splits)

lemma redis_nack_ok:
  assumes "redis_laws C" and "stream_ok C (rc_routing Q) s" and "redis_nack C Q d s = (b, s')"
  shows "stream_ok C (rc_routing Q) s' \<and> live C s' = live C s \<and>
    (b \<longrightarrow> held_receipt C (jd_id d) (rc_consumer Q) (jd_receipt d) s \<and> rd_xpending C s' (jd_id d) = None)"
  using assms requeue_script_ok [OF assms(1,2), of "jd_id d" "rc_consumer Q" "jd_receipt d" b s']
  by (auto simp: redis_nack_def split: if_splits)

lemma step_ok:
  assumes "redis_step C key s s'" and "redis_laws C" and "is_sha256 key" and "stream_ok C key s"
  shows "stream_ok C key s'"
  using assms
proof (induction rule: redis_step.induct)
  case (publish Q m s s')
  then show ?case
    using redis_publish_ok [of C Q s m s'] by auto
next
  case (receive Q token token' token'' s r Q' s')
  then have "same_jobs C s s'"
    using receive_ok [of C Q s token token' token'' r Q' s'] by (simp add: takes_def)
  with receive show ?case
    using stream_ok_same by metis
next
  case (ack Q d s b s')
  then show ?case
    using redis_ack_ok [of C Q s d b s'] by simp
next
  case (nack Q d s b s')
  then show ?case
    using redis_nack_ok [of C Q s d b s'] by simp
qed

lemma steps_ok:
  assumes "(redis_step C key)\<^sup>*\<^sup>* s s'" and "redis_laws C" and "is_sha256 key" and "stream_ok C key s"
  shows "stream_ok C key s'"
  using assms(1)
proof (induction rule: rtranclp_induct)
  case base
  show ?case
    by (rule assms(4))
next
  case (step t t')
  show ?case
    by (rule step_ok [OF step.hyps(2) assms(2,3) step.IH])
qed

text \<open>A new stream: no entry, no submission marked.\<close>

definition new_stream :: "'r redis \<Rightarrow> 'r \<Rightarrow> bool" where
  "new_stream C s \<longleftrightarrow> (\<forall>i. rd_xrange C s i = None) \<and> (\<forall>sub. rd_hget C s Active sub = None)"

lemma new_stream_ok: "new_stream C s \<Longrightarrow> stream_ok C key s"
  by (simp add: new_stream_def stream_ok_def)

section \<open>The jobs of the stream\<close>

text \<open>C15. The stream holds one job for a submission, in every state the clients reach from a new stream: two entries of one
  submission are one entry.  Publishing adds the submission of the message and adds nothing for a submission that has an
  entry; receiving loses nothing, never raises and delivers a message that was published; giving a job up keeps it; and only
  the acknowledgement of its own entry takes a submission out.\<close>

theorem redis_keeps_jobs:
  assumes "redis_laws C" and "is_sha256 key" and "new_stream C s0" and "(redis_step C key)\<^sup>*\<^sup>* s0 s" and "rc_routing Q = key"
  shows "(\<forall>i j fs gs. rd_xrange C s i = Some fs \<and> rd_xrange C s j = Some gs \<and> submission_field fs = submission_field gs \<longrightarrow> i = j) \<and>
    (\<forall>m s'. code_points (jm_submission m) \<and> redis_publish C Q m s = Inr s' \<longrightarrow>
      (\<exists>sub. utf8 (jm_submission m) = Inr sub \<and> live C s' = insert sub (live C s))) \<and>
    (\<forall>t t' t'' r Q' s'. redis_receive C t t' t'' (Q, s) = (r, Q', s') \<longrightarrow> live C s' = live C s \<and>
      (r = Inr None \<or> (\<exists>d fs. r = Inr (Some d) \<and> publishable key (jd_message d) \<and> message_fields (jd_message d) = Inr fs \<and>
        rd_xrange C s (jd_id d) = Some fs))) \<and>
    (\<forall>d s'. redis_nack C Q d s = (True, s') \<longrightarrow> live C s' = live C s) \<and>
    (\<forall>d b s'. redis_ack C Q d s = (b, s') \<longrightarrow>
      live C s' = (if b then live C s - set_option (Option.bind (rd_xrange C s (jd_id d)) submission_field) else live C s))"
proof (intro conjI allI impI)
  have ok: "stream_ok C (rc_routing Q) s"
    using steps_ok [OF assms(4,1,2) new_stream_ok [OF assms(3)]] assms(5) by simp
  show "i = j" if "rd_xrange C s i = Some fs \<and> rd_xrange C s j = Some gs \<and> submission_field fs = submission_field gs" for i j fs gs
    using entry_unique [OF ok] that by blast
  show "\<exists>sub. utf8 (jm_submission m) = Inr sub \<and> live C s' = insert sub (live C s)"
    if "code_points (jm_submission m) \<and> redis_publish C Q m s = Inr s'" for m s'
    using redis_publish_ok [OF assms(1) _ ok, of m s'] assms(2,5) that by auto
  show "live C s' = (if b then live C s - set_option (Option.bind (rd_xrange C s (jd_id d)) submission_field) else live C s)"
    if "redis_ack C Q d s = (b, s')" for d b s'
    using redis_ack_ok [OF assms(1) ok that] by simp
  show "live C s' = live C s" if "redis_nack C Q d s = (True, s')" for d s'
    using redis_nack_ok [OF assms(1) ok that] by simp
  fix t t' t'' r Q' s'
  assume "redis_receive C t t' t'' (Q, s) = (r, Q', s')"
  then have takes: "takes C key (rc_consumer Q) s r s'"
    using receive_ok [OF assms(1) ok] assms(5) by metis
  then show "live C s' = live C s"
    by (intro live_same) (simp add: takes_def)
  show "r = Inr None \<or> (\<exists>d fs. r = Inr (Some d) \<and> publishable key (jd_message d) \<and> message_fields (jd_message d) = Inr fs \<and>
      rd_xrange C s (jd_id d) = Some fs)"
    using takes by (auto simp: takes_def same_jobs_def)
qed

section \<open>Receipts\<close>

text \<open>
  A receive is several commands, and between any two of them other clients act.  A history (latest event first) records the
  deliveries, where a receipt is stored for an entry, and the settlements, where a delivery is acknowledged or given up.  Each
  script is one step; \<open>read\<close> and \<open>registered\<close> are the two halves of taking a fresh entry, and \<open>discarded\<close> is the acknowledgement of
  an entry that breaks the contract.
\<close>

datatype receipt_event = Delivered pystr pystr pystr | Settled pystr pystr pystr

fun event_entry :: "receipt_event \<Rightarrow> pystr" where
  "event_entry (Delivered i c token) = i"
| "event_entry (Settled i c token) = i"

definition latest :: "pystr \<Rightarrow> receipt_event list \<Rightarrow> receipt_event option" where
  "latest i h = find (\<lambda>e. event_entry e = i) h"

definition reclaims :: "redis_client \<Rightarrow> pystr \<Rightarrow> (pystr \<times> stream_fields) option \<Rightarrow> receipt_event list" where
  "reclaims Q token claimed = (case claimed of None \<Rightarrow> [] | Some (i, _) \<Rightarrow> [Delivered i (rc_consumer Q) token])"

inductive redis_history :: "'r redis \<Rightarrow> receipt_event list \<Rightarrow> 'r \<Rightarrow> bool" for C where
  begun: "(\<And>i. rd_xpending C s i = None) \<Longrightarrow> (\<And>i. rd_hget C s Receipts i = None) \<Longrightarrow> redis_history C [] s"
| published: "redis_history C h s \<Longrightarrow> redis_publish C Q m s = Inr s' \<Longrightarrow> redis_history C h s'"
| reclaimed: "redis_history C h s \<Longrightarrow> take_reclaimed C token Q s = (claimed, Q', s') \<Longrightarrow>
    redis_history C (reclaims Q token claimed @ h) s'"
| read: "redis_history C h s \<Longrightarrow> rd_xreadgroup C c s = (r, s') \<Longrightarrow> redis_history C h s'"
| registered: "redis_history C h s \<Longrightarrow> register_receipt_script C i c token s = (b, s') \<Longrightarrow>
    redis_history C (if b then Delivered i c token # h else h) s'"
| discarded: "redis_history C h s \<Longrightarrow> ack_script C i c token s = (b, s') \<Longrightarrow>
    redis_history C (if b then Settled i c token # h else h) s'"
| acknowledged: "redis_history C h s \<Longrightarrow> redis_ack C Q d s = (b, s') \<Longrightarrow>
    redis_history C (if b then Settled (jd_id d) (rc_consumer Q) (jd_receipt d) # h else h) s'"
| given_up: "redis_history C h s \<Longrightarrow> redis_nack C Q d s = (b, s') \<Longrightarrow>
    redis_history C (if b then Settled (jd_id d) (rc_consumer Q) (jd_receipt d) # h else h) s'"

text \<open>What the receipts depend on, and what a history says of them.\<close>

definition receipts_of :: "'r redis \<Rightarrow> 'r \<Rightarrow> (pystr \<Rightarrow> pystr option) \<times> (pystr \<Rightarrow> pystr option)" where
  "receipts_of C s = (rd_xpending C s, rd_hget C s Receipts)"

definition receipts_ok :: "'r redis \<Rightarrow> receipt_event list \<Rightarrow> 'r \<Rightarrow> bool" where
  "receipts_ok C h s \<longleftrightarrow>
     (\<forall>i. rd_xpending C s i = None \<longrightarrow> rd_hget C s Receipts i = None) \<and>
     (\<forall>i c token. held_receipt C i c token s \<longrightarrow> latest i h = Some (Delivered i c token)) \<and>
     (\<forall>newer i c token older. h = newer @ Settled i c token # older \<longrightarrow> latest i older = Some (Delivered i c token))"

lemma latest_simps [simp]: "latest i [] = None" "latest i (e # h) = (if event_entry e = i then Some e else latest i h)"
  by (simp_all add: latest_def)

lemma receipts_same: "receipts_ok C h s \<Longrightarrow> receipts_of C s' = receipts_of C s \<Longrightarrow> receipts_ok C h s'"
  by (simp add: receipts_ok_def receipts_of_def held_receipt_def)

text \<open>An entry is given to a consumer with a token, or is settled; receipts of other entries stay or go.\<close>

lemma receipts_give:
  assumes "receipts_ok C h s" and "rd_xpending C s' i = Some c" and "rd_hget C s' Receipts i = Some token"
    and "\<And>j. j \<noteq> i \<Longrightarrow> rd_xpending C s' j = rd_xpending C s j \<and> rd_hget C s' Receipts j = rd_hget C s Receipts j \<or>
      rd_xpending C s' j = None \<and> rd_hget C s' Receipts j = None"
  shows "receipts_ok C (Delivered i c token # h) s'"
  unfolding receipts_ok_def
proof (intro conjI allI impI)
  show "rd_hget C s' Receipts j = None" if "rd_xpending C s' j = None" for j
    using that assms(1,2) assms(4) [of j] by (cases "j = i") (auto simp: receipts_ok_def)
  show "latest j (Delivered i c token # h) = Some (Delivered j c' token')" if held: "held_receipt C j c' token' s'" for j c' token'
  proof (cases "j = i")
    case True
    with held assms(2,3) show ?thesis
      by (simp add: held_receipt_def)
  next
    case False
    with held assms(4) [OF False] have "held_receipt C j c' token' s"
      by (auto simp: held_receipt_def)
    with assms(1) False show ?thesis
      by (simp add: receipts_ok_def)
  qed
  show "latest j older = Some (Delivered j c' token')" if split: "Delivered i c token # h = newer @ Settled j c' token' # older"
    for newer j c' token' older
    using split assms(1) by (cases newer) (auto simp: receipts_ok_def)
qed

lemma receipts_settle:
  assumes "receipts_ok C h s" and "held_receipt C i c token s" and "rd_xpending C s' = (rd_xpending C s)(i := None)"
    and "rd_hget C s' Receipts = (rd_hget C s Receipts)(i := None)"
  shows "receipts_ok C (Settled i c token # h) s'"
  unfolding receipts_ok_def
proof (intro conjI allI impI)
  show "rd_hget C s' Receipts j = None" if "rd_xpending C s' j = None" for j
    using that assms(1,3,4) by (auto simp: receipts_ok_def)
  show "latest j (Settled i c token # h) = Some (Delivered j c' token')" if "held_receipt C j c' token' s'" for j c' token'
    using that assms(1,3,4) by (auto simp: receipts_ok_def held_receipt_def split: if_splits)
  show "latest j older = Some (Delivered j c' token')" if "Settled i c token # h = newer @ Settled j c' token' # older"
    for newer j c' token' older
    using that assms(1,2) by (cases newer) (auto simp: receipts_ok_def)
qed

lemma publish_receipts:
  assumes "redis_laws C"
  shows "receipts_of C (publish_script C sub fs s) = receipts_of C s"
proof -
  have add: "receipts_of C (add_active C sub fs t) = receipts_of C t" for t
    using law_xadd(4,5) [OF assms] by (simp add: add_active_def receipts_of_def law_hashes [OF assms] split: prod.splits)
  then show ?thesis
    by (simp add: publish_script_def receipts_of_def law_hashes [OF assms] split: option.splits)
qed

lemma reclaim_receipts:
  assumes "redis_laws C" and "receipts_ok C h s" and "take_reclaimed C token Q s = (claimed, Q', s')"
  shows "receipts_ok C (reclaims Q token claimed @ h) s'"
proof -
  obtain k entry deleted s1 where claim: "rd_xautoclaim C (rc_consumer Q) (rc_visibility_ms Q) (rc_cursor Q) s = ((k, entry, deleted), s1)"
    by (cases "rd_xautoclaim C (rc_consumer Q) (rc_visibility_ms Q) (rc_cursor Q) s") auto
  let ?s2 = "case entry of None \<Rightarrow> s1 | Some (i, _) \<Rightarrow> rd_hset C Receipts i token s1"
  have s': "claimed = entry" "s' = fold (rd_hdel C Receipts) deleted ?s2"
    using assms(3) claim by (auto simp: take_reclaimed_def claim_stale_script_def)
  have claims: "xautoclaim_claims C"
    using assms(1) by (simp add: redis_laws_def)
  from claims [unfolded xautoclaim_claims_def, THEN spec, of "rc_consumer Q", THEN spec, of "rc_visibility_ms Q", THEN spec,
      of "rc_cursor Q", THEN spec, of s] claim
  have law: "\<And>i fs. entry = Some (i, fs) \<Longrightarrow> rd_xrange C s i = Some fs" "\<And>d. d \<in> set deleted \<Longrightarrow> rd_xrange C s d = None"
      "rd_xpending C s1 = (\<lambda>j. if j \<in> fst ` set_option entry then Some (rc_consumer Q) else if j \<in> set deleted then None else rd_xpending C s j)"
      "rd_hget C s1 = rd_hget C s"
    by (auto simp: seen_def)
  have gone: "rd_hget C (fold (rd_hdel C Receipts) ks t) Receipts j = (if j \<in> set ks then None else rd_hget C t Receipts j)" for ks t j
    by (induction ks arbitrary: t) (auto simp: law_hashes [OF assms(1)])
  have pending: "rd_xpending C (fold (rd_hdel C Receipts) ks t) = rd_xpending C t" for ks t
    using hdel_receipts [OF assms(1), of ks t] by simp
  show ?thesis
  proof (cases entry)
    case None
    have at: "rd_xpending C s' j = (if j \<in> set deleted then None else rd_xpending C s j)"
        "rd_hget C s' Receipts j = (if j \<in> set deleted then None else rd_hget C s Receipts j)" for j
      using s'(2) None law(3,4) by (simp_all add: pending gone)
    have "held_receipt C i c t s" if "held_receipt C i c t s'" for i c t
      using that by (auto simp: held_receipt_def at split: if_splits)
    with assms(2) show ?thesis
      by (simp add: s'(1) None reclaims_def receipts_ok_def at)
  next
    case (Some x)
    obtain i fs where x: "x = (i, fs)"
      by force
    have "i \<notin> set deleted"
      using law(1,2) Some x by fastforce
    with s'(2) Some x law(3,4) have at: "rd_xpending C s' i = Some (rc_consumer Q)" "rd_hget C s' Receipts i = Some token"
        "\<And>j. j \<noteq> i \<Longrightarrow> rd_xpending C s' j = rd_xpending C s j \<and> rd_hget C s' Receipts j = rd_hget C s Receipts j \<or>
          rd_xpending C s' j = None \<and> rd_hget C s' Receipts j = None"
      by (simp_all add: pending gone law_hashes [OF assms(1)])
    from receipts_give [OF assms(2) at] show ?thesis
      by (simp add: s'(1) Some x reclaims_def)
  qed
qed

lemma read_receipts:
  assumes "redis_laws C" and "receipts_ok C h s" and "rd_xreadgroup C c s = (r, s')"
  shows "receipts_ok C h s'"
proof -
  have "xreadgroup_delivers C"
    using assms(1) by (simp add: redis_laws_def)
  then have "case fst (rd_xreadgroup C c s) of None \<Rightarrow> seen C (snd (rd_xreadgroup C c s)) = seen C s
      | Some (i, fs) \<Rightarrow> rd_xrange C s i = Some fs \<and> rd_xpending C s i = None \<and>
          seen C (snd (rd_xreadgroup C c s)) = (rd_xrange C s, (rd_xpending C s)(i \<mapsto> c), rd_hget C s)"
    unfolding xreadgroup_delivers_def by blast
  then consider "receipts_of C s' = receipts_of C s"
    | i where "rd_xpending C s i = None" "rd_xpending C s' = (rd_xpending C s)(i \<mapsto> c)" "rd_hget C s' = rd_hget C s"
    using assms(3) by (auto simp: seen_def receipts_of_def split: option.splits)
  then show ?thesis
  proof cases
    case 1
    with assms(2) show ?thesis
      by (rule receipts_same)
  next
    case (2 i)
    then have "rd_hget C s' Receipts i = None"
      using assms(2) by (simp add: receipts_ok_def)
    then have "held_receipt C j c' t s" if "held_receipt C j c' t s'" for j c' t
      using that 2 by (auto simp: held_receipt_def split: if_splits)
    with assms(2) 2 show ?thesis
      by (auto simp: receipts_ok_def)
  qed
qed

lemma register_receipts:
  assumes "redis_laws C" and "receipts_ok C h s" and "register_receipt_script C i c token s = (b, s')"
  shows "receipts_ok C (if b then Delivered i c token # h else h) s'"
proof (cases b)
  case True
  then have "rd_xpending C s i = Some c" "s' = rd_hset C Receipts i token s"
    using assms(3) by (auto simp: register_receipt_script_def split: if_splits)
  with True receipts_give [OF assms(2), of s' i c token] show ?thesis
    by (simp add: law_hashes [OF assms(1)])
next
  case False
  with assms(2,3) show ?thesis
    by (auto simp: register_receipt_script_def split: if_splits)
qed

lemma ack_receipts:
  assumes "redis_laws C" and "receipts_ok C h s" and "ack_script C i c token s = (b, s')"
  shows "receipts_ok C (if b then Settled i c token # h else h) s'"
proof (cases "held_receipt C i c token s")
  case False
  with assms(2,3) show ?thesis
    by (simp add: ack_script_def)
next
  case True
  have acked: "fst (rd_xack C i s) = 1"
    using True law_xack(1) [OF assms(1)] by (simp add: held_receipt_def)
  let ?t = "rd_hdel C Receipts i (rd_xdel C i (snd (rd_xack C i s)))"
  have s': "b" "s' = release_active C i (rd_xrange C s i) ?t"
    using assms(3) True acked by (auto simp: ack_script_def Let_def case_prod_unfold)
  have "receipts_of C s' = receipts_of C ?t"
    using s'(2) by (auto simp: release_active_def receipts_of_def law_hashes [OF assms(1)] split: option.splits)
  with receipts_settle [OF assms(2) True, of s'] s'(1) show ?thesis
    by (simp add: receipts_of_def law_hashes [OF assms(1)] law_xdel [OF assms(1)] law_xack [OF assms(1)])
qed

lemma requeue_receipts:
  assumes "redis_laws C" and "receipts_ok C h s" and "requeue_script C i c token s = (b, s')"
  shows "receipts_ok C (if b then Settled i c token # h else h) s'"
proof (cases "held_receipt C i c token s \<and> rd_xrange C s i \<noteq> None")
  case False
  with assms(2,3) show ?thesis
    by (auto simp: requeue_script_def split: if_splits)
next
  case True
  then obtain fs where fs: "rd_xrange C s i = Some fs" "held_receipt C i c token s"
    by blast
  obtain j s1 where add: "rd_xadd C fs s = (j, s1)"
    by force
  let ?s2 = "case submission_field fs of None \<Rightarrow> s1 | Some sub \<Rightarrow> rd_hset C Active sub j s1"
  have s': "b" "s' = rd_hdel C Receipts i (rd_xdel C i (snd (rd_xack C i ?s2)))"
    using assms(3) fs by (auto simp: requeue_script_def Let_def add)
  have "receipts_of C ?s2 = receipts_of C s"
    using law_xadd(4,5) [OF assms(1) add] by (simp add: receipts_of_def law_hashes [OF assms(1)] split: option.splits)
  with receipts_settle [OF assms(2) fs(2), of s'] s' show ?thesis
    by (simp add: receipts_of_def law_hashes [OF assms(1)] law_xdel [OF assms(1)] law_xack [OF assms(1)])
qed

lemma history_receipts:
  assumes "redis_history C h s" and "redis_laws C"
  shows "receipts_ok C h s"
  using assms(1)
proof (induction rule: redis_history.induct)
  case (begun s)
  then show ?case
    by (simp add: receipts_ok_def held_receipt_def)
next
  case (published h s Q m s')
  then obtain sub fs where "s' = publish_script C sub fs s"
    by (auto simp: redis_publish_def rbind_Inr_iff)
  with receipts_same [OF published.IH] publish_receipts [OF assms(2)] show ?case
    by simp
next
  case (acknowledged h s Q d b s')
  show ?case
  proof (cases "jm_snapshot (jd_message d) = rc_routing Q")
    case True
    then have "ack_script C (jd_id d) (rc_consumer Q) (jd_receipt d) s = (b, s')"
      using acknowledged.hyps(2) by (simp add: redis_ack_def)
    from ack_receipts [OF assms(2) acknowledged.IH this] show ?thesis .
  qed (use acknowledged in \<open>simp add: redis_ack_def\<close>)
next
  case (given_up h s Q d b s')
  show ?case
  proof (cases "jm_snapshot (jd_message d) = rc_routing Q")
    case True
    then have "requeue_script C (jd_id d) (rc_consumer Q) (jd_receipt d) s = (b, s')"
      using given_up.hyps(2) by (simp add: redis_nack_def)
    from requeue_receipts [OF assms(2) given_up.IH this] show ?thesis .
  qed (use given_up in \<open>simp add: redis_nack_def\<close>)
qed (blast intro: reclaim_receipts [OF assms(2)] read_receipts [OF assms(2)] register_receipts [OF assms(2)] ack_receipts [OF assms(2)])+

text \<open>A receive is a run of these steps, and what it delivers can be settled by its receiver.\<close>

definition settleable :: "'r redis \<Rightarrow> redis_client \<Rightarrow> job_delivery option result \<Rightarrow> 'r \<Rightarrow> bool" where
  "settleable C Q r s \<longleftrightarrow> (\<forall>d. r = Inr (Some d) \<longrightarrow>
     held_receipt C (jd_id d) (rc_consumer Q) (jd_receipt d) s \<and> jm_snapshot (jd_message d) = rc_routing Q)"

definition extends :: "'r redis \<Rightarrow> redis_client \<Rightarrow> receipt_event list \<Rightarrow> job_delivery option result \<Rightarrow> 'r \<Rightarrow> bool" where
  "extends C Q h r s' \<longleftrightarrow> (\<exists>h'. redis_history C (h' @ h) s' \<and> settleable C Q r s')"

lemma extends_from: "redis_history C h s' \<Longrightarrow> settleable C Q r s' \<Longrightarrow> extends C Q h r s'"
  unfolding extends_def by (rule exI [of _ "[]"]) simp

lemma extends_more: "extends C Q (h' @ h) r s' \<Longrightarrow> extends C Q h r s'"
  unfolding extends_def by (metis append_assoc)

lemma extends_client: "extends C Q h r s' \<Longrightarrow> rc_consumer Q' = rc_consumer Q \<Longrightarrow> rc_routing Q' = rc_routing Q \<Longrightarrow> extends C Q' h r s'"
  by (simp add: extends_def settleable_def)

lemma delivered_extends:
  assumes "redis_history C h s" and "held_receipt C i (rc_consumer Q) token s" and "delivered C Q (i, fs) token s = (r, s')"
  shows "extends C Q h r s'"
proof (cases "delivery_from_entry Q i fs token")
  case (Inl e)
  obtain b where "ack_script C i (rc_consumer Q) token s = (b, s')" "r = Inl e"
    using assms(3) Inl by (cases "ack_script C i (rc_consumer Q) token s") (simp add: delivered_def)
  from redis_history.discarded [OF assms(1) this(1)]
  have "redis_history C ((if b then [Settled i (rc_consumer Q) token] else []) @ h) s'"
    by (cases b) simp_all
  then have "extends C Q ((if b then [Settled i (rc_consumer Q) token] else []) @ h) r s'"
    by (rule extends_from) (simp add: settleable_def \<open>r = Inl e\<close>)
  then show ?thesis
    by (rule extends_more)
next
  case (Inr d)
  then have "jd_id d = i" "jd_receipt d = token" "jm_snapshot (jd_message d) = rc_routing Q"
    by (auto simp: delivery_from_entry_def rbind_Inr_iff Let_def ensure_def split: if_splits)
  with assms Inr show ?thesis
    by (auto simp: delivered_def settleable_def intro: extends_from)
qed

lemma fresh_extends:
  assumes "redis_laws C" and "redis_history C h s" and "fresh_delivery C Q (i, fs) token s = (r, s')"
  shows "extends C Q h r s'"
proof (cases "rd_xpending C s i = Some (rc_consumer Q)")
  case False
  then have "r = Inr None" "s' = s"
    using assms(3) by (simp_all add: fresh_delivery_def register_receipt_script_def)
  with assms(2) show ?thesis
    by (simp add: settleable_def extends_from)
next
  case True
  let ?t = "rd_hset C Receipts i token s"
  have step: "register_receipt_script C i (rc_consumer Q) token s = (True, ?t)"
    using True by (simp add: register_receipt_script_def)
  then have "delivered C Q (i, fs) token ?t = (r, s')"
    using assms(3) by (simp add: fresh_delivery_def)
  moreover have "held_receipt C i (rc_consumer Q) token ?t"
    using True by (simp add: held_receipt_def law_hashes [OF assms(1)])
  ultimately have "extends C Q ([Delivered i (rc_consumer Q) token] @ h) r s'"
    using delivered_extends redis_history.registered [OF assms(2) step] by simp
  then show ?thesis
    by (rule extends_more)
qed

lemma reclaimed_extends:
  assumes "redis_laws C" and "redis_history C h s" and "take_reclaimed C token Q s = (Some (i, fs), Q', s1)"
    and "delivered C Q2 (i, fs) token s1 = (r, s')" and "rc_consumer Q2 = rc_consumer Q" and "rc_routing Q2 = rc_routing Q"
  shows "extends C Q h r s'"
proof -
  have "redis_history C ([Delivered i (rc_consumer Q) token] @ h) s1"
    using redis_history.reclaimed [OF assms(2,3)] by (simp add: reclaims_def)
  moreover have "held_receipt C i (rc_consumer Q2) token s1"
    using take_reclaimed_ok [OF assms(1,3)] assms(5) by simp
  ultimately have "extends C Q2 ([Delivered i (rc_consumer Q) token] @ h) r s'"
    by (rule delivered_extends [OF _ _ assms(4)])
  from extends_client [OF extends_more [OF this]] assms(5,6) show ?thesis
    by simp
qed

lemma receive_extends:
  assumes "redis_laws C" and "redis_history C h s" and "redis_receive C token token' token'' (Q, s) = (r, Q', s')"
  shows "extends C Q h r s'"
proof -
  define first where "first = rc_prefer_reclaimed Q"
  obtain claimed Q1 s1 where start: "(if first then take_reclaimed C token Q s else (None, Q, s)) = (claimed, Q1, s1)"
    by (cases "if first then take_reclaimed C token Q s else (None, Q, s)") auto
  have client: "rc_routing Q1 = rc_routing Q \<and> rc_consumer Q1 = rc_consumer Q"
    using start take_reclaimed_ok [OF assms(1)] by (metis Pair_inject)
  show ?thesis
  proof (cases claimed)
    case (Some entry)
    obtain i fs where entry: "entry = (i, fs)"
      by force
    have first: "first" "take_reclaimed C token Q s = (Some (i, fs), Q1, s1)"
      using start Some entry by (auto split: if_splits)
    have "delivered C (Q1\<lparr>rc_prefer_reclaimed := False\<rparr>) (i, fs) token s1 = (r, s')"
      using assms(3) start Some entry by (simp add: redis_receive_def first_def Let_def split: prod.splits)
    from reclaimed_extends [OF assms(1,2) first(2) this] client show ?thesis
      by simp
  next
    case None
    have h1: "redis_history C h s1"
      using start None assms(2) redis_history.reclaimed [OF assms(2), of token Q claimed Q1 s1] by (auto simp: reclaims_def split: if_splits)
    obtain found s2 where read: "rd_xreadgroup C (rc_consumer Q1) s1 = (found, s2)"
      by force
    have h2: "redis_history C h s2"
      by (rule redis_history.read [OF h1 read])
    show ?thesis
    proof (cases found)
      case (Some entry)
      obtain i fs where entry: "entry = (i, fs)"
        by force
      have "fresh_delivery C (Q1\<lparr>rc_prefer_reclaimed := True\<rparr>) (i, fs) token' s2 = (r, s')"
        using assms(3) start None read Some entry by (simp add: redis_receive_def first_def Let_def split: prod.splits)
      from extends_client [OF fresh_extends [OF assms(1) h2 this]] client show ?thesis
        by simp
    next
      case unread: None
      show ?thesis
      proof (cases first)
        case True
        then have "r = Inr None" "s' = s2"
          using assms(3) start None read unread by (simp_all add: redis_receive_def first_def Let_def split: prod.splits)
        with h2 show ?thesis
          by (simp add: settleable_def extends_from)
      next
        case False
        obtain claimed' Q3 s3 where again: "take_reclaimed C token'' Q1 s2 = (claimed', Q3, s3)"
          by (cases "take_reclaimed C token'' Q1 s2") auto
        show ?thesis
        proof (cases claimed')
          case none: None
          then have "r = Inr None" "s' = s3"
            using assms(3) start None read unread False again
            by (simp_all add: redis_receive_def first_def Let_def split: prod.splits)
          with redis_history.reclaimed [OF h2 again] none show ?thesis
            by (simp add: settleable_def extends_from reclaims_def)
        next
          case (Some entry)
          obtain i fs where entry: "entry = (i, fs)"
            by force
          have "delivered C (Q3\<lparr>rc_prefer_reclaimed := False\<rparr>) (i, fs) token'' s3 = (r, s')"
            using assms(3) start None read unread False again Some entry
            by (simp add: redis_receive_def first_def Let_def split: prod.splits)
          from reclaimed_extends [OF assms(1) h2 again [unfolded Some entry] this] take_reclaimed_ok [OF assms(1) again]
          have "extends C Q1 h r s'"
            by simp
          from extends_client [OF this] client show ?thesis
            by simp
        qed
      qed
    qed
  qed
qed

text \<open>C16. A receipt settles a job once, and only while it is the receipt of the entry's last delivery.  In every state that the
  clients' commands and scripts reach from a stream with no pending entry, interleaved in any order: an acknowledgement or a
  give-up succeeds only for the consumer and the receipt of the last event of that entry, which is a delivery; every settlement of
  the past was made by the receiver of the delivery just before it; and what a receive delivers can be acknowledged by its
  receiver, for whom it is then the last event of the entry.\<close>

theorem redis_receipt_is_exclusive:
  assumes "redis_laws C" and "redis_history C h s"
  shows "(\<forall>d s'. redis_ack C Q d s = (True, s') \<or> redis_nack C Q d s = (True, s') \<longrightarrow>
      latest (jd_id d) h = Some (Delivered (jd_id d) (rc_consumer Q) (jd_receipt d))) \<and>
    (\<forall>newer i c token older. h = newer @ Settled i c token # older \<longrightarrow> latest i older = Some (Delivered i c token)) \<and>
    (\<forall>t t' t'' d Q' s'. redis_receive C t t' t'' (Q, s) = (Inr (Some d), Q', s') \<longrightarrow>
      (\<exists>h'. redis_history C (h' @ h) s' \<and>
        latest (jd_id d) (h' @ h) = Some (Delivered (jd_id d) (rc_consumer Q) (jd_receipt d)) \<and> fst (redis_ack C Q d s')))"
proof (intro conjI allI impI)
  have ok: "receipts_ok C h s"
    by (rule history_receipts [OF assms(2,1)])
  show "latest (jd_id d) h = Some (Delivered (jd_id d) (rc_consumer Q) (jd_receipt d))"
    if "redis_ack C Q d s = (True, s') \<or> redis_nack C Q d s = (True, s')" for d s'
  proof -
    have "held_receipt C (jd_id d) (rc_consumer Q) (jd_receipt d) s"
      using that by (auto simp: redis_ack_def redis_nack_def ack_script_def requeue_script_def split: if_splits)
    with ok show ?thesis
      by (simp add: receipts_ok_def)
  qed
  show "latest i older = Some (Delivered i c token)" if "h = newer @ Settled i c token # older" for newer i c token older
    using ok that by (simp add: receipts_ok_def)
  fix t t' t'' d Q' s'
  assume "redis_receive C t t' t'' (Q, s) = (Inr (Some d), Q', s')"
  from receive_extends [OF assms this] obtain h' where h': "redis_history C (h' @ h) s'"
      "held_receipt C (jd_id d) (rc_consumer Q) (jd_receipt d) s'" "jm_snapshot (jd_message d) = rc_routing Q"
    by (auto simp: extends_def settleable_def)
  have "fst (rd_xack C (jd_id d) s') = 1"
    using h'(2) law_xack(1) [OF assms(1)] by (simp add: held_receipt_def)
  then have "fst (redis_ack C Q d s')"
    using h'(2,3) by (simp add: redis_ack_def ack_script_def Let_def case_prod_unfold)
  with h' history_receipts [OF h'(1) assms(1)] show "\<exists>h'. redis_history C (h' @ h) s' \<and>
      latest (jd_id d) (h' @ h) = Some (Delivered (jd_id d) (rc_consumer Q) (jd_receipt d)) \<and> fst (redis_ack C Q d s')"
    by (auto simp: receipts_ok_def)
qed

section \<open>A server in memory\<close>

text \<open>A server that keeps the laws: entries and pending entries are association lists, a new identifier is longer than all of
  them together, and every pending entry counts as stale.\<close>

record memory_server =
  ms_entries :: "(pystr \<times> stream_fields) list"
  ms_pending :: "(pystr \<times> pystr) list"
  ms_active :: "(nat list \<times> pystr) list"
  ms_receipts :: "(nat list \<times> pystr) list"

definition ms_hash :: "memory_server \<Rightarrow> queue_hash \<Rightarrow> (nat list \<times> pystr) list" where
  "ms_hash s h = (case h of Active \<Rightarrow> ms_active s | Receipts \<Rightarrow> ms_receipts s)"

definition ms_store :: "queue_hash \<Rightarrow> (nat list \<times> pystr) list \<Rightarrow> memory_server \<Rightarrow> memory_server" where
  "ms_store h al s = (case h of Active \<Rightarrow> s\<lparr>ms_active := al\<rparr> | Receipts \<Rightarrow> s\<lparr>ms_receipts := al\<rparr>)"

definition unused_id :: "memory_server \<Rightarrow> pystr" where
  "unused_id s = replicate (Suc (length (concat (map fst (ms_entries s))) + length (concat (map fst (ms_pending s))))) 49"

definition memory_redis :: "memory_server redis" where
  "memory_redis = \<lparr>
     rd_xadd = (\<lambda>fs s. (unused_id s, s\<lparr>ms_entries := ms_entries s @ [(unused_id s, fs)]\<rparr>)),
     rd_xrange = (\<lambda>s. map_of (ms_entries s)),
     rd_xdel = (\<lambda>i s. s\<lparr>ms_entries := AList.delete i (ms_entries s)\<rparr>),
     rd_xack = (\<lambda>i s. (if map_of (ms_pending s) i = None then 0 else 1, s\<lparr>ms_pending := AList.delete i (ms_pending s)\<rparr>)),
     rd_xpending = (\<lambda>s. map_of (ms_pending s)),
     rd_xautoclaim = (\<lambda>c idle k s. (case find (\<lambda>(i, _). map_of (ms_pending s) i \<noteq> None) (ms_entries s) of
        None \<Rightarrow> ((k, None, []), s)
      | Some (i, fs) \<Rightarrow> ((i, Some (i, fs), []), s\<lparr>ms_pending := (i, c) # ms_pending s\<rparr>))),
     rd_xreadgroup = (\<lambda>c s. (case find (\<lambda>(i, _). map_of (ms_pending s) i = None) (ms_entries s) of
        None \<Rightarrow> (None, s)
      | Some (i, fs) \<Rightarrow> (Some (i, fs), s\<lparr>ms_pending := (i, c) # ms_pending s\<rparr>))),
     rd_hget = (\<lambda>s h. map_of (ms_hash s h)),
     rd_hset = (\<lambda>h k v s. ms_store h ((k, v) # ms_hash s h) s),
     rd_hdel = (\<lambda>h k s. ms_store h (AList.delete k (ms_hash s h)) s)\<rparr>"

lemma find_entry:
  assumes "find (\<lambda>(i, _). P i) xs = Some (i, fs)"
  shows "map_of xs i = Some fs \<and> P i"
  using assms by (induction xs) (auto split: if_splits)

lemma key_length: "(k, v) \<in> set al \<Longrightarrow> length k \<le> length (concat (map fst al))"
  by (induction al) (auto simp: trans_le_add2)

lemma unused_id_new: "map_of (ms_entries s) (unused_id s) = None" "map_of (ms_pending s) (unused_id s) = None"
  using key_length [of "unused_id s" _ "ms_entries s"] key_length [of "unused_id s" _ "ms_pending s"]
  by (fastforce simp: map_of_eq_None_iff unused_id_def)+

lemma override_new: "m k = None \<Longrightarrow> [k \<mapsto> v] ++ m = m(k \<mapsto> v)"
  by (auto simp: map_add_def fun_eq_iff split: option.splits)

lemma ms_store_hash: "map_of (ms_hash (ms_store h al s) h') = (if h' = h then map_of al else map_of (ms_hash s h'))"
  "ms_entries (ms_store h al s) = ms_entries s" "ms_pending (ms_store h al s) = ms_pending s"
  by (cases h; cases h'; simp add: ms_hash_def ms_store_def)+

lemma memory_laws: "redis_laws memory_redis"
  unfolding redis_laws_def
proof (intro conjI)
  show "xadd_adds memory_redis"
    by (simp add: xadd_adds_def memory_redis_def seen_def unused_id_new override_new ms_hash_def fun_eq_iff cong: queue_hash.case_cong)
  show "xdel_deletes memory_redis" "xack_acknowledges memory_redis"
    by (simp_all add: xdel_deletes_def xack_acknowledges_def memory_redis_def seen_def delete_conv' ms_hash_def fun_eq_iff cong: queue_hash.case_cong)
  show "xreadgroup_delivers memory_redis"
    by (auto simp: xreadgroup_delivers_def memory_redis_def seen_def ms_hash_def fun_eq_iff dest!: find_entry split: option.splits queue_hash.splits)
  show "xautoclaim_claims memory_redis"
    by (auto simp: xautoclaim_claims_def memory_redis_def seen_def ms_hash_def fun_eq_iff dest!: find_entry split: option.splits queue_hash.splits)
  show "hashes_store memory_redis"
    by (auto simp: hashes_store_def memory_redis_def seen_def ms_store_hash delete_conv' fun_eq_iff)
qed

definition demo_client :: "string \<Rightarrow> redis_client" where
  "demo_client name = \<lparr>rc_routing = replicate 64 97, rc_visibility_ms = 45000, rc_consumer = u name, rc_cursor = u ''0-0'',
     rc_prefer_reclaimed = True\<rparr>"

definition redis_job :: job_message where
  "redis_job = \<lparr>jm_submission = u ''s1'', jm_identity = replicate 64 97, jm_snapshot = replicate 64 97\<rparr>"

definition demo_stream :: memory_server where
  "demo_stream = \<lparr>ms_entries = [], ms_pending = [], ms_active = [], ms_receipts = []\<rparr>"

definition redis_demo_fields :: stream_fields where
  "redis_demo_fields = [(u ''submission_id'', u ''s1''), (u ''evaluation_identity_sha256'', replicate 64 97),
     (u ''contract_snapshot_sha256'', replicate 64 97)]"

lemma redis_digest: "is_sha256 (replicate 64 97)"
  by (simp add: is_sha256_def u_def list_all_iff)

lemma redis_demo_fields: "message_fields redis_job = Inr redis_demo_fields"
proof -
  have "utf8 (replicate 64 97) = Inr (replicate 64 97)" "utf8 (u ''s1'') = Inr (u ''s1'')"
    by (rule utf8_ascii_text; simp add: u_def)+
  then show ?thesis
    by (simp add: message_fields_def redis_job_def redis_demo_fields_def)
qed

definition demo_publish :: "memory_server \<Rightarrow> memory_server" where
  "demo_publish s = publish_script memory_redis (u ''s1'') redis_demo_fields s"

lemma demo_publishes: "redis_publish memory_redis (demo_client name) redis_job s = Inr (demo_publish s)"
proof -
  have "submission_field redis_demo_fields = Some (u ''s1'')"
    by (simp add: submission_field_def redis_demo_fields_def)
  then show ?thesis
    using redis_digest by (simp add: redis_publish_def redis_demo_fields ensure_def demo_publish_def demo_client_def) (simp add: redis_job_def)
qed

lemma redis_demo_steps: "redis_step memory_redis (replicate 64 97) s (demo_publish s)"
  by (rule redis_step.publish [OF _ _ demo_publishes]) (simp_all add: demo_client_def redis_job_def code_points_def u_def)

lemma demo_new: "new_stream memory_redis demo_stream"
  by (simp add: new_stream_def memory_redis_def demo_stream_def ms_hash_def)

theorem redis_keeps_jobs_witness:
  "live memory_redis (demo_publish (demo_publish demo_stream)) = {u ''s1''}"
proof -
  have bytes: "utf8 (jm_submission redis_job) = Inr (u ''s1'')" "code_points (jm_submission redis_job)"
    by (simp_all add: redis_job_def code_points_def u_def utf8_ascii_text)
  have key: "rc_routing (demo_client ''A'') = replicate 64 97"
    by (simp add: demo_client_def)
  note keeps = redis_keeps_jobs [OF memory_laws redis_digest demo_new _ key, THEN conjunct2, THEN conjunct1, THEN spec, of _ redis_job, THEN spec]
  have "live memory_redis (demo_publish (demo_publish demo_stream)) = insert (u ''s1'') (live memory_redis (demo_publish demo_stream))"
    using keeps [OF r_into_rtranclp [of "redis_step memory_redis (replicate 64 97)"], OF redis_demo_steps] demo_publishes bytes by auto
  moreover have "live memory_redis (demo_publish demo_stream) = insert (u ''s1'') (live memory_redis demo_stream)"
    using keeps [OF rtranclp.rtrancl_refl] demo_publishes bytes by auto
  moreover have "live memory_redis demo_stream = {}"
    by (simp add: live_def memory_redis_def demo_stream_def)
  ultimately show ?thesis
    by simp
qed

definition demo_received :: "job_delivery option result \<times> redis_client \<times> memory_server" where
  "demo_received = redis_receive memory_redis (u ''t1'') (u ''t2'') (u ''t3'') (demo_client ''A'', demo_publish demo_stream)"

definition redis_delivery :: job_delivery where
  "redis_delivery = \<lparr>jd_id = [49], jd_message = redis_job, jd_receipt = u ''t2''\<rparr>"

lemma demo_received_first: "fst demo_received = Inr (Some redis_delivery)"
  by code_simp

theorem redis_receipt_is_exclusive_witness:
  "\<exists>h. latest [49] h = Some (Delivered [49] (u ''A'') (u ''t2'')) \<and>
     (case demo_received of (r, Q, s) \<Rightarrow> redis_history memory_redis h s \<and> fst (redis_ack memory_redis (demo_client ''A'') redis_delivery s))"
proof -
  obtain Q s where got: "demo_received = (Inr (Some redis_delivery), Q, s)"
    by (metis demo_received_first prod.collapse)
  have "redis_history memory_redis [] demo_stream"
    by (rule redis_history.begun) (simp_all add: memory_redis_def demo_stream_def ms_hash_def)
  from redis_history.published [OF this demo_publishes] have "redis_history memory_redis [] (demo_publish demo_stream)" .
  from redis_receipt_is_exclusive [OF memory_laws this, THEN conjunct2, THEN conjunct2, rule_format, OF got [unfolded demo_received_def]]
  show ?thesis
    by (auto simp: got redis_delivery_def demo_client_def)
qed

end
