(* ===== verification/Spec2Isabelle.thy ===== *)
theory Spec2Isabelle
  imports Store_Views Request_Identity Submission_System Worker_Outcomes Sample_Cache Auth_Service Sample_Scheduler Postgres_Store
    Admin_Service Registry Redis_Queue
begin

text \<open>
  Linguistic Online Judge: the verification library of the server package \<open>src/linguistic_oj\<close>.

  The program.  Students submit a prompt for a challenge, a set of annotated sentences with one task (segmentation, tagging,
  dependencies, transliteration).  The HTTP application (\<open>api.py\<close>) stores a submission and an outbox row in one transaction
  (\<open>submission_store.py\<close> or \<open>postgres_submission_store.py\<close>); a dispatcher publishes the outbox to a job queue
  (\<open>submission_jobs.py\<close> or \<open>redis_job_queue.py\<close>); workers claim submissions under a lease, run the challenge (\<open>runner.py\<close>):
  they build gold-free model inputs (\<open>model_inputs.py\<close>), call a model provider (\<open>providers.py\<close>) behind the executor state
  (\<open>executor_state.py\<close>, \<open>bounded_executor_state.py\<close>, \<open>sample_scheduler.py\<close>), parse the raw answers (\<open>responses.py\<close>), score
  (\<open>evaluation.py\<close>), aggregate (\<open>aggregation.py\<close>) and store the result, which the owner's views and the leaderboard show.
  Accounts (\<open>auth.py\<close>, \<open>auth_store.py\<close>, \<open>auth_mail.py\<close>, \<open>auth_routes.py\<close>) and the teaching policy (\<open>admin.py\<close>,
  \<open>admin_store.py\<close>) stand around this path.

  Conventions.  Text is a list of code points (\<open>pystr\<close>), an exception a value (\<open>py_exc\<close>), and a function that may raise
  returns \<open>py_exc + 'a\<close>, so that every raise and every early return is a branch.  A method that changes state takes the state
  and returns it.  A table is a list of records in insertion order, a transaction one function from the database to the
  database.  Python integers are \<open>int\<close>; floats are exact rationals rounded to binary64 by \<open>fl\<close> at each operation.
  Definitions keep the names of the source where Isabelle allows it.

  The theories, in the order of their imports, and what their lemmas show.

  Foundations.  \<open>Prelude\<close>: text, exceptions, the result monad.  \<open>Py_Float\<close>: binary64 rounding, with the locale
  \<open>float_rounding\<close> of what a client needs of it and its interpretation at \<open>fl\<close>.  \<open>Json\<close>, \<open>Json_Text\<close>, \<open>Json_Roundtrip\<close>,
  \<open>Ascii_Json\<close>: \<open>json.loads\<close> and \<open>json.dumps\<close> as the code calls them, with the limits that raise, and the round trips.

  Evaluation.  \<open>Responses\<close>: the strict response parser and its error codes; the pydantic models are the interface
  \<open>response_models\<close>, interpreted at \<open>reference_validate\<close>.  \<open>Evaluation\<close>: the scorers.  \<open>Model_Inputs\<close>: what may cross to a
  model; it does not depend on gold answers.  \<open>Dataset\<close>, \<open>Challenge\<close>, \<open>Aggregation\<close>, \<open>Providers\<close>, \<open>Runner\<close>: reading verified
  samples, validating and building challenges, aggregating outcomes, running a challenge; a run calls the provider at most
  once for a sample, with a request of the student's prompt and the sample's text and given tokens, and returns a complete
  result or none.  \<open>Demo_Challenge\<close>: the challenge of the witnesses.
  \<open>Evaluation_Contract\<close>: frozen contracts (\<open>mvp_contract.py\<close>) and canonical JSON.  \<open>Registry\<close>: the catalogue loader.
  \<open>Sample_Cache\<close>: the verified cache agrees with a fresh load.

  Submissions.  \<open>Submission_Store\<close>: one function for each method of the store.  \<open>Store_Lifecycle\<close>: the state machine of a
  row, \<open>store_step\<close> and the reachable states.  \<open>Store_Invariants\<close>, \<open>Store_Properties\<close>, \<open>Store_Views\<close>, \<open>Request_Identity\<close>:
  the invariant of every reachable state, limits, fencing of lost claims, idempotence, leaderboard and history.
  \<open>Postgres_Store\<close>: the second store answers every sequence of calls like the first one, when the database's collation orders
  handles by code point and no text parameter has a NUL, which PostgreSQL refuses; integer column widths are not modelled.  \<open>Job_Queue\<close>: the interface
  \<open>job_queue\<close>, with a multiset of held messages, and the in-memory queue that provides it.  \<open>Worker\<close>, \<open>Worker_Effects\<close>,
  \<open>Worker_System\<close>, \<open>Worker_Outcomes\<close>, \<open>Submission_System\<close>: dispatcher and worker, then the system of API, dispatcher, any
  number of workers and crashes over one store and any queue of the interface; no queued submission is stranded.
  \<open>Redis_Queue\<close>: the stream, the scripts and the client.  Its contract is a set of submissions rather than a multiset of
  messages, since it publishes a submission that has an entry only once, so it has theorems of its own: clients keep one
  entry for each submission, and over any interleaving of their commands only the last receiver of an entry settles it, once.

  Execution.  \<open>Executor_State\<close>: the serial executor, whose state file records a request before it starts; at most one model
  request runs whatever crashes or writes fail.  \<open>Bounded_Executor\<close>: the same with a bound on running requests and a latch
  after incidents.  \<open>Sample_Scheduler\<close>: admission, fair dispatch, completion, deadlines, publication
  (which may raise, and may remove a job so that it can be admitted again) and the end of a session.
  \<open>Availability\<close>: declared and probed availability, the executor's health, the cached probe of a local model.

  Accounts and policy.  \<open>Auth_Store\<close>: credentials, sessions, action tokens and rate limits as transactions.
  \<open>Auth_Service\<close>: the service, its mail queue and the request guard, where the transactions of other processes may fall
  between any two steps.  \<open>Admin_Store\<close>: the policy of a challenge, its revisions and the admission gate.
  \<open>Admin_Service\<close>: who may change it, and that the change is what students see.

  The application.  \<open>Api_Cursors\<close>: the page cursors.  \<open>Api\<close>: the handlers.  \<open>Api_Properties\<close>: admission as shown is
  admission as done, retries are safe, other users do not show, results follow the status, the history is read once by
  following cursors, and in every state of the system of \<open>Submission_System\<close> an accepted submission is stored as requested and,
  when it is queued, has a message in the queue.

  Bounds and fuel.  \<open>loads\<close> carries the recursion limit as a depth and stops at it as Python does, and integers stop at
  4300 digits (\<open>max_int_digits\<close>), so both limits are outcomes and not cuts of the model.  The other recursions are structural
  or have a measure.  \<open>read_history\<close>, the client of the history pages, has fuel; the number of rows plus one is
  enough, as the property on reading the history proves.  The probe of a runtime, the mail worker and the scheduler are steps, and their loops are
  sequences of steps.

  Parameters.  Code that is not in the package is an argument: SHA-256 (\<open>rt_sha\<close>), Argon2, pydantic validation of texts,
  \<open>repr\<close> of floats, case folding, the clocks and random identifiers, address and e-mail syntax, the file system, the collation
  and the ordering of PostgreSQL, the Redis commands.  What a theorem needs of one is a named hypothesis that states its
  documentation, such as \<open>redis_laws\<close> (each command changes what it names) or \<open>stamps_ok\<close> (stored times are written in an
  order-preserving format); the witnesses instantiate it by a concrete function.

  Not modelled.  The HTTP framework: routing, middleware, headers, error pages, static files, the parsing of bodies.  The
  Qwen runtime (\<open>qwen_*.py\<close>) and the request executor (\<open>request_*.py\<close>), which supervise an external model server, and
  \<open>bounded_dispatch.py\<close>, a thread pool over the operations of \<open>Bounded_Executor\<close>.  Measurement and studies
  (\<open>generation_stages.py\<close>, \<open>kernel_trace.py\<close>, \<open>input_processing_profile.py\<close>, \<open>compact_dependency.py\<close>,
  \<open>dependency_protocol_study.py\<close>).  Schema migrations, which the database runs.  Configuration and process set-up
  (\<open>connection_config.py\<close>, \<open>auth_config.py\<close>, \<open>local_dev.py\<close>, \<open>capacity_target.py\<close>), and the command-line scripts.  HTTP
  transport and probing in \<open>providers.py\<close>, writing of artifacts in \<open>challenge.py\<close> and \<open>registry_extension.py\<close>, and the list
  view of \<open>admin.py\<close>.
\<close>

end
